(* ===== verification/Ctunnel_Prelude.thy ===== *)
theory Ctunnel_Prelude
  imports Main "HOL-Library.Word"
begin

text \<open>
  The vocabulary shared by every theory of the development: machine integers and byte strings,
  the outcome of a C routine (a value, an error return, or undefined behaviour), checked reads and
  writes on fixed-size C buffers, C strings, and the generic list lemmas the components use.
\<close>

section \<open>Machine types\<close>

type_synonym u8 = "8 word"
type_synonym u16 = "16 word"
type_synonym u32 = "32 word"
type_synonym u64 = "64 word"
type_synonym bytes = "u8 list"

text \<open>
  \<open>size_t\<close> values are natural numbers: every subtraction of the code on them is guarded, and the
  guards are kept in the definitions, so the truncation of \<open>nat\<close> subtraction is never reached.
\<close>

abbreviation uint64_max :: u64 where
  "uint64_max \<equiv> 0xFFFFFFFFFFFFFFFF"

section \<open>Outcomes of a C routine\<close>

text \<open>
  \<open>Ok\<close> is a normal return with a result, \<open>Err\<close> the error return (\<open>-1\<close>) of the code, and \<open>Fault\<close>
  an execution that reads or writes outside a C object, that is, undefined behaviour.
  Memory safety of a routine is the statement that it never evaluates to \<open>Fault\<close>.
\<close>

datatype 'a res = Ok 'a | Err | Fault

definition andthen :: "'a res \<Rightarrow> ('a \<Rightarrow> 'b res) \<Rightarrow> 'b res" where
  "andthen r f = (case r of Ok x \<Rightarrow> f x | Err \<Rightarrow> Err | Fault \<Rightarrow> Fault)"

text \<open>\<open>ensure b r\<close>: the early return \<open>if (!b) return -1;\<close> before \<open>r\<close>.\<close>

definition ensure :: "bool \<Rightarrow> 'a res \<Rightarrow> 'a res" where
  "ensure b r = (if b then r else Err)"

definition is_ok :: "'a res \<Rightarrow> bool" where
  "is_ok r = (case r of Ok _ \<Rightarrow> True | _ \<Rightarrow> False)"

named_theorems res_simps \<open>evaluation and inversion of outcomes\<close>
named_theorems buf_simps \<open>evaluation of checked buffer accesses\<close>
named_theorems codec_simps \<open>decoding a field that was just encoded\<close>

lemma andthen_Ok [simp]: "andthen (Ok x) f = f x"
  and andthen_Err [simp]: "andthen Err f = Err"
  and andthen_Fault [simp]: "andthen Fault f = Fault"
  by (simp_all add: andthen_def)

lemma ensure_True [simp]: "ensure True r = r"
  and ensure_False [simp]: "ensure False r = Err"
  by (simp_all add: ensure_def)

lemma ensure_iff [res_simps]:
  "ensure b r = Ok x \<longleftrightarrow> b \<and> r = Ok x"
  "ensure b r = Fault \<longleftrightarrow> b \<and> r = Fault"
  "ensure b r = Err \<longleftrightarrow> \<not> b \<or> r = Err"
  by (simp_all add: ensure_def)

lemma andthen_iff [res_simps]:
  "andthen r f = Ok y \<longleftrightarrow> (\<exists>x. r = Ok x \<and> f x = Ok y)"
  "andthen r f = Fault \<longleftrightarrow> r = Fault \<or> (\<exists>x. r = Ok x \<and> f x = Fault)"
  "andthen r f = Err \<longleftrightarrow> r = Err \<or> (\<exists>x. r = Ok x \<and> f x = Err)"
  by (simp_all add: andthen_def split: res.splits)

lemma is_ok_simps [simp]: "is_ok (Ok x)" "\<not> is_ok Err" "\<not> is_ok Fault"
  by (simp_all add: is_ok_def)

lemma is_ok_iff: "is_ok r \<longleftrightarrow> (\<exists>x. r = Ok x)"
  by (cases r) simp_all

lemma andthen_assoc: "andthen (andthen r f) g = andthen r (\<lambda>x. andthen (f x) g)"
  by (simp add: andthen_def split: res.splits)

lemma andthen_ensure: "andthen (ensure b r) f = ensure b (andthen r f)"
  by (simp add: ensure_def)

section \<open>Buffers\<close>

text \<open>
  A buffer that is filled from the front is the list of the bytes written so far; its C capacity is
  an argument. \<open>emit cap out bs\<close> is \<open>memcpy(buf + offset, bs, n); offset += n\<close> with
  \<open>offset = length out\<close>: it faults when the copy would leave the buffer.
\<close>

definition emit :: "nat \<Rightarrow> bytes \<Rightarrow> bytes \<Rightarrow> bytes res" where
  "emit cap out bs = (if length out + length bs \<le> cap then Ok (out @ bs) else Fault)"

text \<open>A run of copies into the same buffer.\<close>

fun emits :: "nat \<Rightarrow> bytes \<Rightarrow> bytes list \<Rightarrow> bytes res" where
  "emits cap out [] = Ok out"
| "emits cap out (bs # rest) = andthen (emit cap out bs) (\<lambda>out'. emits cap out' rest)"

text \<open>\<open>rd b off n\<close> reads \<open>n\<close> bytes at \<open>b + off\<close>; a read outside \<open>b\<close> faults.\<close>

definition rd :: "bytes \<Rightarrow> nat \<Rightarrow> nat \<Rightarrow> bytes res" where
  "rd b off n = (if off + n \<le> length b then Ok (take n (drop off b)) else Fault)"

definition rd_u8 :: "bytes \<Rightarrow> nat \<Rightarrow> u8 res" where
  "rd_u8 b off = (if off < length b then Ok (b ! off) else Fault)"

lemma emit_Ok_iff [res_simps]: "emit cap out bs = Ok out' \<longleftrightarrow>
    length out + length bs \<le> cap \<and> out' = out @ bs"
  by (auto simp: emit_def)

lemma emit_not_Err [simp]: "emit cap out bs \<noteq> Err"
  by (simp add: emit_def)

lemma emit_fits [buf_simps]: "length out + length bs \<le> cap \<Longrightarrow> emit cap out bs = Ok (out @ bs)"
  by (simp add: emit_def)

lemma emits_eq:
  "emits cap out bss =
     (if length out + length (concat bss) \<le> cap \<or> bss = [] then Ok (out @ concat bss) else Fault)"
proof (induction bss arbitrary: out)
  case Nil
  then show ?case by simp
next
  case (Cons bs bss)
  show ?case
  proof (cases "length out + length bs \<le> cap")
    case True
    then show ?thesis using Cons.IH [of "out @ bs"] by (auto simp: emit_def)
  next
    case False
    then show ?thesis by (simp add: emit_def)
  qed
qed

lemma emits_fits [buf_simps]:
  "length out + length (concat bss) \<le> cap \<Longrightarrow> emits cap out bss = Ok (out @ concat bss)"
  by (simp add: emits_eq)

lemma rd_fits [buf_simps]: "off + n \<le> length b \<Longrightarrow> rd b off n = Ok (take n (drop off b))"
  by (simp add: rd_def)

lemma rd_u8_fits [buf_simps]: "off < length b \<Longrightarrow> rd_u8 b off = Ok (b ! off)"
  by (simp add: rd_u8_def)

lemma rd_iff [res_simps]:
  "rd b off n = Ok bs \<longleftrightarrow> off + n \<le> length b \<and> bs = take n (drop off b)"
  "rd b off n = Fault \<longleftrightarrow> length b < off + n"
  "rd_u8 b off = Ok x \<longleftrightarrow> off < length b \<and> x = b ! off"
  "rd_u8 b off = Fault \<longleftrightarrow> length b \<le> off"
  by (auto simp: rd_def rd_u8_def)

lemma rd_not_Err [simp]: "rd b off n \<noteq> Err" "rd_u8 b off \<noteq> Err"
  by (simp_all add: rd_def rd_u8_def)

lemma rd_append [codec_simps]:
  "off = length pre \<Longrightarrow> n = length mid \<Longrightarrow> rd (pre @ mid @ post) off n = Ok mid"
  by (simp add: rd_def)

lemma rd_u8_append [codec_simps]:
  "off = length pre \<Longrightarrow> rd_u8 (pre @ [x] @ post) off = Ok x"
  by (simp add: rd_u8_def nth_append)

section \<open>C strings\<close>

text \<open>
  The value of a NUL-terminated array is the byte list before its first NUL. \<open>cstr\<close> is what
  \<open>strlen\<close>, \<open>strcmp\<close> and \<open>memcpy(.., strlen(s) + 1)\<close> see of an array with content \<open>bs\<close>.
\<close>

definition cstr :: "bytes \<Rightarrow> bytes" where
  "cstr bs = takeWhile (\<lambda>b. b \<noteq> 0) bs"

definition nul_free :: "bytes \<Rightarrow> bool" where
  "nul_free bs = list_all (\<lambda>b. b \<noteq> 0) bs"

text \<open>The bytes of a string literal of the source.\<close>

definition lit :: "string \<Rightarrow> bytes" where
  "lit s = map of_char s"

lemma length_lit [simp]: "length (lit s) = length s"
  by (simp add: lit_def)

lemma cstr_nul_free [simp]: "nul_free bs \<Longrightarrow> cstr bs = bs"
  by (simp add: cstr_def nul_free_def list_all_iff)

lemma nul_free_cstr [simp]: "nul_free (cstr bs)"
  by (simp add: cstr_def nul_free_def list_all_iff) (metis set_takeWhileD)

lemma length_cstr_le: "length (cstr bs) \<le> length bs"
  by (simp add: cstr_def length_takeWhile_le)

section \<open>Generic list lemmas\<close>

lemma append_eq_same_length:
  "length xs = length ys \<Longrightarrow> xs @ us = ys @ vs \<longleftrightarrow> xs = ys \<and> us = vs"
  by simp

lemma take_drop_eqI: "take n xs = take n ys \<Longrightarrow> drop n xs = drop n ys \<Longrightarrow> xs = ys"
  by (metis append_take_drop_id)

lemma list_of_length_0: "length xs = 0 \<longleftrightarrow> xs = []"
  by simp

lemma length_eq_numeral_ConsD:
  "length xs = Suc n \<Longrightarrow> \<exists>y ys. xs = y # ys \<and> length ys = n"
  by (simp add: length_Suc_conv)

end
