(* ===== verification/Autoconf.thy ===== *)
theory Autoconf
  imports Ctunnel_Prelude
begin

text \<open>
  The compile-time configuration. Every \<open>CONFIG_*\<close> symbol reaches the C code through the generated
  header \<open>generated/autoconf.h\<close>, so it is a parameter of the model: the record \<open>autoconf\<close> is an
  argument of every definition that uses such a symbol. What the build system guarantees about the
  symbols is \<open>kconfig_ranges\<close>, the ranges declared in \<open>src/Kconfig\<close>; three shipped
  configurations are given as concrete values.
\<close>

section \<open>The generated configuration header\<close>

record autoconf =
  k_max_client_id :: nat
  k_max_service_id :: nat
  k_max_addr :: nat
  k_max_path :: nat
  k_max_services :: nat
  k_max_clients :: nat
  k_max_port_ranges :: nat
  k_max_frame :: nat
  k_max_udp_sessions :: nat
  k_max_udp_datagram :: nat
  k_udp_replay_window :: nat
  k_stream_buffer :: nat
  k_control_buffer :: nat
  k_max_streams :: nat
  k_max_pending :: nat
  k_default_max_streams :: nat
  k_default_max_pending :: nat
  k_default_pool_count :: nat
  k_client :: bool
  k_server :: bool
  k_ipv4 :: bool
  k_ipv6 :: bool
  k_udp :: bool
  k_proxy :: bool
  k_proxy_v1 :: bool
  k_proxy_v2 :: bool
  k_data_encryption :: bool
  k_work_pool :: bool
  k_env_override :: bool
  k_cli_override :: bool
  k_config_test :: bool
  k_log_max :: nat

text \<open>The \<open>range\<close> clauses of the resource symbols.\<close>

definition kconfig_ranges :: "autoconf \<Rightarrow> bool" where
  "kconfig_ranges k \<longleftrightarrow>
     1 \<le> k_max_clients k \<and> k_max_clients k \<le> 64 \<and>
     1 \<le> k_max_services k \<and> k_max_services k \<le> 256 \<and>
     1 \<le> k_max_streams k \<and> k_max_streams k \<le> 4096 \<and>
     1 \<le> k_max_pending k \<and> k_max_pending k \<le> 1024 \<and>
     1 \<le> k_max_udp_sessions k \<and> k_max_udp_sessions k \<le> 8192 \<and>
     512 \<le> k_max_udp_datagram k \<and> k_max_udp_datagram k \<le> 65507 \<and>
     64 \<le> k_udp_replay_window k \<and> k_udp_replay_window k \<le> 128 \<and>
     4096 \<le> k_max_frame k \<and> k_max_frame k \<le> 1048576 \<and>
     8 \<le> k_max_client_id k \<and> k_max_client_id k \<le> 256 \<and>
     8 \<le> k_max_service_id k \<and> k_max_service_id k \<le> 256 \<and>
     16 \<le> k_max_addr k \<and> k_max_addr k \<le> 512 \<and>
     64 \<le> k_max_path k \<and> k_max_path k \<le> 2048 \<and>
     1 \<le> k_max_port_ranges k \<and> k_max_port_ranges k \<le> 128 \<and>
     4096 \<le> k_stream_buffer k \<and> k_stream_buffer k \<le> 262144 \<and>
     256 \<le> k_control_buffer k \<and> k_control_buffer k \<le> 65536 \<and>
     1 \<le> k_default_max_streams k \<and> k_default_max_streams k \<le> k_max_streams k \<and>
     1 \<le> k_default_max_pending k \<and> k_default_max_pending k \<le> k_max_pending k \<and>
     k_default_pool_count k \<le> 64"

section \<open>Shipped configurations\<close>

definition default_defconfig :: autoconf where
  "default_defconfig = \<lparr>
     k_max_client_id = 64, k_max_service_id = 64, k_max_addr = 128, k_max_path = 512,
     k_max_services = 32, k_max_clients = 4, k_max_port_ranges = 32, k_max_frame = 1048576,
     k_max_udp_sessions = 1024, k_max_udp_datagram = 1472, k_udp_replay_window = 64,
     k_stream_buffer = 65536, k_control_buffer = 4096, k_max_streams = 256, k_max_pending = 256,
     k_default_max_streams = 256, k_default_max_pending = 256, k_default_pool_count = 16,
     k_client = True, k_server = True, k_ipv4 = True, k_ipv6 = True, k_udp = True,
     k_proxy = True, k_proxy_v1 = True, k_proxy_v2 = True, k_data_encryption = True,
     k_work_pool = True, k_env_override = False, k_cli_override = True, k_config_test = True,
     k_log_max = 2 \<rparr>"

definition full_defconfig :: autoconf where
  "full_defconfig = \<lparr>
     k_max_client_id = 128, k_max_service_id = 128, k_max_addr = 256, k_max_path = 1024,
     k_max_services = 128, k_max_clients = 64, k_max_port_ranges = 64, k_max_frame = 1048576,
     k_max_udp_sessions = 1024, k_max_udp_datagram = 1472, k_udp_replay_window = 64,
     k_stream_buffer = 131072, k_control_buffer = 16384, k_max_streams = 512, k_max_pending = 256,
     k_default_max_streams = 512, k_default_max_pending = 256, k_default_pool_count = 16,
     k_client = True, k_server = True, k_ipv4 = True, k_ipv6 = True, k_udp = True,
     k_proxy = True, k_proxy_v1 = True, k_proxy_v2 = True, k_data_encryption = True,
     k_work_pool = True, k_env_override = True, k_cli_override = True, k_config_test = True,
     k_log_max = 3 \<rparr>"

definition mini_defconfig :: autoconf where
  "mini_defconfig = \<lparr>
     k_max_client_id = 32, k_max_service_id = 32, k_max_addr = 64, k_max_path = 256,
     k_max_services = 4, k_max_clients = 1, k_max_port_ranges = 8, k_max_frame = 16384,
     k_max_udp_sessions = 1024, k_max_udp_datagram = 1472, k_udp_replay_window = 64,
     k_stream_buffer = 16384, k_control_buffer = 1024, k_max_streams = 8, k_max_pending = 4,
     k_default_max_streams = 8, k_default_max_pending = 4, k_default_pool_count = 1,
     k_client = False, k_server = True, k_ipv4 = False, k_ipv6 = True, k_udp = False,
     k_proxy = False, k_proxy_v1 = False, k_proxy_v2 = False, k_data_encryption = False,
     k_work_pool = True, k_env_override = False, k_cli_override = False, k_config_test = False,
     k_log_max = 1 \<rparr>"

lemmas defconfig_defs = default_defconfig_def full_defconfig_def mini_defconfig_def

lemma shipped_configs_in_range:
  "kconfig_ranges default_defconfig" "kconfig_ranges full_defconfig" "kconfig_ranges mini_defconfig"
  by (simp_all add: kconfig_ranges_def defconfig_defs)

end
