(* ===== verification/Wire.thy ===== *)
theory Wire
  imports Autoconf
begin

text \<open>
  The wire format of \<open>src/src/protocol/protocol.c\<close>: big-endian integers, the 36-byte frame
  header, length-prefixed strings, the header of an encrypted data record and the payload of a
  service registration. Every decoder is modelled with checked reads; the theorems show that no
  decoder reads outside its input, that decoding inverts encoding, and that an accepted header has
  exactly one encoding. The locale \<open>wire_field\<close> is the contract of one encoded field; the
  composite messages of later theories are decoded through it.
\<close>

unbundle bit_operations_syntax

section \<open>Integers in network byte order\<close>

definition ct_put_u16 :: "u16 \<Rightarrow> bytes" where
  "ct_put_u16 v = [ucast (drop_bit 8 v), ucast v]"

definition ct_put_u32 :: "u32 \<Rightarrow> bytes" where
  "ct_put_u32 v = [ucast (drop_bit 24 v), ucast (drop_bit 16 v), ucast (drop_bit 8 v), ucast v]"

text \<open>The loop of \<open>ct_put_u64\<close> fills \<open>p[7]\<close> down to \<open>p[0]\<close>, shifting \<open>v\<close> each time.\<close>

fun put_u64_loop :: "nat \<Rightarrow> u64 \<Rightarrow> bytes \<Rightarrow> bytes" where
  "put_u64_loop 0 v acc = acc"
| "put_u64_loop (Suc i) v acc = put_u64_loop i (drop_bit 8 v) (ucast v # acc)"

definition ct_put_u64 :: "u64 \<Rightarrow> bytes" where
  "ct_put_u64 v = put_u64_loop 8 v []"

definition ct_get_u16 :: "bytes \<Rightarrow> u16" where
  "ct_get_u16 p = push_bit 8 (ucast (p ! 0)) OR ucast (p ! 1)"

definition ct_get_u32 :: "bytes \<Rightarrow> u32" where
  "ct_get_u32 p = push_bit 24 (ucast (p ! 0)) OR push_bit 16 (ucast (p ! 1)) OR
     push_bit 8 (ucast (p ! 2)) OR ucast (p ! 3)"

definition ct_get_u64 :: "bytes \<Rightarrow> u64" where
  "ct_get_u64 p = fold (\<lambda>b v. push_bit 8 v OR ucast b) (take 8 p) 0"

definition rd_u16 :: "bytes \<Rightarrow> nat \<Rightarrow> u16 res" where
  "rd_u16 b off = andthen (rd b off 2) (\<lambda>p. Ok (ct_get_u16 p))"

definition rd_u32 :: "bytes \<Rightarrow> nat \<Rightarrow> u32 res" where
  "rd_u32 b off = andthen (rd b off 4) (\<lambda>p. Ok (ct_get_u32 p))"

definition rd_u64 :: "bytes \<Rightarrow> nat \<Rightarrow> u64 res" where
  "rd_u64 b off = andthen (rd b off 8) (\<lambda>p. Ok (ct_get_u64 p))"

lemma length_put [simp]:
  "length (ct_put_u16 v) = 2" "length (ct_put_u32 w) = 4" "length (ct_put_u64 x) = 8"
  by (simp_all add: ct_put_u16_def ct_put_u32_def ct_put_u64_def eval_nat_numeral)

text \<open>One step of a big-endian read undoes one step of a big-endian write.\<close>

lemma get_put_step [simp]:
  "push_bit 8 (drop_bit (n + 8) v) OR ucast (ucast (drop_bit n v) :: u8) =
     drop_bit n (v :: 'a::len word)"
proof (rule bit_word_eqI)
  fix m
  assume "m < LENGTH('a)"
  then show "bit (push_bit 8 (drop_bit (n + 8) v) OR ucast (ucast (drop_bit n v) :: u8)) m =
      bit (drop_bit n v) m"
    by (cases "m < 8") (auto simp: bit_simps ac_simps)
qed

lemma get_put_top [simp]:
  "ucast (ucast (drop_bit 8 v) :: u8) = drop_bit 8 (v :: u16)"
  "ucast (ucast (drop_bit 24 w) :: u8) = drop_bit 24 (w :: u32)"
  "ucast (ucast (drop_bit 56 x) :: u8) = drop_bit 56 (x :: u64)"
  by (rule bit_word_eqI; auto simp: bit_simps dest: bit_imp_le_length)+

lemma get_put_u16 [simp]: "ct_get_u16 (ct_put_u16 v) = v"
  using get_put_step [of 0 v] by (simp add: ct_get_u16_def ct_put_u16_def)

lemma ct_get_u32_eq: "ct_get_u32 [a, b, c, d] =
    push_bit 8 (push_bit 8 (push_bit 8 (ucast a) OR ucast b) OR ucast c) OR ucast d"
  by (simp add: ct_get_u32_def push_bit_or or.assoc)

lemma get_put_u32 [simp]: "ct_get_u32 (ct_put_u32 v) = v"
  using get_put_step [of 16 v] get_put_step [of 8 v] get_put_step [of 0 v]
  by (simp add: ct_get_u32_eq ct_put_u32_def)

lemma ct_put_u64_eq: "ct_put_u64 v =
    [ucast (drop_bit 56 v), ucast (drop_bit 48 v), ucast (drop_bit 40 v), ucast (drop_bit 32 v),
     ucast (drop_bit 24 v), ucast (drop_bit 16 v), ucast (drop_bit 8 v), ucast v]"
  by (simp add: ct_put_u64_def eval_nat_numeral)

lemma get_put_u64 [simp]: "ct_get_u64 (ct_put_u64 v) = v"
  using get_put_step [of 48 v] get_put_step [of 40 v] get_put_step [of 32 v]
    get_put_step [of 24 v] get_put_step [of 16 v] get_put_step [of 8 v] get_put_step [of 0 v]
  by (simp add: ct_get_u64_def ct_put_u64_eq)

lemma put_inj [simp]:
  "ct_put_u16 a = ct_put_u16 b \<longleftrightarrow> a = b" "ct_put_u32 c = ct_put_u32 d \<longleftrightarrow> c = d"
  "ct_put_u64 e = ct_put_u64 f \<longleftrightarrow> e = f"
  by (metis get_put_u16, metis get_put_u32, metis get_put_u64)

text \<open>
  The converse needs no bit arithmetic: an injection between finite sets of equal size is onto.
\<close>

lemma put_get_by_counting:
  fixes f :: "'a::finite \<Rightarrow> bytes"
  assumes len: "\<And>v. length (f v) = n" and inv: "\<And>v. g (f v) = v"
    and card: "CARD('a) = 256 ^ n" and p: "length p = n"
  shows "f (g p) = p"
proof -
  have "inj f" by (rule inj_on_inverseI [of _ g]) (simp add: inv)
  moreover have fin: "finite {xs :: bytes. length xs = n}"
    and num: "card {xs :: bytes. length xs = n} = 256 ^ n"
    using finite_lists_length_eq [of "UNIV :: u8 set" n] card_lists_length_eq [of "UNIV :: u8 set" n]
    by (simp_all add: card_word)
  ultimately have "range f = {xs. length xs = n}"
    using len card by (intro card_subset_eq) (auto simp: card_image)
  with p obtain v where "p = f v" by blast
  then show ?thesis by (simp add: inv)
qed

lemma put_get [simp]:
  "length p = 2 \<Longrightarrow> ct_put_u16 (ct_get_u16 p) = p"
  "length q = 4 \<Longrightarrow> ct_put_u32 (ct_get_u32 q) = q"
  "length r = 8 \<Longrightarrow> ct_put_u64 (ct_get_u64 r) = r"
  by (rule put_get_by_counting [where n = 2]; simp add: card_word)
    (rule put_get_by_counting [where n = 4] put_get_by_counting [where n = 8]; simp add: card_word)+

lemma rd_ints_iff [res_simps]:
  "rd_u16 b off = Ok v \<longleftrightarrow> off + 2 \<le> length b \<and> v = ct_get_u16 (take 2 (drop off b))"
  "rd_u16 b off = Fault \<longleftrightarrow> length b < off + 2"
  "rd_u32 b off = Ok w \<longleftrightarrow> off + 4 \<le> length b \<and> w = ct_get_u32 (take 4 (drop off b))"
  "rd_u32 b off = Fault \<longleftrightarrow> length b < off + 4"
  "rd_u64 b off = Ok x \<longleftrightarrow> off + 8 \<le> length b \<and> x = ct_get_u64 (take 8 (drop off b))"
  "rd_u64 b off = Fault \<longleftrightarrow> length b < off + 8"
  by (auto simp: rd_u16_def rd_u32_def rd_u64_def res_simps)

lemma rd_ints_not_Err [simp]: "rd_u16 b off \<noteq> Err" "rd_u32 b off \<noteq> Err" "rd_u64 b off \<noteq> Err"
  by (auto simp: rd_u16_def rd_u32_def rd_u64_def res_simps)

lemma rd_ints_fits [buf_simps]:
  "off + 2 \<le> length b \<Longrightarrow> rd_u16 b off = Ok (ct_get_u16 (take 2 (drop off b)))"
  "off + 4 \<le> length b \<Longrightarrow> rd_u32 b off = Ok (ct_get_u32 (take 4 (drop off b)))"
  "off + 8 \<le> length b \<Longrightarrow> rd_u64 b off = Ok (ct_get_u64 (take 8 (drop off b)))"
  by (simp_all add: res_simps)

lemma rd_ints_append [codec_simps]:
  "off = length pre \<Longrightarrow> rd_u16 (pre @ ct_put_u16 v @ post) off = Ok v"
  "off = length pre \<Longrightarrow> rd_u32 (pre @ ct_put_u32 w @ post) off = Ok w"
  "off = length pre \<Longrightarrow> rd_u64 (pre @ ct_put_u64 x @ post) off = Ok x"
  by (simp_all add: rd_u16_def rd_u32_def rd_u64_def rd_def)

section \<open>Frame headers\<close>

definition CT_MAGIC :: u32 where "CT_MAGIC = 0x4354554e"
definition CT_PROTOCOL_VERSION :: u8 where "CT_PROTOCOL_VERSION = 3"
definition CT_FRAME_HEADER_SIZE :: nat where "CT_FRAME_HEADER_SIZE = 36"
definition CT_FLAG_ENCRYPTED :: u8 where "CT_FLAG_ENCRYPTED = 1"
definition CT_RECORD_TAG_SIZE :: nat where "CT_RECORD_TAG_SIZE = 16"

text \<open>The message types of \<open>ct_msg_type\<close>.\<close>

definition CT_MSG_CLIENT_HELLO :: u8 where "CT_MSG_CLIENT_HELLO = 1"
definition CT_MSG_SERVER_HELLO :: u8 where "CT_MSG_SERVER_HELLO = 2"
definition CT_MSG_CLIENT_AUTH :: u8 where "CT_MSG_CLIENT_AUTH = 3"
definition CT_MSG_AUTH_OK :: u8 where "CT_MSG_AUTH_OK = 4"
definition CT_MSG_REGISTER_SERVICE :: u8 where "CT_MSG_REGISTER_SERVICE = 10"
definition CT_MSG_REGISTER_OK :: u8 where "CT_MSG_REGISTER_OK = 11"
definition CT_MSG_REGISTER_FAILED :: u8 where "CT_MSG_REGISTER_FAILED = 12"
definition CT_MSG_REQUEST_WORK_CONNECTION :: u8 where "CT_MSG_REQUEST_WORK_CONNECTION = 20"
definition CT_MSG_WORK_CONNECTION_BIND :: u8 where "CT_MSG_WORK_CONNECTION_BIND = 21"
definition CT_MSG_START_STREAM :: u8 where "CT_MSG_START_STREAM = 22"
definition CT_MSG_STREAM_READY :: u8 where "CT_MSG_STREAM_READY = 23"
definition CT_MSG_STREAM_FAILED :: u8 where "CT_MSG_STREAM_FAILED = 24"
definition CT_MSG_UDP_DATAGRAM :: u8 where "CT_MSG_UDP_DATAGRAM = 26"
definition CT_MSG_PING :: u8 where "CT_MSG_PING = 30"
definition CT_MSG_PONG :: u8 where "CT_MSG_PONG = 31"
definition CT_MSG_GOAWAY :: u8 where "CT_MSG_GOAWAY = 33"

lemmas msg_defs = CT_MSG_CLIENT_HELLO_def CT_MSG_SERVER_HELLO_def CT_MSG_CLIENT_AUTH_def
  CT_MSG_AUTH_OK_def CT_MSG_REGISTER_SERVICE_def CT_MSG_REGISTER_OK_def CT_MSG_REGISTER_FAILED_def
  CT_MSG_REQUEST_WORK_CONNECTION_def CT_MSG_WORK_CONNECTION_BIND_def CT_MSG_START_STREAM_def
  CT_MSG_STREAM_READY_def CT_MSG_STREAM_FAILED_def CT_MSG_UDP_DATAGRAM_def CT_MSG_PING_def
  CT_MSG_PONG_def CT_MSG_GOAWAY_def

lemmas proto_defs = CT_MAGIC_def CT_PROTOCOL_VERSION_def CT_FRAME_HEADER_SIZE_def
  CT_FLAG_ENCRYPTED_def CT_RECORD_TAG_SIZE_def

record ct_frame_header =
  fh_type :: u8
  fh_flags :: u8
  fh_payload_len :: u32
  fh_session_id :: u64
  fh_stream_id :: u64
  fh_sequence :: u64

definition ct_message_type_valid :: "u8 \<Rightarrow> bool" where
  "ct_message_type_valid t \<longleftrightarrow>
     t \<in> set [1, 2, 3, 4, 5, 10, 11, 12, 13, 20, 21, 22, 23, 24, 25, 26, 27, 28, 30, 31, 32, 33]"

definition ct_frame_header_encode :: "autoconf \<Rightarrow> ct_frame_header \<Rightarrow> bytes res" where
  "ct_frame_header_encode k h =
     (if \<not> ct_message_type_valid (fh_type h) \<or> unat (fh_payload_len h) > k_max_frame k then Err
      else emits CT_FRAME_HEADER_SIZE []
        [ct_put_u32 CT_MAGIC, [CT_PROTOCOL_VERSION], [fh_type h], [fh_flags h],
         [of_nat CT_FRAME_HEADER_SIZE], ct_put_u32 (fh_payload_len h),
         ct_put_u64 (fh_session_id h), ct_put_u64 (fh_stream_id h), ct_put_u64 (fh_sequence h)])"

definition ct_frame_header_decode :: "autoconf \<Rightarrow> bytes \<Rightarrow> ct_frame_header res" where
  "ct_frame_header_decode k p =
     andthen (rd_u32 p 0) (\<lambda>magic. andthen (rd_u8 p 4) (\<lambda>version. andthen (rd_u8 p 7) (\<lambda>hsize.
     andthen (rd_u8 p 5) (\<lambda>type.
     if magic \<noteq> CT_MAGIC \<or> version \<noteq> CT_PROTOCOL_VERSION \<or> hsize \<noteq> of_nat CT_FRAME_HEADER_SIZE \<or>
        \<not> ct_message_type_valid type
     then Err
     else
     andthen (rd_u8 p 6) (\<lambda>flags. andthen (rd_u32 p 8) (\<lambda>plen. andthen (rd_u64 p 12) (\<lambda>session.
     andthen (rd_u64 p 20) (\<lambda>stream. andthen (rd_u64 p 28) (\<lambda>sequence.
     if unat plen > k_max_frame k then Err
     else Ok \<lparr>fh_type = type, fh_flags = flags, fh_payload_len = plen, fh_session_id = session,
              fh_stream_id = stream, fh_sequence = sequence\<rparr>)))))))))"

text \<open>The accepted headers and their single encoding.\<close>

definition header_ok :: "autoconf \<Rightarrow> ct_frame_header \<Rightarrow> bool" where
  "header_ok k h \<longleftrightarrow> ct_message_type_valid (fh_type h) \<and> unat (fh_payload_len h) \<le> k_max_frame k"

definition header_bytes :: "ct_frame_header \<Rightarrow> bytes" where
  "header_bytes h = ct_put_u32 CT_MAGIC @ [3, fh_type h, fh_flags h, 36] @
     ct_put_u32 (fh_payload_len h) @ ct_put_u64 (fh_session_id h) @ ct_put_u64 (fh_stream_id h) @
     ct_put_u64 (fh_sequence h)"

lemma length_header_bytes [simp]: "length (header_bytes h) = 36"
  by (simp add: header_bytes_def)

lemma header_encode_eq:
  "ct_frame_header_encode k h = (if header_ok k h then Ok (header_bytes h) else Err)"
  by (auto simp: ct_frame_header_encode_def header_ok_def header_bytes_def emits_eq proto_defs)

lemma header_split:
  assumes "length p = 36"
  shows "p = take 4 p @ [p ! 4, p ! 5, p ! 6, p ! 7] @ take 4 (drop 8 p) @ take 8 (drop 12 p) @
    take 8 (drop 20 p) @ take 8 (drop 28 p)"
proof -
  have "drop 4 p = [p ! 4, p ! 5, p ! 6, p ! 7] @ drop 8 p"
    using assms by (simp add: Cons_nth_drop_Suc eval_nat_numeral)
  moreover have "drop 8 p = take 4 (drop 8 p) @ drop 12 p" "drop 12 p = take 8 (drop 12 p) @ drop 20 p"
    "drop 20 p = take 8 (drop 20 p) @ drop 28 p" "drop 28 p = take 8 (drop 28 p)"
    using append_take_drop_id [of 4 "drop 8 p"] append_take_drop_id [of 8 "drop 12 p"]
      append_take_drop_id [of 8 "drop 20 p"] assms by simp_all
  ultimately show ?thesis by (metis append_assoc append_take_drop_id)
qed

lemma decode_header_bytes: "header_ok k h \<Longrightarrow> ct_frame_header_decode k (header_bytes h) = Ok h"
proof -
  assume ok: "header_ok k h"
  let ?m = "ct_put_u32 CT_MAGIC" and ?l = "ct_put_u32 (fh_payload_len h)"
    and ?a = "ct_put_u64 (fh_session_id h)" and ?b = "ct_put_u64 (fh_stream_id h)"
  have "rd_u32 (header_bytes h) 0 = Ok CT_MAGIC"
    unfolding header_bytes_def using rd_ints_append(2) [of 0 "[]"] by simp
  moreover have "rd_u8 (header_bytes h) 4 = Ok 3" "rd_u8 (header_bytes h) 5 = Ok (fh_type h)"
    "rd_u8 (header_bytes h) 6 = Ok (fh_flags h)" "rd_u8 (header_bytes h) 7 = Ok 36"
    by (simp_all add: rd_u8_def header_bytes_def nth_append nth_Cons')
  moreover have "rd_u32 (header_bytes h) 8 = Ok (fh_payload_len h)"
    unfolding header_bytes_def
    using rd_ints_append(2) [of 8 "?m @ [3, fh_type h, fh_flags h, 36]"] by simp
  moreover have "rd_u64 (header_bytes h) 12 = Ok (fh_session_id h)"
    unfolding header_bytes_def
    using rd_ints_append(3) [of 12 "?m @ [3, fh_type h, fh_flags h, 36] @ ?l"] by simp
  moreover have "rd_u64 (header_bytes h) 20 = Ok (fh_stream_id h)"
    unfolding header_bytes_def
    using rd_ints_append(3) [of 20 "?m @ [3, fh_type h, fh_flags h, 36] @ ?l @ ?a"] by simp
  moreover have "rd_u64 (header_bytes h) 28 = Ok (fh_sequence h)"
    unfolding header_bytes_def
    using rd_ints_append(3) [of 28 "?m @ [3, fh_type h, fh_flags h, 36] @ ?l @ ?a @ ?b" _ "[]"]
    by simp
  ultimately show ?thesis
    using ok by (simp add: ct_frame_header_decode_def header_ok_def proto_defs)
qed

lemma decode_header_eq:
  "36 \<le> length p \<Longrightarrow> ct_frame_header_decode k p =
     (if ct_get_u32 (take 4 p) \<noteq> CT_MAGIC \<or> p ! 4 \<noteq> 3 \<or> p ! 7 \<noteq> 36 \<or>
         \<not> ct_message_type_valid (p ! 5) \<or>
         unat (ct_get_u32 (take 4 (drop 8 p))) > k_max_frame k
      then Err
      else Ok \<lparr>fh_type = p ! 5, fh_flags = p ! 6, fh_payload_len = ct_get_u32 (take 4 (drop 8 p)),
        fh_session_id = ct_get_u64 (take 8 (drop 12 p)),
        fh_stream_id = ct_get_u64 (take 8 (drop 20 p)),
        fh_sequence = ct_get_u64 (take 8 (drop 28 p))\<rparr>)"
  by (simp add: ct_frame_header_decode_def buf_simps proto_defs)

lemma decode_header_inv:
  assumes dec: "ct_frame_header_decode k p = Ok h" and len: "length p = 36"
  shows "header_ok k h \<and> p = header_bytes h"
proof -
  note eq = decode_header_eq [of p k, unfolded dec]
  from eq len have acc: "ct_get_u32 (take 4 p) = CT_MAGIC" "p ! 4 = 3" "p ! 7 = 36"
    "ct_message_type_valid (p ! 5)" "unat (ct_get_u32 (take 4 (drop 8 p))) \<le> k_max_frame k"
    by (simp_all split: if_split_asm)
  with eq len have h: "h = \<lparr>fh_type = p ! 5, fh_flags = p ! 6,
      fh_payload_len = ct_get_u32 (take 4 (drop 8 p)),
      fh_session_id = ct_get_u64 (take 8 (drop 12 p)),
      fh_stream_id = ct_get_u64 (take 8 (drop 20 p)),
      fh_sequence = ct_get_u64 (take 8 (drop 28 p))\<rparr>"
    by simp
  have "take 4 p = ct_put_u32 CT_MAGIC"
    using acc(1) put_get(2) [of "take 4 p"] len by simp
  with acc h len have "header_bytes h = take 4 p @ [p ! 4, p ! 5, p ! 6, p ! 7] @
      take 4 (drop 8 p) @ take 8 (drop 12 p) @ take 8 (drop 20 p) @ take 8 (drop 28 p)"
    by (simp add: header_bytes_def)
  moreover from acc h have "header_ok k h" by (simp add: header_ok_def)
  ultimately show ?thesis using header_split [OF len] by simp
qed

lemma decode_header_no_fault: "36 \<le> length p \<Longrightarrow> ct_frame_header_decode k p \<noteq> Fault"
  by (simp add: ct_frame_header_decode_def buf_simps)

section \<open>Length-prefixed strings\<close>

definition ct_pack_string :: "nat \<Rightarrow> bytes \<Rightarrow> bytes \<Rightarrow> nat \<Rightarrow> bytes res" where
  "ct_pack_string cap out s mx =
     (let n = length s in
      if n > mx \<or> n > 65535 \<or> length out > cap \<or> cap - length out < 2 + n then Err
      else emits cap out [ct_put_u16 (of_nat n), s])"

definition ct_unpack_string :: "nat \<Rightarrow> bytes \<Rightarrow> nat \<Rightarrow> nat \<Rightarrow> (bytes \<times> nat) res" where
  "ct_unpack_string cap b n off =
     (if off > n \<or> n - off < 2 then Err
      else andthen (rd_u16 b off) (\<lambda>z16.
        let z = unat z16 in
        if z \<ge> cap \<or> n - off - 2 < z then Err
        else andthen (rd b (off + 2) z) (\<lambda>s. Ok (s, off + 2 + z))))"

definition string_bytes :: "bytes \<Rightarrow> bytes" where
  "string_bytes s = ct_put_u16 (of_nat (length s)) @ s"

definition string_ok :: "nat \<Rightarrow> bytes \<Rightarrow> bool" where
  "string_ok cap s \<longleftrightarrow> length s < cap \<and> length s \<le> 65535"

lemma length_string_bytes [simp]: "length (string_bytes s) = 2 + length s"
  by (simp add: string_bytes_def)

lemma pack_string_eq:
  "ct_pack_string cap out s mx =
     (if length s \<le> mx \<and> length s \<le> 65535 \<and> length out + 2 + length s \<le> cap
      then Ok (out @ string_bytes s) else Err)"
  by (auto simp: ct_pack_string_def string_bytes_def emits_eq Let_def)

section \<open>The contract of an encoded field\<close>

text \<open>
  A field is written by \<open>enc\<close> and read back by \<open>dec b n off\<close>, where \<open>n\<close> is the number of
  valid bytes of the buffer \<open>b\<close> and \<open>off\<close> the cursor. The provider promises that decoding an
  encoded valid value returns it and moves the cursor behind it, that no read leaves the buffer, and
  that the cursor advances but never passes \<open>n\<close>.
\<close>

locale wire_field =
  fixes enc :: "'a \<Rightarrow> bytes" and dec :: "bytes \<Rightarrow> nat \<Rightarrow> nat \<Rightarrow> ('a \<times> nat) res"
    and valid :: "'a \<Rightarrow> bool"
  assumes dec_enc: "valid x \<Longrightarrow> length pre + length (enc x) \<le> n \<Longrightarrow>
      dec (pre @ enc x @ post) n (length pre) = Ok (x, length pre + length (enc x))"
    and dec_safe: "n \<le> length b \<Longrightarrow> dec b n off \<noteq> Fault"
    and dec_advances: "dec b n off = Ok (x, off') \<Longrightarrow> off < off' \<and> off' \<le> n"
begin

lemma dec_enc_at:
  "valid x \<Longrightarrow> off = length pre \<Longrightarrow> off' = off + length (enc x) \<Longrightarrow> off' \<le> n \<Longrightarrow>
     dec (pre @ enc x @ post) n off = Ok (x, off')"
  by (simp add: dec_enc)

text \<open>Two encodings that start alike are the same encoding: the format is uniquely readable.\<close>

lemma enc_prefix_free:
  assumes "valid x" "valid y" and eq: "enc x @ r = enc y @ s"
  shows "x = y \<and> r = s"
proof -
  let ?n = "length (enc x @ r)"
  have "dec (enc x @ r) ?n 0 = Ok (x, length (enc x))"
    using dec_enc [of x "[]" ?n r] assms(1) by simp
  moreover have "dec (enc y @ s) ?n 0 = Ok (y, length (enc y))"
    using dec_enc [of y "[]" ?n s] assms(2) arg_cong [OF eq, of length] by simp
  ultimately have "x = y" using eq by simp
  with eq show ?thesis by simp
qed

lemma enc_inj: "valid x \<Longrightarrow> valid y \<Longrightarrow> enc x = enc y \<Longrightarrow> x = y"
  using enc_prefix_free [of x y "[]" "[]"] by simp

text \<open>Two adjacent fields are read back by two reads.\<close>

lemma dec_two:
  assumes "valid x" "valid y" and "length pre + length (enc x) + length (enc y) \<le> n"
  shows "andthen (dec (pre @ enc x @ enc y @ post) n (length pre))
      (\<lambda>(x', off). andthen (dec (pre @ enc x @ enc y @ post) n off) (\<lambda>(y', off'). Ok (x', y', off'))) =
    Ok (x, y, length pre + length (enc x) + length (enc y))"
  using dec_enc [of x pre n "enc y @ post"] dec_enc [of y "pre @ enc x" n post] assms by simp

end

interpretation str_field: wire_field string_bytes "ct_unpack_string cap" "string_ok cap"
proof
  fix s pre :: bytes and n post
  assume "string_ok cap s" "length pre + length (string_bytes s) \<le> n"
  then show "ct_unpack_string cap (pre @ string_bytes s @ post) n (length pre) =
      Ok (s, length pre + length (string_bytes s))"
    by (auto simp: ct_unpack_string_def string_bytes_def string_ok_def codec_simps rd_def Let_def
        unat_of_nat take_bit_nat_eq_self)
next
  fix n off and b :: bytes
  assume "n \<le> length b"
  then show "ct_unpack_string cap b n off \<noteq> Fault"
    by (auto simp: ct_unpack_string_def Let_def buf_simps res_simps)
next
  fix b n off s off'
  assume "ct_unpack_string cap b n off = Ok (s, off')"
  then show "off < off' \<and> off' \<le> n"
    by (auto simp: ct_unpack_string_def Let_def res_simps split: if_splits)
qed

lemma unpack_string_length:
  "ct_unpack_string cap b n off = Ok (s, off') \<Longrightarrow> length s < cap \<and> off' = off + 2 + length s"
  by (auto simp: ct_unpack_string_def Let_def res_simps split: if_splits)

section \<open>Headers of encrypted data records\<close>

definition ct_data_record_header_decode :: "bytes \<Rightarrow> nat \<Rightarrow> u64 \<Rightarrow> (u32 \<times> u64) res" where
  "ct_data_record_header_decode header max_plaintext previous_sequence =
     andthen (rd_u32 header 0) (\<lambda>len. andthen (rd_u64 header 4) (\<lambda>received_sequence.
     if max_plaintext > 2 ^ 32 - 1 - CT_RECORD_TAG_SIZE \<or> unat len < CT_RECORD_TAG_SIZE \<or>
        unat len > max_plaintext + CT_RECORD_TAG_SIZE \<or> previous_sequence = uint64_max \<or>
        received_sequence \<noteq> previous_sequence + 1
     then Err
     else Ok (len, received_sequence)))"

text \<open>The 12 bytes \<open>encrypt_chunk\<close> puts in front of a record.\<close>

definition record_header :: "u32 \<Rightarrow> u64 \<Rightarrow> bytes" where
  "record_header len seq = ct_put_u32 len @ ct_put_u64 seq"

lemma length_record_header [simp]: "length (record_header len seq) = 12"
  by (simp add: record_header_def)

lemma record_header_decode_eq:
  "ct_data_record_header_decode (record_header len seq) max_plaintext prev =
     (if max_plaintext \<le> 2 ^ 32 - 17 \<and> 16 \<le> unat len \<and> unat len \<le> max_plaintext + 16 \<and>
         prev \<noteq> uint64_max \<and> seq = prev + 1
      then Ok (len, seq) else Err)"
  using rd_ints_append(2) [of 0 "[]" len "ct_put_u64 seq"]
    rd_ints_append(3) [of 4 "ct_put_u32 len" seq "[]"]
  by (auto simp: ct_data_record_header_decode_def record_header_def proto_defs)

lemma record_header_of_bytes:
  "length h = 12 \<Longrightarrow> \<exists>len seq. h = record_header len seq"
proof -
  assume "length h = 12"
  then have "h = record_header (ct_get_u32 (take 4 h)) (ct_get_u64 (drop 4 h))"
    by (simp add: record_header_def)
  then show ?thesis by blast
qed

section \<open>Service registration requests\<close>

record register_request =
  rr_service_id :: bytes
  rr_remote_addr :: bytes
  rr_remote_port :: u16
  rr_type :: u8
  rr_mode :: u8
  rr_proxy_protocol :: u8
  rr_udp_idle_timeout :: u32
  rr_udp_reply_timeout :: u32
  rr_udp_max_sessions :: u32
  rr_udp_max_datagram_size :: u32

text \<open>
  \<open>scap\<close> and \<open>acap\<close> are the capacities of the two string buffers of the caller, which passes
  a destination for every optional field.
\<close>

definition ct_register_request_decode ::
  "nat \<Rightarrow> nat \<Rightarrow> bytes \<Rightarrow> nat \<Rightarrow> register_request res" where
  "ct_register_request_decode scap acap payload n =
     andthen (ct_unpack_string scap payload n 0) (\<lambda>(service_id, o1).
     andthen (ct_unpack_string acap payload n o1) (\<lambda>(remote_addr, o2).
     ensure (\<not> n - o2 < 4) (
     andthen (rd_u16 payload o2) (\<lambda>port. andthen (rd_u8 payload (o2 + 2)) (\<lambda>type.
     andthen (rd_u8 payload (o2 + 3)) (\<lambda>mode.
     let o3 = o2 + 4;
         req = \<lparr>rr_service_id = service_id, rr_remote_addr = remote_addr, rr_remote_port = port,
                rr_type = type, rr_mode = mode, rr_proxy_protocol = 0, rr_udp_idle_timeout = 0,
                rr_udp_reply_timeout = 0, rr_udp_max_sessions = 0, rr_udp_max_datagram_size = 0\<rparr>
     in if n = o3 then Ok req
        else andthen
          (if n - o3 = 1 \<or> n - o3 = 17
           then andthen (rd_u8 payload o3) (\<lambda>p. Ok (req\<lparr>rr_proxy_protocol := p\<rparr>, o3 + 1))
           else Ok (req, o3)) (\<lambda>(req, o4).
        if n = o4 then Ok req
        else ensure (n - o4 = 16) (
          andthen (rd_u32 payload o4) (\<lambda>idle. andthen (rd_u32 payload (o4 + 4)) (\<lambda>reply.
          andthen (rd_u32 payload (o4 + 8)) (\<lambda>sessions.
          andthen (rd_u32 payload (o4 + 12)) (\<lambda>datagram.
          Ok (req\<lparr>rr_udp_idle_timeout := idle, rr_udp_reply_timeout := reply,
                rr_udp_max_sessions := sessions, rr_udp_max_datagram_size := datagram\<rparr>)))))))))))))"

text \<open>The layouts a sender may use after the fixed part: nothing, the proxy byte, the UDP limits,
  or both.\<close>

definition register_bytes :: "bool \<Rightarrow> bool \<Rightarrow> register_request \<Rightarrow> bytes" where
  "register_bytes with_proxy with_udp r =
     string_bytes (rr_service_id r) @ string_bytes (rr_remote_addr r) @
     ct_put_u16 (rr_remote_port r) @ [rr_type r, rr_mode r] @
     (if with_proxy then [rr_proxy_protocol r] else []) @
     (if with_udp then ct_put_u32 (rr_udp_idle_timeout r) @ ct_put_u32 (rr_udp_reply_timeout r) @
        ct_put_u32 (rr_udp_max_sessions r) @ ct_put_u32 (rr_udp_max_datagram_size r) else [])"

lemma register_decode_no_fault:
  "n \<le> length payload \<Longrightarrow> ct_register_request_decode scap acap payload n \<noteq> Fault"
  using str_field.dec_safe str_field.dec_advances
  by (fastforce simp: ct_register_request_decode_def Let_def res_simps split: prod.splits if_splits)

definition register_fields_ok :: "nat \<Rightarrow> nat \<Rightarrow> bool \<Rightarrow> bool \<Rightarrow> register_request \<Rightarrow> bool" where
  "register_fields_ok scap acap with_proxy with_udp r \<longleftrightarrow>
     string_ok scap (rr_service_id r) \<and> string_ok acap (rr_remote_addr r) \<and>
     (with_proxy \<or> rr_proxy_protocol r = 0) \<and>
     (with_udp \<or> rr_udp_idle_timeout r = 0 \<and> rr_udp_reply_timeout r = 0 \<and>
        rr_udp_max_sessions r = 0 \<and> rr_udp_max_datagram_size r = 0)"

text \<open>The reads behind the two strings, at their absolute positions.\<close>

lemma rd_ints_behind:
  "off = length pre + i \<Longrightarrow> rd_u16 (pre @ q) off = rd_u16 q i"
  "off = length pre + i \<Longrightarrow> rd_u32 (pre @ q) off = rd_u32 q i"
  "off = length pre + i \<Longrightarrow> rd_u64 (pre @ q) off = rd_u64 q i"
  "off = length pre + i \<Longrightarrow> rd_u8 (pre @ q) off = rd_u8 q i"
  "off = length pre + i \<Longrightarrow> rd (pre @ q) off n = rd q i n"
  by (simp_all add: rd_u16_def rd_u32_def rd_u64_def rd_def rd_u8_def nth_append)

lemma register_decode_reads:
  assumes "ct_unpack_string scap b n 0 = Ok (rr_service_id r, mid)"
    and "ct_unpack_string acap b n mid = Ok (rr_remote_addr r, off)"
    and "n = off + 4 + (if wp then 1 else 0) + (if wu then 16 else 0)"
    and "rd_u16 b off = Ok (rr_remote_port r)"
    and "rd_u8 b (off + 2) = Ok (rr_type r)" and "rd_u8 b (off + 3) = Ok (rr_mode r)"
    and "if wp then rd_u8 b (off + 4) = Ok (rr_proxy_protocol r) else rr_proxy_protocol r = 0"
    and "u = off + (if wp then 5 else 4)"
    and "if wu then rd_u32 b u = Ok (rr_udp_idle_timeout r) \<and>
        rd_u32 b (u + 4) = Ok (rr_udp_reply_timeout r) \<and>
        rd_u32 b (u + 8) = Ok (rr_udp_max_sessions r) \<and>
        rd_u32 b (u + 12) = Ok (rr_udp_max_datagram_size r)
      else rr_udp_idle_timeout r = 0 \<and> rr_udp_reply_timeout r = 0 \<and>
        rr_udp_max_sessions r = 0 \<and> rr_udp_max_datagram_size r = 0"
  shows "ct_register_request_decode scap acap b n = Ok r"
  using assms
  by (cases wp; cases wu) (simp_all add: ct_register_request_decode_def Let_def ac_simps)

lemma register_decode_bytes:
  assumes ok: "register_fields_ok scap acap wp wu r"
  shows "ct_register_request_decode scap acap (register_bytes wp wu r @ stale)
    (length (register_bytes wp wu r)) = Ok r"
proof -
  let ?s = "string_bytes (rr_service_id r)" and ?a = "string_bytes (rr_remote_addr r)"
  let ?px = "if wp then [rr_proxy_protocol r] else []"
  let ?ud = "if wu then ct_put_u32 (rr_udp_idle_timeout r) @ ct_put_u32 (rr_udp_reply_timeout r) @
      ct_put_u32 (rr_udp_max_sessions r) @ ct_put_u32 (rr_udp_max_datagram_size r) else []"
  define q where "q = ct_put_u16 (rr_remote_port r) @ [rr_type r, rr_mode r] @ ?px @ ?ud @ stale"
  define off where "off = length ?s + length ?a"
  define n where "n = off + 4 + (if wp then 1 else 0) + (if wu then 16 else 0)"
  define b where "b = ?s @ ?a @ q"
  have b': "register_bytes wp wu r @ stale = b" and n': "length (register_bytes wp wu r) = n"
    by (simp_all add: register_bytes_def b_def q_def n_def off_def)
  have at: "rd_u16 b off = rd_u16 q 0" "rd_u8 b (off + i) = rd_u8 q i"
    "rd_u32 b (off + i) = rd_u32 q i" for i
    using rd_ints_behind [of "off + i" "?s @ ?a" i q] rd_ints_behind(1) [of off "?s @ ?a" 0 q]
    by (simp_all add: b_def off_def)
  have q0: "rd_u16 q 0 = Ok (rr_remote_port r)"
    using rd_ints_append(1) [of 0 "[]"] by (simp add: q_def)
  have q2: "rd_u8 q 2 = Ok (rr_type r)" "rd_u8 q 3 = Ok (rr_mode r)"
    "wp \<Longrightarrow> rd_u8 q 4 = Ok (rr_proxy_protocol r)"
    by (simp_all add: q_def rd_u8_def nth_append)
  have qu: "wu \<Longrightarrow> u = (if wp then 5 else 4) \<Longrightarrow> rd_u32 q u = Ok (rr_udp_idle_timeout r) \<and>
      rd_u32 q (u + 4) = Ok (rr_udp_reply_timeout r) \<and>
      rd_u32 q (u + 8) = Ok (rr_udp_max_sessions r) \<and>
      rd_u32 q (u + 12) = Ok (rr_udp_max_datagram_size r)" for u
    by (cases wp) (simp_all add: q_def rd_u32_def rd_def)
  show ?thesis unfolding b' n'
  proof (rule register_decode_reads [where mid = "length ?s" and off = off and wp = wp and wu = wu
        and u = "off + (if wp then 5 else 4)"])
    show "ct_unpack_string scap b n 0 = Ok (rr_service_id r, length ?s)"
      using str_field.dec_enc [of scap "rr_service_id r" "[]" n "?a @ q"] ok
      by (simp add: b_def register_fields_ok_def n_def off_def)
    show "ct_unpack_string acap b n (length ?s) = Ok (rr_remote_addr r, off)"
      using str_field.dec_enc [of acap "rr_remote_addr r" ?s n q] ok
      by (simp add: b_def register_fields_ok_def n_def off_def)
    show "rd_u16 b off = Ok (rr_remote_port r)" "rd_u8 b (off + 2) = Ok (rr_type r)"
      "rd_u8 b (off + 3) = Ok (rr_mode r)"
      "if wp then rd_u8 b (off + 4) = Ok (rr_proxy_protocol r) else rr_proxy_protocol r = 0"
      using ok q2(3) by (simp_all only: at q0 q2(1,2) register_fields_ok_def split: if_split) blast
    show "if wu then rd_u32 b (off + (if wp then 5 else 4)) = Ok (rr_udp_idle_timeout r) \<and>
        rd_u32 b (off + (if wp then 5 else 4) + 4) = Ok (rr_udp_reply_timeout r) \<and>
        rd_u32 b (off + (if wp then 5 else 4) + 8) = Ok (rr_udp_max_sessions r) \<and>
        rd_u32 b (off + (if wp then 5 else 4) + 12) = Ok (rr_udp_max_datagram_size r)
      else rr_udp_idle_timeout r = 0 \<and> rr_udp_reply_timeout r = 0 \<and>
        rr_udp_max_sessions r = 0 \<and> rr_udp_max_datagram_size r = 0"
      using ok qu [OF _ refl] unfolding add.assoc at register_fields_ok_def by presburger
  qed (simp_all add: n_def)
qed

section \<open>Properties\<close>

text \<open>
  C40: the frame header format is a bijection between the accepted headers and the accepted 36-byte
  blocks: a block decodes to a header exactly when that header encodes to that block, so decoding
  inverts encoding and no second block is accepted for the same header.
\<close>

theorem frame_header_codec:
  assumes "length p = 36"
  shows "ct_frame_header_decode k p = Ok h \<longleftrightarrow> ct_frame_header_encode k h = Ok p"
  using decode_header_inv [OF _ assms] decode_header_bytes [of k h]
  by (auto simp: header_encode_eq split: if_splits)

definition ping_header :: ct_frame_header where
  "ping_header = \<lparr>fh_type = 30, fh_flags = 1, fh_payload_len = 32, fh_session_id = 0x0102030405060708,
     fh_stream_id = 0, fh_sequence = 7\<rparr>"

theorem frame_header_codec_witness:
  "ct_frame_header_encode default_defconfig ping_header = Ok (header_bytes ping_header) \<and>
   ct_frame_header_decode default_defconfig (header_bytes ping_header) = Ok ping_header"
proof -
  have "ct_frame_header_encode default_defconfig ping_header = Ok (header_bytes ping_header)"
    by (simp add: header_encode_eq header_ok_def ping_header_def ct_message_type_valid_def
        default_defconfig_def)
  then show ?thesis
    using frame_header_codec [of "header_bytes ping_header" default_defconfig ping_header] by simp
qed

text \<open>
  Parsing a service registration is memory safe for every payload an authenticated peer can
  send: whatever the bytes and whatever lengths they claim, no read leaves the received payload.
\<close>

theorem register_request_decode_safe:
  assumes "n \<le> length payload"
  shows "ct_register_request_decode scap acap payload n \<noteq> Fault"
  using assms by (rule register_decode_no_fault)

theorem register_request_decode_safe_witness:
  "ct_register_request_decode 65 129 [0, 9, 1] 3 \<noteq> Fault"
  using register_request_decode_safe [of 3 "[0, 9, 1]" 65 129] by simp

text \<open>
  A registration request is read back field by field from each of the four layouts a sender may
  use (with or without the proxy byte, with or without the UDP limits), also when the receive buffer
  holds stale bytes behind the payload.
\<close>

theorem register_request_roundtrip:
  assumes "register_fields_ok scap acap with_proxy with_udp r"
  shows "ct_register_request_decode scap acap (register_bytes with_proxy with_udp r @ stale)
    (length (register_bytes with_proxy with_udp r)) = Ok r"
  using assms by (rule register_decode_bytes)

definition ssh_request :: register_request where
  "ssh_request = \<lparr>rr_service_id = lit ''ssh'', rr_remote_addr = lit ''*'', rr_remote_port = 2222,
     rr_type = 1, rr_mode = 1, rr_proxy_protocol = 2, rr_udp_idle_timeout = 0,
     rr_udp_reply_timeout = 0, rr_udp_max_sessions = 0, rr_udp_max_datagram_size = 0\<rparr>"

theorem register_request_roundtrip_witness:
  "ct_register_request_decode 65 129 (register_bytes True False ssh_request @ [9])
     (length (register_bytes True False ssh_request)) = Ok ssh_request"
proof -
  have "register_fields_ok 65 129 True False ssh_request"
    by (simp add: register_fields_ok_def string_ok_def ssh_request_def)
  then show ?thesis by (rule register_request_roundtrip)
qed

end
