(* ===== verification/Ring.thy ===== *)
theory Ring
  imports Ctunnel_Prelude "HOL-Library.Sublist"
begin

text \<open>
  The relay's ring buffer, \<open>src/src/util/ring.c\<close>. The locale \<open>byte_fifo\<close> states what a client
  of the buffer relies on; the interpretation at the end of the second section proves that the
  C implementation, with its two-part copies around the end of the array, is such a bounded FIFO.
\<close>

section \<open>The buffer and its operations\<close>

text \<open>\<open>data = []\<close> with \<open>cap = 0\<close> is the freed buffer (a null pointer after the \<open>memset\<close>).\<close>

record ct_ring =
  ring_data :: bytes
  ring_cap :: nat
  ring_head :: nat
  ring_len :: nat

text \<open>\<open>memcpy(d + off, bs, n)\<close> into the array \<open>d\<close>.\<close>

definition mem_put :: "bytes \<Rightarrow> nat \<Rightarrow> bytes \<Rightarrow> bytes res" where
  "mem_put d off bs =
     (if off + length bs \<le> length d then Ok (take off d @ bs @ drop (off + length bs) d) else Fault)"

text \<open>\<open>mem\<close> is the block \<open>malloc(cap)\<close> returned, with its arbitrary content, or \<open>None\<close>.\<close>

definition ct_ring_init :: "bytes option \<Rightarrow> nat \<Rightarrow> ct_ring res" where
  "ct_ring_init mem cap =
     (case mem of
        None \<Rightarrow> Err
      | Some d \<Rightarrow> Ok \<lparr>ring_data = d, ring_cap = cap, ring_head = 0, ring_len = 0\<rparr>)"

definition ct_ring_free :: "ct_ring \<Rightarrow> ct_ring" where
  "ct_ring_free r = \<lparr>ring_data = [], ring_cap = 0, ring_head = 0, ring_len = 0\<rparr>"

definition ct_ring_write :: "ct_ring \<Rightarrow> bytes \<Rightarrow> nat \<Rightarrow> (nat \<times> ct_ring) res" where
  "ct_ring_write r src n0 =
     (if ring_cap r = 0 then Fault
      else
        let n = (if n0 > ring_cap r - ring_len r then ring_cap r - ring_len r else n0);
            tail = (ring_head r + ring_len r) mod ring_cap r;
            a0 = ring_cap r - tail;
            a = (if a0 > n then n else a0)
        in andthen (rd src 0 a) (\<lambda>first. andthen (mem_put (ring_data r) tail first) (\<lambda>d1.
           andthen (rd src a (n - a)) (\<lambda>second. andthen (mem_put d1 0 second) (\<lambda>d2.
           Ok (n, r\<lparr>ring_data := d2, ring_len := ring_len r + n\<rparr>))))))"

definition ct_ring_read :: "ct_ring \<Rightarrow> nat \<Rightarrow> (bytes \<times> ct_ring) res" where
  "ct_ring_read r n0 =
     (if ring_cap r = 0 then Fault
      else
        let n = (if n0 > ring_len r then ring_len r else n0);
            a0 = ring_cap r - ring_head r;
            a = (if a0 > n then n else a0)
        in andthen (rd (ring_data r) (ring_head r) a) (\<lambda>first.
           andthen (rd (ring_data r) 0 (n - a)) (\<lambda>second.
           Ok (first @ second, r\<lparr>ring_head := (ring_head r + n) mod ring_cap r,
                 ring_len := ring_len r - n\<rparr>))))"

text \<open>\<open>ct_ring_peek\<close> returns a pointer and a count; the model returns the bytes they denote.\<close>

definition ct_ring_peek :: "ct_ring \<Rightarrow> bytes res" where
  "ct_ring_peek r =
     (let n0 = ring_cap r - ring_head r;
          n = (if n0 < ring_len r then n0 else ring_len r)
      in rd (ring_data r) (ring_head r) n)"

definition ct_ring_consume :: "ct_ring \<Rightarrow> nat \<Rightarrow> ct_ring res" where
  "ct_ring_consume r n0 =
     (if ring_cap r = 0 then Fault
      else
        let n = (if n0 > ring_len r then ring_len r else n0)
        in Ok (r\<lparr>ring_head := (ring_head r + n) mod ring_cap r, ring_len := ring_len r - n\<rparr>))"

section \<open>The bounded FIFO contract\<close>

text \<open>
  A bounded byte FIFO as its clients see it: \<open>contents\<close> is the queue, oldest byte first. A write
  takes as much as fits, a read and a consume take from the front, and a peek shows a non-empty
  prefix of a non-empty queue.
\<close>

locale byte_fifo =
  fixes inv :: "'q \<Rightarrow> bool" and contents :: "'q \<Rightarrow> bytes" and capacity :: "'q \<Rightarrow> nat"
    and put :: "'q \<Rightarrow> bytes \<Rightarrow> nat \<Rightarrow> (nat \<times> 'q) res"
    and get :: "'q \<Rightarrow> nat \<Rightarrow> (bytes \<times> 'q) res"
    and peek :: "'q \<Rightarrow> bytes res"
    and consume :: "'q \<Rightarrow> nat \<Rightarrow> 'q res"
  assumes bounded: "inv q \<Longrightarrow> length (contents q) \<le> capacity q"
    and put_law: "inv q \<Longrightarrow> n \<le> length src \<Longrightarrow> m = min n (capacity q - length (contents q)) \<Longrightarrow>
      \<exists>q'. put q src n = Ok (m, q') \<and> inv q' \<and> capacity q' = capacity q \<and>
        contents q' = contents q @ take m src"
    and get_law: "inv q \<Longrightarrow> \<exists>q'. get q n = Ok (take n (contents q), q') \<and> inv q' \<and>
        capacity q' = capacity q \<and> contents q' = drop n (contents q)"
    and peek_law: "inv q \<Longrightarrow> \<exists>m. peek q = Ok (take m (contents q)) \<and> m \<le> length (contents q) \<and>
        (m = 0 \<longleftrightarrow> contents q = [])"
    and consume_law: "inv q \<Longrightarrow> \<exists>q'. consume q n = Ok q' \<and> inv q' \<and> capacity q' = capacity q \<and>
        contents q' = drop n (contents q)"
begin

text \<open>A write of a whole block succeeds completely exactly when the block fits.\<close>

lemma put_all:
  assumes "inv q"
  obtains m q' where "put q src (length src) = Ok (m, q')" "inv q'" "capacity q' = capacity q"
    "m = length src \<longleftrightarrow> length (contents q) + length src \<le> capacity q"
    "contents q' = contents q @ take m src" "m \<le> length src"
proof -
  let ?m = "min (length src) (capacity q - length (contents q))"
  from put_law [OF assms order_refl refl, of src] obtain q' where
    "put q src (length src) = Ok (?m, q')" "inv q'" "capacity q' = capacity q"
    "contents q' = contents q @ take ?m src" by blast
  moreover have "?m = length src \<longleftrightarrow> length (contents q) + length src \<le> capacity q"
    using bounded [OF assms] by auto
  ultimately show thesis using that by simp
qed

text \<open>What was written comes out in order: a write that fits followed by a read of everything.\<close>

lemma put_get_all:
  assumes "inv q" "contents q = []" "length src \<le> capacity q"
  shows "\<exists>q' q''. put q src (length src) = Ok (length src, q') \<and>
    get q' (length src) = Ok (src, q'') \<and> contents q'' = []"
proof -
  from put_law [OF assms(1) order_refl refl, of src] assms obtain q' where
    q': "put q src (length src) = Ok (length src, q')" "inv q'" "contents q' = src" by auto
  from get_law [OF q'(2), of "length src"] obtain q'' where
    "get q' (length src) = Ok (src, q'')" "contents q'' = []" using q'(3) by auto
  with q' show ?thesis by blast
qed

text \<open>Peeking and consuming what a partial send accepted drops exactly that prefix.\<close>

lemma peek_consume:
  assumes "inv q" "peek q = Ok p" "z \<le> length p"
  shows "\<exists>q'. consume q z = Ok q' \<and> inv q' \<and> capacity q' = capacity q \<and>
    contents q = take z p @ contents q'"
proof -
  from peek_law [OF assms(1)] assms(2) obtain m where "p = take m (contents q)" by auto
  with assms(3) have "take z p = take z (contents q)" by (simp add: take_take min_absorb1)
  moreover from consume_law [OF assms(1), of z] obtain q' where
    "consume q z = Ok q'" "inv q'" "capacity q' = capacity q" "contents q' = drop z (contents q)"
    by blast
  ultimately show ?thesis by (metis append_take_drop_id)
qed

end

section \<open>The C ring buffer is a bounded FIFO\<close>

definition ring_inv :: "ct_ring \<Rightarrow> bool" where
  "ring_inv r \<longleftrightarrow> 0 < ring_cap r \<and> length (ring_data r) = ring_cap r \<and>
     ring_head r < ring_cap r \<and> ring_len r \<le> ring_cap r"

definition ring_contents :: "ct_ring \<Rightarrow> bytes" where
  "ring_contents r =
     map (\<lambda>i. ring_data r ! ((ring_head r + i) mod ring_cap r)) [0..<ring_len r]"

lemma length_ring_contents [simp]: "length (ring_contents r) = ring_len r"
  by (simp add: ring_contents_def)

lemma mod_offset_inj:
  assumes "(h + i) mod c = (h + j) mod c" "i < c" "j < (c :: nat)"
  shows "i = j"
proof -
  have "(h + max i j - (h + min i j)) mod c = 0"
    using assms(1) by (intro mod_eq_dvd_iff_nat [THEN iffD1, THEN mod_eq_0_iff_dvd [THEN iffD2]])
      (auto simp: max_def min_def)
  then have "(max i j - min i j) mod c = 0" by simp
  moreover have "max i j - min i j < c" using assms by auto
  ultimately show ?thesis by (auto simp: max_def min_def split: if_splits)
qed

text \<open>The array after the two copies of a write, read at the position of queue index \<open>i\<close>.\<close>

lemma mem_put_nth:
  "off + length bs \<le> length d \<Longrightarrow> j < length d \<Longrightarrow>
     (take off d @ bs @ drop (off + length bs) d) ! j =
       (if off \<le> j \<and> j < off + length bs then bs ! (j - off) else d ! j)"
  by (auto simp: nth_append min_def)

text \<open>
  The array positions of the bytes a write of \<open>m\<close> bytes adds: the first \<open>a\<close> follow the tail,
  the others start again at the front of the array.
\<close>

lemma ring_new_index:
  fixes c :: nat
  assumes "0 < c" "m \<le> c" "tail = (h + l) mod c" "a = min (c - tail) m" "k < m"
  shows "(h + (l + k)) mod c = (if k < a then tail + k else k - a)"
proof -
  have "(h + (l + k)) mod c = (tail + k) mod c"
    by (simp add: assms(3) mod_add_left_eq add.assoc)
  also have "\<dots> = (if tail + k < c then tail + k else tail + k - c)"
    using mod_less_divisor [OF assms(1), of "h + l"] assms(2,5)
    by (simp add: assms(3) [symmetric] le_mod_geq)
  also have "\<dots> = (if k < a then tail + k else k - a)"
    using assms(4,5) mod_less_divisor [OF assms(1), of "h + l"]
    unfolding assms(3) [symmetric] by auto
  finally show ?thesis .
qed

lemma ring_new_disjoint:
  fixes c :: nat
  assumes "0 < c" "l + m \<le> c" "tail = (h + l) mod c" "a = min (c - tail) m" "i < l"
  shows "\<not> (h + i) mod c < m - a \<and> \<not> (tail \<le> (h + i) mod c \<and> (h + i) mod c < tail + a)"
proof -
  let ?j = "(h + i) mod c"
  have w: "k < m \<Longrightarrow> ?j \<noteq> (if k < a then tail + k else k - a)" for k
    using mod_offset_inj [of h i c "l + k"] ring_new_index [of c m tail h l a k] assms by auto
  have "\<not> ?j < m - a"
    using w [of "a + ?j"] by (auto simp: less_diff_conv ac_simps)
  moreover have "\<not> (tail \<le> ?j \<and> ?j < tail + a)"
  proof
    assume "tail \<le> ?j \<and> ?j < tail + a"
    then obtain k where "?j = tail + k" "k < a" by (metis add_less_cancel_left le_Suc_ex)
    then show False using w [of k] assms by simp
  qed
  ultimately show ?thesis ..
qed

text \<open>The array after both copies.\<close>

definition wrap_put :: "bytes \<Rightarrow> nat \<Rightarrow> nat \<Rightarrow> nat \<Rightarrow> bytes \<Rightarrow> bytes" where
  "wrap_put d tail a m src =
     take (m - a) (drop a src) @
     drop (m - a) (take tail d @ take a src @ drop (tail + a) d)"

lemma wrap_put_nth:
  assumes "tail + a \<le> length d" "a \<le> m" "m \<le> length src" "m - a \<le> length d" "j < length d"
  shows "wrap_put d tail a m src ! j =
    (if j < m - a then src ! (a + j)
     else if tail \<le> j \<and> j < tail + a then src ! (j - tail) else d ! j)"
proof -
  let ?d1 = "take tail d @ take a src @ drop (tail + a) d"
  have "?d1 ! j = (if tail \<le> j \<and> j < tail + a then src ! (j - tail) else d ! j)"
    using mem_put_nth [of tail "take a src" d j] assms by (auto simp: min_absorb2)
  moreover have "wrap_put d tail a m src ! j = (if j < m - a then src ! (a + j) else ?d1 ! j)"
    using mem_put_nth [of 0 "take (m - a) (drop a src)" ?d1 j] assms
    by (auto simp: wrap_put_def min_absorb2)
  ultimately show ?thesis by simp
qed

lemma length_wrap_put:
  "tail + a \<le> length d \<Longrightarrow> a \<le> m \<Longrightarrow> m \<le> length src \<Longrightarrow> m - a \<le> length d \<Longrightarrow>
     length (wrap_put d tail a m src) = length d"
  by (simp add: wrap_put_def)

lemma ring_write_contents:
  assumes inv: "ring_inv r" and m: "m \<le> length src" "ring_len r + m \<le> ring_cap r"
    and tail: "tail = (ring_head r + ring_len r) mod ring_cap r" and a: "a = min (ring_cap r - tail) m"
  shows "ring_contents (r\<lparr>ring_data := wrap_put (ring_data r) tail a m src, ring_len := ring_len r + m\<rparr>) =
    ring_contents r @ take m src" (is "ring_contents ?r = _")
proof (rule nth_equalityI)
  show "length (ring_contents ?r) = length (ring_contents r @ take m src)" using m by simp
next
  fix i
  assume "i < length (ring_contents ?r)"
  then have i: "i < ring_len r + m" by simp
  let ?j = "(ring_head r + i) mod ring_cap r"
  from inv have c: "0 < ring_cap r" "length (ring_data r) = ring_cap r" by (simp_all add: ring_inv_def)
  then have t: "tail < ring_cap r" "m - a \<le> tail" using tail a m by auto
  have at: "wrap_put (ring_data r) tail a m src ! ?j =
      (if ?j < m - a then src ! (a + ?j)
       else if tail \<le> ?j \<and> ?j < tail + a then src ! (?j - tail) else ring_data r ! ?j)"
    using c t a m by (intro wrap_put_nth) auto
  show "ring_contents ?r ! i = (ring_contents r @ take m src) ! i"
  proof (cases "i < ring_len r")
    case True
    with at ring_new_disjoint [OF c(1) m(2) tail a True]
    have "wrap_put (ring_data r) tail a m src ! ?j = ring_data r ! ?j" by argo
    then show ?thesis using True i by (simp add: ring_contents_def nth_append)
  next
    case False
    define k where "k = i - ring_len r"
    with False i have k: "k < m" "i = ring_len r + k" by auto
    then have "?j = (if k < a then tail + k else k - a)"
      using ring_new_index [OF c(1) _ tail a k(1)] m by simp
    then have "wrap_put (ring_data r) tail a m src ! ?j = src ! k"
      using at k t a by (auto split: if_splits)
    then show ?thesis using k i m by (simp add: ring_contents_def nth_append)
  qed
qed

lemma ring_write_eq:
  assumes inv: "ring_inv r" and n: "n \<le> length src"
    and m: "m = min n (ring_cap r - length (ring_contents r))"
  shows "\<exists>r'. ct_ring_write r src n = Ok (m, r') \<and> ring_inv r' \<and> ring_cap r' = ring_cap r \<and>
    ring_contents r' = ring_contents r @ take m src"
proof -
  define tail where "tail = (ring_head r + ring_len r) mod ring_cap r"
  define a where "a = min (ring_cap r - tail) m"
  let ?d = "wrap_put (ring_data r) tail a m src"
  let ?r = "r\<lparr>ring_data := ?d, ring_len := ring_len r + m\<rparr>"
  from inv have c: "0 < ring_cap r" "length (ring_data r) = ring_cap r" "ring_len r \<le> ring_cap r"
    by (simp_all add: ring_inv_def)
  then have b: "tail < ring_cap r" "a \<le> m" "m \<le> length src" "tail + a \<le> ring_cap r"
    "m - a \<le> ring_cap r" "ring_len r + m \<le> ring_cap r"
    using m n mod_less_divisor [OF c(1), of "ring_head r + ring_len r"]
    unfolding tail_def a_def by auto
  have "(if n > ring_cap r - ring_len r then ring_cap r - ring_len r else n) = m"
    "(if ring_cap r - tail > m then m else ring_cap r - tail) = a"
    by (auto simp: m a_def)
  then have "ct_ring_write r src n = Ok (m, ?r)"
    using c b by (simp add: ct_ring_write_def Let_def tail_def [symmetric] rd_def mem_put_def
        wrap_put_def)
  moreover have "ring_inv ?r" using inv b c by (simp add: ring_inv_def length_wrap_put)
  ultimately show ?thesis
    using ring_write_contents [OF inv b(3,6) tail_def a_def] by auto
qed

lemma ring_read_nth:
  "ring_inv r \<Longrightarrow> i < ring_len r \<Longrightarrow> ring_contents r ! i =
     (if i < ring_cap r - ring_head r then ring_data r ! (ring_head r + i)
      else ring_data r ! (i - (ring_cap r - ring_head r)))"
  by (auto simp: ring_contents_def ring_inv_def mod_if ac_simps)

lemma ring_consume_eq:
  assumes inv: "ring_inv r"
  shows "\<exists>r'. ct_ring_consume r n = Ok r' \<and> ring_inv r' \<and> ring_cap r' = ring_cap r \<and>
    ring_contents r' = drop n (ring_contents r)"
proof -
  let ?n = "if n > ring_len r then ring_len r else n"
  let ?r = "r\<lparr>ring_head := (ring_head r + ?n) mod ring_cap r, ring_len := ring_len r - ?n\<rparr>"
  have "ct_ring_consume r n = Ok ?r" using inv by (simp add: ct_ring_consume_def ring_inv_def)
  moreover have "ring_inv ?r" using inv by (auto simp: ring_inv_def)
  moreover have "ring_contents ?r = drop n (ring_contents r)"
    by (rule nth_equalityI) (auto simp: ring_contents_def mod_add_left_eq add.assoc)
  ultimately show ?thesis by auto
qed

lemma ring_read_eq:
  assumes inv: "ring_inv r"
  shows "\<exists>r'. ct_ring_read r n = Ok (take n (ring_contents r), r') \<and> ring_inv r' \<and>
    ring_cap r' = ring_cap r \<and> ring_contents r' = drop n (ring_contents r)"
proof -
  define m where "m = (if n > ring_len r then ring_len r else n)"
  define a where "a = (if ring_cap r - ring_head r > m then m else ring_cap r - ring_head r)"
  from ring_consume_eq [OF inv, of n] obtain r' where
    r': "ct_ring_consume r n = Ok r'" "ring_inv r'" "ring_cap r' = ring_cap r"
    "ring_contents r' = drop n (ring_contents r)" by blast
  have b: "a \<le> m" "ring_head r + a \<le> ring_cap r" "m - a \<le> ring_cap r" "m \<le> ring_len r"
    "m - a \<le> ring_head r"
    using inv by (auto simp: a_def m_def ring_inv_def)
  have "ct_ring_read r n =
      Ok (take a (drop (ring_head r) (ring_data r)) @ take (m - a) (ring_data r), r')"
    using r'(1) b inv
    by (simp add: ct_ring_read_def ct_ring_consume_def Let_def m_def [symmetric] a_def [symmetric]
        rd_def ring_inv_def)
  moreover have "take a (drop (ring_head r) (ring_data r)) @ take (m - a) (ring_data r) =
      take n (ring_contents r)" (is "?l = _")
  proof (rule nth_equalityI)
    show "length ?l = length (take n (ring_contents r))"
      using inv b by (auto simp: ring_inv_def m_def)
  next
    fix i
    assume "i < length ?l"
    then have i: "i < m" using inv b by (simp add: ring_inv_def)
    then have "take n (ring_contents r) ! i = ring_contents r ! i" "i < ring_len r"
      by (auto simp: m_def split: if_splits)
    then show "?l ! i = take n (ring_contents r) ! i"
      using ring_read_nth [OF inv, of i] inv i b
      by (auto simp: nth_append ring_inv_def a_def split: if_splits)
  qed
  ultimately show ?thesis using r' by simp
qed

lemma ring_peek_eq:
  assumes inv: "ring_inv r"
  shows "\<exists>m. ct_ring_peek r = Ok (take m (ring_contents r)) \<and> m \<le> length (ring_contents r) \<and>
    (m = 0 \<longleftrightarrow> ring_contents r = [])"
proof -
  let ?m = "min (ring_cap r - ring_head r) (ring_len r)"
  have "ct_ring_peek r = Ok (take ?m (drop (ring_head r) (ring_data r)))"
    using inv by (auto simp: ct_ring_peek_def Let_def rd_def ring_inv_def min_def)
  moreover have "take ?m (drop (ring_head r) (ring_data r)) = take ?m (ring_contents r)"
    using inv by (intro nth_equalityI) (auto simp: ring_read_nth ring_inv_def)
  moreover have "?m = 0 \<longleftrightarrow> ring_contents r = []"
    using inv by (auto simp: ring_inv_def ring_contents_def)
  ultimately show ?thesis using inv by (auto intro!: exI [of _ ?m])
qed

interpretation rg: byte_fifo ring_inv ring_contents ring_cap ct_ring_write ct_ring_read
  ct_ring_peek ct_ring_consume
proof
  show "ring_inv q \<Longrightarrow> length (ring_contents q) \<le> ring_cap q" for q
    by (simp add: ring_inv_def)
qed (rule ring_write_eq ring_read_eq ring_peek_eq ring_consume_eq; assumption)+

lemma ring_init_inv:
  "ct_ring_init (Some d) cap = Ok r \<Longrightarrow> length d = cap \<Longrightarrow> 0 < cap \<Longrightarrow>
     ring_inv r \<and> ring_contents r = [] \<and> ring_cap r = cap"
  by (auto simp: ct_ring_init_def ring_inv_def ring_contents_def)

section \<open>Properties\<close>

text \<open>
  A schedule of buffer operations, as the relay issues them, with what each of them returns: the count
  a write accepted, the bytes a read copied out, the bytes a peek points at; a consume returns nothing.
\<close>

datatype ring_op = Put bytes | Get nat | Peek | Consume nat

datatype ring_out = Wrote nat | Took bytes | Showed bytes | Dropped

fun ring_step :: "ct_ring \<Rightarrow> ring_op \<Rightarrow> (ring_out \<times> ct_ring) res" where
  "ring_step r (Put src) = andthen (ct_ring_write r src (length src)) (\<lambda>(n, r'). Ok (Wrote n, r'))"
| "ring_step r (Get n) = andthen (ct_ring_read r n) (\<lambda>(bs, r'). Ok (Took bs, r'))"
| "ring_step r Peek = andthen (ct_ring_peek r) (\<lambda>bs. Ok (Showed bs, r))"
| "ring_step r (Consume n) = andthen (ct_ring_consume r n) (\<lambda>r'. Ok (Dropped, r'))"

fun ring_run :: "ct_ring \<Rightarrow> ring_op list \<Rightarrow> (ring_out list \<times> ct_ring) res" where
  "ring_run r [] = Ok ([], r)"
| "ring_run r (op # ops) =
     andthen (ring_step r op) (\<lambda>(out, r'). andthen (ring_run r' ops) (\<lambda>(outs, r''). Ok (out # outs, r'')))"

text \<open>
  The abstract queue of capacity \<open>c\<close>: which result and which next content an operation may have. A peek
  may show any prefix that is not empty unless the queue is.
\<close>

fun fifo_step :: "nat \<Rightarrow> bytes \<Rightarrow> ring_op \<Rightarrow> ring_out \<Rightarrow> bytes \<Rightarrow> bool" where
  "fifo_step c q (Put src) out q' \<longleftrightarrow> out = Wrote (min (length src) (c - length q)) \<and> q' = q @ take (c - length q) src"
| "fifo_step c q (Get n) out q' \<longleftrightarrow> out = Took (take n q) \<and> q' = drop n q"
| "fifo_step c q Peek out q' \<longleftrightarrow> (\<exists>bs. out = Showed bs \<and> prefix bs q \<and> (bs = [] \<longleftrightarrow> q = [])) \<and> q' = q"
| "fifo_step c q (Consume n) out q' \<longleftrightarrow> out = Dropped \<and> q' = drop n q"

inductive fifo_run :: "nat \<Rightarrow> bytes \<Rightarrow> ring_op list \<Rightarrow> ring_out list \<Rightarrow> bytes \<Rightarrow> bool" where
  fifo_done: "fifo_run c q [] [] q"
| fifo_next: "fifo_step c q op out q1 \<Longrightarrow> fifo_run c q1 ops outs q' \<Longrightarrow> fifo_run c q (op # ops) (out # outs) q'"

inductive_simps fifo_run_simps [simp]: "fifo_run c q [] outs q'" "fifo_run c q (op # ops) outs q'"

lemma ring_step_refines:
  assumes "ring_inv r"
  shows "\<exists>out r'. ring_step r op = Ok (out, r') \<and> ring_inv r' \<and> ring_cap r' = ring_cap r \<and>
    fifo_step (ring_cap r) (ring_contents r) op out (ring_contents r')"
proof (cases op)
  case (Put src)
  from rg.put_law [OF assms order_refl refl, of src] show ?thesis by (auto simp: Put min_def split: if_splits)
next
  case (Get n)
  from rg.get_law [OF assms, of n] show ?thesis by (auto simp: Get)
next
  case Peek
  from rg.peek_law [OF assms] show ?thesis by (auto simp: Peek assms take_is_prefix)
next
  case (Consume n)
  from rg.consume_law [OF assms, of n] show ?thesis by (auto simp: Consume)
qed

text \<open>
  C35: the ring buffer refines the abstract bounded queue: every schedule of writes, reads, peeks and
  consumes runs on the C buffer without leaving its array, keeps the representation invariant, and
  returns at each step a result, and leaves a content, that the abstract queue allows: the count of
  each write, the bytes of each read and a non-empty part of the front for each peek.
\<close>

theorem ring_refines_fifo:
  assumes "ring_inv r"
  shows "\<exists>outs r'. ring_run r ops = Ok (outs, r') \<and> ring_inv r' \<and> ring_cap r' = ring_cap r \<and>
    fifo_run (ring_cap r) (ring_contents r) ops outs (ring_contents r')"
  using assms
proof (induction ops arbitrary: r)
  case (Cons op ops)
  from ring_step_refines [OF Cons.prems, of op] obtain out r1 where
    r1: "ring_step r op = Ok (out, r1)" "ring_inv r1" "ring_cap r1 = ring_cap r"
      "fifo_step (ring_cap r) (ring_contents r) op out (ring_contents r1)" by blast
  from Cons.IH [OF r1(2)] obtain outs r2 where
    "ring_run r1 ops = Ok (outs, r2)" "ring_inv r2" "ring_cap r2 = ring_cap r1"
    "fifo_run (ring_cap r1) (ring_contents r1) ops outs (ring_contents r2)" by blast
  then show ?case using r1 by auto
qed simp

definition small_ring :: ct_ring where
  "small_ring = \<lparr>ring_data = [7, 8, 9, 10], ring_cap = 4, ring_head = 3, ring_len = 2\<rparr>"

theorem ring_refines_fifo_witness:
  "\<exists>bs r'. ring_run small_ring [Put [1, 2, 3], Peek, Get 3, Consume 1, Put [4]] =
     Ok ([Wrote 2, Showed bs, Took [10, 7, 1], Dropped, Wrote 1], r') \<and> bs \<noteq> [] \<and> prefix bs [10, 7, 1, 2] \<and> ring_contents r' = [4]"
proof -
  have inv: "ring_inv small_ring" by (simp add: ring_inv_def small_ring_def)
  have "ring_contents small_ring = [10, 7]" "ring_cap small_ring = 4"
    by (simp_all add: ring_contents_def small_ring_def upt_rec)
  then show ?thesis
    using ring_refines_fifo [OF inv, of "[Put [1, 2, 3], Peek, Get 3, Consume 1, Put [4]]"]
    by (auto simp del: ring_run.simps)
qed

end
