(* ===== verification/Metrics.thy ===== *)
theory Metrics
  imports Autoconf
begin

text \<open>
  The process-wide counters of \<open>src/src/util/metrics.c\<close>: a global array of 64-bit values indexed
  by an enumeration, with saturating updates and one peak tracker. The array is passed as a value;
  the handlers of other theories thread it through their steps.
\<close>

section \<open>The counters\<close>

text \<open>The enumeration, with its final element \<open>CT_METRIC_COUNT\<close>, which is no valid index.\<close>

datatype ct_metric_id =
    CT_METRIC_CONNECTIONS_ACCEPTED_TOTAL
  | CT_METRIC_CONNECTIONS_REJECTED_TOTAL
  | CT_METRIC_ACTIVE_STREAMS
  | CT_METRIC_PENDING_STREAMS
  | CT_METRIC_STREAMS_OPENED_TOTAL
  | CT_METRIC_STREAMS_CLOSED_TOTAL
  | CT_METRIC_STREAMS_FAILED_TOTAL
  | CT_METRIC_WORK_IDLE
  | CT_METRIC_WORK_ACTIVE
  | CT_METRIC_WORK_CONNECT_FAILURES_TOTAL
  | CT_METRIC_CONTROL_RECONNECTS_TOTAL
  | CT_METRIC_BYTES_C2S_TOTAL
  | CT_METRIC_BYTES_S2C_TOTAL
  | CT_METRIC_BUFFER_BYTES_CURRENT
  | CT_METRIC_BUFFER_BYTES_PEAK
  | CT_METRIC_AEAD_FAILURES_TOTAL
  | CT_METRIC_AUTH_FAILURES_TOTAL
  | CT_METRIC_RESOURCE_LIMIT_REJECTIONS_TOTAL
  | CT_METRIC_UDP_SESSIONS_ACTIVE
  | CT_METRIC_UDP_SESSIONS_CREATED_TOTAL
  | CT_METRIC_UDP_SESSIONS_EXPIRED_TOTAL
  | CT_METRIC_UDP_SESSIONS_REJECTED_TOTAL
  | CT_METRIC_UDP_DATAGRAMS_C2S_TOTAL
  | CT_METRIC_UDP_DATAGRAMS_S2C_TOTAL
  | CT_METRIC_UDP_BYTES_C2S_TOTAL
  | CT_METRIC_UDP_BYTES_S2C_TOTAL
  | CT_METRIC_UDP_DATAGRAMS_DROPPED_TOTAL
  | CT_METRIC_UDP_DATAGRAMS_OVERSIZED_TOTAL
  | CT_METRIC_UDP_REPLAY_DROPPED_TOTAL
  | CT_METRIC_UDP_AEAD_FAILURES_TOTAL
  | CT_METRIC_UDP_LOCAL_SEND_FAILURES_TOTAL
  | CT_METRIC_PROXY_PROTOCOL_V1_CONNECTIONS_TOTAL
  | CT_METRIC_PROXY_PROTOCOL_V2_CONNECTIONS_TOTAL
  | CT_METRIC_PROXY_PROTOCOL_DISABLED_CONNECTIONS_TOTAL
  | CT_METRIC_PROXY_PROTOCOL_HEADER_FAILURES_TOTAL
  | CT_METRIC_PROXY_PROTOCOL_MODE_MISMATCH_TOTAL
  | CT_METRIC_PROXY_PROTOCOL_LOCAL_WRITE_FAILURES_TOTAL
  | CT_METRIC_COUNT

type_synonym metrics = "ct_metric_id \<Rightarrow> u64"

definition no_metrics :: metrics where
  "no_metrics = (\<lambda>_. 0)"

definition update_peak :: "ct_metric_id \<Rightarrow> ct_metric_id \<Rightarrow> metrics \<Rightarrow> metrics" where
  "update_peak current_id peak_id g =
     (if g current_id > g peak_id then g(peak_id := g current_id) else g)"

definition ct_metric_add :: "ct_metric_id \<Rightarrow> u64 \<Rightarrow> metrics \<Rightarrow> metrics" where
  "ct_metric_add mid value g =
     (if mid = CT_METRIC_COUNT then g
      else
        let old = g mid;
            sum = old + value;
            g' = g(mid := (if sum < old then uint64_max else sum))
        in if mid = CT_METRIC_BUFFER_BYTES_CURRENT
           then update_peak CT_METRIC_BUFFER_BYTES_CURRENT CT_METRIC_BUFFER_BYTES_PEAK g'
           else g')"

definition ct_metric_inc :: "ct_metric_id \<Rightarrow> metrics \<Rightarrow> metrics" where
  "ct_metric_inc mid g = ct_metric_add mid 1 g"

definition ct_metric_sub :: "ct_metric_id \<Rightarrow> u64 \<Rightarrow> metrics \<Rightarrow> metrics" where
  "ct_metric_sub mid value g =
     (if mid = CT_METRIC_COUNT then g
      else g(mid := (if g mid > value then g mid - value else 0)))"

definition ct_metric_dec :: "ct_metric_id \<Rightarrow> metrics \<Rightarrow> metrics" where
  "ct_metric_dec mid g = ct_metric_sub mid 1 g"

definition ct_metric_set :: "ct_metric_id \<Rightarrow> u64 \<Rightarrow> metrics \<Rightarrow> metrics" where
  "ct_metric_set mid value g =
     (if mid = CT_METRIC_COUNT then g
      else
        let g' = g(mid := value)
        in if mid = CT_METRIC_BUFFER_BYTES_CURRENT
           then update_peak CT_METRIC_BUFFER_BYTES_CURRENT CT_METRIC_BUFFER_BYTES_PEAK g'
           else g')"

definition ct_metric_get :: "ct_metric_id \<Rightarrow> metrics \<Rightarrow> u64" where
  "ct_metric_get mid g = (if mid = CT_METRIC_COUNT then 0 else g mid)"

fun ct_metric_name :: "autoconf \<Rightarrow> ct_metric_id \<Rightarrow> string" where
  "ct_metric_name k CT_METRIC_CONNECTIONS_ACCEPTED_TOTAL = ''connections_accepted_total''"
| "ct_metric_name k CT_METRIC_CONNECTIONS_REJECTED_TOTAL = ''connections_rejected_total''"
| "ct_metric_name k CT_METRIC_ACTIVE_STREAMS = ''active_streams''"
| "ct_metric_name k CT_METRIC_PENDING_STREAMS = ''pending_streams''"
| "ct_metric_name k CT_METRIC_STREAMS_OPENED_TOTAL = ''streams_opened_total''"
| "ct_metric_name k CT_METRIC_STREAMS_CLOSED_TOTAL = ''streams_closed_total''"
| "ct_metric_name k CT_METRIC_STREAMS_FAILED_TOTAL = ''streams_failed_total''"
| "ct_metric_name k CT_METRIC_WORK_IDLE = ''work_idle''"
| "ct_metric_name k CT_METRIC_WORK_ACTIVE = ''work_active''"
| "ct_metric_name k CT_METRIC_WORK_CONNECT_FAILURES_TOTAL = ''work_connect_failures_total''"
| "ct_metric_name k CT_METRIC_CONTROL_RECONNECTS_TOTAL = ''control_reconnects_total''"
| "ct_metric_name k CT_METRIC_BYTES_C2S_TOTAL = ''bytes_c2s_total''"
| "ct_metric_name k CT_METRIC_BYTES_S2C_TOTAL = ''bytes_s2c_total''"
| "ct_metric_name k CT_METRIC_BUFFER_BYTES_CURRENT = ''buffer_bytes_current''"
| "ct_metric_name k CT_METRIC_BUFFER_BYTES_PEAK = ''buffer_bytes_peak''"
| "ct_metric_name k CT_METRIC_AEAD_FAILURES_TOTAL = ''aead_failures_total''"
| "ct_metric_name k CT_METRIC_AUTH_FAILURES_TOTAL = ''auth_failures_total''"
| "ct_metric_name k CT_METRIC_RESOURCE_LIMIT_REJECTIONS_TOTAL = ''resource_limit_rejections_total''"
| "ct_metric_name k CT_METRIC_UDP_SESSIONS_ACTIVE = ''udp_sessions_active''"
| "ct_metric_name k CT_METRIC_UDP_SESSIONS_CREATED_TOTAL = ''udp_sessions_created_total''"
| "ct_metric_name k CT_METRIC_UDP_SESSIONS_EXPIRED_TOTAL = ''udp_sessions_expired_total''"
| "ct_metric_name k CT_METRIC_UDP_SESSIONS_REJECTED_TOTAL = ''udp_sessions_rejected_total''"
| "ct_metric_name k CT_METRIC_UDP_DATAGRAMS_C2S_TOTAL = ''udp_datagrams_c2s_total''"
| "ct_metric_name k CT_METRIC_UDP_DATAGRAMS_S2C_TOTAL = ''udp_datagrams_s2c_total''"
| "ct_metric_name k CT_METRIC_UDP_BYTES_C2S_TOTAL = ''udp_bytes_c2s_total''"
| "ct_metric_name k CT_METRIC_UDP_BYTES_S2C_TOTAL = ''udp_bytes_s2c_total''"
| "ct_metric_name k CT_METRIC_UDP_DATAGRAMS_DROPPED_TOTAL = ''udp_datagrams_dropped_total''"
| "ct_metric_name k CT_METRIC_UDP_DATAGRAMS_OVERSIZED_TOTAL = ''udp_datagrams_oversized_total''"
| "ct_metric_name k CT_METRIC_UDP_REPLAY_DROPPED_TOTAL = ''udp_replay_dropped_total''"
| "ct_metric_name k CT_METRIC_UDP_AEAD_FAILURES_TOTAL = ''udp_aead_failures_total''"
| "ct_metric_name k CT_METRIC_UDP_LOCAL_SEND_FAILURES_TOTAL = ''udp_local_send_failures_total''"
| "ct_metric_name k CT_METRIC_PROXY_PROTOCOL_V1_CONNECTIONS_TOTAL = (if k_proxy k then ''proxy_protocol_v1_connections_total'' else ''unused_metric'')"
| "ct_metric_name k CT_METRIC_PROXY_PROTOCOL_V2_CONNECTIONS_TOTAL = (if k_proxy k then ''proxy_protocol_v2_connections_total'' else ''unused_metric'')"
| "ct_metric_name k CT_METRIC_PROXY_PROTOCOL_DISABLED_CONNECTIONS_TOTAL = (if k_proxy k then ''proxy_protocol_disabled_connections_total'' else ''unused_metric'')"
| "ct_metric_name k CT_METRIC_PROXY_PROTOCOL_HEADER_FAILURES_TOTAL = (if k_proxy k then ''proxy_protocol_header_failures_total'' else ''unused_metric'')"
| "ct_metric_name k CT_METRIC_PROXY_PROTOCOL_MODE_MISMATCH_TOTAL = (if k_proxy k then ''proxy_protocol_mode_mismatch_total'' else ''unused_metric'')"
| "ct_metric_name k CT_METRIC_PROXY_PROTOCOL_LOCAL_WRITE_FAILURES_TOTAL = (if k_proxy k then ''proxy_protocol_local_write_failures_total'' else ''unused_metric'')"
| "ct_metric_name k CT_METRIC_COUNT = ''unknown''"

section \<open>Saturation and the peak\<close>

lemma add_saturates:
  "mid \<noteq> CT_METRIC_COUNT \<Longrightarrow> mid \<noteq> CT_METRIC_BUFFER_BYTES_PEAK \<Longrightarrow>
     unat (ct_metric_add mid v g mid) = min (unat (g mid) + unat v) (2 ^ 64 - 1)"
proof -
  assume mid: "mid \<noteq> CT_METRIC_COUNT" "mid \<noteq> CT_METRIC_BUFFER_BYTES_PEAK"
  have "unat (if g mid + v < g mid then uint64_max else g mid + v) =
      min (unat (g mid) + unat v) (2 ^ 64 - 1)"
  proof (cases "unat (g mid) + unat v < 2 ^ 64")
    case True
    then have "unat (g mid + v) = unat (g mid) + unat v" by (simp add: unat_add_lem [THEN iffD1])
    then show ?thesis using True by (simp add: word_less_nat_alt)
  next
    case False
    have "unat (g mid + v) = (unat (g mid) + unat v - 2 ^ 64) mod 2 ^ 64"
      using False le_mod_geq [of "2 ^ 64" "unat (g mid) + unat v"] by (simp add: unat_word_ariths)
    moreover have b: "unat (g mid) < 2 ^ 64" "unat v < 2 ^ 64"
      using unsigned_less [of "g mid"] unsigned_less [of v] by simp_all
    ultimately have "unat (g mid + v) = unat (g mid) + unat v - 2 ^ 64" by simp
    then show ?thesis using False b by (simp add: word_less_nat_alt)
  qed
  then show ?thesis using mid by (auto simp: ct_metric_add_def Let_def update_peak_def)
qed

lemma sub_saturates:
  "mid \<noteq> CT_METRIC_COUNT \<Longrightarrow> unat (ct_metric_sub mid v g mid) = unat (g mid) - unat v"
  by (simp add: ct_metric_sub_def unat_sub word_less_nat_alt word_le_nat_alt)

definition peak_ok :: "metrics \<Rightarrow> bool" where
  "peak_ok g \<longleftrightarrow> g CT_METRIC_BUFFER_BYTES_CURRENT \<le> g CT_METRIC_BUFFER_BYTES_PEAK"

text \<open>Updates of a counter leave every other counter alone, but for the peak.\<close>

lemma metric_frame [simp]:
  "mid \<noteq> other \<Longrightarrow> other \<noteq> CT_METRIC_BUFFER_BYTES_PEAK \<Longrightarrow> ct_metric_add mid v g other = g other"
  "mid \<noteq> other \<Longrightarrow> ct_metric_sub mid v g other = g other"
  "mid \<noteq> other \<Longrightarrow> other \<noteq> CT_METRIC_BUFFER_BYTES_PEAK \<Longrightarrow> ct_metric_inc mid g other = g other"
  "mid \<noteq> other \<Longrightarrow> ct_metric_dec mid g other = g other"
  by (auto simp: ct_metric_add_def ct_metric_sub_def ct_metric_inc_def ct_metric_dec_def
      update_peak_def Let_def)

text \<open>A sequence of counter updates, as the handlers issue them.\<close>

datatype metric_op = Add ct_metric_id u64 | Inc ct_metric_id | Sub ct_metric_id u64
  | Dec ct_metric_id | Set ct_metric_id u64

fun metric_op_run :: "metric_op \<Rightarrow> metrics \<Rightarrow> metrics" where
  "metric_op_run (Add m v) g = ct_metric_add m v g"
| "metric_op_run (Inc m) g = ct_metric_inc m g"
| "metric_op_run (Sub m v) g = ct_metric_sub m v g"
| "metric_op_run (Dec m) g = ct_metric_dec m g"
| "metric_op_run (Set m v) g = ct_metric_set m v g"

fun metric_op_target :: "metric_op \<Rightarrow> ct_metric_id" where
  "metric_op_target (Add m v) = m"
| "metric_op_target (Inc m) = m"
| "metric_op_target (Sub m v) = m"
| "metric_op_target (Dec m) = m"
| "metric_op_target (Set m v) = m"

lemma sub_le: "ct_metric_sub m v g m \<le> g m"
  by (auto simp: ct_metric_sub_def word_le_nat_alt unat_sub word_less_nat_alt)

lemma peak_ok_step:
  assumes "peak_ok g" "metric_op_target op \<noteq> CT_METRIC_BUFFER_BYTES_PEAK"
  shows "peak_ok (metric_op_run op g) \<and>
    g CT_METRIC_BUFFER_BYTES_PEAK \<le> metric_op_run op g CT_METRIC_BUFFER_BYTES_PEAK"
  using assms
  by (cases op)
    (auto simp: peak_ok_def ct_metric_add_def ct_metric_inc_def ct_metric_sub_def ct_metric_dec_def
      ct_metric_set_def update_peak_def Let_def word_le_nat_alt word_less_nat_alt unat_sub)

text \<open>
  The peak gauge is a high-water mark: starting from zeroed counters, after any sequence of
  updates that are not addressed to the peak itself, the peak is at least the value the current
  gauge has after every prefix of the sequence.
\<close>

theorem buffer_peak_high_water:
  assumes "\<forall>op \<in> set ops. metric_op_target op \<noteq> CT_METRIC_BUFFER_BYTES_PEAK" "n \<le> length ops"
  shows "ct_metric_get CT_METRIC_BUFFER_BYTES_CURRENT (fold metric_op_run (take n ops) no_metrics)
    \<le> ct_metric_get CT_METRIC_BUFFER_BYTES_PEAK (fold metric_op_run ops no_metrics)"
proof -
  have run: "peak_ok (fold metric_op_run os g) \<and> g CT_METRIC_BUFFER_BYTES_PEAK \<le>
      fold metric_op_run os g CT_METRIC_BUFFER_BYTES_PEAK"
    if "\<forall>op \<in> set os. metric_op_target op \<noteq> CT_METRIC_BUFFER_BYTES_PEAK" "peak_ok g" for os g
    using that
  proof (induction os arbitrary: g)
    case (Cons op os)
    then show ?case using peak_ok_step [of g op] Cons.IH [of "metric_op_run op g"]
      by (auto intro: order_trans)
  qed simp
  let ?g = "fold metric_op_run (take n ops) no_metrics"
  have "peak_ok no_metrics" by (simp add: peak_ok_def no_metrics_def)
  then have "peak_ok ?g" using run [of "take n ops" no_metrics] assms in_set_takeD by metis
  moreover have "?g CT_METRIC_BUFFER_BYTES_PEAK \<le>
      fold metric_op_run (drop n ops) ?g CT_METRIC_BUFFER_BYTES_PEAK"
    using run [of "drop n ops" ?g] assms in_set_dropD calculation by metis
  moreover have "fold metric_op_run (drop n ops) ?g = fold metric_op_run ops no_metrics"
    by (metis append_take_drop_id comp_apply fold_append)
  ultimately show ?thesis by (simp add: ct_metric_get_def peak_ok_def)
qed

theorem buffer_peak_high_water_witness:
  "(1000 :: u64) \<le> ct_metric_get CT_METRIC_BUFFER_BYTES_PEAK
     (fold metric_op_run [Add CT_METRIC_BUFFER_BYTES_CURRENT 1000,
        Sub CT_METRIC_BUFFER_BYTES_CURRENT 400, Dec CT_METRIC_ACTIVE_STREAMS] no_metrics)"
  using buffer_peak_high_water [of "[Add CT_METRIC_BUFFER_BYTES_CURRENT 1000,
        Sub CT_METRIC_BUFFER_BYTES_CURRENT 400, Dec CT_METRIC_ACTIVE_STREAMS]" 1]
  by (simp add: ct_metric_get_def ct_metric_add_def update_peak_def no_metrics_def)

end
