(* ===== verification/Replay.thy ===== *)
theory Replay
  imports Autoconf
begin

text \<open>
  The two sliding-window replay filters: \<open>accept_work_sequence\<close> (\<open>src/src/net/net.c\<close>) for the
  sequence numbers of work connections and \<open>udp_replay_accept\<close> (the same function in
  \<open>src/src/server/server.c\<close> and \<open>src/src/client/client.c\<close>) for UDP datagrams. Both keep the
  highest accepted number and a 64-bit map of the numbers just below it. The specification is a set
  of accepted numbers; the locale \<open>replay_filter\<close> says that a filter implements it, and its lemmas
  give the consequences for whole runs.
\<close>

unbundle bit_operations_syntax

section \<open>The filters\<close>

text \<open>State: the highest accepted number and the bitmap. \<open>Err\<close> is a rejected number.\<close>

type_synonym window = "u64 \<times> u64"

definition accept_work_sequence :: "window \<Rightarrow> u64 \<Rightarrow> window res" where
  "accept_work_sequence w sequence =
     (case w of (work_rx_high, work_rx_bitmap) \<Rightarrow>
      if sequence = 0 then Err
      else if sequence > work_rx_high then
        let advance = sequence - work_rx_high
        in Ok (sequence,
               if advance \<ge> 64 then 1 else push_bit (unat advance) work_rx_bitmap OR 1)
      else
        let age = work_rx_high - sequence in
        if age \<ge> 64 then Err
        else
          let b = push_bit (unat age) 1 in
          if work_rx_bitmap AND b \<noteq> 0 then Err
          else Ok (work_rx_high, work_rx_bitmap OR b))"

text \<open>
  \<open>CONFIG_UDP_REPLAY_WINDOW\<close> bounds how far behind a datagram may be. Shifting a 64-bit one by
  64 or more places is undefined in C.
\<close>

definition udp_replay_accept :: "nat \<Rightarrow> window \<Rightarrow> u64 \<Rightarrow> window res" where
  "udp_replay_accept replay_window w seq =
     (case w of (high, bitmap) \<Rightarrow>
      if seq = 0 then Err
      else if seq > high then
        let shift = seq - high
        in Ok (seq, if shift \<ge> 64 then 1 else push_bit (unat shift) bitmap OR 1)
      else
        let behind = high - seq in
        if unat behind \<ge> replay_window then Err
        else if unat behind \<ge> 64 then Fault
        else
          let b = push_bit (unat behind) 1 in
          if bitmap AND b \<noteq> 0 then Err
          else Ok (high, bitmap OR b))"

section \<open>The specification of a replay filter\<close>

text \<open>
  \<open>S\<close> is the set of numbers accepted so far. A number is accepted when it is not zero, was not
  accepted before and is new or at most 63 behind the highest one.
\<close>

definition highest :: "nat set \<Rightarrow> nat" where
  "highest S = Max (insert 0 S)"

definition window_accepts :: "nat set \<Rightarrow> nat \<Rightarrow> bool" where
  "window_accepts S q \<longleftrightarrow> q \<noteq> 0 \<and> q \<notin> S \<and> (highest S < q \<or> highest S - q < 64)"

lemma highest_ge: "finite S \<Longrightarrow> q \<in> S \<Longrightarrow> q \<le> highest S"
  by (simp add: highest_def)

lemma highest_insert: "finite S \<Longrightarrow> highest (insert q S) = max q (highest S)"
  unfolding highest_def by (subst insert_commute) (simp add: Max_insert)

text \<open>The accepted numbers of a run of a filter and of the specification, in order of arrival.\<close>

fun accept_run :: "('s \<Rightarrow> u64 \<Rightarrow> 's res) \<Rightarrow> 's \<Rightarrow> u64 list \<Rightarrow> u64 list" where
  "accept_run accept s [] = []"
| "accept_run accept s (q # qs) =
     (case accept s q of Ok s' \<Rightarrow> q # accept_run accept s' qs | _ \<Rightarrow> accept_run accept s qs)"

fun spec_run :: "nat set \<Rightarrow> u64 list \<Rightarrow> u64 list" where
  "spec_run S [] = []"
| "spec_run S (q # qs) =
     (if window_accepts S (unat q) then q # spec_run (insert (unat q) S) qs else spec_run S qs)"

locale replay_filter =
  fixes accept :: "'s \<Rightarrow> u64 \<Rightarrow> 's res" and rel :: "'s \<Rightarrow> nat set \<Rightarrow> bool"
  assumes accept_fresh: "rel s S \<Longrightarrow> window_accepts S (unat q) \<Longrightarrow>
      \<exists>s'. accept s q = Ok s' \<and> rel s' (insert (unat q) S)"
    and reject_other: "rel s S \<Longrightarrow> \<not> window_accepts S (unat q) \<Longrightarrow> accept s q = Err"
    and finite_rel: "rel s S \<Longrightarrow> finite S"
begin

lemma run_refines: "rel s S \<Longrightarrow> accept_run accept s qs = spec_run S qs"
proof (induction qs arbitrary: s S)
  case Nil
  then show ?case by simp
next
  case (Cons q qs)
  show ?case
  proof (cases "window_accepts S (unat q)")
    case True
    then obtain s' where "accept s q = Ok s'" "rel s' (insert (unat q) S)"
      using accept_fresh [OF Cons.prems] by blast
    then show ?thesis using Cons.IH True by simp
  next
    case False
    then show ?thesis using Cons reject_other [OF Cons.prems False] by simp
  qed
qed

lemma run_accepts_once:
  "rel s S \<Longrightarrow> distinct (accept_run accept s qs) \<and> unat ` set (accept_run accept s qs) \<inter> S = {} \<and>
     0 \<notin> set (accept_run accept s qs)"
proof (induction qs arbitrary: s S)
  case Nil
  then show ?case by simp
next
  case (Cons q qs)
  show ?case
  proof (cases "window_accepts S (unat q)")
    case True
    then obtain s' where s': "accept s q = Ok s'" "rel s' (insert (unat q) S)"
      using accept_fresh [OF Cons.prems] by blast
    from Cons.IH [OF s'(2)] True show ?thesis
      by (auto simp: s'(1) window_accepts_def)
  next
    case False
    then show ?thesis using Cons reject_other [OF Cons.prems False] by simp
  qed
qed

text \<open>A sender that counts up is never refused, whatever gaps the network leaves.\<close>

lemma run_accepts_increasing:
  "rel s S \<Longrightarrow> sorted_wrt (<) qs \<Longrightarrow> \<forall>q \<in> set qs. highest S < unat q \<Longrightarrow>
     accept_run accept s qs = qs"
proof (induction qs arbitrary: s S)
  case Nil
  then show ?case by simp
next
  case (Cons q qs)
  have fin: "finite S" using finite_rel Cons.prems(1) .
  have "window_accepts S (unat q)"
    using Cons.prems(3) highest_ge [OF fin, of "unat q"] by (auto simp: window_accepts_def)
  then obtain s' where s': "accept s q = Ok s'" "rel s' (insert (unat q) S)"
    using accept_fresh [OF Cons.prems(1)] by blast
  have "highest (insert (unat q) S) = unat q"
    using Cons.prems(3) fin by (simp add: highest_insert)
  then have "\<forall>x \<in> set qs. highest (insert (unat q) S) < unat x"
    using Cons.prems(2) by (auto simp: word_less_nat_alt)
  then show ?case using Cons.IH [OF s'(2)] Cons.prems(2) s'(1) by simp
qed

end

section \<open>The bitmap represents the accepted set\<close>

definition window_rel :: "window \<Rightarrow> nat set \<Rightarrow> bool" where
  "window_rel w S \<longleftrightarrow> finite S \<and> 0 \<notin> S \<and> unat (fst w) = highest S \<and>
     (\<forall>i < 64. bit (snd w) i \<longleftrightarrow> i < unat (fst w) \<and> unat (fst w) - i \<in> S)"

lemma window_rel_init: "window_rel (0, 0) {}"
  by (simp add: window_rel_def highest_def)

lemma accept_work_new:
  assumes rel: "window_rel (hi, bm) S" and new: "hi < q"
  shows "window_rel (q, if q - hi \<ge> 64 then 1 else push_bit (unat (q - hi)) bm OR 1)
    (insert (unat q) S)"
proof -
  let ?d = "unat (q - hi)" and ?b = "if q - hi \<ge> 64 then 1 else push_bit (unat (q - hi)) bm OR 1"
  from new have d: "unat q = unat hi + ?d" "0 < ?d"
    by (simp_all add: unat_sub word_less_nat_alt word_le_nat_alt less_imp_le)
  from rel have S: "finite S" "0 \<notin> S" "unat hi = highest S"
    and bm: "\<And>i. i < 64 \<Longrightarrow> bit bm i \<longleftrightarrow> i < unat hi \<and> unat hi - i \<in> S"
    by (auto simp: window_rel_def)
  have above: "x \<in> S \<Longrightarrow> x \<le> unat hi" for x using highest_ge S by auto
  have "bit ?b i \<longleftrightarrow> i < unat q \<and> unat q - i \<in> insert (unat q) S" if i: "i < 64" for i
  proof (cases "i < ?d")
    case True
    then have "unat q - i \<notin> S" using above [of "unat q - i"] d by auto
    moreover have "bit ?b i \<longleftrightarrow> i = 0"
      using True i by (auto simp: bit_simps word_le_nat_alt)
    ultimately show ?thesis using d by auto
  next
    case False
    then have "?d < 64" using i by simp
    then have "bit ?b i \<longleftrightarrow> bit bm (i - ?d)"
      using False i d by (auto simp: bit_simps word_le_nat_alt)
    also have "\<dots> \<longleftrightarrow> i < unat q \<and> unat q - i \<in> S"
      using False i d bm [of "i - ?d"] by auto
    finally show ?thesis using False d by auto
  qed
  moreover have "highest (insert (unat q) S) = unat q"
    using S d by (simp add: highest_insert)
  ultimately show ?thesis using S d by (simp add: window_rel_def)
qed

lemma accept_work_old:
  assumes rel: "window_rel (hi, bm) S" and q: "q \<noteq> 0" "q \<le> hi" and age: "unat (hi - q) < 64"
  shows "bit bm (unat (hi - q)) \<longleftrightarrow> unat q \<in> S"
    and "window_rel (hi, bm OR push_bit (unat (hi - q)) 1) (insert (unat q) S)"
proof -
  let ?a = "unat (hi - q)"
  from q have a: "unat hi = unat q + ?a" "0 < unat q"
    by (simp_all add: unat_sub word_le_nat_alt unat_gt_0)
  from rel have S: "finite S" "0 \<notin> S" "unat hi = highest S"
    and bm: "\<And>i. i < 64 \<Longrightarrow> bit bm i \<longleftrightarrow> i < unat hi \<and> unat hi - i \<in> S"
    by (auto simp: window_rel_def)
  show "bit bm ?a \<longleftrightarrow> unat q \<in> S" using bm [OF age] a by simp
  have "bit (bm OR push_bit ?a 1) i \<longleftrightarrow> i < unat hi \<and> unat hi - i \<in> insert (unat q) S"
    if "i < 64" for i
    using bm [OF that] a that by (auto simp: bit_simps)
  moreover have "highest (insert (unat q) S) = unat hi" using S a by (simp add: highest_insert)
  ultimately show "window_rel (hi, bm OR push_bit ?a 1) (insert (unat q) S)"
    using S a by (simp add: window_rel_def)
qed

text \<open>With the window of 64 the two filters are the same function.\<close>

lemma udp_replay_accept_64: "udp_replay_accept 64 = accept_work_sequence"
  by (intro ext) (auto simp: udp_replay_accept_def accept_work_sequence_def Let_def
      word_le_nat_alt split: prod.splits)

lemma work_filter: "replay_filter accept_work_sequence window_rel"
proof
  fix w S and q :: u64
  assume rel: "window_rel w S" and acc: "window_accepts S (unat q)"
  obtain hi bm where w: "w = (hi, bm)" by fastforce
  from acc rel w have q: "q \<noteq> 0" "unat q \<notin> S" "hi < q \<or> unat hi - unat q < 64"
    by (auto simp: window_accepts_def window_rel_def word_less_nat_alt)
  show "\<exists>w'. accept_work_sequence w q = Ok w' \<and> window_rel w' (insert (unat q) S)"
  proof (cases "hi < q")
    case True
    then show ?thesis using accept_work_new [of hi bm S q] rel w q
      by (simp add: accept_work_sequence_def Let_def)
  next
    case False
    then have le: "q \<le> hi" by simp
    with q False have age: "unat (hi - q) < 64" by (simp add: unat_sub)
    from accept_work_old [OF rel [unfolded w] q(1) le age] q(2) False q(1) age show ?thesis
      by (auto simp: accept_work_sequence_def Let_def w and_exp_eq_0_iff_not_bit word_le_nat_alt)
  qed
next
  fix w S and q :: u64
  assume rel: "window_rel w S" and rej: "\<not> window_accepts S (unat q)"
  obtain hi bm where w: "w = (hi, bm)" by fastforce
  show "accept_work_sequence w q = Err"
  proof (cases "q = 0")
    case False
    from rel have fin: "finite S" and hi: "unat hi = highest S" by (auto simp: window_rel_def w)
    have le: "q \<le> hi"
    proof (rule ccontr)
      assume "\<not> q \<le> hi"
      then have "highest S < unat q" using hi by (simp add: word_le_nat_alt)
      then show False using rej False highest_ge [OF fin, of "unat q"]
        by (auto simp: window_accepts_def unat_eq_0)
    qed
    show ?thesis
    proof (cases "unat (hi - q) < 64")
      case True
      then have "unat q \<in> S" using rej False hi le by (auto simp: window_accepts_def unat_sub unat_eq_0)
      with accept_work_old(1) [OF rel [unfolded w] False le True] True le False show ?thesis
        by (auto simp: accept_work_sequence_def Let_def w and_exp_eq_0_iff_not_bit word_le_nat_alt
            word_less_nat_alt)
    next
      case False
      with le show ?thesis
        by (auto simp: accept_work_sequence_def Let_def w word_le_nat_alt word_less_nat_alt)
    qed
  qed (simp add: accept_work_sequence_def w)
qed (simp add: window_rel_def)

interpretation work: replay_filter accept_work_sequence window_rel
  by (rule work_filter)

interpretation udp: replay_filter "udp_replay_accept 64" window_rel
  unfolding udp_replay_accept_64 by (rule work_filter)

section \<open>Properties\<close>

text \<open>
  C36: the work-connection filter implements the set-based specification: from a fresh session, the
  numbers it accepts out of any sequence of arrivals are exactly those the specification accepts,
  and they are pairwise different and non-zero, so no bound work connection can be replayed.
\<close>

theorem work_sequence_exactly_once:
  "accept_run accept_work_sequence (0, 0) qs = spec_run {} qs \<and>
   distinct (accept_run accept_work_sequence (0, 0) qs) \<and>
   0 \<notin> set (accept_run accept_work_sequence (0, 0) qs)"
  using work.run_refines [OF window_rel_init] work.run_accepts_once [OF window_rel_init] by blast

text \<open>
  The client's own numbering is never refused: every strictly increasing sequence of non-zero
  work numbers is accepted completely, whatever numbers were lost in between.
\<close>

theorem work_sequence_accepts_increasing:
  assumes "sorted_wrt (<) qs" and "0 \<notin> set qs"
  shows "accept_run accept_work_sequence (0, 0) qs = qs"
proof -
  have "\<forall>q \<in> set qs. highest {} < unat q"
    using assms(2) by (auto simp: highest_def unat_gt_0)
  then show ?thesis using work.run_accepts_increasing [OF window_rel_init assms(1)] by simp
qed

theorem work_sequence_accepts_increasing_witness:
  "sorted_wrt (<) [1, 2, 70, 71 :: u64] \<and>
   accept_run accept_work_sequence (0, 0) [1, 2, 70, 71] = [1, 2, 70, 71]"
  using work_sequence_accepts_increasing [of "[1, 2, 70, 71]"] by simp

text \<open>
  C37: with the default window of 64 the UDP filter of client and server implements the same
  specification and never shifts by the word width; with any larger window, which the build
  configuration admits (64 to 128), there is a number whose test is undefined behaviour.
\<close>

theorem udp_replay_window_64_only:
  "accept_run (udp_replay_accept 64) (0, 0) qs = spec_run {} qs \<and>
   distinct (accept_run (udp_replay_accept 64) (0, 0) qs) \<and>
   udp_replay_accept 64 w q \<noteq> Fault \<and>
   (64 < n \<longrightarrow> udp_replay_accept n (65, 1) 1 = Fault)"
proof -
  have "udp_replay_accept 64 w q \<noteq> Fault"
    by (auto simp: udp_replay_accept_def Let_def split: prod.splits)
  moreover have "64 < n \<longrightarrow> udp_replay_accept n (65, 1) 1 = Fault"
    by (simp add: udp_replay_accept_def)
  ultimately show ?thesis
    using udp.run_refines [OF window_rel_init] udp.run_accepts_once [OF window_rel_init] by blast
qed

theorem udp_replay_window_64_only_witness:
  "(64::nat) < 128 \<and> udp_replay_accept 128 (65, 1) 1 = Fault"
  using udp_replay_window_64_only [of "[]" "(0, 0)" 0 128] by simp

end
