(* ===== verification/Endpoint.thy ===== *)
theory Endpoint
  imports Wire
begin

text \<open>
  Network endpoints and UDP datagram frames: the endpoint conversions and codecs of
  \<open>src/src/net/net.c\<close> and the second copy of the datagram codec in \<open>src/src/server/server.c\<close>.
  The endpoint codec is a second instance of \<open>wire_field\<close>, from which the datagram round trips
  between the two copies follow.
\<close>

section \<open>Endpoints and socket addresses\<close>

record ct_endpoint =
  ep_family :: u8
  ep_addr :: bytes
  ep_port :: u16

text \<open>
  What the code reads of a \<open>struct sockaddr\<close>: the family, the address bytes, the port (as the
  number that \<open>ntohs\<close> yields) and the IPv6 scope. The operating system fills these in.
\<close>

datatype sockaddr =
    Sockaddr_in bytes u16
  | Sockaddr_in6 bytes u16 u32
  | Sockaddr_other

text \<open>The size of the address arrays is fixed by their types.\<close>

fun sockaddr_ok :: "sockaddr \<Rightarrow> bool" where
  "sockaddr_ok (Sockaddr_in a p) = (length a = 4)"
| "sockaddr_ok (Sockaddr_in6 a p s) = (length a = 16)"
| "sockaddr_ok Sockaddr_other = True"

definition v4prefix :: bytes where
  "v4prefix = [0, 0, 0, 0, 0, 0, 0, 0, 0, 0, 0xff, 0xff]"

definition pad16 :: "bytes \<Rightarrow> bytes" where
  "pad16 a = a @ replicate (16 - length a) 0"

fun endpoint_from_sockaddr :: "autoconf \<Rightarrow> sockaddr \<Rightarrow> ct_endpoint res" where
  "endpoint_from_sockaddr k (Sockaddr_in a p) =
     Ok \<lparr>ep_family = 4, ep_addr = pad16 (take 4 a), ep_port = p\<rparr>"
| "endpoint_from_sockaddr k (Sockaddr_in6 a p s) =
     (if \<not> k_ipv6 k then Err
      else if take 12 a = v4prefix
      then Ok \<lparr>ep_family = 4, ep_addr = pad16 (take 4 (drop 12 a)), ep_port = p\<rparr>
      else Ok \<lparr>ep_family = 6, ep_addr = pad16 (take 16 a), ep_port = p\<rparr>)"
| "endpoint_from_sockaddr k Sockaddr_other = Err"

text \<open>\<open>peer\<close> and \<open>loc\<close> are the answers of \<open>getpeername\<close> and \<open>getsockname\<close>.\<close>

definition ct_net_connection_endpoints ::
  "autoconf \<Rightarrow> sockaddr option \<Rightarrow> sockaddr option \<Rightarrow> (ct_endpoint \<times> ct_endpoint) res" where
  "ct_net_connection_endpoints k peer loc =
     (case peer of None \<Rightarrow> Err | Some pa \<Rightarrow>
      (case loc of None \<Rightarrow> Err | Some la \<Rightarrow>
        andthen (endpoint_from_sockaddr k pa) (\<lambda>source.
        andthen (endpoint_from_sockaddr k la) (\<lambda>destination. Ok (source, destination)))))"

definition sockaddr_from_endpoint :: "autoconf \<Rightarrow> ct_endpoint \<Rightarrow> sockaddr res" where
  "sockaddr_from_endpoint k e =
     (if ep_family e = 4
      then andthen (rd (ep_addr e) 0 4) (\<lambda>a. Ok (Sockaddr_in a (ep_port e)))
      else if k_ipv6 k \<and> ep_family e = 6
      then andthen (rd (ep_addr e) 0 16) (\<lambda>a. Ok (Sockaddr_in6 a (ep_port e) 0))
      else Err)"

text \<open>\<open>answers\<close> is what \<open>getaddrinfo\<close> returns: \<open>None\<close> for a failure, else its list.\<close>

definition ct_udp_endpoint_from_host ::
  "autoconf \<Rightarrow> sockaddr list option \<Rightarrow> ct_endpoint res" where
  "ct_udp_endpoint_from_host k answers =
     (case answers of None \<Rightarrow> Err | Some [] \<Rightarrow> Err | Some (a # _) \<Rightarrow> endpoint_from_sockaddr k a)"

text \<open>Results of a non-blocking datagram call: \<open>1\<close> (would block) is a success with no value.\<close>

datatype udp_io = Datagram ct_endpoint bytes | Would_block

text \<open>
  One \<open>recvfrom\<close>: \<open>None\<close> is an error with the given \<open>would_block\<close> flag; otherwise the OS
  delivers the sender and the datagram, of which at most \<open>capacity\<close> bytes are kept.
\<close>

definition ct_udp_recv ::
  "autoconf \<Rightarrow> nat \<Rightarrow> bool \<Rightarrow> (sockaddr \<times> bytes) option \<Rightarrow> udp_io res" where
  "ct_udp_recv k capacity would_block answer =
     (case answer of
        None \<Rightarrow> if would_block then Ok Would_block else Err
      | Some (sa, datagram) \<Rightarrow>
          andthen (endpoint_from_sockaddr k sa) (\<lambda>source. Ok (Datagram source (take capacity datagram))))"

text \<open>One \<open>sendto\<close>; \<open>answer sa\<close> is the number of bytes the OS accepts for that address.\<close>

definition ct_udp_send ::
  "autoconf \<Rightarrow> ct_endpoint \<Rightarrow> bytes \<Rightarrow> bool \<Rightarrow> (sockaddr \<Rightarrow> nat option) \<Rightarrow> bool res" where
  "ct_udp_send k destination buffer would_block answer =
     andthen (sockaddr_from_endpoint k destination) (\<lambda>sa.
       case answer sa of
         None \<Rightarrow> if would_block then Ok False else Err
       | Some n \<Rightarrow> if n = length buffer then Ok True else Err)"

definition endpoint_equal :: "ct_endpoint \<Rightarrow> ct_endpoint \<Rightarrow> bool res" where
  "endpoint_equal a b =
     (let n = (if ep_family a = 4 then 4 else if ep_family a = 6 then 16 else 0) in
      if n \<noteq> 0 \<and> ep_family a = ep_family b \<and> ep_port a = ep_port b
      then andthen (rd (ep_addr a) 0 n) (\<lambda>x. andthen (rd (ep_addr b) 0 n) (\<lambda>y. Ok (x = y)))
      else Ok False)"

fun ct_net_bound_endpoints_overlap ::
  "autoconf \<Rightarrow> sockaddr option \<Rightarrow> sockaddr option \<Rightarrow> bool" where
  "ct_net_bound_endpoints_overlap k (Some (Sockaddr_in a p)) (Some (Sockaddr_in b q)) =
     (if p \<noteq> q then False else a = replicate 4 0 \<or> b = replicate 4 0 \<or> a = b)"
| "ct_net_bound_endpoints_overlap k (Some (Sockaddr_in6 a p s)) (Some (Sockaddr_in6 b q t)) =
     (if \<not> k_ipv6 k then False
      else if p \<noteq> q then False
      else a = replicate 16 0 \<or> b = replicate 16 0 \<or> (s = t \<and> a = b))"
| "ct_net_bound_endpoints_overlap k _ _ = False"

lemma ex_sockaddr: "(\<exists>d. P d) \<longleftrightarrow> (\<exists>a p. P (Sockaddr_in a p)) \<or>
    (\<exists>a p s. P (Sockaddr_in6 a p s)) \<or> P Sockaddr_other"
  by (metis sockaddr.exhaust)

section \<open>The endpoint codec\<close>

definition address_length :: "u8 \<Rightarrow> nat" where
  "address_length family = (if family = 4 then 4 else if family = 6 then 16 else 0)"

definition ct_udp_endpoint_encode :: "nat \<Rightarrow> bytes \<Rightarrow> ct_endpoint \<Rightarrow> bytes res" where
  "ct_udp_endpoint_encode cap out e =
     (let alen = address_length (ep_family e) in
      if alen = 0 \<or> length out > cap \<or> cap - length out < 1 + alen + 2 then Err
      else andthen (rd (ep_addr e) 0 alen) (\<lambda>a.
        emits cap out [[ep_family e], a, ct_put_u16 (ep_port e)]))"

definition ct_udp_endpoint_decode :: "bytes \<Rightarrow> nat \<Rightarrow> nat \<Rightarrow> (ct_endpoint \<times> nat) res" where
  "ct_udp_endpoint_decode b n off =
     (if off \<ge> n then Err
      else andthen (rd_u8 b off) (\<lambda>family.
        let alen = address_length family in
        if alen = 0 \<or> n - (off + 1) < alen + 2 then Err
        else andthen (rd b (off + 1) alen) (\<lambda>a. andthen (rd_u16 b (off + 1 + alen)) (\<lambda>port.
          Ok (\<lparr>ep_family = family, ep_addr = pad16 a, ep_port = port\<rparr>, off + 1 + alen + 2)))))"

text \<open>The endpoints the code builds: the unused part of the address array is zero.\<close>

definition endpoint_ok :: "ct_endpoint \<Rightarrow> bool" where
  "endpoint_ok e \<longleftrightarrow> address_length (ep_family e) \<noteq> 0 \<and> length (ep_addr e) = 16 \<and>
     ep_addr e = pad16 (take (address_length (ep_family e)) (ep_addr e))"

definition endpoint_bytes :: "ct_endpoint \<Rightarrow> bytes" where
  "endpoint_bytes e = [ep_family e] @ take (address_length (ep_family e)) (ep_addr e) @
     ct_put_u16 (ep_port e)"

lemma address_length_le: "address_length f \<le> 16"
  by (simp add: address_length_def)

lemma length_pad16 [simp]: "length a \<le> 16 \<Longrightarrow> length (pad16 a) = 16"
  by (simp add: pad16_def)

lemma pad16_full [simp]: "length a = 16 \<Longrightarrow> pad16 a = a"
  by (simp add: pad16_def)

lemma take_pad16: "n \<le> length a \<Longrightarrow> take n (pad16 a) = take n a"
  by (simp add: pad16_def)

lemma length_endpoint_bytes:
  "endpoint_ok e \<Longrightarrow> length (endpoint_bytes e) = 3 + address_length (ep_family e)"
  using address_length_le [of "ep_family e"] by (simp add: endpoint_bytes_def endpoint_ok_def)

lemma endpoint_bytes_le: "endpoint_ok e \<Longrightarrow> length (endpoint_bytes e) \<le> 19"
  using address_length_le [of "ep_family e"] by (simp add: length_endpoint_bytes)

lemma endpoint_encode_eq:
  "endpoint_ok e \<Longrightarrow> ct_udp_endpoint_encode cap out e =
     (if length out + length (endpoint_bytes e) \<le> cap then Ok (out @ endpoint_bytes e) else Err)"
  using address_length_le [of "ep_family e"]
  by (auto simp: ct_udp_endpoint_encode_def endpoint_bytes_def endpoint_ok_def Let_def rd_def
      emits_eq)

lemma endpoint_decode_ok:
  "ct_udp_endpoint_decode b n off = Ok (e, off') \<Longrightarrow> endpoint_ok e"
  by (auto simp: ct_udp_endpoint_decode_def endpoint_ok_def res_simps Let_def take_pad16
      address_length_def split: if_splits)

interpretation ep_field: wire_field endpoint_bytes ct_udp_endpoint_decode endpoint_ok
proof
  fix e n and pre post :: bytes
  assume e: "endpoint_ok e" and n: "length pre + length (endpoint_bytes e) \<le> n"
  let ?l = "address_length (ep_family e)" and ?a = "take (address_length (ep_family e)) (ep_addr e)"
  have len: "length ?a = ?l" "?l \<noteq> 0" using e by (auto simp: endpoint_ok_def address_length_def)
  have "rd_u8 (pre @ endpoint_bytes e @ post) (length pre) = Ok (ep_family e)"
    by (simp add: endpoint_bytes_def rd_u8_def nth_append)
  moreover have "rd (pre @ endpoint_bytes e @ post) (length pre + 1) ?l = Ok ?a"
    using rd_append [of _ "pre @ [ep_family e]" ?l ?a "ct_put_u16 (ep_port e) @ post"] len
    by (simp add: endpoint_bytes_def)
  moreover have "rd_u16 (pre @ endpoint_bytes e @ post) (length pre + 1 + ?l) = Ok (ep_port e)"
    using rd_ints_append(1) [of _ "pre @ [ep_family e] @ ?a" "ep_port e" post] len
    by (simp add: endpoint_bytes_def)
  ultimately show "ct_udp_endpoint_decode (pre @ endpoint_bytes e @ post) n (length pre) =
      Ok (e, length pre + length (endpoint_bytes e))"
    using len n length_endpoint_bytes [OF e] e
    by (simp add: ct_udp_endpoint_decode_def Let_def endpoint_ok_def)
next
  fix n off and b :: bytes
  assume "n \<le> length b"
  then show "ct_udp_endpoint_decode b n off \<noteq> Fault"
    by (auto simp: ct_udp_endpoint_decode_def Let_def res_simps split: if_splits)
next
  fix b n off e off'
  assume "ct_udp_endpoint_decode b n off = Ok (e, off')"
  then show "off < off' \<and> off' \<le> n"
    by (auto simp: ct_udp_endpoint_decode_def Let_def res_simps split: if_splits)
qed

section \<open>UDP datagram frames\<close>

record ct_udp_datagram =
  dg_direction :: u8
  dg_session_id :: u64
  dg_sequence :: u64
  dg_service :: bytes
  dg_peer :: ct_endpoint
  dg_payload :: bytes

definition ct_udp_datagram_pack :: "autoconf \<Rightarrow> nat \<Rightarrow> bytes \<Rightarrow> ct_udp_datagram \<Rightarrow> bytes res" where
  "ct_udp_datagram_pack k cap out d =
     (if length (dg_payload d) > 65535 \<or> cap < 1 + 8 + 8 then Err
      else
        andthen (emits cap out [[dg_direction d], ct_put_u64 (dg_session_id d),
          ct_put_u64 (dg_sequence d)]) (\<lambda>o1.
        andthen (ct_pack_string cap o1 (dg_service d) (k_max_service_id k)) (\<lambda>o2.
        andthen (ct_udp_endpoint_encode cap o2 (dg_peer d)) (\<lambda>o3.
        ensure (\<not> cap - length o3 < 2 + length (dg_payload d)) (
          emits cap o3 [ct_put_u16 (of_nat (length (dg_payload d))), dg_payload d])))))"

definition ct_udp_datagram_unpack :: "autoconf \<Rightarrow> bytes \<Rightarrow> nat \<Rightarrow> ct_udp_datagram res" where
  "ct_udp_datagram_unpack k b n =
     (if n < 17 then Err
      else
        andthen (rd_u8 b 0) (\<lambda>direction. andthen (rd_u64 b 1) (\<lambda>session.
        andthen (rd_u64 b 9) (\<lambda>sequence.
        andthen (ct_unpack_string (k_max_service_id k + 1) b n 17) (\<lambda>(service, o1).
        andthen (ct_udp_endpoint_decode b n o1) (\<lambda>(peer, o2).
        ensure (\<not> n - o2 < 2) (
        andthen (rd_u16 b o2) (\<lambda>plen.
        ensure (n - (o2 + 2) = unat plen) (
        andthen (rd b (o2 + 2) (unat plen)) (\<lambda>payload.
          Ok \<lparr>dg_direction = direction, dg_session_id = session, dg_sequence = sequence,
              dg_service = service, dg_peer = peer, dg_payload = payload\<rparr>))))))))))"

text \<open>The server's own copies, with separate arguments for the fields.\<close>

definition udp_pack :: "autoconf \<Rightarrow> nat \<Rightarrow> bytes \<Rightarrow> u8 \<Rightarrow> u64 \<Rightarrow> u64 \<Rightarrow> bytes \<Rightarrow> ct_endpoint \<Rightarrow>
    bytes \<Rightarrow> bytes res" where
  "udp_pack k cap out direction sid seq service peer payload =
     (if length payload > 65535 then Err
      else if cap < 1 + 8 + 8 then Err
      else
        andthen (emits cap out [[direction], ct_put_u64 sid, ct_put_u64 seq]) (\<lambda>o1.
        andthen (ct_pack_string cap o1 service (k_max_service_id k)) (\<lambda>o2.
        andthen (ct_udp_endpoint_encode cap o2 peer) (\<lambda>o3.
        ensure (\<not> cap - length o3 < 2 + length payload) (
          emits cap o3 [ct_put_u16 (of_nat (length payload)), payload])))))"

definition udp_unpack :: "bytes \<Rightarrow> nat \<Rightarrow> nat \<Rightarrow>
    (u8 \<times> u64 \<times> u64 \<times> bytes \<times> ct_endpoint \<times> bytes) res" where
  "udp_unpack b n service_cap =
     (if n < 17 then Err
      else
        andthen (rd_u8 b 0) (\<lambda>direction. andthen (rd_u64 b 1) (\<lambda>sid.
        andthen (rd_u64 b 9) (\<lambda>seq.
        andthen (ct_unpack_string service_cap b n 17) (\<lambda>(service, o1).
        andthen (ct_udp_endpoint_decode b n o1) (\<lambda>(peer, o2).
        ensure (\<not> n - o2 < 2) (
        andthen (rd_u16 b o2) (\<lambda>plen.
        ensure (n - (o2 + 2) = unat plen) (
        andthen (rd b (o2 + 2) (unat plen)) (\<lambda>payload.
          Ok (direction, sid, seq, service, peer, payload)))))))))))"

definition datagram_bytes :: "ct_udp_datagram \<Rightarrow> bytes" where
  "datagram_bytes d = [dg_direction d] @ ct_put_u64 (dg_session_id d) @ ct_put_u64 (dg_sequence d) @
     string_bytes (dg_service d) @ endpoint_bytes (dg_peer d) @
     ct_put_u16 (of_nat (length (dg_payload d))) @ dg_payload d"

definition datagram_ok :: "autoconf \<Rightarrow> ct_udp_datagram \<Rightarrow> bool" where
  "datagram_ok k d \<longleftrightarrow> length (dg_service d) \<le> k_max_service_id k \<and> length (dg_service d) \<le> 65535 \<and>
     endpoint_ok (dg_peer d) \<and> length (dg_payload d) \<le> 65535"

text \<open>The two copies of the codec are the same functions.\<close>

lemma udp_pack_eq:
  "udp_pack k cap out (dg_direction d) (dg_session_id d) (dg_sequence d) (dg_service d) (dg_peer d)
     (dg_payload d) = ct_udp_datagram_pack k cap out d"
  by (simp add: udp_pack_def ct_udp_datagram_pack_def)

lemma udp_unpack_eq:
  "udp_unpack b n (k_max_service_id k + 1) =
     andthen (ct_udp_datagram_unpack k b n) (\<lambda>d. Ok (dg_direction d, dg_session_id d, dg_sequence d,
       dg_service d, dg_peer d, dg_payload d))"
  by (simp add: udp_unpack_def ct_udp_datagram_unpack_def andthen_assoc andthen_ensure
      case_prod_unfold)

lemma datagram_pack_eq:
  assumes "datagram_ok k d"
  shows "ct_udp_datagram_pack k cap [] d =
    (if length (datagram_bytes d) \<le> cap then Ok (datagram_bytes d) else Err)"
  using assms
  by (auto simp: ct_udp_datagram_pack_def datagram_ok_def emits_eq pack_string_eq endpoint_encode_eq
      datagram_bytes_def ensure_def)

lemma datagram_unpack_reads:
  assumes "rd_u8 b 0 = Ok (dg_direction d)" "rd_u64 b 1 = Ok (dg_session_id d)"
    "rd_u64 b 9 = Ok (dg_sequence d)"
    "ct_unpack_string (k_max_service_id k + 1) b n 17 = Ok (dg_service d, off)"
    "ct_udp_endpoint_decode b n off = Ok (dg_peer d, off')"
    "rd_u16 b off' = Ok (of_nat (length (dg_payload d)))"
    "rd b (off' + 2) (length (dg_payload d)) = Ok (dg_payload d)"
    "n = off' + 2 + length (dg_payload d)" "length (dg_payload d) \<le> 65535" "17 \<le> n"
  shows "ct_udp_datagram_unpack k b n = Ok d"
  using assms
  by (simp add: ct_udp_datagram_unpack_def unat_of_nat take_bit_nat_eq_self)

lemma datagram_unpack_bytes:
  assumes ok: "datagram_ok k d"
  shows "ct_udp_datagram_unpack k (datagram_bytes d @ stale) (length (datagram_bytes d)) = Ok d"
proof -
  let ?h = "[dg_direction d] @ ct_put_u64 (dg_session_id d) @ ct_put_u64 (dg_sequence d)"
  let ?s = "string_bytes (dg_service d)" and ?e = "endpoint_bytes (dg_peer d)"
  let ?l = "ct_put_u16 (of_nat (length (dg_payload d)))" and ?p = "dg_payload d"
  let ?b = "?h @ ?s @ ?e @ ?l @ ?p @ stale" and ?n = "length (datagram_bytes d)"
  have b: "datagram_bytes d @ stale = ?b" by (simp add: datagram_bytes_def)
  have n: "?n = 17 + length ?s + length ?e + 2 + length ?p" by (simp add: datagram_bytes_def)
  show ?thesis unfolding b
  proof (rule datagram_unpack_reads [where off = "17 + length ?s" and off' = "17 + length ?s + length ?e"])
    show "rd_u8 ?b 0 = Ok (dg_direction d)" by (simp add: rd_u8_def)
    show "rd_u64 ?b 1 = Ok (dg_session_id d)"
      using rd_ints_append(3) [of 1 "[dg_direction d]"] by simp
    show "rd_u64 ?b 9 = Ok (dg_sequence d)"
      using rd_ints_append(3) [of 9 "[dg_direction d] @ ct_put_u64 (dg_session_id d)"] by simp
    show "ct_unpack_string (k_max_service_id k + 1) ?b ?n 17 = Ok (dg_service d, 17 + length ?s)"
      by (rule str_field.dec_enc_at) (use ok n in \<open>auto simp: datagram_ok_def string_ok_def\<close>)
    show "ct_udp_endpoint_decode ?b ?n (17 + length ?s) = Ok (dg_peer d, 17 + length ?s + length ?e)"
      using ep_field.dec_enc_at [of "dg_peer d" "17 + length ?s" "?h @ ?s" "17 + length ?s + length ?e" ?n
          "?l @ ?p @ stale"] ok n
      by (simp add: datagram_ok_def)
    show "rd_u16 ?b (17 + length ?s + length ?e) = Ok (of_nat (length ?p))"
      using rd_ints_append(1) [OF refl, of "?h @ ?s @ ?e" "of_nat (length ?p)" "?p @ stale"] by (simp add: ac_simps)
    show "rd ?b (17 + length ?s + length ?e + 2) (length ?p) = Ok ?p"
      using rd_append [OF refl refl, of "?h @ ?s @ ?e @ ?l" ?p stale] by (simp add: ac_simps)
  qed (use ok n in \<open>simp_all add: datagram_ok_def\<close>)
qed

lemma datagram_unpack_no_fault: "n \<le> length b \<Longrightarrow> ct_udp_datagram_unpack k b n \<noteq> Fault"
  using str_field.dec_safe ep_field.dec_safe str_field.dec_advances ep_field.dec_advances
  by (fastforce simp: ct_udp_datagram_unpack_def res_simps split: prod.splits if_splits)

section \<open>Properties\<close>

text \<open>
  UDP datagrams cross the tunnel unchanged in both directions: whatever the server packs with
  its own \<open>udp_pack\<close> the client unpacks with \<open>ct_udp_datagram_unpack\<close>, and whatever the client
  packs the server unpacks, field by field, also with stale bytes behind the frame.
\<close>

theorem udp_datagram_interop:
  assumes "datagram_ok k d"
    and "udp_pack k cap [] (dg_direction d) (dg_session_id d) (dg_sequence d) (dg_service d)
      (dg_peer d) (dg_payload d) = Ok out"
  shows "ct_udp_datagram_unpack k (out @ stale) (length out) = Ok d \<and>
    ct_udp_datagram_pack k cap [] d = Ok out \<and>
    udp_unpack (out @ stale) (length out) (k_max_service_id k + 1) =
      Ok (dg_direction d, dg_session_id d, dg_sequence d, dg_service d, dg_peer d, dg_payload d)"
proof -
  have out: "ct_udp_datagram_pack k cap [] d = Ok out" using assms(2) by (simp add: udp_pack_eq)
  then have "out = datagram_bytes d"
    using datagram_pack_eq [OF assms(1)] by (simp split: if_splits)
  then show ?thesis
    using out datagram_unpack_bytes [OF assms(1), of stale] by (simp only: udp_unpack_eq) simp
qed

definition dns_query :: ct_udp_datagram where
  "dns_query = \<lparr>dg_direction = 0, dg_session_id = 5, dg_sequence = 1, dg_service = lit ''dns'',
     dg_peer = \<lparr>ep_family = 4, ep_addr = pad16 [192, 0, 2, 7], ep_port = 5353\<rparr>,
     dg_payload = [1, 2, 3, 4]\<rparr>"

theorem udp_datagram_interop_witness:
  "ct_udp_datagram_unpack default_defconfig (datagram_bytes dns_query @ [9])
     (length (datagram_bytes dns_query)) = Ok dns_query"
proof -
  have ok: "datagram_ok default_defconfig dns_query"
    by (simp add: datagram_ok_def dns_query_def default_defconfig_def endpoint_ok_def
        address_length_def take_pad16)
  have "length (datagram_bytes dns_query) \<le> 4096"
    by (simp add: datagram_bytes_def dns_query_def endpoint_bytes_def address_length_def take_pad16)
  then have "udp_pack default_defconfig 4096 [] (dg_direction dns_query) (dg_session_id dns_query)
      (dg_sequence dns_query) (dg_service dns_query) (dg_peer dns_query) (dg_payload dns_query) =
      Ok (datagram_bytes dns_query)"
    using datagram_pack_eq [OF ok, of 4096] by (simp add: udp_pack_eq)
  from udp_datagram_interop [OF ok this] show ?thesis by blast
qed

text \<open>The sockets a bound address receives for: its own address or, for a wildcard, any.\<close>

fun bound_receives :: "sockaddr \<Rightarrow> sockaddr \<Rightarrow> bool" where
  "bound_receives (Sockaddr_in a p) (Sockaddr_in d q) = (p = q \<and> (a = replicate 4 0 \<or> a = d))"
| "bound_receives (Sockaddr_in6 a p s) (Sockaddr_in6 d q t) =
     (p = q \<and> (a = replicate 16 0 \<or> (s = t \<and> a = d)))"
| "bound_receives _ _ = False"

text \<open>
  The overlap test for listening sockets is exact: two bound sockets are reported as
  overlapping if and only if some destination address and port belongs to both of them. (Both
  sockets were bound by a build with IPv6, or are IPv4 sockets.)
\<close>

theorem bound_endpoints_overlap_exact:
  assumes "k_ipv6 k"
  shows "ct_net_bound_endpoints_overlap k (Some a) (Some b) \<longleftrightarrow>
    (\<exists>d. bound_receives a d \<and> bound_receives b d)"
proof (cases "(a, b)" rule: bound_receives.cases)
  case (1 x p y q)
  then show ?thesis by (auto intro: exI [of _ a] exI [of _ b] simp: ex_sockaddr)
next
  case (2 x p s y q t)
  then show ?thesis using assms by (auto simp: ex_sockaddr)
qed (auto elim: bound_receives.elims)

theorem bound_endpoints_overlap_exact_witness:
  "ct_net_bound_endpoints_overlap default_defconfig (Some (Sockaddr_in [0, 0, 0, 0] 7000))
     (Some (Sockaddr_in [127, 0, 0, 1] 7000)) \<longleftrightarrow>
   (\<exists>d. bound_receives (Sockaddr_in [0, 0, 0, 0] 7000) d \<and>
        bound_receives (Sockaddr_in [127, 0, 0, 1] 7000) d)"
  by (rule bound_endpoints_overlap_exact) (simp add: default_defconfig_def)

end
