(* ===== verification/Proxy_Protocol.thy ===== *)
theory Proxy_Protocol
  imports Endpoint
begin

text \<open>
  The PROXY protocol headers of \<open>src/src/net/proxy_protocol.c\<close>, which tell the local service the
  original addresses of a tunnelled connection. The theorems relate the version 2 header to a
  decoder written from the published format and bound the version 1 header.
\<close>

section \<open>Stream metadata\<close>

definition CT_PROXY_PROTOCOL_OFF :: u8 where "CT_PROXY_PROTOCOL_OFF = 0"
definition CT_PROXY_PROTOCOL_V1 :: u8 where "CT_PROXY_PROTOCOL_V1 = 1"
definition CT_PROXY_PROTOCOL_V2 :: u8 where "CT_PROXY_PROTOCOL_V2 = 2"
definition CT_PROXY_PROTOCOL_V1_MAX_HEADER :: nat where "CT_PROXY_PROTOCOL_V1_MAX_HEADER = 108"
definition CT_PROXY_PROTOCOL_MAX_HEADER :: nat where
  "CT_PROXY_PROTOCOL_MAX_HEADER = CT_PROXY_PROTOCOL_V1_MAX_HEADER"

lemmas proxy_defs = CT_PROXY_PROTOCOL_OFF_def CT_PROXY_PROTOCOL_V1_def CT_PROXY_PROTOCOL_V2_def
  CT_PROXY_PROTOCOL_V1_MAX_HEADER_def CT_PROXY_PROTOCOL_MAX_HEADER_def

text \<open>The mode is an enumeration that is read from a byte of the wire, so any byte can be in it.\<close>

record ct_stream_metadata =
  md_proxy_protocol :: u8
  md_source :: ct_endpoint
  md_destination :: ct_endpoint

section \<open>Building the headers\<close>

definition is_v4_mapped :: "ct_endpoint \<Rightarrow> bool" where
  "is_v4_mapped e \<longleftrightarrow> ep_family e = 6 \<and> take 12 (ep_addr e) = v4prefix"

text \<open>\<open>memmove(addr, addr + 12, 4)\<close> and the new family.\<close>

definition unmap_v4 :: "ct_endpoint \<Rightarrow> ct_endpoint" where
  "unmap_v4 e = e\<lparr>ep_family := 4, ep_addr := take 4 (drop 12 (ep_addr e)) @ drop 4 (ep_addr e)\<rparr>"

definition normalize_pair :: "ct_stream_metadata \<Rightarrow> (ct_endpoint \<times> ct_endpoint) res" where
  "normalize_pair m =
     (let (source, destination) =
        (if ep_family (md_source m) = 6 \<and> ep_family (md_destination m) = 6 \<and>
            is_v4_mapped (md_source m) \<and> is_v4_mapped (md_destination m)
         then (unmap_v4 (md_source m), unmap_v4 (md_destination m))
         else (md_source m, md_destination m))
      in if ep_family source \<noteq> ep_family destination \<or> (ep_family source \<noteq> 4 \<and> ep_family source \<noteq> 6)
         then Err else Ok (source, destination))"

text \<open>The text \<open>%u\<close> prints.\<close>

fun print_u :: "nat \<Rightarrow> string" where
  "print_u n = (if n < 10 then [char_of (48 + n)] else print_u (n div 10) @ [char_of (48 + n mod 10)])"

declare print_u.simps [simp del]

text \<open>
  \<open>ntop family addr\<close> is the text \<open>inet_ntop\<close> writes into its buffer of
  \<open>INET6_ADDRSTRLEN = 46\<close> bytes, or \<open>None\<close> when it fails.
\<close>

definition ct_proxy_protocol_build_v1 ::
  "autoconf \<Rightarrow> (u8 \<Rightarrow> bytes \<Rightarrow> bytes option) \<Rightarrow> nat \<Rightarrow> ct_stream_metadata \<Rightarrow> bytes res" where
  "ct_proxy_protocol_build_v1 k ntop cap m =
     ensure (k_proxy_v1 k) (
     andthen (normalize_pair m) (\<lambda>(source, destination).
     case ntop (ep_family source) (take (address_length (ep_family source)) (ep_addr source)) of
       None \<Rightarrow> Err
     | Some source_address \<Rightarrow>
       (case ntop (ep_family source) (take (address_length (ep_family source)) (ep_addr destination)) of
          None \<Rightarrow> Err
        | Some destination_address \<Rightarrow>
          let text = lit ''PROXY TCP'' @ lit (print_u (unat (ep_family source))) @ lit '' '' @
                source_address @ lit '' '' @ destination_address @ lit '' '' @
                lit (print_u (unat (ep_port source))) @ lit '' '' @
                lit (print_u (unat (ep_port destination))) @ [13, 10];
              n = length text
          in if n \<ge> cap \<or> n > CT_PROXY_PROTOCOL_V1_MAX_HEADER then Err else Ok text)))"

definition v2_signature :: bytes where
  "v2_signature = [0x0d, 0x0a, 0x0d, 0x0a, 0x00, 0x0d, 0x0a, 0x51, 0x55, 0x49, 0x54, 0x0a]"

definition ct_proxy_protocol_build_v2 ::
  "autoconf \<Rightarrow> nat \<Rightarrow> ct_stream_metadata \<Rightarrow> bytes res" where
  "ct_proxy_protocol_build_v2 k cap m =
     ensure (k_proxy_v2 k) (
     andthen (normalize_pair m) (\<lambda>(source, destination).
     let alen = (if ep_family source = 4 then 4 else 16);
         payload_length = alen * 2 + 4;
         total = 12 + 4 + payload_length
     in if cap < total then Err
        else andthen (rd (ep_addr source) 0 alen) (\<lambda>sa. andthen (rd (ep_addr destination) 0 alen) (\<lambda>da.
          emits cap [] [v2_signature, [0x21], [if ep_family source = 4 then 0x11 else 0x21],
            ct_put_u16 (of_nat payload_length), sa, da, ct_put_u16 (ep_port source),
            ct_put_u16 (ep_port destination)]))))"

definition ct_proxy_protocol_build ::
  "autoconf \<Rightarrow> (u8 \<Rightarrow> bytes \<Rightarrow> bytes option) \<Rightarrow> nat \<Rightarrow> ct_stream_metadata option \<Rightarrow> bytes res" where
  "ct_proxy_protocol_build k ntop cap metadata =
     (case metadata of
        None \<Rightarrow> Ok []
      | Some m \<Rightarrow>
          if md_proxy_protocol m = CT_PROXY_PROTOCOL_OFF then Ok []
          else if md_proxy_protocol m = CT_PROXY_PROTOCOL_V1
          then ct_proxy_protocol_build_v1 k ntop cap m
          else if md_proxy_protocol m = CT_PROXY_PROTOCOL_V2
          then ct_proxy_protocol_build_v2 k cap m
          else Err)"

section \<open>A decoder for version 2 headers\<close>

text \<open>
  Written from the published format, not from the code: signature, version and command, address
  family and transport, payload length, addresses and ports. It returns the family, the two
  addresses, the two ports and the bytes behind the header.
\<close>

definition proxy_v2_decode :: "bytes \<Rightarrow> (u8 \<times> bytes \<times> bytes \<times> u16 \<times> u16 \<times> bytes) option" where
  "proxy_v2_decode b =
     (if take 13 b \<noteq> v2_signature @ [0x21] then None
      else
        let fam = b ! 13; plen = unat (ct_get_u16 (take 2 (drop 14 b)));
            alen = (if fam = 0x11 then 4 else 16); p = drop 16 b
        in if length p < plen \<or> plen \<noteq> 2 * alen + 4 \<or> fam \<notin> {0x11, 0x21} then None
           else Some (if fam = 0x11 then 4 else 6, take alen p, take alen (drop alen p),
                  ct_get_u16 (take 2 (drop (2 * alen) p)),
                  ct_get_u16 (take 2 (drop (2 * alen + 2) p)), drop plen p))"

definition endpoint_sized :: "ct_endpoint \<Rightarrow> bool" where
  "endpoint_sized e \<longleftrightarrow> length (ep_addr e) = 16"

definition metadata_sized :: "ct_stream_metadata \<Rightarrow> bool" where
  "metadata_sized m \<longleftrightarrow> endpoint_sized (md_source m) \<and> endpoint_sized (md_destination m)"

lemma normalize_pair_ok:
  assumes "metadata_sized m" "normalize_pair m = Ok (s, d)"
  shows "endpoint_sized s \<and> endpoint_sized d \<and> ep_family s = ep_family d \<and> ep_family s \<in> {4, 6}"
  using assms
  by (auto simp: normalize_pair_def metadata_sized_def endpoint_sized_def unmap_v4_def Let_def
      split: if_splits)

lemma normalize_pair_no_fault [simp]: "normalize_pair m \<noteq> Fault"
  by (auto simp: normalize_pair_def Let_def split: if_splits)

lemma length_v2_signature [simp]: "length v2_signature = 12"
  by (simp add: v2_signature_def)

lemma build_v2_eq:
  assumes "metadata_sized m" "normalize_pair m = Ok (s, d)" "k_proxy_v2 k"
    and "alen = address_length (ep_family s)" "16 + 2 * alen + 4 \<le> cap"
  shows "ct_proxy_protocol_build_v2 k cap m = Ok (v2_signature @ [0x21] @
    [if ep_family s = 4 then 0x11 else 0x21] @ ct_put_u16 (of_nat (2 * alen + 4)) @
    take alen (ep_addr s) @ take alen (ep_addr d) @ ct_put_u16 (ep_port s) @ ct_put_u16 (ep_port d))"
  using assms normalize_pair_ok [OF assms(1,2)]
  by (auto simp: ct_proxy_protocol_build_v2_def endpoint_sized_def address_length_def rd_def emits_eq)

lemma build_v2_err:
  assumes "metadata_sized m" "normalize_pair m = Ok (s, d)" "k_proxy_v2 k"
    and "cap < 20 + 2 * address_length (ep_family s)"
  shows "ct_proxy_protocol_build_v2 k cap m = Err"
  using assms normalize_pair_ok [OF assms(1,2)]
  by (auto simp: ct_proxy_protocol_build_v2_def address_length_def)

lemma length_print_u: "n < 10 ^ m \<Longrightarrow> 0 < m \<Longrightarrow> length (print_u n) \<le> m"
proof (induction n arbitrary: m rule: print_u.induct)
  case (1 n)
  show ?case
  proof (cases "n < 10")
    case True
    then show ?thesis using 1 by (simp add: print_u.simps [of n])
  next
    case False
    then obtain m' where m: "m = Suc m'" "0 < m'"
      using 1 by (cases m; cases "m - 1") auto
    then have "n div 10 < 10 ^ m'" using 1 by auto
    then show ?thesis using 1 False m by (simp add: print_u.simps [of n])
  qed
qed

lemma unat_u16_less: "unat (p :: u16) < 65536"
proof -
  have "unat p < 2 ^ LENGTH(16)" by (rule unsigned_less)
  then show ?thesis by simp
qed

lemma length_print_u16: "length (print_u (unat (p :: u16))) \<le> 5"
  using unat_u16_less [of p] by (intro length_print_u) simp_all

section \<open>Properties\<close>

text \<open>
  A version 2 header says what the connection is: whenever one is built, an independent decoder
  of the published format reads from it the normalised address family, both addresses and both
  ports, leaves the application data that follows untouched, and the header is 28 or 52 bytes long.
\<close>

theorem proxy_v2_header_correct:
  assumes "metadata_sized m" and "ct_proxy_protocol_build_v2 k cap m = Ok h"
  shows "\<exists>s d. normalize_pair m = Ok (s, d) \<and> length h \<le> cap \<and>
    length h = (if ep_family s = 4 then 28 else 52) \<and>
    proxy_v2_decode (h @ rest) =
      Some (ep_family s, take (address_length (ep_family s)) (ep_addr s),
        take (address_length (ep_family s)) (ep_addr d), ep_port s, ep_port d, rest)"
proof -
  from assms(2) obtain s d where n: "normalize_pair m = Ok (s, d)" and k: "k_proxy_v2 k"
    by (auto simp: ct_proxy_protocol_build_v2_def res_simps)
  note sz = normalize_pair_ok [OF assms(1) n]
  let ?l = "address_length (ep_family s)"
  have cap: "20 + 2 * ?l \<le> cap"
    using build_v2_err [OF assms(1) n k] assms(2) by (cases "20 + 2 * ?l \<le> cap") auto
  with build_v2_eq [OF assms(1) n k refl] assms(2)
  have h: "h = v2_signature @ [0x21] @ [if ep_family s = 4 then 0x11 else 0x21] @
      ct_put_u16 (of_nat (2 * ?l + 4)) @ take ?l (ep_addr s) @ take ?l (ep_addr d) @
      ct_put_u16 (ep_port s) @ ct_put_u16 (ep_port d)" by simp
  have "length h = (if ep_family s = 4 then 28 else 52)"
    using sz by (auto simp: h endpoint_sized_def address_length_def)
  moreover have "proxy_v2_decode (h @ rest) = Some (ep_family s, take ?l (ep_addr s),
      take ?l (ep_addr d), ep_port s, ep_port d, rest)"
    using sz unfolding h
    by (auto simp: proxy_v2_decode_def endpoint_sized_def address_length_def nth_append Let_def)
  ultimately show ?thesis using n cap sz by (auto simp: address_length_def)
qed

definition web_metadata :: ct_stream_metadata where
  "web_metadata = \<lparr>md_proxy_protocol = 2,
     md_source = \<lparr>ep_family = 6, ep_addr = v4prefix @ [203, 0, 113, 9], ep_port = 40000\<rparr>,
     md_destination = \<lparr>ep_family = 6, ep_addr = v4prefix @ [198, 51, 100, 1], ep_port = 443\<rparr>\<rparr>"

theorem proxy_v2_header_correct_witness:
  "\<exists>h. ct_proxy_protocol_build_v2 default_defconfig 108 web_metadata = Ok h \<and> length h = 28 \<and>
     proxy_v2_decode (h @ [1, 2]) = Some (4, [203, 0, 113, 9], [198, 51, 100, 1], 40000, 443, [1, 2])"
proof -
  have sz: "metadata_sized web_metadata"
    by (simp add: metadata_sized_def endpoint_sized_def web_metadata_def v4prefix_def)
  have n: "normalize_pair web_metadata = Ok (unmap_v4 (md_source web_metadata),
      unmap_v4 (md_destination web_metadata))"
    by (simp add: normalize_pair_def is_v4_mapped_def web_metadata_def v4prefix_def unmap_v4_def)
  have "k_proxy_v2 default_defconfig" by (simp add: default_defconfig_def)
  from build_v2_eq [OF sz n this refl] obtain h where
    h: "ct_proxy_protocol_build_v2 default_defconfig 108 web_metadata = Ok h"
    by (simp add: unmap_v4_def address_length_def)
  have web: "unmap_v4 (md_source web_metadata) = \<lparr>ep_family = 4, ep_addr = [203, 0, 113, 9] @
      drop 4 v4prefix @ [203, 0, 113, 9], ep_port = 40000\<rparr>"
    "unmap_v4 (md_destination web_metadata) = \<lparr>ep_family = 4, ep_addr = [198, 51, 100, 1] @
      drop 4 v4prefix @ [198, 51, 100, 1], ep_port = 443\<rparr>"
    by (simp_all add: unmap_v4_def web_metadata_def v4prefix_def)
  from proxy_v2_header_correct [OF sz h, of "[1, 2]"] n h show ?thesis
    by (auto simp: web address_length_def)
qed

text \<open>
  Version 1 headers always fit: when the platform prints addresses in at most 39 characters
  (the longest textual IPv6 address), the header of any connection with a uniform address family is
  built, ends with CR LF and has at most 104 bytes, below both the caller's 108-byte buffer and the
  107-byte limit of the published format.
\<close>

theorem proxy_v1_header_fits:
  assumes "k_proxy_v1 k" "normalize_pair m = Ok (s, d)"
    and ntop: "\<And>f a. \<exists>t. ntop f a = Some t \<and> length t \<le> 39"
    and "CT_PROXY_PROTOCOL_MAX_HEADER \<le> cap"
  shows "\<exists>h. ct_proxy_protocol_build_v1 k ntop cap m = Ok h \<and> length h \<le> 104 \<and>
    take 9 h = lit ''PROXY TCP'' \<and> drop (length h - 2) h = [13, 10]"
proof -
  let ?l = "address_length (ep_family s)"
  from ntop obtain sa da where
    sa: "ntop (ep_family s) (take ?l (ep_addr s)) = Some sa" "length sa \<le> 39" and
    da: "ntop (ep_family s) (take ?l (ep_addr d)) = Some da" "length da \<le> 39" by meson
  have "ep_family s = 4 \<or> ep_family s = 6"
    using assms(2) by (auto simp: normalize_pair_def Let_def split: if_splits)
  then have "length (print_u (unat (ep_family s))) = 1" by (auto simp: print_u.simps)
  then show ?thesis
    using assms sa da length_print_u16 [of "ep_port s"] length_print_u16 [of "ep_port d"]
    by (auto simp: ct_proxy_protocol_build_v1_def proxy_defs)
qed

definition print_quad :: "u8 \<Rightarrow> bytes \<Rightarrow> bytes option" where
  "print_quad f a = Some (take 39 (concat (map (\<lambda>b. lit (print_u (unat b)) @ [46]) a)))"

theorem proxy_v1_header_fits_witness:
  "\<exists>h. ct_proxy_protocol_build_v1 default_defconfig print_quad 108 web_metadata = Ok h \<and>
     length h \<le> 104"
proof -
  have n: "normalize_pair web_metadata = Ok (unmap_v4 (md_source web_metadata),
      unmap_v4 (md_destination web_metadata))"
    by (simp add: normalize_pair_def is_v4_mapped_def web_metadata_def v4prefix_def unmap_v4_def)
  have "k_proxy_v1 default_defconfig" by (simp add: default_defconfig_def)
  moreover have "\<exists>t. print_quad f a = Some t \<and> length t \<le> 39" for f a by (simp add: print_quad_def)
  moreover have "CT_PROXY_PROTOCOL_MAX_HEADER \<le> 108" by (simp add: proxy_defs)
  ultimately show ?thesis using proxy_v1_header_fits [OF _ n, of default_defconfig print_quad 108]
    by blast
qed

end
