(* ===== verification/Crypto.thy ===== *)
theory Crypto
  imports Wire
begin

text \<open>
  The cryptographic layer \<open>src/src/crypto/crypto_monocypher.c\<close>: key derivation, nonces, the
  authenticated-encryption wrappers and constant-time comparison. The primitives of the vendored
  Monocypher library (BLAKE2b, X25519, EdDSA, XChaCha20-Poly1305) are the fields of the parameter
  record \<open>monocypher\<close>; the laws that callers rely on are the predicates of the second section,
  and each theorem names the laws it needs. The comparison functions of the library are small and
  are modelled themselves.
\<close>

unbundle bit_operations_syntax

section \<open>The Monocypher primitives\<close>

record monocypher =
  blake2b :: "nat \<Rightarrow> bytes \<Rightarrow> bytes"
  blake2b_keyed :: "nat \<Rightarrow> bytes \<Rightarrow> bytes \<Rightarrow> bytes"
  eddsa_key_pair :: "bytes \<Rightarrow> bytes \<times> bytes"
  eddsa_sign :: "bytes \<Rightarrow> bytes \<Rightarrow> bytes"
  eddsa_check :: "bytes \<Rightarrow> bytes \<Rightarrow> bytes \<Rightarrow> bool"
  x25519_public_key :: "bytes \<Rightarrow> bytes"
  x25519 :: "bytes \<Rightarrow> bytes \<Rightarrow> bytes"
  aead_lock :: "bytes \<Rightarrow> bytes \<Rightarrow> bytes \<Rightarrow> bytes \<Rightarrow> bytes \<times> bytes"
  aead_unlock :: "bytes \<Rightarrow> bytes \<Rightarrow> bytes \<Rightarrow> bytes \<Rightarrow> bytes \<Rightarrow> bytes option"

text \<open>
  Documented behaviour: output sizes; \<open>crypto_aead_unlock\<close> opens what \<open>crypto_aead_lock\<close>
  produced and nothing but what it would produce for the opened text (it recomputes the tag);
  both ends of an X25519 exchange compute the same secret; a signature made with a key pair checks
  under its public half, which is the second half of the secret key.
\<close>

definition hash_sizes :: "monocypher \<Rightarrow> bool" where
  "hash_sizes B \<longleftrightarrow> (\<forall>n m. length (blake2b B n m) = n) \<and> (\<forall>n key m. length (blake2b_keyed B n key m) = n)"

definition aead_sizes :: "monocypher \<Rightarrow> bool" where
  "aead_sizes B \<longleftrightarrow> (\<forall>key nonce ad p c t. aead_lock B key nonce ad p = (c, t) \<longrightarrow>
     length c = length p \<and> length t = 16)"

definition aead_opens :: "monocypher \<Rightarrow> bool" where
  "aead_opens B \<longleftrightarrow> (\<forall>key nonce ad p c t. aead_lock B key nonce ad p = (c, t) \<longrightarrow>
     aead_unlock B key nonce ad c t = Some p)"

definition aead_exact :: "monocypher \<Rightarrow> bool" where
  "aead_exact B \<longleftrightarrow> (\<forall>key nonce ad p c t. length t = 16 \<longrightarrow> aead_unlock B key nonce ad c t = Some p \<longrightarrow>
     aead_lock B key nonce ad p = (c, t))"

definition x25519_agrees :: "monocypher \<Rightarrow> bool" where
  "x25519_agrees B \<longleftrightarrow>
     (\<forall>a b. x25519 B a (x25519_public_key B b) = x25519 B b (x25519_public_key B a))"

definition x25519_sizes :: "monocypher \<Rightarrow> bool" where
  "x25519_sizes B \<longleftrightarrow> (\<forall>a. length (x25519_public_key B a) = 32) \<and> (\<forall>a b. length (x25519 B a b) = 32)"

text \<open>\<open>eddsa_pair\<close>: a 64-byte secret key and the public key that is its second half.\<close>

definition eddsa_signs :: "monocypher \<Rightarrow> bool" where
  "eddsa_signs B \<longleftrightarrow> (\<forall>seed sk pk m. eddsa_key_pair B seed = (sk, pk) \<longrightarrow>
     length sk = 64 \<and> drop 32 sk = pk \<and> length pk = 32 \<and> length (eddsa_sign B sk m) = 64 \<and>
     eddsa_check B (eddsa_sign B sk m) pk m)"

section \<open>Constant-time comparison\<close>

definition load32_le :: "bytes \<Rightarrow> u32" where
  "load32_le s = ucast (s ! 0) OR push_bit 8 (ucast (s ! 1)) OR push_bit 16 (ucast (s ! 2)) OR
     push_bit 24 (ucast (s ! 3))"

definition load64_le :: "bytes \<Rightarrow> u64" where
  "load64_le s = ucast (load32_le s) OR push_bit 32 (ucast (load32_le (drop 4 s)))"

text \<open>\<open>neq0\<close> returns \<open>0\<close> or \<open>-1\<close>.\<close>

definition neq0 :: "u64 \<Rightarrow> int" where
  "neq0 diff =
     (let half = drop_bit 32 diff OR ucast (ucast diff :: u32);
          eq0 = 1 AND drop_bit 32 (half - 1)
      in uint eq0 - 1)"

definition x16 :: "bytes \<Rightarrow> bytes \<Rightarrow> u64" where
  "x16 a b = (load64_le a XOR load64_le b) OR (load64_le (drop 8 a) XOR load64_le (drop 8 b))"

definition x32 :: "bytes \<Rightarrow> bytes \<Rightarrow> u64" where
  "x32 a b = x16 a b OR x16 (drop 16 a) (drop 16 b)"

definition x64 :: "bytes \<Rightarrow> bytes \<Rightarrow> u64" where
  "x64 a b = x32 a b OR x32 (drop 32 a) (drop 32 b)"

definition crypto_verify16 :: "bytes \<Rightarrow> bytes \<Rightarrow> int" where "crypto_verify16 a b = neq0 (x16 a b)"
definition crypto_verify32 :: "bytes \<Rightarrow> bytes \<Rightarrow> int" where "crypto_verify32 a b = neq0 (x32 a b)"
definition crypto_verify64 :: "bytes \<Rightarrow> bytes \<Rightarrow> int" where "crypto_verify64 a b = neq0 (x64 a b)"

text \<open>The general loop: \<open>difference |= left[i] ^ right[i]\<close>.\<close>

definition difference_loop :: "bytes \<Rightarrow> bytes \<Rightarrow> u8" where
  "difference_loop left right = fold (\<lambda>(l, r) d. d OR (l XOR r)) (zip left right) 0"

definition ct_crypto_equal :: "bytes \<Rightarrow> bytes \<Rightarrow> nat \<Rightarrow> bool res" where
  "ct_crypto_equal left right n =
     andthen (rd left 0 n) (\<lambda>l. andthen (rd right 0 n) (\<lambda>r.
       if n = 16 then Ok (crypto_verify16 l r = 0)
       else if n = 32 then Ok (crypto_verify32 l r = 0)
       else if n = 64 then Ok (crypto_verify64 l r = 0)
       else Ok (difference_loop l r = 0)))"

lemma or_eq_0_word: "(a OR b = (0 :: 'a::len word)) \<longleftrightarrow> a = 0 \<and> b = 0"
  by (rule or_eq_0_iff)

lemma xor_eq_0_word: "(a XOR b = (0 :: 'a::len word)) \<longleftrightarrow> a = b"
  by (metis xor.assoc xor.right_neutral xor_self_eq)

lemma load32_le_bytes:
  "ucast (load32_le s) = s ! 0" "ucast (drop_bit 8 (load32_le s)) = s ! 1"
  "ucast (drop_bit 16 (load32_le s)) = s ! 2" "ucast (drop_bit 24 (load32_le s)) = s ! 3"
  by (rule bit_word_eqI; force simp: load32_le_def bit_simps dest: bit_imp_le_length)+

lemma load64_le_halves:
  "ucast (load64_le s) = load32_le s" "ucast (drop_bit 32 (load64_le s)) = load32_le (drop 4 s)"
  by (rule bit_word_eqI; force simp: load64_le_def bit_simps dest: bit_imp_le_length)+

lemma load32_le_inj:
  assumes "load32_le s = load32_le t" "length s = 4" "length t = 4"
  shows "s = t"
proof (rule nth_equalityI)
  fix i
  assume "i < length s"
  then have "i = 0 \<or> i = 1 \<or> i = 2 \<or> i = 3" using assms(2) by auto
  then show "s ! i = t ! i" using load32_le_bytes [of s] load32_le_bytes [of t] assms(1) by auto
qed (simp add: assms)

lemma load32_le_take: "load32_le (take 4 s) = load32_le s"
  by (simp add: load32_le_def)

lemma load64_le_inj:
  assumes "load64_le s = load64_le t" "length s = 8" "length t = 8"
  shows "s = t"
proof -
  have eq: "load32_le (take 4 s) = load32_le (take 4 t)" "load32_le (drop 4 s) = load32_le (drop 4 t)"
    using load64_le_halves [of s] load64_le_halves [of t] assms(1) by (simp_all add: load32_le_take)
  show ?thesis by (rule take_drop_eqI [of 4]; rule load32_le_inj) (simp_all add: assms eq)
qed

lemma load64_le_take: "load64_le (take 8 s) = load64_le s"
proof -
  have "load32_le (take 8 s) = load32_le s" "load32_le (drop 4 (take 8 s)) = load32_le (drop 4 s)"
    using load32_le_take [of "drop 4 s"] by (simp add: load32_le_def, simp add: drop_take)
  then show ?thesis by (simp add: load64_le_def)
qed

text \<open>\<open>half - 1\<close> borrows from bit 32 exactly when \<open>half\<close> is zero.\<close>

lemma neq0_correct: "neq0 diff = (if diff = 0 then 0 else -1)"
proof -
  define half :: u64 where "half = drop_bit 32 diff OR ucast (ucast diff :: u32)"
  have zero: "half = 0 \<longleftrightarrow> diff = 0"
  proof
    assume "half = 0"
    then have hi: "drop_bit 32 diff = 0" and lo: "ucast (ucast diff :: u32) = (0 :: u64)"
      by (simp_all add: half_def or_eq_0_word)
    show "diff = 0"
    proof (rule bit_word_eqI)
      fix n
      assume "n < LENGTH(64)"
      then show "bit diff n = bit 0 n"
        using arg_cong [OF hi, of "\<lambda>w. bit w (n - 32)"] arg_cong [OF lo, of "\<lambda>w. bit w n"]
        by (cases "n < 32") (auto simp: bit_simps)
    qed
  qed (simp add: half_def)
  have small: "unat half < 2 ^ 32"
  proof -
    have "drop_bit 32 half = 0"
      by (rule bit_word_eqI) (auto simp: half_def bit_simps dest: bit_imp_le_length)
    then have "unat half div 2 ^ 32 = 0" by (metis unat_drop_bit_eq drop_bit_eq_div unat_0)
    then show ?thesis by (simp add: div_eq_0_iff)
  qed
  have "drop_bit 32 (half - 1) = 0" if "half \<noteq> 0"
  proof -
    have "unat (half - 1) < 2 ^ 32" using small that by (simp add: unat_minus_one)
    then have "unat (drop_bit 32 (half - 1)) = 0"
      by (simp only: unat_drop_bit_eq) (simp add: drop_bit_eq_div)
    then show ?thesis by (simp only: unat_eq_0)
  qed
  moreover have "1 AND drop_bit 32 (0 - 1 :: u64) = 1" by (simp add: drop_bit_eq_div)
  ultimately show ?thesis unfolding neq0_def Let_def half_def [symmetric] using zero by auto
qed

lemma x16_eq_0:
  assumes "length a = 16" "length b = 16"
  shows "x16 a b = 0 \<longleftrightarrow> a = b"
proof -
  have "a = b" if "load64_le (take 8 a) = load64_le (take 8 b)" "load64_le (drop 8 a) = load64_le (drop 8 b)"
    by (rule take_drop_eqI [of 8]; rule load64_le_inj) (simp_all add: assms that)
  then show ?thesis by (auto simp: x16_def or_eq_0_word xor_eq_0_word load64_le_take)
qed

lemma x32_eq_0:
  assumes "length a = 32" "length b = 32"
  shows "x32 a b = 0 \<longleftrightarrow> a = b"
proof -
  have "x16 (take 16 a) (take 16 b) = x16 a b"
    using load64_le_take [of "drop 8 a"] load64_le_take [of "drop 8 b"]
      load64_le_take [of a] load64_le_take [of b] load64_le_take [of "take 16 a"]
      load64_le_take [of "take 16 b"]
    by (simp add: x16_def drop_take)
  then show ?thesis using x16_eq_0 [of "take 16 a" "take 16 b"] x16_eq_0 [of "drop 16 a" "drop 16 b"] assms
    by (auto simp: x32_def or_eq_0_word intro: take_drop_eqI [of 16])
qed

lemma x32_take: "x32 (take 32 a) (take 32 b) = x32 a b"
proof -
  have "x16 (take 16 u) (take 16 v) = x16 u v" for u v
    using load64_le_take [of "drop 8 u"] load64_le_take [of "drop 8 v"] load64_le_take [of u]
      load64_le_take [of v] load64_le_take [of "take 16 u"] load64_le_take [of "take 16 v"]
    by (simp add: x16_def drop_take)
  from this [of "take 32 a" "take 32 b"] this [of a b] this [of "drop 16 a" "drop 16 b"]
  show ?thesis by (simp add: x32_def drop_take)
qed

lemma x64_eq_0:
  assumes "length a = 64" "length b = 64"
  shows "x64 a b = 0 \<longleftrightarrow> a = b"
  using x32_eq_0 [of "take 32 a" "take 32 b"] x32_eq_0 [of "drop 32 a" "drop 32 b"] assms
  by (auto simp: x64_def or_eq_0_word x32_take intro: take_drop_eqI [of 32])

lemma difference_loop_eq_0:
  "length l = length r \<Longrightarrow> difference_loop l r = 0 \<longleftrightarrow> l = r"
proof -
  have "fold (\<lambda>(l, r) d. d OR (l XOR r)) (zip l r) d = 0 \<longleftrightarrow> d = 0 \<and> l = r"
    if "length l = length r" for d :: u8
    using that by (induction l r arbitrary: d rule: list_induct2) (auto simp: or_eq_0_word xor_eq_0_word)
  then show "length l = length r \<Longrightarrow> ?thesis" by (simp add: difference_loop_def)
qed

lemma crypto_equal_eq:
  "n \<le> length left \<Longrightarrow> n \<le> length right \<Longrightarrow>
     ct_crypto_equal left right n = Ok (take n left = take n right)"
  by (simp add: ct_crypto_equal_def rd_def crypto_verify16_def crypto_verify32_def
      crypto_verify64_def neq0_correct x16_eq_0 x32_eq_0 x64_eq_0 difference_loop_eq_0)

section \<open>Key derivation\<close>

text \<open>The counter is encoded with the least significant byte first.\<close>

definition encoded_counter :: "u64 \<Rightarrow> bytes" where
  "encoded_counter c = map (\<lambda>i. ucast (drop_bit (8 * i) c)) [0, 1, 2, 3, 4, 5, 6, 7]"

function kdf_loop :: "monocypher \<Rightarrow> bytes \<Rightarrow> bytes \<Rightarrow> nat \<Rightarrow> u64 \<Rightarrow> bytes res" where
  "kdf_loop B prk ctxt output_length counter =
     (if output_length = 0 then Ok []
      else
        let block = (if output_length < 64 then output_length else 64);
            expanded = blake2b_keyed B 64 prk (encoded_counter counter @ ctxt);
            remaining = output_length - block
        in if counter = uint64_max \<and> remaining \<noteq> 0 then Err
           else andthen (kdf_loop B prk ctxt remaining (counter + 1)) (\<lambda>rest.
             Ok (take block expanded @ rest)))"
  by pat_completeness auto
termination by (relation "measure (\<lambda>(B, prk, ctxt, n, c). n)") auto

declare kdf_loop.simps [simp del]

definition ct_crypto_kdf :: "monocypher \<Rightarrow> nat \<Rightarrow> bytes \<Rightarrow> bytes \<Rightarrow> bytes \<Rightarrow> bytes res" where
  "ct_crypto_kdf B output_length key_material salt ctxt =
     (if length salt > 64 then Err
      else
        let prk = (if length salt \<noteq> 0 then blake2b_keyed B 64 salt key_material
                   else blake2b B 64 key_material)
        in kdf_loop B prk ctxt output_length 0)"

definition derive :: "monocypher \<Rightarrow> bytes \<Rightarrow> bytes \<Rightarrow> string \<Rightarrow> nat \<Rightarrow> bytes res" where
  "derive B material salt label n = ct_crypto_kdf B n material salt (lit label)"

record ct_session_keys =
  control_c2s :: bytes
  control_s2c :: bytes
  data_master :: bytes
  work_auth_key :: bytes
  stream_auth_key :: bytes
  nonce_c2s :: bytes
  nonce_s2c :: bytes
  session_id :: u64

text \<open>Without \<open>CONFIG_FEATURE_DATA_ENCRYPTION\<close> there is no data master key; it is left empty.\<close>

definition ct_derive_session :: "monocypher \<Rightarrow> autoconf \<Rightarrow> bytes \<Rightarrow> bytes \<Rightarrow> ct_session_keys res" where
  "ct_derive_session B k shared transcript =
     (let salt = blake2b B 32 transcript in
      andthen (derive B shared salt ''ctunnel-v3/control-c2s-key'' 32) (\<lambda>kc2s.
      andthen (derive B shared salt ''ctunnel-v3/control-s2c-key'' 32) (\<lambda>ks2c.
      andthen (derive B shared salt ''ctunnel-v3/control-c2s-nonce'' 16) (\<lambda>nc2s.
      andthen (derive B shared salt ''ctunnel-v3/control-s2c-nonce'' 16) (\<lambda>ns2c.
      andthen (derive B shared salt ''ctunnel-v3/work-auth'' 32) (\<lambda>work.
      andthen (derive B shared salt ''ctunnel-v3/stream-auth'' 32) (\<lambda>stream.
      andthen (derive B shared salt ''ctunnel-v3/session-id'' 8) (\<lambda>sid.
      andthen (if k_data_encryption k then derive B shared salt ''ctunnel-v3/data-master'' 32
               else Ok []) (\<lambda>master.
      let number = ct_get_u64 sid in
      Ok \<lparr>control_c2s = kc2s, control_s2c = ks2c, data_master = master, work_auth_key = work,
          stream_auth_key = stream, nonce_c2s = nc2s, nonce_s2c = ns2c,
          session_id = (if number = 0 then 1 else number)\<rparr>)))))))))"

text \<open>The encryption mode and the cipher are enumerations that are also read from the wire.\<close>

definition CT_ENC_REQUIRED :: u8 where "CT_ENC_REQUIRED = 0"
definition CT_ENC_DISABLED :: u8 where "CT_ENC_DISABLED = 1"
definition CT_CIPHER_NONE :: u8 where "CT_CIPHER_NONE = 0"
definition CT_CIPHER_CHACHA :: u8 where "CT_CIPHER_CHACHA = 1"

lemmas enum_defs = CT_ENC_REQUIRED_def CT_ENC_DISABLED_def CT_CIPHER_NONE_def CT_CIPHER_CHACHA_def

text \<open>The context of a data stream, written into a 192-byte array.\<close>

definition data_context ::
  "autoconf \<Rightarrow> u64 \<Rightarrow> bytes \<Rightarrow> bytes \<Rightarrow> bytes \<Rightarrow> u8 \<Rightarrow> u8 \<Rightarrow> bytes res" where
  "data_context k stream random work_id service mode dir =
     (if length service > k_max_service_id k then Err
      else emits 192 [] [lit ''ctunnel-v3/data-stream'', ct_put_u64 stream, random, work_id,
        ct_put_u16 (of_nat (length service)), service, [mode], [dir]])"

definition ct_derive_data ::
  "monocypher \<Rightarrow> autoconf \<Rightarrow> bytes \<Rightarrow> u64 \<Rightarrow> bytes \<Rightarrow> bytes \<Rightarrow> bytes \<Rightarrow> u8 \<Rightarrow> u8 \<Rightarrow>
     (bytes \<times> bytes) res" where
  "ct_derive_data B k master stream random work_id service mode dir =
     andthen (data_context k stream random work_id service mode dir) (\<lambda>ctxt.
     let key_label = (if dir \<noteq> 0 then ''ctunnel-v3/data-stream-s2c-key''
                      else ''ctunnel-v3/data-stream-c2s-key'');
         nonce_label = (if dir \<noteq> 0 then ''ctunnel-v3/data-stream-s2c-nonce''
                        else ''ctunnel-v3/data-stream-c2s-nonce'');
         salt = blake2b B 32 ctxt
     in andthen (derive B master salt key_label 32) (\<lambda>key.
        andthen (derive B master salt nonce_label 16) (\<lambda>nonce_base. Ok (key, nonce_base))))"

lemma kdf_loop_ok:
  "hash_sizes B \<Longrightarrow> unat c + (n + 63) div 64 < 2 ^ 64 \<Longrightarrow>
     \<exists>out. kdf_loop B prk ctxt n c = Ok out \<and> length out = n"
proof (induction n arbitrary: c rule: less_induct)
  case (less n)
  show ?case
  proof (cases "n = 0")
    case True
    then show ?thesis by (simp add: kdf_loop.simps [of B prk ctxt 0])
  next
    case False
    define r where "r = n - min n 64"
    have step: "(n + 63) div 64 = Suc ((r + 63) div 64)"
      using False by (auto simp: r_def min_def div_if split: if_splits)
    then have lt: "unat c + 1 < 2 ^ 64" using less.prems(2) by linarith
    then have c: "unat (c + 1) = unat c + 1" by (simp add: unat_word_ariths)
    then have "c \<noteq> uint64_max" using lt by auto
    moreover obtain rest where "kdf_loop B prk ctxt r (c + 1) = Ok rest" "length rest = r"
      using less.IH [of r "c + 1"] less.prems False step c by (auto simp: r_def min_def)
    ultimately show ?thesis using False less.prems(1)
      by (simp add: kdf_loop.simps [of B prk ctxt n] r_def min_def hash_sizes_def Let_def
          split: if_splits)
  qed
qed

lemma derive_ok:
  assumes "hash_sizes B" "n \<le> 64"
  shows "\<exists>out. derive B material (blake2b B 32 m) label n = Ok out \<and> length out = n"
proof -
  have "(n + 63) div 64 \<le> 1" using assms(2) by linarith
  then show ?thesis
    using assms(1) kdf_loop_ok [OF assms(1), of 0 n] by (simp add: derive_def ct_crypto_kdf_def hash_sizes_def)
qed

text \<open>The bytes a derivation yields.\<close>

definition derived :: "monocypher \<Rightarrow> bytes \<Rightarrow> bytes \<Rightarrow> string \<Rightarrow> nat \<Rightarrow> bytes" where
  "derived B material m label n =
     (case derive B material (blake2b B 32 m) label n of Ok out \<Rightarrow> out | _ \<Rightarrow> [])"

lemma derive_eq:
  "hash_sizes B \<Longrightarrow> n \<le> 64 \<Longrightarrow>
     derive B material (blake2b B 32 m) label n = Ok (derived B material m label n)"
  "hash_sizes B \<Longrightarrow> n \<le> 64 \<Longrightarrow> length (derived B material m label n) = n"
  using derive_ok [of B n material m label] by (auto simp: derived_def)

definition session_of :: "monocypher \<Rightarrow> autoconf \<Rightarrow> bytes \<Rightarrow> bytes \<Rightarrow> ct_session_keys" where
  "session_of B k shared tr =
     (let n = ct_get_u64 (derived B shared tr ''ctunnel-v3/session-id'' 8) in
     \<lparr>control_c2s = derived B shared tr ''ctunnel-v3/control-c2s-key'' 32,
      control_s2c = derived B shared tr ''ctunnel-v3/control-s2c-key'' 32,
      data_master = (if k_data_encryption k then derived B shared tr ''ctunnel-v3/data-master'' 32
                     else []),
      work_auth_key = derived B shared tr ''ctunnel-v3/work-auth'' 32,
      stream_auth_key = derived B shared tr ''ctunnel-v3/stream-auth'' 32,
      nonce_c2s = derived B shared tr ''ctunnel-v3/control-c2s-nonce'' 16,
      nonce_s2c = derived B shared tr ''ctunnel-v3/control-s2c-nonce'' 16,
      session_id = (if n = 0 then 1 else n)\<rparr>)"

lemma derive_session_eq:
  "hash_sizes B \<Longrightarrow> ct_derive_session B k shared tr = Ok (session_of B k shared tr)"
  by (simp add: ct_derive_session_def session_of_def derive_eq Let_def)

lemma session_of_sizes:
  "hash_sizes B \<Longrightarrow> keys = session_of B k shared tr \<Longrightarrow>
    session_id keys \<noteq> 0 \<and> length (control_c2s keys) = 32 \<and> length (control_s2c keys) = 32 \<and>
    length (nonce_c2s keys) = 16 \<and> length (nonce_s2c keys) = 16 \<and>
    length (work_auth_key keys) = 32 \<and> length (stream_auth_key keys) = 32"
  by (simp add: session_of_def derive_eq Let_def)

definition data_context_bytes :: "u64 \<Rightarrow> bytes \<Rightarrow> bytes \<Rightarrow> bytes \<Rightarrow> u8 \<Rightarrow> u8 \<Rightarrow> bytes" where
  "data_context_bytes stream random work_id service mode dir =
     lit ''ctunnel-v3/data-stream'' @ ct_put_u64 stream @ random @ work_id @
     ct_put_u16 (of_nat (length service)) @ service @ [mode, dir]"

lemma data_context_eq:
  "length random = 32 \<Longrightarrow> length work_id = 32 \<Longrightarrow> length service \<le> k_max_service_id k \<Longrightarrow>
    data_context k stream random work_id service mode dir =
      (if length service \<le> 94 then Ok (data_context_bytes stream random work_id service mode dir)
       else Fault)"
  by (simp add: data_context_def emits_eq data_context_bytes_def)

lemma derive_data_eq:
  assumes "hash_sizes B" "length random = 32" "length work_id = 32"
    and "length service \<le> k_max_service_id k"
  shows "ct_derive_data B k master stream random work_id service mode dir =
    (if length service \<le> 94
     then Ok (derived B master (data_context_bytes stream random work_id service mode dir)
            (if dir \<noteq> 0 then ''ctunnel-v3/data-stream-s2c-key''
             else ''ctunnel-v3/data-stream-c2s-key'') 32,
          derived B master (data_context_bytes stream random work_id service mode dir)
            (if dir \<noteq> 0 then ''ctunnel-v3/data-stream-s2c-nonce''
             else ''ctunnel-v3/data-stream-c2s-nonce'') 16)
     else Fault)"
  using assms by (simp add: ct_derive_data_def data_context_eq derive_eq Let_def)

section \<open>Randomness and key pairs\<close>

text \<open>\<open>random\<close> is the answer of \<open>ct_platform_random\<close>: fresh bytes, or \<open>None\<close> on failure.\<close>

definition ct_crypto_random :: "bytes option \<Rightarrow> bytes res" where
  "ct_crypto_random random = (case random of None \<Rightarrow> Err | Some r \<Rightarrow> Ok r)"

definition ct_crypto_sign_keypair :: "monocypher \<Rightarrow> bytes option \<Rightarrow> (bytes \<times> bytes) res" where
  "ct_crypto_sign_keypair B random =
     andthen (ct_crypto_random random) (\<lambda>seed.
       let (private_key, public_key) = eddsa_key_pair B seed in Ok (public_key, private_key))"

definition ct_crypto_kx_keypair :: "monocypher \<Rightarrow> bytes option \<Rightarrow> (bytes \<times> bytes) res" where
  "ct_crypto_kx_keypair B random =
     andthen (ct_crypto_random random) (\<lambda>private_key. Ok (x25519_public_key B private_key, private_key))"

text \<open>A shared secret of zeros (a low-order peer key) is refused.\<close>

definition ct_crypto_kx :: "monocypher \<Rightarrow> bytes \<Rightarrow> bytes \<Rightarrow> bytes res" where
  "ct_crypto_kx B private_key peer =
     (let shared = x25519 B private_key peer in
      if crypto_verify32 shared (replicate 32 0) = 0 then Err else Ok shared)"

definition ct_crypto_hash :: "monocypher \<Rightarrow> bytes \<Rightarrow> bytes" where
  "ct_crypto_hash B m = blake2b B 32 m"

definition ct_crypto_mac :: "monocypher \<Rightarrow> bytes \<Rightarrow> bytes \<Rightarrow> bytes" where
  "ct_crypto_mac B key m = blake2b_keyed B 32 key m"

section \<open>Authenticated encryption\<close>

definition ct_cipher_available :: "u8 \<Rightarrow> bool" where
  "ct_cipher_available cipher \<longleftrightarrow> cipher = CT_CIPHER_CHACHA"

definition make_nonce :: "bytes \<Rightarrow> u64 \<Rightarrow> bytes" where
  "make_nonce base seq = take 16 base @ ct_put_u64 seq"

definition ct_aead_encrypt ::
  "monocypher \<Rightarrow> u8 \<Rightarrow> bytes \<Rightarrow> bytes \<Rightarrow> u64 \<Rightarrow> bytes \<Rightarrow> bytes \<Rightarrow> bytes res" where
  "ct_aead_encrypt B cipher key base seq ad plaintext =
     (if \<not> ct_cipher_available cipher \<or> length plaintext > 2 ^ 64 - 1 - 16 then Err
      else let (c, tag) = aead_lock B key (make_nonce base seq) ad plaintext in Ok (c @ tag))"

definition ct_aead_decrypt ::
  "monocypher \<Rightarrow> u8 \<Rightarrow> bytes \<Rightarrow> bytes \<Rightarrow> u64 \<Rightarrow> bytes \<Rightarrow> bytes \<Rightarrow> bytes res" where
  "ct_aead_decrypt B cipher key base seq ad input =
     (if \<not> ct_cipher_available cipher \<or> length input < 16 then Err
      else
        let n = length input - 16 in
        case aead_unlock B key (make_nonce base seq) ad (take n input) (drop n input) of
          None \<Rightarrow> Err | Some p \<Rightarrow> Ok p)"

lemma decrypt_encrypt:
  assumes "aead_opens B" "aead_sizes B" "ct_aead_encrypt B cipher key base seq ad p = Ok box"
  shows "ct_aead_decrypt B cipher key base seq ad box = Ok p \<and> length box = length p + 16"
proof -
  obtain c t where l: "aead_lock B key (make_nonce base seq) ad p = (c, t)" by fastforce
  with assms have "box = c @ t" "length t = 16" "length c = length p" "ct_cipher_available cipher"
    by (auto simp: ct_aead_encrypt_def aead_sizes_def split: if_splits)
  then show ?thesis using assms(1) l by (auto simp: ct_aead_decrypt_def aead_opens_def Let_def)
qed

lemma encrypt_ok:
  assumes "aead_sizes B" "ct_cipher_available cipher" "length p \<le> 2 ^ 64 - 17"
  shows "\<exists>box. ct_aead_encrypt B cipher key base seq ad p = Ok box \<and> length box = length p + 16"
  using assms by (cases "aead_lock B key (make_nonce base seq) ad p")
    (auto simp: ct_aead_encrypt_def aead_sizes_def)

lemma encrypt_decrypt:
  assumes "aead_exact B" "ct_aead_decrypt B cipher key base seq ad box = Ok p"
    and "length p \<le> 2 ^ 64 - 17"
  shows "ct_aead_encrypt B cipher key base seq ad p = Ok box"
proof -
  let ?n = "length box - 16"
  have "aead_unlock B key (make_nonce base seq) ad (take ?n box) (drop ?n box) = Some p"
    "16 \<le> length box" "ct_cipher_available cipher"
    using assms(2) by (auto simp: ct_aead_decrypt_def Let_def split: if_splits option.splits)
  then have "aead_lock B key (make_nonce base seq) ad p = (take ?n box, drop ?n box)"
    using assms(1) by (simp add: aead_exact_def)
  then show ?thesis using assms(3) \<open>ct_cipher_available cipher\<close> by (simp add: ct_aead_encrypt_def)
qed

lemma aead_no_fault [simp]:
  "ct_aead_encrypt B cipher key base seq ad p \<noteq> Fault"
  "ct_aead_decrypt B cipher key base seq ad box \<noteq> Fault"
  by (auto simp: ct_aead_encrypt_def ct_aead_decrypt_def Let_def split: prod.splits option.splits)

section \<open>Properties\<close>

text \<open>
  The constant-time comparison decides equality: for every length, through the three fixed-size
  routines with their word arithmetic and through the general loop, it answers true exactly when the
  two buffers agree on their first \<open>n\<close> bytes, and it reads nothing outside them.
\<close>

theorem crypto_equal_correct:
  assumes "n \<le> length left" "n \<le> length right"
  shows "ct_crypto_equal left right n = Ok (take n left = take n right)"
  using assms by (rule crypto_equal_eq)

theorem crypto_equal_correct_witness:
  "ct_crypto_equal (replicate 31 7 @ [1]) (replicate 31 7 @ [2]) 32 = Ok False"
  using crypto_equal_correct [of 32 "replicate 31 7 @ [1]" "replicate 31 7 @ [2]"] by simp

text \<open>
  C39: the key derivation of a data stream writes outside its 192-byte context array exactly when the
  service identifier is longer than 94 bytes and the build accepts it; otherwise it succeeds, so a
  build with \<open>CONFIG_MAX_SERVICE_ID_LENGTH\<close> at most 94 is memory safe.
\<close>

theorem derive_data_overflow_exact:
  assumes "hash_sizes B" "length random = 32" "length work_id = 32"
    and "length service \<le> k_max_service_id k"
  shows "ct_derive_data B k master stream random work_id service mode dir =
    (if length service \<le> 94
     then Ok (derived B master (data_context_bytes stream random work_id service mode dir)
            (if dir \<noteq> 0 then ''ctunnel-v3/data-stream-s2c-key''
             else ''ctunnel-v3/data-stream-c2s-key'') 32,
          derived B master (data_context_bytes stream random work_id service mode dir)
            (if dir \<noteq> 0 then ''ctunnel-v3/data-stream-s2c-nonce''
             else ''ctunnel-v3/data-stream-c2s-nonce'') 16)
     else Fault)"
  using assms by (rule derive_data_eq)

definition toy_hash :: "nat \<Rightarrow> bytes \<Rightarrow> bytes" where
  "toy_hash n m = take n (m @ replicate n 0)"

definition toy_tag :: "bytes \<Rightarrow> bytes \<Rightarrow> bytes \<Rightarrow> bytes" where
  "toy_tag key nonce ad = toy_hash 16 (drop 16 nonce @ drop 12 ad)"

text \<open>A concrete instance of the primitives that has every documented law.\<close>

definition toy_backend :: monocypher where
  "toy_backend = \<lparr>blake2b = toy_hash, blake2b_keyed = (\<lambda>n key m. toy_hash n m),
     eddsa_key_pair = (\<lambda>seed. (toy_hash 32 seed @ toy_hash 32 seed, toy_hash 32 seed)),
     eddsa_sign = (\<lambda>sk m. toy_hash 64 (drop 32 sk @ m)),
     eddsa_check = (\<lambda>sig pk m. sig = toy_hash 64 (pk @ m)),
     x25519_public_key = (\<lambda>a. toy_hash 32 a),
     x25519 = (\<lambda>a b. map (\<lambda>(x, y). x + y) (zip (toy_hash 32 a) (toy_hash 32 b))),
     aead_lock = (\<lambda>key nonce ad p. (p, toy_tag key nonce ad)),
     aead_unlock = (\<lambda>key nonce ad c t. if t = toy_tag key nonce ad then Some c else None)\<rparr>"

lemma length_toy_hash [simp]: "length (toy_hash n m) = n"
  by (simp add: toy_hash_def)

lemma toy_backend_laws:
  "hash_sizes toy_backend" "aead_sizes toy_backend" "aead_opens toy_backend" "aead_exact toy_backend"
  "x25519_sizes toy_backend" "eddsa_signs toy_backend"
  by (simp_all add: toy_backend_def hash_sizes_def aead_sizes_def aead_opens_def aead_exact_def
      x25519_sizes_def eddsa_signs_def toy_tag_def)

lemma toy_backend_agrees: "x25519_agrees toy_backend"
proof -
  have idem: "toy_hash 32 (toy_hash 32 a) = toy_hash 32 a" for a by (simp add: toy_hash_def)
  have "map (\<lambda>(x, y). x + y) (zip u v) = map (\<lambda>(x, y). x + y) (zip v u)" for u v :: bytes
    by (intro nth_equalityI) (auto simp: add.commute)
  then show ?thesis by (simp add: x25519_agrees_def toy_backend_def idem)
qed

theorem derive_data_overflow_exact_witness:
  "ct_derive_data toy_backend full_defconfig [] 1 (replicate 32 5) (replicate 32 6)
     (replicate 100 97) 0 1 = Fault"
  using derive_data_overflow_exact [of toy_backend "replicate 32 5" "replicate 32 6"
      "replicate 100 97" full_defconfig "[]" 1 0 1] toy_backend_laws
  by (simp add: full_defconfig_def)

text \<open>
  Data streams have separate key contexts: two derivations whose stream number, random value,
  work connection, service, encryption mode or direction differ in any way hash different context
  strings, whatever the lengths of the identifiers. In particular the two directions of one stream
  never share a context.
\<close>

theorem data_context_injective:
  assumes "data_context k stream random work service mode dir = Ok c"
    and "data_context k stream' random' work' service' mode' dir' = Ok c"
    and "length random = 32" "length work = 32" "length random' = 32" "length work' = 32"
    and "k_max_service_id k \<le> 65535"
  shows "stream = stream' \<and> random = random' \<and> work = work' \<and> service = service' \<and>
    mode = mode' \<and> dir = dir'"
proof -
  have "c = data_context_bytes stream random work service mode dir"
    "c = data_context_bytes stream' random' work' service' mode' dir'"
    "length service \<le> 65535" "length service' \<le> 65535"
    using assms by (auto simp: data_context_def emits_eq data_context_bytes_def split: if_splits)
  then have eq: "ct_put_u64 stream @ random @ work @ string_bytes service @ [mode, dir] =
      ct_put_u64 stream' @ random' @ work' @ string_bytes service' @ [mode', dir']"
    and ok: "string_ok 65536 service" "string_ok 65536 service'"
    by (auto simp: data_context_bytes_def string_bytes_def string_ok_def)
  then have s: "ct_put_u64 stream = ct_put_u64 stream'" "random = random'" "work = work'"
    "string_bytes service @ [mode, dir] = string_bytes service' @ [mode', dir']"
    using assms(3-6) by simp_all
  then show ?thesis
    using str_field.enc_prefix_free [OF ok s(4)] by simp
qed

theorem data_context_injective_witness:
  "data_context default_defconfig 1 (replicate 32 5) (replicate 32 6) (lit ''ssh'') 0 0 \<noteq>
   data_context default_defconfig 1 (replicate 32 5) (replicate 32 6) (lit ''ssh'') 0 1"
proof -
  obtain c where c: "data_context default_defconfig 1 (replicate 32 5) (replicate 32 6)
      (lit ''ssh'') 0 0 = Ok c"
    by (simp add: data_context_def emits_eq default_defconfig_def)
  show ?thesis
  proof
    assume "data_context default_defconfig 1 (replicate 32 5) (replicate 32 6) (lit ''ssh'') 0 0 =
      data_context default_defconfig 1 (replicate 32 5) (replicate 32 6) (lit ''ssh'') 0 1"
    with c have "data_context default_defconfig 1 (replicate 32 5) (replicate 32 6)
      (lit ''ssh'') 0 1 = Ok c" by simp
    from data_context_injective [OF c this] show False by (simp add: default_defconfig_def)
  qed
qed

end
