(* ===== verification/Keyfile.thy ===== *)
theory Keyfile
  imports Crypto
begin

text \<open>
  Key files of \<open>src/src/crypto/crypto_monocypher.c\<close>: the base64 codec, the text format with its
  prefix, writing, loading and fingerprinting. The file system is a map from paths to files; what
  the operating system may refuse is an argument.
\<close>

unbundle bit_operations_syntax

section \<open>Base64\<close>

definition b64_alphabet :: bytes where
  "b64_alphabet = lit ''ABCDEFGHIJKLMNOPQRSTUVWXYZabcdefghijklmnopqrstuvwxyz0123456789+/''"

definition sextet :: "u32 \<Rightarrow> nat \<Rightarrow> u8" where
  "sextet value n = b64_alphabet ! unat (drop_bit n value AND 63)"

text \<open>The loop of \<open>b64_encode\<close>, one group of up to three bytes at a time; \<open>61\<close> is \<open>=\<close>.\<close>

fun b64_encode_loop :: "bytes \<Rightarrow> bytes" where
  "b64_encode_loop [] = []"
| "b64_encode_loop [x] =
     (let value = push_bit 16 (ucast x)
      in [sextet value 18, sextet value 12, 61, 61])"
| "b64_encode_loop [x, y] =
     (let value = push_bit 16 (ucast x) OR push_bit 8 (ucast y)
      in [sextet value 18, sextet value 12, sextet value 6, 61])"
| "b64_encode_loop (x # y # z # rest) =
     (let value = push_bit 16 (ucast x) OR push_bit 8 (ucast y) OR ucast z
      in [sextet value 18, sextet value 12, sextet value 6, sextet value 0] @ b64_encode_loop rest)"

definition b64_encode :: "nat \<Rightarrow> bytes \<Rightarrow> bytes res" where
  "b64_encode cap input =
     (if cap < (length input + 2) div 3 * 4 + 1 then Err else Ok (b64_encode_loop input))"

definition b64_value :: "u8 \<Rightarrow> int" where
  "b64_value c =
     (if 65 \<le> c \<and> c \<le> 90 then uint c - 65
      else if 97 \<le> c \<and> c \<le> 122 then uint c - 97 + 26
      else if 48 \<le> c \<and> c \<le> 57 then uint c - 48 + 52
      else if c = 43 then 62
      else if c = 47 then 63
      else -1)"

text \<open>
  One turn of the decoding loop yields one, two or three bytes; \<open>final\<close> is \<open>i + 4 = length\<close>.
\<close>

definition b64_group :: "bool \<Rightarrow> u8 \<Rightarrow> u8 \<Rightarrow> u8 \<Rightarrow> u8 \<Rightarrow> bytes res" where
  "b64_group final e f g h =
     (let a = b64_value e; b = b64_value f;
          c = (if g = 61 then -2 else b64_value g);
          d = (if h = 61 then -2 else b64_value h)
      in if a < 0 \<or> b < 0 \<or> c = -1 \<or> d = -1 \<or> (c = -2 \<and> d \<noteq> -2) \<or>
            ((c = -2 \<or> d = -2) \<and> \<not> final) \<or> (c = -2 \<and> b AND 15 \<noteq> 0) \<or>
            (d = -2 \<and> c \<ge> 0 \<and> c AND 3 \<noteq> 0)
         then Err
         else
           let v = push_bit 18 (of_int a) OR push_bit 12 (of_int b) OR
                 (if c \<ge> 0 then push_bit 6 (of_int c) else 0) OR
                 (if d \<ge> 0 then of_int d else 0) :: u32
           in Ok ([ucast (drop_bit 16 v)] @ (if c \<ge> 0 then [ucast (drop_bit 8 v)] else []) @
                (if d \<ge> 0 then [ucast v] else [])))"

text \<open>
  \<open>out\<close> holds what was decoded so far. A group that would pass \<open>expected\<close> ends the loop with an
  error, as do the checks before each store.
\<close>

fun b64_decode_loop :: "nat \<Rightarrow> bytes \<Rightarrow> bytes \<Rightarrow> bytes res" where
  "b64_decode_loop expected out [] = (if length out = expected then Ok out else Err)"
| "b64_decode_loop expected out (e # f # g # h # rest) =
     andthen (b64_group (rest = []) e f g h) (\<lambda>bs.
       if length out + length bs > expected then Err
       else b64_decode_loop expected (out @ bs) rest)"
| "b64_decode_loop expected out _ = Err"

definition b64_decode :: "nat \<Rightarrow> bytes \<Rightarrow> bytes res" where
  "b64_decode expected input =
     (if length input = 0 \<or> length input mod 4 \<noteq> 0 then Err
      else b64_decode_loop expected [] input)"

lemma length_b64_alphabet [simp]: "length b64_alphabet = 64"
  by (simp add: b64_alphabet_def)

lemma alphabet_value: "n < 64 \<Longrightarrow> b64_value (b64_alphabet ! n) = int n"
proof -
  have "list_all (\<lambda>n. b64_value (b64_alphabet ! n) = int n) [0..<64]" by code_simp
  then show "n < 64 \<Longrightarrow> ?thesis" by (simp add: list_all_iff)
qed

lemma alphabet_no_pad: "n < 64 \<Longrightarrow> b64_alphabet ! n \<noteq> 61"
proof -
  have "list_all (\<lambda>c. c \<noteq> 61) b64_alphabet" by code_simp
  then show "n < 64 \<Longrightarrow> ?thesis" by (simp add: list_all_iff)
qed

definition letter :: "nat \<Rightarrow> nat" where
  "letter n = (if n < 26 then n + 65 else if n < 52 then n + 71 else if n < 62 then n - 4
     else if n = 62 then 43 else 47)"

lemma alphabet_letter: "n < 64 \<Longrightarrow> b64_alphabet ! n = of_nat (letter n)"
proof -
  have "list_all (\<lambda>n. b64_alphabet ! n = of_nat (letter n)) [0..<64]" by code_simp
  then show "n < 64 \<Longrightarrow> ?thesis" by (simp add: list_all_iff)
qed

lemma value_letter:
  assumes "0 \<le> b64_value c"
  shows "nat (b64_value c) < 64 \<and> letter (nat (b64_value c)) = unat c \<and> unat c \<noteq> 61"
proof -
  define m where "m = unat c"
  have iff: "c = 43 \<longleftrightarrow> m = 43" "c = 47 \<longleftrightarrow> m = 47" by (auto simp: word_unat_eq_iff m_def)
  have v: "b64_value c = (if 65 \<le> m \<and> m \<le> 90 then int m - 65 else if 97 \<le> m \<and> m \<le> 122 then int m - 71
      else if 48 \<le> m \<and> m \<le> 57 then int m + 4 else if m = 43 then 62 else if m = 47 then 63 else -1)"
    unfolding b64_value_def iff word_le_nat_alt by (simp add: m_def)
  consider "65 \<le> m \<and> m \<le> 90" | "97 \<le> m \<and> m \<le> 122" | "48 \<le> m \<and> m \<le> 57" | "m = 43" | "m = 47"
    using assms v by (metis neg_0_le_iff_le not_one_le_zero)
  then show ?thesis unfolding v letter_def m_def [symmetric] by cases auto
qed

lemma value_alphabet:
  assumes "0 \<le> b64_value c"
  shows "nat (b64_value c) < 64" "b64_alphabet ! nat (b64_value c) = c" "c \<noteq> 61"
  using value_letter [OF assms] by (auto simp: alphabet_letter)

text \<open>Six bits of a 32-bit word.\<close>

lemma and_masks: "w AND 63 = take_bit 6 (w :: u32)" "w AND 15 = take_bit 4 (w :: u32)"
    "w AND 3 = take_bit 2 (w :: u32)"
  by (simp_all add: take_bit_eq_mask mask_eq_exp_minus_1)

lemma sextet_bound: "unat (take_bit 6 w :: u32) < 64"
proof -
  have "unat (take_bit 6 w) < 2 ^ 6" unfolding unsigned_take_bit_eq by (rule take_bit_nat_less_exp)
  then show ?thesis by simp
qed

lemma sextet_value:
  "b64_value (sextet v n) = uint (take_bit 6 (drop_bit n v))" "sextet v n \<noteq> 61"
  using alphabet_value [OF sextet_bound] alphabet_no_pad [OF sextet_bound]
  by (simp_all add: sextet_def and_masks)

lemma word_of_sextet [simp]: "word_of_int (uint (take_bit 6 (drop_bit n v))) = take_bit 6 (drop_bit n (v :: u32))"
  by (rule word_of_int_uint)

lemma uint_and_masks: "uint w AND 15 = uint (w AND 15 :: u32)" "uint w AND 3 = uint (w AND 3 :: u32)"
  by (simp_all add: unsigned_and_eq)

lemma bytes_of_three:
  fixes x y z :: u8
  defines "v \<equiv> push_bit 16 (ucast x) OR push_bit 8 (ucast y) OR ucast z :: u32"
  shows "ucast (drop_bit 16 v) = x" "ucast (drop_bit 8 v) = y" "ucast v = z"
  unfolding v_def by (rule bit_word_eqI; force simp: bit_simps dest: bit_imp_le_length)+

lemma sextets_join:
  fixes v :: u32
  assumes "take_bit 24 v = v"
  shows "push_bit 18 (take_bit 6 (drop_bit 18 v)) OR push_bit 12 (take_bit 6 (drop_bit 12 v)) OR
    push_bit 6 (take_bit 6 (drop_bit 6 v)) OR take_bit 6 v = v" (is "?l = v")
proof (rule bit_word_eqI)
  fix n
  assume n: "n < LENGTH(32)"
  have hi: "24 \<le> n \<Longrightarrow> \<not> bit v n" using arg_cong [OF assms, of "\<lambda>w. bit w n"] by (auto simp: bit_simps)
  consider "n < 6" | "6 \<le> n \<and> n < 12" | "12 \<le> n \<and> n < 18" | "18 \<le> n \<and> n < 24" | "24 \<le> n" by linarith
  then show "bit ?l n = bit v n" using hi n by cases (auto simp: bit_simps)
qed

lemma three_bytes_24: "take_bit 24 (push_bit 16 (ucast x) OR push_bit 8 (ucast y) OR ucast z :: u32) =
    push_bit 16 (ucast (x :: u8)) OR push_bit 8 (ucast (y :: u8)) OR ucast (z :: u8)"
  by (rule bit_word_eqI) (auto simp: bit_simps dest: bit_imp_le_length)

lemma low_bits_zero:
  "take_bit 6 (push_bit 16 (ucast x) OR push_bit 8 (ucast y) :: u32) = 0"
  "take_bit 6 (drop_bit 6 (push_bit 16 (ucast x) :: u32)) = 0"
  "take_bit 4 (take_bit 6 (drop_bit 12 (push_bit 16 (ucast x)))) = (0 :: u32)"
  "take_bit 2 (take_bit 6 (drop_bit 6 (push_bit 16 (ucast x) OR push_bit 8 (ucast y)))) = (0 :: u32)"
  for x y :: u8
  by (rule bit_word_eqI; auto simp: bit_simps)+

text \<open>A group evaluated on the values of its characters.\<close>

lemma uint_not_negative [simp]: "uint w \<noteq> -1" "uint w \<noteq> -2" "-1 \<noteq> uint w" "-2 \<noteq> uint w"
  using uint_ge_0 [of w] by linarith+

lemma group_three:
  fixes a b c d :: u32
  assumes "b64_value e = uint a" "b64_value f = uint b" "b64_value g = uint c" "b64_value h = uint d"
    "g \<noteq> 61" "h \<noteq> 61" and w: "w = push_bit 18 a OR push_bit 12 b OR push_bit 6 c OR d"
  shows "b64_group final e f g h = Ok [ucast (drop_bit 16 w), ucast (drop_bit 8 w), ucast w]"
  using assms(1-6) by (simp add: b64_group_def Let_def w del: drop_bit_or push_bit_or)

lemma group_two:
  fixes a b c :: u32
  assumes "b64_value e = uint a" "b64_value f = uint b" "b64_value g = uint c" "g \<noteq> 61"
    and w: "w = push_bit 18 a OR push_bit 12 b OR push_bit 6 c"
  shows "b64_group final e f g 61 =
    (if final \<and> take_bit 2 c = 0 then Ok [ucast (drop_bit 16 w), ucast (drop_bit 8 w)] else Err)"
  using assms(1-4) by (auto simp: b64_group_def Let_def w uint_and_masks and_masks uint_0_iff
      simp del: drop_bit_or push_bit_or)

lemma group_one:
  fixes a b :: u32
  assumes "b64_value e = uint a" "b64_value f = uint b" and w: "w = push_bit 18 a OR push_bit 12 b"
  shows "b64_group final e f 61 61 =
    (if final \<and> take_bit 4 b = 0 then Ok [ucast (drop_bit 16 w)] else Err)"
  using assms(1-2) by (auto simp: b64_group_def Let_def w uint_and_masks and_masks uint_0_iff
      simp del: drop_bit_or push_bit_or)

lemma group_encode:
  assumes v: "v = push_bit 16 (ucast x) OR push_bit 8 (ucast y) OR ucast z"
  shows "b64_group final (sextet v 18) (sextet v 12) (sextet v 6) (sextet v 0) = Ok [x, y, z]"
proof -
  have "take_bit 24 v = v" unfolding v by (rule three_bytes_24)
  from sextets_join [OF this]
  have "b64_group final (sextet v 18) (sextet v 12) (sextet v 6) (sextet v 0) =
      Ok [ucast (drop_bit 16 v), ucast (drop_bit 8 v), ucast v]"
    using group_three [OF sextet_value(1) sextet_value(1) sextet_value(1) sextet_value(1)
        sextet_value(2) sextet_value(2) refl, of final v 18 v 12 v 6 v 0] by simp
  then show ?thesis using bytes_of_three [of x y z] v by simp
qed

lemma group_encode_two:
  assumes v: "v = push_bit 16 (ucast x) OR push_bit 8 (ucast y)"
  shows "b64_group True (sextet v 18) (sextet v 12) (sextet v 6) 61 = Ok [x, y]"
proof -
  have z: "take_bit 6 v = 0" "take_bit 2 (take_bit 6 (drop_bit 6 v)) = 0"
    unfolding v by (rule low_bits_zero)+
  have "take_bit 24 v = v" using three_bytes_24 [of x y 0] v by simp
  from sextets_join [OF this] z
  have "b64_group True (sextet v 18) (sextet v 12) (sextet v 6) 61 =
      Ok [ucast (drop_bit 16 v), ucast (drop_bit 8 v)]"
    by (subst group_two [OF sextet_value(1) sextet_value(1) sextet_value(1) sextet_value(2) refl]) simp
  then show ?thesis using bytes_of_three [of x y 0] v by simp
qed

lemma group_encode_one:
  assumes v: "v = push_bit 16 (ucast x)"
  shows "b64_group True (sextet v 18) (sextet v 12) 61 61 = Ok [x]"
proof -
  have z: "take_bit 6 v = 0" "take_bit 6 (drop_bit 6 v) = 0" "take_bit 4 (take_bit 6 (drop_bit 12 v)) = 0"
    using low_bits_zero(1) [of x 0] low_bits_zero(2,3) [of x] v by simp_all
  have "take_bit 24 v = v" using three_bytes_24 [of x 0 0] v by simp
  from sextets_join [OF this] z
  have "b64_group True (sextet v 18) (sextet v 12) 61 61 = Ok [ucast (drop_bit 16 v)]"
    by (subst group_one [OF sextet_value(1) sextet_value(1) refl]) simp
  then show ?thesis using bytes_of_three [of x 0 0] v by simp
qed

lemma decode_encode_loop:
  "length out + length bs = expected \<Longrightarrow>
     b64_decode_loop expected out (b64_encode_loop bs) = Ok (out @ bs)"
proof (induction bs arbitrary: out rule: b64_encode_loop.induct)
  case (4 x y z rest)
  have "b64_encode_loop rest = [] \<longleftrightarrow> rest = []" by (cases rest rule: b64_encode_loop.cases) (simp_all add: Let_def)
  then show ?case using 4 group_encode [OF refl, of _ x y z] by (simp add: Let_def)
qed (simp_all add: Let_def group_encode_one [OF refl] group_encode_two [OF refl])

lemma length_b64_encode_loop: "length (b64_encode_loop bs) = (length bs + 2) div 3 * 4"
proof (induction bs rule: b64_encode_loop.induct)
  case (4 x y z rest)
  have "(length (x # y # z # rest) + 2) div 3 = (length rest + 2) div 3 + 1" by simp
  then show ?case using 4 by (simp add: Let_def)
qed (simp_all add: Let_def)

text \<open>The other direction: a group that decodes is the encoding of its bytes.\<close>

lemma value_word:
  assumes "0 \<le> b64_value e"
  obtains a :: "6 word" where "b64_value e = uint (ucast a :: u32)" "b64_alphabet ! unat (ucast a :: u32) = e"
proof
  let ?a = "word_of_int (b64_value e) :: 6 word"
  from value_alphabet [OF assms] have lt: "b64_value e < 64" by simp
  then have u: "uint ?a = b64_value e" using assms
    by (simp add: uint_word_of_int_eq take_bit_int_eq_self)
  moreover have "take_bit 32 (b64_value e) = b64_value e"
    using lt assms by (simp add: take_bit_int_eq_self_iff)
  ultimately show "b64_value e = uint (ucast ?a :: u32)" by (simp add: unsigned_ucast_eq)
  have "unat (ucast ?a :: u32) = nat (b64_value e)"
    using \<open>b64_value e = uint (ucast ?a :: u32)\<close> by (metis nat_uint_eq)
  then show "b64_alphabet ! unat (ucast ?a :: u32) = e" using value_alphabet(2) [OF assms] by simp
qed

definition join4 :: "6 word \<Rightarrow> 6 word \<Rightarrow> 6 word \<Rightarrow> 6 word \<Rightarrow> u32" where
  "join4 a b c d = push_bit 18 (ucast a) OR push_bit 12 (ucast b) OR push_bit 6 (ucast c) OR ucast d"

lemma join4_padded:
  "join4 a b c 0 = push_bit 18 (ucast a) OR push_bit 12 (ucast b) OR push_bit 6 (ucast c)"
  "join4 a b 0 0 = push_bit 18 (ucast a) OR push_bit 12 (ucast b)"
  by (simp_all add: join4_def)

lemma sextets_split:
  "take_bit 6 (drop_bit 18 (join4 a b c d)) = ucast a" "take_bit 6 (drop_bit 12 (join4 a b c d)) = ucast b"
  "take_bit 6 (drop_bit 6 (join4 a b c d)) = ucast c" "take_bit 6 (join4 a b c d) = ucast d"
  unfolding join4_def by (rule bit_word_eqI; force simp: bit_simps dest: bit_imp_le_length)+

lemma bytes_join:
  fixes w :: u32
  assumes "take_bit 24 w = w"
  shows "push_bit 16 (ucast (ucast (drop_bit 16 w) :: u8)) OR
    push_bit 8 (ucast (ucast (drop_bit 8 w) :: u8)) OR ucast (ucast w :: u8) = w" (is "?l = w")
proof (rule bit_word_eqI)
  fix n
  assume n: "n < LENGTH(32)"
  have hi: "24 \<le> n \<Longrightarrow> \<not> bit w n" using arg_cong [OF assms, of "\<lambda>w. bit w n"] by (auto simp: bit_simps)
  consider "n < 8" | "8 \<le> n \<and> n < 16" | "16 \<le> n \<and> n < 24" | "24 \<le> n" by linarith
  then show "bit ?l n = bit w n" using hi n by cases (auto simp: bit_simps)
qed

lemma join4_24: "take_bit 24 (join4 a b c d) = join4 a b c d"
  unfolding join4_def by (rule bit_word_eqI; force simp: bit_simps dest: bit_imp_le_length)

lemma low_bits_of_join:
  "take_bit 2 (ucast c :: u32) = 0 \<Longrightarrow> (ucast (join4 a b c 0) :: u8) = 0"
  "take_bit 4 (ucast b :: u32) = 0 \<Longrightarrow> (ucast (drop_bit 8 (join4 a b 0 0)) :: u8) = 0"
  "(ucast (join4 a b 0 0) :: u8) = 0"
proof -
  have z: "\<not> bit v m" if "take_bit k (ucast v :: u32) = 0" "m < k" for v :: "6 word" and k m
  proof
    assume v: "bit v m"
    then have "m < 6" using bit_imp_le_length [OF v] by simp
    then have "bit (take_bit k (ucast v :: u32)) m" using v that(2) by (simp add: bit_simps)
    then show False using that(1) by simp
  qed
  show "(ucast (join4 a b c 0) :: u8) = 0" if "take_bit 2 (ucast c :: u32) = 0"
    by (rule bit_word_eqI) (use z [OF that] in \<open>auto simp: join4_def bit_simps\<close>)
  show "(ucast (drop_bit 8 (join4 a b 0 0)) :: u8) = 0" if "take_bit 4 (ucast b :: u32) = 0"
    by (rule bit_word_eqI) (use z [OF that] in \<open>auto simp: join4_def bit_simps\<close>)
  show "(ucast (join4 a b 0 0) :: u8) = 0"
    by (rule bit_word_eqI) (auto simp: join4_def bit_simps)
qed

lemma sextets_of_join:
  "sextet (join4 a b c d) 18 = b64_alphabet ! unat (ucast a :: u32)"
  "sextet (join4 a b c d) 12 = b64_alphabet ! unat (ucast b :: u32)"
  "sextet (join4 a b c d) 6 = b64_alphabet ! unat (ucast c :: u32)"
  "sextet (join4 a b c d) 0 = b64_alphabet ! unat (ucast d :: u32)"
  by (simp_all add: sextet_def and_masks sextets_split)

lemma value_range: "b64_value c = -1 \<or> 0 \<le> b64_value c"
  using uint_ge_0 [of c] by (auto simp: b64_value_def word_le_def)

lemma group_inverse:
  assumes ok: "b64_group final e f g h = Ok bs"
  shows "b64_encode_loop bs = [e, f, g, h] \<and> (length bs = 3 \<or> final \<and> 0 < length bs \<and> length bs < 3)"
proof -
  have nn: "0 \<le> b64_value e" "0 \<le> b64_value f"
    using ok by (auto simp: b64_group_def Let_def split: if_splits)
  from nn obtain a b :: "6 word" where
    a: "b64_value e = uint (ucast a :: u32)" "b64_alphabet ! unat (ucast a :: u32) = e" and
    b: "b64_value f = uint (ucast b :: u32)" "b64_alphabet ! unat (ucast b :: u32) = f"
    by (meson value_word)
  have vc: "g \<noteq> 61 \<Longrightarrow> 0 \<le> b64_value g" "h \<noteq> 61 \<Longrightarrow> 0 \<le> b64_value h" "g = 61 \<Longrightarrow> h = 61"
    using ok value_range [of g] value_range [of h]
    by (auto simp: b64_group_def Let_def split: if_splits)
  consider (three) "g \<noteq> 61" "h \<noteq> 61" | (two) "g \<noteq> 61" "h = 61" | (one) "g = 61" "h = 61"
    using vc(3) by blast
  then show ?thesis
  proof cases
    case three
    with vc obtain c d :: "6 word" where
      c: "b64_value g = uint (ucast c :: u32)" "b64_alphabet ! unat (ucast c :: u32) = g" and
      d: "b64_value h = uint (ucast d :: u32)" "b64_alphabet ! unat (ucast d :: u32) = h"
      by (meson value_word)
    from group_three [OF a(1) b(1) c(1) d(1) three join4_def, of final] ok
      bytes_join [OF join4_24, of a b c d]
    show ?thesis by (auto simp: Let_def sextets_of_join a b c d)
  next
    case two
    with vc obtain c :: "6 word" where
      c: "b64_value g = uint (ucast c :: u32)" "b64_alphabet ! unat (ucast c :: u32) = g"
      by (meson value_word)
    from group_two [OF a(1) b(1) c(1) two(1) join4_padded(1), of final] ok two
      bytes_join [OF join4_24, of a b c 0] low_bits_of_join(1) [of c a b]
    show ?thesis by (auto simp: Let_def sextets_of_join a b c split: if_splits)
  next
    case one
    from group_one [OF a(1) b(1) join4_padded(2), of final] ok one
      bytes_join [OF join4_24, of a b 0 0] low_bits_of_join(2) [of b a] low_bits_of_join(3) [of a b]
    show ?thesis by (auto simp: Let_def sextets_of_join a b split: if_splits)
  qed
qed

lemma encode_append: "length xs = 3 \<Longrightarrow> b64_encode_loop (xs @ ys) = b64_encode_loop xs @ b64_encode_loop ys"
proof -
  assume "length xs = 3"
  then obtain x y z where "xs = [x, y, z]" by (auto simp: eval_nat_numeral length_Suc_conv)
  then show ?thesis by (simp add: Let_def)
qed

lemma encode_decode_loop:
  "b64_decode_loop expected out text = Ok res \<Longrightarrow>
     \<exists>bs. res = out @ bs \<and> b64_encode_loop bs = text \<and> length res = expected"
proof (induction expected out "text" rule: b64_decode_loop.induct)
  case (2 expected out e f g h rest)
  from "2.prems" obtain bs where bs: "b64_group (rest = []) e f g h = Ok bs"
    "length out + length bs \<le> expected" "b64_decode_loop expected (out @ bs) rest = Ok res"
    by (auto simp: res_simps split: if_splits)
  from "2.IH" [of bs] bs(2,3) obtain cs where
    cs: "res = (out @ bs) @ cs" "b64_encode_loop cs = rest" "length res = expected" by auto
  note gi = group_inverse [OF bs(1)]
  have "b64_encode_loop (bs @ cs) = e # f # g # h # rest"
  proof (cases "length bs = 3")
    case True
    then show ?thesis using gi cs(2) by (simp add: encode_append)
  next
    case False
    then have "cs = []" using gi cs(2) by (cases cs rule: b64_encode_loop.cases) (auto simp: Let_def)
    then show ?thesis using gi False cs(2) by auto
  qed
  then show ?case using cs by (intro exI [of _ "bs @ cs"]) simp
qed (auto split: if_splits)

lemma b64_decode_iff:
  "b64_decode expected text = Ok bs \<longleftrightarrow> length bs = expected \<and> 0 < expected \<and> b64_encode_loop bs = text"
proof
  assume "b64_decode expected text = Ok bs"
  then have "b64_decode_loop expected [] text = Ok bs" "text \<noteq> []"
    by (auto simp: b64_decode_def split: if_splits)
  with encode_decode_loop [of expected "[]" "text" bs] show
    "length bs = expected \<and> 0 < expected \<and> b64_encode_loop bs = text" by (cases bs) auto
next
  assume a: "length bs = expected \<and> 0 < expected \<and> b64_encode_loop bs = text"
  then have "b64_decode_loop expected [] text = Ok bs" using decode_encode_loop [of "[]" bs expected] by simp
  moreover have "length text = (length bs + 2) div 3 * 4" using a length_b64_encode_loop [of bs] by simp
  moreover have "0 < (length bs + 2) div 3" using a by (simp add: div_greater_zero_iff)
  ultimately show "b64_decode expected text = Ok bs" using a by (auto simp: b64_decode_def)
qed

section \<open>Key files\<close>

definition PUB_PREFIX :: bytes where "PUB_PREFIX = lit ''CTUNNEL-EDDSA-BLAKE2B-PUBLIC-v1:''"
definition SEC_PREFIX :: bytes where "SEC_PREFIX = lit ''CTUNNEL-EDDSA-BLAKE2B-PRIVATE-v1:''"

text \<open>Permission bits are octal digits in the source: \<open>0600\<close> is 384, \<open>0644\<close> is 420, \<open>077\<close> is 63.\<close>

record key_file =
  f_regular :: bool
  f_mode :: u16
  f_content :: bytes

type_synonym fs = "bytes \<rightharpoonup> key_file"

text \<open>
  What the operating system decides about one write: whether the exclusive open of a new path is
  allowed, the process umask, how many bytes reach the file and whether closing succeeds.
\<close>

record write_env =
  we_open :: bool
  we_umask :: u16
  we_written :: nat
  we_close :: bool

definition key_text :: "bytes \<Rightarrow> bytes \<Rightarrow> bytes" where
  "key_text prefix key = prefix @ b64_encode_loop key"

definition write_key :: "write_env \<Rightarrow> fs \<Rightarrow> bytes \<Rightarrow> bytes \<Rightarrow> bytes \<Rightarrow> bool \<Rightarrow> bool \<times> fs" where
  "write_key e fs path prefix key private_file =
     (if length prefix \<ge> 256 then (False, fs)
      else case b64_encode (256 - length prefix) key of
        Ok text \<Rightarrow>
          let encoded = prefix @ text @ [10] in
          if \<not> we_open e \<or> fs path \<noteq> None then (False, fs)
          else
            let n = min (we_written e) (length encoded);
                mode = (if private_file then 384 else 420) AND NOT (we_umask e);
                fs' = fs(path \<mapsto> \<lparr>f_regular = True, f_mode = mode, f_content = take n encoded\<rparr>)
            in if n = length encoded \<and> we_close e then (True, fs') else (False, fs'(path := None))
      | _ \<Rightarrow> (False, fs))"

text \<open>The trailing newline, and a carriage return before it, are dropped.\<close>

definition strip_newline :: "bytes \<Rightarrow> bytes" where
  "strip_newline b =
     (if b \<noteq> [] \<and> last b = 10
      then let b' = butlast b in if b' \<noteq> [] \<and> last b' = 13 then butlast b' else b'
      else b)"

text \<open>
  \<open>fread\<close> asks for 511 bytes, so a file of 511 bytes or more is refused as truncated: the
  end-of-file flag is not set before a read hits the end.
\<close>

definition load_key :: "fs \<Rightarrow> bytes \<Rightarrow> bytes \<Rightarrow> nat \<Rightarrow> bool \<Rightarrow> bytes res" where
  "load_key fs path prefix expected private_file =
     (case fs path of
        None \<Rightarrow> Err
      | Some f \<Rightarrow>
          if \<not> f_regular f \<or> (private_file \<and> f_mode f AND 63 \<noteq> 0) then Err
          else if length (f_content f) \<ge> 511 then Err
          else
            let encoded = strip_newline (f_content f); n = length prefix in
            if length encoded > n \<and> take n encoded = prefix
            then b64_decode expected (drop n encoded) else Err)"

definition ct_load_public_key :: "fs \<Rightarrow> bytes \<Rightarrow> bytes res" where
  "ct_load_public_key fs path = load_key fs path PUB_PREFIX 32 False"

definition ct_load_private_key :: "fs \<Rightarrow> bytes \<Rightarrow> bytes res" where
  "ct_load_private_key fs path = load_key fs path SEC_PREFIX 64 True"

definition hex_digits :: bytes where "hex_digits = lit ''0123456789abcdef''"

definition hex_encode :: "bytes \<Rightarrow> bytes" where
  "hex_encode input = concat (map (\<lambda>b. [hex_digits ! unat (drop_bit 4 b), hex_digits ! unat (b AND 15)]) input)"

definition fingerprint_text :: "monocypher \<Rightarrow> bytes \<Rightarrow> bytes" where
  "fingerprint_text B key = lit ''BLAKE2b-256:'' @ hex_encode (blake2b B 32 key)"

definition ct_keygen_files ::
  "monocypher \<Rightarrow> bytes option \<Rightarrow> write_env \<Rightarrow> write_env \<Rightarrow> fs \<Rightarrow> bytes \<Rightarrow> bytes \<Rightarrow> nat \<Rightarrow>
     bytes option \<times> fs" where
  "ct_keygen_files B random e1 e2 fs private_path public_path fingerprint_size =
     (case ct_crypto_sign_keypair B random of
        Ok (public_key, private_key) \<Rightarrow>
          let (ok1, fs1) = write_key e1 fs private_path SEC_PREFIX private_key True in
          if \<not> ok1 then (None, fs1)
          else
            let (ok2, fs2) = write_key e2 fs1 public_path PUB_PREFIX public_key False in
            if \<not> ok2 then (None, fs2(private_path := None))
            else
              let text = fingerprint_text B public_key in
              if length text \<ge> fingerprint_size
              then (None, fs2(private_path := None, public_path := None))
              else (Some text, fs2)
      | _ \<Rightarrow> (None, fs))"

definition ct_fingerprint_file :: "monocypher \<Rightarrow> fs \<Rightarrow> bytes \<Rightarrow> nat \<Rightarrow> bytes res" where
  "ct_fingerprint_file B fs path output_size =
     andthen (ct_load_public_key fs path) (\<lambda>key.
       let text = fingerprint_text B key in
       if length text < output_size then Ok text else Err)"

section \<open>Properties\<close>

lemma sextet_printable: "sextet v n \<notin> {10, 13}"
proof -
  have "list_all (\<lambda>c. c \<notin> {10, 13}) b64_alphabet" by code_simp
  then show ?thesis
    using sextet_bound [of "drop_bit n v"] by (simp add: sextet_def and_masks list_all_iff)
qed

lemma last_encode: "bs \<noteq> [] \<Longrightarrow> last (b64_encode_loop bs) \<notin> {10, 13} \<and> b64_encode_loop bs \<noteq> []"
proof (induction bs rule: b64_encode_loop.induct)
  case (4 x y z rest)
  then show ?case
    using sextet_printable [of "push_bit 16 (ucast x) OR push_bit 8 (ucast y) OR ucast z" 0]
    by (cases "rest = []") (auto simp: Let_def)
qed (simp_all add: Let_def)

lemma strip_newline_iff:
  assumes "t \<noteq> []" "last t \<notin> {10, 13}"
  shows "strip_newline c = t \<longleftrightarrow> c \<in> {t, t @ [10], t @ [13, 10]}"
proof (cases c rule: rev_cases)
  case Nil
  then show ?thesis using assms by (auto simp: strip_newline_def)
next
  case (snoc d x)
  show ?thesis
  proof (cases d rule: rev_cases)
    case Nil
    then show ?thesis using snoc assms by (auto simp: strip_newline_def)
  next
    case (snoc e y)
    then have c: "c = e @ [y, x]" using \<open>c = d @ [x]\<close> by simp
    have "butlast (e @ [u, v]) = e @ [u]" for u v by (simp add: butlast_append)
    then have "strip_newline c = (if x = 10 then if y = 13 then e else e @ [y] else c)"
      by (simp add: strip_newline_def Let_def c)
    then show ?thesis using assms by (auto simp: c)
  qed
qed

lemma load_key_iff:
  assumes "length (key_text prefix key) < 509" "0 < n"
  shows "load_key fs path prefix n private_file = Ok key \<longleftrightarrow>
    length key = n \<and> (\<exists>f. fs path = Some f \<and> f_regular f \<and> \<not> (private_file \<and> f_mode f AND 63 \<noteq> 0) \<and>
      f_content f \<in> {key_text prefix key, key_text prefix key @ [10], key_text prefix key @ [13, 10]})"
proof (cases "fs path")
  case None
  then show ?thesis by (simp add: load_key_def)
next
  case (Some f)
  let ?t = "key_text prefix key"
  have "length key = n \<Longrightarrow> ?t \<noteq> [] \<and> last ?t \<notin> {10, 13}"
    using last_encode [of key] assms(2) by (auto simp: key_text_def)
  then have strip: "length key = n \<Longrightarrow>
      strip_newline (f_content f) = ?t \<longleftrightarrow> f_content f \<in> {?t, ?t @ [10], ?t @ [13, 10]}"
    by (simp add: strip_newline_iff)
  have short: "length key = n \<Longrightarrow> strip_newline (f_content f) = ?t \<Longrightarrow> length (f_content f) < 511"
    using assms(1) strip by auto
  let ?e = "strip_newline (f_content f)"
  have join: "take (length prefix) ?e = prefix \<Longrightarrow> ?e = prefix @ drop (length prefix) ?e"
    by (metis append_take_drop_id)
  have "(length ?e > length prefix \<and> take (length prefix) ?e = prefix \<and>
      b64_decode n (drop (length prefix) ?e) = Ok key) \<longleftrightarrow> length key = n \<and> ?e = ?t"
  proof
    assume "length ?e > length prefix \<and> take (length prefix) ?e = prefix \<and>
      b64_decode n (drop (length prefix) ?e) = Ok key"
    then show "length key = n \<and> ?e = ?t" using join by (simp add: b64_decode_iff key_text_def)
  next
    assume "length key = n \<and> ?e = ?t"
    then show "length ?e > length prefix \<and> take (length prefix) ?e = prefix \<and>
      b64_decode n (drop (length prefix) ?e) = Ok key"
      using assms(2) last_encode [of key] by (auto simp: b64_decode_iff key_text_def)
  qed
  moreover have "load_key fs path prefix n private_file = Ok key \<longleftrightarrow>
      f_regular f \<and> \<not> (private_file \<and> f_mode f AND 63 \<noteq> 0) \<and> length (f_content f) < 511 \<and>
      (length ?e > length prefix \<and> take (length prefix) ?e = prefix \<and>
       b64_decode n (drop (length prefix) ?e) = Ok key)"
    by (auto simp: load_key_def Some Let_def)
  ultimately have "load_key fs path prefix n private_file = Ok key \<longleftrightarrow> length key = n \<and>
      f_regular f \<and> \<not> (private_file \<and> f_mode f AND 63 \<noteq> 0) \<and> ?e = ?t"
    using short by blast
  then show ?thesis using strip by (cases "length key = n") (simp_all add: Some)
qed

text \<open>
  A key file is accepted exactly when it is a regular file (private to its owner, for a private
  key) whose content is the prefix followed by the canonical base64 text of the key, optionally ended
  by a newline or CR LF: no second text loads as the same key, so padding bits cannot be altered.
\<close>

theorem load_key_exact:
  assumes "length (key_text prefix key) < 509" "0 < n"
  shows "load_key fs path prefix n private_file = Ok key \<longleftrightarrow>
    length key = n \<and> (\<exists>f. fs path = Some f \<and> f_regular f \<and> \<not> (private_file \<and> f_mode f AND 63 \<noteq> 0) \<and>
      f_content f \<in> {key_text prefix key, key_text prefix key @ [10], key_text prefix key @ [13, 10]})"
  using assms by (rule load_key_iff)

definition pub_file :: key_file where
  "pub_file = \<lparr>f_regular = True, f_mode = 420,
     f_content = key_text PUB_PREFIX (replicate 32 7) @ [13, 10]\<rparr>"

theorem load_key_exact_witness:
  "load_key [lit ''k'' \<mapsto> pub_file] (lit ''k'') PUB_PREFIX 32 False = Ok (replicate 32 7)"
proof -
  have "length (key_text PUB_PREFIX (replicate 32 7)) < 509"
    by (simp add: key_text_def length_b64_encode_loop PUB_PREFIX_def)
  from load_key_exact [OF this, of 32] show ?thesis by (simp add: pub_file_def)
qed

lemma write_key_ok:
  assumes "write_key e fs path prefix key private_file = (True, fs')"
  shows "fs path = None \<and> (\<exists>f. fs' = fs(path \<mapsto> f) \<and> f_regular f \<and>
    f_content f = key_text prefix key @ [10] \<and> \<not> (private_file \<and> f_mode f AND 63 \<noteq> 0))"
proof -
  have "(384 AND NOT m) AND 63 = (0 :: u16)" for m :: u16
  proof -
    have "(384 AND NOT m) AND 63 = NOT m AND (384 AND 63 :: u16)" by (simp only: and.assoc and.commute and.left_commute)
    then show ?thesis by simp
  qed
  then show ?thesis using assms
    by (auto simp: write_key_def b64_encode_def key_text_def Let_def split: if_splits res.splits)
qed

lemma write_key_failed: "write_key e fs path prefix key private_file = (False, fs') \<Longrightarrow> fs' = fs"
  by (auto simp: write_key_def Let_def split: if_splits res.splits)

text \<open>
  Key generation is all or nothing: if it reports success, both files are new, load back as the
  two halves of the generated pair, no other file changed, and the printed fingerprint is the one
  computed later from the public file; if it fails at any point, the file system is as before.
\<close>

theorem keygen_files_atomic:
  assumes "eddsa_signs B"
    and run: "ct_keygen_files B (Some seed) e1 e2 fs private_path public_path fpsize = (r, fs')"
  shows "case r of
      None \<Rightarrow> fs' = fs
    | Some fp \<Rightarrow> ct_load_private_key fs' private_path = Ok (fst (eddsa_key_pair B seed)) \<and>
        ct_load_public_key fs' public_path = Ok (snd (eddsa_key_pair B seed)) \<and>
        ct_fingerprint_file B fs' public_path fpsize = Ok fp \<and>
        fs private_path = None \<and> fs public_path = None \<and>
        (\<forall>p. p = private_path \<or> p = public_path \<or> fs' p = fs p)"
proof -
  obtain sk pk where kp: "eddsa_key_pair B seed = (sk, pk)" by fastforce
  then have len: "length sk = 64" "length pk = 32" using assms(1) by (auto simp: eddsa_signs_def)
  obtain ok1 fs1 where w1: "write_key e1 fs private_path SEC_PREFIX sk True = (ok1, fs1)" by fastforce
  obtain ok2 fs2 where w2: "write_key e2 fs1 public_path PUB_PREFIX pk False = (ok2, fs2)" by fastforce
  note step = run [unfolded ct_keygen_files_def ct_crypto_sign_keypair_def ct_crypto_random_def]
  show ?thesis
  proof (cases "ok1 \<and> ok2")
    case False
    then show ?thesis
      using step kp w1 w2 write_key_failed [of e1 fs private_path SEC_PREFIX sk True fs1]
        write_key_failed [of e2 fs1 public_path PUB_PREFIX pk False fs2]
        write_key_ok [of e1 fs private_path SEC_PREFIX sk True fs1]
      by (auto split: if_splits)
  next
    case True
    then have w: "write_key e1 fs private_path SEC_PREFIX sk True = (True, fs1)"
      "write_key e2 fs1 public_path PUB_PREFIX pk False = (True, fs2)" using w1 w2 by simp_all
    from write_key_ok [OF w(1)] obtain f where f: "fs private_path = None" "fs1 = fs(private_path \<mapsto> f)"
      "f_regular f" "f_content f = key_text SEC_PREFIX sk @ [10]" "f_mode f AND 63 = 0" by blast
    from write_key_ok [OF w(2)] obtain g where g: "fs1 public_path = None" "fs2 = fs1(public_path \<mapsto> g)"
      "f_regular g" "f_content g = key_text PUB_PREFIX pk @ [10]" by blast
    have ne: "private_path \<noteq> public_path" using f(2) g(1) by auto
    have short: "length (key_text SEC_PREFIX sk) < 509" "length (key_text PUB_PREFIX pk) < 509"
      using len by (simp_all add: key_text_def length_b64_encode_loop SEC_PREFIX_def PUB_PREFIX_def)
    have "ct_load_private_key fs2 private_path = Ok sk" "ct_load_public_key fs2 public_path = Ok pk"
      using load_key_iff [OF short(1), of 64] load_key_iff [OF short(2), of 32] f g ne len
      by (simp_all add: ct_load_private_key_def ct_load_public_key_def)
    then show ?thesis
      using step kp w1 w2 True f(1,2) g(1,2) ne
      by (auto simp: ct_fingerprint_file_def Let_def fun_upd_twist split: if_splits)
  qed
qed

theorem keygen_files_atomic_witness:
  "ct_keygen_files toy_backend (Some [1, 2])
     \<lparr>we_open = True, we_umask = 18, we_written = 1000, we_close = True\<rparr>
     \<lparr>we_open = False, we_umask = 18, we_written = 1000, we_close = True\<rparr>
     Map.empty (lit ''a'') (lit ''b'') 100 = (None, Map.empty)"
proof -
  let ?r = "ct_keygen_files toy_backend (Some [1, 2])
     \<lparr>we_open = True, we_umask = 18, we_written = 1000, we_close = True\<rparr>
     \<lparr>we_open = False, we_umask = 18, we_written = 1000, we_close = True\<rparr>
     Map.empty (lit ''a'') (lit ''b'') 100"
  have "fst ?r = None"
    by (auto simp: ct_keygen_files_def ct_crypto_sign_keypair_def ct_crypto_random_def write_key_def
        Let_def split: prod.splits res.splits)
  moreover obtain r fs' where r: "?r = (r, fs')" by fastforce
  ultimately show ?thesis
    using keygen_files_atomic [OF toy_backend_laws(6) r] by simp
qed

end
