(* ===== verification/Socket.thy ===== *)
theory Socket
  imports Endpoint
begin

text \<open>
  Blocking transfers over non-blocking sockets and socket creation, from \<open>src/src/net/net.c\<close>. What
  the kernel answers to each system call is an input: a list of answers per direction, after whose
  end every call fails. A transfer loop consumes answers until it has moved all bytes or gives up.
\<close>

section \<open>Kernel answers\<close>

text \<open>
  A receive answer: bytes that arrived (the empty list is an orderly close), a refusal because
  nothing is there yet, or an error. After a refusal the code looks at the clock and polls:
  \<open>Recv_blocked waited ready\<close> gives the milliseconds since the start of the transfer and whether
  the poll reported readiness. A send answer says how many bytes the kernel can take.
\<close>

datatype recv_event = Got bytes | Recv_blocked nat bool | Recv_failed
datatype send_event = Takes nat | Send_blocked nat bool | Send_failed

record sock =
  sk_in :: "recv_event list"
  sk_room :: "send_event list"
  sk_out :: bytes

section \<open>Transfer loops\<close>

text \<open>At most \<open>INT_MAX\<close> bytes are moved per call, and never more than the kernel offers.\<close>

definition chunk :: "nat \<Rightarrow> nat" where
  "chunk n = (if n > 0x7fffffff then 0x7fffffff else n)"

fun sendall_loop :: "nat \<Rightarrow> send_event list \<Rightarrow> bytes \<Rightarrow> bytes \<Rightarrow> bool \<times> send_event list \<times> bytes" where
  "sendall_loop ms evs out p =
     (if p = [] then (True, evs, out)
      else case evs of
        [] \<Rightarrow> (False, [], out)
      | Takes m # rest \<Rightarrow>
          if m = 0 then (False, rest, out)
          else let z = min m (chunk (length p)) in
            sendall_loop ms rest (out @ take z p) (drop z p)
      | Send_blocked waited ready # rest \<Rightarrow>
          if waited \<ge> ms \<or> \<not> ready then (False, rest, out) else sendall_loop ms rest out p
      | Send_failed # rest \<Rightarrow> (False, rest, out))"

definition sendall :: "sock \<Rightarrow> bytes \<Rightarrow> nat \<Rightarrow> bool \<times> sock" where
  "sendall s p ms =
     (let (ok, evs, out) = sendall_loop ms (sk_room s) (sk_out s) p
      in (ok, s\<lparr>sk_room := evs, sk_out := out\<rparr>))"

text \<open>Bytes of an arrival beyond those asked for stay queued.\<close>

function recvall_loop :: "nat \<Rightarrow> recv_event list \<Rightarrow> bytes \<Rightarrow> nat \<Rightarrow> bytes option \<times> recv_event list" where
  "recvall_loop ms evs acc n =
     (if n = 0 then (Some acc, evs)
      else case evs of
        [] \<Rightarrow> (None, [])
      | Got bs # rest \<Rightarrow>
          if bs = [] then (None, rest)
          else let z = min (length bs) (chunk n) in
            recvall_loop ms (if z < length bs then Got (drop z bs) # rest else rest)
              (acc @ take z bs) (n - z)
      | Recv_blocked waited ready # rest \<Rightarrow>
          if waited \<ge> ms \<or> \<not> ready then (None, rest) else recvall_loop ms rest acc n
      | Recv_failed # rest \<Rightarrow> (None, rest))"
  by pat_completeness auto
termination
  by (relation "measure (\<lambda>(ms, evs, acc, n). n + length evs)") (auto simp: chunk_def)

declare sendall_loop.simps [simp del] recvall_loop.simps [simp del]

definition recvall :: "sock \<Rightarrow> nat \<Rightarrow> nat \<Rightarrow> bytes option \<times> sock" where
  "recvall s n ms =
     (let (r, evs) = recvall_loop ms (sk_in s) [] n in (r, s\<lparr>sk_in := evs\<rparr>))"

text \<open>The bytes the kernel will deliver, and streams that deliver without failing or timing out.\<close>

fun arrives :: "recv_event list \<Rightarrow> bytes" where
  "arrives [] = []"
| "arrives (Got bs # evs) = bs @ arrives evs"
| "arrives (Recv_blocked w r # evs) = arrives evs"
| "arrives (Recv_failed # evs) = arrives evs"

fun flowing :: "nat \<Rightarrow> recv_event list \<Rightarrow> bool" where
  "flowing ms [] = True"
| "flowing ms (Got bs # evs) = (bs \<noteq> [] \<and> flowing ms evs)"
| "flowing ms (Recv_blocked w r # evs) = (w < ms \<and> r \<and> flowing ms evs)"
| "flowing ms (Recv_failed # evs) = False"

lemma chunk_le: "chunk n \<le> n" "0 < n \<Longrightarrow> 0 < chunk n"
  by (simp_all add: chunk_def)

text \<open>The loops, one turn at a time.\<close>

lemma recvall_turn:
  "recvall_loop ms evs acc 0 = (Some acc, evs)"
  "n \<noteq> 0 \<Longrightarrow> recvall_loop ms [] acc n = (None, [])"
  "n \<noteq> 0 \<Longrightarrow> recvall_loop ms (Got [] # rest) acc n = (None, rest)"
  "n \<noteq> 0 \<Longrightarrow> b \<noteq> [] \<Longrightarrow> z = min (length b) (chunk n) \<Longrightarrow> recvall_loop ms (Got b # rest) acc n =
     recvall_loop ms (if z < length b then Got (drop z b) # rest else rest) (acc @ take z b) (n - z)"
  "n \<noteq> 0 \<Longrightarrow> recvall_loop ms (Recv_blocked w r # rest) acc n =
     (if w \<ge> ms \<or> \<not> r then (None, rest) else recvall_loop ms rest acc n)"
  "n \<noteq> 0 \<Longrightarrow> recvall_loop ms (Recv_failed # rest) acc n = (None, rest)"
  by (simp_all add: recvall_loop.simps [of ms evs] recvall_loop.simps [of ms "[]"]
      recvall_loop.simps [of ms "x # rest" for x] Let_def)

lemma sendall_turn:
  "sendall_loop ms evs out [] = (True, evs, out)"
  "p \<noteq> [] \<Longrightarrow> sendall_loop ms [] out p = (False, [], out)"
  "p \<noteq> [] \<Longrightarrow> sendall_loop ms (Takes 0 # rest) out p = (False, rest, out)"
  "p \<noteq> [] \<Longrightarrow> m \<noteq> 0 \<Longrightarrow> z = min m (chunk (length p)) \<Longrightarrow> sendall_loop ms (Takes m # rest) out p =
     sendall_loop ms rest (out @ take z p) (drop z p)"
  "p \<noteq> [] \<Longrightarrow> sendall_loop ms (Send_blocked w r # rest) out p =
     (if w \<ge> ms \<or> \<not> r then (False, rest, out) else sendall_loop ms rest out p)"
  "p \<noteq> [] \<Longrightarrow> sendall_loop ms (Send_failed # rest) out p = (False, rest, out)"
  by (simp_all add: sendall_loop.simps [of ms evs] sendall_loop.simps [of ms "[]"]
      sendall_loop.simps [of ms "x # rest" for x] Let_def)

text \<open>A turn that takes bytes: what is left to arrive.\<close>

definition requeue :: "nat \<Rightarrow> bytes \<Rightarrow> recv_event list \<Rightarrow> recv_event list" where
  "requeue z b rest = (if z < length b then Got (drop z b) # rest else rest)"

lemma requeue_arrives: "arrives (Got b # rest) = take z b @ arrives (requeue z b rest)"
  by (simp add: requeue_def)

lemma requeue_flowing: "flowing ms (Got b # rest) \<Longrightarrow> flowing ms (requeue z b rest)"
  by (simp add: requeue_def)

lemma recvall_loop_safe:
  "recvall_loop ms evs acc n = (Some bs, evs') \<Longrightarrow>
     \<exists>new. bs = acc @ new \<and> length new = n \<and> arrives evs = new @ arrives evs'"
proof (induction "n + length evs" arbitrary: evs acc n rule: less_induct)
  case less
  show ?case
  proof (cases "n = 0")
    case True
    then show ?thesis using less.prems by (simp add: recvall_turn)
  next
    case n: False
    then show ?thesis
    proof (cases evs rule: arrives.cases)
      case (2 b rest)
      with less.prems n have b: "b \<noteq> []" by (auto simp: recvall_turn)
      define z where "z = min (length b) (chunk n)"
      have z: "z \<le> n" "z \<le> length b" "0 < z" using chunk_le [of n] b n by (auto simp: z_def)
      have "recvall_loop ms (requeue z b rest) (acc @ take z b) (n - z) = (Some bs, evs')"
        using less.prems 2 n b recvall_turn(4) [OF n b z_def] by (simp add: requeue_def)
      moreover have "n - z + length (requeue z b rest) < n + length evs"
        using z 2 by (auto simp: requeue_def)
      ultimately obtain new where
        "bs = (acc @ take z b) @ new" "length new = n - z" "arrives (requeue z b rest) = new @ arrives evs'"
        using less.hyps by blast
      then show ?thesis using z 2 requeue_arrives [of b rest z]
        by (intro exI [of _ "take z b @ new"]) simp
    next
      case (3 w r rest)
      then show ?thesis using less n by (auto simp: recvall_turn split: if_splits)
    qed (use less.prems n in \<open>auto simp: recvall_turn\<close>)
  qed
qed

lemma recvall_loop_live:
  "flowing ms evs \<Longrightarrow> n \<le> length (arrives evs) \<Longrightarrow>
     \<exists>evs'. recvall_loop ms evs acc n = (Some (acc @ take n (arrives evs)), evs') \<and>
       arrives evs' = drop n (arrives evs) \<and> flowing ms evs'"
proof (induction "n + length evs" arbitrary: evs acc n rule: less_induct)
  case less
  show ?case
  proof (cases "n = 0")
    case True
    then show ?thesis using less.prems by (simp add: recvall_turn)
  next
    case n: False
    then show ?thesis
    proof (cases evs rule: arrives.cases)
      case (2 b rest)
      with less.prems have b: "b \<noteq> []" by simp
      define z where "z = min (length b) (chunk n)"
      have z: "z \<le> n" "z \<le> length b" "0 < z" using chunk_le [of n] b n by (auto simp: z_def)
      note arr = requeue_arrives [of b rest z]
      have "flowing ms (requeue z b rest)" "n - z \<le> length (arrives (requeue z b rest))"
        using less.prems 2 requeue_flowing [of ms b rest z] arg_cong [OF arr, of length] z by auto
      moreover have "n - z + length (requeue z b rest) < n + length evs"
        using z 2 by (auto simp: requeue_def)
      ultimately obtain evs' where
        "recvall_loop ms (requeue z b rest) (acc @ take z b) (n - z) =
           (Some ((acc @ take z b) @ take (n - z) (arrives (requeue z b rest))), evs')"
        "arrives evs' = drop (n - z) (arrives (requeue z b rest))" "flowing ms evs'"
        using less.hyps [of "n - z" "requeue z b rest" "acc @ take z b"] by blast
      then show ?thesis
        using 2 n b z arr recvall_turn(4) [OF n b z_def, of ms rest acc] by (simp add: requeue_def)
    next
      case (3 w r rest)
      then show ?thesis using less n by (auto simp: recvall_turn)
    qed (use less.prems n in \<open>auto simp: recvall_turn\<close>)
  qed
qed

lemma sendall_loop_prefix:
  "sendall_loop ms evs out p = (ok, evs', out') \<Longrightarrow>
     \<exists>n \<le> length p. out' = out @ take n p \<and> (ok \<longleftrightarrow> n = length p)"
proof (induction evs arbitrary: out p)
  case Nil
  then show ?case by (cases "p = []") (auto simp: sendall_turn)
next
  case (Cons e rest)
  show ?case
  proof (cases "p = []")
    case True
    then show ?thesis using Cons.prems by (auto simp: sendall_turn)
  next
    case p: False
    show ?thesis
    proof (cases e)
      case (Takes m)
      show ?thesis
      proof (cases "m = 0")
        case True
        then show ?thesis using Cons.prems Takes p by (auto simp: sendall_turn)
      next
        case m: False
        define z where "z = min m (chunk (length p))"
        have z: "z \<le> length p" using chunk_le [of "length p"] by (simp add: z_def)
        have "sendall_loop ms rest (out @ take z p) (drop z p) = (ok, evs', out')"
          using Cons.prems Takes sendall_turn(4) [OF p m z_def] by simp
        from Cons.IH [OF this] obtain n where
          "n \<le> length (drop z p)" "out' = (out @ take z p) @ take n (drop z p)"
          "ok \<longleftrightarrow> n = length (drop z p)" by blast
        then show ?thesis using z by (intro exI [of _ "z + n"]) (auto simp: take_add)
      qed
    next
      case (Send_blocked w r)
      then show ?thesis using Cons p by (auto simp: sendall_turn split: if_splits)
    next
      case Send_failed
      then show ?thesis using Cons.prems p by (auto simp: sendall_turn)
    qed
  qed
qed

lemma sendall_prefix:
  "sendall s p ms = (ok, s') \<Longrightarrow>
     \<exists>n \<le> length p. sk_out s' = sk_out s @ take n p \<and> (ok \<longleftrightarrow> n = length p)"
  using sendall_loop_prefix [of ms "sk_room s" "sk_out s" p]
  by (auto simp: sendall_def split: prod.splits)

lemma sendall_frame: "sendall s p ms = (ok, s') \<Longrightarrow> sk_in s' = sk_in s"
  by (auto simp: sendall_def split: prod.splits)

lemma sendall_ok: "sendall s p ms = (True, s') \<Longrightarrow> sk_out s' = sk_out s @ p"
  using sendall_prefix [of s p ms True s'] by auto

lemma sendall_okD: "sendall s p ms = (True, s') \<Longrightarrow> sk_out s' = sk_out s @ p \<and> sk_in s' = sk_in s"
  by (simp add: sendall_ok sendall_frame)

lemma sendall_takes:
  assumes "sk_room s = Takes m # room" "p \<noteq> []" "length p \<le> m" "length p \<le> 0x7fffffff"
  shows "sendall s p ms = (True, s\<lparr>sk_room := room, sk_out := sk_out s @ p\<rparr>)"
proof -
  have "m \<noteq> 0" using assms by (cases p) auto
  moreover have "length p = min m (chunk (length p))" using assms by (simp add: chunk_def)
  ultimately show ?thesis
    using sendall_turn(4) [OF assms(2), of m "length p" ms room "sk_out s"] assms(1)
    by (simp add: sendall_def sendall_turn)
qed

lemma recvall_safe:
  "recvall s n ms = (Some bs, s') \<Longrightarrow>
     length bs = n \<and> arrives (sk_in s) = bs @ arrives (sk_in s') \<and> sk_out s' = sk_out s \<and> sk_room s' = sk_room s"
  using recvall_loop_safe [of ms "sk_in s" "[]" n] by (auto simp: recvall_def split: prod.splits)

lemma recvall_live:
  "flowing ms (sk_in s) \<Longrightarrow> n \<le> length (arrives (sk_in s)) \<Longrightarrow>
     \<exists>s'. recvall s n ms = (Some (take n (arrives (sk_in s))), s') \<and>
       arrives (sk_in s') = drop n (arrives (sk_in s)) \<and> flowing ms (sk_in s')"
  using recvall_loop_live [of ms "sk_in s" n "[]"] by (auto simp: recvall_def)

section \<open>Creating sockets\<close>

text \<open>
  One address of \<open>getaddrinfo\<close>'s answer together with what the kernel says when a socket is tried
  on it: the new descriptor, if any, and the outcome of each later call.
\<close>

record candidate =
  ca_fd :: "int option"
  ca_nonblock :: bool
  ca_bind :: bool
  ca_listen :: bool
  ca_connect :: bool
  ca_would_block :: bool
  ca_wait :: bool
  ca_getsockopt :: bool
  ca_no_error :: bool

text \<open>
  The loop returns the chosen descriptor and the descriptors it closed on the way. \<open>fd\<close> is the
  local variable, which a failed \<open>socket\<close> call sets to the invalid descriptor.
\<close>

fun gai_loop :: "bool \<Rightarrow> candidate list \<Rightarrow> int list \<Rightarrow> int option \<times> int list" where
  "gai_loop passive [] closed = (None, closed)"
| "gai_loop passive (c # cs) closed =
     (case ca_fd c of
        None \<Rightarrow> gai_loop passive cs closed
      | Some fd \<Rightarrow>
          if \<not> ca_nonblock c then gai_loop passive cs (closed @ [fd])
          else if (if passive then ca_bind c \<and> ca_listen c
                   else (ca_connect c \<or> (ca_would_block c \<and> ca_wait c)) \<and> ca_getsockopt c \<and> ca_no_error c)
          then (Some fd, closed)
          else gai_loop passive cs (closed @ [fd]))"

text \<open>
  \<open>gai_sock\<close> in a build with \<open>CONFIG_FEATURE_TCP_KEEPALIVE_TUNING\<close>, as the symbol's default and all shipped
  configurations have it.
\<close>

definition gai_sock :: "bool \<Rightarrow> candidate list option \<Rightarrow> int option \<times> int list" where
  "gai_sock passive answers =
     (case answers of None \<Rightarrow> (None, []) | Some cs \<Rightarrow> gai_loop passive cs [])"

text \<open>
  The last lines of \<open>gai_sock\<close> in a build without \<open>CONFIG_FEATURE_TCP_KEEPALIVE_TUNING\<close>: the call that
  the \<open>if\<close> guards is not compiled, so the \<open>if\<close> guards \<open>return fd\<close>. When no candidate gave a socket the
  function reaches its end without a value, which its callers then read; only a failed \<open>getaddrinfo\<close>
  still returns the invalid descriptor.
\<close>

definition gai_sock_untuned :: "bool \<Rightarrow> candidate list option \<Rightarrow> (int option \<times> int list) res" where
  "gai_sock_untuned passive answers =
     (case answers of
        None \<Rightarrow> Ok (None, [])
      | Some cs \<Rightarrow> (case gai_loop passive cs [] of (None, closed) \<Rightarrow> Fault | (Some fd, closed) \<Rightarrow> Ok (Some fd, closed)))"

definition ct_net_listen :: "candidate list option \<Rightarrow> int option \<times> int list" where
  "ct_net_listen answers = gai_sock True answers"

definition ct_net_connect :: "candidate list option \<Rightarrow> int option \<times> int list" where
  "ct_net_connect answers = gai_sock False answers"

text \<open>\<open>answer\<close> is the descriptor \<open>accept\<close> returned; the second argument is \<open>ct_socket_nonblock\<close>.\<close>

definition ct_net_accept :: "int option \<Rightarrow> bool \<Rightarrow> int option \<times> int list" where
  "ct_net_accept answer nonblock =
     (case answer of None \<Rightarrow> (None, []) | Some f \<Rightarrow> if nonblock then (Some f, []) else (None, [f]))"

fun udp_bind_loop :: "candidate list \<Rightarrow> int list \<Rightarrow> int option \<times> int list" where
  "udp_bind_loop [] closed = (None, closed)"
| "udp_bind_loop (c # cs) closed =
     (case ca_fd c of
        None \<Rightarrow> udp_bind_loop cs closed
      | Some fd \<Rightarrow>
          if ca_nonblock c \<and> ca_bind c then (Some fd, closed) else udp_bind_loop cs (closed @ [fd]))"

definition ct_udp_bind :: "candidate list option \<Rightarrow> int option \<times> int list" where
  "ct_udp_bind answers =
     (case answers of None \<Rightarrow> (None, []) | Some cs \<Rightarrow> udp_bind_loop cs [])"

definition ct_udp_open :: "int option \<Rightarrow> bool \<Rightarrow> int option \<times> int list" where
  "ct_udp_open answer nonblock =
     (case answer of None \<Rightarrow> (None, []) | Some f \<Rightarrow> if nonblock then (Some f, []) else (None, [f]))"

text \<open>
  The two builds differ exactly when addresses were found and none of them gave a socket.
\<close>

lemma gai_sock_untuned_exact:
  "gai_sock_untuned passive answers =
     (if answers \<noteq> None \<and> fst (gai_sock passive answers) = None then Fault else Ok (gai_sock passive answers))"
  by (auto simp: gai_sock_untuned_def gai_sock_def split: option.splits prod.splits)

text \<open>The descriptors that were opened among the candidates actually tried.\<close>

fun opened_until :: "int option \<Rightarrow> candidate list \<Rightarrow> int list" where
  "opened_until r [] = []"
| "opened_until r (c # cs) =
     (case ca_fd c of
        None \<Rightarrow> opened_until r cs
      | Some fd \<Rightarrow> if r = Some fd then [fd] else fd # opened_until r cs)"

lemma gai_loop_accounts:
  "distinct (List.map_filter ca_fd cs) \<Longrightarrow> gai_loop passive cs closed = (r, closed') \<Longrightarrow>
     closed @ opened_until r cs = closed' @ (case r of None \<Rightarrow> [] | Some fd \<Rightarrow> [fd]) \<and>
     (\<forall>fd. r = Some fd \<longrightarrow> fd \<in> set (List.map_filter ca_fd cs))"
proof (induction cs arbitrary: closed)
  case (Cons c cs)
  then show ?case
    using Cons.IH [of closed] Cons.IH [of "closed @ [the (ca_fd c)]"]
    by (cases "ca_fd c"; cases r) (auto simp: List.map_filter_simps split: if_splits)
qed simp

lemma udp_bind_loop_accounts:
  "distinct (List.map_filter ca_fd cs) \<Longrightarrow> udp_bind_loop cs closed = (r, closed') \<Longrightarrow>
     closed @ opened_until r cs = closed' @ (case r of None \<Rightarrow> [] | Some fd \<Rightarrow> [fd]) \<and>
     (\<forall>fd. r = Some fd \<longrightarrow> fd \<in> set (List.map_filter ca_fd cs))"
proof (induction cs arbitrary: closed)
  case (Cons c cs)
  then show ?case
    using Cons.IH [of closed] Cons.IH [of "closed @ [the (ca_fd c)]"]
    by (cases "ca_fd c"; cases r) (auto simp: List.map_filter_simps split: if_splits)
qed simp

section \<open>Properties\<close>

text \<open>
  A blocking receive is exact: if it succeeds, it returns precisely the next \<open>n\<close> bytes of the
  stream and leaves the rest queued, however the kernel cut the stream into arrivals; and it does
  succeed whenever the bytes arrive without an error, a close or a wait beyond the time limit.
\<close>

theorem recvall_exact:
  "(recvall s n ms = (Some bs, s') \<longrightarrow>
      length bs = n \<and> arrives (sk_in s) = bs @ arrives (sk_in s') \<and> sk_out s' = sk_out s) \<and>
   (flowing ms (sk_in s) \<and> n \<le> length (arrives (sk_in s)) \<longrightarrow>
      (\<exists>t. recvall s n ms = (Some (take n (arrives (sk_in s))), t) \<and>
         arrives (sk_in t) = drop n (arrives (sk_in s)) \<and> flowing ms (sk_in t)))"
  using recvall_safe [of s n ms bs s'] recvall_live [of ms s n] by blast

theorem recvall_exact_witness:
  "\<exists>t. recvall \<lparr>sk_in = [Got [1, 2], Recv_blocked 3 True, Got [3, 4, 5]], sk_room = [], sk_out = []\<rparr>
     4 100 = (Some [1, 2, 3, 4], t) \<and> arrives (sk_in t) = [5]"
  using recvall_exact [of "\<lparr>sk_in = [Got [1, 2], Recv_blocked 3 True, Got [3, 4, 5]], sk_room = [],
      sk_out = []\<rparr>" 4 100] by auto

text \<open>
  A blocking send writes a prefix: the peer receives the first bytes of the message and nothing
  else, the call reports success exactly when that prefix is the whole message, and the receive side
  of the socket is untouched.
\<close>

theorem sendall_prefix_exact:
  assumes "sendall s p ms = (ok, s')"
  shows "\<exists>n \<le> length p. sk_out s' = sk_out s @ take n p \<and> (ok \<longleftrightarrow> n = length p) \<and> sk_in s' = sk_in s"
  using sendall_prefix [OF assms] sendall_frame [OF assms] by auto

theorem sendall_prefix_exact_witness:
  "\<exists>n \<le> length [1, 2, 3 :: u8]. sk_out (snd (sendall \<lparr>sk_in = [], sk_room = [Takes 2, Send_blocked 1 False],
      sk_out = [9]\<rparr> [1, 2, 3] 5)) = [9] @ take n [1, 2, 3]"
proof -
  obtain ok s' where r: "sendall \<lparr>sk_in = [], sk_room = [Takes 2, Send_blocked 1 False],
      sk_out = [9]\<rparr> [1, 2, 3] 5 = (ok, s')" by fastforce
  from sendall_prefix_exact [OF this] show ?thesis unfolding r snd_conv by auto
qed

text \<open>
  Opening a socket leaks no descriptor: of all descriptors the kernel handed out while a listening,
  connecting or UDP socket was set up, every one but the returned one has been closed, and the
  returned one is still open.
\<close>

theorem open_socket_no_leak:
  assumes "distinct (List.map_filter ca_fd cs)"
    and "f \<in> {ct_net_listen, ct_net_connect, ct_udp_bind}"
    and "f (Some cs) = (r, closed)"
  shows "opened_until r cs = closed @ (case r of None \<Rightarrow> [] | Some fd \<Rightarrow> [fd])"
  using assms gai_loop_accounts [of cs _ "[]" r closed] udp_bind_loop_accounts [of cs "[]" r closed]
  by (auto simp: ct_net_listen_def ct_net_connect_def ct_udp_bind_def gai_sock_def)

definition refused :: candidate where
  "refused = \<lparr>ca_fd = Some 5, ca_nonblock = True, ca_bind = False, ca_listen = False,
     ca_connect = False, ca_would_block = True, ca_wait = False, ca_getsockopt = True,
     ca_no_error = True\<rparr>"

theorem open_socket_no_leak_witness:
  "opened_until (Some 6) [refused, refused\<lparr>ca_fd := Some 6, ca_connect := True\<rparr>] = [5] @ [6]"
  using open_socket_no_leak [of "[refused, refused\<lparr>ca_fd := Some 6, ca_connect := True\<rparr>]"
      ct_net_connect "Some 6" "[5]"]
  by (simp add: ct_net_connect_def gai_sock_def refused_def List.map_filter_simps)

end
