(* ===== verification/Channel.thy ===== *)
theory Channel
  imports Socket Crypto Replay
begin

text \<open>
  Framed transport of \<open>src/src/net/net.c\<close>: plain frames, the readiness test on a queued frame, and
  the encrypted control channel with its sequence numbers. The theorems show that the control
  channel delivers messages in order and exactly once, that whatever is accepted is the one frame
  the peer's state allows next, and that no nonce is used twice.
\<close>

section \<open>The control state\<close>

record ct_control =
  cc_cipher :: u8
  cc_keys :: ct_session_keys
  cc_tx_seq :: u64
  cc_rx_seq :: u64
  cc_work_tx_seq :: u64
  cc_work_rx :: window
  cc_is_client :: bool
  cc_client_id :: bytes
  cc_last_rx_ms :: u64
  cc_last_tx_ms :: u64
  cc_read_retry_after_ms :: u64

section \<open>Plain frames\<close>

definition ct_plain_send ::
  "autoconf \<Rightarrow> sock \<Rightarrow> u8 \<Rightarrow> u64 \<Rightarrow> u64 \<Rightarrow> bytes \<Rightarrow> nat \<Rightarrow> bool \<times> sock" where
  "ct_plain_send k s type session stream p ms =
     (if length p > k_max_frame k then (False, s)
      else case ct_frame_header_encode k \<lparr>fh_type = type, fh_flags = 0, fh_payload_len = of_nat (length p),
             fh_session_id = session, fh_stream_id = stream, fh_sequence = 0\<rparr> of
        Ok b \<Rightarrow> (let (ok, s1) = sendall s b ms in if ok then sendall s1 p ms else (False, s1))
      | _ \<Rightarrow> (False, s))"

definition ct_plain_recv ::
  "autoconf \<Rightarrow> sock \<Rightarrow> nat \<Rightarrow> nat \<Rightarrow> (ct_frame_header \<times> bytes) res \<times> sock" where
  "ct_plain_recv k s cap ms =
     (case recvall s CT_FRAME_HEADER_SIZE ms of
        (None, s1) \<Rightarrow> (Err, s1)
      | (Some b, s1) \<Rightarrow>
          (case ct_frame_header_decode k b of
             Ok h \<Rightarrow>
               if unat (fh_payload_len h) > cap \<or> fh_flags h \<noteq> 0 then (Err, s1)
               else (case recvall s1 (unat (fh_payload_len h)) ms of
                  (None, s2) \<Rightarrow> (Err, s2)
                | (Some p, s2) \<Rightarrow> (Ok (h, p), s2))
           | Err \<Rightarrow> (Err, s1)
           | Fault \<Rightarrow> (Fault, s1)))"

section \<open>Frame readiness\<close>

datatype availability = Avail_error | Avail_wait | Avail_ready ct_frame_header

text \<open>
  \<open>peek\<close> is the answer of the peeking \<open>recv\<close> (\<open>Inl would_block\<close> for an error) and \<open>queued\<close>
  the answer of \<open>FIONREAD\<close>.
\<close>

definition ct_frame_available ::
  "autoconf \<Rightarrow> bool + bytes \<Rightarrow> nat option \<Rightarrow> nat \<Rightarrow> u8 \<Rightarrow> availability" where
  "ct_frame_available k peek queued max_payload expected_flags =
     (case peek of
        Inl would_block \<Rightarrow> if would_block then Avail_wait else Avail_error
      | Inr header \<Rightarrow>
          if header = [] then Avail_error
          else if length header < CT_FRAME_HEADER_SIZE then Avail_wait
          else (case ct_frame_header_decode k header of
             Ok h \<Rightarrow>
               if fh_flags h \<noteq> expected_flags \<or> unat (fh_payload_len h) > max_payload then Avail_error
               else (case queued of
                  None \<Rightarrow> Avail_error
                | Some q \<Rightarrow>
                    if q \<ge> CT_FRAME_HEADER_SIZE + unat (fh_payload_len h) then Avail_ready h
                    else Avail_wait)
           | _ \<Rightarrow> Avail_error))"

definition ct_plain_frame_available ::
  "autoconf \<Rightarrow> bool + bytes \<Rightarrow> nat option \<Rightarrow> nat \<Rightarrow> availability" where
  "ct_plain_frame_available k peek queued max_payload = ct_frame_available k peek queued max_payload 0"

section \<open>The encrypted control channel\<close>

text \<open>\<open>alloc\<close> says whether \<open>malloc\<close> succeeds and \<open>now\<close> is the clock after the transfer.\<close>

definition ct_control_send ::
  "monocypher \<Rightarrow> autoconf \<Rightarrow> bool \<Rightarrow> u64 \<Rightarrow> ct_control \<Rightarrow> sock \<Rightarrow> u8 \<Rightarrow> u64 \<Rightarrow> bytes \<Rightarrow> nat \<Rightarrow>
     bool \<times> ct_control \<times> sock" where
  "ct_control_send B k alloc now c s type stream p ms =
     (if cc_tx_seq c = uint64_max \<or> length p > k_max_frame k - 16 then (False, c, s)
      else
        let seq = cc_tx_seq c + 1;
            c1 = c\<lparr>cc_tx_seq := seq\<rparr>;
            h = \<lparr>fh_type = type, fh_flags = CT_FLAG_ENCRYPTED, fh_payload_len = of_nat (length p + 16),
                 fh_session_id = session_id (cc_keys c), fh_stream_id = stream, fh_sequence = seq\<rparr>;
            key = (if cc_is_client c then control_c2s (cc_keys c) else control_s2c (cc_keys c));
            nb = (if cc_is_client c then nonce_c2s (cc_keys c) else nonce_s2c (cc_keys c))
        in if \<not> alloc then (False, c1, s)
           else case ct_frame_header_encode k h of
             Ok head \<Rightarrow>
               (case ct_aead_encrypt B (cc_cipher c) key nb seq head p of
                  Ok box \<Rightarrow>
                    (let (ok, s1) = sendall s head ms in
                     if \<not> ok then (False, c1, s1)
                     else let (ok2, s2) = sendall s1 box ms in
                       if ok2 then (True, c1\<lparr>cc_last_tx_ms := now\<rparr>, s2) else (False, c1, s2))
                | _ \<Rightarrow> (False, c1, s))
           | _ \<Rightarrow> (False, c1, s))"

definition ct_control_recv ::
  "monocypher \<Rightarrow> autoconf \<Rightarrow> bool \<Rightarrow> u64 \<Rightarrow> ct_control \<Rightarrow> sock \<Rightarrow> nat \<Rightarrow> nat \<Rightarrow>
     (ct_frame_header \<times> bytes) res \<times> ct_control \<times> sock" where
  "ct_control_recv B k alloc now c s cap ms =
     (case recvall s CT_FRAME_HEADER_SIZE ms of
        (None, s1) \<Rightarrow> (Err, c, s1)
      | (Some head, s1) \<Rightarrow>
          (case ct_frame_header_decode k head of
             Ok h \<Rightarrow>
               if fh_flags h \<noteq> CT_FLAG_ENCRYPTED \<or> fh_session_id h \<noteq> session_id (cc_keys c) \<or>
                  cc_rx_seq c = uint64_max \<or> fh_sequence h \<noteq> cc_rx_seq c + 1 \<or>
                  unat (fh_payload_len h) < 16 \<or> unat (fh_payload_len h) > cap + 16
               then (Err, c, s1)
               else if \<not> alloc then (Err, c, s1)
               else (case recvall s1 (unat (fh_payload_len h)) ms of
                  (None, s2) \<Rightarrow> (Err, c, s2)
                | (Some box, s2) \<Rightarrow>
                    (let key = (if cc_is_client c then control_s2c (cc_keys c) else control_c2s (cc_keys c));
                         nb = (if cc_is_client c then nonce_s2c (cc_keys c) else nonce_c2s (cc_keys c))
                     in case ct_aead_decrypt B (cc_cipher c) key nb (fh_sequence h) head box of
                          Ok p \<Rightarrow> (Ok (h, p), c\<lparr>cc_rx_seq := fh_sequence h, cc_last_rx_ms := now\<rparr>, s2)
                        | e \<Rightarrow> (Err, c, s2)))
           | Err \<Rightarrow> (Err, c, s1)
           | Fault \<Rightarrow> (Fault, c, s1)))"

section \<open>Frames on the wire\<close>

text \<open>The header and the sealed frame that the sender's state determines for a message.\<close>

definition control_header :: "ct_control \<Rightarrow> u8 \<Rightarrow> u64 \<Rightarrow> nat \<Rightarrow> ct_frame_header" where
  "control_header c type stream n =
     \<lparr>fh_type = type, fh_flags = CT_FLAG_ENCRYPTED, fh_payload_len = of_nat (n + 16),
      fh_session_id = session_id (cc_keys c), fh_stream_id = stream, fh_sequence = cc_tx_seq c + 1\<rparr>"

definition tx_key :: "ct_control \<Rightarrow> bytes" where
  "tx_key c = (if cc_is_client c then control_c2s (cc_keys c) else control_s2c (cc_keys c))"

definition tx_base :: "ct_control \<Rightarrow> bytes" where
  "tx_base c = (if cc_is_client c then nonce_c2s (cc_keys c) else nonce_s2c (cc_keys c))"

definition control_frame :: "monocypher \<Rightarrow> autoconf \<Rightarrow> ct_control \<Rightarrow> u8 \<Rightarrow> u64 \<Rightarrow> bytes \<Rightarrow> bytes res" where
  "control_frame B k c type stream p =
     (let h = control_header c type stream (length p) in
      ensure (cc_tx_seq c \<noteq> uint64_max \<and> length p \<le> k_max_frame k - 16 \<and> header_ok k h) (
      andthen (ct_aead_encrypt B (cc_cipher c) (tx_key c) (tx_base c) (cc_tx_seq c + 1) (header_bytes h) p)
        (\<lambda>box. Ok (header_bytes h @ box))))"

text \<open>Two control states that face each other: the same session, opposite roles.\<close>

definition facing :: "ct_control \<Rightarrow> ct_control \<Rightarrow> bool" where
  "facing c d \<longleftrightarrow> cc_keys c = cc_keys d \<and> cc_cipher c = cc_cipher d \<and> cc_is_client c \<noteq> cc_is_client d"

lemma control_send_ok:
  assumes "ct_control_send B k alloc now c s type stream p ms = (True, c', s')"
  shows "\<exists>f. control_frame B k c type stream p = Ok f \<and> sk_out s' = sk_out s @ f \<and>
    c' = c\<lparr>cc_tx_seq := cc_tx_seq c + 1, cc_last_tx_ms := now\<rparr> \<and> sk_in s' = sk_in s"
  using assms
  by (auto simp: ct_control_send_def control_frame_def control_header_def tx_key_def tx_base_def Let_def
      header_encode_eq dest!: sendall_okD split: if_splits res.splits prod.splits)

lemma control_send_seq:
  assumes "ct_control_send B k alloc now c s type stream p ms = (ok, c', s')"
  shows "c' = c \<and> \<not> ok \<or> cc_tx_seq c \<noteq> uint64_max \<and> cc_tx_seq c' = cc_tx_seq c + 1 \<and>
    cc_keys c' = cc_keys c \<and> cc_is_client c' = cc_is_client c \<and> cc_rx_seq c' = cc_rx_seq c \<and>
    cc_cipher c' = cc_cipher c"
  using assms
  by (auto simp: ct_control_send_def Let_def split: if_splits res.splits prod.splits)

lemma next_seq: "q \<noteq> uint64_max \<Longrightarrow> unat (q + 1) = unat q + 1"
proof -
  assume q: "q \<noteq> uint64_max"
  have "unat q < 2 ^ 64" using unsigned_less [of q] by simp
  moreover have "unat q \<noteq> 2 ^ 64 - 1" using q by (auto simp: word_unat_eq_iff)
  ultimately show ?thesis by (simp add: unat_word_ariths)
qed

lemma payload_len_unat: "n \<le> 2 ^ 32 - 1 \<Longrightarrow> unat (of_nat n :: u32) = n"
  by (simp add: unat_of_nat take_bit_nat_eq_self)

lemma control_frame_parts:
  assumes "control_frame B k c type stream p = Ok f" "k_max_frame k \<le> 2 ^ 32 - 1" "16 \<le> k_max_frame k"
    and "aead_opens B" "aead_sizes B"
  obtains box where "f = header_bytes (control_header c type stream (length p)) @ box"
    "length box = length p + 16" "header_ok k (control_header c type stream (length p))"
    "unat (fh_payload_len (control_header c type stream (length p))) = length p + 16"
    "ct_aead_decrypt B (cc_cipher c) (tx_key c) (tx_base c) (cc_tx_seq c + 1)
       (header_bytes (control_header c type stream (length p))) box = Ok p"
    "cc_tx_seq c \<noteq> uint64_max"
proof -
  let ?h = "control_header c type stream (length p)"
  from assms(1) obtain box where box: "f = header_bytes ?h @ box" "header_ok k ?h"
    "length p \<le> k_max_frame k - 16" "cc_tx_seq c \<noteq> uint64_max"
    "ct_aead_encrypt B (cc_cipher c) (tx_key c) (tx_base c) (cc_tx_seq c + 1) (header_bytes ?h) p = Ok box"
    by (auto simp: control_frame_def Let_def res_simps)
  moreover have "unat (fh_payload_len ?h) = length p + 16"
    using payload_len_unat [of "length p + 16"] box(3) assms(2,3) by (simp add: control_header_def)
  ultimately show thesis using that decrypt_encrypt [OF assms(4,5) box(5)] by blast
qed

lemma control_recv_frame:
  assumes f: "control_frame B k c type stream p = Ok f"
    and k: "k_max_frame k \<le> 2 ^ 32 - 1" "16 \<le> k_max_frame k" and B: "aead_opens B" "aead_sizes B"
    and peers: "facing c d" "cc_rx_seq d = cc_tx_seq c"
    and wire: "flowing ms (sk_in s)" "arrives (sk_in s) = f @ rest" and cap: "length p \<le> cap"
  shows "\<exists>s'. ct_control_recv B k True now d s cap ms =
      (Ok (control_header c type stream (length p), p),
       d\<lparr>cc_rx_seq := cc_tx_seq c + 1, cc_last_rx_ms := now\<rparr>, s') \<and>
    flowing ms (sk_in s') \<and> arrives (sk_in s') = rest"
proof -
  let ?h = "control_header c type stream (length p)"
  obtain box where box: "f = header_bytes ?h @ box" "length box = length p + 16" "header_ok k ?h"
    "unat (fh_payload_len ?h) = length p + 16" "cc_tx_seq c \<noteq> uint64_max"
    "ct_aead_decrypt B (cc_cipher c) (tx_key c) (tx_base c) (cc_tx_seq c + 1) (header_bytes ?h) box = Ok p"
    using control_frame_parts [OF f k B] by metis
  from recvall_live [OF wire(1), of 36] wire(2) box obtain s1 where
    s1: "recvall s 36 ms = (Some (header_bytes ?h), s1)" "flowing ms (sk_in s1)"
      "arrives (sk_in s1) = box @ rest" by auto
  from recvall_live [OF s1(2), of "length p + 16"] s1(3) box obtain s2 where
    s2: "recvall s1 (length p + 16) ms = (Some box, s2)" "flowing ms (sk_in s2)"
      "arrives (sk_in s2) = rest" by auto
  have keys: "(if cc_is_client d then control_s2c (cc_keys d) else control_c2s (cc_keys d)) = tx_key c"
    "(if cc_is_client d then nonce_s2c (cc_keys d) else nonce_c2s (cc_keys d)) = tx_base c"
    using peers(1) by (auto simp: facing_def tx_key_def tx_base_def)
  have h: "fh_flags ?h = CT_FLAG_ENCRYPTED" "fh_session_id ?h = session_id (cc_keys d)"
    "fh_sequence ?h = cc_rx_seq d + 1" "cc_cipher d = cc_cipher c"
    using peers by (auto simp: control_header_def facing_def)
  show ?thesis unfolding ct_control_recv_def keys Let_def
    using s1 s2 box h peers(2) cap by (simp add: decode_header_bytes proto_defs)
qed

section \<open>Properties\<close>

type_synonym message = "u8 \<times> u64 \<times> bytes"

text \<open>Sending a list of messages, stopping at the first failure, and receiving \<open>n\<close> messages.\<close>

fun send_messages ::
  "monocypher \<Rightarrow> autoconf \<Rightarrow> u64 \<Rightarrow> nat \<Rightarrow> ct_control \<Rightarrow> sock \<Rightarrow> message list \<Rightarrow> bool \<times> ct_control \<times> sock" where
  "send_messages B k now ms c s [] = (True, c, s)"
| "send_messages B k now ms c s ((type, stream, p) # rest) =
     (case ct_control_send B k True now c s type stream p ms of
        (True, c1, s1) \<Rightarrow> send_messages B k now ms c1 s1 rest
      | (False, c1, s1) \<Rightarrow> (False, c1, s1))"

fun recv_messages ::
  "monocypher \<Rightarrow> autoconf \<Rightarrow> u64 \<Rightarrow> nat \<Rightarrow> nat \<Rightarrow> ct_control \<Rightarrow> sock \<Rightarrow> nat \<Rightarrow> message list" where
  "recv_messages B k now cap ms d s 0 = []"
| "recv_messages B k now cap ms d s (Suc n) =
     (case ct_control_recv B k True now d s cap ms of
        (Ok (h, p), d1, s1) \<Rightarrow> (fh_type h, fh_stream_id h, p) # recv_messages B k now cap ms d1 s1 n
      | _ \<Rightarrow> [])"

text \<open>
  C32: the control channel is a reliable FIFO: if a list of messages was sent successfully, then the
  facing peer, fed exactly those bytes in any fragmentation, receives the same types, stream numbers
  and payloads in the same order.
\<close>

theorem control_channel_fifo:
  assumes B: "aead_opens B" "aead_sizes B"
    and k: "k_max_frame k \<le> 2 ^ 32 - 1" "16 \<le> k_max_frame k"
    and peers: "facing c d" "cc_rx_seq d = cc_tx_seq c"
    and sent: "send_messages B k now ms c s msgs = (True, c', s')"
    and wire: "flowing ms' (sk_in t)" "sk_out s' = sk_out s @ arrives (sk_in t)"
    and cap: "\<forall>(type, stream, p) \<in> set msgs. length p \<le> cap"
  shows "recv_messages B k now' cap ms' d t (length msgs) = msgs"
proof -
  have "recv_messages B k now' cap ms' d t (length msgs) = msgs"
    if "flowing ms' (sk_in t)" "sk_out s' @ rest = sk_out s @ arrives (sk_in t)" for rest
    using sent peers cap that
  proof (induction msgs arbitrary: c d s t)
    case (Cons m msgs)
    obtain type stream p where m: "m = (type, stream, p)" by (cases m)
    from Cons.prems(1) m obtain c1 s1 where
      send: "ct_control_send B k True now c s type stream p ms = (True, c1, s1)"
        "send_messages B k now ms c1 s1 msgs = (True, c', s')"
      by (auto split: prod.splits bool.splits)
    from control_send_ok [OF send(1)] obtain f where
      f: "control_frame B k c type stream p = Ok f" "sk_out s1 = sk_out s @ f"
        "c1 = c\<lparr>cc_tx_seq := cc_tx_seq c + 1, cc_last_tx_ms := now\<rparr>" by blast
    have grows: "\<exists>more. sk_out s' = sk_out s1 @ more"
      using send(2)
    proof (induction msgs arbitrary: c1 s1)
      case (Cons x xs)
      then show ?case
        by (cases x) (fastforce split: prod.splits bool.splits dest!: control_send_ok)
    qed auto
    then obtain more where more: "sk_out s' = sk_out s1 @ more" ..
    then have arr: "arrives (sk_in t) = f @ (more @ rest)" using Cons.prems(6) f(2) by simp
    have "length p \<le> cap" using Cons.prems(4) m by simp
    from control_recv_frame [OF f(1) k B Cons.prems(2,3,5) arr this] obtain t1 where
      t1: "ct_control_recv B k True now' d t cap ms' = (Ok (control_header c type stream (length p), p),
         d\<lparr>cc_rx_seq := cc_tx_seq c + 1, cc_last_rx_ms := now'\<rparr>, t1)"
      "flowing ms' (sk_in t1)" "arrives (sk_in t1) = more @ rest" by blast
    have "recv_messages B k now' cap ms' (d\<lparr>cc_rx_seq := cc_tx_seq c + 1, cc_last_rx_ms := now'\<rparr>) t1
        (length msgs) = msgs"
      using Cons.IH [OF send(2), of "d\<lparr>cc_rx_seq := cc_tx_seq c + 1, cc_last_rx_ms := now'\<rparr>" t1]
        Cons.prems(2,3,4) f(3) t1(2,3) more by (simp add: facing_def)
    then show ?case using t1(1) m by (simp add: control_header_def)
  qed simp
  from this [of "[]"] wire show ?thesis by simp
qed

definition session_keys_zero :: ct_session_keys where
  "session_keys_zero = \<lparr>control_c2s = replicate 32 1, control_s2c = replicate 32 2, data_master = [],
     work_auth_key = replicate 32 3, stream_auth_key = replicate 32 4, nonce_c2s = replicate 16 5,
     nonce_s2c = replicate 16 6, session_id = 77\<rparr>"

definition client_control :: ct_control where
  "client_control = \<lparr>cc_cipher = 1, cc_keys = session_keys_zero, cc_tx_seq = 0, cc_rx_seq = 0,
     cc_work_tx_seq = 0, cc_work_rx = (0, 0), cc_is_client = True, cc_client_id = lit ''home'',
     cc_last_rx_ms = 0, cc_last_tx_ms = 0, cc_read_retry_after_ms = 0\<rparr>"

definition empty_sock :: sock where
  "empty_sock = \<lparr>sk_in = [], sk_room = [Takes 1000, Takes 1000, Takes 1000, Takes 1000], sk_out = []\<rparr>"

lemma toy_send:
  assumes "c\<lparr>cc_tx_seq := 0, cc_last_tx_ms := 0\<rparr> = client_control" "cc_tx_seq c < 100"
    "sk_room s = Takes 1000 # Takes 1000 # room" "ct_message_type_valid type" "length p \<le> 100" "p \<noteq> []"
  shows "\<exists>c' s'. ct_control_send toy_backend default_defconfig True 0 c s type stream p 5 = (True, c', s') \<and>
    c'\<lparr>cc_tx_seq := 0, cc_last_tx_ms := 0\<rparr> = client_control \<and> cc_tx_seq c' = cc_tx_seq c + 1 \<and> sk_room s' = room"
proof -
  let ?h = "control_header c type stream (length p)"
  have c: "cc_cipher c = 1" using arg_cong [OF assms(1), of cc_cipher] by (simp add: client_control_def)
  have "unat (fh_payload_len ?h) = length p + 16"
    using payload_len_unat [of "length p + 16"] assms(5) by (simp add: control_header_def)
  then have ok: "header_ok default_defconfig ?h"
    using assms(4,5) by (simp add: header_ok_def control_header_def default_defconfig_def)
  obtain box where box: "ct_aead_encrypt toy_backend 1 (tx_key c) (tx_base c) (cc_tx_seq c + 1)
      (header_bytes ?h) p = Ok box" "length box = length p + 16"
    using encrypt_ok [OF toy_backend_laws(2), of 1 p] assms(5)
    by (fastforce simp: ct_cipher_available_def enum_defs)
  have ne: "header_bytes ?h \<noteq> []" "box \<noteq> []" using box(2) by (auto simp: header_bytes_def)
  have send: "sendall s (header_bytes ?h) 5 = (True, s\<lparr>sk_room := Takes 1000 # room, sk_out := sk_out s @ header_bytes ?h\<rparr>)"
    using sendall_takes [OF assms(3) ne(1)] by simp
  have send2: "sendall t box 5 = (True, t\<lparr>sk_room := room, sk_out := sk_out t @ box\<rparr>)"
    if "sk_room t = Takes 1000 # room" for t
    using sendall_takes [OF that ne(2)] box(2) assms(5) by simp
  have "cc_tx_seq c \<noteq> uint64_max" using assms(2) by auto
  then show ?thesis
    using c ok box(1) send send2 assms(1,5)
    by (simp add: ct_control_send_def Let_def header_encode_eq control_header_def tx_key_def tx_base_def
        default_defconfig_def)
qed

theorem control_channel_fifo_witness:
  "\<exists>c' s'. send_messages toy_backend default_defconfig 0 5 client_control empty_sock
     [(30, 0, [1]), (31, 9, [4, 5])] = (True, c', s') \<and>
   recv_messages toy_backend default_defconfig 0 100 5 (client_control\<lparr>cc_is_client := False\<rparr>)
     \<lparr>sk_in = [Got (take 50 (sk_out s')), Got (drop 50 (sk_out s'))], sk_room = [], sk_out = []\<rparr> 2 =
     [(30, 0, [1]), (31, 9, [4, 5])]"
proof -
  from toy_send [of client_control empty_sock "[Takes 1000, Takes 1000]" 30 "[1]" 0] obtain c1 s1 where
    s1: "ct_control_send toy_backend default_defconfig True 0 client_control empty_sock 30 0 [1] 5 = (True, c1, s1)"
      "c1\<lparr>cc_tx_seq := 0, cc_last_tx_ms := 0\<rparr> = client_control" "cc_tx_seq c1 = 1"
      "sk_room s1 = [Takes 1000, Takes 1000]"
    by (auto simp: client_control_def empty_sock_def ct_message_type_valid_def)
  from toy_send [OF s1(2) _ s1(4), of 31 "[4, 5]" 9] s1(3) obtain c2 s2 where
    s2: "ct_control_send toy_backend default_defconfig True 0 c1 s1 31 9 [4, 5] 5 = (True, c2, s2)"
    by (auto simp: ct_message_type_valid_def)
  let ?t = "\<lparr>sk_in = [Got (take 50 (sk_out s2)), Got (drop 50 (sk_out s2))], sk_room = [], sk_out = []\<rparr>"
  have sent: "send_messages toy_backend default_defconfig 0 5 client_control empty_sock
     [(30, 0, [1]), (31, 9, [4, 5])] = (True, c2, s2)" using s1(1) s2 by simp
  obtain f g where "sk_out s2 = f @ g" "control_frame toy_backend default_defconfig client_control 30 0 [1] = Ok f"
      "control_frame toy_backend default_defconfig c1 31 9 [4, 5] = Ok g"
    using control_send_ok [OF s1(1)] control_send_ok [OF s2] by (auto simp: empty_sock_def)
  then have "50 < length (sk_out s2)"
    using control_frame_parts [OF _ _ _ toy_backend_laws(3,2)]
    by (auto simp: default_defconfig_def res_simps control_frame_def Let_def
        dest!: decrypt_encrypt [OF toy_backend_laws(3,2)])
  then have "flowing 5 (sk_in ?t)" by (cases "sk_out s2") auto
  then have "recv_messages toy_backend default_defconfig 0 100 5 (client_control\<lparr>cc_is_client := False\<rparr>) ?t
      (length [(30, 0, [1]), (31, 9, [4, 5])]) = [(30, 0, [1]), (31, 9, [4, 5])]"
    using control_channel_fifo [OF toy_backend_laws(3,2) _ _ _ _ sent, of
        "client_control\<lparr>cc_is_client := False\<rparr>" 5 ?t 100 0]
    by (simp add: facing_def client_control_def default_defconfig_def empty_sock_def)
  then show ?thesis using sent by (auto simp: eval_nat_numeral)
qed

text \<open>
  C33: whatever the control channel accepts is authentic, fresh and in sequence: an accepted frame
  consists of exactly the bytes the facing peer's state seals for that type, stream and payload as its
  next message, so a replayed, reordered, truncated or altered frame is refused; the receive counter
  moves by one and never wraps.
\<close>

theorem control_recv_authentic:
  assumes B: "aead_exact B" "aead_sizes B"
    and k: "k_max_frame k \<le> 2 ^ 32 - 1"
    and acc: "ct_control_recv B k alloc now d s cap ms = (Ok (h, p), d', s')"
    and peers: "facing c d" "cc_tx_seq c = cc_rx_seq d"
  shows "(\<exists>f. control_frame B k c (fh_type h) (fh_stream_id h) p = Ok f \<and>
      arrives (sk_in s) = f @ arrives (sk_in s')) \<and>
    length p \<le> cap \<and> unat (cc_rx_seq d') = unat (cc_rx_seq d) + 1 \<and> cc_keys d' = cc_keys d"
proof -
  let ?key = "if cc_is_client d then control_s2c (cc_keys d) else control_c2s (cc_keys d)"
  let ?nb = "if cc_is_client d then nonce_s2c (cc_keys d) else nonce_c2s (cc_keys d)"
  from acc obtain head s1 box where
    r: "recvall s 36 ms = (Some head, s1)" "recvall s1 (unat (fh_payload_len h)) ms = (Some box, s')"
    and dec: "ct_frame_header_decode k head = Ok h"
    and chk: "fh_flags h = CT_FLAG_ENCRYPTED" "fh_session_id h = session_id (cc_keys d)"
      "cc_rx_seq d \<noteq> uint64_max" "fh_sequence h = cc_rx_seq d + 1" "16 \<le> unat (fh_payload_len h)"
      "unat (fh_payload_len h) \<le> cap + 16"
    and opn: "ct_aead_decrypt B (cc_cipher d) ?key ?nb (fh_sequence h) head box = Ok p"
    and d': "d' = d\<lparr>cc_rx_seq := fh_sequence h, cc_last_rx_ms := now\<rparr>"
    by (auto simp: ct_control_recv_def proto_defs Let_def
        split: prod.splits option.splits res.splits if_split_asm)
  from recvall_safe [OF r(1)] recvall_safe [OF r(2)] have
    arr: "length head = 36" "length box = unat (fh_payload_len h)" "arrives (sk_in s) = head @ box @ arrives (sk_in s')"
    by auto
  from decode_header_inv [OF dec arr(1)] have hd: "header_ok k h" "head = header_bytes h" by auto
  have lt: "unat (fh_payload_len h) < 2 ^ 32" using unsigned_less [of "fh_payload_len h"] by simp
  have "aead_unlock B ?key (make_nonce ?nb (fh_sequence h)) head (take (length box - 16) box)
      (drop (length box - 16) box) = Some p"
    using opn by (auto simp: ct_aead_decrypt_def Let_def split: if_splits option.splits)
  then have lock: "aead_lock B ?key (make_nonce ?nb (fh_sequence h)) head p =
      (take (length box - 16) box, drop (length box - 16) box)"
    using B(1) arr(2) chk(5) by (simp add: aead_exact_def)
  then have len: "length box = length p + 16" using B(2) arr(2) chk(5) by (force simp: aead_sizes_def)
  have enc: "ct_aead_encrypt B (cc_cipher c) (tx_key c) (tx_base c) (cc_tx_seq c + 1) (header_bytes h) p = Ok box"
    using encrypt_decrypt [OF B(1) opn] lt len arr(2) peers chk(4) hd(2)
    by (simp add: facing_def tx_key_def tx_base_def split: if_splits)
  have "of_nat (unat (fh_payload_len h)) = fh_payload_len h" by simp
  then have pl: "fh_payload_len h = of_nat (length p + 16)" using arr(2) len by simp
  have "h = control_header c (fh_type h) (fh_stream_id h) (length p)"
    using chk peers pl by (cases h) (simp add: control_header_def facing_def)
  then have "control_frame B k c (fh_type h) (fh_stream_id h) p = Ok (head @ box)"
    using enc hd peers(2) chk(3) len arr(2)
    by (auto simp: control_frame_def Let_def header_ok_def ensure_def)
  moreover have "unat (cc_rx_seq d + 1) = unat (cc_rx_seq d) + 1"
    using chk(3) by (rule next_seq)
  ultimately show ?thesis using arr len chk(4,6) d' by (auto intro: exI [of _ "head @ box"])
qed

theorem control_recv_authentic_witness:
  "\<exists>f. control_frame toy_backend default_defconfig client_control 30 0 [1] = Ok f \<and>
     (\<exists>h p d' s'. ct_control_recv toy_backend default_defconfig True 0 (client_control\<lparr>cc_is_client := False\<rparr>)
        \<lparr>sk_in = [Got f], sk_room = [], sk_out = []\<rparr> 100 5 = (Ok (h, p), d', s') \<and>
        unat (cc_rx_seq d') = 1)"
proof -
  from toy_send [of client_control empty_sock "[Takes 1000, Takes 1000]" 30 "[1]" 0] obtain c1 s1 where
    "ct_control_send toy_backend default_defconfig True 0 client_control empty_sock 30 0 [1] 5 = (True, c1, s1)"
    by (auto simp: client_control_def empty_sock_def ct_message_type_valid_def)
  from control_send_ok [OF this] obtain f where
    f: "control_frame toy_backend default_defconfig client_control 30 0 [1] = Ok f" by blast
  have k: "k_max_frame default_defconfig \<le> 2 ^ 32 - 1" "16 \<le> k_max_frame default_defconfig"
    by (simp_all add: default_defconfig_def)
  have "f \<noteq> []" using f by (auto simp: control_frame_def Let_def res_simps header_bytes_def)
  then have flow: "flowing 5 [Got f]" by simp
  have face: "facing client_control (client_control\<lparr>cc_is_client := False\<rparr>)"
    by (simp add: facing_def client_control_def)
  from control_recv_frame [OF f k toy_backend_laws(3,2) face, of 5 "\<lparr>sk_in = [Got f], sk_room = [], sk_out = []\<rparr>"
      "[]" 100 0] flow
  obtain s' where acc: "ct_control_recv toy_backend default_defconfig True 0 (client_control\<lparr>cc_is_client := False\<rparr>)
      \<lparr>sk_in = [Got f], sk_room = [], sk_out = []\<rparr> 100 5 =
      (Ok (control_header client_control 30 0 1, [1]),
       client_control\<lparr>cc_is_client := False, cc_rx_seq := 1, cc_last_rx_ms := 0\<rparr>, s')"
    by (auto simp: client_control_def)
  from control_recv_authentic [OF toy_backend_laws(4,2) k(1) acc face] f acc show ?thesis
    by (auto simp: client_control_def)
qed

text \<open>One attempt to send: what the environment does and the message.\<close>

type_synonym attempt = "bool \<times> u64 \<times> u8 \<times> u64 \<times> bytes \<times> nat"

text \<open>
  Which nonce an attempt hands to the cipher is observed at the cipher: \<open>telling B\<close> is \<open>B\<close> with a cipher that
  returns the nonce it is called with as its box. The attempt is made with it, from the same state, on a
  socket that takes everything; what is written behind the 36 bytes of the header is that nonce, and
  nothing is written when the cipher is not reached.
\<close>

definition telling :: "monocypher \<Rightarrow> monocypher" where
  "telling B = B\<lparr>aead_lock := \<lambda>key nonce ad p. (nonce, [])\<rparr>"

definition probe :: sock where
  "probe = \<lparr>sk_in = [], sk_room = [Takes 36, Takes 24], sk_out = []\<rparr>"

definition sealed_with :: "monocypher \<Rightarrow> autoconf \<Rightarrow> ct_control \<Rightarrow> attempt \<Rightarrow> bytes list" where
  "sealed_with B k c = (\<lambda>(alloc, now, type, stream, p, ms).
     let out = sk_out (snd (snd (ct_control_send (telling B) k alloc now c probe type stream p ms)))
     in if out = [] then [] else [drop 36 out])"

text \<open>The nonces of a run of attempts, failed ones included.\<close>

fun attempt_nonces :: "monocypher \<Rightarrow> autoconf \<Rightarrow> ct_control \<Rightarrow> sock \<Rightarrow> attempt list \<Rightarrow> bytes list" where
  "attempt_nonces B k c s [] = []"
| "attempt_nonces B k c s ((alloc, now, type, stream, p, ms) # rest) =
     (let (ok, c', s') = ct_control_send B k alloc now c s type stream p ms in
      sealed_with B k c (alloc, now, type, stream, p, ms) @ attempt_nonces B k c' s' rest)"

text \<open>An attempt that reaches the cipher has advanced the counter, and uses its new value.\<close>

definition seals :: "autoconf \<Rightarrow> ct_control \<Rightarrow> attempt \<Rightarrow> bool" where
  "seals k c = (\<lambda>(alloc, now, type, stream, p, ms). cc_tx_seq c \<noteq> uint64_max \<and> length p \<le> k_max_frame k - 16 \<and> alloc \<and>
     header_ok k (control_header c type stream (length p)) \<and> ct_cipher_available (cc_cipher c) \<and> length p \<le> 2 ^ 64 - 1 - 16)"

lemma sealed_with_eq:
  assumes "length (tx_base c) = 16"
  shows "sealed_with B k c a = (if seals k c a then [make_nonce (tx_base c) (cc_tx_seq c + 1)] else [])"
proof -
  obtain alloc now type stream p ms where a: "a = (alloc, now, type, stream, p, ms)" by (cases a)
  let ?n = "make_nonce (tx_base c) (cc_tx_seq c + 1)" and ?h = "control_header c type stream (length p)"
  have n: "length ?n = 24" "?n \<noteq> []" using assms by (auto simp: make_nonce_def)
  have box: "ct_aead_encrypt (telling B) (cc_cipher c) (tx_key c) (tx_base c) (cc_tx_seq c + 1) ad p =
      (if ct_cipher_available (cc_cipher c) \<and> length p \<le> 2 ^ 64 - 1 - 16 then Ok ?n else Err)" for ad
    by (auto simp: ct_aead_encrypt_def telling_def)
  have head: "length (header_bytes ?h) = 36" "header_bytes ?h \<noteq> []" by (simp_all add: header_bytes_def)
  let ?s1 = "probe\<lparr>sk_room := [Takes 24], sk_out := header_bytes ?h\<rparr>"
  have 1: "sendall probe (header_bytes ?h) ms = (True, ?s1)" using sendall_takes [of probe 36 "[Takes 24]" "header_bytes ?h" ms] head by (simp add: probe_def)
  have 2: "sendall ?s1 ?n ms = (True, ?s1\<lparr>sk_room := [], sk_out := header_bytes ?h @ ?n\<rparr>)"
    using sendall_takes [of ?s1 24 "[]" ?n ms] n by simp
  have "ct_control_send (telling B) k alloc now c probe type stream p ms =
      (if seals k c a then (True, c\<lparr>cc_tx_seq := cc_tx_seq c + 1, cc_last_tx_ms := now\<rparr>, ?s1\<lparr>sk_room := [], sk_out := header_bytes ?h @ ?n\<rparr>)
       else (False, if cc_tx_seq c = uint64_max \<or> length p > k_max_frame k - 16 then c else c\<lparr>cc_tx_seq := cc_tx_seq c + 1\<rparr>, probe))"
    using box [of "header_bytes ?h"] 1 2
    by (auto simp: ct_control_send_def Let_def header_encode_eq control_header_def tx_key_def tx_base_def seals_def a)
  then show ?thesis using head by (simp add: sealed_with_def a) (simp add: probe_def)
qed

lemma sealed_with_next:
  assumes "length (tx_base c) = 16" "ct_control_send B k alloc now c s type stream p ms = (ok, c', s')"
  shows "sealed_with B k c (alloc, now, type, stream, p, ms) = [] \<or>
    sealed_with B k c (alloc, now, type, stream, p, ms) = [make_nonce (tx_base c) (cc_tx_seq c + 1)] \<and> cc_tx_seq c \<noteq> uint64_max \<and>
    cc_tx_seq c' = cc_tx_seq c + 1"
proof -
  have "cc_tx_seq c' = cc_tx_seq c + 1" if "seals k c (alloc, now, type, stream, p, ms)"
    using assms(2) that by (auto simp: seals_def ct_control_send_def Let_def split: if_splits res.splits prod.splits)
  then show ?thesis by (auto simp: sealed_with_eq [OF assms(1)] seals_def)
qed

lemma attempt_nonces_above:
  assumes "length (tx_base c) = 16"
  shows "distinct (attempt_nonces B k c s as) \<and>
    (\<forall>n \<in> set (attempt_nonces B k c s as). \<exists>q. n = make_nonce (tx_base c) q \<and> cc_tx_seq c < q)"
  using assms
proof (induction as arbitrary: c s)
  case (Cons a as)
  obtain alloc now type stream p ms where a: "a = (alloc, now, type, stream, p, ms)" by (cases a)
  obtain ok c' s' where run: "ct_control_send B k alloc now c s type stream p ms = (ok, c', s')"
    by (metis prod_cases3)
  have base: "tx_base c' = tx_base c" "cc_tx_seq c' = cc_tx_seq c \<or> cc_tx_seq c \<noteq> uint64_max \<and> cc_tx_seq c' = cc_tx_seq c + 1"
    using control_send_seq [OF run] by (auto simp: tx_base_def)
  then have le: "cc_tx_seq c \<le> cc_tx_seq c'" by (auto simp: word_le_nat_alt next_seq)
  have ih: "distinct (attempt_nonces B k c' s' as)"
    "\<forall>n \<in> set (attempt_nonces B k c' s' as). \<exists>q. n = make_nonce (tx_base c) q \<and> cc_tx_seq c' < q"
    using Cons.IH [of c' s'] Cons.prems base(1) by simp_all
  from sealed_with_next [OF Cons.prems run] show ?case
  proof
    assume none: "sealed_with B k c (alloc, now, type, stream, p, ms) = []"
    have "\<forall>n \<in> set (attempt_nonces B k c' s' as). \<exists>q. n = make_nonce (tx_base c) q \<and> cc_tx_seq c < q"
      using ih(2) le by (meson order_le_less_trans)
    then show ?thesis using ih(1) none by (simp add: a run)
  next
    assume one: "sealed_with B k c (alloc, now, type, stream, p, ms) = [make_nonce (tx_base c) (cc_tx_seq c + 1)] \<and>
      cc_tx_seq c \<noteq> uint64_max \<and> cc_tx_seq c' = cc_tx_seq c + 1"
    then have lt: "cc_tx_seq c < cc_tx_seq c'" by (simp add: word_less_nat_alt next_seq)
    have inj: "make_nonce (tx_base c) q = make_nonce (tx_base c) r \<Longrightarrow> q = r" for q r
      by (simp add: make_nonce_def)
    have "make_nonce (tx_base c) (cc_tx_seq c') \<notin> set (attempt_nonces B k c' s' as)"
      using ih(2) inj by fastforce
    moreover have "\<forall>n \<in> set (attempt_nonces B k c' s' as). \<exists>q. n = make_nonce (tx_base c) q \<and> cc_tx_seq c < q"
      using ih(2) lt by (meson less_trans)
    ultimately show ?thesis using ih(1) one lt by (auto simp: a run)
  qed
qed simp

text \<open>
  C34: no nonce is ever reused: over any run of attempts to send on a control connection, whether they
  succeed, fail to allocate, are refused by the kernel or stop half-way, the nonces the cipher is
  called with are pairwise different; the counter stops at its maximum instead of wrapping.
\<close>

theorem control_nonces_distinct:
  assumes "length (tx_base c) = 16"
  shows "distinct (attempt_nonces B k c s attempts)"
  using attempt_nonces_above [OF assms] by blast

theorem control_nonces_distinct_witness:
  "\<exists>m n. attempt_nonces toy_backend default_defconfig client_control empty_sock
     [(True, 0, 30, 0, [1], 5), (False, 0, 30, 0, [1], 5), (True, 0, 31, 0, [2], 5)] = [m, n] \<and> m \<noteq> n"
proof -
  let ?as = "[(True, 0, 30, 0, [1], 5), (False, 0, 30, 0, [1], 5), (True, 0, 31, 0, [2], 5)] :: attempt list"
  have base: "length (tx_base c) = 16" if "cc_keys c = session_keys_zero" for c using that by (simp add: tx_base_def session_keys_zero_def)
  have next_ctl: "cc_keys c' = cc_keys c \<and> cc_cipher c' = cc_cipher c \<and> (cc_tx_seq c' = cc_tx_seq c \<or> cc_tx_seq c' = cc_tx_seq c + 1)"
    if "ct_control_send toy_backend default_defconfig alloc now c s type stream p ms = (ok, c', s')" for alloc now c s type stream p ms ok c' s'
    using control_send_seq [OF that] by auto
  have reached: "seals default_defconfig c (True, now, type, stream, [b], ms)"
    if "cc_cipher c = 1" "cc_tx_seq c \<in> {0, 1, 2}" "type \<in> {30, 31}" for c now type stream b ms
    using that payload_len_unat [of 17]
    by (auto simp: seals_def header_ok_def control_header_def default_defconfig_def ct_cipher_available_def ct_message_type_valid_def enum_defs)
  have refused: "\<not> seals default_defconfig c (False, now, type, stream, p, ms)" for c now type stream p ms by (simp add: seals_def)
  obtain ok1 c1 s1 where 1: "ct_control_send toy_backend default_defconfig True 0 client_control empty_sock 30 0 [1] 5 = (ok1, c1, s1)" by (metis prod_cases3)
  obtain ok2 c2 s2 where 2: "ct_control_send toy_backend default_defconfig False 0 c1 s1 30 0 [1] 5 = (ok2, c2, s2)" by (metis prod_cases3)
  obtain ok3 c3 s3 where 3: "ct_control_send toy_backend default_defconfig True 0 c2 s2 31 0 [2] 5 = (ok3, c3, s3)" by (metis prod_cases3)
  note n = next_ctl [OF 1] next_ctl [OF 2]
  have keys: "cc_keys client_control = session_keys_zero" "cc_keys c1 = session_keys_zero" "cc_keys c2 = session_keys_zero"
    and seq: "cc_cipher client_control = 1" "cc_tx_seq client_control \<in> {0, 1, 2}" "cc_cipher c2 = 1" "cc_tx_seq c2 \<in> {0, 1, 2}"
    using n by (auto simp: client_control_def)
  have "sealed_with toy_backend default_defconfig client_control (True, 0, 30, 0, [1], 5) \<noteq> []"
    "sealed_with toy_backend default_defconfig c1 (False, 0, 30, 0, [1], 5) = []"
    "sealed_with toy_backend default_defconfig c2 (True, 0, 31, 0, [2], 5) \<noteq> []"
    using reached [OF seq(1,2)] reached [OF seq(3,4)] refused by (simp_all add: sealed_with_eq [OF base [OF keys(1)]] sealed_with_eq [OF base [OF keys(2)]]
        sealed_with_eq [OF base [OF keys(3)]])
  moreover have "sealed_with toy_backend default_defconfig c a = [] \<or> (\<exists>m. sealed_with toy_backend default_defconfig c a = [m])" for c a
    by (simp add: sealed_with_def Let_def split: prod.split)
  ultimately have "\<exists>m n. attempt_nonces toy_backend default_defconfig client_control empty_sock ?as = [m, n]"
    by (simp add: 1 2 3) (metis append_Cons append_Nil)
  then show ?thesis using control_nonces_distinct [OF base [OF keys(1)], of toy_backend default_defconfig empty_sock ?as] by auto
qed

lemma plain_send_ok:
  assumes "ct_plain_send k s type session stream p ms = (True, s')" "k_max_frame k \<le> 2 ^ 32 - 1"
  shows "sk_out s' = sk_out s @ header_bytes \<lparr>fh_type = type, fh_flags = 0, fh_payload_len = of_nat (length p),
      fh_session_id = session, fh_stream_id = stream, fh_sequence = 0\<rparr> @ p \<and> sk_in s' = sk_in s \<and>
    ct_message_type_valid type \<and> length p \<le> k_max_frame k"
  using assms payload_len_unat [of "length p"]
  by (auto simp: ct_plain_send_def Let_def header_encode_eq header_ok_def dest!: sendall_okD
      split: if_splits prod.splits)

lemma plain_send_takes:
  assumes "sk_room s = Takes m # Takes m' # room" "ct_message_type_valid type" "p \<noteq> []"
    and "length p \<le> k_max_frame k" "length p \<le> m'" "36 \<le> m" "k_max_frame k < 2 ^ 31"
  shows "\<exists>s'. ct_plain_send k s type session stream p ms = (True, s')"
proof -
  let ?h = "\<lparr>fh_type = type, fh_flags = 0, fh_payload_len = of_nat (length p),
      fh_session_id = session, fh_stream_id = stream, fh_sequence = 0\<rparr>"
  have ok: "header_ok k ?h" using assms payload_len_unat [of "length p"] by (simp add: header_ok_def)
  have "header_bytes ?h \<noteq> []" by (simp add: header_bytes_def)
  from sendall_takes [OF assms(1) this, of ms] assms(6)
  have "sendall s (header_bytes ?h) ms = (True, s\<lparr>sk_room := Takes m' # room, sk_out := sk_out s @ header_bytes ?h\<rparr>)"
    by simp
  then show ?thesis
    using ok assms sendall_takes [of _ m' room p ms] by (simp add: ct_plain_send_def header_encode_eq)
qed

lemma plain_recv_frame:
  assumes wire: "flowing ms (sk_in s)" "arrives (sk_in s) = header_bytes h @ p @ rest"
    and h: "header_ok k h" "fh_flags h = 0" "unat (fh_payload_len h) = length p" and cap: "length p \<le> cap"
  shows "\<exists>s'. ct_plain_recv k s cap ms = (Ok (h, p), s') \<and> flowing ms (sk_in s') \<and> arrives (sk_in s') = rest \<and>
    sk_out s' = sk_out s \<and> sk_room s' = sk_room s"
proof -
  from recvall_live [OF wire(1), of 36] wire(2) obtain s1 where
    s1: "recvall s 36 ms = (Some (header_bytes h), s1)" "flowing ms (sk_in s1)" "arrives (sk_in s1) = p @ rest"
    by auto
  from recvall_live [OF s1(2), of "length p"] s1(3) obtain s2 where
    s2: "recvall s1 (length p) ms = (Some p, s2)" "flowing ms (sk_in s2)" "arrives (sk_in s2) = rest" by auto
  show ?thesis
    using s1 s2 h cap recvall_safe [OF s1(1)] recvall_safe [OF s2(1)]
    by (simp add: ct_plain_recv_def decode_header_bytes proto_defs)
qed

lemma plain_recv_safe:
  assumes "ct_plain_recv k s cap ms = (Ok (h, p), s')"
  shows "header_ok k h \<and> fh_flags h = 0 \<and> length p = unat (fh_payload_len h) \<and> length p \<le> cap \<and>
    arrives (sk_in s) = header_bytes h @ p @ arrives (sk_in s') \<and> sk_out s' = sk_out s \<and> sk_room s' = sk_room s"
proof -
  from assms obtain b s1 where
    r: "recvall s 36 ms = (Some b, s1)" "recvall s1 (unat (fh_payload_len h)) ms = (Some p, s')"
    and c: "ct_frame_header_decode k b = Ok h" "unat (fh_payload_len h) \<le> cap" "fh_flags h = 0"
    by (auto simp: ct_plain_recv_def proto_defs split: prod.splits option.splits res.splits if_splits)
  from recvall_safe [OF r(1)] recvall_safe [OF r(2)] decode_header_inv [OF c(1)] show ?thesis
    using c by auto
qed

lemma plain_recv_no_fault: "fst (ct_plain_recv k s cap ms) \<noteq> Fault"
proof -
  have "ct_frame_header_decode k b \<noteq> Fault" if "recvall s 36 ms = (Some b, s1)" for b s1
    using recvall_safe [OF that] decode_header_no_fault [of b k] by simp
  then show ?thesis
    by (auto simp: ct_plain_recv_def proto_defs split: prod.splits option.splits res.splits)
qed

text \<open>
  The readiness test never lets the event loop block: when it reports a queued frame as ready, the
  frame is completely in the kernel's queue, and receiving it returns its header and payload at once
  and leaves exactly the bytes behind it.
\<close>

theorem frame_ready_receives:
  assumes "ct_plain_frame_available k (Inr (take 36 q)) (Some (length q)) max_payload = Avail_ready h"
    and "max_payload \<le> cap"
  shows "\<exists>s' p. ct_plain_recv k \<lparr>sk_in = [Got q], sk_room = room, sk_out = out\<rparr> cap ms = (Ok (h, p), s') \<and>
    q = header_bytes h @ p @ arrives (sk_in s')"
proof -
  from assms(1) have a: "36 \<le> length q" "ct_frame_header_decode k (take 36 q) = Ok h" "fh_flags h = 0"
    "unat (fh_payload_len h) \<le> max_payload" "36 + unat (fh_payload_len h) \<le> length q"
    by (auto simp: ct_plain_frame_available_def ct_frame_available_def proto_defs
        split: if_splits res.splits)
  then have hd: "header_ok k h" "take 36 q = header_bytes h" using decode_header_inv [OF a(2)] by auto
  let ?p = "take (unat (fh_payload_len h)) (drop 36 q)"
    and ?r = "drop (unat (fh_payload_len h)) (drop 36 q)"
  have q: "q = header_bytes h @ ?p @ ?r" using hd(2) by (metis append_take_drop_id)
  let ?s = "\<lparr>sk_in = [Got q], sk_room = room, sk_out = out\<rparr>"
  have wire: "flowing ms (sk_in ?s)" "arrives (sk_in ?s) = header_bytes h @ ?p @ ?r"
    using a(1) q by auto
  have len: "unat (fh_payload_len h) = length ?p" "length ?p \<le> cap" using a assms(2) by simp_all
  from plain_recv_frame [OF wire hd(1) a(3) len] obtain s' where
    "ct_plain_recv k ?s cap ms = (Ok (h, ?p), s')" "arrives (sk_in s') = ?r" by blast
  then show ?thesis using q by metis
qed

theorem frame_ready_receives_witness:
  "\<exists>s' p. ct_plain_recv default_defconfig \<lparr>sk_in = [Got (header_bytes (ping_header\<lparr>fh_flags := 0,
      fh_payload_len := 2\<rparr>) @ [1, 2, 3])], sk_room = [], sk_out = []\<rparr> 64 5 =
      (Ok (ping_header\<lparr>fh_flags := 0, fh_payload_len := 2\<rparr>, p), s')"
proof -
  let ?h = "ping_header\<lparr>fh_flags := 0, fh_payload_len := 2\<rparr>"
  have "header_ok default_defconfig ?h"
    by (simp add: header_ok_def ping_header_def ct_message_type_valid_def default_defconfig_def)
  from decode_header_bytes [OF this] have "ct_plain_frame_available default_defconfig
      (Inr (take 36 (header_bytes ?h @ [1, 2, 3]))) (Some (length (header_bytes ?h @ [1, 2, 3]))) 64 =
      Avail_ready ?h"
    by (simp add: ct_plain_frame_available_def ct_frame_available_def proto_defs)
      (simp add: header_bytes_def ping_header_def)
  from frame_ready_receives [OF this, of 64] show ?thesis by blast
qed

end
