(* ===== verification/Binding.thy ===== *)
theory Binding
  imports Channel Proxy_Protocol
begin

text \<open>
  Work connections and stream set-up, from \<open>src/src/net/net.c\<close>: the client opens a connection, binds
  it to its session with a keyed hash over a serial number, and the two sides start a stream on it
  with authenticated \<open>START_STREAM\<close> and \<open>STREAM_READY\<close> messages. The hash inputs are assembled in
  fixed-size arrays; the theorems give the exact condition under which the code writes outside them,
  and the round trips and injectivity that hold inside it.
\<close>

section \<open>Work connections\<close>

record ct_work =
  wk_fd :: int
  wk_id :: bytes

definition workmac :: "monocypher \<Rightarrow> ct_control \<Rightarrow> bytes \<Rightarrow> bytes res" where
  "workmac B c work_id =
     andthen (emits 160 [] [lit ''ctunnel-v3/work-bind/client-to-server'',
         ct_put_u64 (session_id (cc_keys c)), ct_put_u16 (of_nat (length (cc_client_id c))),
         cc_client_id c, [CT_MSG_WORK_CONNECTION_BIND], work_id]) (\<lambda>b.
       Ok (ct_crypto_mac B (work_auth_key (cc_keys c)) b))"

text \<open>
  \<open>fd\<close> is the answer of \<open>ct_net_connect\<close> and \<open>random\<close> the 24 bytes of \<open>ct_platform_random\<close>.
  The last component lists the descriptors closed on the way.
\<close>

definition ct_work_connect ::
  "monocypher \<Rightarrow> autoconf \<Rightarrow> ct_control \<Rightarrow> int option \<Rightarrow> bytes option \<Rightarrow> sock \<Rightarrow> nat \<Rightarrow>
     ct_work res \<times> ct_control \<times> sock \<times> int list" where
  "ct_work_connect B k c fd random s ms =
     (case fd of
        None \<Rightarrow> (Err, c, s, [])
      | Some f \<Rightarrow>
          if cc_work_tx_seq c = uint64_max then (Err, c, s, [f])
          else
            let seq = cc_work_tx_seq c + 1; c1 = c\<lparr>cc_work_tx_seq := seq\<rparr> in
            case random of
              None \<Rightarrow> (Err, c1, s, [f])
            | Some r \<Rightarrow>
                let wid = ct_put_u64 seq @ r in
                case workmac B c1 wid of
                  Ok mac \<Rightarrow>
                    (let (ok, s') = ct_plain_send k s CT_MSG_WORK_CONNECTION_BIND
                           (session_id (cc_keys c)) 0 (wid @ mac) ms
                     in if ok then (Ok \<lparr>wk_fd = f, wk_id = wid\<rparr>, c1, s', []) else (Err, c1, s', [f]))
                | Err \<Rightarrow> (Err, c1, s, [])
                | Fault \<Rightarrow> (Fault, c1, s, []))"

definition ct_work_accept_bind ::
  "monocypher \<Rightarrow> autoconf \<Rightarrow> int \<Rightarrow> ct_control \<Rightarrow> sock \<Rightarrow> ct_work res \<times> ct_control \<times> sock" where
  "ct_work_accept_bind B k f c s =
     (case ct_plain_recv k s 64 5000 of
        (Ok (h, p), s') \<Rightarrow>
          if fh_type h \<noteq> CT_MSG_WORK_CONNECTION_BIND \<or> fh_session_id h \<noteq> session_id (cc_keys c) \<or>
             fh_stream_id h \<noteq> 0 \<or> fh_sequence h \<noteq> 0 \<or> length p \<noteq> 64
          then (Err, c, s')
          else (case workmac B c (take 32 p) of
             Ok m \<Rightarrow>
               (case ct_crypto_equal m (drop 32 p) 32 of
                  Ok True \<Rightarrow>
                    (case accept_work_sequence (cc_work_rx c) (ct_get_u64 (take 8 p)) of
                       Ok w \<Rightarrow> (Ok \<lparr>wk_fd = f, wk_id = take 32 p\<rparr>, c\<lparr>cc_work_rx := w\<rparr>, s')
                     | Err \<Rightarrow> (Err, c, s')
                     | Fault \<Rightarrow> (Fault, c, s'))
                | Ok False \<Rightarrow> (Err, c, s')
                | Err \<Rightarrow> (Err, c, s')
                | Fault \<Rightarrow> (Fault, c, s'))
           | Err \<Rightarrow> (Err, c, s')
           | Fault \<Rightarrow> (Fault, c, s'))
      | (Err, s') \<Rightarrow> (Err, c, s')
      | (Fault, s') \<Rightarrow> (Fault, c, s'))"

section \<open>Stream set-up\<close>

text \<open>
  The authenticated bytes of a stream message. The array \<open>authenticated[256]\<close> receives two
  identifiers whose lengths are only checked against the configured maxima.
\<close>

definition metadata_fields :: "ct_stream_metadata \<Rightarrow> bytes list" where
  "metadata_fields m =
     [[md_proxy_protocol m], [ep_family (md_source m)], ep_addr (md_source m),
      ct_put_u16 (ep_port (md_source m)), [ep_family (md_destination m)], ep_addr (md_destination m),
      ct_put_u16 (ep_port (md_destination m))]"

definition streammac ::
  "monocypher \<Rightarrow> autoconf \<Rightarrow> ct_control \<Rightarrow> u8 \<Rightarrow> u8 \<Rightarrow> bytes \<Rightarrow> bytes \<Rightarrow> u8 \<Rightarrow> u64 \<Rightarrow> bytes \<Rightarrow>
     ct_stream_metadata option \<Rightarrow> u8 \<Rightarrow> bytes res" where
  "streammac B k c message_type sender_role work_id service mode stream random metadata ok =
     (if length (cc_client_id c) > k_max_client_id k \<or> length service > k_max_service_id k then Err
      else andthen (emits 256 [] ([lit ''ctunnel-v3/stream-binding'',
          ct_put_u64 (session_id (cc_keys c)), ct_put_u16 (of_nat (length (cc_client_id c))),
          cc_client_id c, work_id, ct_put_u16 (of_nat (length service)), service,
          ct_put_u64 stream, random, [mode]] @
          (case metadata of Some m \<Rightarrow> metadata_fields m | None \<Rightarrow> [replicate 38 0]) @
          [[message_type], [sender_role], [ok]])) (\<lambda>b.
        Ok (ct_crypto_mac B (stream_auth_key (cc_keys c)) b)))"

text \<open>
  \<open>p[CT_CONTROL_BUFFER_SIZE]\<close> is filled without a check between the first string and the
  endpoints; \<open>random\<close> is the answer of \<open>ct_platform_random\<close>. The result carries the random value
  that the caller's array receives.
\<close>

definition start_stream_payload ::
  "monocypher \<Rightarrow> autoconf \<Rightarrow> ct_work \<Rightarrow> ct_control \<Rightarrow> bytes \<Rightarrow> u64 \<Rightarrow> u8 \<Rightarrow> ct_stream_metadata option \<Rightarrow>
     bytes option \<Rightarrow> (bytes \<times> bytes) res" where
  "start_stream_payload B k work c service sid encm metadata random =
     (let cap = k_control_buffer k in
      andthen (ct_pack_string cap [] service (k_max_service_id k)) (\<lambda>o1.
      andthen (emits cap o1 [[encm], wk_id work]) (\<lambda>o2.
      case random of None \<Rightarrow> Err | Some rnd \<Rightarrow>
      andthen (emits cap o2 [rnd, ct_put_u64 sid,
          [case metadata of Some m \<Rightarrow> md_proxy_protocol m | None \<Rightarrow> 0]]) (\<lambda>o3.
      andthen (case metadata of
          Some m \<Rightarrow> andthen (ct_udp_endpoint_encode cap o3 (md_source m)) (\<lambda>o4.
            ct_udp_endpoint_encode cap o4 (md_destination m))
        | None \<Rightarrow> emits cap o3 [[0], [0]]) (\<lambda>o5.
      andthen (streammac B k c CT_MSG_START_STREAM 0 (wk_id work) service encm sid rnd metadata 1) (\<lambda>mac.
      andthen (emits cap o5 [mac]) (\<lambda>p. Ok (rnd, p))))))))"

definition ct_start_stream_send ::
  "monocypher \<Rightarrow> autoconf \<Rightarrow> ct_work \<Rightarrow> ct_control \<Rightarrow> bytes \<Rightarrow> u64 \<Rightarrow> u8 \<Rightarrow> ct_stream_metadata option \<Rightarrow>
     bytes option \<Rightarrow> sock \<Rightarrow> bytes res \<times> sock" where
  "ct_start_stream_send B k work c service sid encm metadata random s =
     (case start_stream_payload B k work c service sid encm metadata random of
        Ok (rnd, p) \<Rightarrow>
          (let (ok, s') = ct_plain_send k s CT_MSG_START_STREAM (session_id (cc_keys c)) sid p 5000
           in (if ok then Ok rnd else Err, s'))
      | Err \<Rightarrow> (Err, s)
      | Fault \<Rightarrow> (Fault, s))"

record start_stream =
  ss_service :: bytes
  ss_sid :: u64
  ss_mode :: u8
  ss_metadata :: ct_stream_metadata
  ss_random :: bytes

text \<open>
  Parsing works on the whole array: \<open>b\<close> is the received payload of \<open>n\<close> bytes followed by what the
  rest of the array happens to hold. \<open>idcap\<close> is the capacity of the caller's identifier buffer.
\<close>

definition start_stream_parse ::
  "monocypher \<Rightarrow> autoconf \<Rightarrow> ct_work \<Rightarrow> ct_control \<Rightarrow> nat \<Rightarrow> u64 \<Rightarrow> bytes \<Rightarrow> nat \<Rightarrow> start_stream res" where
  "start_stream_parse B k work c idcap header_stream b n =
     ensure (110 \<le> n) (
     andthen (ct_unpack_string idcap b n 0) (\<lambda>(service, o0).
     andthen (rd_u8 b o0) (\<lambda>encm.
     ensure (encm = CT_ENC_REQUIRED \<or> encm = CT_ENC_DISABLED) (
     andthen (rd b (o0 + 1) 32) (\<lambda>wid.
     andthen (ct_crypto_equal wid (wk_id work) 32) (\<lambda>same.
     ensure same (
     andthen (rd b (o0 + 33) 32) (\<lambda>rnd.
     andthen (rd_u64 b (o0 + 65)) (\<lambda>sid.
     ensure (sid = header_stream) (
     ensure (\<not> o0 + 73 \<ge> n) (
     andthen (rd_u8 b (o0 + 73)) (\<lambda>pp.
     ensure (\<not> pp > CT_PROXY_PROTOCOL_V2) (
     andthen (ct_udp_endpoint_decode b n (o0 + 74)) (\<lambda>(src, o1).
     andthen (ct_udp_endpoint_decode b n o1) (\<lambda>(dst, o2).
     ensure (n - o2 = 32) (
     let m = \<lparr>md_proxy_protocol = pp, md_source = src, md_destination = dst\<rparr> in
     andthen (streammac B k c CT_MSG_START_STREAM 0 (wk_id work) (cstr service) encm sid rnd (Some m) 1) (\<lambda>mac.
     andthen (rd b o2 32) (\<lambda>received.
     andthen (ct_crypto_equal mac received 32) (\<lambda>valid.
     ensure valid (Ok \<lparr>ss_service = cstr service, ss_sid = sid, ss_mode = encm, ss_metadata = m,
       ss_random = rnd\<rparr>))))))))))))))))))))"

definition ct_start_stream_recv ::
  "monocypher \<Rightarrow> autoconf \<Rightarrow> ct_work \<Rightarrow> ct_control \<Rightarrow> nat \<Rightarrow> bytes \<Rightarrow> sock \<Rightarrow> start_stream res \<times> sock" where
  "ct_start_stream_recv B k work c idcap garbage s =
     (case ct_plain_recv k s (k_control_buffer k) 60000 of
        (Ok (h, p), s') \<Rightarrow>
          (if fh_type h \<noteq> CT_MSG_START_STREAM \<or> fh_session_id h \<noteq> session_id (cc_keys c) \<or> fh_sequence h \<noteq> 0
           then Err
           else start_stream_parse B k work c idcap (fh_stream_id h) (p @ drop (length p) garbage) (length p), s')
      | (Err, s') \<Rightarrow> (Err, s')
      | (Fault, s') \<Rightarrow> (Fault, s'))"

definition ready_payload ::
  "monocypher \<Rightarrow> autoconf \<Rightarrow> ct_work \<Rightarrow> ct_control \<Rightarrow> bytes \<Rightarrow> u8 \<Rightarrow> u64 \<Rightarrow> bytes \<Rightarrow> bool \<Rightarrow> bytes res" where
  "ready_payload B k work c service mode sid rnd ok =
     (let cap = k_control_buffer k; okb = (if ok then 1 else 0 :: u8);
          message_type = (if ok then CT_MSG_STREAM_READY else CT_MSG_STREAM_FAILED) in
      andthen (ct_pack_string cap [] service (k_max_service_id k)) (\<lambda>o1.
      andthen (emits cap o1 [[mode], wk_id work, rnd, ct_put_u64 sid, [okb]]) (\<lambda>o2.
      andthen (streammac B k c message_type 1 (wk_id work) service mode sid rnd None okb) (\<lambda>m.
      emits cap o2 [m]))))"

definition ct_stream_ready_send ::
  "monocypher \<Rightarrow> autoconf \<Rightarrow> ct_work \<Rightarrow> ct_control \<Rightarrow> bytes \<Rightarrow> u8 \<Rightarrow> u64 \<Rightarrow> bytes \<Rightarrow> bool \<Rightarrow> sock \<Rightarrow>
     unit res \<times> sock" where
  "ct_stream_ready_send B k work c service mode sid rnd ok s =
     (case ready_payload B k work c service mode sid rnd ok of
        Ok p \<Rightarrow>
          (let (sent, s') = ct_plain_send k s (if ok then CT_MSG_STREAM_READY else CT_MSG_STREAM_FAILED)
                 (session_id (cc_keys c)) sid p 5000
           in (if sent then Ok () else Err, s'))
      | Err \<Rightarrow> (Err, s)
      | Fault \<Rightarrow> (Fault, s))"

definition ready_parse ::
  "monocypher \<Rightarrow> autoconf \<Rightarrow> ct_work \<Rightarrow> ct_control \<Rightarrow> bytes \<Rightarrow> u8 \<Rightarrow> u64 \<Rightarrow> bytes \<Rightarrow> u8 \<Rightarrow> bytes \<Rightarrow> bool res" where
  "ready_parse B k work c service mode sid rnd type p =
     (let n = length p in
      andthen (ct_unpack_string (k_max_service_id k + 1) p n 0) (\<lambda>(received_service, o0).
      ensure (n - o0 = 106 \<and> cstr received_service = service) (
      andthen (rd_u8 p o0) (\<lambda>m.
      ensure (m = mode) (
      andthen (rd p (o0 + 1) 32) (\<lambda>wid.
      andthen (ct_crypto_equal wid (wk_id work) 32) (\<lambda>same.
      ensure same (
      andthen (rd p (o0 + 33) 32) (\<lambda>r.
      ensure (r = rnd) (
      andthen (rd_u64 p (o0 + 65)) (\<lambda>received_sid.
      ensure (received_sid = sid) (
      andthen (rd_u8 p (o0 + 73)) (\<lambda>received_ok.
      ensure (\<not> received_ok > 1) (
      andthen (streammac B k c type 1 (wk_id work) service mode sid rnd None received_ok) (\<lambda>mac.
      andthen (rd p (o0 + 74) 32) (\<lambda>received_mac.
      andthen (ct_crypto_equal mac received_mac 32) (\<lambda>valid.
      ensure valid (Ok (received_ok \<noteq> 0 \<and> type = CT_MSG_STREAM_READY)))))))))))))))))))"

definition ct_stream_ready_recv ::
  "monocypher \<Rightarrow> autoconf \<Rightarrow> ct_work \<Rightarrow> ct_control \<Rightarrow> bytes \<Rightarrow> u8 \<Rightarrow> u64 \<Rightarrow> bytes \<Rightarrow> sock \<Rightarrow> bool res \<times> sock" where
  "ct_stream_ready_recv B k work c service mode sid rnd s =
     (case ct_plain_recv k s (k_control_buffer k) 5000 of
        (Ok (h, p), s') \<Rightarrow>
          (if fh_session_id h \<noteq> session_id (cc_keys c) \<or> fh_stream_id h \<noteq> sid \<or> fh_sequence h \<noteq> 0 \<or>
              (fh_type h \<noteq> CT_MSG_STREAM_READY \<and> fh_type h \<noteq> CT_MSG_STREAM_FAILED)
           then Err
           else ready_parse B k work c service mode sid rnd (fh_type h) p, s')
      | (Err, s') \<Rightarrow> (Err, s')
      | (Fault, s') \<Rightarrow> (Fault, s'))"

section \<open>The hash inputs\<close>

definition work_bytes :: "ct_control \<Rightarrow> bytes \<Rightarrow> bytes" where
  "work_bytes c work_id = lit ''ctunnel-v3/work-bind/client-to-server'' @
     ct_put_u64 (session_id (cc_keys c)) @ string_bytes (cc_client_id c) @
     [CT_MSG_WORK_CONNECTION_BIND] @ work_id"

definition stream_bytes ::
  "ct_control \<Rightarrow> u8 \<Rightarrow> u8 \<Rightarrow> bytes \<Rightarrow> bytes \<Rightarrow> u8 \<Rightarrow> u64 \<Rightarrow> bytes \<Rightarrow> ct_stream_metadata option \<Rightarrow> u8 \<Rightarrow> bytes" where
  "stream_bytes c message_type sender_role work_id service mode stream random metadata ok =
     lit ''ctunnel-v3/stream-binding'' @ ct_put_u64 (session_id (cc_keys c)) @
     string_bytes (cc_client_id c) @ work_id @ string_bytes service @ ct_put_u64 stream @ random @ [mode] @
     (case metadata of Some m \<Rightarrow> concat (metadata_fields m) | None \<Rightarrow> replicate 38 0) @
     [message_type, sender_role, ok]"

lemma workmac_eq:
  "length work_id = 32 \<Longrightarrow> workmac B c work_id =
     (if length (cc_client_id c) \<le> 80
      then Ok (ct_crypto_mac B (work_auth_key (cc_keys c)) (work_bytes c work_id)) else Fault)"
  by (simp add: workmac_def emits_eq work_bytes_def string_bytes_def)

definition metadata_size :: "ct_stream_metadata option \<Rightarrow> nat" where
  "metadata_size metadata = (case metadata of Some _ \<Rightarrow> 39 | None \<Rightarrow> 38)"

definition metadata_arrays :: "ct_stream_metadata option \<Rightarrow> bool" where
  "metadata_arrays metadata = (case metadata of Some m \<Rightarrow> metadata_sized m | None \<Rightarrow> True)"

lemma streammac_eq:
  assumes "length work_id = 32" "length random = 32" "metadata_arrays metadata"
  shows "streammac B k c message_type sender_role work_id service mode stream random metadata ok =
    (if length (cc_client_id c) > k_max_client_id k \<or> length service > k_max_service_id k then Err
     else if 113 + metadata_size metadata + length (cc_client_id c) + length service \<le> 256
     then Ok (ct_crypto_mac B (stream_auth_key (cc_keys c))
       (stream_bytes c message_type sender_role work_id service mode stream random metadata ok))
     else Fault)"
  using assms
  by (cases metadata) (simp_all add: streammac_def emits_eq stream_bytes_def string_bytes_def
      metadata_size_def metadata_arrays_def metadata_sized_def endpoint_sized_def metadata_fields_def)

lemma length_mac [simp]: "hash_sizes B \<Longrightarrow> length (ct_crypto_mac B key m) = 32"
  by (simp add: hash_sizes_def ct_crypto_mac_def)

text \<open>Reads at a known place of a message.\<close>

lemma rd_at: "b = pre @ mid @ post \<Longrightarrow> off = length pre \<Longrightarrow> n = length mid \<Longrightarrow> rd b off n = Ok mid"
  by (simp add: rd_append)

lemma rd_u8_at: "b = pre @ [x] @ post \<Longrightarrow> off = length pre \<Longrightarrow> rd_u8 b off = Ok x"
  using rd_u8_append by blast

lemma rd_u64_at: "b = pre @ ct_put_u64 x @ post \<Longrightarrow> off = length pre \<Longrightarrow> rd_u64 b off = Ok x"
  using rd_ints_append(3) by blast

section \<open>Start messages\<close>

definition start_bytes ::
  "monocypher \<Rightarrow> ct_work \<Rightarrow> ct_control \<Rightarrow> bytes \<Rightarrow> u64 \<Rightarrow> u8 \<Rightarrow> ct_stream_metadata \<Rightarrow> bytes \<Rightarrow> bytes" where
  "start_bytes B work c service sid encm m rnd =
     string_bytes service @ [encm] @ wk_id work @ rnd @ ct_put_u64 sid @ [md_proxy_protocol m] @
     endpoint_bytes (md_source m) @ endpoint_bytes (md_destination m) @
     ct_crypto_mac B (stream_auth_key (cc_keys c))
       (stream_bytes c CT_MSG_START_STREAM 0 (wk_id work) service encm sid rnd (Some m) 1)"

definition metadata_ok :: "ct_stream_metadata \<Rightarrow> bool" where
  "metadata_ok m \<longleftrightarrow> endpoint_ok (md_source m) \<and> endpoint_ok (md_destination m) \<and> md_proxy_protocol m \<le> 2"

text \<open>What makes a start message well-formed and small enough for every array it passes through.\<close>

definition start_fits :: "autoconf \<Rightarrow> ct_control \<Rightarrow> bytes \<Rightarrow> bool" where
  "start_fits k c service \<longleftrightarrow> length (cc_client_id c) + length service \<le> 104 \<and>
     length (cc_client_id c) \<le> k_max_client_id k \<and> length service \<le> k_max_service_id k \<and>
     146 + length service \<le> k_control_buffer k"

lemma metadata_ok_sized: "metadata_ok m \<Longrightarrow> metadata_arrays (Some m)"
  by (simp add: metadata_ok_def metadata_arrays_def metadata_sized_def endpoint_sized_def endpoint_ok_def)

lemma length_start_bytes:
  assumes "hash_sizes B" "metadata_ok m" "length (wk_id work) = 32" "length rnd = 32"
  shows "length (start_bytes B work c service sid encm m rnd) \<le> 146 + length service"
    "116 + length service \<le> length (start_bytes B work c service sid encm m rnd)"
  using assms endpoint_bytes_le [of "md_source m"] endpoint_bytes_le [of "md_destination m"]
    length_endpoint_bytes [of "md_source m"] length_endpoint_bytes [of "md_destination m"]
  by (auto simp: start_bytes_def metadata_ok_def endpoint_ok_def address_length_def)

lemma start_payload_eq:
  assumes B: "hash_sizes B" and m: "metadata_ok m" and len: "length (wk_id work) = 32" "length rnd = 32"
    and fits: "start_fits k c service" and k: "k_control_buffer k \<le> 65536"
  shows "start_stream_payload B k work c service sid encm (Some m) (Some rnd) =
    Ok (rnd, start_bytes B work c service sid encm m rnd)"
proof -
  have mac: "streammac B k c CT_MSG_START_STREAM 0 (wk_id work) service encm sid rnd (Some m) 1 =
      Ok (ct_crypto_mac B (stream_auth_key (cc_keys c))
        (stream_bytes c CT_MSG_START_STREAM 0 (wk_id work) service encm sid rnd (Some m) 1))"
    using streammac_eq [OF len metadata_ok_sized [OF m]] fits
    by (simp add: start_fits_def metadata_size_def)
  have e: "endpoint_ok (md_source m)" "endpoint_ok (md_destination m)" using m by (simp_all add: metadata_ok_def)
  show ?thesis
    using mac len fits k endpoint_bytes_le [OF e(1)] endpoint_bytes_le [OF e(2)] B
    by (simp add: start_stream_payload_def pack_string_eq emits_eq endpoint_encode_eq [OF e(1)]
        endpoint_encode_eq [OF e(2)] start_bytes_def start_fits_def Let_def)
qed

lemma start_parse_reads:
  assumes "110 \<le> n" "ct_unpack_string idcap b n 0 = Ok (service, oa)" "nul_free service"
    "rd_u8 b oa = Ok encm" "encm = CT_ENC_REQUIRED \<or> encm = CT_ENC_DISABLED"
    "rd b (oa + 1) 32 = Ok (wk_id work)" "length (wk_id work) = 32"
    "rd b (oa + 33) 32 = Ok rnd" "rd_u64 b (oa + 65) = Ok sid" "oa + 73 < n"
    "rd_u8 b (oa + 73) = Ok (md_proxy_protocol m)" "md_proxy_protocol m \<le> 2"
    "ct_udp_endpoint_decode b n (oa + 74) = Ok (md_source m, ob)"
    "ct_udp_endpoint_decode b n ob = Ok (md_destination m, oc)" "n = oc + 32"
    "streammac B k c CT_MSG_START_STREAM 0 (wk_id work) service encm sid rnd (Some m) 1 = Ok mac"
    "rd b oc 32 = Ok mac" "length mac = 32"
  shows "start_stream_parse B k work c idcap sid b n =
    Ok \<lparr>ss_service = service, ss_sid = sid, ss_mode = encm, ss_metadata = m, ss_random = rnd\<rparr>"
proof -
  have "\<not> md_proxy_protocol m > CT_PROXY_PROTOCOL_V2" using assms(12) by (simp add: proxy_defs not_less)
  then show ?thesis
    using assms by (cases m) (simp add: start_stream_parse_def crypto_equal_eq Let_def)
qed

lemma start_parse_bytes:
  assumes B: "hash_sizes B" and m: "metadata_ok m" and len: "length (wk_id work) = 32" "length rnd = 32"
    and fits: "start_fits k c service" and mode: "encm = CT_ENC_REQUIRED \<or> encm = CT_ENC_DISABLED"
    and nul: "nul_free service" and idcap: "length service < idcap"
  shows "start_stream_parse B k work c idcap sid (start_bytes B work c service sid encm m rnd @ garbage)
      (length (start_bytes B work c service sid encm m rnd)) =
    Ok \<lparr>ss_service = service, ss_sid = sid, ss_mode = encm, ss_metadata = m, ss_random = rnd\<rparr>"
proof -
  let ?s = "string_bytes service" and ?i = "ct_put_u64 sid" and ?pp = "md_proxy_protocol m"
    and ?e = "endpoint_bytes (md_source m)" and ?f = "endpoint_bytes (md_destination m)"
  let ?mac = "ct_crypto_mac B (stream_auth_key (cc_keys c))
      (stream_bytes c CT_MSG_START_STREAM 0 (wk_id work) service encm sid rnd (Some m) 1)"
  let ?o = "length ?s"
  let ?n = "length (start_bytes B work c service sid encm m rnd)"
  let ?b = "?s @ [encm] @ wk_id work @ rnd @ ?i @ [?pp] @ ?e @ ?f @ ?mac @ garbage"
  have b: "start_bytes B work c service sid encm m rnd @ garbage = ?b" by (simp add: start_bytes_def)
  have n: "?n = ?o + 74 + length ?e + length ?f + 32" using len B by (simp add: start_bytes_def)
  have e: "endpoint_ok (md_source m)" "endpoint_ok (md_destination m)" using m by (simp_all add: metadata_ok_def)
  have le: "length service \<le> 65535" using fits by (simp add: start_fits_def)
  show ?thesis unfolding b
  proof (rule start_parse_reads [where ob = "?o + 74 + length ?e" and oc = "?o + 74 + length ?e + length ?f"
        and mac = ?mac])
    show "110 \<le> ?n" using length_start_bytes(2) [OF B m len, of service c sid encm] by simp
    show "ct_unpack_string idcap ?b ?n 0 = Ok (service, ?o)"
      using str_field.dec_enc [of idcap service "[]" ?n] n idcap le by (simp add: string_ok_def)
    show "rd_u8 ?b ?o = Ok encm" by (rule rd_u8_at [where pre = ?s]) simp_all
    show "rd ?b (?o + 1) 32 = Ok (wk_id work)"
      by (rule rd_at [where pre = "?s @ [encm]"]) (simp_all add: len)
    show "rd ?b (?o + 33) 32 = Ok rnd"
      by (rule rd_at [where pre = "?s @ [encm] @ wk_id work"]) (simp_all add: len)
    show "rd_u64 ?b (?o + 65) = Ok sid"
      by (rule rd_u64_at [where pre = "?s @ [encm] @ wk_id work @ rnd"]) (simp_all add: len)
    show "rd_u8 ?b (?o + 73) = Ok ?pp"
      by (rule rd_u8_at [where pre = "?s @ [encm] @ wk_id work @ rnd @ ?i"]) (simp_all add: len)
    show "ct_udp_endpoint_decode ?b ?n (?o + 74) = Ok (md_source m, ?o + 74 + length ?e)"
      using ep_field.dec_enc_at [OF e(1), of "?o + 74" "?s @ [encm] @ wk_id work @ rnd @ ?i @ [?pp]" _ ?n
          "?f @ ?mac @ garbage"] len n by simp
    show "ct_udp_endpoint_decode ?b ?n (?o + 74 + length ?e) = Ok (md_destination m, ?o + 74 + length ?e + length ?f)"
      using ep_field.dec_enc_at [OF e(2), of "?o + 74 + length ?e" "?s @ [encm] @ wk_id work @ rnd @ ?i @ [?pp] @ ?e"
          _ ?n "?mac @ garbage"] len n by simp
    show "rd ?b (?o + 74 + length ?e + length ?f) 32 = Ok ?mac"
      by (rule rd_at [where pre = "?s @ [encm] @ wk_id work @ rnd @ ?i @ [?pp] @ ?e @ ?f" and post = garbage])
        (simp_all add: len B)
    show "streammac B k c CT_MSG_START_STREAM 0 (wk_id work) service encm sid rnd (Some m) 1 = Ok ?mac"
      using streammac_eq [OF len metadata_ok_sized [OF m]] fits by (simp add: start_fits_def metadata_size_def)
  qed (use n m mode nul len B in \<open>simp_all add: metadata_ok_def\<close>)
qed

section \<open>Properties\<close>

text \<open>
  Binding a work connection writes outside the 160-byte hash array exactly when the client
  identifier is longer than 80 bytes, a length that \<open>CONFIG_MAX_CLIENT_ID_LENGTH\<close> permits (the full
  configuration allows 128); for shorter identifiers the hash is computed over the tagged session,
  identifier and serial number.
\<close>

theorem workmac_overflow_exact:
  assumes "length work_id = 32"
  shows "workmac B c work_id =
    (if length (cc_client_id c) \<le> 80
     then Ok (ct_crypto_mac B (work_auth_key (cc_keys c)) (work_bytes c work_id)) else Fault)"
  using assms by (rule workmac_eq)

theorem workmac_overflow_exact_witness:
  "workmac toy_backend (client_control\<lparr>cc_client_id := replicate 100 97\<rparr>) (replicate 32 0) = Fault \<and>
   length (replicate 100 (97 :: u8)) \<le> k_max_client_id full_defconfig"
  using workmac_overflow_exact [of "replicate 32 0" toy_backend "client_control\<lparr>cc_client_id := replicate 100 97\<rparr>"]
  by (simp add: full_defconfig_def)

text \<open>
  C38: authenticating a stream message writes outside the 256-byte hash array exactly when the client
  and the service identifier together exceed 104 bytes (105 without addresses) while each respects its
  configured maximum; the default configuration permits 64 bytes each.
\<close>

theorem streammac_overflow_exact:
  assumes "length work_id = 32" "length random = 32" "metadata_arrays metadata"
  shows "streammac B k c message_type sender_role work_id service mode stream random metadata ok =
    (if length (cc_client_id c) > k_max_client_id k \<or> length service > k_max_service_id k then Err
     else if 113 + metadata_size metadata + length (cc_client_id c) + length service \<le> 256
     then Ok (ct_crypto_mac B (stream_auth_key (cc_keys c))
       (stream_bytes c message_type sender_role work_id service mode stream random metadata ok))
     else Fault)"
  using assms by (rule streammac_eq)

theorem streammac_overflow_exact_witness:
  "streammac toy_backend default_defconfig (client_control\<lparr>cc_client_id := replicate 60 97\<rparr>)
     CT_MSG_START_STREAM 0 (replicate 32 0) (replicate 60 98) 0 1 (replicate 32 0) (Some web_metadata) 1 = Fault"
  using streammac_overflow_exact [of "replicate 32 0" "replicate 32 0" "Some web_metadata" toy_backend
      default_defconfig "client_control\<lparr>cc_client_id := replicate 60 97\<rparr>" CT_MSG_START_STREAM 0
      "replicate 60 98" 0 1 1]
  by (simp add: default_defconfig_def metadata_size_def metadata_arrays_def metadata_sized_def
      endpoint_sized_def web_metadata_def v4prefix_def)

text \<open>
  A start message arrives as it was sent: when the server's send succeeds, the client on the other
  end of the work connection, holding the same session, accepts it and obtains the same service,
  stream number, encryption mode, addresses and random value, however the bytes are fragmented and
  whatever the receive buffer held before.
\<close>

theorem start_stream_roundtrip:
  assumes B: "hash_sizes B" and m: "metadata_ok m" and len: "length (wk_id work) = 32" "length rnd = 32"
    and fits: "start_fits k c service" and mode: "encm \<in> {CT_ENC_REQUIRED, CT_ENC_DISABLED}"
    and nul: "nul_free service" and idcap: "length service < idcap"
    and k: "k_control_buffer k \<le> 65536" "k_max_frame k \<le> 2 ^ 32 - 1"
    and peer: "cc_keys d = cc_keys c" "cc_client_id d = cc_client_id c" "wk_id work' = wk_id work"
    and sent: "ct_start_stream_send B k work c service sid encm (Some m) (Some rnd) s = (Ok r, s')"
    and wire: "flowing 60000 (sk_in t)" "sk_out s' = sk_out s @ arrives (sk_in t)"
  shows "r = rnd \<and> fst (ct_start_stream_recv B k work' d idcap garbage t) =
    Ok \<lparr>ss_service = service, ss_sid = sid, ss_mode = encm, ss_metadata = m, ss_random = rnd\<rparr>"
proof -
  let ?p = "start_bytes B work c service sid encm m rnd"
  note eq = start_payload_eq [OF B m len fits k(1), of sid encm]
  from sent eq have ok: "r = rnd" "ct_plain_send k s CT_MSG_START_STREAM (session_id (cc_keys c)) sid ?p 5000 = (True, s')"
    by (auto simp: ct_start_stream_send_def Let_def split: prod.splits if_splits)
  let ?h = "\<lparr>fh_type = CT_MSG_START_STREAM, fh_flags = 0, fh_payload_len = of_nat (length ?p),
      fh_session_id = session_id (cc_keys c), fh_stream_id = sid, fh_sequence = 0\<rparr>"
  from plain_send_ok [OF ok(2) k(2)] have out: "sk_out s' = sk_out s @ header_bytes ?h @ ?p"
    "ct_message_type_valid CT_MSG_START_STREAM" "length ?p \<le> k_max_frame k" by auto
  have len_p: "length ?p \<le> k_control_buffer k"
    using length_start_bytes(1) [OF B m len, of c service sid encm] fits by (simp add: start_fits_def)
  have u: "unat (fh_payload_len ?h) = length ?p" using payload_len_unat [of "length ?p"] out(3) k(2) by simp
  then have ho: "header_ok k ?h" using out(2,3) by (simp add: header_ok_def)
  have arr: "arrives (sk_in t) = header_bytes ?h @ ?p @ []" using wire(2) out(1) by simp
  from plain_recv_frame [OF wire(1) arr ho _ u len_p] obtain t' where
    t': "ct_plain_recv k t (k_control_buffer k) 60000 = (Ok (?h, ?p), t')" by auto
  have same: "start_bytes B work' d service sid encm m rnd = ?p"
    using peer by (simp add: start_bytes_def stream_bytes_def)
  have "start_stream_parse B k work' d idcap sid (?p @ drop (length ?p) garbage) (length ?p) =
      Ok \<lparr>ss_service = service, ss_sid = sid, ss_mode = encm, ss_metadata = m, ss_random = rnd\<rparr>"
    using start_parse_bytes [OF B m _ len(2) _ _ nul idcap, of work' k d encm sid] len fits mode peer same
    by (simp add: start_fits_def)
  then show ?thesis using ok(1) t' peer(1) by (simp add: ct_start_stream_recv_def)
qed

definition toy_work :: ct_work where
  "toy_work = \<lparr>wk_fd = 9, wk_id = replicate 32 8\<rparr>"

definition plain_metadata :: ct_stream_metadata where
  "plain_metadata = \<lparr>md_proxy_protocol = 1,
     md_source = \<lparr>ep_family = 4, ep_addr = pad16 [192, 0, 2, 1], ep_port = 1024\<rparr>,
     md_destination = \<lparr>ep_family = 4, ep_addr = pad16 [192, 0, 2, 2], ep_port = 22\<rparr>\<rparr>"

lemma plain_metadata_ok: "metadata_ok plain_metadata"
  by (simp add: metadata_ok_def plain_metadata_def endpoint_ok_def address_length_def take_pad16)

theorem start_stream_roundtrip_witness:
  "\<exists>s'. ct_start_stream_send toy_backend default_defconfig toy_work client_control (lit ''ssh'') 7 0
       (Some plain_metadata) (Some (replicate 32 3)) empty_sock = (Ok (replicate 32 3), s') \<and>
     fst (ct_start_stream_recv toy_backend default_defconfig toy_work client_control 65 []
       \<lparr>sk_in = [Got (sk_out s')], sk_room = [], sk_out = []\<rparr>) =
     Ok \<lparr>ss_service = lit ''ssh'', ss_sid = 7, ss_mode = 0, ss_metadata = plain_metadata,
         ss_random = replicate 32 3\<rparr>"
proof -
  let ?p = "start_bytes toy_backend toy_work client_control (lit ''ssh'') 7 0 plain_metadata (replicate 32 3)"
  have len: "length (wk_id toy_work) = 32" "length (replicate 32 3 :: bytes) = 32" by (simp_all add: toy_work_def)
  have fits: "start_fits default_defconfig client_control (lit ''ssh'')"
    by (simp add: start_fits_def default_defconfig_def client_control_def)
  have mode: "(0 :: u8) \<in> {CT_ENC_REQUIRED, CT_ENC_DISABLED}" by (simp add: enum_defs)
  have nul: "nul_free (lit ''ssh'')" by (simp add: nul_free_def lit_def of_char_def)
  have k: "k_control_buffer default_defconfig \<le> 65536" "k_max_frame default_defconfig \<le> 2 ^ 32 - 1"
    by (simp_all add: default_defconfig_def)
  note eq = start_payload_eq [OF toy_backend_laws(1) plain_metadata_ok len fits k(1), of 7 0]
  note sz = length_start_bytes [OF toy_backend_laws(1) plain_metadata_ok len, where c = client_control and
      service = "lit ''ssh''" and sid = 7 and encm = 0]
  have "?p \<noteq> []" using sz(2) by auto
  then obtain s' where s': "ct_plain_send default_defconfig empty_sock CT_MSG_START_STREAM
      (session_id (cc_keys client_control)) 7 ?p 5000 = (True, s')"
    using plain_send_takes [of empty_sock 1000 1000 "[Takes 1000, Takes 1000]" CT_MSG_START_STREAM ?p
        default_defconfig "session_id (cc_keys client_control)" 7 5000] sz(1)
    by (auto simp: empty_sock_def default_defconfig_def ct_message_type_valid_def msg_defs)
  then have sent: "ct_start_stream_send toy_backend default_defconfig toy_work client_control (lit ''ssh'') 7 0
       (Some plain_metadata) (Some (replicate 32 3)) empty_sock = (Ok (replicate 32 3), s')"
    using eq by (simp add: ct_start_stream_send_def)
  have "sk_out s' \<noteq> []" using plain_send_ok [OF s' k(2)] by (auto simp: header_bytes_def)
  then have flow: "flowing 60000 (sk_in \<lparr>sk_in = [Got (sk_out s')], sk_room = [], sk_out = []\<rparr>)"
    "sk_out s' = sk_out empty_sock @ arrives (sk_in \<lparr>sk_in = [Got (sk_out s')], sk_room = [], sk_out = []\<rparr>)"
    by (simp_all add: empty_sock_def)
  have cap: "length (lit ''ssh'') < 65" by simp
  from start_stream_roundtrip [OF toy_backend_laws(1) plain_metadata_ok len fits mode nul cap k refl refl refl sent flow]
  show ?thesis using sent by blast
qed

text \<open>
  The authentication of a stream is unambiguous: two authenticated stream messages of one session
  that hash the same bytes agree in message type, sender role, work connection, service, encryption
  mode, stream number, random value, result flag and, when both carry addresses, in all of them. A
  start message can therefore not be passed off as a ready message or as one for another service.
\<close>

theorem stream_bytes_injective:
  assumes eq: "stream_bytes c type role work service mode sid rnd (Some m) ok =
      stream_bytes c type' role' work' service' mode' sid' rnd' (Some m') ok'"
    and len: "length work = 32" "length work' = 32" "length rnd = 32" "length rnd' = 32"
    and srv: "length service \<le> 65535" "length service' \<le> 65535"
    and md: "metadata_sized m" "metadata_sized m'"
  shows "type = type' \<and> role = role' \<and> work = work' \<and> service = service' \<and> mode = mode' \<and>
    sid = sid' \<and> rnd = rnd' \<and> m = m' \<and> ok = ok'"
proof -
  from eq len have "work = work'" and
    rest: "string_bytes service @ (ct_put_u64 sid @ rnd @ [mode] @ concat (metadata_fields m) @ [type, role, ok]) =
      string_bytes service' @ (ct_put_u64 sid' @ rnd' @ [mode'] @ concat (metadata_fields m') @ [type', role', ok'])"
    by (simp_all add: stream_bytes_def)
  moreover have "string_ok 65536 service" "string_ok 65536 service'" using srv by (simp_all add: string_ok_def)
  ultimately have "service = service'" and
    tail: "ct_put_u64 sid @ rnd @ [mode] @ concat (metadata_fields m) @ [type, role, ok] =
      ct_put_u64 sid' @ rnd' @ [mode'] @ concat (metadata_fields m') @ [type', role', ok']"
    using str_field.enc_prefix_free [of 65536 service service'] by blast+
  moreover from tail len md have "sid = sid'" "rnd = rnd'" "mode = mode'"
    "concat (metadata_fields m) = concat (metadata_fields m')" "type = type'" "role = role'" "ok = ok'"
    by (simp_all add: metadata_sized_def endpoint_sized_def metadata_fields_def)
  moreover from this(4) md have "m = m'"
    by (cases m; cases m'; cases "md_source m"; cases "md_source m'"; cases "md_destination m"; cases "md_destination m'")
      (simp add: metadata_sized_def endpoint_sized_def metadata_fields_def)
  ultimately show ?thesis using \<open>work = work'\<close> by blast
qed

theorem stream_bytes_injective_witness:
  "stream_bytes client_control CT_MSG_START_STREAM 0 (replicate 32 8) (lit ''ssh'') 0 7 (replicate 32 3)
     (Some plain_metadata) 1 \<noteq>
   stream_bytes client_control CT_MSG_START_STREAM 0 (replicate 32 8) (lit ''web'') 0 7 (replicate 32 3)
     (Some plain_metadata) 1"
proof
  have md: "metadata_sized plain_metadata"
    using metadata_ok_sized [OF plain_metadata_ok] by (simp add: metadata_arrays_def)
  assume eq: "stream_bytes client_control CT_MSG_START_STREAM 0 (replicate 32 8) (lit ''ssh'') 0 7 (replicate 32 3)
     (Some plain_metadata) 1 =
   stream_bytes client_control CT_MSG_START_STREAM 0 (replicate 32 8) (lit ''web'') 0 7 (replicate 32 3)
     (Some plain_metadata) 1"
  from stream_bytes_injective [OF eq _ _ _ _ _ _ md md] show False by (simp add: lit_def of_char_def)
qed

section \<open>Binding a work connection end to end\<close>

definition bind_header :: "ct_control \<Rightarrow> ct_frame_header" where
  "bind_header c = \<lparr>fh_type = CT_MSG_WORK_CONNECTION_BIND, fh_flags = 0, fh_payload_len = 64,
     fh_session_id = session_id (cc_keys c), fh_stream_id = 0, fh_sequence = 0\<rparr>"

lemma bind_header_ok: "64 \<le> k_max_frame k \<Longrightarrow> header_ok k (bind_header c)"
  by (simp add: header_ok_def bind_header_def ct_message_type_valid_def msg_defs)

lemma work_connect_ok:
  assumes run: "ct_work_connect B k c fd (Some r) s ms = (Ok w, c', s', closed)" and r: "length r = 24"
    and B: "hash_sizes B" and k: "k_max_frame k \<le> 2 ^ 32 - 1"
  shows "wk_id w = ct_put_u64 (cc_work_tx_seq c + 1) @ r \<and> cc_work_tx_seq c \<noteq> uint64_max \<and>
    cc_work_tx_seq c' = cc_work_tx_seq c + 1 \<and> length (cc_client_id c) \<le> 80 \<and> closed = [] \<and>
    sk_out s' = sk_out s @ header_bytes (bind_header c) @ wk_id w @
      ct_crypto_mac B (work_auth_key (cc_keys c)) (work_bytes c (wk_id w))"
proof -
  let ?w = "ct_put_u64 (cc_work_tx_seq c + 1) @ r"
  have mac: "workmac B (c\<lparr>cc_work_tx_seq := cc_work_tx_seq c + 1\<rparr>) ?w =
      (if length (cc_client_id c) \<le> 80
       then Ok (ct_crypto_mac B (work_auth_key (cc_keys c)) (work_bytes c ?w)) else Fault)"
    using workmac_eq [of ?w B "c\<lparr>cc_work_tx_seq := cc_work_tx_seq c + 1\<rparr>"] r by (simp add: work_bytes_def)
  from run obtain f where "fd = Some f" by (cases fd) (auto simp: ct_work_connect_def)
  with run mac have st: "wk_id w = ?w" "cc_work_tx_seq c \<noteq> uint64_max" "length (cc_client_id c) \<le> 80" "closed = []"
    "c' = c\<lparr>cc_work_tx_seq := cc_work_tx_seq c + 1\<rparr>"
    "ct_plain_send k s CT_MSG_WORK_CONNECTION_BIND (session_id (cc_keys c)) 0
       (?w @ ct_crypto_mac B (work_auth_key (cc_keys c)) (work_bytes c ?w)) ms = (True, s')"
    by (auto simp: ct_work_connect_def Let_def split: if_splits prod.splits)
  from plain_send_ok [OF st(6) k] st(1-5) r B show ?thesis by (simp add: bind_header_def)
qed

lemma accept_bind_frame:
  assumes B: "hash_sizes B" and k: "64 \<le> k_max_frame k" and wid: "length r = 24"
    and id: "length (cc_client_id d) \<le> 80" and w: "w = ct_put_u64 q @ r"
    and wire: "flowing 5000 (sk_in t)" "arrives (sk_in t) = header_bytes (bind_header d) @ (w @
      ct_crypto_mac B (work_auth_key (cc_keys d)) (work_bytes d w)) @ rest"
  shows "\<exists>t'. ct_work_accept_bind B k f d t =
      (case accept_work_sequence (cc_work_rx d) q of
         Ok v \<Rightarrow> (Ok \<lparr>wk_fd = f, wk_id = w\<rparr>, d\<lparr>cc_work_rx := v\<rparr>, t')
       | Err \<Rightarrow> (Err, d, t') | Fault \<Rightarrow> (Fault, d, t'))"
proof -
  let ?m = "ct_crypto_mac B (work_auth_key (cc_keys d)) (work_bytes d w)"
  have len: "length w = 32" "length (w @ ?m) = 64" using w wid B by simp_all
  have u: "fh_flags (bind_header d) = 0" "unat (fh_payload_len (bind_header d)) = length (w @ ?m)"
    using len by (simp_all add: bind_header_def)
  from plain_recv_frame [OF wire bind_header_ok [OF k] u, of 64] len obtain t' where
    t': "ct_plain_recv k t 64 5000 = (Ok (bind_header d, w @ ?m), t')" by auto
  have "workmac B d w = Ok ?m" using workmac_eq [OF len(1)] id by simp
  moreover have "take 8 (w @ ?m) = ct_put_u64 q" by (simp add: w)
  ultimately show ?thesis
    using t' len B by (auto simp: ct_work_accept_bind_def bind_header_def crypto_equal_eq split: res.splits)
qed

text \<open>
  A work connection is bound once: the bytes a client sends to bind a connection are accepted by
  the server of the same session when their serial number is fresh, yielding the client's connection
  identifier, and the very same bytes are refused afterwards, on this or any other connection.
\<close>

theorem work_bind_once:
  assumes B: "hash_sizes B" and k: "64 \<le> k_max_frame k" "k_max_frame k \<le> 2 ^ 32 - 1" and r: "length r = 24"
    and run: "ct_work_connect B k c fd (Some r) s ms = (Ok w, c', s', closed)"
    and peer: "cc_keys d = cc_keys c" "cc_client_id d = cc_client_id c" "window_rel (cc_work_rx d) S"
    and fresh: "window_accepts S (unat (cc_work_tx_seq c) + 1)"
    and wire: "flowing 5000 (sk_in t)" "sk_out s' = sk_out s @ arrives (sk_in t)"
      "flowing 5000 (sk_in u)" "arrives (sk_in u) = arrives (sk_in t)"
  shows "\<exists>d' t'. ct_work_accept_bind B k f d t = (Ok \<lparr>wk_fd = f, wk_id = wk_id w\<rparr>, d', t') \<and>
    window_rel (cc_work_rx d') (insert (unat (cc_work_tx_seq c) + 1) S) \<and>
    fst (ct_work_accept_bind B k g d' u) = Err"
proof -
  note wc = work_connect_ok [OF run r B k(2)]
  let ?q = "cc_work_tx_seq c + 1"
  have q: "unat ?q = unat (cc_work_tx_seq c) + 1" using wc next_seq by blast
  have same: "bind_header d' = bind_header c" "work_bytes d' x = work_bytes c x"
    if "cc_keys d' = cc_keys c" "cc_client_id d' = cc_client_id c" for d' :: ct_control and x
    using that by (simp_all add: bind_header_def work_bytes_def)
  have arr: "arrives (sk_in t) = header_bytes (bind_header d') @ (wk_id w @
      ct_crypto_mac B (work_auth_key (cc_keys d')) (work_bytes d' (wk_id w))) @ []"
    if "cc_keys d' = cc_keys c" "cc_client_id d' = cc_client_id c" for d'
    using wc wire(2) same [OF that] that by simp
  have id: "length (cc_client_id d) \<le> 80" using wc peer(2) by simp
  have w: "wk_id w = ct_put_u64 ?q @ r" using wc by blast
  from work.accept_fresh [OF peer(3), of ?q] fresh q obtain v where
    v: "accept_work_sequence (cc_work_rx d) ?q = Ok v" "window_rel v (insert (unat ?q) S)" by auto
  from accept_bind_frame [OF B k(1) r id w wire(1) arr [OF peer(1,2)], of f] v(1) obtain t' where
    acc: "ct_work_accept_bind B k f d t = (Ok \<lparr>wk_fd = f, wk_id = wk_id w\<rparr>, d\<lparr>cc_work_rx := v\<rparr>, t')" by auto
  let ?d = "d\<lparr>cc_work_rx := v\<rparr>"
  have "accept_work_sequence (cc_work_rx ?d) ?q = Err"
    using work.reject_other [of "cc_work_rx ?d" "insert (unat ?q) S" ?q] v(2)
    by (simp add: window_accepts_def)
  moreover have "arrives (sk_in u) = header_bytes (bind_header ?d) @ (wk_id w @
      ct_crypto_mac B (work_auth_key (cc_keys ?d)) (work_bytes ?d (wk_id w))) @ []"
    using arr [of ?d] peer wire(4) by simp
  ultimately have "fst (ct_work_accept_bind B k g ?d u) = Err"
    using accept_bind_frame [OF B k(1) r _ w wire(3), of ?d "[]" g] id by auto
  then show ?thesis using acc v(2) q by (intro exI [of _ ?d] exI [of _ t']) simp
qed

theorem work_bind_once_witness:
  "\<exists>w c' s' closed t'. ct_work_connect toy_backend default_defconfig client_control (Some 9)
       (Some (replicate 24 2)) empty_sock 5 = (Ok w, c', s', closed) \<and>
     (\<exists>d'. ct_work_accept_bind toy_backend default_defconfig 4 client_control
       \<lparr>sk_in = [Got (sk_out s')], sk_room = [], sk_out = []\<rparr> = (Ok \<lparr>wk_fd = 4, wk_id = wk_id w\<rparr>, d', t') \<and>
      fst (ct_work_accept_bind toy_backend default_defconfig 5 d'
       \<lparr>sk_in = [Got (sk_out s')], sk_room = [], sk_out = []\<rparr>) = Err)"
proof -
  let ?w = "ct_put_u64 1 @ replicate 24 2"
  let ?p = "?w @ ct_crypto_mac toy_backend (work_auth_key (cc_keys client_control)) (work_bytes client_control ?w)"
  have "length ?p = 64" using toy_backend_laws(1) by simp
  then obtain s' where s': "ct_plain_send default_defconfig empty_sock CT_MSG_WORK_CONNECTION_BIND
      (session_id (cc_keys client_control)) 0 ?p 5 = (True, s')"
    using plain_send_takes [of empty_sock 1000 1000 "[Takes 1000, Takes 1000]" CT_MSG_WORK_CONNECTION_BIND ?p
        default_defconfig "session_id (cc_keys client_control)" 0 5]
    by (auto simp: empty_sock_def default_defconfig_def ct_message_type_valid_def msg_defs)
  have seq: "cc_work_tx_seq client_control = 0" "cc_work_rx client_control = (0, 0)"
    "length (cc_client_id client_control) \<le> 80" by (simp_all add: client_control_def)
  have mac: "workmac toy_backend (client_control\<lparr>cc_work_tx_seq := 1\<rparr>) ?w =
      Ok (ct_crypto_mac toy_backend (work_auth_key (cc_keys client_control)) (work_bytes client_control ?w))"
    using workmac_eq [of ?w toy_backend "client_control\<lparr>cc_work_tx_seq := 1\<rparr>"] seq(3) by (simp add: work_bytes_def)
  have run: "ct_work_connect toy_backend default_defconfig client_control (Some 9) (Some (replicate 24 2))
      empty_sock 5 = (Ok \<lparr>wk_fd = 9, wk_id = ?w\<rparr>, client_control\<lparr>cc_work_tx_seq := 1\<rparr>, s', [])"
    using s' mac seq(1) by (simp add: ct_work_connect_def Let_def)
  have k: "64 \<le> k_max_frame default_defconfig" "k_max_frame default_defconfig \<le> 2 ^ 32 - 1"
    by (simp_all add: default_defconfig_def)
  let ?t = "\<lparr>sk_in = [Got (sk_out s')], sk_room = [], sk_out = []\<rparr>"
  have "sk_out s' \<noteq> []" using plain_send_ok [OF s' k(2)] by (auto simp: header_bytes_def)
  then have flow: "flowing 5000 (sk_in ?t)" "sk_out s' = sk_out empty_sock @ arrives (sk_in ?t)"
    by (simp_all add: empty_sock_def)
  have win: "window_rel (cc_work_rx client_control) {}" "window_accepts {} (unat (cc_work_tx_seq client_control) + 1)"
    using window_rel_init by (simp_all add: seq window_accepts_def highest_def)
  have r: "length (replicate 24 2 :: bytes) = 24" by simp
  from work_bind_once [OF toy_backend_laws(1) k r run refl refl win flow(1,2) flow(1) refl, of 4 5] run
  show ?thesis by fastforce
qed

section \<open>Ready messages\<close>

definition ready_type :: "bool \<Rightarrow> u8" where
  "ready_type ok = (if ok then CT_MSG_STREAM_READY else CT_MSG_STREAM_FAILED)"

definition ready_bytes ::
  "monocypher \<Rightarrow> ct_work \<Rightarrow> ct_control \<Rightarrow> bytes \<Rightarrow> u8 \<Rightarrow> u64 \<Rightarrow> bytes \<Rightarrow> bool \<Rightarrow> bytes" where
  "ready_bytes B work c service mode sid rnd ok =
     string_bytes service @ [mode] @ wk_id work @ rnd @ ct_put_u64 sid @ [if ok then 1 else 0] @
     ct_crypto_mac B (stream_auth_key (cc_keys c))
       (stream_bytes c (ready_type ok) 1 (wk_id work) service mode sid rnd None (if ok then 1 else 0))"

lemma ready_payload_eq:
  assumes B: "hash_sizes B" and len: "length (wk_id work) = 32" "length rnd = 32"
    and fits: "start_fits k c service" and k: "k_control_buffer k \<le> 65536"
  shows "ready_payload B k work c service mode sid rnd ok = Ok (ready_bytes B work c service mode sid rnd ok)"
  using streammac_eq [OF len, of None] fits len k B
  by (simp add: ready_payload_def pack_string_eq emits_eq ready_bytes_def start_fits_def metadata_size_def
      metadata_arrays_def ready_type_def Let_def)

lemma ready_parse_reads:
  assumes "ct_unpack_string (k_max_service_id k + 1) p (length p) 0 = Ok (service, oa)" "nul_free service"
    "length p = oa + 106" "rd_u8 p oa = Ok mode" "rd p (oa + 1) 32 = Ok (wk_id work)" "length (wk_id work) = 32"
    "rd p (oa + 33) 32 = Ok rnd" "rd_u64 p (oa + 65) = Ok sid" "rd_u8 p (oa + 73) = Ok (if ok then 1 else 0)"
    "streammac B k c type 1 (wk_id work) service mode sid rnd None (if ok then 1 else 0) = Ok mac"
    "rd p (oa + 74) 32 = Ok mac" "length mac = 32"
  shows "ready_parse B k work c service mode sid rnd type p = Ok (ok \<and> type = CT_MSG_STREAM_READY)"
  using assms by (simp add: ready_parse_def crypto_equal_eq Let_def)

lemma ready_parse_bytes:
  assumes B: "hash_sizes B" and len: "length (wk_id work) = 32" "length rnd = 32"
    and fits: "start_fits k c service" and nul: "nul_free service"
  shows "ready_parse B k work c service mode sid rnd (ready_type ok) (ready_bytes B work c service mode sid rnd ok) = Ok ok"
proof -
  let ?s = "string_bytes service" and ?i = "ct_put_u64 sid" and ?okb = "if ok then 1 else 0 :: u8"
  let ?mac = "ct_crypto_mac B (stream_auth_key (cc_keys c))
      (stream_bytes c (ready_type ok) 1 (wk_id work) service mode sid rnd None ?okb)"
  let ?o = "length ?s"
  let ?b = "?s @ [mode] @ wk_id work @ rnd @ ?i @ [?okb] @ ?mac"
  have "ready_parse B k work c service mode sid rnd (ready_type ok) ?b = Ok (ok \<and> ready_type ok = CT_MSG_STREAM_READY)"
  proof (rule ready_parse_reads [where oa = ?o and mac = ?mac])
    show "ct_unpack_string (k_max_service_id k + 1) ?b (length ?b) 0 = Ok (service, ?o)"
      using str_field.dec_enc [of "k_max_service_id k + 1" service "[]" "length ?b"] fits
      by (simp add: string_ok_def start_fits_def)
    show "rd_u8 ?b ?o = Ok mode" by (rule rd_u8_at [where pre = ?s]) simp_all
    show "rd ?b (?o + 1) 32 = Ok (wk_id work)" by (rule rd_at [where pre = "?s @ [mode]"]) (simp_all add: len)
    show "rd ?b (?o + 33) 32 = Ok rnd"
      by (rule rd_at [where pre = "?s @ [mode] @ wk_id work"]) (simp_all add: len)
    show "rd_u64 ?b (?o + 65) = Ok sid"
      by (rule rd_u64_at [where pre = "?s @ [mode] @ wk_id work @ rnd"]) (simp_all add: len)
    show "rd_u8 ?b (?o + 73) = Ok ?okb"
      by (rule rd_u8_at [where pre = "?s @ [mode] @ wk_id work @ rnd @ ?i"]) (simp_all add: len)
    show "rd ?b (?o + 74) 32 = Ok ?mac"
      by (rule rd_at [where pre = "?s @ [mode] @ wk_id work @ rnd @ ?i @ [?okb]" and post = "[]"])
        (simp_all add: len B)
    show "streammac B k c (ready_type ok) 1 (wk_id work) service mode sid rnd None ?okb = Ok ?mac"
      using streammac_eq [OF len, of None] fits
      by (simp add: start_fits_def metadata_size_def metadata_arrays_def)
  qed (use len B nul in simp_all)
  then show ?thesis by (simp add: ready_bytes_def ready_type_def msg_defs split: if_splits)
qed

text \<open>
  The client's verdict on a stream reaches the server unchanged: a ready or failed message that
  was sent is accepted by the server waiting for that stream, and it learns exactly the verdict that
  was sent.
\<close>

theorem stream_ready_roundtrip:
  assumes B: "hash_sizes B" and len: "length (wk_id work) = 32" "length rnd = 32"
    and fits: "start_fits k c service" and nul: "nul_free service"
    and k: "k_control_buffer k \<le> 65536" "k_max_frame k \<le> 2 ^ 32 - 1"
    and peer: "cc_keys d = cc_keys c" "cc_client_id d = cc_client_id c" "wk_id work' = wk_id work"
    and sent: "ct_stream_ready_send B k work c service mode sid rnd ok s = (Ok (), s')"
    and wire: "flowing 5000 (sk_in t)" "sk_out s' = sk_out s @ arrives (sk_in t)"
  shows "fst (ct_stream_ready_recv B k work' d service mode sid rnd t) = Ok ok"
proof -
  let ?p = "ready_bytes B work c service mode sid rnd ok"
  from sent ready_payload_eq [OF B len fits k(1), of mode sid ok]
  have ok: "ct_plain_send k s (ready_type ok) (session_id (cc_keys c)) sid ?p 5000 = (True, s')"
    by (auto simp: ct_stream_ready_send_def ready_type_def Let_def split: prod.splits if_splits)
  let ?h = "\<lparr>fh_type = ready_type ok, fh_flags = 0, fh_payload_len = of_nat (length ?p),
      fh_session_id = session_id (cc_keys c), fh_stream_id = sid, fh_sequence = 0\<rparr>"
  from plain_send_ok [OF ok k(2)] have out: "sk_out s' = sk_out s @ header_bytes ?h @ ?p"
    "ct_message_type_valid (ready_type ok)" "length ?p \<le> k_max_frame k" by auto
  have len_p: "length ?p \<le> k_control_buffer k"
    using fits len B by (simp add: ready_bytes_def start_fits_def)
  have u: "unat (fh_payload_len ?h) = length ?p" using payload_len_unat [of "length ?p"] out(3) k(2) by simp
  then have ho: "header_ok k ?h" using out(2,3) by (simp add: header_ok_def)
  have arr: "arrives (sk_in t) = header_bytes ?h @ ?p @ []" using wire(2) out(1) by simp
  from plain_recv_frame [OF wire(1) arr ho _ u len_p] obtain t' where
    t': "ct_plain_recv k t (k_control_buffer k) 5000 = (Ok (?h, ?p), t')" by auto
  have same: "ready_bytes B work' d service mode sid rnd ok = ?p"
    using peer by (simp add: ready_bytes_def stream_bytes_def)
  have "ready_parse B k work' d service mode sid rnd (ready_type ok) ?p = Ok ok"
    using ready_parse_bytes [OF B _ len(2) _ nul, of work' k d mode sid ok] len fits peer same
    by (simp add: start_fits_def)
  then show ?thesis using t' peer(1) by (simp add: ct_stream_ready_recv_def ready_type_def split: if_splits)
qed

theorem stream_ready_roundtrip_witness:
  "\<exists>s'. ct_stream_ready_send toy_backend default_defconfig toy_work client_control (lit ''ssh'') 0 7
       (replicate 32 3) False empty_sock = (Ok (), s') \<and>
     fst (ct_stream_ready_recv toy_backend default_defconfig toy_work client_control (lit ''ssh'') 0 7
       (replicate 32 3) \<lparr>sk_in = [Got (sk_out s')], sk_room = [], sk_out = []\<rparr>) = Ok False"
proof -
  let ?p = "ready_bytes toy_backend toy_work client_control (lit ''ssh'') 0 7 (replicate 32 3) False"
  have len: "length (wk_id toy_work) = 32" "length (replicate 32 3 :: bytes) = 32" by (simp_all add: toy_work_def)
  have fits: "start_fits default_defconfig client_control (lit ''ssh'')"
    by (simp add: start_fits_def default_defconfig_def client_control_def)
  have nul: "nul_free (lit ''ssh'')" by (simp add: nul_free_def lit_def of_char_def)
  have k: "k_control_buffer default_defconfig \<le> 65536" "k_max_frame default_defconfig \<le> 2 ^ 32 - 1"
    by (simp_all add: default_defconfig_def)
  have p: "length ?p = 111" using toy_backend_laws(1) len by (simp add: ready_bytes_def)
  then have "?p \<noteq> []" by (metis list.size(3) zero_neq_numeral)
  with p obtain s' where s': "ct_plain_send default_defconfig empty_sock CT_MSG_STREAM_FAILED
      (session_id (cc_keys client_control)) 7 ?p 5000 = (True, s')"
    using plain_send_takes [of empty_sock 1000 1000 "[Takes 1000, Takes 1000]" CT_MSG_STREAM_FAILED ?p
        default_defconfig "session_id (cc_keys client_control)" 7 5000]
    by (auto simp: empty_sock_def default_defconfig_def ct_message_type_valid_def msg_defs)
  then have sent: "ct_stream_ready_send toy_backend default_defconfig toy_work client_control (lit ''ssh'') 0 7
       (replicate 32 3) False empty_sock = (Ok (), s')"
    using ready_payload_eq [OF toy_backend_laws(1) len fits k(1), of 0 7 False]
    by (simp add: ct_stream_ready_send_def)
  let ?t = "\<lparr>sk_in = [Got (sk_out s')], sk_room = [], sk_out = []\<rparr>"
  have "sk_out s' \<noteq> []" using plain_send_ok [OF s' k(2)] by (auto simp: header_bytes_def)
  then have flow: "flowing 5000 (sk_in ?t)" "sk_out s' = sk_out empty_sock @ arrives (sk_in ?t)"
    by (simp_all add: empty_sock_def)
  from stream_ready_roundtrip [OF toy_backend_laws(1) len fits nul k refl refl refl sent flow] sent
  show ?thesis by blast
qed

end
