(* ===== verification/Config_Types.thy ===== *)
theory Config_Types
  imports Crypto Proxy_Protocol
begin

text \<open>
  The configuration records of \<open>src/src/ctunnel.h\<close>. A fixed array with a count is a list; a
  \<open>char\<close> array is the byte string it holds before its terminator.
\<close>

datatype ct_mode = CT_MODE_NONE | CT_MODE_SERVER | CT_MODE_CLIENT

record ct_port_range =
  pr_first :: u16
  pr_last :: u16

text \<open>\<open>sv_type\<close> is 1 for TCP and 2 for UDP; the counters are C \<open>int\<close>s.\<close>

record ct_service_config =
  sv_id :: bytes
  sv_remote_addr :: bytes
  sv_local_addr :: bytes
  sv_remote_port :: u16
  sv_local_port :: u16
  sv_encryption :: u8
  sv_type :: int
  sv_proxy_protocol :: int
  sv_udp_idle_timeout :: int
  sv_udp_reply_timeout :: int
  sv_udp_max_sessions :: int
  sv_udp_max_datagram_size :: int
  sv_udp_options_seen :: int

record ct_authorized_client =
  au_id :: bytes
  au_public_key :: bytes
  au_allow_addr :: bytes
  au_ports :: "ct_port_range list"
  au_max_services :: int
  au_max_streams :: int

record ct_config =
  cf_mode :: ct_mode
  cf_config_path :: bytes
  cf_bind_addr :: bytes
  cf_server_addr :: bytes
  cf_bind_port :: u16
  cf_server_port :: u16
  cf_client_id :: bytes
  cf_identity_private_key :: bytes
  cf_server_public_key :: bytes
  cf_authorized_clients_file :: bytes
  cf_log_file :: bytes
  cf_cipher_mask :: u32
  cf_preferred_cipher :: u8
  cf_heartbeat_interval :: int
  cf_heartbeat_timeout :: int
  cf_handshake_timeout :: int
  cf_connect_timeout :: int
  cf_reconnect_initial_delay :: int
  cf_reconnect_max_delay :: int
  cf_reconnect_jitter_percent :: int
  cf_pool_count :: int
  cf_max_clients :: int
  cf_max_services_per_client :: int
  cf_max_streams_per_client :: int
  cf_max_pending_streams :: int
  cf_default_data_encryption :: u8
  cf_log_level :: int
  cf_log_rotate_days :: int
  cf_log_max_size_kib :: int
  cf_services :: "ct_service_config list"
  cf_clients :: "ct_authorized_client list"

section \<open>Authorization lookups\<close>

text \<open>The lookups of \<open>src/src/config/config.c\<close> that the handshake and the server use.\<close>

definition ct_authorized_find :: "ct_config \<Rightarrow> bytes \<Rightarrow> ct_authorized_client option" where
  "ct_authorized_find cfg cid = List.find (\<lambda>a. au_id a = cid) (cf_clients cfg)"

definition ct_authorized_port :: "ct_authorized_client \<Rightarrow> bytes \<Rightarrow> u16 \<Rightarrow> bool" where
  "ct_authorized_port a addr p =
     (if au_allow_addr a \<noteq> lit ''*'' \<and> au_allow_addr a \<noteq> addr then False
      else list_ex (\<lambda>r. p \<ge> pr_first r \<and> p \<le> pr_last r) (au_ports a))"

end
