(* ===== verification/Handshake.thy ===== *)
theory Handshake
  imports Channel Keyfile Config_Types
begin

text \<open>
  The mutual authentication of \<open>src/src/net/net.c\<close>: \<open>ct_handshake_client\<close> and the two halves of
  the server side, \<open>ct_handshake_server_begin\<close> and \<open>ct_handshake_server_finish\<close>. The server's
  private state between the halves is \<open>ct_server_handshake\<close>. Key files, fresh randomness and the
  peer's bytes are inputs.
\<close>

unbundle bit_operations_syntax

section \<open>Transcript and signatures\<close>

text \<open>The functions return a length, with \<open>0\<close> for a buffer that is too small.\<close>

definition transcript :: "nat \<Rightarrow> bytes \<Rightarrow> bytes \<Rightarrow> bytes \<Rightarrow> u8 \<Rightarrow> bytes \<Rightarrow> bytes \<Rightarrow> bytes res" where
  "transcript cap ch sr ep cipher client_identity server_identity =
     (if 20 + 5 + length ch + 65 + 64 > cap then Err
      else emits cap [] [lit ''ctunnel-handshake-v3'', ct_put_u32 CT_MAGIC, [CT_PROTOCOL_VERSION], ch,
        sr, ep, [cipher], client_identity, server_identity])"

definition signature_message :: "monocypher \<Rightarrow> string \<Rightarrow> bytes \<Rightarrow> bytes res" where
  "signature_message B role tr =
     (if length role + 32 > 64 then Err else emits 64 [] [lit role, ct_crypto_hash B tr])"

definition choose_cipher :: "u32 \<Rightarrow> u32 \<Rightarrow> u8 \<Rightarrow> u8" where
  "choose_cipher offered allowed preferred =
     (case List.find (\<lambda>c. bit offered (unat c) \<and> bit allowed (unat c) \<and> ct_cipher_available c)
        [preferred, CT_CIPHER_CHACHA] of
        Some c \<Rightarrow> c | None \<Rightarrow> CT_CIPHER_NONE)"

section \<open>Sequencing over a socket\<close>

text \<open>A step that may fail, over the socket it uses.\<close>

definition bindio :: "'a res \<times> sock \<Rightarrow> ('a \<Rightarrow> sock \<Rightarrow> 'b res \<times> sock) \<Rightarrow> 'b res \<times> sock" where
  "bindio r f = (case r of (Ok a, s) \<Rightarrow> f a s | (Err, s) \<Rightarrow> (Err, s) | (Fault, s) \<Rightarrow> (Fault, s))"

definition check :: "bool \<Rightarrow> sock \<Rightarrow> unit res \<times> sock" where
  "check b s = (if b then Ok () else Err, s)"

definition plain_send :: "autoconf \<Rightarrow> u8 \<Rightarrow> u64 \<Rightarrow> u64 \<Rightarrow> bytes \<Rightarrow> nat \<Rightarrow> sock \<Rightarrow> unit res \<times> sock" where
  "plain_send k type session stream p ms s =
     (let (ok, s') = ct_plain_send k s type session stream p ms in check ok s')"

lemma bindio_simps [simp]:
  "bindio (Ok a, s) f = f a s" "bindio (Err, s) f = (Err, s)" "bindio (Fault, s) f = (Fault, s)"
  by (simp_all add: bindio_def)

lemma check_simps [simp]: "check True s = (Ok (), s)" "check False s = (Err, s)"
  by (simp_all add: check_def)

lemma bindio_Ok_iff [res_simps]:
  "bindio r f = (Ok b, t) \<longleftrightarrow> (\<exists>a s. r = (Ok a, s) \<and> f a s = (Ok b, t))"
  by (cases r; cases "fst r") auto

lemma check_Ok_iff [res_simps]: "check b s = (Ok u, t) \<longleftrightarrow> b \<and> t = s"
  by (cases b) auto

section \<open>The client\<close>

definition zero_keys :: ct_session_keys where
  "zero_keys = \<lparr>control_c2s = replicate 32 0, control_s2c = replicate 32 0, data_master = replicate 32 0,
     work_auth_key = replicate 32 0, stream_auth_key = replicate 32 0, nonce_c2s = replicate 16 0,
     nonce_s2c = replicate 16 0, session_id = 0\<rparr>"

text \<open>The control state after \<open>memset\<close> and the first assignments.\<close>

definition new_control :: "u8 \<Rightarrow> bool \<Rightarrow> bytes \<Rightarrow> ct_session_keys \<Rightarrow> ct_control" where
  "new_control cipher is_client client_id keys =
     \<lparr>cc_cipher = cipher, cc_keys = keys, cc_tx_seq = 0, cc_rx_seq = 0, cc_work_tx_seq = 0,
      cc_work_rx = (0, 0), cc_is_client = is_client, cc_client_id = client_id, cc_last_rx_ms = 0,
      cc_last_tx_ms = 0, cc_read_retry_after_ms = 0\<rparr>"

definition hello_payload :: "autoconf \<Rightarrow> bytes \<Rightarrow> bytes \<Rightarrow> bytes \<Rightarrow> u32 \<Rightarrow> bytes res" where
  "hello_payload k client_id cr xpk cmask =
     (let cap = k_control_buffer k in
      andthen (ct_pack_string cap [] client_id (k_max_client_id k)) (\<lambda>o1.
        emits cap o1 [cr, xpk, ct_put_u32 cmask]))"

text \<open>
  \<open>kxr\<close> and \<open>cr\<close> are the two draws of randomness, \<open>now\<close> the clock at the end and \<open>alloc\<close> whether
  \<open>ct_control_recv\<close> gets its buffer. The private key \<open>idsk\<close> carries the public key in its second half.
\<close>

definition ct_handshake_client ::
  "monocypher \<Rightarrow> autoconf \<Rightarrow> bool \<Rightarrow> fs \<Rightarrow> ct_config \<Rightarrow> bytes option \<Rightarrow> bytes option \<Rightarrow> u64 \<Rightarrow> sock \<Rightarrow>
     ct_control res \<times> sock" where
  "ct_handshake_client B k alloc fs cfg kxr crr now s =
     (let ms = nat (cf_handshake_timeout cfg * 1000) in
      bindio (ct_load_private_key fs (cf_identity_private_key cfg), s) (\<lambda>idsk s.
      bindio (ct_load_public_key fs (cf_server_public_key cfg), s) (\<lambda>serverpk s.
      bindio (ct_crypto_kx_keypair B kxr, s) (\<lambda>(xpk, xsk) s.
      bindio (ct_crypto_random crr, s) (\<lambda>cr s.
      bindio (hello_payload k (cf_client_id cfg) cr xpk (cf_cipher_mask cfg), s) (\<lambda>ch s.
      bindio (plain_send k CT_MSG_CLIENT_HELLO 0 0 ch ms s) (\<lambda>_ s.
      bindio (ct_plain_recv k s (k_control_buffer k) ms) (\<lambda>(h, reply) s.
      bindio (check (fh_type h = CT_MSG_SERVER_HELLO \<and> fh_session_id h = 0 \<and> fh_stream_id h = 0 \<and>
          fh_sequence h = 0 \<and> length reply = 129) s) (\<lambda>_ s.
      let sr = take 32 reply; sep = take 32 (drop 32 reply); selected = reply ! 64 in
      bindio (check (selected = CT_CIPHER_CHACHA \<and> bit (cf_cipher_mask cfg) (unat selected) \<and>
          ct_cipher_available selected) s) (\<lambda>_ s.
      bindio (transcript (2 * k_control_buffer k) ch sr sep selected (ct_crypto_hash B (drop 32 idsk))
          (ct_crypto_hash B serverpk), s) (\<lambda>tr s.
      bindio (signature_message B ''ctunnel server handshake v3'' tr, s) (\<lambda>sm s.
      bindio (check (eddsa_check B (drop 65 reply) serverpk sm) s) (\<lambda>_ s.
      bindio (signature_message B ''ctunnel client handshake v3'' tr, s) (\<lambda>cm s.
      bindio (plain_send k CT_MSG_CLIENT_AUTH 0 0 (eddsa_sign B idsk cm) ms s) (\<lambda>_ s.
      bindio (ct_crypto_kx B xsk sep, s) (\<lambda>shared s.
      bindio (check (length (cf_client_id cfg) \<le> k_max_client_id k) s) (\<lambda>_ s.
      bindio (ct_derive_session B k shared tr, s) (\<lambda>keys s.
      let (r, c, s) = ct_control_recv B k alloc now (new_control selected True (cf_client_id cfg) keys) s
            (k_control_buffer k) ms in
      bindio (r, s) (\<lambda>(h, _) s.
      bindio (check (fh_type h = CT_MSG_AUTH_OK) s) (\<lambda>_ s.
      (Ok (c\<lparr>cc_last_rx_ms := now, cc_last_tx_ms := now\<rparr>), s)))))))))))))))))))))"

section \<open>The server\<close>

record ct_server_handshake =
  hs_transcript :: bytes
  hs_ephemeral_private :: bytes
  hs_client_public :: bytes
  hs_cipher :: u8
  hs_client_id :: bytes
  hs_authorized :: "ct_authorized_client option"

text \<open>\<open>ct_handshake_server_abort\<close>: everything zero.\<close>

definition ct_handshake_server_abort :: ct_server_handshake where
  "ct_handshake_server_abort = \<lparr>hs_transcript = [], hs_ephemeral_private = replicate 32 0,
     hs_client_public = replicate 32 0, hs_cipher = CT_CIPHER_NONE, hs_client_id = [], hs_authorized = None\<rparr>"

definition ct_handshake_server_begin ::
  "monocypher \<Rightarrow> autoconf \<Rightarrow> fs \<Rightarrow> ct_config \<Rightarrow> bytes option \<Rightarrow> bytes option \<Rightarrow> sock \<Rightarrow>
     ct_server_handshake res \<times> sock" where
  "ct_handshake_server_begin B k fs cfg kxr srr s =
     (let ms = nat (cf_handshake_timeout cfg * 1000) in
      bindio (ct_plain_recv k s (k_control_buffer k) ms) (\<lambda>(h, ch) s.
      bindio (check (fh_type h = CT_MSG_CLIENT_HELLO \<and> fh_session_id h = 0 \<and> fh_stream_id h = 0 \<and>
          fh_sequence h = 0) s) (\<lambda>_ s.
      bindio (ct_unpack_string (k_max_client_id k + 1) ch (length ch) 0, s) (\<lambda>(wire_id, off) s.
      bindio (check (length ch - off = 68) s) (\<lambda>_ s.
      let cid = cstr wire_id in
      case ct_authorized_find cfg cid of None \<Rightarrow> (Err, s) | Some a \<Rightarrow>
      bindio (ct_load_public_key fs (au_public_key a), s) (\<lambda>client_public s.
      bindio (ct_load_private_key fs (cf_identity_private_key cfg), s) (\<lambda>idsk s.
      bindio (rd_u32 ch (off + 64), s) (\<lambda>offered s.
      let selected = choose_cipher offered (cf_cipher_mask cfg) (cf_preferred_cipher cfg) in
      bindio (check (selected \<noteq> CT_CIPHER_NONE) s) (\<lambda>_ s.
      bindio (ct_crypto_kx_keypair B kxr, s) (\<lambda>(xpk, xsk) s.
      bindio (ct_crypto_random srr, s) (\<lambda>sr s.
      bindio (transcript (2 * k_control_buffer k) ch sr xpk selected (ct_crypto_hash B client_public)
          (ct_crypto_hash B (drop 32 idsk)), s) (\<lambda>tr s.
      bindio (signature_message B ''ctunnel server handshake v3'' tr, s) (\<lambda>sm s.
      bindio (emits (k_control_buffer k) [] [sr, xpk, [selected], eddsa_sign B idsk sm], s) (\<lambda>reply s.
      bindio (plain_send k CT_MSG_SERVER_HELLO 0 0 reply ms s) (\<lambda>_ s.
      (Ok \<lparr>hs_transcript = tr, hs_ephemeral_private = xsk, hs_client_public = client_public,
           hs_cipher = selected, hs_client_id = cid, hs_authorized = Some a\<rparr>, s))))))))))))))))"

text \<open>
  The second half up to the shared secret; until here the caller's control record is not touched.
\<close>

definition finish_verify :: "monocypher \<Rightarrow> autoconf \<Rightarrow> ct_config \<Rightarrow> ct_server_handshake \<Rightarrow> sock \<Rightarrow> (bytes \<times> ct_authorized_client) res \<times> sock" where
  "finish_verify B k cfg hs s =
     (let ms = nat (cf_handshake_timeout cfg * 1000) in
      case hs_authorized hs of None \<Rightarrow> (Err, s) | Some a \<Rightarrow>
      bindio (ct_plain_recv k s (k_control_buffer k) ms) (\<lambda>(h, reply) s.
      bindio (check (fh_type h = CT_MSG_CLIENT_AUTH \<and> fh_session_id h = 0 \<and> fh_stream_id h = 0 \<and>
          fh_sequence h = 0 \<and> length reply = 64) s) (\<lambda>_ s.
      bindio (signature_message B ''ctunnel client handshake v3'' (hs_transcript hs), s) (\<lambda>cm s.
      let peer_offset = 20 + 5 + 2 + length (hs_client_id hs) + 32 in
      bindio (check (eddsa_check B reply (hs_client_public hs) cm \<and>
          \<not> peer_offset > length (hs_transcript hs) \<and>
          \<not> length (hs_transcript hs) - peer_offset < 32) s) (\<lambda>_ s.
      bindio (ct_crypto_kx B (hs_ephemeral_private hs) (take 32 (drop peer_offset (hs_transcript hs))), s)
        (\<lambda>shared s. (Ok (shared, a), s)))))))"

text \<open>\<open>alloc\<close> says whether \<open>ct_control_send\<close> gets its buffer.\<close>

definition ct_handshake_server_finish ::
  "monocypher \<Rightarrow> autoconf \<Rightarrow> bool \<Rightarrow> ct_config \<Rightarrow> ct_server_handshake \<Rightarrow> u64 \<Rightarrow> sock \<Rightarrow>
     (ct_control \<times> ct_authorized_client) res \<times> sock" where
  "ct_handshake_server_finish B k alloc cfg hs now s =
     (let ms = nat (cf_handshake_timeout cfg * 1000) in
      bindio (finish_verify B k cfg hs s) (\<lambda>(shared, a) s.
      bindio (ct_derive_session B k shared (hs_transcript hs), s) (\<lambda>keys s.
      let (ok, c, s) = ct_control_send B k alloc now (new_control (hs_cipher hs) False (hs_client_id hs) keys)
            s CT_MSG_AUTH_OK 0 [] ms in
      bindio (check ok s) (\<lambda>_ s.
      (Ok (c\<lparr>cc_last_rx_ms := now, cc_last_tx_ms := now\<rparr>, a), s)))))"

text \<open>
  What a failed second half leaves in the caller's record, given as its descriptor and the rest: before
  the shared secret only the keys are erased; afterwards the record is that of the new session, with the
  descriptor, the cipher and the client id, and without keys.
\<close>

definition finish_leaves ::
  "monocypher \<Rightarrow> autoconf \<Rightarrow> bool \<Rightarrow> ct_config \<Rightarrow> ct_server_handshake \<Rightarrow> u64 \<Rightarrow> int \<Rightarrow> int \<times> ct_control \<Rightarrow> sock \<Rightarrow> int \<times> ct_control" where
  "finish_leaves B k alloc cfg hs now fd old s =
     (let ms = nat (cf_handshake_timeout cfg * 1000) in
      case finish_verify B k cfg hs s of
        (Ok (shared, a), s1) \<Rightarrow>
          (fd, case ct_derive_session B k shared (hs_transcript hs) of
             Ok keys \<Rightarrow> (case ct_control_send B k alloc now (new_control (hs_cipher hs) False (hs_client_id hs) keys) s1 CT_MSG_AUTH_OK 0 [] ms of
               (ok, c, s2) \<Rightarrow> c\<lparr>cc_keys := zero_keys\<rparr>)
           | _ \<Rightarrow> new_control (hs_cipher hs) False (hs_client_id hs) zero_keys)
      | _ \<Rightarrow> (fst old, (snd old)\<lparr>cc_keys := zero_keys\<rparr>))"

definition ct_handshake_server ::
  "monocypher \<Rightarrow> autoconf \<Rightarrow> bool \<Rightarrow> fs \<Rightarrow> ct_config \<Rightarrow> bytes option \<Rightarrow> bytes option \<Rightarrow> u64 \<Rightarrow> sock \<Rightarrow>
     (ct_control \<times> ct_authorized_client) res \<times> sock" where
  "ct_handshake_server B k alloc fs cfg kxr srr now s =
     bindio (ct_handshake_server_begin B k fs cfg kxr srr s) (\<lambda>hs s.
       ct_handshake_server_finish B k alloc cfg hs now s)"

section \<open>Message forms\<close>

definition plain_header :: "u8 \<Rightarrow> bytes \<Rightarrow> ct_frame_header" where
  "plain_header type p = \<lparr>fh_type = type, fh_flags = 0, fh_payload_len = of_nat (length p),
     fh_session_id = 0, fh_stream_id = 0, fh_sequence = 0\<rparr>"

definition plain_frame :: "u8 \<Rightarrow> bytes \<Rightarrow> bytes" where
  "plain_frame type p = header_bytes (plain_header type p) @ p"

definition hello_bytes :: "bytes \<Rightarrow> bytes \<Rightarrow> bytes \<Rightarrow> u32 \<Rightarrow> bytes" where
  "hello_bytes client_id cr xpk cmask = string_bytes client_id @ cr @ xpk @ ct_put_u32 cmask"

definition transcript_bytes :: "bytes \<Rightarrow> bytes \<Rightarrow> bytes \<Rightarrow> u8 \<Rightarrow> bytes \<Rightarrow> bytes \<Rightarrow> bytes" where
  "transcript_bytes ch sr ep cipher ci si = lit ''ctunnel-handshake-v3'' @ ct_put_u32 CT_MAGIC @
     [CT_PROTOCOL_VERSION] @ ch @ sr @ ep @ [cipher] @ ci @ si"

text \<open>Sockets that take what the handshake sends.\<close>

definition roomy :: "nat \<Rightarrow> sock \<Rightarrow> bool" where
  "roomy n s \<longleftrightarrow> (\<exists>room. sk_room s = replicate n (Takes (2 ^ 20)) @ room)"

lemma transcript_eq:
  "length sr = 32 \<Longrightarrow> length ep = 32 \<Longrightarrow> length ci = 32 \<Longrightarrow> length si = 32 \<Longrightarrow>
     transcript cap ch sr ep cipher ci si =
       (if 154 + length ch \<le> cap then Ok (transcript_bytes ch sr ep cipher ci si) else Err)"
  by (simp add: transcript_def transcript_bytes_def emits_eq)

lemma signature_message_eq:
  "hash_sizes B \<Longrightarrow> length role \<le> 32 \<Longrightarrow> signature_message B role tr = Ok (lit role @ ct_crypto_hash B tr)"
  by (simp add: signature_message_def emits_eq ct_crypto_hash_def hash_sizes_def)

lemma hello_payload_eq:
  "length cr = 32 \<Longrightarrow> length xpk = 32 \<Longrightarrow> length cid \<le> k_max_client_id k \<Longrightarrow> length cid \<le> 65535 \<Longrightarrow>
     70 + length cid \<le> k_control_buffer k \<Longrightarrow> hello_payload k cid cr xpk cmask = Ok (hello_bytes cid cr xpk cmask)"
  by (simp add: hello_payload_def hello_bytes_def pack_string_eq emits_eq)

lemma choose_chacha:
  "bit offered 1 \<Longrightarrow> bit allowed 1 \<Longrightarrow> choose_cipher offered allowed preferred = CT_CIPHER_CHACHA"
  by (simp add: choose_cipher_def ct_cipher_available_def enum_defs)

lemma roomy_step: "roomy (Suc n) s \<Longrightarrow> \<exists>room. sk_room s = Takes (2 ^ 20) # room \<and> roomy n (s\<lparr>sk_room := room, sk_out := o'\<rparr>)"
  by (auto simp: roomy_def)

lemma plain_send_frame:
  assumes "roomy (Suc (Suc n)) s" "ct_message_type_valid type" "p \<noteq> []" "length p \<le> k_max_frame k"
    "length p \<le> 2 ^ 20" "k_max_frame k < 2 ^ 31"
  shows "\<exists>s'. plain_send k type 0 0 p ms s = (Ok (), s') \<and> sk_out s' = sk_out s @ plain_frame type p \<and>
    sk_in s' = sk_in s \<and> roomy n s'"
proof -
  let ?h = "plain_header type p"
  have ok: "header_ok k ?h" using assms payload_len_unat [of "length p"] by (simp add: header_ok_def plain_header_def)
  obtain room where r: "sk_room s = Takes (2 ^ 20) # Takes (2 ^ 20) # room" "\<exists>q. room = replicate n (Takes (2 ^ 20)) @ q"
    using assms(1) by (auto simp: roomy_def)
  have "header_bytes ?h \<noteq> []" by (simp add: header_bytes_def)
  from sendall_takes [OF r(1) this, of ms]
  have 1: "sendall s (header_bytes ?h) ms = (True, s\<lparr>sk_room := Takes (2 ^ 20) # room, sk_out := sk_out s @ header_bytes ?h\<rparr>)"
    by simp
  have 2: "sendall (s\<lparr>sk_room := Takes (2 ^ 20) # room, sk_out := sk_out s @ header_bytes ?h\<rparr>) p ms =
      (True, s\<lparr>sk_room := room, sk_out := sk_out s @ header_bytes ?h @ p\<rparr>)"
    using sendall_takes [of "s\<lparr>sk_room := Takes (2 ^ 20) # room, sk_out := sk_out s @ header_bytes ?h\<rparr>" "2 ^ 20" room p ms] assms
    by simp
  have "plain_send k type 0 0 p ms s = (Ok (), s\<lparr>sk_room := room, sk_out := sk_out s @ header_bytes ?h @ p\<rparr>)"
    using 1 2 ok assms by (simp add: plain_send_def ct_plain_send_def header_encode_eq plain_header_def)
  then show ?thesis using r(2) by (simp add: plain_frame_def roomy_def)
qed

lemma plain_recv_plain:
  assumes "flowing ms (sk_in s)" "arrives (sk_in s) = plain_frame type p @ rest" "ct_message_type_valid type"
    "length p \<le> k_max_frame k" "length p \<le> cap" "k_max_frame k < 2 ^ 31"
  shows "\<exists>s'. ct_plain_recv k s cap ms = (Ok (plain_header type p, p), s') \<and> flowing ms (sk_in s') \<and>
    arrives (sk_in s') = rest \<and> sk_out s' = sk_out s \<and> sk_room s' = sk_room s"
proof -
  have u: "unat (fh_payload_len (plain_header type p)) = length p"
    using payload_len_unat [of "length p"] assms by (simp add: plain_header_def)
  then have ok: "header_ok k (plain_header type p)" using assms by (simp add: header_ok_def plain_header_def)
  show ?thesis
    by (rule plain_recv_frame) (use assms u ok in \<open>simp_all add: plain_frame_def plain_header_def\<close>)
qed

lemma roomy_same: "sk_room s' = sk_room s \<Longrightarrow> roomy n s' = roomy n s"
  by (simp add: roomy_def)

section \<open>An honest exchange\<close>

text \<open>
  The two parties' inputs: key pairs from their seeds, one another's public keys on file, the drawn
  secrets and random values, and configurations that name the same client and allow the cipher.
\<close>

record exchange =
  ex_client_seed :: bytes
  ex_server_seed :: bytes
  ex_client_secret :: bytes
  ex_server_secret :: bytes
  ex_client_random :: bytes
  ex_server_random :: bytes

definition client_pub :: "monocypher \<Rightarrow> exchange \<Rightarrow> bytes" where
  "client_pub B x = x25519_public_key B (ex_client_secret x)"

definition server_pub :: "monocypher \<Rightarrow> exchange \<Rightarrow> bytes" where
  "server_pub B x = x25519_public_key B (ex_server_secret x)"

definition ex_shared :: "monocypher \<Rightarrow> exchange \<Rightarrow> bytes" where
  "ex_shared B x = x25519 B (ex_client_secret x) (server_pub B x)"

definition ex_hello :: "monocypher \<Rightarrow> ct_config \<Rightarrow> exchange \<Rightarrow> bytes" where
  "ex_hello B cfg x = hello_bytes (cf_client_id cfg) (ex_client_random x) (client_pub B x) (cf_cipher_mask cfg)"

definition ex_transcript :: "monocypher \<Rightarrow> ct_config \<Rightarrow> exchange \<Rightarrow> bytes" where
  "ex_transcript B cfg x = transcript_bytes (ex_hello B cfg x) (ex_server_random x) (server_pub B x) CT_CIPHER_CHACHA
     (ct_crypto_hash B (snd (eddsa_key_pair B (ex_client_seed x))))
     (ct_crypto_hash B (snd (eddsa_key_pair B (ex_server_seed x))))"

definition ex_server_hello :: "monocypher \<Rightarrow> ct_config \<Rightarrow> exchange \<Rightarrow> bytes" where
  "ex_server_hello B cfg x = ex_server_random x @ server_pub B x @ [CT_CIPHER_CHACHA] @
     eddsa_sign B (fst (eddsa_key_pair B (ex_server_seed x)))
       (lit ''ctunnel server handshake v3'' @ ct_crypto_hash B (ex_transcript B cfg x))"

definition ex_auth :: "monocypher \<Rightarrow> ct_config \<Rightarrow> exchange \<Rightarrow> bytes" where
  "ex_auth B cfg x = eddsa_sign B (fst (eddsa_key_pair B (ex_client_seed x)))
     (lit ''ctunnel client handshake v3'' @ ct_crypto_hash B (ex_transcript B cfg x))"

definition ex_keys :: "monocypher \<Rightarrow> autoconf \<Rightarrow> ct_config \<Rightarrow> exchange \<Rightarrow> ct_session_keys" where
  "ex_keys B k cfg x = session_of B k (ex_shared B x) (ex_transcript B cfg x)"

definition exchange_ok ::
  "monocypher \<Rightarrow> autoconf \<Rightarrow> fs \<Rightarrow> ct_config \<Rightarrow> fs \<Rightarrow> ct_config \<Rightarrow> ct_authorized_client \<Rightarrow> exchange \<Rightarrow> bool" where
  "exchange_ok B k cfs ccfg sfs scfg a x \<longleftrightarrow>
     ct_load_private_key cfs (cf_identity_private_key ccfg) = Ok (fst (eddsa_key_pair B (ex_client_seed x))) \<and>
     ct_load_public_key cfs (cf_server_public_key ccfg) = Ok (snd (eddsa_key_pair B (ex_server_seed x))) \<and>
     ct_load_private_key sfs (cf_identity_private_key scfg) = Ok (fst (eddsa_key_pair B (ex_server_seed x))) \<and>
     ct_authorized_find scfg (cf_client_id ccfg) = Some a \<and>
     ct_load_public_key sfs (au_public_key a) = Ok (snd (eddsa_key_pair B (ex_client_seed x))) \<and>
     length (ex_client_random x) = 32 \<and> length (ex_server_random x) = 32 \<and>
     bit (cf_cipher_mask ccfg) 1 \<and> bit (cf_cipher_mask scfg) 1 \<and>
     ex_shared B x \<noteq> replicate 32 0 \<and>
     nul_free (cf_client_id ccfg) \<and> length (cf_client_id ccfg) \<le> k_max_client_id k \<and>
     length (cf_client_id ccfg) \<le> 256"

text \<open>The build constants the exchange needs; every configuration in the Kconfig ranges with a control
  buffer of 326 bytes or more has them.\<close>

definition handshake_build :: "autoconf \<Rightarrow> bool" where
  "handshake_build k \<longleftrightarrow> 326 \<le> k_control_buffer k \<and> k_control_buffer k \<le> 65536 \<and>
     4096 \<le> k_max_frame k \<and> k_max_frame k < 2 ^ 31"

definition crypto_laws :: "monocypher \<Rightarrow> bool" where
  "crypto_laws B \<longleftrightarrow> hash_sizes B \<and> aead_opens B \<and> aead_sizes B \<and> x25519_agrees B \<and> x25519_sizes B \<and> eddsa_signs B"

lemma exchange_sizes:
  assumes "crypto_laws B" "exchange_ok B k cfs ccfg sfs scfg a x"
  shows "length (client_pub B x) = 32" "length (server_pub B x) = 32"
    "length (ex_hello B ccfg x) = 70 + length (cf_client_id ccfg)"
    "length (ex_server_hello B ccfg x) = 129" "length (ex_auth B ccfg x) = 64"
    "length (ct_crypto_hash B m) = 32"
    "drop 32 (fst (eddsa_key_pair B seed)) = snd (eddsa_key_pair B seed)"
    "eddsa_check B (eddsa_sign B (fst (eddsa_key_pair B seed)) msg) (snd (eddsa_key_pair B seed)) msg"
  using assms
  by (auto simp: crypto_laws_def x25519_sizes_def client_pub_def server_pub_def ex_hello_def hello_bytes_def
      ex_server_hello_def ex_auth_def eddsa_signs_def hash_sizes_def ct_crypto_hash_def exchange_ok_def split: prod.splits)
    (metis prod.collapse)+

lemma hello_fields:
  assumes "length cid \<le> k_max_client_id k" "length cid \<le> 256" "length cr = 32" "length xpk = 32"
  shows "ct_unpack_string (k_max_client_id k + 1) (hello_bytes cid cr xpk cmask)
      (length (hello_bytes cid cr xpk cmask)) 0 = Ok (cid, 2 + length cid)"
    "rd_u32 (hello_bytes cid cr xpk cmask) (2 + length cid + 64) = Ok cmask"
proof -
  show "ct_unpack_string (k_max_client_id k + 1) (hello_bytes cid cr xpk cmask)
      (length (hello_bytes cid cr xpk cmask)) 0 = Ok (cid, 2 + length cid)"
    using str_field.dec_enc [of "k_max_client_id k + 1" cid "[]" "length (hello_bytes cid cr xpk cmask)"
        "cr @ xpk @ ct_put_u32 cmask"] assms
    by (simp add: hello_bytes_def string_ok_def)
  show "rd_u32 (hello_bytes cid cr xpk cmask) (2 + length cid + 64) = Ok cmask"
    using rd_ints_append(2) [of "2 + length cid + 64" "string_bytes cid @ cr @ xpk" cmask "[]"] assms
    by (simp add: hello_bytes_def)
qed

lemma msg_types_valid:
  "ct_message_type_valid CT_MSG_CLIENT_HELLO" "ct_message_type_valid CT_MSG_SERVER_HELLO"
  "ct_message_type_valid CT_MSG_CLIENT_AUTH" "ct_message_type_valid CT_MSG_AUTH_OK"
  by (simp_all add: ct_message_type_valid_def msg_defs)

lemma server_begin_honest:
  assumes B: "crypto_laws B" and x: "exchange_ok B k cfs ccfg sfs scfg a x" and k: "handshake_build k"
    and ms: "ms = nat (cf_handshake_timeout scfg * 1000)"
    and t: "flowing ms (sk_in t)" "arrives (sk_in t) = plain_frame CT_MSG_CLIENT_HELLO (ex_hello B ccfg x) @ rest"
      "roomy (Suc (Suc n)) t"
  shows "\<exists>t'. ct_handshake_server_begin B k sfs scfg (Some (ex_server_secret x)) (Some (ex_server_random x)) t =
      (Ok \<lparr>hs_transcript = ex_transcript B ccfg x, hs_ephemeral_private = ex_server_secret x,
         hs_client_public = snd (eddsa_key_pair B (ex_client_seed x)), hs_cipher = CT_CIPHER_CHACHA,
         hs_client_id = cf_client_id ccfg, hs_authorized = Some a\<rparr>, t') \<and>
    flowing ms (sk_in t') \<and> arrives (sk_in t') = rest \<and> roomy n t' \<and>
    sk_out t' = sk_out t @ plain_frame CT_MSG_SERVER_HELLO (ex_server_hello B ccfg x)"
proof -
  note sz = exchange_sizes [OF B x]
  let ?ch = "ex_hello B ccfg x"
  have lch: "length ?ch \<le> k_control_buffer k" "length ?ch \<le> k_max_frame k"
    using sz(3) x k by (simp_all add: exchange_ok_def handshake_build_def)
  from plain_recv_plain [OF t(1,2) msg_types_valid(1) lch(2,1)] k obtain t1 where
    t1: "ct_plain_recv k t (k_control_buffer k) ms = (Ok (plain_header CT_MSG_CLIENT_HELLO ?ch, ?ch), t1)"
      "flowing ms (sk_in t1)" "arrives (sk_in t1) = rest" "sk_out t1 = sk_out t" "sk_room t1 = sk_room t"
    by (auto simp: handshake_build_def)
  have "roomy (Suc (Suc n)) t1" using t(3) roomy_same [OF t1(5)] by simp
  moreover have "ex_server_hello B ccfg x \<noteq> []" using sz(4) by auto
  ultimately obtain t2 where
    t2: "plain_send k CT_MSG_SERVER_HELLO 0 0 (ex_server_hello B ccfg x) ms t1 = (Ok (), t2)"
      "sk_out t2 = sk_out t1 @ plain_frame CT_MSG_SERVER_HELLO (ex_server_hello B ccfg x)" "sk_in t2 = sk_in t1" "roomy n t2"
    using plain_send_frame [of n t1 CT_MSG_SERVER_HELLO "ex_server_hello B ccfg x" k ms] msg_types_valid(2) sz(4) k
    by (auto simp: handshake_build_def)
  have cid: "length (cf_client_id ccfg) \<le> k_max_client_id k" "length (cf_client_id ccfg) \<le> 256"
    "length (ex_client_random x) = 32" using x by (simp_all add: exchange_ok_def)
  note fields = hello_fields [OF cid sz(1), of "cf_cipher_mask ccfg", folded ex_hello_def]
  have tr: "transcript (2 * k_control_buffer k) ?ch (ex_server_random x) (server_pub B x) CT_CIPHER_CHACHA
      (ct_crypto_hash B (snd (eddsa_key_pair B (ex_client_seed x))))
      (ct_crypto_hash B (snd (eddsa_key_pair B (ex_server_seed x)))) = Ok (ex_transcript B ccfg x)"
    using sz x k by (subst transcript_eq) (simp_all add: exchange_ok_def handshake_build_def ex_transcript_def)
  have sm: "signature_message B ''ctunnel server handshake v3'' (ex_transcript B ccfg x) =
      Ok (lit ''ctunnel server handshake v3'' @ ct_crypto_hash B (ex_transcript B ccfg x))"
    using B by (intro signature_message_eq) (simp_all add: crypto_laws_def)
  have reply: "emits (k_control_buffer k) [] [ex_server_random x, server_pub B x, [CT_CIPHER_CHACHA],
      eddsa_sign B (fst (eddsa_key_pair B (ex_server_seed x))) (lit ''ctunnel server handshake v3'' @
        ct_crypto_hash B (ex_transcript B ccfg x))] = Ok (ex_server_hello B ccfg x)"
    using sz(4) k by (simp add: emits_eq ex_server_hello_def handshake_build_def)
  have sel: "choose_cipher (cf_cipher_mask ccfg) (cf_cipher_mask scfg) (cf_preferred_cipher scfg) = CT_CIPHER_CHACHA"
    using x by (simp add: choose_chacha exchange_ok_def)
  have ne: "CT_CIPHER_CHACHA \<noteq> CT_CIPHER_NONE" by (simp add: enum_defs)
  have pub: "x25519_public_key B (ex_server_secret x) = server_pub B x" by (simp add: server_pub_def)
  have "cstr (cf_client_id ccfg) = cf_client_id ccfg" using x by (simp add: exchange_ok_def)
  then show ?thesis
    unfolding ct_handshake_server_begin_def
    using t1 t2 fields tr sm reply sel ne sz(3,7) x pub ms
    by (simp add: plain_header_def exchange_ok_def ct_crypto_kx_keypair_def ct_crypto_random_def)
qed

lemma recvall_frame: "recvall s n ms = (r, s') \<Longrightarrow> sk_out s' = sk_out s"
  by (auto simp: recvall_def split: prod.splits)

lemma control_recv_out: "ct_control_recv B k alloc now c s cap ms = (r, c', s') \<Longrightarrow> sk_out s' = sk_out s"
  by (auto simp: ct_control_recv_def Let_def dest!: recvall_frame
      split: prod.splits option.splits res.splits if_split_asm)

lemma control_send_roomy:
  assumes B: "aead_sizes B" and s: "roomy (Suc (Suc n)) s" and type: "ct_message_type_valid type"
    and c: "cc_cipher c = CT_CIPHER_CHACHA" "cc_tx_seq c \<noteq> uint64_max"
    and k: "length p + 16 \<le> k_max_frame k" "length p + 16 \<le> 2 ^ 20" "k_max_frame k < 2 ^ 31"
  shows "\<exists>f s'. control_frame B k c type stream p = Ok f \<and>
    ct_control_send B k True now c s type stream p ms =
      (True, c\<lparr>cc_tx_seq := cc_tx_seq c + 1, cc_last_tx_ms := now\<rparr>, s') \<and>
    sk_out s' = sk_out s @ f \<and> sk_in s' = sk_in s \<and> roomy n s'"
proof -
  let ?h = "control_header c type stream (length p)"
  have "unat (fh_payload_len ?h) = length p + 16"
    using payload_len_unat [of "length p + 16"] k by (simp add: control_header_def)
  then have ok: "header_ok k ?h" using type k by (simp add: header_ok_def control_header_def)
  obtain box where box: "ct_aead_encrypt B (cc_cipher c) (tx_key c) (tx_base c) (cc_tx_seq c + 1)
      (header_bytes ?h) p = Ok box" "length box = length p + 16"
    using encrypt_ok [OF B, of "cc_cipher c" p "tx_key c" "tx_base c" "cc_tx_seq c + 1" "header_bytes ?h"] c k
    by (auto simp: ct_cipher_available_def)
  have ne: "header_bytes ?h \<noteq> []" "box \<noteq> []" using box(2) by (auto simp: header_bytes_def)
  obtain room where r: "sk_room s = Takes (2 ^ 20) # Takes (2 ^ 20) # room" "\<exists>q. room = replicate n (Takes (2 ^ 20)) @ q"
    using s by (auto simp: roomy_def)
  let ?s1 = "s\<lparr>sk_room := Takes (2 ^ 20) # room, sk_out := sk_out s @ header_bytes ?h\<rparr>"
  have 1: "sendall s (header_bytes ?h) ms = (True, ?s1)" using sendall_takes [OF r(1) ne(1), of ms] by simp
  have 2: "sendall ?s1 box ms = (True, s\<lparr>sk_room := room, sk_out := sk_out s @ header_bytes ?h @ box\<rparr>)"
    using sendall_takes [of ?s1 "2 ^ 20" room box ms] ne(2) box(2) k by simp
  have le: "\<not> k_max_frame k - 16 < length p" using k(1) by simp
  have "ct_control_send B k True now c s type stream p ms =
      (True, c\<lparr>cc_tx_seq := cc_tx_seq c + 1, cc_last_tx_ms := now\<rparr>,
       s\<lparr>sk_room := room, sk_out := sk_out s @ header_bytes ?h @ box\<rparr>)"
    using 1 2 ok box(1) c(2) le
    by (simp add: ct_control_send_def Let_def header_encode_eq control_header_def tx_key_def tx_base_def)
  moreover have "control_frame B k c type stream p = Ok (header_bytes ?h @ box)"
    using ok box(1) c(2) k(1) le by (simp add: control_frame_def Let_def)
  ultimately show ?thesis using r(2) by (auto simp: roomy_def)
qed

definition server_start :: "monocypher \<Rightarrow> autoconf \<Rightarrow> ct_config \<Rightarrow> exchange \<Rightarrow> ct_control" where
  "server_start B k ccfg x = new_control CT_CIPHER_CHACHA False (cf_client_id ccfg) (ex_keys B k ccfg x)"

lemma kx_ok: "length (x25519 B a b) = 32 \<Longrightarrow> x25519 B a b \<noteq> replicate 32 0 \<Longrightarrow> ct_crypto_kx B a b = Ok (x25519 B a b)"
  by (simp add: ct_crypto_kx_def crypto_verify32_def neq0_correct x32_eq_0)

lemma server_finish_honest:
  assumes B: "crypto_laws B" and x: "exchange_ok B k cfs ccfg sfs scfg a x" and k: "handshake_build k"
    and ms: "ms = nat (cf_handshake_timeout scfg * 1000)"
    and hs: "hs = \<lparr>hs_transcript = ex_transcript B ccfg x, hs_ephemeral_private = ex_server_secret x,
         hs_client_public = snd (eddsa_key_pair B (ex_client_seed x)), hs_cipher = CT_CIPHER_CHACHA,
         hs_client_id = cf_client_id ccfg, hs_authorized = Some a\<rparr>"
    and t: "flowing ms (sk_in t)" "arrives (sk_in t) = plain_frame CT_MSG_CLIENT_AUTH (ex_auth B ccfg x) @ rest"
      "roomy (Suc (Suc n)) t"
  shows "\<exists>t' f. control_frame B k (server_start B k ccfg x) CT_MSG_AUTH_OK 0 [] = Ok f \<and>
    ct_handshake_server_finish B k True scfg hs now t =
      (Ok ((server_start B k ccfg x)\<lparr>cc_tx_seq := 1, cc_last_rx_ms := now, cc_last_tx_ms := now\<rparr>, a), t') \<and>
    arrives (sk_in t') = rest \<and> sk_out t' = sk_out t @ f"
proof -
  note sz = exchange_sizes [OF B x]
  have la: "length (ex_auth B ccfg x) \<le> k_max_frame k" "length (ex_auth B ccfg x) \<le> k_control_buffer k"
    using sz(5) k by (simp_all add: handshake_build_def)
  from plain_recv_plain [OF t(1,2) msg_types_valid(3) la] k obtain t1 where
    t1: "ct_plain_recv k t (k_control_buffer k) ms = (Ok (plain_header CT_MSG_CLIENT_AUTH (ex_auth B ccfg x), ex_auth B ccfg x), t1)"
      "flowing ms (sk_in t1)" "arrives (sk_in t1) = rest" "sk_out t1 = sk_out t" "sk_room t1 = sk_room t"
    by (auto simp: handshake_build_def)
  have cm: "signature_message B ''ctunnel client handshake v3'' (ex_transcript B ccfg x) =
      Ok (lit ''ctunnel client handshake v3'' @ ct_crypto_hash B (ex_transcript B ccfg x))"
    using B by (intro signature_message_eq) (simp_all add: crypto_laws_def)
  have chk: "eddsa_check B (ex_auth B ccfg x) (snd (eddsa_key_pair B (ex_client_seed x)))
      (lit ''ctunnel client handshake v3'' @ ct_crypto_hash B (ex_transcript B ccfg x))"
    using sz(8) by (simp add: ex_auth_def)
  have cr: "length (ex_client_random x) = 32" using x by (simp add: exchange_ok_def)
  let ?po = "20 + 5 + 2 + length (cf_client_id ccfg) + 32"
  define pre where "pre = lit ''ctunnel-handshake-v3'' @ ct_put_u32 CT_MAGIC @ [CT_PROTOCOL_VERSION] @
      string_bytes (cf_client_id ccfg) @ ex_client_random x"
  obtain post where tr: "ex_transcript B ccfg x = pre @ client_pub B x @ post"
    by (simp add: ex_transcript_def transcript_bytes_def ex_hello_def hello_bytes_def pre_def)
  have lp: "length pre = ?po" using cr by (simp add: pre_def)
  have "take 32 (drop (length pre) (ex_transcript B ccfg x)) = client_pub B x"
    "length pre + 32 \<le> length (ex_transcript B ccfg x)" using sz(1) by (simp_all add: tr)
  then have peer: "take 32 (drop ?po (ex_transcript B ccfg x)) = client_pub B x"
    "?po + 32 \<le> length (ex_transcript B ccfg x)" unfolding lp by blast+
  have sh: "x25519 B (ex_server_secret x) (client_pub B x) = ex_shared B x"
    using B by (simp add: crypto_laws_def x25519_agrees_def ex_shared_def client_pub_def server_pub_def)
  have lsh: "length (x25519 B (ex_server_secret x) (client_pub B x)) = 32"
    using B by (simp add: crypto_laws_def x25519_sizes_def)
  have kx: "ct_crypto_kx B (ex_server_secret x) (client_pub B x) = Ok (ex_shared B x)"
    using kx_ok [OF lsh] sh x by (simp add: exchange_ok_def)
  have keys: "ct_derive_session B k (ex_shared B x) (ex_transcript B ccfg x) = Ok (ex_keys B k ccfg x)"
    using B by (simp add: derive_session_eq crypto_laws_def ex_keys_def)
  have r1: "roomy (Suc (Suc n)) t1" using t(3) roomy_same [OF t1(5)] by simp
  have "aead_sizes B" using B by (simp add: crypto_laws_def)
  from control_send_roomy [OF this r1 msg_types_valid(4), of "server_start B k ccfg x" "[]" k 0 now ms] k
  obtain f t2 where f: "control_frame B k (server_start B k ccfg x) CT_MSG_AUTH_OK 0 [] = Ok f"
    "ct_control_send B k True now (server_start B k ccfg x) t1 CT_MSG_AUTH_OK 0 [] ms =
       (True, (server_start B k ccfg x)\<lparr>cc_tx_seq := 1, cc_last_tx_ms := now\<rparr>, t2)"
    "sk_out t2 = sk_out t1 @ f" "sk_in t2 = sk_in t1"
    by (auto simp: server_start_def new_control_def handshake_build_def)
  have room: "\<not> length (ex_transcript B ccfg x) - (59 + length (cf_client_id ccfg)) < 32"
    using peer(2) by linarith
  show ?thesis
    unfolding ct_handshake_server_finish_def finish_verify_def
    using t1 cm chk peer room kx keys f sz(5) ms hs
    by (simp add: plain_header_def server_start_def [symmetric])
qed

lemma client_honest:
  assumes B: "crypto_laws B" and x: "exchange_ok B k cfs ccfg sfs scfg a x" and k: "handshake_build k"
    and ms: "ms = nat (cf_handshake_timeout ccfg * 1000)"
    and f: "control_frame B k (server_start B k ccfg x) CT_MSG_AUTH_OK 0 [] = Ok f"
    and s: "flowing ms (sk_in s)"
      "arrives (sk_in s) = plain_frame CT_MSG_SERVER_HELLO (ex_server_hello B ccfg x) @ f @ rest" "roomy 4 s"
  shows "\<exists>s'. ct_handshake_client B k True cfs ccfg (Some (ex_client_secret x)) (Some (ex_client_random x)) now s =
      (Ok ((new_control CT_CIPHER_CHACHA True (cf_client_id ccfg) (ex_keys B k ccfg x))
        \<lparr>cc_rx_seq := 1, cc_last_rx_ms := now, cc_last_tx_ms := now\<rparr>), s') \<and>
    arrives (sk_in s') = rest \<and>
    sk_out s' = sk_out s @ plain_frame CT_MSG_CLIENT_HELLO (ex_hello B ccfg x) @
      plain_frame CT_MSG_CLIENT_AUTH (ex_auth B ccfg x)"
proof -
  note sz = exchange_sizes [OF B x]
  have kk: "k_max_frame k < 2 ^ 31" "4096 \<le> k_max_frame k" "326 \<le> k_control_buffer k" "k_control_buffer k \<le> 65536"
    using k by (simp_all add: handshake_build_def)
  have cid: "length (cf_client_id ccfg) \<le> k_max_client_id k" "length (cf_client_id ccfg) \<le> 256"
    "length (ex_client_random x) = 32" "length (ex_server_random x) = 32" using x by (simp_all add: exchange_ok_def)
  have hello: "hello_payload k (cf_client_id ccfg) (ex_client_random x) (client_pub B x) (cf_cipher_mask ccfg) =
      Ok (ex_hello B ccfg x)"
    using cid sz(1) kk by (simp add: hello_payload_eq ex_hello_def)
  have r4: "roomy (Suc (Suc 2)) s" using s(3) by (simp add: eval_nat_numeral)
  have lh: "ex_hello B ccfg x \<noteq> []" "length (ex_hello B ccfg x) \<le> k_max_frame k" "length (ex_hello B ccfg x) \<le> 2 ^ 20"
    using sz(3) cid kk by auto
  from plain_send_frame [OF r4 msg_types_valid(1) lh kk(1)] obtain s1 where
    s1: "plain_send k CT_MSG_CLIENT_HELLO 0 0 (ex_hello B ccfg x) ms s = (Ok (), s1)"
      "sk_out s1 = sk_out s @ plain_frame CT_MSG_CLIENT_HELLO (ex_hello B ccfg x)" "sk_in s1 = sk_in s" "roomy 2 s1" by blast
  let ?sh = "ex_server_hello B ccfg x"
  have lsh: "length ?sh \<le> k_max_frame k" "length ?sh \<le> k_control_buffer k" using sz(4) kk by simp_all
  have w1: "flowing ms (sk_in s1)" "arrives (sk_in s1) = plain_frame CT_MSG_SERVER_HELLO ?sh @ (f @ rest)"
    using s(1,2) s1(3) by simp_all
  from plain_recv_plain [OF w1 msg_types_valid(2) lsh kk(1)] obtain s2 where
    s2: "ct_plain_recv k s1 (k_control_buffer k) ms = (Ok (plain_header CT_MSG_SERVER_HELLO ?sh, ?sh), s2)"
      "flowing ms (sk_in s2)" "arrives (sk_in s2) = f @ rest" "sk_out s2 = sk_out s1" "sk_room s2 = sk_room s1" by blast
  have parts: "take 32 ?sh = ex_server_random x" "take 32 (drop 32 ?sh) = server_pub B x" "?sh ! 64 = CT_CIPHER_CHACHA"
    "drop 65 ?sh = eddsa_sign B (fst (eddsa_key_pair B (ex_server_seed x)))
       (lit ''ctunnel server handshake v3'' @ ct_crypto_hash B (ex_transcript B ccfg x))"
    using cid sz(2) by (simp_all add: ex_server_hello_def nth_append)
  have tr: "transcript (2 * k_control_buffer k) (ex_hello B ccfg x) (ex_server_random x) (server_pub B x) CT_CIPHER_CHACHA
      (ct_crypto_hash B (snd (eddsa_key_pair B (ex_client_seed x))))
      (ct_crypto_hash B (snd (eddsa_key_pair B (ex_server_seed x)))) = Ok (ex_transcript B ccfg x)"
    using sz cid kk by (subst transcript_eq) (simp_all add: ex_transcript_def)
  have sm: "signature_message B ''ctunnel server handshake v3'' (ex_transcript B ccfg x) =
      Ok (lit ''ctunnel server handshake v3'' @ ct_crypto_hash B (ex_transcript B ccfg x))"
    "signature_message B ''ctunnel client handshake v3'' (ex_transcript B ccfg x) =
      Ok (lit ''ctunnel client handshake v3'' @ ct_crypto_hash B (ex_transcript B ccfg x))"
    using B by (simp_all add: signature_message_eq crypto_laws_def)
  have r2: "roomy (Suc (Suc 0)) s2" using s1(4) roomy_same [OF s2(5)] by (simp add: eval_nat_numeral)
  have lau: "ex_auth B ccfg x \<noteq> []" "length (ex_auth B ccfg x) \<le> k_max_frame k" "length (ex_auth B ccfg x) \<le> 2 ^ 20"
    using sz(5) kk by auto
  from plain_send_frame [OF r2 msg_types_valid(3) lau kk(1)] obtain s3 where
    s3: "plain_send k CT_MSG_CLIENT_AUTH 0 0 (ex_auth B ccfg x) ms s2 = (Ok (), s3)"
      "sk_out s3 = sk_out s2 @ plain_frame CT_MSG_CLIENT_AUTH (ex_auth B ccfg x)" "sk_in s3 = sk_in s2" by blast
  have lsx: "length (x25519 B (ex_client_secret x) (server_pub B x)) = 32"
    using B by (simp add: crypto_laws_def x25519_sizes_def)
  have kx: "ct_crypto_kx B (ex_client_secret x) (server_pub B x) = Ok (ex_shared B x)"
    using kx_ok [OF lsx] x by (simp add: exchange_ok_def ex_shared_def)
  have keys: "ct_derive_session B k (ex_shared B x) (ex_transcript B ccfg x) = Ok (ex_keys B k ccfg x)"
    using B by (simp add: derive_session_eq crypto_laws_def ex_keys_def)
  let ?c = "new_control CT_CIPHER_CHACHA True (cf_client_id ccfg) (ex_keys B k ccfg x)"
  have face: "facing (server_start B k ccfg x) ?c" "cc_rx_seq ?c = cc_tx_seq (server_start B k ccfg x)"
    by (simp_all add: facing_def server_start_def new_control_def)
  have w3: "flowing ms (sk_in s3)" "arrives (sk_in s3) = f @ rest" using s2 s3(3) by simp_all
  have km: "k_max_frame k \<le> 2 ^ 32 - 1" "16 \<le> k_max_frame k" using kk by simp_all
  have aead: "aead_opens B" "aead_sizes B" using B by (simp_all add: crypto_laws_def)
  from control_recv_frame [OF f km aead face w3, of "k_control_buffer k" now] obtain s4 where
    s4: "ct_control_recv B k True now ?c s3 (k_control_buffer k) ms =
      (Ok (control_header (server_start B k ccfg x) CT_MSG_AUTH_OK 0 0, []),
       ?c\<lparr>cc_rx_seq := 1, cc_last_rx_ms := now\<rparr>, s4)" "arrives (sk_in s4) = rest"
    by (auto simp: server_start_def new_control_def)
  have out4: "sk_out s4 = sk_out s3"
    using control_recv_out [OF s4(1)] .
  have pub: "x25519_public_key B (ex_client_secret x) = client_pub B x" by (simp add: client_pub_def)
  have sel: "bit (cf_cipher_mask ccfg) (unat CT_CIPHER_CHACHA)" "ct_cipher_available CT_CIPHER_CHACHA"
    using x by (simp_all add: exchange_ok_def enum_defs ct_cipher_available_def)
  have sig: "eddsa_sign B (fst (eddsa_key_pair B (ex_client_seed x)))
      (lit ''ctunnel client handshake v3'' @ ct_crypto_hash B (ex_transcript B ccfg x)) = ex_auth B ccfg x"
    by (simp add: ex_auth_def)
  show ?thesis
    unfolding ct_handshake_client_def
    using s1 s2 s3 s4 out4 hello parts tr sm kx keys sz(4,7,8) x pub ms cid(1) sel sig
    by (simp add: plain_header_def exchange_ok_def ct_crypto_kx_keypair_def ct_crypto_random_def control_header_def)
qed

section \<open>Properties\<close>

definition quiet_sock :: "bytes \<Rightarrow> sock" where
  "quiet_sock bs = \<lparr>sk_in = (if bs = [] then [] else [Got bs]), sk_room = replicate 4 (Takes (2 ^ 20)), sk_out = []\<rparr>"

lemma quiet_sock_simps [simp]:
  "flowing ms (sk_in (quiet_sock bs))" "arrives (sk_in (quiet_sock bs)) = bs"
  "roomy 4 (quiet_sock bs)" "sk_out (quiet_sock bs) = []"
  by (simp_all add: quiet_sock_def roomy_def)

lemma auth_ok_frame:
  assumes "crypto_laws B" "handshake_build k"
  shows "\<exists>f. control_frame B k (server_start B k ccfg x) CT_MSG_AUTH_OK 0 [] = Ok f"
proof -
  have "roomy (Suc (Suc 0)) \<lparr>sk_in = [], sk_room = replicate (Suc (Suc 0)) (Takes (2 ^ 20)), sk_out = []\<rparr>"
    by (simp only: roomy_def sock.simps) blast
  moreover have "aead_sizes B" using assms by (simp add: crypto_laws_def)
  moreover have "cc_cipher (server_start B k ccfg x) = CT_CIPHER_CHACHA" "cc_tx_seq (server_start B k ccfg x) \<noteq> uint64_max"
    by (simp_all add: server_start_def new_control_def)
  moreover have "length ([] :: bytes) + 16 \<le> k_max_frame k" "length ([] :: bytes) + 16 \<le> 2 ^ 20" "k_max_frame k < 2 ^ 31"
    using assms by (simp_all add: handshake_build_def)
  ultimately show ?thesis using control_send_roomy [OF _ _ msg_types_valid(4)] by blast
qed

lemma server_honest:
  assumes B: "crypto_laws B" and x: "exchange_ok B k cfs ccfg sfs scfg a x" and k: "handshake_build k"
    and f: "control_frame B k (server_start B k ccfg x) CT_MSG_AUTH_OK 0 [] = Ok f"
    and t: "flowing (nat (cf_handshake_timeout scfg * 1000)) (sk_in t)" "roomy 4 t"
      "arrives (sk_in t) = plain_frame CT_MSG_CLIENT_HELLO (ex_hello B ccfg x) @
         plain_frame CT_MSG_CLIENT_AUTH (ex_auth B ccfg x)"
  shows "\<exists>t'. ct_handshake_server B k True sfs scfg (Some (ex_server_secret x)) (Some (ex_server_random x)) now t =
      (Ok ((server_start B k ccfg x)\<lparr>cc_tx_seq := 1, cc_last_rx_ms := now, cc_last_tx_ms := now\<rparr>, a), t') \<and>
    sk_out t' = sk_out t @ plain_frame CT_MSG_SERVER_HELLO (ex_server_hello B ccfg x) @ f"
proof -
  have r: "roomy (Suc (Suc (Suc (Suc 0)))) t" using t(2) by (simp add: eval_nat_numeral)
  define hs where "hs = \<lparr>hs_transcript = ex_transcript B ccfg x, hs_ephemeral_private = ex_server_secret x,
         hs_client_public = snd (eddsa_key_pair B (ex_client_seed x)), hs_cipher = CT_CIPHER_CHACHA,
         hs_client_id = cf_client_id ccfg, hs_authorized = Some a\<rparr>"
  from server_begin_honest [OF B x k refl t(1,3) r, folded hs_def] obtain t1 where
    1: "ct_handshake_server_begin B k sfs scfg (Some (ex_server_secret x)) (Some (ex_server_random x)) t = (Ok hs, t1)"
      "flowing (nat (cf_handshake_timeout scfg * 1000)) (sk_in t1)"
      "arrives (sk_in t1) = plain_frame CT_MSG_CLIENT_AUTH (ex_auth B ccfg x) @ []" "roomy (Suc (Suc 0)) t1"
      "sk_out t1 = sk_out t @ plain_frame CT_MSG_SERVER_HELLO (ex_server_hello B ccfg x)"
    by auto
  from server_finish_honest [OF B x k refl hs_def 1(2,3,4), of now] f 1(1,5) show ?thesis
    by (auto simp: ct_handshake_server_def)
qed

text \<open>
  C29: two honest parties complete the handshake and agree. There are fixed byte streams for the two
  directions such that, fed with the other's bytes in any segmentation, the client sends exactly the
  one and accepts, the server sends exactly the other and accepts the client as the authorized entry
  \<open>a\<close>, and the two control states face each other: same keys and cipher, opposite roles, and each
  side's receive sequence equal to the other's send sequence.
\<close>

theorem handshake_completes:
  assumes B: "crypto_laws B" and x: "exchange_ok B k cfs ccfg sfs scfg a x" and k: "handshake_build k"
  shows "\<exists>c2s s2c. \<forall>s t now_c now_s.
    flowing (nat (cf_handshake_timeout ccfg * 1000)) (sk_in s) \<and> arrives (sk_in s) = s2c \<and> roomy 4 s \<and>
    flowing (nat (cf_handshake_timeout scfg * 1000)) (sk_in t) \<and> arrives (sk_in t) = c2s \<and> roomy 4 t \<longrightarrow>
    (\<exists>c d s' t'.
      ct_handshake_client B k True cfs ccfg (Some (ex_client_secret x)) (Some (ex_client_random x)) now_c s = (Ok c, s') \<and>
      ct_handshake_server B k True sfs scfg (Some (ex_server_secret x)) (Some (ex_server_random x)) now_s t = (Ok (d, a), t') \<and>
      sk_out s' = sk_out s @ c2s \<and> sk_out t' = sk_out t @ s2c \<and> facing c d \<and>
      cc_client_id c = cc_client_id d \<and> cc_rx_seq c = cc_tx_seq d \<and> cc_rx_seq d = cc_tx_seq c)"
proof -
  from auth_ok_frame [OF B k] obtain f where
    f: "control_frame B k (server_start B k ccfg x) CT_MSG_AUTH_OK 0 [] = Ok f" by blast
  let ?c2s = "plain_frame CT_MSG_CLIENT_HELLO (ex_hello B ccfg x) @ plain_frame CT_MSG_CLIENT_AUTH (ex_auth B ccfg x)"
  let ?s2c = "plain_frame CT_MSG_SERVER_HELLO (ex_server_hello B ccfg x) @ f"
  show ?thesis
  proof (rule exI [of _ ?c2s], rule exI [of _ ?s2c], intro allI impI, elim conjE)
    fix s t now_c now_s
    assume s: "flowing (nat (cf_handshake_timeout ccfg * 1000)) (sk_in s)" "arrives (sk_in s) = ?s2c" "roomy 4 s"
      and t: "flowing (nat (cf_handshake_timeout scfg * 1000)) (sk_in t)" "arrives (sk_in t) = ?c2s" "roomy 4 t"
    from client_honest [OF B x k refl f s(1) _ s(3), of "[]" now_c] s(2)
      server_honest [OF B x k f t(1,3,2), of now_s]
    show "\<exists>c d s' t'.
      ct_handshake_client B k True cfs ccfg (Some (ex_client_secret x)) (Some (ex_client_random x)) now_c s = (Ok c, s') \<and>
      ct_handshake_server B k True sfs scfg (Some (ex_server_secret x)) (Some (ex_server_random x)) now_s t = (Ok (d, a), t') \<and>
      sk_out s' = sk_out s @ ?c2s \<and> sk_out t' = sk_out t @ ?s2c \<and> facing c d \<and>
      cc_client_id c = cc_client_id d \<and> cc_rx_seq c = cc_tx_seq d \<and> cc_rx_seq d = cc_tx_seq c"
      by (auto simp: facing_def server_start_def new_control_def)
  qed
qed

text \<open>A concrete pair of parties, with their key files.\<close>

definition demo_config :: ct_config where
  "demo_config = \<lparr>cf_mode = CT_MODE_CLIENT, cf_config_path = [], cf_bind_addr = [], cf_server_addr = [],
     cf_bind_port = 0, cf_server_port = 0, cf_client_id = lit ''edge'', cf_identity_private_key = lit ''id'',
     cf_server_public_key = lit ''pub'', cf_authorized_clients_file = [], cf_log_file = [], cf_cipher_mask = 2,
     cf_preferred_cipher = 1, cf_heartbeat_interval = 30, cf_heartbeat_timeout = 90, cf_handshake_timeout = 10,
     cf_connect_timeout = 10, cf_reconnect_initial_delay = 1, cf_reconnect_max_delay = 60,
     cf_reconnect_jitter_percent = 20, cf_pool_count = 2, cf_max_clients = 8, cf_max_services_per_client = 8,
     cf_max_streams_per_client = 8, cf_max_pending_streams = 8, cf_default_data_encryption = 0, cf_log_level = 2,
     cf_log_rotate_days = 7, cf_log_max_size_kib = 0, cf_services = [], cf_clients = []\<rparr>"

definition demo_entry :: ct_authorized_client where
  "demo_entry = \<lparr>au_id = lit ''edge'', au_public_key = lit ''pub'', au_allow_addr = lit ''*'',
     au_ports = [], au_max_services = 1, au_max_streams = 1\<rparr>"

definition demo_server :: ct_config where
  "demo_server = demo_config\<lparr>cf_mode := CT_MODE_SERVER, cf_clients := [demo_entry]\<rparr>"

definition demo_exchange :: exchange where
  "demo_exchange = \<lparr>ex_client_seed = [1], ex_server_seed = [2], ex_client_secret = [3], ex_server_secret = [4],
     ex_client_random = replicate 32 5, ex_server_random = replicate 32 6\<rparr>"

definition demo_fs :: "bytes \<Rightarrow> bytes \<Rightarrow> fs" where
  "demo_fs own peer =
     [lit ''id'' \<mapsto> \<lparr>f_regular = True, f_mode = 384, f_content = key_text SEC_PREFIX (fst (eddsa_key_pair toy_backend own))\<rparr>,
      lit ''pub'' \<mapsto> \<lparr>f_regular = True, f_mode = 420, f_content = key_text PUB_PREFIX (snd (eddsa_key_pair toy_backend peer))\<rparr>]"

lemma demo_loads:
  "ct_load_private_key (demo_fs own peer) (lit ''id'') = Ok (fst (eddsa_key_pair toy_backend own))"
  "ct_load_public_key (demo_fs own peer) (lit ''pub'') = Ok (snd (eddsa_key_pair toy_backend peer))"
proof -
  have "length (key_text SEC_PREFIX (fst (eddsa_key_pair toy_backend own))) < 509"
    "length (key_text PUB_PREFIX (snd (eddsa_key_pair toy_backend peer))) < 509"
    by (simp_all add: key_text_def length_b64_encode_loop PUB_PREFIX_def SEC_PREFIX_def toy_backend_def)
  moreover have "lit ''id'' \<noteq> lit ''pub''" by (rule notI) (drule arg_cong [of _ _ length], simp)
  ultimately show
    "ct_load_private_key (demo_fs own peer) (lit ''id'') = Ok (fst (eddsa_key_pair toy_backend own))"
    "ct_load_public_key (demo_fs own peer) (lit ''pub'') = Ok (snd (eddsa_key_pair toy_backend peer))"
    by (simp_all add: load_key_iff ct_load_private_key_def ct_load_public_key_def demo_fs_def) (simp_all add: toy_backend_def)
qed

lemma demo_exchange_ok:
  "exchange_ok toy_backend default_defconfig (demo_fs [1] [2]) demo_config (demo_fs [2] [1]) demo_server demo_entry demo_exchange"
proof -
  have "ex_shared toy_backend demo_exchange ! 0 \<noteq> 0"
    by (simp add: ex_shared_def server_pub_def demo_exchange_def toy_backend_def toy_hash_def)
  then have "ex_shared toy_backend demo_exchange \<noteq> replicate 32 0" by auto
  then show ?thesis
    using demo_loads [of "[1]" "[2]"] demo_loads [of "[2]" "[1]"]
    by (simp add: exchange_ok_def demo_config_def demo_server_def demo_entry_def demo_exchange_def
        ct_authorized_find_def nul_free_def lit_def default_defconfig_def bit_numeral_rec)
qed

lemma toy_crypto_laws: "crypto_laws toy_backend"
  using toy_backend_laws toy_backend_agrees by (simp add: crypto_laws_def)

theorem handshake_completes_witness:
  "\<exists>c2s s2c c d s' t'.
    ct_handshake_client toy_backend default_defconfig True (demo_fs [1] [2]) demo_config (Some [3]) (Some (replicate 32 5)) 9
      (quiet_sock s2c) = (Ok c, s') \<and>
    ct_handshake_server toy_backend default_defconfig True (demo_fs [2] [1]) demo_server (Some [4]) (Some (replicate 32 6)) 9
      (quiet_sock c2s) = (Ok (d, demo_entry), t') \<and>
    sk_out s' = c2s \<and> sk_out t' = s2c \<and> facing c d"
proof -
  have "handshake_build default_defconfig" by (simp add: handshake_build_def default_defconfig_def)
  from handshake_completes [OF toy_crypto_laws demo_exchange_ok this] obtain c2s s2c where run:
    "\<forall>s t now_c now_s.
    flowing (nat (cf_handshake_timeout demo_config * 1000)) (sk_in s) \<and> arrives (sk_in s) = s2c \<and> roomy 4 s \<and>
    flowing (nat (cf_handshake_timeout demo_server * 1000)) (sk_in t) \<and> arrives (sk_in t) = c2s \<and> roomy 4 t \<longrightarrow>
    (\<exists>c d s' t'.
      ct_handshake_client toy_backend default_defconfig True (demo_fs [1] [2]) demo_config (Some (ex_client_secret demo_exchange))
        (Some (ex_client_random demo_exchange)) now_c s = (Ok c, s') \<and>
      ct_handshake_server toy_backend default_defconfig True (demo_fs [2] [1]) demo_server (Some (ex_server_secret demo_exchange))
        (Some (ex_server_random demo_exchange)) now_s t = (Ok (d, demo_entry), t') \<and>
      sk_out s' = sk_out s @ c2s \<and> sk_out t' = sk_out t @ s2c \<and> facing c d \<and>
      cc_client_id c = cc_client_id d \<and> cc_rx_seq c = cc_tx_seq d \<and> cc_rx_seq d = cc_tx_seq c)"
    by (elim exE)
  note ex = run [rule_format, of "quiet_sock s2c" "quiet_sock c2s" 9 9]
  show ?thesis using ex by (simp add: demo_exchange_def) blast
qed

section \<open>What an accepted handshake guarantees\<close>

lemma transcript_Ok: "transcript cap ch sr ep cipher ci si = Ok tr \<Longrightarrow> tr = transcript_bytes ch sr ep cipher ci si"
  by (auto simp: transcript_def transcript_bytes_def emits_eq split: if_splits)

lemma signature_message_Ok: "signature_message B role tr = Ok m \<Longrightarrow> m = lit role @ ct_crypto_hash B tr"
  by (auto simp: signature_message_def emits_eq split: if_splits)

lemma choose_cipher_ok:
  "choose_cipher offered allowed preferred \<noteq> CT_CIPHER_NONE \<Longrightarrow>
     choose_cipher offered allowed preferred = CT_CIPHER_CHACHA \<and> bit offered 1 \<and> bit allowed 1"
  by (auto simp: choose_cipher_def ct_cipher_available_def enum_defs split: option.splits if_splits)

lemma server_begin_ok:
  assumes "ct_handshake_server_begin B k fs cfg kxr srr s = (Ok hs, s')"
  shows "\<exists>a ch sr xpk idsk. hs_authorized hs = Some a \<and> ct_authorized_find cfg (hs_client_id hs) = Some a \<and>
    ct_load_public_key fs (au_public_key a) = Ok (hs_client_public hs) \<and>
    ct_load_private_key fs (cf_identity_private_key cfg) = Ok idsk \<and>
    ct_crypto_kx_keypair B kxr = Ok (xpk, hs_ephemeral_private hs) \<and> srr = Some sr \<and>
    hs_cipher hs = CT_CIPHER_CHACHA \<and> bit (cf_cipher_mask cfg) 1 \<and>
    hs_transcript hs = transcript_bytes ch sr xpk CT_CIPHER_CHACHA (ct_crypto_hash B (hs_client_public hs))
      (ct_crypto_hash B (drop 32 idsk))"
  using assms
  by (auto simp: ct_handshake_server_begin_def Let_def res_simps ct_crypto_random_def split: option.splits prod.splits
      dest!: transcript_Ok choose_cipher_ok) (rule exI, rule refl)

lemma case_prod_Ok_iff:
  "(case q of (x, y) \<Rightarrow> f x y) = (Ok b, t) \<longleftrightarrow> (\<exists>x y. q = (x, y) \<and> f x y = (Ok b, t))"
  by (cases q) simp

lemma server_finish_ok:
  assumes "ct_handshake_server_finish B k alloc cfg hs now s = (Ok (c, a), s')"
  shows "hs_authorized hs = Some a \<and> cc_client_id c = hs_client_id hs \<and> cc_cipher c = hs_cipher hs \<and>
    \<not> cc_is_client c \<and> cc_tx_seq c = 1 \<and> cc_rx_seq c = 0 \<and>
    (\<exists>sig. eddsa_check B sig (hs_client_public hs)
      (lit ''ctunnel client handshake v3'' @ ct_crypto_hash B (hs_transcript hs))) \<and>
    (\<exists>peer shared. ct_crypto_kx B (hs_ephemeral_private hs) peer = Ok shared \<and>
      peer = take 32 (drop (59 + length (hs_client_id hs)) (hs_transcript hs)) \<and>
      ct_derive_session B k shared (hs_transcript hs) = Ok (cc_keys c))"
  using assms
  by (auto simp: ct_handshake_server_finish_def finish_verify_def Let_def res_simps new_control_def case_prod_Ok_iff split: option.splits
      dest!: signature_message_Ok control_send_ok)

text \<open>A failed handshake leaves no key behind.\<close>

lemma finish_leaves_no_keys: "cc_keys (snd (finish_leaves B k alloc cfg hs now fd old s)) = zero_keys"
  by (auto simp: finish_leaves_def new_control_def Let_def split: prod.splits res.splits)

text \<open>
  C30: the server accepts only an authorized client that proved its key over this exchange. If the
  server's handshake succeeds, the client id names an entry of the authorized list, and some
  signature verified under the public key on file for that entry, over the client role and the hash
  of a transcript that holds the server's own fresh random value and ephemeral key, the agreed cipher
  (one the server allows) and both identities; the session keys are derived from that transcript and
  from the server's own ephemeral secret.
\<close>

theorem server_accepts_authorized:
  assumes "ct_handshake_server B k alloc fs cfg kxr srr now s = (Ok (c, a), s')"
  shows "a \<in> set (cf_clients cfg) \<and> au_id a = cc_client_id c \<and> cc_cipher c = CT_CIPHER_CHACHA \<and>
    bit (cf_cipher_mask cfg) 1 \<and> \<not> cc_is_client c \<and> cc_tx_seq c = 1 \<and> cc_rx_seq c = 0 \<and>
    (\<exists>pk ch sr xpk xsk idsk sig tr peer shared.
      ct_load_public_key fs (au_public_key a) = Ok pk \<and> ct_load_private_key fs (cf_identity_private_key cfg) = Ok idsk \<and>
      ct_crypto_kx_keypair B kxr = Ok (xpk, xsk) \<and> srr = Some sr \<and>
      tr = transcript_bytes ch sr xpk CT_CIPHER_CHACHA (ct_crypto_hash B pk) (ct_crypto_hash B (drop 32 idsk)) \<and>
      eddsa_check B sig pk (lit ''ctunnel client handshake v3'' @ ct_crypto_hash B tr) \<and>
      ct_crypto_kx B xsk peer = Ok shared \<and> ct_derive_session B k shared tr = Ok (cc_keys c))"
proof -
  from assms obtain hs t where b: "ct_handshake_server_begin B k fs cfg kxr srr s = (Ok hs, t)"
    and f: "ct_handshake_server_finish B k alloc cfg hs now t = (Ok (c, a), s')"
    by (auto simp: ct_handshake_server_def res_simps)
  note F = server_finish_ok [OF f]
  from server_begin_ok [OF b] F obtain ch sr xpk idsk where
    B: "ct_authorized_find cfg (cc_client_id c) = Some a" "ct_load_public_key fs (au_public_key a) = Ok (hs_client_public hs)"
      "ct_load_private_key fs (cf_identity_private_key cfg) = Ok idsk" "srr = Some sr"
      "ct_crypto_kx_keypair B kxr = Ok (xpk, hs_ephemeral_private hs)" "cc_cipher c = CT_CIPHER_CHACHA" "bit (cf_cipher_mask cfg) 1"
      "hs_transcript hs = transcript_bytes ch sr xpk CT_CIPHER_CHACHA (ct_crypto_hash B (hs_client_public hs))
        (ct_crypto_hash B (drop 32 idsk))" by auto
  have "a \<in> set (cf_clients cfg) \<and> au_id a = cc_client_id c"
    using B(1) by (auto simp: ct_authorized_find_def find_Some_iff)
  with F B show ?thesis by blast
qed

lemma control_recv_state:
  "ct_control_recv B k alloc now d s cap ms = (Ok r, d', s') \<Longrightarrow>
     d' = d\<lparr>cc_rx_seq := cc_rx_seq d + 1, cc_last_rx_ms := now\<rparr>"
  by (auto simp: ct_control_recv_def Let_def split: prod.splits option.splits res.splits if_split_asm)

lemma unat_chacha: "unat CT_CIPHER_CHACHA = 1"
  by (simp add: enum_defs)

text \<open>
  C31: the client accepts only the configured server. If the client's handshake succeeds, a signature
  verified under the configured server public key over the server role and the hash of a transcript
  that opens with the hello the client itself sent, and the keys come from that transcript and the
  client's ephemeral secret; and the confirmation frame was received under those keys, as the first
  record of the control stream.
\<close>

theorem client_accepts_server:
  assumes "ct_handshake_client B k alloc fs cfg kxr crr now s = (Ok c, s')"
  shows "cc_client_id c = cf_client_id cfg \<and> cc_cipher c = CT_CIPHER_CHACHA \<and> bit (cf_cipher_mask cfg) 1 \<and>
    cc_is_client c \<and> cc_tx_seq c = 0 \<and> cc_rx_seq c = 1 \<and>
    (\<exists>idsk spk xpk xsk cr ch sr sep sig tr shared.
      ct_load_private_key fs (cf_identity_private_key cfg) = Ok idsk \<and> ct_load_public_key fs (cf_server_public_key cfg) = Ok spk \<and>
      ct_crypto_kx_keypair B kxr = Ok (xpk, xsk) \<and> crr = Some cr \<and>
      hello_payload k (cf_client_id cfg) cr xpk (cf_cipher_mask cfg) = Ok ch \<and>
      tr = transcript_bytes ch sr sep CT_CIPHER_CHACHA (ct_crypto_hash B (drop 32 idsk)) (ct_crypto_hash B spk) \<and>
      eddsa_check B sig spk (lit ''ctunnel server handshake v3'' @ ct_crypto_hash B tr) \<and>
      ct_crypto_kx B xsk sep = Ok shared \<and> ct_derive_session B k shared tr = Ok (cc_keys c))"
  using assms
  by (auto simp: ct_handshake_client_def Let_def res_simps new_control_def case_prod_Ok_iff ct_crypto_random_def unat_chacha
      split: option.splits dest!: signature_message_Ok transcript_Ok control_recv_state) blast+

lemma demo_build: "handshake_build default_defconfig"
  by (simp add: handshake_build_def default_defconfig_def)

theorem client_accepts_server_witness:
  "\<exists>s2c c s'. ct_handshake_client toy_backend default_defconfig True (demo_fs [1] [2]) demo_config (Some [3])
       (Some (replicate 32 5)) 9 (quiet_sock s2c) = (Ok c, s') \<and> cc_cipher c = CT_CIPHER_CHACHA \<and> cc_rx_seq c = 1"
proof -
  from auth_ok_frame [OF toy_crypto_laws demo_build] obtain f where
    f: "control_frame toy_backend default_defconfig (server_start toy_backend default_defconfig demo_config demo_exchange)
      CT_MSG_AUTH_OK 0 [] = Ok f" by blast
  let ?s2c = "plain_frame CT_MSG_SERVER_HELLO (ex_server_hello toy_backend demo_config demo_exchange) @ f @ []"
  from client_honest [OF toy_crypto_laws demo_exchange_ok demo_build refl f, of "quiet_sock ?s2c" "[]" 9] obtain c s' where
    "ct_handshake_client toy_backend default_defconfig True (demo_fs [1] [2]) demo_config (Some [3])
       (Some (replicate 32 5)) 9 (quiet_sock ?s2c) = (Ok c, s')"
    by (auto simp: demo_exchange_def)
  with client_accepts_server [OF this] show ?thesis by blast
qed

theorem server_accepts_authorized_witness:
  "\<exists>c2s d s'. ct_handshake_server toy_backend default_defconfig True (demo_fs [2] [1]) demo_server (Some [4])
       (Some (replicate 32 6)) 9 (quiet_sock c2s) = (Ok (d, demo_entry), s') \<and> cc_client_id d = lit ''edge''"
proof -
  from auth_ok_frame [OF toy_crypto_laws demo_build] obtain f where
    f: "control_frame toy_backend default_defconfig (server_start toy_backend default_defconfig demo_config demo_exchange)
      CT_MSG_AUTH_OK 0 [] = Ok f" by blast
  let ?c2s = "plain_frame CT_MSG_CLIENT_HELLO (ex_hello toy_backend demo_config demo_exchange) @
    plain_frame CT_MSG_CLIENT_AUTH (ex_auth toy_backend demo_config demo_exchange)"
  from server_honest [OF toy_crypto_laws demo_exchange_ok demo_build f, of "quiet_sock ?c2s" 9] obtain d s' where
    run: "ct_handshake_server toy_backend default_defconfig True (demo_fs [2] [1]) demo_server (Some [4])
       (Some (replicate 32 6)) 9 (quiet_sock ?c2s) = (Ok (d, demo_entry), s')"
    by (auto simp: demo_exchange_def)
  with server_accepts_authorized [OF run] show ?thesis by (auto simp: demo_entry_def)
qed

text \<open>
  The transcript pins down the whole exchange: two handshakes whose signed transcripts are equal
  have the same client id, random values, ephemeral keys, cipher offer and choice, and identities, so
  a signature made for one exchange cannot be moved to another.
\<close>

theorem transcript_injective:
  assumes "transcript cap (hello_bytes cid cr cp m) sr sp cipher ci si = Ok tr"
    and "transcript cap' (hello_bytes cid' cr' cp' m') sr' sp' cipher' ci' si' = Ok tr"
    and "\<forall>x\<in>{cr, cp, sr, sp, ci, si, cr', cp', sr', sp', ci', si'}. length x = 32"
    and "length cid < 65536" "length cid' < 65536"
  shows "(cid, cr, cp, m, sr, sp, cipher, ci, si) = (cid', cr', cp', m', sr', sp', cipher', ci', si')"
proof -
  have "hello_bytes cid cr cp m @ sr @ sp @ [cipher] @ ci @ si = hello_bytes cid' cr' cp' m' @ sr' @ sp' @ [cipher'] @ ci' @ si'"
    using transcript_Ok [OF assms(1)] transcript_Ok [OF assms(2)] by (simp add: transcript_bytes_def)
  then have eq: "ct_put_u16 (of_nat (length cid)) @ cid @ cr @ cp @ ct_put_u32 m @ sr @ sp @ [cipher] @ ci @ si =
      ct_put_u16 (of_nat (length cid')) @ cid' @ cr' @ cp' @ ct_put_u32 m' @ sr' @ sp' @ [cipher'] @ ci' @ si'"
    by (simp add: hello_bytes_def string_bytes_def)
  then have "length cid = length cid'" using assms(3) by (auto dest: arg_cong [of _ _ length])
  with eq assms(3) show ?thesis by simp
qed

theorem transcript_injective_witness:
  "\<nexists>tr. transcript 1024 (hello_bytes [1] (replicate 32 0) (replicate 32 0) 2) (replicate 32 0) (replicate 32 0) 1
       (replicate 32 0) (replicate 32 0) = Ok tr \<and>
     transcript 1024 (hello_bytes [] (1 # replicate 31 0) (replicate 32 0) 2) (replicate 32 0) (replicate 32 0) 1
       (replicate 32 0) (replicate 32 0) = Ok tr"
  using transcript_injective [of 1024 "[1]" "replicate 32 0" "replicate 32 0" 2 "replicate 32 0" "replicate 32 0" 1
      "replicate 32 0" "replicate 32 0" _ 1024 "[]" "1 # replicate 31 0" "replicate 32 0" 2 "replicate 32 0" "replicate 32 0" 1
      "replicate 32 0" "replicate 32 0"]
  by auto

end
