(* ===== verification/Platform.thy ===== *)
theory Platform
  imports Ctunnel_Prelude
begin

text \<open>
  The parts of \<open>src/src/platform/platform.c\<close> and \<open>src/src/app/runtime.c\<close> with logic of their own, for Linux:
  the clock in milliseconds, random bytes from the kernel, sleeping through signals, socket options, the
  limit of descriptors, and the flag that stops the event loops. What a system call answers is an input.
\<close>

section \<open>Time\<close>

text \<open>A \<open>timespec\<close> is its seconds and nanoseconds.\<close>

definition ct_monotonic_ms :: "nat \<times> nat \<Rightarrow> u64" where
  "ct_monotonic_ms t = of_nat (fst t) * 1000 + of_nat (snd t) div 1000000"

definition sleep_request :: "nat \<Rightarrow> nat \<times> nat" where
  "sleep_request n = (n div 1000, n mod 1000 * 1000000)"

text \<open>
  \<open>nanosleep\<close> is repeated with the remaining time as long as a signal interrupts it; \<open>rests\<close> are the
  remaining times of the interrupted calls. The result is the list of requests made.
\<close>

fun sleep_loop :: "nat \<times> nat \<Rightarrow> (nat \<times> nat) list \<Rightarrow> (nat \<times> nat) list" where
  "sleep_loop t [] = [t]"
| "sleep_loop t (r # rests) = t # sleep_loop r rests"

definition ct_sleep_ms :: "nat \<Rightarrow> (nat \<times> nat) list \<Rightarrow> (nat \<times> nat) list" where
  "ct_sleep_ms n rests = sleep_loop (sleep_request n) rests"

section \<open>Random bytes\<close>

text \<open>The answers of \<open>getrandom\<close> or of reading \<open>/dev/urandom\<close>.\<close>

datatype random_answer =
    Got bytes
  | Interrupted
  | Unavailable
  | Failed

text \<open>
  How a loop ended: with all bytes, with an error, or (for \<open>getrandom\<close>) because the call is not
  available, with the bytes so far. \<open>None\<close> is a call that has not returned.
\<close>

datatype fill =
    Filled bytes
  | Broken
  | Falls_back bytes

fun getrandom_loop :: "nat \<Rightarrow> random_answer list \<Rightarrow> bytes \<Rightarrow> fill option" where
  "getrandom_loop n answers out =
     (if length out \<ge> n then Some (Filled out)
      else case answers of
        [] \<Rightarrow> None
      | Got bs # rest \<Rightarrow> if bs = [] then Some Broken else getrandom_loop n rest (out @ take (n - length out) bs)
      | Interrupted # rest \<Rightarrow> getrandom_loop n rest out
      | Unavailable # rest \<Rightarrow> Some (Falls_back out)
      | Failed # rest \<Rightarrow> Some Broken)"

fun urandom_loop :: "nat \<Rightarrow> random_answer list \<Rightarrow> bytes \<Rightarrow> fill option" where
  "urandom_loop n answers out =
     (if length out \<ge> n then Some (Filled out)
      else case answers of
        [] \<Rightarrow> None
      | Got bs # rest \<Rightarrow> if bs = [] then Some Broken else urandom_loop n rest (out @ take (n - length out) bs)
      | Interrupted # rest \<Rightarrow> urandom_loop n rest out
      | _ # rest \<Rightarrow> Some Broken)"

declare getrandom_loop.simps [simp del] urandom_loop.simps [simp del]

text \<open>
  \<open>krn\<close> are the answers of \<open>getrandom\<close>, \<open>dev\<close> those of reading the device, \<open>opened\<close> and \<open>closed\<close> whether it can
  be opened and closed. The result is the content of the buffer, \<open>Err\<close> the return value -1.
\<close>

definition ct_platform_random :: "nat \<Rightarrow> random_answer list \<Rightarrow> bool \<Rightarrow> random_answer list \<Rightarrow> bool \<Rightarrow> bytes res option" where
  "ct_platform_random n krn opened dev closed =
     (case getrandom_loop n krn [] of
        None \<Rightarrow> None
      | Some Broken \<Rightarrow> Some Err
      | Some (Filled out) \<Rightarrow> Some (Ok out)
      | Some (Falls_back out) \<Rightarrow>
          if \<not> opened then Some Err
          else (case urandom_loop n dev out of
                  Some (Filled out') \<Rightarrow> Some (if closed then Ok out' else Err)
                | Some _ \<Rightarrow> Some Err
                | None \<Rightarrow> None))"

section \<open>Sockets\<close>

definition O_NONBLOCK :: u32 where "O_NONBLOCK = 0x800"

unbundle bit_operations_syntax

text \<open>\<open>get\<close> is the answer of \<open>F_GETFL\<close>, \<open>put\<close> whether \<open>F_SETFL\<close> succeeds; the result is the flags set.\<close>

definition ct_socket_nonblock :: "u32 option \<Rightarrow> (u32 \<Rightarrow> bool) \<Rightarrow> u32 option" where
  "ct_socket_nonblock get put = (case get of None \<Rightarrow> None | Some f \<Rightarrow> if put (f OR O_NONBLOCK) then Some (f OR O_NONBLOCK) else None)"

definition ct_socket_close :: "int \<Rightarrow> int list" where
  "ct_socket_close s = (if s = -1 then [] else [s])"

text \<open>
  \<open>setsockopt\<close> calls as level, option and value (\<open>SOL_SOCKET\<close> 1, \<open>SO_KEEPALIVE\<close> 9, \<open>IPPROTO_TCP\<close> 6, \<open>TCP_KEEPIDLE\<close> 4,
  \<open>TCP_KEEPINTVL\<close> 5, \<open>TCP_KEEPCNT\<close> 6); \<open>accepts\<close> is whether the first succeeds, the others are best effort.
\<close>

definition ct_socket_keepalive :: "bool \<Rightarrow> (nat \<times> nat \<times> nat) list \<times> bool" where
  "ct_socket_keepalive accepts =
     (if accepts then ([(1, 9, 1), (6, 4, 60), (6, 5, 20), (6, 6, 3)], True) else ([(1, 9, 1)], False))"

text \<open>The values of \<open>errno\<close> on Linux: \<open>EAGAIN\<close> and \<open>EWOULDBLOCK\<close> are 11, \<open>EINPROGRESS\<close> is 115.\<close>

definition ct_socket_would_block :: "int \<Rightarrow> bool" where
  "ct_socket_would_block errno \<longleftrightarrow> errno = 11 \<or> errno = 115"

text \<open>The soft and hard limit; \<open>None\<close> when \<open>getrlimit\<close> fails, \<open>RLIM_INFINITY\<close> is the largest value.\<close>

definition ct_fd_limit_diagnostics :: "(u64 \<times> u64) option \<Rightarrow> u64 \<times> u64" where
  "ct_fd_limit_diagnostics lim = (case lim of None \<Rightarrow> (0, 0) | Some (soft, hard) \<Rightarrow> (soft, hard))"

section \<open>Stopping\<close>

text \<open>
  The state of \<open>runtime.c\<close>: the flag and what is installed for each signal. The second handles one signal
  the way the system does; \<open>None\<close> is a process that the signal ended.
\<close>

datatype signal = SIGINT | SIGTERM | SIGPIPE

datatype disposition = SIG_DFL | SIG_IGN | Stop_handler

record runtime =
  g_stopping :: int
  on_signal :: "signal \<Rightarrow> disposition"

definition stop_handler :: "signal \<Rightarrow> runtime \<Rightarrow> runtime" where
  "stop_handler signal_number r = r\<lparr>g_stopping := 1\<rparr>"

text \<open>\<open>handling\<close> is the symbol \<open>CONFIG_FEATURE_SIGNAL_HANDLING\<close>.\<close>

definition ct_runtime_init :: "bool \<Rightarrow> runtime \<Rightarrow> runtime" where
  "ct_runtime_init handling r =
     (let r0 = r\<lparr>g_stopping := 0\<rparr> in
      if handling then r0\<lparr>on_signal := (on_signal r0)(SIGINT := Stop_handler, SIGTERM := Stop_handler, SIGPIPE := SIG_IGN)\<rparr> else r0)"

definition ct_runtime_should_stop :: "runtime \<Rightarrow> bool" where
  "ct_runtime_should_stop r \<longleftrightarrow> g_stopping r \<noteq> 0"

definition deliver :: "signal \<Rightarrow> runtime option \<Rightarrow> runtime option" where
  "deliver sig p = (case p of None \<Rightarrow> None | Some r \<Rightarrow>
     (case on_signal r sig of SIG_DFL \<Rightarrow> None | SIG_IGN \<Rightarrow> Some r | Stop_handler \<Rightarrow> Some (stop_handler sig r)))"

section \<open>Properties\<close>

text \<open>
  After \<open>ct_runtime_init\<close> of a build with signal handling no sequence of these signals ends the process;
  the event loops are asked to stop exactly when one other than \<open>SIGPIPE\<close> arrived.
\<close>

lemma runtime_stops:
  "\<exists>r'. fold deliver sigs (Some (ct_runtime_init True r)) = Some r' \<and> (ct_runtime_should_stop r' \<longleftrightarrow> SIGINT \<in> set sigs \<or> SIGTERM \<in> set sigs)"
proof -
  have "\<exists>r'. fold deliver sigs (Some s) = Some r' \<and>
      (ct_runtime_should_stop r' \<longleftrightarrow> ct_runtime_should_stop s \<or> SIGINT \<in> set sigs \<or> SIGTERM \<in> set sigs)"
    if "on_signal s = on_signal (ct_runtime_init True r)" for s
    using that
  proof (induction sigs arbitrary: s)
    case (Cons sig sigs)
    obtain s' where s': "deliver sig (Some s) = Some s'" "on_signal s' = on_signal s"
      "ct_runtime_should_stop s' \<longleftrightarrow> ct_runtime_should_stop s \<or> sig \<noteq> SIGPIPE"
      using Cons.prems by (cases sig) (simp_all add: deliver_def stop_handler_def ct_runtime_init_def ct_runtime_should_stop_def Let_def)
    then obtain r' where "fold deliver sigs (Some s') = Some r'"
      "ct_runtime_should_stop r' \<longleftrightarrow> ct_runtime_should_stop s' \<or> SIGINT \<in> set sigs \<or> SIGTERM \<in> set sigs"
      using Cons.IH [of s'] Cons.prems by auto
    then show ?case using s' by (cases sig) auto
  qed simp
  from this [OF refl] show ?thesis by (simp add: ct_runtime_init_def ct_runtime_should_stop_def Let_def)
qed

text \<open>The clock never goes back while \<open>CLOCK_MONOTONIC\<close> does not.\<close>

lemma monotonic_ms_mono:
  assumes "s < s' \<or> s = s' \<and> ns \<le> ns'" "ns < 10 ^ 9" "ns' < 10 ^ 9" "s' < 2 ^ 53"
  shows "ct_monotonic_ms (s, ns) \<le> ct_monotonic_ms (s', ns')"
proof -
  have v: "unat (ct_monotonic_ms (a, b)) = a * 1000 + b div 1000000" if "a < 2 ^ 53" "b < 10 ^ 9" for a b
  proof -
    have "unat (of_nat b div 1000000 :: u64) = unat (of_nat (b div 1000000) :: u64)"
      using that(2) by (simp add: unat_div unat_of_nat)
    then have "ct_monotonic_ms (a, b) = of_nat (a * 1000 + b div 1000000)" by (simp add: ct_monotonic_ms_def unsigned_word_eqI)
    moreover have "a * 1000 + b div 1000000 < 2 ^ 64" using that by simp
    ultimately show ?thesis by (simp only: unat_of_nat mod_less len_of_numeral_defs) simp
  qed
  have "s * 1000 + ns div 1000000 \<le> s' * 1000 + ns' div 1000000"
    using assms(1,2) div_le_mono [of ns ns' 1000000] by (auto simp: Suc_le_eq [symmetric])
  then show ?thesis using v [of s ns] v [of s' ns'] assms by (simp add: word_le_nat_alt)
qed

text \<open>The bytes that a sequence of answers delivers.\<close>

fun supplied :: "random_answer list \<Rightarrow> bytes" where
  "supplied (Got bs # rest) = bs @ supplied rest"
| "supplied (_ # rest) = supplied rest"
| "supplied [] = []"

lemma take_step: "length out < n \<Longrightarrow> take n ((out @ take (n - length out) bs) @ rest) = take n (out @ bs @ rest)"
  by (simp add: min_def take_append)

lemma fill_done:
  "n \<le> length out \<Longrightarrow> getrandom_loop n as out = Some (Filled out)" "n \<le> length out \<Longrightarrow> urandom_loop n as out = Some (Filled out)"
  by (simp_all add: getrandom_loop.simps [of n] urandom_loop.simps [of n])

lemma fill_step:
  assumes "\<not> n \<le> length out"
  shows "getrandom_loop n [] out = None" "getrandom_loop n (Got bs # as) out = (if bs = [] then Some Broken else getrandom_loop n as (out @ take (n - length out) bs))"
    "getrandom_loop n (Interrupted # as) out = getrandom_loop n as out" "getrandom_loop n (Unavailable # as) out = Some (Falls_back out)"
    "getrandom_loop n (Failed # as) out = Some Broken"
    "urandom_loop n [] out = None" "urandom_loop n (Got bs # as) out = (if bs = [] then Some Broken else urandom_loop n as (out @ take (n - length out) bs))"
    "urandom_loop n (Interrupted # as) out = urandom_loop n as out" "urandom_loop n (Unavailable # as) out = Some Broken" "urandom_loop n (Failed # as) out = Some Broken"
  using assms by (simp_all add: getrandom_loop.simps [of n] urandom_loop.simps [of n])

text \<open>Reading the device is the same loop without a fall-back.\<close>

lemma urandom_eq: "urandom_loop n as out = (case getrandom_loop n as out of Some (Falls_back _) \<Rightarrow> Some Broken | r \<Rightarrow> r)"
proof (induction as arbitrary: out)
  case Nil
  then show ?case by (cases "n \<le> length out") (simp_all add: fill_done fill_step)
next
  case (Cons a as)
  then show ?case by (cases "n \<le> length out"; cases a) (simp_all add: fill_done fill_step)
qed

text \<open>When the loop ends, the buffer is a prefix of what was there and was delivered.\<close>

definition fill_ok :: "nat \<Rightarrow> bytes \<Rightarrow> random_answer list \<Rightarrow> fill \<Rightarrow> bool" where
  "fill_ok n out as f = (case f of
     Filled r \<Rightarrow> r = take n (out @ supplied as) \<and> length r = n
   | Broken \<Rightarrow> True
   | Falls_back r \<Rightarrow> r = take n (out @ supplied (takeWhile (\<lambda>a. a \<noteq> Unavailable) as)) \<and> length r \<le> n)"

lemma getrandom_prefix: "getrandom_loop n as out = Some f \<Longrightarrow> length out \<le> n \<Longrightarrow> fill_ok n out as f"
proof (induction as arbitrary: out)
  case Nil
  then show ?case by (cases "n \<le> length out") (auto simp: fill_done fill_step fill_ok_def)
next
  case (Cons a as)
  show ?case
  proof (cases "n \<le> length out")
    case True
    then show ?thesis using Cons.prems by (auto simp: fill_done fill_ok_def)
  next
    case False
    show ?thesis
    proof (cases a)
      case (Got bs)
      show ?thesis
      proof (cases "bs = []")
        case True
        then show ?thesis using Cons.prems(1) False by (auto simp: fill_step Got fill_ok_def)
      next
        case bs: False
        let ?out = "out @ take (n - length out) bs"
        have "getrandom_loop n as ?out = Some f" "length ?out \<le> n" using Cons.prems False bs by (simp_all add: fill_step Got)
        from Cons.IH [OF this] show ?thesis using False take_step [of out n bs] by (cases f) (simp_all add: fill_ok_def Got del: take_append)
      qed
    next
      case Interrupted
      then show ?thesis using Cons.IH [of out] Cons.prems False by (cases f) (simp_all add: fill_step fill_ok_def del: take_append)
    qed (use Cons.prems False in \<open>auto simp: fill_step fill_ok_def\<close>)
  qed
qed

text \<open>An answer that lets the loop go on.\<close>

definition delivers :: "random_answer \<Rightarrow> bool" where
  "delivers a \<longleftrightarrow> (case a of Got bs \<Rightarrow> bs \<noteq> [] | Interrupted \<Rightarrow> True | _ \<Rightarrow> False)"

lemma getrandom_returns:
  "list_all delivers as \<Longrightarrow> n \<le> length out + length (supplied as) \<Longrightarrow> length out \<le> n \<Longrightarrow> getrandom_loop n as out = Some (Filled (take n (out @ supplied as)))"
proof (induction as arbitrary: out)
  case (Cons a as)
  show ?case
  proof (cases "n \<le> length out")
    case False
    show ?thesis
    proof (cases a)
      case (Got bs)
      let ?out = "out @ take (n - length out) bs"
      have "length ?out \<le> n" "n \<le> length ?out + length (supplied as)" using Cons.prems False by (auto simp: Got min_def)
      then have "getrandom_loop n as ?out = Some (Filled (take n (?out @ supplied as)))" using Cons.IH Cons.prems(1) by simp
      moreover have "bs \<noteq> []" using Cons.prems(1) by (simp add: Got delivers_def)
      ultimately show ?thesis using False take_step [of out n bs "supplied as"] by (simp add: fill_step Got del: take_append)
    next
      case Interrupted
      then show ?thesis using Cons False by (simp add: fill_step del: take_append)
    qed (use Cons.prems(1) in \<open>simp_all add: delivers_def\<close>)
  qed (use Cons.prems in \<open>simp add: fill_done\<close>)
qed (simp add: fill_done)

text \<open>
  C26: random bytes are complete or refused. Whenever \<open>ct_platform_random\<close> succeeds, the whole buffer holds
  bytes delivered by \<open>getrandom\<close>, continued where that was unavailable by bytes of \<open>/dev/urandom\<close>, in the
  order of delivery; and it returns, with success, as soon as \<open>getrandom\<close> has delivered enough bytes, however
  often it was interrupted and however small the pieces were.
\<close>

theorem platform_random_complete:
  "(\<forall>out. ct_platform_random n krn opened dev closed = Some (Ok out) \<longrightarrow> length out = n \<and>
      (out = take n (supplied krn) \<or> out = take n (supplied (takeWhile (\<lambda>a. a \<noteq> Unavailable) krn) @ supplied dev))) \<and>
   (list_all delivers krn \<and> n \<le> length (supplied krn) \<longrightarrow> ct_platform_random n krn opened dev closed = Some (Ok (take n (supplied krn))))"
proof (intro conjI [where P = "\<forall>out. _ out"] allI impI)
  fix out
  let ?x = "supplied (takeWhile (\<lambda>a. a \<noteq> Unavailable) krn)"
  assume "ct_platform_random n krn opened dev closed = Some (Ok out)"
  then consider "getrandom_loop n krn [] = Some (Filled out)"
    | pre where "getrandom_loop n krn [] = Some (Falls_back pre)" "urandom_loop n dev pre = Some (Filled out)"
    by (auto simp: ct_platform_random_def split: option.splits fill.splits if_splits)
  then show "length out = n \<and> (out = take n (supplied krn) \<or> out = take n (?x @ supplied dev))"
  proof cases
    case 1
    then show ?thesis using getrandom_prefix [OF 1] by (auto simp: fill_ok_def)
  next
    case 2
    have pre: "pre = take n ?x" "length pre \<le> n" using getrandom_prefix [OF 2(1)] by (simp_all add: fill_ok_def)
    have run: "getrandom_loop n dev pre = Some (Filled out)" using 2(2) by (auto simp: urandom_eq split: option.splits fill.splits)
    have "length out = n" "out = take n (pre @ supplied dev)" using getrandom_prefix [OF run pre(2)] by (auto simp: fill_ok_def simp del: take_append)
    then show ?thesis unfolding pre(1) by (simp add: min_def)
  qed
next
  assume "list_all delivers krn \<and> n \<le> length (supplied krn)"
  then show "ct_platform_random n krn opened dev closed = Some (Ok (take n (supplied krn)))"
    using getrandom_returns [of krn n "[]"] by (simp add: ct_platform_random_def)
qed

theorem platform_random_complete_witness:
  "ct_platform_random 3 [Interrupted, Got [1], Got [2, 3, 4]] False [] False = Some (Ok [1, 2, 3])"
  using mp [OF conjunct2 [OF platform_random_complete [of 3 "[Interrupted, Got [1], Got [2, 3, 4]]" False "[]" False]]]
  by (simp add: delivers_def)

end
