(* ===== verification/Config.thy ===== *)
theory Config
  imports Config_Types Keyfile
begin

text \<open>
  The configuration parser of \<open>src/src/config/config.c\<close>: the INI files of server and client, the list
  of authorized clients, and the checks that make a configuration acceptable. A file is the map
  entry of its path; environment variables and the address parser \<open>inet_pton\<close> are arguments.
\<close>

section \<open>Text\<close>

definition isspace :: "u8 \<Rightarrow> bool" where
  "isspace c \<longleftrightarrow> c = 32 \<or> (9 \<le> c \<and> c \<le> 13)"

definition trim :: "bytes \<Rightarrow> bytes" where
  "trim s = (let t = dropWhile isspace s in rev (dropWhile isspace (rev t)))"

definition cp :: "nat \<Rightarrow> bytes \<Rightarrow> bytes option" where
  "cp n s = (if length s \<ge> n then None else Some s)"

datatype seen_result = Seen_before | Seen_full | Seen_now "bytes list"

definition key_seen :: "bytes list \<Rightarrow> nat \<Rightarrow> bytes \<Rightarrow> seen_result" where
  "key_seen seen capacity key =
     (if key \<in> set seen then Seen_before
      else if length seen = capacity \<or> length key \<ge> 32 then Seen_full
      else Seen_now (seen @ [key]))"

text \<open>\<open>strchr\<close>: the text before the first occurrence and the text behind it.\<close>

definition strchr :: "u8 \<Rightarrow> bytes \<Rightarrow> (bytes \<times> bytes) option" where
  "strchr c s = (if c \<in> set s then Some (takeWhile (\<lambda>x. x \<noteq> c) s, tl (dropWhile (\<lambda>x. x \<noteq> c) s)) else None)"

definition digit :: "u8 \<Rightarrow> bool" where
  "digit c \<longleftrightarrow> 48 \<le> c \<and> c \<le> 57"

definition decimal :: "bytes \<Rightarrow> int" where
  "decimal ds = foldl (\<lambda>a d. a * 10 + uint (d - 48)) 0 ds"

text \<open>\<open>strtol\<close> in base 10 with a 64-bit \<open>long\<close>: the value, whether it was out of range, and the rest.\<close>

definition strtol :: "bytes \<Rightarrow> int \<times> bool \<times> bytes" where
  "strtol s =
     (let t = dropWhile isspace s;
          (neg, u) = (case t of [] \<Rightarrow> (False, []) | c # r \<Rightarrow>
             if c = 45 then (True, r) else if c = 43 then (False, r) else (False, t));
          ds = takeWhile digit u;
          x = (if neg then - decimal ds else decimal ds)
      in if ds = [] then (0, False, s)
         else if x > 2 ^ 63 - 1 then (2 ^ 63 - 1, True, dropWhile digit u)
         else if x < - (2 ^ 63) then (- (2 ^ 63), True, dropWhile digit u)
         else (x, False, dropWhile digit u))"

definition integer :: "bytes \<Rightarrow> int \<Rightarrow> int \<Rightarrow> int option" where
  "integer s lo hi =
     (let (v, range_error, e) = strtol s
      in if range_error \<or> e \<noteq> [] \<or> v < lo \<or> v > hi then None else Some v)"

definition port :: "bytes \<Rightarrow> u16 option" where
  "port s = map_option of_int (integer s 1 65535)"

text \<open>0 when the address can be used, otherwise the family that is not compiled in.\<close>

definition address_family_unavailable :: "autoconf \<Rightarrow> (nat \<Rightarrow> bytes \<Rightarrow> bool) \<Rightarrow> bytes \<Rightarrow> nat" where
  "address_family_unavailable k pton address =
     (if address = [] \<or> address = lit ''*'' then 0
      else if \<not> k_ipv4 k \<and> pton 4 address then 4
      else if \<not> k_ipv6 k \<and> pton 6 address then 6
      else 0)"

section \<open>Values\<close>

text \<open>The result codes 0, 1, -2 and -1 of the setters.\<close>

datatype 'c setting = Done 'c | Unknown_key | Unavailable | Invalid

definition setting :: "'v option \<Rightarrow> ('v \<Rightarrow> 'c) \<Rightarrow> 'c setting" where
  "setting v f = (case v of None \<Rightarrow> Invalid | Some x \<Rightarrow> Done (f x))"

definition enc :: "autoconf \<Rightarrow> bytes \<Rightarrow> u8 setting" where
  "enc k s =
     (if s = lit ''true'' \<or> s = lit ''yes'' \<or> s = lit ''on'' \<or> s = lit ''enabled'' \<or> s = lit ''required''
      then if k_data_encryption k then Done CT_ENC_REQUIRED else Unavailable
      else if s = lit ''false'' \<or> s = lit ''no'' \<or> s = lit ''off'' \<or> s = lit ''disabled'' then Done CT_ENC_DISABLED
      else Invalid)"

lemma strchr_shorter: "strchr c s = Some (a, b) \<Longrightarrow> length b < length s"
proof -
  assume "strchr c s = Some (a, b)"
  then have c: "c \<in> set s" and b: "b = tl (dropWhile (\<lambda>x. x \<noteq> c) s)" by (auto simp: strchr_def split: if_splits)
  from c have "dropWhile (\<lambda>x. x \<noteq> c) s \<noteq> []" by auto
  then have "length b < length (dropWhile (\<lambda>x. x \<noteq> c) s)" by (simp add: b)
  also have "\<dots> \<le> length s" by (rule length_dropWhile_le)
  finally show ?thesis .
qed

function ciphers_loop :: "bytes \<Rightarrow> u32 \<Rightarrow> u32 option" where
  "ciphers_loop p m =
     (case strchr 44 p of
        Some (tok, rest) \<Rightarrow>
          if trim tok = lit ''xchacha20-poly1305'' then ciphers_loop rest (m OR push_bit (unat CT_CIPHER_CHACHA) 1) else None
      | None \<Rightarrow>
          if trim p = lit ''xchacha20-poly1305'' then Some (m OR push_bit (unat CT_CIPHER_CHACHA) 1) else None)"
  by pat_completeness auto
termination
  by (relation "measure (\<lambda>(p, m). length p)") (auto dest: strchr_shorter)

declare ciphers_loop.simps [simp del]

definition ciphers :: "bytes \<Rightarrow> u32 option" where
  "ciphers s =
     (case cp 128 s of
        None \<Rightarrow> None
      | Some b \<Rightarrow> (case ciphers_loop b 0 of None \<Rightarrow> None | Some m \<Rightarrow> if m = 0 then None else Some m))"

definition log_level_name :: "autoconf \<Rightarrow> nat \<Rightarrow> bytes" where
  "log_level_name k l =
     (if l = 0 then lit ''error''
      else if l = 1 \<and> 1 \<le> k_log_max k then lit ''warn''
      else if l = 2 \<and> 2 \<le> k_log_max k then lit ''info''
      else if l = 3 \<and> 3 \<le> k_log_max k then lit ''debug''
      else if l = 4 \<and> 4 \<le> k_log_max k then lit ''trace''
      else lit ''unknown'')"

definition ct_log_parse_level :: "autoconf \<Rightarrow> bytes \<Rightarrow> nat option" where
  "ct_log_parse_level k s = List.find (\<lambda>i. s = log_level_name k i) [0..<k_log_max k + 1]"

section \<open>Defaults and setters\<close>

definition defaults :: "autoconf \<Rightarrow> ct_config" where
  "defaults k =
     \<lparr>cf_mode = CT_MODE_NONE, cf_config_path = [], cf_bind_addr = (if k_ipv6 k then lit ''::'' else lit ''0.0.0.0''),
      cf_server_addr = [], cf_bind_port = 7000, cf_server_port = 7000, cf_client_id = [], cf_identity_private_key = [],
      cf_server_public_key = [], cf_authorized_clients_file = [], cf_log_file = [],
      cf_cipher_mask = push_bit (unat CT_CIPHER_CHACHA) 1, cf_preferred_cipher = CT_CIPHER_CHACHA,
      cf_heartbeat_interval = 20, cf_heartbeat_timeout = 60, cf_handshake_timeout = 10, cf_connect_timeout = 5,
      cf_reconnect_initial_delay = 1, cf_reconnect_max_delay = 30, cf_reconnect_jitter_percent = 20,
      cf_pool_count = int (k_default_pool_count k), cf_max_clients = int (k_max_clients k),
      cf_max_services_per_client = int (k_max_services k), cf_max_streams_per_client = int (k_default_max_streams k),
      cf_max_pending_streams = int (k_default_max_pending k),
      cf_default_data_encryption = (if k_data_encryption k then CT_ENC_REQUIRED else CT_ENC_DISABLED),
      cf_log_level = int (k_log_max k), cf_log_rotate_days = 7, cf_log_max_size_kib = 1024,
      cf_services = [], cf_clients = []\<rparr>"

definition set_common :: "autoconf \<Rightarrow> ct_config \<Rightarrow> bytes \<Rightarrow> bytes \<Rightarrow> ct_config setting" where
  "set_common k c key v =
     (if key = lit ''bind_addr'' then setting (cp (k_max_addr k + 1) v) (\<lambda>x. c\<lparr>cf_bind_addr := x\<rparr>)
      else if key = lit ''server_addr'' then setting (cp (k_max_addr k + 1) v) (\<lambda>x. c\<lparr>cf_server_addr := x\<rparr>)
      else if key = lit ''client_id'' then setting (cp (k_max_client_id k + 1) v) (\<lambda>x. c\<lparr>cf_client_id := x\<rparr>)
      else if key = lit ''identity_private_key'' then setting (cp (k_max_path k) v) (\<lambda>x. c\<lparr>cf_identity_private_key := x\<rparr>)
      else if key = lit ''server_public_key'' then setting (cp (k_max_path k) v) (\<lambda>x. c\<lparr>cf_server_public_key := x\<rparr>)
      else if key = lit ''authorized_clients_file'' then setting (cp (k_max_path k) v) (\<lambda>x. c\<lparr>cf_authorized_clients_file := x\<rparr>)
      else if key = lit ''log_file'' then setting (cp (k_max_path k) v) (\<lambda>x. c\<lparr>cf_log_file := x\<rparr>)
      else if key = lit ''mode'' then
        (if v = lit ''server'' then if k_server k then Done (c\<lparr>cf_mode := CT_MODE_SERVER\<rparr>) else Unavailable
         else if v = lit ''client'' then if k_client k then Done (c\<lparr>cf_mode := CT_MODE_CLIENT\<rparr>) else Unavailable
         else Invalid)
      else if key = lit ''bind_port'' then setting (port v) (\<lambda>x. c\<lparr>cf_bind_port := x\<rparr>)
      else if key = lit ''server_port'' then setting (port v) (\<lambda>x. c\<lparr>cf_server_port := x\<rparr>)
      else if key = lit ''allowed_ciphers'' then setting (ciphers v) (\<lambda>x. c\<lparr>cf_cipher_mask := x\<rparr>)
      else if key = lit ''preferred_cipher'' then
        (if v = lit ''xchacha20-poly1305'' then Done (c\<lparr>cf_preferred_cipher := CT_CIPHER_CHACHA\<rparr>) else Invalid)
      else if key = lit ''default_data_encryption'' then
        (case enc k v of Done x \<Rightarrow> Done (c\<lparr>cf_default_data_encryption := x\<rparr>) | Unknown_key \<Rightarrow> Unknown_key
         | Unavailable \<Rightarrow> Unavailable | Invalid \<Rightarrow> Invalid)
      else if key = lit ''log_level'' then setting (ct_log_parse_level k v) (\<lambda>x. c\<lparr>cf_log_level := int x\<rparr>)
      else if key = lit ''heartbeat_interval'' then setting (integer v 1 3600) (\<lambda>x. c\<lparr>cf_heartbeat_interval := x\<rparr>)
      else if key = lit ''heartbeat_timeout'' then setting (integer v 2 7200) (\<lambda>x. c\<lparr>cf_heartbeat_timeout := x\<rparr>)
      else if key = lit ''handshake_timeout'' then setting (integer v 1 120) (\<lambda>x. c\<lparr>cf_handshake_timeout := x\<rparr>)
      else if key = lit ''connect_timeout'' then setting (integer v 1 120) (\<lambda>x. c\<lparr>cf_connect_timeout := x\<rparr>)
      else if key = lit ''reconnect_initial_delay'' then setting (integer v 1 3600) (\<lambda>x. c\<lparr>cf_reconnect_initial_delay := x\<rparr>)
      else if key = lit ''reconnect_max_delay'' then setting (integer v 1 86400) (\<lambda>x. c\<lparr>cf_reconnect_max_delay := x\<rparr>)
      else if key = lit ''reconnect_jitter_percent'' then setting (integer v 0 90) (\<lambda>x. c\<lparr>cf_reconnect_jitter_percent := x\<rparr>)
      else if key = lit ''pool_count'' then
        (if k_work_pool k then setting (integer v 0 (int (k_max_streams k))) (\<lambda>x. c\<lparr>cf_pool_count := x\<rparr>)
         else if v = lit ''0'' then Done c else Unavailable)
      else if key = lit ''max_clients'' then setting (integer v 1 (int (k_max_clients k))) (\<lambda>x. c\<lparr>cf_max_clients := x\<rparr>)
      else if key = lit ''max_services_per_client'' then
        setting (integer v 1 (int (k_max_services k))) (\<lambda>x. c\<lparr>cf_max_services_per_client := x\<rparr>)
      else if key = lit ''max_streams_per_client'' then
        setting (integer v 1 (int (k_max_streams k))) (\<lambda>x. c\<lparr>cf_max_streams_per_client := x\<rparr>)
      else if key = lit ''max_pending_streams'' then
        setting (integer v 1 (int (k_max_pending k))) (\<lambda>x. c\<lparr>cf_max_pending_streams := x\<rparr>)
      else if key = lit ''log_rotate_days'' then setting (integer v 0 3650) (\<lambda>x. c\<lparr>cf_log_rotate_days := x\<rparr>)
      else if key = lit ''log_max_size_kib'' then setting (integer v 64 1048576) (\<lambda>x. c\<lparr>cf_log_max_size_kib := x\<rparr>)
      else if key = lit ''control_encryption'' then if v = lit ''required'' then Done c else Invalid
      else if key = lit ''auth_mode'' then if v = lit ''public-key'' then Done c else Invalid
      else Unknown_key)"

definition set_default_log_file :: "autoconf \<Rightarrow> ct_config \<Rightarrow> ct_config option" where
  "set_default_log_file k c =
     (if cf_log_file c \<noteq> [] then Some c
      else
        let name = (if k_server k \<and> cf_mode c = CT_MODE_SERVER then lit ''ctunnel-server.log''
                    else if k_client k \<and> cf_mode c = CT_MODE_CLIENT then lit ''ctunnel-client.log''
                    else lit ''ctunnel.log'');
            dir = rev (dropWhile (\<lambda>b. b \<noteq> 47) (rev (cf_config_path c)))
        in if dir = [] then map_option (\<lambda>x. c\<lparr>cf_log_file := x\<rparr>) (cp (k_max_path k) name)
           else if length dir + length name \<ge> k_max_path k then None
           else Some (c\<lparr>cf_log_file := dir @ name\<rparr>))"

definition set_service :: "autoconf \<Rightarrow> ct_service_config \<Rightarrow> bytes \<Rightarrow> bytes \<Rightarrow> ct_service_config setting" where
  "set_service k s key v =
     (if key = lit ''type'' then
        (if v = lit ''tcp'' then Done (s\<lparr>sv_type := 1\<rparr>)
         else if v = lit ''udp'' then if k_udp k then Done (s\<lparr>sv_type := 2\<rparr>) else Unavailable
         else if v = lit ''http'' then Done (s\<lparr>sv_type := 3\<rparr>)
         else if v = lit ''https'' then Done (s\<lparr>sv_type := 4\<rparr>)
         else Invalid)
      else if key = lit ''remote_addr'' then setting (cp (k_max_addr k + 1) v) (\<lambda>x. s\<lparr>sv_remote_addr := x\<rparr>)
      else if key = lit ''local_addr'' then setting (cp (k_max_addr k + 1) v) (\<lambda>x. s\<lparr>sv_local_addr := x\<rparr>)
      else if key = lit ''remote_port'' then setting (port v) (\<lambda>x. s\<lparr>sv_remote_port := x\<rparr>)
      else if key = lit ''local_port'' then setting (port v) (\<lambda>x. s\<lparr>sv_local_port := x\<rparr>)
      else if key = lit ''data_encryption'' then
        (case enc k v of Done x \<Rightarrow> Done (s\<lparr>sv_encryption := x\<rparr>) | Unknown_key \<Rightarrow> Unknown_key
         | Unavailable \<Rightarrow> Unavailable | Invalid \<Rightarrow> Invalid)
      else if k_proxy k \<and> key = lit ''proxy_protocol'' then
        (if v = lit ''off'' then Done (s\<lparr>sv_proxy_protocol := 0\<rparr>)
         else if v = lit ''v1'' then if k_proxy_v1 k then Done (s\<lparr>sv_proxy_protocol := 1\<rparr>) else Unavailable
         else if v = lit ''v2'' then if k_proxy_v2 k then Done (s\<lparr>sv_proxy_protocol := 2\<rparr>) else Unavailable
         else Invalid)
      else if k_proxy k \<and> key = lit ''proxy_protocol_tlv'' then if v = lit ''off'' then Done s else Invalid
      else if key = lit ''udp_idle_timeout'' then
        (if k_udp k then setting (integer v 1 86400) (\<lambda>x. s\<lparr>sv_udp_options_seen := 1, sv_udp_idle_timeout := x\<rparr>) else Unavailable)
      else if key = lit ''udp_reply_timeout'' then
        (if k_udp k then setting (integer v 1 86400) (\<lambda>x. s\<lparr>sv_udp_options_seen := 1, sv_udp_reply_timeout := x\<rparr>) else Unavailable)
      else if key = lit ''udp_max_sessions'' then
        (if k_udp k then setting (integer v 1 (int (k_max_udp_sessions k)))
           (\<lambda>x. s\<lparr>sv_udp_options_seen := 1, sv_udp_max_sessions := x\<rparr>) else Unavailable)
      else if key = lit ''udp_max_datagram_size'' then
        (if k_udp k then setting (integer v 512 (int (k_max_udp_datagram k)))
           (\<lambda>x. s\<lparr>sv_udp_options_seen := 1, sv_udp_max_datagram_size := x\<rparr>) else Unavailable)
      else Unknown_key)"

section \<open>Reading a file\<close>

text \<open>
  \<open>fgets\<close> into a buffer of \<open>n\<close> bytes: the bytes stored, the rest of the file, and whether the end of
  the file was reached. The loop ends when nothing is left.
\<close>

definition fgets :: "nat \<Rightarrow> bytes \<Rightarrow> bytes \<times> bytes \<times> bool" where
  "fgets n bs =
     (let l = takeWhile (\<lambda>b. b \<noteq> 10) bs in
      if length l < n - 1 then
        if length l < length bs then (l @ [10], drop (length l + 1) bs, False) else (l, [], True)
      else (take (n - 1) bs, drop (n - 1) bs, False))"

lemma fgets_shorter: "1 < n \<Longrightarrow> bs \<noteq> [] \<Longrightarrow> fgets n bs = (l, rest, eof) \<Longrightarrow> length rest < length bs"
  by (cases bs) (auto simp: fgets_def Let_def split: if_splits)

datatype config_error =
    Cannot_open | Line_too_long | Invalid_section | Section_too_long | Too_many_services | Expected_key_value
  | Duplicate_key | Too_many_keys | Key_unknown | Feature_unavailable | Invalid_value | Read_error
  | Bad_environment | Log_path_too_long | Mode_required | Role_unavailable | Private_key_required
  | Cipher_not_allowed | Family_unavailable | Heartbeat_order | Limit_exceeded | Pool_unavailable
  | Encryption_unavailable | Authorized_file_required | Services_on_server | Client_settings_required
  | Unsupported_type | Proxy_not_tcp | Udp_unavailable | Udp_option_on_tcp | Ports_required | Duplicate_service
  | Unsafe_file | Bad_key_file | Expected_client | Too_many_clients | Duplicate_client | Client_id_too_long
  | Client_incomplete

definition open_policy_file :: "fs \<Rightarrow> bytes \<Rightarrow> bytes option" where
  "open_policy_file fs path =
     (case fs path of
        None \<Rightarrow> None
      | Some f \<Rightarrow> if \<not> f_regular f \<or> f_mode f AND 18 \<noteq> 0 then None else Some (f_content f))"

section \<open>The configuration file\<close>

definition new_service :: "autoconf \<Rightarrow> ct_config \<Rightarrow> bytes \<Rightarrow> ct_service_config" where
  "new_service k c section =
     \<lparr>sv_id = section, sv_remote_addr = (if k_ipv6 k then lit ''::'' else lit ''0.0.0.0''),
      sv_local_addr = (if k_ipv4 k then lit ''127.0.0.1'' else lit ''::1''), sv_remote_port = 0, sv_local_port = 0,
      sv_encryption = cf_default_data_encryption c, sv_type = 0, sv_proxy_protocol = 0,
      sv_udp_idle_timeout = (if k_udp k then 60 else 0), sv_udp_reply_timeout = (if k_udp k then 5 else 0),
      sv_udp_max_sessions = (if k_udp k then int (k_max_udp_sessions k) else 0),
      sv_udp_max_datagram_size = (if k_udp k then int (k_max_udp_datagram k) else 0), sv_udp_options_seen = 0\<rparr>"

text \<open>The variables of the loop; \<open>svc\<close>, when set, points to the last service.\<close>

record load_state =
  ls_config :: ct_config
  ls_section :: bytes
  ls_in_service :: bool
  ls_common_seen :: "bytes list"
  ls_section_seen :: "bytes list"

definition load_section :: "autoconf \<Rightarrow> load_state \<Rightarrow> bytes \<Rightarrow> config_error + load_state" where
  "load_section k st p =
     (case strchr 93 p of
        None \<Rightarrow> Inl Invalid_section
      | Some (before, after) \<Rightarrow>
          if after \<noteq> [] then Inl Invalid_section
          else case cp (k_max_service_id k + 1) (tl before) of
            None \<Rightarrow> Inl Section_too_long
          | Some section \<Rightarrow>
              let c = ls_config st; st' = st\<lparr>ls_section := section, ls_section_seen := []\<rparr> in
              if section = lit ''common'' then Inr (st'\<lparr>ls_in_service := False\<rparr>)
              else if length (cf_services c) = k_max_services k then Inl Too_many_services
              else Inr (st'\<lparr>ls_in_service := True, ls_config := c\<lparr>cf_services := cf_services c @ [new_service k c section]\<rparr>\<rparr>))"

definition load_setting :: "autoconf \<Rightarrow> load_state \<Rightarrow> bytes \<Rightarrow> config_error + load_state" where
  "load_setting k st p =
     (case strchr 61 p of
        None \<Rightarrow> Inl Expected_key_value
      | Some (before, after) \<Rightarrow>
          if ls_section st = [] then Inl Expected_key_value
          else
            let key = trim before; v = trim after; c = ls_config st in
            case key_seen (if ls_in_service st then ls_section_seen st else ls_common_seen st)
                   (if ls_in_service st then 16 else 40) key of
              Seen_before \<Rightarrow> Inl Duplicate_key
            | Seen_full \<Rightarrow> Inl Too_many_keys
            | Seen_now seen \<Rightarrow>
                (case (if ls_in_service st
                       then case set_service k (last (cf_services c)) key v of
                              Done s \<Rightarrow> Done (c\<lparr>cf_services := butlast (cf_services c) @ [s]\<rparr>)
                            | Unknown_key \<Rightarrow> Unknown_key | Unavailable \<Rightarrow> Unavailable | Invalid \<Rightarrow> Invalid
                       else set_common k c key v) of
                   Done c' \<Rightarrow>
                     Inr (if ls_in_service st then st\<lparr>ls_config := c', ls_section_seen := seen\<rparr>
                          else st\<lparr>ls_config := c', ls_common_seen := seen\<rparr>)
                 | Unknown_key \<Rightarrow> Inl Key_unknown
                 | Unavailable \<Rightarrow> Inl Feature_unavailable
                 | Invalid \<Rightarrow> Inl Invalid_value))"

definition load_line :: "autoconf \<Rightarrow> load_state \<Rightarrow> bytes \<Rightarrow> bool \<Rightarrow> config_error + load_state" where
  "load_line k st raw eof =
     (let line = cstr raw in
      if 10 \<notin> set line \<and> \<not> eof then Inl Line_too_long
      else
        let p = trim line in
        if p = [] \<or> hd p = 35 \<or> hd p = 59 then Inr st
        else if hd p = 91 then load_section k st p
        else load_setting k st p)"

text \<open>The buffer has twice the path length, so at least 128 bytes.\<close>

function load_lines :: "autoconf \<Rightarrow> bytes \<Rightarrow> load_state \<Rightarrow> config_error + load_state" where
  "load_lines k bs st =
     (if bs = [] \<or> k_max_path k * 2 \<le> 1 then Inr st
      else case fgets (k_max_path k * 2) bs of (raw, rest, eof) \<Rightarrow>
        (case load_line k st raw eof of
           Inl e \<Rightarrow> Inl e
         | Inr st' \<Rightarrow> load_lines k rest st'))"
  by pat_completeness auto
termination
  by (relation "measure (\<lambda>(k, bs, st). length bs)") (auto elim!: fgets_shorter [OF _ _ sym, rotated 2])

declare load_lines.simps [simp del]

section \<open>Validation\<close>

definition service_problem :: "autoconf \<Rightarrow> (nat \<Rightarrow> bytes \<Rightarrow> bool) \<Rightarrow> bytes list \<Rightarrow> ct_service_config \<Rightarrow> config_error option" where
  "service_problem k pton earlier s =
     (if address_family_unavailable k pton (sv_remote_addr s) \<noteq> 0 \<or>
         address_family_unavailable k pton (sv_local_addr s) \<noteq> 0 then Some Family_unavailable
      else if sv_type s \<noteq> 1 \<and> sv_type s \<noteq> 2 then Some Unsupported_type
      else if k_proxy k \<and> sv_type s \<noteq> 1 \<and> sv_proxy_protocol s \<noteq> 0 then Some Proxy_not_tcp
      else if \<not> k_udp k \<and> sv_type s = 2 then Some Udp_unavailable
      else if k_udp k \<and> sv_type s = 1 \<and> sv_udp_options_seen s \<noteq> 0 then Some Udp_option_on_tcp
      else if \<not> k_data_encryption k \<and> sv_encryption s \<noteq> CT_ENC_DISABLED then Some Encryption_unavailable
      else if sv_remote_port s = 0 \<or> sv_local_port s = 0 then Some Ports_required
      else if sv_id s \<in> set earlier then Some Duplicate_service
      else None)"

fun services_problem ::
  "autoconf \<Rightarrow> (nat \<Rightarrow> bytes \<Rightarrow> bool) \<Rightarrow> bytes list \<Rightarrow> ct_service_config list \<Rightarrow> config_error option" where
  "services_problem k pton earlier [] = None"
| "services_problem k pton earlier (s # ss) =
     (case service_problem k pton earlier s of
        Some e \<Rightarrow> Some e
      | None \<Rightarrow> services_problem k pton (earlier @ [sv_id s]) ss)"

definition ct_config_validate :: "autoconf \<Rightarrow> (nat \<Rightarrow> bytes \<Rightarrow> bool) \<Rightarrow> ct_config \<Rightarrow> config_error option" where
  "ct_config_validate k pton c =
     (if cf_mode c = CT_MODE_NONE then Some Mode_required
      else if \<not> k_server k \<and> cf_mode c = CT_MODE_SERVER then Some Role_unavailable
      else if \<not> k_client k \<and> cf_mode c = CT_MODE_CLIENT then Some Role_unavailable
      else if cf_identity_private_key c = [] then Some Private_key_required
      else if \<not> bit (cf_cipher_mask c) (unat (cf_preferred_cipher c)) then Some Cipher_not_allowed
      else if address_family_unavailable k pton (cf_bind_addr c) \<noteq> 0 \<or>
              (cf_mode c = CT_MODE_CLIENT \<and> address_family_unavailable k pton (cf_server_addr c) \<noteq> 0)
      then Some Family_unavailable
      else if cf_heartbeat_timeout c \<le> cf_heartbeat_interval c then Some Heartbeat_order
      else if cf_max_clients c > int (k_max_clients k) then Some Limit_exceeded
      else if cf_max_services_per_client c > int (k_max_services k) \<or>
              cf_max_streams_per_client c > int (k_max_streams k) \<or>
              cf_max_pending_streams c > int (k_max_pending k) then Some Limit_exceeded
      else if \<not> k_work_pool k \<and> cf_pool_count c \<noteq> 0 then Some Pool_unavailable
      else if \<not> k_data_encryption k \<and> cf_default_data_encryption c \<noteq> CT_ENC_DISABLED then Some Encryption_unavailable
      else if cf_mode c = CT_MODE_SERVER then
        (if cf_authorized_clients_file c = [] then Some Authorized_file_required
         else if cf_services c \<noteq> [] then Some Services_on_server
         else None)
      else if cf_server_addr c = [] \<or> cf_client_id c = [] \<or> cf_server_public_key c = [] then Some Client_settings_required
      else services_problem k pton [] (cf_services c))"

text \<open>The overrides from the environment, in builds that have them.\<close>

definition env_override :: "autoconf \<Rightarrow> bytes option \<Rightarrow> bytes option \<Rightarrow> ct_config \<Rightarrow> ct_config option" where
  "env_override k level pool c =
     (if \<not> k_env_override k then Some c
      else
        case (case level of None \<Rightarrow> Some c
              | Some v \<Rightarrow> map_option (\<lambda>l. c\<lparr>cf_log_level := int l\<rparr>) (ct_log_parse_level k v)) of
          None \<Rightarrow> None
        | Some c1 \<Rightarrow> (case pool of None \<Rightarrow> Some c1
              | Some v \<Rightarrow> map_option (\<lambda>n. c1\<lparr>cf_pool_count := n\<rparr>) (integer v 0 (int (k_max_streams k)))))"

definition ct_config_load ::
  "autoconf \<Rightarrow> (nat \<Rightarrow> bytes \<Rightarrow> bool) \<Rightarrow> fs \<Rightarrow> bytes option \<Rightarrow> bytes option \<Rightarrow> bool \<Rightarrow> bytes \<Rightarrow> config_error + ct_config" where
  "ct_config_load k pton fs level pool read_error path =
     (case open_policy_file fs path of
        None \<Rightarrow> Inl Cannot_open
      | Some content \<Rightarrow>
          let c0 = (defaults k)\<lparr>cf_config_path := (case cp (k_max_path k) path of None \<Rightarrow> [] | Some x \<Rightarrow> x)\<rparr> in
          case load_lines k content \<lparr>ls_config = c0, ls_section = [], ls_in_service = False,
                 ls_common_seen = [], ls_section_seen = []\<rparr> of
            Inl e \<Rightarrow> Inl e
          | Inr st \<Rightarrow>
              if read_error then Inl Read_error
              else case env_override k level pool (ls_config st) of
                None \<Rightarrow> Inl Bad_environment
              | Some c1 \<Rightarrow>
                  (case set_default_log_file k c1 of
                     None \<Rightarrow> Inl Log_path_too_long
                   | Some c2 \<Rightarrow>
                       (case ct_config_validate k pton c2 of Some e \<Rightarrow> Inl e | None \<Rightarrow> Inr c2)))"

definition ct_config_validate_security_files :: "fs \<Rightarrow> ct_config \<Rightarrow> config_error option" where
  "ct_config_validate_security_files fs c =
     (case fs (cf_identity_private_key c) of
        None \<Rightarrow> Some Unsafe_file
      | Some f \<Rightarrow>
          if \<not> f_regular f \<or> f_mode f AND 63 \<noteq> 0 then Some Unsafe_file
          else if cf_mode c = CT_MODE_SERVER \<and>
              (case fs (cf_authorized_clients_file c) of None \<Rightarrow> True | Some g \<Rightarrow> \<not> f_regular g \<or> f_mode g AND 18 \<noteq> 0)
          then Some Unsafe_file
          else if \<not> is_ok (ct_load_private_key fs (cf_identity_private_key c)) then Some Bad_key_file
          else if cf_mode c = CT_MODE_CLIENT then
            if is_ok (ct_load_public_key fs (cf_server_public_key c)) then None else Some Bad_key_file
          else if list_all (\<lambda>a. is_ok (ct_load_public_key fs (au_public_key a))) (cf_clients c) then None
          else Some Bad_key_file)"

section \<open>Authorized clients\<close>

definition parse_range :: "bytes \<Rightarrow> ct_port_range option" where
  "parse_range v =
     (let (a, _, b) = strtol v;
          (z, b') = (if b \<noteq> [] \<and> hd b = 45 then let (z, _, b') = strtol (tl b) in (z, b') else (a, b))
      in if b' \<noteq> [] \<or> a < 1 \<or> z < a \<or> z > 65535 then None
         else Some \<lparr>pr_first = of_int a, pr_last = of_int z\<rparr>)"

text \<open>The clients read so far, whether a section is open (its client is the last one), the keys seen in it.\<close>

record auth_state =
  as_clients :: "ct_authorized_client list"
  as_open :: bool
  as_seen :: "bytes list"

definition auth_section :: "autoconf \<Rightarrow> ct_config \<Rightarrow> auth_state \<Rightarrow> bytes \<Rightarrow> config_error + auth_state" where
  "auth_section k c st p =
     (case strchr 93 p of
        None \<Rightarrow> Inl Expected_client
      | Some (before, after) \<Rightarrow>
          if after \<noteq> [] \<or> take 8 p \<noteq> lit ''[client.'' then Inl Expected_client
          else
            let name = drop 8 before in
            if length (as_clients st) = k_max_clients k then Inl Too_many_clients
            else if list_ex (\<lambda>a. au_id a = name) (as_clients st) then Inl Duplicate_client
            else (case cp (k_max_client_id k + 1) name of
                None \<Rightarrow> Inl Client_id_too_long
              | Some cid \<Rightarrow>
                  Inr \<lparr>as_clients = as_clients st @ [\<lparr>au_id = cid, au_public_key = [],
                         au_allow_addr = (if k_ipv6 k then lit ''::'' else lit ''0.0.0.0''), au_ports = [],
                         au_max_services = cf_max_services_per_client c, au_max_streams = cf_max_streams_per_client c\<rparr>],
                       as_open = True, as_seen = []\<rparr>))"

definition auth_set :: "autoconf \<Rightarrow> ct_authorized_client \<Rightarrow> bytes \<Rightarrow> bytes \<Rightarrow> ct_authorized_client setting" where
  "auth_set k a key v =
     (if key = lit ''public_key'' then setting (cp (k_max_path k) v) (\<lambda>x. a\<lparr>au_public_key := x\<rparr>)
      else if key = lit ''allow_bind_addr'' then setting (cp (k_max_addr k + 1) v) (\<lambda>x. a\<lparr>au_allow_addr := x\<rparr>)
      else if key = lit ''allow_remote_port'' then
        (if length (au_ports a) = k_max_port_ranges k then Invalid
         else setting (parse_range v) (\<lambda>r. a\<lparr>au_ports := au_ports a @ [r]\<rparr>))
      else if key = lit ''max_services'' then setting (integer v 1 (int (k_max_services k))) (\<lambda>x. a\<lparr>au_max_services := x\<rparr>)
      else if key = lit ''max_streams'' then setting (integer v 1 (int (k_max_streams k))) (\<lambda>x. a\<lparr>au_max_streams := x\<rparr>)
      else Unknown_key)"

definition auth_setting :: "autoconf \<Rightarrow> auth_state \<Rightarrow> bytes \<Rightarrow> config_error + auth_state" where
  "auth_setting k st p =
     (case strchr 61 p of
        None \<Rightarrow> Inl Expected_key_value
      | Some (before, after) \<Rightarrow>
          if \<not> as_open st then Inl Expected_key_value
          else
            let key = trim before; v = trim after in
            case (if key \<noteq> lit ''allow_remote_port'' then key_seen (as_seen st) 4 key else Seen_now (as_seen st)) of
              Seen_before \<Rightarrow> Inl Duplicate_key
            | Seen_full \<Rightarrow> Inl Too_many_keys
            | Seen_now seen \<Rightarrow>
                (case auth_set k (last (as_clients st)) key v of
                   Done a \<Rightarrow> Inr (st\<lparr>as_clients := butlast (as_clients st) @ [a], as_seen := seen\<rparr>)
                 | Unknown_key \<Rightarrow> Inl Key_unknown
                 | Unavailable \<Rightarrow> Inl Feature_unavailable
                 | Invalid \<Rightarrow> Inl Invalid_value))"

definition auth_line :: "autoconf \<Rightarrow> ct_config \<Rightarrow> auth_state \<Rightarrow> bytes \<Rightarrow> bool \<Rightarrow> config_error + auth_state" where
  "auth_line k c st raw eof =
     (let line = cstr raw in
      if 10 \<notin> set line \<and> \<not> eof then Inl Line_too_long
      else
        let p = trim line in
        if p = [] \<or> hd p = 35 \<or> hd p = 59 then Inr st
        else if hd p = 91 then auth_section k c st p
        else auth_setting k st p)"

function auth_lines :: "autoconf \<Rightarrow> ct_config \<Rightarrow> bytes \<Rightarrow> auth_state \<Rightarrow> config_error + auth_state" where
  "auth_lines k c bs st =
     (if bs = [] \<or> k_max_path k * 2 \<le> 1 then Inr st
      else case fgets (k_max_path k * 2) bs of (raw, rest, eof) \<Rightarrow>
        (case auth_line k c st raw eof of
           Inl e \<Rightarrow> Inl e
         | Inr st' \<Rightarrow> auth_lines k c rest st'))"
  by pat_completeness auto
termination
  by (relation "measure (\<lambda>(k, c, bs, st). length bs)") (auto elim!: fgets_shorter [OF _ _ sym, rotated 2])

declare auth_lines.simps [simp del]

definition client_problem :: "autoconf \<Rightarrow> (nat \<Rightarrow> bytes \<Rightarrow> bool) \<Rightarrow> ct_authorized_client \<Rightarrow> config_error option" where
  "client_problem k pton a =
     (if address_family_unavailable k pton (au_allow_addr a) \<noteq> 0 then Some Family_unavailable
      else if au_public_key a = [] \<or> au_ports a = [] then Some Client_incomplete
      else None)"

definition ct_authorized_load ::
  "autoconf \<Rightarrow> (nat \<Rightarrow> bytes \<Rightarrow> bool) \<Rightarrow> fs \<Rightarrow> bytes \<Rightarrow> ct_config \<Rightarrow> config_error + ct_config" where
  "ct_authorized_load k pton fs path c =
     (case open_policy_file fs path of
        None \<Rightarrow> Inl Cannot_open
      | Some content \<Rightarrow>
          (case auth_lines k c content \<lparr>as_clients = cf_clients c, as_open = False, as_seen = []\<rparr> of
             Inl e \<Rightarrow> Inl e
           | Inr st \<Rightarrow>
               (case List.find (\<lambda>x. x \<noteq> None) (map (client_problem k pton) (as_clients st)) of
                  Some (Some e) \<Rightarrow> Inl e
                | _ \<Rightarrow> Inr (c\<lparr>cf_clients := as_clients st\<rparr>))))"

end
