(* ===== verification/Config_Valid.thy ===== *)
theory Config_Valid
  imports Config
begin

text \<open>
  What a successful load of a configuration guarantees: every string fits its array, every number is
  in its documented range, the tables are within their capacities and hold no duplicates. The
  invariants are kept line by line and completed by the final checks.
\<close>

section \<open>Numbers\<close>

lemma integer_range: "integer s lo hi = Some v \<Longrightarrow> lo \<le> v \<and> v \<le> hi"
  by (auto simp: integer_def Let_def split: prod.splits if_splits)

lemma port_range: "port s = Some p \<Longrightarrow> p \<noteq> 0"
proof -
  assume "port s = Some p"
  then obtain v where v: "integer s 1 65535 = Some v" "p = of_int v" by (auto simp: port_def)
  from integer_range [OF v(1)] have "1 \<le> v" "v \<le> 65535" by auto
  then have "uint (of_int v :: u16) = v" by (simp add: uint_word_of_int_eq take_bit_int_eq_self)
  with \<open>1 \<le> v\<close> v(2) show "p \<noteq> 0" by auto
qed

lemma cp_fits: "cp n s = Some t \<Longrightarrow> t = s \<and> length t < n"
  by (auto simp: cp_def split: if_splits)

section \<open>The invariants\<close>

definition common_ok :: "autoconf \<Rightarrow> ct_config \<Rightarrow> bool" where
  "common_ok k c \<longleftrightarrow>
     length (cf_config_path c) < k_max_path k \<and> length (cf_bind_addr c) \<le> k_max_addr k \<and>
     length (cf_server_addr c) \<le> k_max_addr k \<and> length (cf_client_id c) \<le> k_max_client_id k \<and>
     length (cf_identity_private_key c) < k_max_path k \<and> length (cf_server_public_key c) < k_max_path k \<and>
     length (cf_authorized_clients_file c) < k_max_path k \<and> length (cf_log_file c) < k_max_path k \<and>
     cf_bind_port c \<noteq> 0 \<and> cf_server_port c \<noteq> 0 \<and>
     cf_heartbeat_interval c \<in> {1..3600} \<and> cf_heartbeat_timeout c \<in> {2..7200} \<and>
     cf_handshake_timeout c \<in> {1..120} \<and> cf_connect_timeout c \<in> {1..120} \<and>
     cf_reconnect_initial_delay c \<in> {1..3600} \<and> cf_reconnect_max_delay c \<in> {1..86400} \<and>
     cf_reconnect_jitter_percent c \<in> {0..90} \<and> cf_pool_count c \<in> {0..max 64 (int (k_max_streams k))} \<and>
     cf_max_clients c \<in> {1..int (k_max_clients k)} \<and> cf_max_services_per_client c \<in> {1..int (k_max_services k)} \<and>
     cf_max_streams_per_client c \<in> {1..int (k_max_streams k)} \<and> cf_max_pending_streams c \<in> {1..int (k_max_pending k)} \<and>
     cf_default_data_encryption c \<in> {CT_ENC_DISABLED, CT_ENC_REQUIRED} \<and> cf_log_level c \<in> {0..int (k_log_max k)} \<and>
     cf_log_rotate_days c \<in> {0..3650} \<and> cf_log_max_size_kib c \<in> {64..1048576}"

definition service_ok :: "autoconf \<Rightarrow> ct_service_config \<Rightarrow> bool" where
  "service_ok k s \<longleftrightarrow>
     length (sv_id s) \<le> k_max_service_id k \<and> length (sv_remote_addr s) \<le> k_max_addr k \<and>
     length (sv_local_addr s) \<le> k_max_addr k \<and> sv_encryption s \<in> {CT_ENC_DISABLED, CT_ENC_REQUIRED} \<and>
     sv_type s \<in> {0..4} \<and> sv_proxy_protocol s \<in> {0..2} \<and>
     (k_udp k \<longrightarrow> sv_udp_idle_timeout s \<in> {1..86400} \<and> sv_udp_reply_timeout s \<in> {1..86400} \<and>
        sv_udp_max_sessions s \<in> {1..int (k_max_udp_sessions k)} \<and>
        sv_udp_max_datagram_size s \<in> {512..int (k_max_udp_datagram k)})"

definition load_inv :: "autoconf \<Rightarrow> load_state \<Rightarrow> bool" where
  "load_inv k st \<longleftrightarrow> (let c = ls_config st in
     common_ok k c \<and> length (cf_services c) \<le> k_max_services k \<and> (\<forall>s\<in>set (cf_services c). service_ok k s) \<and>
     (ls_in_service st \<longrightarrow> cf_services c \<noteq> []) \<and> cf_clients c = [])"

lemma setting_Done [simp]: "setting v f = Done c \<longleftrightarrow> (\<exists>x. v = Some x \<and> c = f x)"
  by (auto simp: setting_def split: option.splits)

text \<open>A chain of alternatives, when no alternative needs its condition.\<close>

lemma if_either: "(if b then x else y) = z \<Longrightarrow> (x = z \<Longrightarrow> P) \<Longrightarrow> (y = z \<Longrightarrow> P) \<Longrightarrow> P"
  by (cases b) auto

lemma enc_modes: "enc k v = Done x \<Longrightarrow> x \<in> {CT_ENC_DISABLED, CT_ENC_REQUIRED}"
  by (auto simp: enc_def split: if_splits)

lemma log_level_range: "ct_log_parse_level k s = Some l \<Longrightarrow> l \<le> k_log_max k"
  by (auto simp: ct_log_parse_level_def find_Some_iff simp del: upt_Suc)

text \<open>What each parser promises of its value.\<close>

lemmas parsed = cp_fits integer_range port_range log_level_range enc_modes

lemma set_common_ok: "common_ok k c \<Longrightarrow> set_common k c key v = Done c' \<Longrightarrow> common_ok k c'"
  unfolding set_common_def
  by (elim if_either; simp split: setting.splits; (elim exE conjE)?; (drule parsed)?; fastforce simp: common_ok_def)

lemma set_common_tables:
  "set_common k c key v = Done c' \<Longrightarrow> cf_services c' = cf_services c \<and> cf_clients c' = cf_clients c"
  unfolding set_common_def by (elim if_either; simp split: setting.splits; (elim exE conjE)?; fastforce)

lemma set_service_ok: "service_ok k s \<Longrightarrow> set_service k s key v = Done s' \<Longrightarrow> service_ok k s'"
  unfolding set_service_def
  by (elim if_either; simp split: setting.splits; (elim exE conjE)?; (drule parsed)?; fastforce simp: service_ok_def)

section \<open>Reading line by line\<close>

text \<open>The reference reading of a file: its lines one after the other, each complete, up to the first error.\<close>

fun each_line :: "('s \<Rightarrow> bytes \<Rightarrow> bool \<Rightarrow> config_error + 's) \<Rightarrow> bytes list \<Rightarrow> 's \<Rightarrow> config_error + 's" where
  "each_line handle [] st = Inr st"
| "each_line handle (l # ls) st =
     (case handle st (l @ [10]) False of Inl e \<Rightarrow> Inl e | Inr st' \<Rightarrow> each_line handle ls st')"

definition unlines :: "bytes list \<Rightarrow> bytes" where
  "unlines ls = concat (map (\<lambda>l. l @ [10]) ls)"

lemma unlines_simps [simp]: "unlines [] = []" "unlines (l # ls) = l @ 10 # unlines ls"
  by (simp_all add: unlines_def)

lemma takeWhile_newline: "10 \<notin> set l \<Longrightarrow> takeWhile (\<lambda>b. b \<noteq> 10) (l @ 10 # rest) = (l :: bytes)"
  by (induction l) auto

lemma takeWhile_no_newline: "10 \<notin> set l \<Longrightarrow> takeWhile (\<lambda>b. b \<noteq> 10) l = (l :: bytes)"
  by (induction l) auto

text \<open>
  The loop both loaders have: \<open>fgets\<close> into a buffer of \<open>n\<close> bytes, a handler for the line, the first
  error ends it; the handler rejects a line that the buffer did not hold.
\<close>

locale line_reader =
  fixes n :: nat and handle :: "'s \<Rightarrow> bytes \<Rightarrow> bool \<Rightarrow> config_error + 's" and run :: "bytes \<Rightarrow> 's \<Rightarrow> config_error + 's"
  assumes run_eq: "run bs st = (if bs = [] \<or> n \<le> 1 then Inr st
      else case fgets n bs of (raw, rest, eof) \<Rightarrow> (case handle st raw eof of Inl e \<Rightarrow> Inl e | Inr st' \<Rightarrow> run rest st'))"
    and too_long: "10 \<notin> set (cstr raw) \<Longrightarrow> handle st raw False = Inl Line_too_long"
begin

lemma run_keeps:
  assumes "I st" "run bs st = Inr st'" and keep: "\<And>st raw eof st'. I st \<Longrightarrow> handle st raw eof = Inr st' \<Longrightarrow> I st'"
  shows "I st'"
  using assms(1,2)
proof (induction bs arbitrary: st rule: length_induct)
  case (1 bs)
  obtain raw rest eof where g: "fgets n bs = (raw, rest, eof)" by (metis prod_cases3)
  show ?case
  proof (cases "bs = [] \<or> n \<le> 1")
    case True
    then show ?thesis using "1.prems" by (simp add: run_eq)
  next
    case False
    with "1.prems"(2) g obtain st1 where st1: "handle st raw eof = Inr st1" "run rest st1 = Inr st'"
      by (auto simp: run_eq [of bs] split: sum.splits)
    have "length rest < length bs" using fgets_shorter [OF _ _ g] False by simp
    then show ?thesis using "1.IH" keep [OF "1.prems"(1) st1(1)] st1(2) by blast
  qed
qed

lemma run_line:
  assumes "10 \<notin> set l" "length l < n - 1"
  shows "run (l @ 10 # rest) st = (case handle st (l @ [10]) False of Inl e \<Rightarrow> Inl e | Inr st' \<Rightarrow> run rest st')"
proof -
  have "fgets n (l @ 10 # rest) = (l @ [10], rest, False)" using assms by (simp add: fgets_def takeWhile_newline)
  moreover have "\<not> n \<le> 1" using assms(2) by linarith
  ultimately show ?thesis by (simp add: run_eq [of "l @ 10 # rest"])
qed

lemma run_last:
  assumes "10 \<notin> set l" "1 < n"
  shows "run l st = (if l = [] then Inr st else if length l < n - 1 then handle st l True else Inl Line_too_long)"
proof (cases "length l < n - 1")
  case True
  then have "fgets n l = (l, [], True)" using assms(1) by (simp add: fgets_def takeWhile_no_newline)
  then show ?thesis using True assms(2) by (auto simp: run_eq [of l] run_eq [of "[]"] split: sum.splits)
next
  case False
  have g: "fgets n l = (take (n - 1) l, drop (n - 1) l, False)" using False assms(1) by (simp add: fgets_def takeWhile_no_newline)
  have "10 \<notin> set (cstr (take (n - 1) l))"
    using assms(1) unfolding cstr_def by (meson in_set_takeD set_takeWhileD)
  from too_long [OF this] show ?thesis using g False assms(2) by (auto simp: run_eq [of l])
qed

lemma run_lines:
  assumes "\<forall>l\<in>set ls. 10 \<notin> set l \<and> length l < n - 1" "10 \<notin> set rest" "1 < n"
  shows "run (unlines ls @ rest) st =
    (case each_line handle ls st of
       Inl e \<Rightarrow> Inl e
     | Inr st' \<Rightarrow> if rest = [] then Inr st' else if length rest < n - 1 then handle st' rest True else Inl Line_too_long)"
  using assms(1)
proof (induction ls arbitrary: st)
  case Nil
  then show ?case using run_last [OF assms(2,3)] by simp
next
  case (Cons l ls)
  then show ?case using run_line [of l "unlines ls @ rest" st] by (auto split: sum.splits)
qed

end

interpretation conf: line_reader "k_max_path k * 2" "load_line k" "load_lines k" for k
  by unfold_locales (subst load_lines.simps, simp, simp add: load_line_def)

interpretation auth: line_reader "k_max_path k * 2" "auth_line k c" "auth_lines k c" for k c
  by unfold_locales (subst auth_lines.simps, simp, simp add: auth_line_def)

section \<open>Line by line\<close>

lemma defaults_ok: "kconfig_ranges k \<Longrightarrow> length path < k_max_path k \<Longrightarrow> common_ok k ((defaults k)\<lparr>cf_config_path := path\<rparr>)"
  by (auto simp: common_ok_def defaults_def kconfig_ranges_def lit_def)

lemma new_service_ok:
  "kconfig_ranges k \<Longrightarrow> common_ok k c \<Longrightarrow> length section \<le> k_max_service_id k \<Longrightarrow> service_ok k (new_service k c section)"
  by (auto simp: service_ok_def new_service_def common_ok_def kconfig_ranges_def lit_def)

lemma load_section_inv:
  assumes "kconfig_ranges k" "load_inv k st" "load_section k st p = Inr st'"
  shows "load_inv k st'"
proof -
  from assms(3) obtain before name where
    cp: "cp (k_max_service_id k + 1) (tl before) = Some name"
    and st': "if name = lit ''common'' then st' = st\<lparr>ls_section := name, ls_section_seen := [], ls_in_service := False\<rparr>
      else length (cf_services (ls_config st)) \<noteq> k_max_services k \<and>
        st' = st\<lparr>ls_section := name, ls_section_seen := [], ls_in_service := True,
          ls_config := (ls_config st)\<lparr>cf_services := cf_services (ls_config st) @ [new_service k (ls_config st) name]\<rparr>\<rparr>"
    by (auto simp: load_section_def Let_def split: option.splits if_splits)
  from cp_fits [OF cp] assms(2) new_service_ok [OF assms(1), of "ls_config st" name] st' show ?thesis
    by (auto simp: load_inv_def Let_def common_ok_def split: if_splits)
qed

lemma seen_Inr_iff:
  "(case x of Seen_before \<Rightarrow> Inl e1 | Seen_full \<Rightarrow> Inl e2 | Seen_now seen \<Rightarrow> f seen) = Inr y \<longleftrightarrow> (\<exists>seen. x = Seen_now seen \<and> f seen = Inr y)"
  "(case z of Done c \<Rightarrow> Inr (g c) | Unknown_key \<Rightarrow> Inl e1 | Unavailable \<Rightarrow> Inl e2 | Invalid \<Rightarrow> Inl e3) = Inr y \<longleftrightarrow>
     (\<exists>c. z = Done c \<and> y = g c)"
  "(case u of None \<Rightarrow> Inl e | Some w \<Rightarrow> h w) = Inr y \<longleftrightarrow> (\<exists>w. u = Some w \<and> h w = Inr y)"
  "(if b then Inl e else r) = Inr y \<longleftrightarrow> \<not> b \<and> r = Inr y"
  "(case d of Done s \<Rightarrow> Done (i s) | Unknown_key \<Rightarrow> Unknown_key | Unavailable \<Rightarrow> Unavailable | Invalid \<Rightarrow> Invalid) = Done j \<longleftrightarrow>
     (\<exists>s. d = Done s \<and> j = i s)"
  by (auto split: seen_result.splits setting.splits option.splits)

lemma load_setting_inv:
  assumes inv: "load_inv k st" and "load_setting k st p = Inr st'"
  shows "load_inv k st'"
proof -
  let ?c = "ls_config st"
  obtain key v seen c' where
    set: "(if ls_in_service st
           then case set_service k (last (cf_services ?c)) key v of
                  Done s \<Rightarrow> Done (?c\<lparr>cf_services := butlast (cf_services ?c) @ [s]\<rparr>)
                | Unknown_key \<Rightarrow> Unknown_key | Unavailable \<Rightarrow> Unavailable | Invalid \<Rightarrow> Invalid
           else set_common k ?c key v) = Done c'"
    and st': "st' = (if ls_in_service st then st\<lparr>ls_config := c', ls_section_seen := seen\<rparr>
      else st\<lparr>ls_config := c', ls_common_seen := seen\<rparr>)"
    using assms(2) unfolding load_setting_def Let_def seen_Inr_iff case_prod_beta by blast
  show ?thesis
  proof (cases "ls_in_service st")
    case True
    then obtain s where s: "set_service k (last (cf_services ?c)) key v = Done s" "c' = ?c\<lparr>cf_services := butlast (cf_services ?c) @ [s]\<rparr>"
      using set by (auto simp: seen_Inr_iff)
    have ne: "cf_services ?c \<noteq> []" and ok: "\<forall>s\<in>set (cf_services ?c). service_ok k s"
      using inv True by (auto simp: load_inv_def Let_def)
    then have "service_ok k s" using set_service_ok [OF _ s(1)] by simp
    moreover have "common_ok k c'" using inv by (simp add: s(2) load_inv_def Let_def common_ok_def)
    ultimately show ?thesis using inv True ne ok by (auto simp: st' s(2) load_inv_def Let_def dest: in_set_butlastD)
  next
    case False
    then show ?thesis using inv set set_common_ok [of k ?c key v c'] set_common_tables [of k ?c key v c']
      by (auto simp: st' load_inv_def Let_def)
  qed
qed

lemma load_line_inv:
  "kconfig_ranges k \<Longrightarrow> load_inv k st \<Longrightarrow> load_line k st raw eof = Inr st' \<Longrightarrow> load_inv k st'"
  by (auto simp: load_line_def Let_def split: if_splits dest: load_section_inv load_setting_inv)

lemma load_lines_inv:
  "kconfig_ranges k \<Longrightarrow> load_inv k st \<Longrightarrow> load_lines k bs st = Inr st' \<Longrightarrow> load_inv k st'"
  by (rule conf.run_keeps [where I = "load_inv k"]) (auto intro: load_line_inv)

section \<open>The final checks\<close>

text \<open>What a running server or client relies on.\<close>

definition service_usable :: "autoconf \<Rightarrow> ct_service_config \<Rightarrow> bool" where
  "service_usable k s \<longleftrightarrow> service_ok k s \<and> sv_type s \<in> {1, 2} \<and> sv_remote_port s \<noteq> 0 \<and> sv_local_port s \<noteq> 0 \<and>
     (sv_type s = 2 \<longrightarrow> k_udp k) \<and> (k_proxy k \<and> sv_type s = 2 \<longrightarrow> sv_proxy_protocol s = 0) \<and>
     (sv_encryption s = CT_ENC_REQUIRED \<longrightarrow> k_data_encryption k)"

definition config_usable :: "autoconf \<Rightarrow> ct_config \<Rightarrow> bool" where
  "config_usable k c \<longleftrightarrow> common_ok k c \<and> cf_identity_private_key c \<noteq> [] \<and>
     bit (cf_cipher_mask c) (unat (cf_preferred_cipher c)) \<and> cf_heartbeat_interval c < cf_heartbeat_timeout c \<and>
     (k_work_pool k \<or> cf_pool_count c = 0) \<and>
     (cf_default_data_encryption c = CT_ENC_REQUIRED \<longrightarrow> k_data_encryption k) \<and>
     length (cf_services c) \<le> k_max_services k \<and> distinct (map sv_id (cf_services c)) \<and>
     (\<forall>s\<in>set (cf_services c). service_usable k s) \<and>
     (case cf_mode c of
        CT_MODE_NONE \<Rightarrow> False
      | CT_MODE_SERVER \<Rightarrow> k_server k \<and> cf_authorized_clients_file c \<noteq> [] \<and> cf_services c = []
      | CT_MODE_CLIENT \<Rightarrow> k_client k \<and> cf_server_addr c \<noteq> [] \<and> cf_client_id c \<noteq> [] \<and> cf_server_public_key c \<noteq> [])"

lemma modes_differ [simp]: "CT_ENC_REQUIRED \<noteq> CT_ENC_DISABLED" "CT_ENC_DISABLED \<noteq> CT_ENC_REQUIRED"
  by (simp_all add: CT_ENC_REQUIRED_def CT_ENC_DISABLED_def)

lemma service_problem_None:
  "service_problem k pton earlier s = None \<Longrightarrow> service_ok k s \<Longrightarrow> service_usable k s \<and> sv_id s \<notin> set earlier"
  by (auto simp: service_problem_def service_usable_def split: if_splits)

lemma services_problem_None:
  assumes "services_problem k pton earlier ss = None" "\<forall>s\<in>set ss. service_ok k s" "distinct earlier"
  shows "distinct (earlier @ map sv_id ss) \<and> (\<forall>s\<in>set ss. service_usable k s)"
  using assms
proof (induction ss arbitrary: earlier)
  case (Cons s ss)
  then have "service_problem k pton earlier s = None" and rest: "services_problem k pton (earlier @ [sv_id s]) ss = None"
    by (auto split: option.splits)
  with service_problem_None [of k pton earlier s] Cons.prems have s: "service_usable k s" "sv_id s \<notin> set earlier" by auto
  with Cons.IH [OF rest] Cons.prems show ?case by auto
qed simp

lemma env_override_ok:
  assumes "env_override k level pool c = Some c'" "common_ok k c"
  shows "common_ok k c' \<and> cf_services c' = cf_services c"
proof -
  have l: "common_ok k (c\<lparr>cf_log_level := int l\<rparr>)" if "ct_log_parse_level k v = Some l" for v l
    using assms(2) log_level_range [OF that] by (simp add: common_ok_def)
  have p: "common_ok k (d\<lparr>cf_pool_count := n\<rparr>)" if "integer v 0 (int (k_max_streams k)) = Some n" "common_ok k d" for v n d
    using that(2) integer_range [OF that(1)] by (fastforce simp: common_ok_def)
  show ?thesis using assms l p by (auto simp: env_override_def split: if_splits option.splits)
qed

lemma default_log_file_ok:
  assumes "set_default_log_file k c = Some c'" "common_ok k c"
  shows "common_ok k c' \<and> cf_services c' = cf_services c"
proof -
  have *: "c' = c \<or> (\<exists>f. length f < k_max_path k \<and> c' = c\<lparr>cf_log_file := f\<rparr>)"
    if "(if b then Some c else if dir = [] then map_option (\<lambda>x. c\<lparr>cf_log_file := x\<rparr>) (cp (k_max_path k) name)
      else if length dir + length name \<ge> k_max_path k then None else Some (c\<lparr>cf_log_file := dir @ name\<rparr>)) = Some c'"
    for b and dir name :: bytes
    using that by (auto simp: cp_def split: if_splits intro!: exI [of _ "dir @ name"])
  from * [OF assms(1) [unfolded set_default_log_file_def Let_def]] show ?thesis
    using assms(2) by (elim disjE exE conjE) (simp_all add: common_ok_def)
qed

lemma no_problem_iff: "(if b then Some e else r) = None \<longleftrightarrow> \<not> b \<and> r = None"
  by simp

lemma validate_usable:
  assumes "ct_config_validate k pton c = None" "common_ok k c" "length (cf_services c) \<le> k_max_services k"
    and "\<forall>s\<in>set (cf_services c). service_ok k s"
  shows "config_usable k c"
proof -
  note v = assms(1) [unfolded ct_config_validate_def no_problem_iff]
  have "bit (cf_cipher_mask c) (unat (cf_preferred_cipher c))" "cf_identity_private_key c \<noteq> []"
    "cf_heartbeat_interval c < cf_heartbeat_timeout c" "k_work_pool k \<or> cf_pool_count c = 0"
    "cf_default_data_encryption c = CT_ENC_REQUIRED \<longrightarrow> k_data_encryption k"
    using v by (blast, blast, linarith, blast, fastforce)
  then show ?thesis
    using v assms(2-) services_problem_None [of k pton "[]" "cf_services c"]
    by (cases "cf_mode c") (simp_all add: config_usable_def no_problem_iff)
qed

lemma env_override_clients: "env_override k level pool c = Some c' \<Longrightarrow> cf_clients c' = cf_clients c"
  by (auto simp: env_override_def split: if_splits option.splits)

lemma default_log_clients: "set_default_log_file k c = Some c' \<Longrightarrow> cf_clients c' = cf_clients c"
  by (auto simp: set_default_log_file_def Let_def split: if_splits option.splits)

lemma config_load_ok:
  assumes k: "kconfig_ranges k" and "ct_config_load k pton fs level pool read_error path = Inr c"
  shows "config_usable k c \<and> cf_clients c = []"
proof -
  define c0 where "c0 = (defaults k)\<lparr>cf_config_path := (case cp (k_max_path k) path of None \<Rightarrow> [] | Some x \<Rightarrow> x)\<rparr>"
  from assms(2) obtain content st c1 where
    l: "load_lines k content \<lparr>ls_config = c0, ls_section = [], ls_in_service = False, ls_common_seen = [], ls_section_seen = []\<rparr> = Inr st"
    and e: "env_override k level pool (ls_config st) = Some c1" "set_default_log_file k c1 = Some c"
      "ct_config_validate k pton c = None"
    by (auto simp: ct_config_load_def Let_def c0_def split: option.splits sum.splits if_splits)
  have "0 < k_max_path k" using k by (simp add: kconfig_ranges_def)
  then have "common_ok k c0" unfolding c0_def
    by (intro defaults_ok [OF k]) (auto split: option.splits dest: cp_fits)
  then have "load_inv k \<lparr>ls_config = c0, ls_section = [], ls_in_service = False, ls_common_seen = [], ls_section_seen = []\<rparr>"
    by (simp add: load_inv_def Let_def c0_def defaults_def)
  from load_lines_inv [OF k this l] have "load_inv k st" .
  with env_override_ok [OF e(1)] default_log_file_ok [OF e(2)] validate_usable [OF e(3)] e show ?thesis
    by (auto simp: load_inv_def Let_def env_override_clients default_log_clients)
qed

text \<open>
  C18: a configuration that loads is usable. For every build whose limits are in the ranges of
  Kconfig and every file content, a configuration the loader returns has every string inside its
  array, every number in its documented range and a heartbeat timeout above the interval; the
  service table is within its capacity, without duplicate names, and every service has a type the
  build supports and both ports; and the settings the role needs are present.
\<close>

theorem config_load_usable:
  assumes "kconfig_ranges k" "ct_config_load k pton fs level pool read_error path = Inr c"
  shows "config_usable k c"
  using config_load_ok [OF assms] by simp

text \<open>
  The loader reads a file line by line. For lines that fit the buffer the result is that of
  handling them in order, where the first error ends the load with that error; a last line without a
  newline is handled too, and one that does not fit is rejected as too long rather than split.
\<close>

theorem config_lines_in_order:
  assumes "\<forall>l\<in>set ls. 10 \<notin> set l \<and> length l < k_max_path k * 2 - 1" "10 \<notin> set rest" "1 < k_max_path k * 2"
  shows "load_lines k (unlines ls @ rest) st =
    (case each_line (load_line k) ls st of
       Inl e \<Rightarrow> Inl e
     | Inr st' \<Rightarrow> if rest = [] then Inr st' else if length rest < k_max_path k * 2 - 1 then load_line k st' rest True
         else Inl Line_too_long)"
  by (rule conf.run_lines [OF assms])

section \<open>A small file\<close>

definition conf_lines :: "bytes list" where
  "conf_lines = [lit ''[common]'', lit ''mode=server'', lit ''identity_private_key=k'', lit ''authorized_clients_file=a'']"

definition server_conf :: fs where
  "server_conf = [lit ''s.conf'' \<mapsto> \<lparr>f_regular = True, f_mode = 384, f_content = unlines conf_lines\<rparr>]"

text \<open>The state before the first line.\<close>

definition load_start :: "bytes \<Rightarrow> load_state" where
  "load_start path = \<lparr>ls_config = (defaults default_defconfig)\<lparr>cf_config_path := path\<rparr>, ls_section = [], ls_in_service = False,
     ls_common_seen = [], ls_section_seen = []\<rparr>"

lemmas line_defs = load_line_def load_section_def load_setting_def set_common_def cp_def trim_def isspace_def strchr_def
  lit_def Let_def key_seen_def cstr_def setting_def

lemma default_ranges: "kconfig_ranges default_defconfig"
  by (simp add: kconfig_ranges_def default_defconfig_def)

lemma conf_lines_load:
  "\<exists>st. each_line (load_line default_defconfig) conf_lines (load_start path) = Inr st \<and>
     ls_config st = (defaults default_defconfig)\<lparr>cf_config_path := path, cf_mode := CT_MODE_SERVER,
       cf_identity_private_key := [107], cf_authorized_clients_file := [97]\<rparr>"
  by (simp add: conf_lines_def load_start_def line_defs default_defconfig_def)

lemma conf_lines_fit: "\<forall>l\<in>set conf_lines. 10 \<notin> set l \<and> length l < k_max_path default_defconfig * 2 - 1"
  by (simp add: conf_lines_def default_defconfig_def lit_def)

theorem config_lines_in_order_witness:
  "\<exists>st. load_lines default_defconfig (unlines conf_lines @ lit ''x'') (load_start []) = Inl Expected_key_value \<and>
     each_line (load_line default_defconfig) conf_lines (load_start []) = Inr st"
proof -
  obtain st where st: "each_line (load_line default_defconfig) conf_lines (load_start []) = Inr st" using conf_lines_load by blast
  have "10 \<notin> set (lit ''x'')" "1 < k_max_path default_defconfig * 2" "lit ''x'' \<noteq> []"
    "length (lit ''x'') < k_max_path default_defconfig * 2 - 1" "load_line default_defconfig st (lit ''x'') True = Inl Expected_key_value"
    by (simp_all add: default_defconfig_def line_defs)
  with config_lines_in_order [OF conf_lines_fit, of "lit ''x''" "load_start []"] st show ?thesis by simp
qed

lemma conf_loads:
  assumes "fs (lit ''s.conf'') = server_conf (lit ''s.conf'')"
  shows "\<exists>c. ct_config_load default_defconfig (\<lambda>_ _. False) fs None None False (lit ''s.conf'') = Inr c \<and>
    cf_mode c = CT_MODE_SERVER \<and> cf_identity_private_key c = [107] \<and> cf_authorized_clients_file c = [97] \<and> cf_clients c = [] \<and>
    length (cf_log_file c) < 512 \<and> cf_log_max_size_kib c = 1024 \<and> bit (cf_cipher_mask c) 1"
proof -
  let ?p = "lit ''s.conf''" and ?k = default_defconfig
  from conf_lines_load [of ?p] obtain st where st: "each_line (load_line ?k) conf_lines (load_start ?p) = Inr st"
    "ls_config st = (defaults ?k)\<lparr>cf_config_path := ?p, cf_mode := CT_MODE_SERVER, cf_identity_private_key := [107],
       cf_authorized_clients_file := [97]\<rparr>" by blast
  have "1 < k_max_path ?k * 2" by (simp add: default_defconfig_def)
  from conf.run_lines [OF conf_lines_fit, of "[]", OF _ this] st(1)
  have l: "load_lines ?k (unlines conf_lines) (load_start ?p) = Inr st" by simp
  have o: "open_policy_file fs ?p = Some (unlines conf_lines)"
    using assms by (simp add: open_policy_file_def server_conf_def)
  have "cp (k_max_path ?k) ?p = Some ?p" by (simp add: cp_def default_defconfig_def)
  moreover have "env_override ?k None None (ls_config st) = Some (ls_config st)" by (simp add: env_override_def)
  moreover obtain c where c: "set_default_log_file ?k (ls_config st) = Some c" "ct_config_validate ?k (\<lambda>_ _. False) c = None"
      "cf_mode c = CT_MODE_SERVER \<and> cf_identity_private_key c = [107] \<and> cf_authorized_clients_file c = [97] \<and> cf_clients c = [] \<and>
       length (cf_log_file c) < 512 \<and> cf_log_max_size_kib c = 1024 \<and> bit (cf_cipher_mask c) 1"
    by (simp add: st(2) set_default_log_file_def defaults_def lit_def cp_def default_defconfig_def ct_config_validate_def
        address_family_unavailable_def CT_CIPHER_CHACHA_def)
  ultimately have "ct_config_load ?k (\<lambda>_ _. False) fs None None False ?p = Inr c"
    using o l by (simp add: ct_config_load_def load_start_def)
  with c(3) show ?thesis by blast
qed

theorem config_load_usable_witness:
  "\<exists>c. ct_config_load default_defconfig (\<lambda>_ _. False) server_conf None None False (lit ''s.conf'') = Inr c \<and>
     config_usable default_defconfig c"
  using conf_loads [of server_conf] config_load_usable [OF default_ranges] by blast

section \<open>Authorized clients\<close>

lemma parse_range_ok: "parse_range v = Some r \<Longrightarrow> 1 \<le> pr_first r \<and> pr_first r \<le> pr_last r"
proof -
  assume "parse_range v = Some r"
  then obtain a z where r: "r = \<lparr>pr_first = of_int a, pr_last = of_int z\<rparr>" "1 \<le> a" "a \<le> z" "z \<le> 65535"
    by (auto simp: parse_range_def Let_def split: prod.splits if_splits)
  then have "uint (of_int a :: u16) = a" "uint (of_int z :: u16) = z"
    by (simp_all add: uint_word_of_int_eq take_bit_int_eq_self)
  then show ?thesis using r by (simp add: word_le_def)
qed

definition client_ok :: "autoconf \<Rightarrow> ct_authorized_client \<Rightarrow> bool" where
  "client_ok k a \<longleftrightarrow> length (au_id a) \<le> k_max_client_id k \<and> length (au_public_key a) < k_max_path k \<and>
     length (au_allow_addr a) \<le> k_max_addr k \<and> length (au_ports a) \<le> k_max_port_ranges k \<and>
     (\<forall>r\<in>set (au_ports a). 1 \<le> pr_first r \<and> pr_first r \<le> pr_last r) \<and>
     au_max_services a \<in> {1..int (k_max_services k)} \<and> au_max_streams a \<in> {1..int (k_max_streams k)}"

definition auth_inv :: "autoconf \<Rightarrow> auth_state \<Rightarrow> bool" where
  "auth_inv k st \<longleftrightarrow> length (as_clients st) \<le> k_max_clients k \<and> distinct (map au_id (as_clients st)) \<and>
     (\<forall>a\<in>set (as_clients st). client_ok k a) \<and> (as_open st \<longrightarrow> as_clients st \<noteq> [])"

lemma auth_set_ok:
  assumes "client_ok k a" "auth_set k a key v = Done a'"
  shows "client_ok k a' \<and> au_id a' = au_id a"
  using assms unfolding auth_set_def
  by (auto simp: client_ok_def split: if_splits dest!: cp_fits integer_range parse_range_ok)

lemma auth_section_inv:
  assumes k: "kconfig_ranges k" and c: "common_ok k c" and inv: "auth_inv k st" and "auth_section k c st p = Inr st'"
  shows "auth_inv k st'"
proof -
  from assms(4) obtain cid where n: "length (as_clients st) \<noteq> k_max_clients k" "\<not> list_ex (\<lambda>a. au_id a = cid) (as_clients st)"
    "length cid < k_max_client_id k + 1"
    and st': "st' = \<lparr>as_clients = as_clients st @ [\<lparr>au_id = cid, au_public_key = [],
        au_allow_addr = (if k_ipv6 k then lit ''::'' else lit ''0.0.0.0''), au_ports = [],
        au_max_services = cf_max_services_per_client c, au_max_streams = cf_max_streams_per_client c\<rparr>], as_open = True, as_seen = []\<rparr>"
    unfolding auth_section_def Let_def seen_Inr_iff case_prod_beta by (auto dest: cp_fits)
  have "client_ok k (last (as_clients st'))" using n(3) c k
    by (auto simp: st' client_ok_def common_ok_def kconfig_ranges_def lit_def)
  with inv n(1,2) show ?thesis by (auto simp: auth_inv_def st' list_ex_iff)
qed

lemma auth_setting_inv:
  assumes inv: "auth_inv k st" and "auth_setting k st p = Inr st'"
  shows "auth_inv k st'"
proof -
  from assms(2) obtain key v seen a where a: "auth_set k (last (as_clients st)) key v = Done a" "as_open st"
    and st': "st' = st\<lparr>as_clients := butlast (as_clients st) @ [a], as_seen := seen\<rparr>"
    unfolding auth_setting_def Let_def seen_Inr_iff case_prod_beta by blast
  obtain xs x where xs: "as_clients st = xs @ [x]" using inv a(2) by (metis auth_inv_def rev_exhaust)
  with auth_set_ok [OF _ a(1)] inv show ?thesis by (auto simp: auth_inv_def st')
qed

lemma auth_line_inv:
  "kconfig_ranges k \<Longrightarrow> common_ok k c \<Longrightarrow> auth_inv k st \<Longrightarrow> auth_line k c st raw eof = Inr st' \<Longrightarrow> auth_inv k st'"
  by (auto simp: auth_line_def Let_def split: if_splits dest: auth_section_inv auth_setting_inv)

lemma auth_lines_inv:
  "kconfig_ranges k \<Longrightarrow> common_ok k c \<Longrightarrow> auth_inv k st \<Longrightarrow> auth_lines k c bs st = Inr st' \<Longrightarrow> auth_inv k st'"
  by (rule auth.run_keeps [where I = "auth_inv k"]) (auto intro: auth_line_inv)

lemma find_unique: "distinct (map f xs) \<Longrightarrow> x \<in> set xs \<Longrightarrow> List.find (\<lambda>y. f y = f x) xs = Some x"
  by (induction xs) (auto simp: image_iff)

lemma authorized_load_ok:
  assumes "kconfig_ranges k" "common_ok k c" "cf_clients c = []" "ct_authorized_load k pton fs path c = Inr c'"
  shows "length (cf_clients c') \<le> k_max_clients k \<and> distinct (map au_id (cf_clients c')) \<and>
    (\<forall>a\<in>set (cf_clients c'). client_ok k a \<and> au_public_key a \<noteq> [] \<and> au_ports a \<noteq> [] \<and> ct_authorized_find c' (au_id a) = Some a)"
proof -
  from assms(3,4) obtain content st where
    l: "auth_lines k c content \<lparr>as_clients = [], as_open = False, as_seen = []\<rparr> = Inr st" and c': "c' = c\<lparr>cf_clients := as_clients st\<rparr>"
    and f: "List.find (\<lambda>x. x \<noteq> None) (map (client_problem k pton) (as_clients st)) = None"
    by (auto simp: ct_authorized_load_def find_None_iff find_Some_iff split: option.splits sum.splits)
  have inv: "auth_inv k st" by (rule auth_lines_inv [OF assms(1,2) _ l]) (simp add: auth_inv_def)
  have "au_public_key a \<noteq> [] \<and> au_ports a \<noteq> []" if "a \<in> set (as_clients st)" for a
  proof -
    have "client_problem k pton a = None" using f that by (simp add: find_None_iff)
    then show ?thesis unfolding client_problem_def no_problem_iff by simp
  qed
  with inv show ?thesis by (auto simp: auth_inv_def c' ct_authorized_find_def find_unique)
qed

text \<open>
  C19: the table of authorized clients is unambiguous and complete. A list that loads fits its table,
  names no client twice, gives each a key file and at least one port range, every range is a
  non-empty interval of ports above 0, the limits are within those of the build; and the lookup by
  identifier returns exactly the entry that was read.
\<close>

theorem authorized_load_usable:
  assumes "kconfig_ranges k" "common_ok k c" "cf_clients c = []" "ct_authorized_load k pton fs path c = Inr c'"
  shows "length (cf_clients c') \<le> k_max_clients k \<and> distinct (map au_id (cf_clients c')) \<and>
    (\<forall>a\<in>set (cf_clients c'). client_ok k a \<and> au_public_key a \<noteq> [] \<and> au_ports a \<noteq> [] \<and> ct_authorized_find c' (au_id a) = Some a)"
  using authorized_load_ok [OF assms] .

definition client_lines :: "bytes list" where
  "client_lines = [lit ''[client.a]'', lit ''public_key=k'', lit ''allow_remote_port=7-9'']"

definition clients_conf :: fs where
  "clients_conf = [lit ''c'' \<mapsto> \<lparr>f_regular = True, f_mode = 384, f_content = unlines client_lines\<rparr>]"

lemma client_range: "parse_range [55, 45, 57] = Some \<lparr>pr_first = 7, pr_last = 9\<rparr>"
  by (simp add: parse_range_def strtol_def isspace_def digit_def decimal_def)

lemma client_lines_load:
  "\<exists>st. each_line (auth_line default_defconfig (defaults default_defconfig)) client_lines \<lparr>as_clients = [], as_open = False, as_seen = []\<rparr> = Inr st \<and>
     map au_id (as_clients st) = [[97]] \<and> map au_public_key (as_clients st) = [[107]] \<and> map au_ports (as_clients st) \<noteq> [[]]"
  by (simp add: client_lines_def auth_line_def auth_section_def auth_setting_def auth_set_def line_defs client_range default_defconfig_def)

theorem authorized_load_usable_witness:
  "\<exists>c'. ct_authorized_load default_defconfig (\<lambda>_ _. False) clients_conf (lit ''c'') (defaults default_defconfig) = Inr c' \<and>
     map au_id (cf_clients c') = [[97]] \<and> (\<exists>a. ct_authorized_find c' [97] = Some a)"
proof -
  let ?k = default_defconfig
  from client_lines_load obtain st where
    st: "each_line (auth_line ?k (defaults ?k)) client_lines \<lparr>as_clients = [], as_open = False, as_seen = []\<rparr> = Inr st"
      "map au_id (as_clients st) = [[97]]" "map au_public_key (as_clients st) = [[107]]" "map au_ports (as_clients st) \<noteq> [[]]"
    by (elim exE conjE)
  have fit: "\<forall>l\<in>set client_lines. 10 \<notin> set l \<and> length l < k_max_path ?k * 2 - 1" "1 < k_max_path ?k * 2"
    by (simp_all add: client_lines_def default_defconfig_def lit_def)
  obtain a where a: "as_clients st = [a]" "au_id a = [97]" using st(2) by auto
  have l: "auth_lines ?k (defaults ?k) (unlines client_lines) \<lparr>as_clients = [], as_open = False, as_seen = []\<rparr> = Inr st"
    using auth.run_lines [OF fit(1), of "[]" "defaults ?k"] fit(2) st(1) by simp
  have "client_problem ?k (\<lambda>_ _. False) a = None" using a st(3,4) by (simp add: client_problem_def address_family_unavailable_def)
  then have run: "ct_authorized_load ?k (\<lambda>_ _. False) clients_conf (lit ''c'') (defaults ?k) = Inr ((defaults ?k)\<lparr>cf_clients := [a]\<rparr>)"
    using l a by (simp add: ct_authorized_load_def open_policy_file_def clients_conf_def defaults_def)
  have "common_ok ?k (defaults ?k)" using defaults_ok [OF default_ranges, of "[]"] by (simp add: default_defconfig_def defaults_def)
  from authorized_load_usable [OF default_ranges this _ run] run a show ?thesis by (simp add: defaults_def)
qed

end
