(* ===== verification/Log.thy ===== *)
theory Log
  imports Config
begin

text \<open>
  The log of \<open>src/src/util/log.c\<close>: the levels, the current log file with its size limit, the daily rotation
  and the removal of old files. The files are a map from paths to contents with the day of the last
  change; the text a format string and its arguments stand for is a parameter of each call.
\<close>

section \<open>State\<close>

text \<open>\<open>g_log_path\<close> is empty when only the standard error is written; \<open>g_log_day\<close> is -1 before the first line.\<close>

record log_state =
  g_level :: int
  g_log_path :: bytes
  g_rotate_days :: int
  g_log_max_bytes :: nat
  g_log_day :: int

record log_file =
  lf_content :: bytes
  lf_day :: int

type_synonym log_files = "bytes \<rightharpoonup> log_file"

text \<open>
  What the system answers during one call: the time in seconds, local time, \<open>strftime\<close> of the current
  time, whether the path can be opened for appending, names a regular file and gets a stream, whether
  removing and renaming succeed, whether seeking does, and how many bytes of a line reach the file.
\<close>

record tm =
  tm_year :: int
  tm_mon :: int
  tm_mday :: int

record log_os =
  lo_now :: int
  lo_localtime :: "int \<Rightarrow> tm"
  lo_stamp :: bytes
  lo_open :: bool
  lo_regular :: bool
  lo_fdopen :: bool
  lo_remove :: "bytes \<Rightarrow> bool"
  lo_rename :: bool
  lo_seek :: bool
  lo_written :: nat

section \<open>Configuration\<close>

definition log_start :: "autoconf \<Rightarrow> log_state" where
  "log_start k = \<lparr>g_level = int (k_log_max k), g_log_path = [], g_rotate_days = 7, g_log_max_bytes = 1024 * 1024, g_log_day = -1\<rparr>"

definition ct_log_set_level :: "autoconf \<Rightarrow> int \<Rightarrow> log_state \<Rightarrow> log_state" where
  "ct_log_set_level k l s = s\<lparr>g_level := (if l \<le> int (k_log_max k) then l else int (k_log_max k))\<rparr>"

definition day_number :: "tm \<Rightarrow> int" where
  "day_number t = (tm_year t + 1900) * 10000 + (tm_mon t + 1) * 100 + tm_mday t"

definition today :: "log_os \<Rightarrow> int" where
  "today os = day_number (lo_localtime os (lo_now os))"

text \<open>Opening creates a missing file.\<close>

definition open_log_append :: "log_os \<Rightarrow> bytes \<Rightarrow> log_files \<Rightarrow> bool \<times> log_files" where
  "open_log_append os path files =
     (if \<not> lo_open os then (False, files)
      else
        let files' = (if files path = None then files(path \<mapsto> \<lparr>lf_content = [], lf_day = today os\<rparr>) else files) in
        (lo_regular os \<and> lo_fdopen os, files'))"

definition ct_log_configure :: "autoconf \<Rightarrow> log_os \<Rightarrow> bytes option \<Rightarrow> int \<Rightarrow> int \<Rightarrow> log_state \<Rightarrow> log_files \<Rightarrow> bool \<times> log_state \<times> log_files" where
  "ct_log_configure k os path rotate_days max_size_kib s files =
     (let s1 = s\<lparr>g_log_path := [], g_log_day := -1, g_rotate_days := (if rotate_days < 0 then 7 else rotate_days)\<rparr> in
      if max_size_kib < 64 \<or> max_size_kib > (2 ^ 64 - 1) div 1024 then (False, s1, files)
      else
        let s2 = s1\<lparr>g_log_max_bytes := nat max_size_kib * 1024\<rparr> in
        case path of
          None \<Rightarrow> (True, s2, files)
        | Some p \<Rightarrow>
            if p = [] \<or> p = lit ''-'' \<or> p = lit ''stderr'' then (True, s2, files)
            else if length p \<ge> k_max_path k then (False, s2, files)
            else
              let (opened, files') = open_log_append os p files in
              if opened then (True, s2\<lparr>g_log_path := p\<rparr>, files') else (False, s2, files'))"

section \<open>Rotation\<close>

fun dec :: "nat \<Rightarrow> bytes" where
  "dec n = (if n < 10 then [48 + of_nat n] else dec (n div 10) @ [48 + of_nat (n mod 10)])"

declare dec.simps [simp del]

text \<open>
  \<open>%04d\<close> and \<open>%02d\<close>: the width includes the sign of a negative number. Division and remainder of C round
  towards zero.
\<close>

definition pad :: "nat \<Rightarrow> bytes \<Rightarrow> bytes" where
  "pad w ds = replicate (w - length ds) 48 @ ds"

definition zero_padded :: "nat \<Rightarrow> int \<Rightarrow> bytes" where
  "zero_padded w x = (if x < 0 then 45 # pad (w - 1) (dec (nat (- x))) else pad w (dec (nat x)))"

definition suffix_for_day :: "int \<Rightarrow> bytes" where
  "suffix_for_day day =
     zero_padded 4 (sgn day * (\<bar>day\<bar> div 10000)) @ zero_padded 2 (sgn day * (\<bar>day\<bar> div 100 mod 100)) @
     zero_padded 2 (sgn day * (\<bar>day\<bar> mod 100))"

definition dated :: "bytes \<Rightarrow> int \<Rightarrow> bytes" where
  "dated path day = path @ lit ''.'' @ suffix_for_day day"

definition file_mtime_day :: "log_files \<Rightarrow> bytes \<Rightarrow> int" where
  "file_mtime_day files path = (case files path of None \<Rightarrow> -1 | Some f \<Rightarrow> lf_day f)"

definition remove_file :: "log_os \<Rightarrow> bytes \<Rightarrow> log_files \<Rightarrow> log_files" where
  "remove_file os path files = (if lo_remove os path then files(path := None) else files)"

definition rename_file :: "log_os \<Rightarrow> bytes \<Rightarrow> bytes \<Rightarrow> log_files \<Rightarrow> log_files" where
  "rename_file os old new files =
     (case files old of None \<Rightarrow> files | Some f \<Rightarrow> if lo_rename os then (files(old := None))(new \<mapsto> f) else files)"

definition day_of_age :: "log_os \<Rightarrow> int \<Rightarrow> int" where
  "day_of_age os age = day_number (lo_localtime os (lo_now os - age * 86400))"

fun remove_loop :: "log_os \<Rightarrow> bytes \<Rightarrow> int \<Rightarrow> int list \<Rightarrow> log_files \<Rightarrow> log_files" where
  "remove_loop os path day0 [] files = files"
| "remove_loop os path day0 (age # ages) files =
     remove_loop os path day0 ages
       (if day_of_age os age \<ge> day0 then files else remove_file os (dated path (day_of_age os age)) files)"

definition remove_old_logs :: "log_os \<Rightarrow> int \<Rightarrow> log_state \<Rightarrow> log_files \<Rightarrow> log_files" where
  "remove_old_logs os day0 s files =
     (if g_rotate_days s \<le> 0 then files
      else remove_loop os (g_log_path s) day0 (map (\<lambda>i. g_rotate_days s + int i) [0..<32]) files)"

definition rotate_if_needed :: "log_os \<Rightarrow> int \<Rightarrow> log_state \<Rightarrow> log_files \<Rightarrow> log_state \<times> log_files" where
  "rotate_if_needed os day0 s files =
     (if g_log_path s = [] then (s, files)
      else
        let current = (if g_log_day s \<ge> 0 then g_log_day s else file_mtime_day files (g_log_path s));
            files1 = (if current > 0 \<and> current \<noteq> day0
              then rename_file os (g_log_path s) (dated (g_log_path s) current) (remove_file os (dated (g_log_path s) current) files)
              else files)
        in (s\<lparr>g_log_day := day0\<rparr>, remove_old_logs os day0 s files1))"

section \<open>Lines\<close>

text \<open>\<open>%-5s\<close> pads on the right.\<close>

definition log_line :: "bytes \<Rightarrow> bytes \<Rightarrow> bytes \<Rightarrow> bytes \<Rightarrow> bytes" where
  "log_line stamp level_name modl body =
     stamp @ lit '' '' @ level_name @ replicate (5 - length level_name) 32 @ lit '' ['' @ modl @ lit ''] '' @ body @ [10]"

text \<open>\<open>snprintf\<close> fails for a length that is no \<open>int\<close>; the size is then \<open>SIZE_MAX\<close>.\<close>

definition line_size :: "bytes \<Rightarrow> bytes \<Rightarrow> bytes \<Rightarrow> bytes \<Rightarrow> nat" where
  "line_size stamp level_name modl body =
     (let prefix = length (log_line stamp level_name modl []) - 1 in
      if prefix \<ge> 2 ^ 31 \<or> length body \<ge> 2 ^ 31 then 2 ^ 64 - 1 else prefix + length body + 1)"

text \<open>The state, the files, and what was written to the standard error.\<close>

type_synonym log_world = "log_state \<times> log_files \<times> bytes list"

definition logv :: "log_os \<Rightarrow> bytes \<Rightarrow> bytes \<Rightarrow> bytes \<Rightarrow> log_world \<Rightarrow> log_world" where
  "logv os level_name modl body w =
     (case w of (s, files, err) \<Rightarrow>
        let line = log_line (lo_stamp os) level_name modl body; err' = err @ [line] in
        if g_log_path s = [] then (s, files, err')
        else
          let (s1, files1) = rotate_if_needed os (today os) s files;
              (opened, files2) = open_log_append os (g_log_path s) files1
          in case files2 (g_log_path s) of
               None \<Rightarrow> (s1, files2, err')
             | Some f \<Rightarrow>
                 let size = length (lf_content f); needed = line_size (lo_stamp os) level_name modl body in
                 if opened \<and> lo_seek os \<and> size \<le> g_log_max_bytes s \<and> needed \<le> g_log_max_bytes s - size
                 then (s1, files2(g_log_path s \<mapsto> \<lparr>lf_content = lf_content f @ take (lo_written os) line, lf_day = today os\<rparr>), err')
                 else (s1, files2, err'))"

definition ct_log_write :: "autoconf \<Rightarrow> log_os \<Rightarrow> int \<Rightarrow> bytes \<Rightarrow> bytes \<Rightarrow> log_world \<Rightarrow> log_world" where
  "ct_log_write k os level modl body w =
     (if level > g_level (fst w) then w else logv os (if level < 0 then lit ''unknown'' else log_level_name k (nat level)) modl body w)"

definition ct_log_status :: "log_os \<Rightarrow> bytes \<Rightarrow> bytes \<Rightarrow> log_world \<Rightarrow> log_world" where
  "ct_log_status os modl body w = logv os (lit ''info'') modl body w"

section \<open>Names of rotated files\<close>

lemma decimal_append: "decimal (xs @ ys) = decimal xs * 10 ^ length ys + decimal ys"
proof (induction ys rule: rev_induct)
  case (snoc y ys)
  have "decimal (zs @ [y]) = decimal zs * 10 + uint (y - 48)" for zs by (simp add: decimal_def)
  then show ?case using snoc by (simp add: algebra_simps flip: append_assoc)
qed (simp add: decimal_def)

lemma decimal_dec: "decimal (dec n) = int n"
proof (induction n rule: dec.induct)
  case (1 n)
  have one: "decimal [48 + of_nat m] = int m" if "m < 10" for m :: nat
    using that by (simp add: decimal_def unsigned_of_nat take_bit_nat_eq_self)
  show ?case
  proof (cases "n < 10")
    case False
    have "int (n div 10) * 10 + int (n mod 10) = int n" by presburger
    then show ?thesis using 1 one [of "n mod 10"] False by (simp add: dec.simps [of n] decimal_append)
  qed (simp add: dec.simps [of n] one)
qed

lemma decimal_pad: "decimal (pad w ds) = decimal ds"
proof -
  have "decimal (replicate n 48) = 0" for n by (induction n) (simp_all add: decimal_def)
  then show ?thesis by (simp add: pad_def decimal_append)
qed

lemma length_dec: "n < 100 \<Longrightarrow> length (dec n) \<le> 2"
  by (subst dec.simps, subst dec.simps) auto

lemma decimal_suffix:
  assumes "0 \<le> day"
  shows "decimal (suffix_for_day day) = day"
proof -
  have two: "length (pad 2 (dec (nat x))) = 2" if "x < 100" for x using length_dec [of "nat x"] that by (simp add: pad_def)
  have nonneg: "\<not> day div 10000 < 0" "\<not> day div 100 mod 100 < 0" "\<not> day mod 100 < 0"
    using assms by (simp_all add: not_less pos_imp_zdiv_nonneg_iff)
  have "decimal (suffix_for_day day) = (day div 10000) * 10000 + (day div 100 mod 100) * 100 + day mod 100"
    using assms by (cases "day = 0") (simp_all add: suffix_for_day_def zero_padded_def nonneg decimal_append two decimal_pad decimal_dec)
  also have "day div 10000 = day div 100 div 100" using zdiv_zmult2_eq [of 100 day 100] by simp
  also have "day div 100 div 100 * 10000 + day div 100 mod 100 * 100 + day mod 100 = day"
    using mult_div_mod_eq [of 100 day] mult_div_mod_eq [of 100 "day div 100"] by linarith
  finally show ?thesis .
qed

lemma dated_inj: "0 \<le> a \<Longrightarrow> 0 \<le> b \<Longrightarrow> dated path a = dated path b \<longleftrightarrow> a = b"
  unfolding dated_def by (metis decimal_suffix same_append_eq)

lemma dated_neq: "dated path d \<noteq> path"
  by (simp add: dated_def lit_def)

section \<open>What a call does to the files\<close>

definition size_at :: "log_files \<Rightarrow> bytes \<Rightarrow> nat" where
  "size_at files p = (case files p of None \<Rightarrow> 0 | Some f \<Rightarrow> length (lf_content f))"

definition log_own :: "bytes \<Rightarrow> bytes \<Rightarrow> bool" where
  "log_own path p \<longleftrightarrow> p = path \<or> (\<exists>day. p = dated path day)"

text \<open>All files of the log are at most \<open>m\<close> bytes, and the others are those of \<open>files\<close>.\<close>

definition log_bounded :: "bytes \<Rightarrow> nat \<Rightarrow> log_files \<Rightarrow> log_files \<Rightarrow> bool" where
  "log_bounded path m files files' \<longleftrightarrow> (\<forall>p. if log_own path p then size_at files' p \<le> m else files' p = files p)"

lemma log_own_simps [simp]: "log_own path path" "log_own path (dated path day)"
  by (auto simp: log_own_def)

lemma size_at_upd: "size_at (g(p := v)) q = (if q = p then (case v of None \<Rightarrow> 0 | Some f \<Rightarrow> length (lf_content f)) else size_at g q)"
  by (simp add: size_at_def)

lemma bounded_update:
  "log_bounded path m files g \<Longrightarrow> log_own path p \<Longrightarrow> (case v of None \<Rightarrow> True | Some f \<Rightarrow> length (lf_content f) \<le> m) \<Longrightarrow>
     log_bounded path m files (g(p := v))"
  by (auto simp: log_bounded_def size_at_upd split: option.splits)

lemma bounded_remove: "log_bounded path m files g \<Longrightarrow> log_bounded path m files (remove_file os (dated path day) g)"
  by (simp add: remove_file_def bounded_update)

lemma bounded_at: "log_bounded path m files g \<Longrightarrow> log_own path p \<Longrightarrow> g p = Some f \<Longrightarrow> length (lf_content f) \<le> m"
  unfolding log_bounded_def size_at_def by (metis option.simps(5))

lemma bounded_rename: "log_bounded path m files g \<Longrightarrow> log_bounded path m files (rename_file os path (dated path day) g)"
  using bounded_at [of path m files g path] by (auto simp: rename_file_def intro!: bounded_update split: option.splits)

lemma bounded_remove_loop: "log_bounded path m files g \<Longrightarrow> log_bounded path m files (remove_loop os path day0 ages g)"
  by (induction ages arbitrary: g) (simp_all add: bounded_remove)

lemma bounded_rotate:
  "log_bounded (g_log_path s) m files g \<Longrightarrow> rotate_if_needed os day0 s g = (s', g') \<Longrightarrow> log_bounded (g_log_path s) m files g'"
  by (auto simp: rotate_if_needed_def remove_old_logs_def Let_def intro!: bounded_remove_loop bounded_rename bounded_remove split: if_splits)

lemma rotate_state:
  "rotate_if_needed os day0 s g = (s', g') \<Longrightarrow> g_log_path s' = g_log_path s \<and> g_log_max_bytes s' = g_log_max_bytes s \<and> g_level s' = g_level s \<and>
     g_rotate_days s' = g_rotate_days s"
  by (auto simp: rotate_if_needed_def Let_def split: if_splits)

lemma bounded_open:
  "log_bounded path m files g \<Longrightarrow> open_log_append os path g = (opened, g') \<Longrightarrow> log_bounded path m files g'"
  by (auto simp: open_log_append_def Let_def intro!: bounded_update split: if_splits)

text \<open>The computed size is at least the length of the line.\<close>

lemma line_size_covers: "length (log_line stamp level_name modl body) \<le> line_size stamp level_name modl body \<or> line_size stamp level_name modl body = 2 ^ 64 - 1"
  by (simp add: line_size_def log_line_def Let_def)

lemma logv_keeps:
  assumes "log_bounded (g_log_path s) m files g" "g_log_max_bytes s \<le> m" "g_log_max_bytes s < 2 ^ 64 - 1" "logv os level_name modl body (s, g, err) = (s', g', err')"
  shows "log_bounded (g_log_path s) m files g'" "g_log_path s' = g_log_path s" "g_log_max_bytes s' = g_log_max_bytes s" "g_level s' = g_level s"
    "err' = err @ [log_line (lo_stamp os) level_name modl body]"
proof -
  let ?line = "log_line (lo_stamp os) level_name modl body" and ?path = "g_log_path s"
  obtain s1 g1 where rot: "rotate_if_needed os (today os) s g = (s1, g1)" by fastforce
  obtain opened g2 where op: "open_log_append os ?path g1 = (opened, g2)" by fastforce
  note b = bounded_open [OF bounded_rotate [OF assms(1) rot] op]
  have app: "log_bounded ?path m files (g2(?path \<mapsto> \<lparr>lf_content = lf_content f @ take n ?line, lf_day = d\<rparr>))"
    if "g2 ?path = Some f" "length (lf_content f) \<le> g_log_max_bytes s" "line_size (lo_stamp os) level_name modl body \<le> g_log_max_bytes s - length (lf_content f)" for f n d
  proof (rule bounded_update [OF b])
    have "length ?line \<le> g_log_max_bytes s - length (lf_content f)"
      using line_size_covers [of "lo_stamp os" level_name modl body] that(3) assms(3) by linarith
    then show "case Some \<lparr>lf_content = lf_content f @ take n ?line, lf_day = d\<rparr> of None \<Rightarrow> True | Some f \<Rightarrow> length (lf_content f) \<le> m"
      using that(2) assms(2) by simp
  qed simp
  show "log_bounded ?path m files g'"
    using assms(1,4) b app by (auto simp: logv_def Let_def rot op split: if_splits option.splits)
  show "g_log_path s' = g_log_path s" "g_log_max_bytes s' = g_log_max_bytes s" "g_level s' = g_level s" "err' = err @ [?line]"
    using assms(4) rotate_state [OF rot] by (auto simp: logv_def Let_def rot op split: if_splits option.splits)
qed

section \<open>Runs\<close>

datatype log_call =
    Log_write int bytes bytes
  | Log_status bytes bytes

fun log_call_run :: "autoconf \<Rightarrow> log_os \<times> log_call \<Rightarrow> log_world \<Rightarrow> log_world" where
  "log_call_run k (os, Log_write level modl body) w = ct_log_write k os level modl body w"
| "log_call_run k (os, Log_status modl body) w = ct_log_status os modl body w"

text \<open>The line a call prints, if its level passes.\<close>

fun printed :: "autoconf \<Rightarrow> int \<Rightarrow> log_os \<times> log_call \<Rightarrow> bytes list" where
  "printed k lim (os, Log_write level modl body) =
     (if level > lim then [] else [log_line (lo_stamp os) (if level < 0 then lit ''unknown'' else log_level_name k (nat level)) modl body])"
| "printed k lim (os, Log_status modl body) = [log_line (lo_stamp os) (lit ''info'') modl body]"

lemma call_keeps:
  assumes "log_bounded (g_log_path s) m files g" "g_log_max_bytes s \<le> m" "g_log_max_bytes s < 2 ^ 64 - 1" "log_call_run k x (s, g, err) = (s', g', err')"
  shows "log_bounded (g_log_path s) m files g' \<and> g_log_path s' = g_log_path s \<and> g_log_max_bytes s' = g_log_max_bytes s \<and> g_level s' = g_level s \<and>
    err' = err @ printed k (g_level s) x"
proof (cases x)
  case (Pair os c)
  then show ?thesis using assms(1,4) logv_keeps [OF assms(1-3)]
    by (cases c) (auto simp: ct_log_write_def ct_log_status_def split: if_splits)
qed

text \<open>
  C24: the log is bounded and never touches anything else. For every sequence of log calls and every
  answer of the system, if the current and all dated log files are at most as large as the configured
  limit they stay so; files with other names are left alone; and every line whose level passes is
  written to the standard error, in order, whether or not it fits the file.
\<close>

theorem log_files_capped:
  assumes "\<forall>p. log_own (g_log_path s) p \<longrightarrow> size_at files p \<le> g_log_max_bytes s" "g_log_max_bytes s < 2 ^ 64 - 1"
    "fold (log_call_run k) calls (s, files, err) = (s', files', err')"
  shows "(\<forall>p. if log_own (g_log_path s) p then size_at files' p \<le> g_log_max_bytes s else files' p = files p) \<and>
    err' = err @ concat (map (printed k (g_level s)) calls)"
proof -
  have "log_bounded (g_log_path s) (g_log_max_bytes s) files files" using assms(1) by (simp add: log_bounded_def)
  moreover have "log_bounded (g_log_path s) m files g' \<and> err' = err @ concat (map (printed k (g_level s)) calls)"
    if "log_bounded (g_log_path s) m files g" "g_log_max_bytes s \<le> m" "g_log_max_bytes s < 2 ^ 64 - 1"
      "fold (log_call_run k) calls (s, g, err) = (s', g', err')" for m g g' s s' err err'
    using that
  proof (induction calls arbitrary: s g err)
    case (Cons x calls)
    obtain s1 g1 e1 where x: "log_call_run k x (s, g, err) = (s1, g1, e1)" by (metis prod_cases3)
    note c = call_keeps [OF Cons.prems(1-3) x]
    show ?case using Cons.IH [of s1 g1 e1] Cons.prems c x by simp
  qed simp
  ultimately show ?thesis using assms(2,3) unfolding log_bounded_def by blast
qed

definition demo_log_os :: log_os where
  "demo_log_os = \<lparr>lo_now = 864000, lo_localtime = (\<lambda>t. \<lparr>tm_year = 124, tm_mon = 0, tm_mday = max 1 (t div 86400)\<rparr>), lo_stamp = lit ''now'',
     lo_open = True, lo_regular = True, lo_fdopen = True, lo_remove = (\<lambda>_. True), lo_rename = True, lo_seek = True, lo_written = 1000\<rparr>"

definition demo_log :: log_state where
  "demo_log = \<lparr>g_level = 1, g_log_path = lit ''log'', g_rotate_days = 7, g_log_max_bytes = 40, g_log_day = -1\<rparr>"

theorem log_files_capped_witness:
  "\<exists>s' files' err'. fold (log_call_run default_defconfig) [(demo_log_os, Log_status (lit ''m'') (lit ''hello'')), (demo_log_os, Log_write 2 (lit ''m'') (lit ''x''))]
     (demo_log, Map.empty, []) = (s', files', err') \<and> size_at files' (lit ''log'') \<le> 40 \<and> err' = [log_line (lit ''now'') (lit ''info'') (lit ''m'') (lit ''hello'')]"
proof -
  let ?calls = "[(demo_log_os, Log_status (lit ''m'') (lit ''hello'')), (demo_log_os, Log_write 2 (lit ''m'') (lit ''x''))]"
  obtain s' files' err' where r: "fold (log_call_run default_defconfig) ?calls (demo_log, Map.empty, []) = (s', files', err')" by (metis prod_cases3)
  have "\<forall>p. log_own (g_log_path demo_log) p \<longrightarrow> size_at Map.empty p \<le> g_log_max_bytes demo_log" by (simp add: size_at_def)
  from log_files_capped [OF this _ r] have "size_at files' (lit ''log'') \<le> 40" "err' = concat (map (printed default_defconfig 1) ?calls)"
    by (auto simp: demo_log_def dest: spec [of _ "lit ''log''"])
  then show ?thesis using r by (simp add: demo_log_os_def)
qed

section \<open>Rotation keeps recent files\<close>

text \<open>Local dates do not go backwards.\<close>

definition calendar_ok :: "log_os \<Rightarrow> bool" where
  "calendar_ok os \<longleftrightarrow> (\<forall>a b. a \<le> b \<longrightarrow> day_number (lo_localtime os a) \<le> day_number (lo_localtime os b)) \<and> (\<forall>a. 0 \<le> day_number (lo_localtime os a))"

lemma day_of_age_le: "calendar_ok os \<Longrightarrow> a \<le> b \<Longrightarrow> day_of_age os b \<le> day_of_age os a"
  by (simp add: calendar_ok_def day_of_age_def)

lemma remove_loop_recent:
  assumes "calendar_ok os" "0 \<le> day" "\<forall>age\<in>set ages. keep \<le> age" "day_of_age os keep < day"
  shows "remove_loop os path day0 ages g (dated path day) = g (dated path day)"
  using assms(3)
proof (induction ages arbitrary: g)
  case (Cons age ages)
  have "day_of_age os age < day" using day_of_age_le [OF assms(1), of keep age] Cons.prems assms(4) by simp
  moreover have "0 \<le> day_of_age os age" using assms(1) by (simp add: calendar_ok_def day_of_age_def)
  ultimately have "dated path day \<noteq> dated path (day_of_age os age)" using dated_inj [OF assms(2)] by simp
  then show ?case using Cons by (simp add: remove_file_def)
qed simp

lemma remove_loop_path: "remove_loop os path day0 ages g path = g path"
  by (induction ages arbitrary: g) (simp_all add: remove_file_def dated_neq [symmetric])

lemma remove_old_recent:
  assumes "calendar_ok os" "0 \<le> day" "g_rotate_days s \<le> 0 \<or> day_of_age os (g_rotate_days s) < day"
  shows "remove_old_logs os day0 s g (dated (g_log_path s) day) = g (dated (g_log_path s) day)"
  using assms(3) remove_loop_recent [OF assms(1,2), of _ "g_rotate_days s"] by (auto simp: remove_old_logs_def)

lemma logv_dated:
  assumes "g_log_path s \<noteq> []" "logv os level_name modl body (s, files, err) = (s', files', err')" "rotate_if_needed os (today os) s files = (s1, files1)"
  shows "files' (dated (g_log_path s) day) = files1 (dated (g_log_path s) day)"
  using assms dated_neq [of "g_log_path s" day] by (auto simp: logv_def open_log_append_def Let_def split: if_splits option.splits)



text \<open>
  Cleaning looks at 32 days only: a dated file that is older when the program runs again is never
  removed.
\<close>

lemma old_files_stay:
  assumes "calendar_ok os" "0 \<le> day" "day < day_of_age os (g_rotate_days s + 31)"
  shows "remove_old_logs os day0 s g (dated (g_log_path s) day) = g (dated (g_log_path s) day)"
proof -
  have "remove_loop os path day0 ages g (dated path day) = g (dated path day)" if "\<forall>age\<in>set ages. age \<le> g_rotate_days s + 31" for ages path
    using that
  proof (induction ages arbitrary: g)
    case (Cons age ages)
    have "day < day_of_age os age" using day_of_age_le [OF assms(1), of age "g_rotate_days s + 31"] Cons.prems assms(3) by simp
    then have "dated path day \<noteq> dated path (day_of_age os age)" using dated_inj [OF assms(2)] assms(2) by simp
    then show ?case using Cons by (simp add: remove_file_def)
  qed simp
  then show ?thesis by (auto simp: remove_old_logs_def)
qed

end
