(* ===== verification/Applets.thy ===== *)
theory Applets
  imports Config_Valid Log
begin

text \<open>
  The command line of \<open>src/src/applets\<close>: the choice of the applet in \<open>main.c\<close>, the options and the loading of
  the configuration in \<open>common.c\<close>, and the applets. What an applet prints on the standard output
  (\<open>Out\<close>), warnings and usage on the standard error (\<open>Warns\<close>) are part of its result, one line each, the texts
  of errors are not; \<open>ct_run_server\<close> and \<open>ct_run_client\<close> take over with \<open>Starts\<close>.
\<close>

section \<open>Inputs and results\<close>

text \<open>The features and names of the build that only the applets use.\<close>

record build =
  bf_keygen :: bool
  bf_fingerprint :: bool
  bf_build_info :: bool
  bf_tcp :: bool
  bf_verbose_help :: bool
  bf_version :: bytes
  bf_git_commit :: bytes
  bf_target :: bytes
  bf_event_name :: bytes
  bf_config_hash :: bytes
  bf_link_mode :: bytes
  bf_libc_name :: bytes

text \<open>
  The system: files, \<open>inet_pton\<close>, the two environment variables, whether reading the configuration fails,
  and what the log, the key generation and the initialization get.
\<close>

record applet_env =
  ae_fs :: fs
  ae_pton :: "nat \<Rightarrow> bytes \<Rightarrow> bool"
  ae_level :: "bytes option"
  ae_pool :: "bytes option"
  ae_read_error :: bool
  ae_log_os :: log_os
  ae_log_files :: log_files
  ae_random :: "bytes option"
  ae_write_private :: write_env
  ae_write_public :: write_env
  ae_init :: bool

datatype outcome =
    Exits int
  | Starts ct_mode ct_config log_state

datatype printed_line =
    Out bytes
  | Warns bytes

type_synonym applet_result = "printed_line list \<times> fs \<times> outcome"

datatype applet_error =
    Config_error config_error
  | Mode_mismatch
  | Level_unavailable

section \<open>Version and usage\<close>

definition ct_crypto_backend_name :: bytes where "ct_crypto_backend_name = lit ''Monocypher''"

definition ct_crypto_backend_version :: bytes where "ct_crypto_backend_version = lit ''4.0.3''"

definition ct_print_version :: "build \<Rightarrow> bytes list" where
  "ct_print_version b = [lit ''ctunnel '' @ bf_version b, lit ''git commit: '' @ bf_git_commit b, lit ''target: '' @ bf_target b,
     lit ''crypto backend: '' @ ct_crypto_backend_name @ lit '' '' @ ct_crypto_backend_version]"

definition ct_applet_usage :: "autoconf \<Rightarrow> build \<Rightarrow> bytes list" where
  "ct_applet_usage k b =
     [lit ''ctunnel - lightweight authenticated reverse TCP tunnel'', [], lit ''usage:''] @
     (if k_server k then [lit ''  ctunnel server -c FILE''] else []) @
     (if k_client k then [lit ''  ctunnel client -c FILE''] else []) @
     (if k_config_test k then [lit ''  ctunnel configtest -c FILE''] else []) @
     (if bf_keygen b then [lit ''  ctunnel keygen --private FILE --public FILE''] else []) @
     (if bf_fingerprint b then [lit ''  ctunnel fingerprint PUBLIC_FILE''] else []) @
     (if bf_build_info b then [lit ''  ctunnel build-info | build-config''] else []) @
     [lit ''  ctunnel --version | --help''] @
     (if bf_verbose_help b then [[], lit ''Role applets may also be selected with ctunnel-server and ctunnel-client argv[0] aliases.''] else [])"

section \<open>Options\<close>

record ct_run_options =
  ro_config_path :: "bytes option"
  ro_log_level :: "bytes option"
  ro_test_only :: bool

function parse_options :: "autoconf \<Rightarrow> bytes list \<Rightarrow> ct_run_options \<Rightarrow> ct_run_options option" where
  "parse_options k [] opts = Some opts"
| "parse_options k (a # rest) opts =
     (if (a = lit ''-c'' \<or> a = lit ''--config'') \<and> rest \<noteq> [] then parse_options k (tl rest) (opts\<lparr>ro_config_path := Some (hd rest)\<rparr>)
      else if a = lit ''-f'' \<or> a = lit ''--foreground'' then parse_options k rest opts
      else if k_config_test k \<and> (a = lit ''-t'' \<or> a = lit ''--test-config'') then parse_options k rest (opts\<lparr>ro_test_only := True\<rparr>)
      else if k_cli_override k \<and> a = lit ''--log-level'' \<and> rest \<noteq> [] then parse_options k (tl rest) (opts\<lparr>ro_log_level := Some (hd rest)\<rparr>)
      else None)"
  by pat_completeness auto
termination
  by (relation "measure (\<lambda>(k, args, opts). length args)") auto

declare parse_options.simps [simp del]

text \<open>\<open>None\<close> is the return value 2. The first argument is the name of the applet.\<close>

definition ct_applet_parse_run_options :: "autoconf \<Rightarrow> bytes list \<Rightarrow> ct_run_options option" where
  "ct_applet_parse_run_options k argv =
     (case parse_options k (tl argv) \<lparr>ro_config_path = None, ro_log_level = None, ro_test_only = False\<rparr> of
        None \<Rightarrow> None
      | Some opts \<Rightarrow> if ro_config_path opts = None then None else Some opts)"

section \<open>Loading the configuration\<close>

definition level_override :: "autoconf \<Rightarrow> ct_run_options \<Rightarrow> ct_config \<Rightarrow> applet_error + ct_config" where
  "level_override k opts c =
     (if \<not> k_cli_override k then Inr c
      else case ro_log_level opts of
        None \<Rightarrow> Inr c
      | Some l \<Rightarrow> (case ct_log_parse_level k l of None \<Rightarrow> Inl Level_unavailable | Some x \<Rightarrow> Inr (c\<lparr>cf_log_level := int x\<rparr>)))"

definition ct_applet_load_config :: "autoconf \<Rightarrow> applet_env \<Rightarrow> ct_run_options \<Rightarrow> ct_mode \<Rightarrow> applet_error + ct_config" where
  "ct_applet_load_config k e opts expected =
     (case ct_config_load k (ae_pton e) (ae_fs e) (ae_level e) (ae_pool e) (ae_read_error e) (case ro_config_path opts of None \<Rightarrow> [] | Some p \<Rightarrow> p) of
        Inl x \<Rightarrow> Inl (Config_error x)
      | Inr c \<Rightarrow>
          if expected \<noteq> CT_MODE_NONE \<and> cf_mode c \<noteq> expected then Inl Mode_mismatch
          else case ct_config_validate_security_files (ae_fs e) c of
            Some x \<Rightarrow> Inl (Config_error x)
          | None \<Rightarrow>
              if cf_mode c = CT_MODE_SERVER then
                (case ct_authorized_load k (ae_pton e) (ae_fs e) (cf_authorized_clients_file c) c of
                   Inl x \<Rightarrow> Inl (Config_error x)
                 | Inr c1 \<Rightarrow>
                     (case ct_config_validate_security_files (ae_fs e) c1 of
                        Some x \<Rightarrow> Inl (Config_error x)
                      | None \<Rightarrow> level_override k opts c1))
              else level_override k opts c)"

section \<open>The applets\<close>

definition ct_applet_configtest :: "autoconf \<Rightarrow> applet_env \<Rightarrow> bytes list \<Rightarrow> applet_result" where
  "ct_applet_configtest k e argv =
     (case ct_applet_parse_run_options k argv of
        None \<Rightarrow> ([], ae_fs e, Exits 2)
      | Some opts \<Rightarrow>
          (case ct_applet_load_config k e opts CT_MODE_NONE of
             Inl _ \<Rightarrow> ([], ae_fs e, Exits 1)
           | Inr c \<Rightarrow>
               ((if k_data_encryption k
                 then map (\<lambda>s. Warns (lit ''warning: service '' @ [39] @ sv_id s @ [39] @ lit '' sends relay data without encryption''))
                   (filter (\<lambda>s. sv_encryption s = CT_ENC_DISABLED) (cf_services c)) else []) @
                [Out (lit ''configuration OK ('' @ (if cf_mode c = CT_MODE_SERVER then lit ''server'' else lit ''client'') @ lit '', '' @
                   dec (length (cf_services c)) @ lit '' service(s), '' @ dec (length (cf_clients c)) @ lit '' authorized client(s))'')],
                ae_fs e, Exits 0)))"

definition ct_applet_run_role :: "autoconf \<Rightarrow> applet_env \<Rightarrow> bytes list \<Rightarrow> ct_mode \<Rightarrow> applet_result" where
  "ct_applet_run_role k e argv expected =
     (case ct_applet_parse_run_options k argv of
        None \<Rightarrow> ([], ae_fs e, Exits 2)
      | Some opts \<Rightarrow>
          if k_config_test k \<and> ro_test_only opts then ct_applet_configtest k e argv
          else case ct_applet_load_config k e opts expected of
            Inl _ \<Rightarrow> ([], ae_fs e, Exits 1)
          | Inr c \<Rightarrow>
              (case ct_log_configure k (ae_log_os e) (Some (cf_log_file c)) (cf_log_rotate_days c) (cf_log_max_size_kib c)
                  (ct_log_set_level k (cf_log_level c) (log_start k)) (ae_log_files e) of
                 (ok, s, _) \<Rightarrow> ([], ae_fs e, if ok then Starts expected c s else Exits 1)))"

definition ct_applet_server :: "autoconf \<Rightarrow> applet_env \<Rightarrow> bytes list \<Rightarrow> applet_result" where
  "ct_applet_server k e argv = ct_applet_run_role k e argv CT_MODE_SERVER"

definition ct_applet_client :: "autoconf \<Rightarrow> applet_env \<Rightarrow> bytes list \<Rightarrow> applet_result" where
  "ct_applet_client k e argv = ct_applet_run_role k e argv CT_MODE_CLIENT"

definition ct_applet_legacy :: "autoconf \<Rightarrow> applet_env \<Rightarrow> bytes list \<Rightarrow> applet_result" where
  "ct_applet_legacy k e argv =
     (case ct_applet_parse_run_options k argv of
        None \<Rightarrow> ([], ae_fs e, Exits 2)
      | Some opts \<Rightarrow>
          if k_config_test k \<and> ro_test_only opts then ct_applet_configtest k e argv
          else case ct_applet_load_config k e opts CT_MODE_NONE of
            Inl _ \<Rightarrow> ([], ae_fs e, Exits 1)
          | Inr c \<Rightarrow>
              if k_server k \<and> cf_mode c = CT_MODE_SERVER then ct_applet_server k e argv
              else if k_client k \<and> cf_mode c = CT_MODE_CLIENT then ct_applet_client k e argv
              else ([], ae_fs e, Exits 1))"

definition ct_applet_fingerprint :: "monocypher \<Rightarrow> applet_env \<Rightarrow> bytes list \<Rightarrow> applet_result" where
  "ct_applet_fingerprint B e argv =
     (if length argv \<noteq> 2 then ([], ae_fs e, Exits 2)
      else case ct_fingerprint_file B (ae_fs e) (argv ! 1) 96 of
        Ok text \<Rightarrow> ([Out text], ae_fs e, Exits 0)
      | _ \<Rightarrow> ([], ae_fs e, Exits 1))"

function keygen_options :: "bytes list \<Rightarrow> bytes option \<times> bytes option \<Rightarrow> (bytes option \<times> bytes option) option" where
  "keygen_options [] paths = Some paths"
| "keygen_options (a # rest) paths =
     (if a = lit ''--private'' \<and> rest \<noteq> [] then keygen_options (tl rest) (Some (hd rest), snd paths)
      else if a = lit ''--public'' \<and> rest \<noteq> [] then keygen_options (tl rest) (fst paths, Some (hd rest))
      else None)"
  by pat_completeness auto
termination
  by (relation "measure (\<lambda>(args, paths). length args)") auto

declare keygen_options.simps [simp del]

definition ct_applet_keygen :: "monocypher \<Rightarrow> applet_env \<Rightarrow> bytes list \<Rightarrow> applet_result" where
  "ct_applet_keygen B e argv =
     (case keygen_options (tl argv) (None, None) of
        Some (Some private_path, Some public_path) \<Rightarrow>
          (case ct_keygen_files B (ae_random e) (ae_write_private e) (ae_write_public e) (ae_fs e) private_path public_path 96 of
             (None, fs) \<Rightarrow> ([], fs, Exits 1)
           | (Some text, fs) \<Rightarrow> ([Out (lit ''public key fingerprint: '' @ text)], fs, Exits 0))
      | _ \<Rightarrow> ([], ae_fs e, Exits 2))"

definition role_name :: "autoconf \<Rightarrow> bytes" where
  "role_name k = (if k_client k \<and> k_server k then lit ''client+server'' else if k_client k then lit ''client-only'' else lit ''server-only'')"

definition max_log_name :: "autoconf \<Rightarrow> bytes" where
  "max_log_name k = (if k_log_max k \<ge> 4 then lit ''trace'' else if k_log_max k = 3 then lit ''debug'' else if k_log_max k = 2 then lit ''info''
     else if k_log_max k = 1 then lit ''warn'' else lit ''error'')"

definition features :: "autoconf \<Rightarrow> build \<Rightarrow> (string \<times> string \<times> bool) list" where
  "features k b = [(''IPv4'', ''ipv4'', k_ipv4 k), (''IPv6'', ''ipv6'', k_ipv6 k), (''TCP forwarding'', ''tcp'', bf_tcp b),
     (''UDP forwarding'', ''udp'', k_udp k), (''PROXY Protocol'', ''proxy_protocol'', k_proxy k), (''PROXY Protocol v1'', ''proxy_protocol_v1'', k_proxy_v1 k),
     (''PROXY Protocol v2'', ''proxy_protocol_v2'', k_proxy_v2 k), (''data encryption'', ''data_encryption'', k_data_encryption k),
     (''work connection pool'', ''work_pool'', k_work_pool k), (''keygen'', ''keygen'', bf_keygen b), (''fingerprint'', ''fingerprint'', bf_fingerprint b)]"

definition ct_applet_build_info :: "autoconf \<Rightarrow> build \<Rightarrow> fs \<Rightarrow> applet_result" where
  "ct_applet_build_info k b fs =
     (map Out (ct_print_version b) @
      map Out [lit ''event backend: '' @ bf_event_name b, lit ''configuration: '' @ bf_config_hash b, lit ''role: '' @ role_name k,
        lit ''link mode: '' @ bf_link_mode b, lit ''C runtime: '' @ bf_libc_name b, lit ''maximum log level: '' @ max_log_name k, lit ''features:''] @
      map (\<lambda>(name, _, on). Out (lit ''  '' @ lit name @ (if on then lit '': on'' else lit '': off''))) (features k b), fs, Exits 0)"

definition ct_applet_build_config :: "autoconf \<Rightarrow> build \<Rightarrow> fs \<Rightarrow> applet_result" where
  "ct_applet_build_config k b fs =
     (map Out [lit ''role='' @ role_name k, lit ''link_mode='' @ bf_link_mode b, lit ''libc='' @ bf_libc_name b] @
      map (\<lambda>(_, name, on). Out (lit name @ (if on then lit ''=y'' else lit ''=n''))) (features k b) @
      map Out [lit ''event='' @ bf_event_name b, lit ''log_max='' @ max_log_name k, lit ''max_clients='' @ dec (k_max_clients k),
        lit ''max_services='' @ dec (k_max_services k), lit ''max_streams='' @ dec (k_max_streams k), lit ''max_pending='' @ dec (k_max_pending k),
        lit ''stream_buffer='' @ dec (k_stream_buffer k), lit ''control_buffer='' @ dec (k_control_buffer k), lit ''config_hash='' @ bf_config_hash b],
      fs, Exits 0)"

section \<open>The choice of the applet\<close>

fun base_loop :: "bytes \<Rightarrow> bytes \<Rightarrow> bytes" where
  "base_loop base [] = base"
| "base_loop base (c # p) = base_loop (if c = 47 \<or> c = 92 then p else base) p"

definition base_name :: "bytes \<Rightarrow> bytes" where
  "base_name path = base_loop path path"

datatype applet =
    A_server
  | A_client
  | A_keygen
  | A_fingerprint
  | A_configtest
  | A_build_info
  | A_build_config

definition applets :: "autoconf \<Rightarrow> build \<Rightarrow> (bytes \<times> applet) list" where
  "applets k b =
     (if k_server k then [(lit ''server'', A_server)] else []) @ (if k_client k then [(lit ''client'', A_client)] else []) @
     (if bf_keygen b then [(lit ''keygen'', A_keygen)] else []) @ (if bf_fingerprint b then [(lit ''fingerprint'', A_fingerprint)] else []) @
     (if k_config_test k then [(lit ''configtest'', A_configtest)] else []) @
     (if bf_build_info b then [(lit ''build-info'', A_build_info), (lit ''build-config'', A_build_config)] else [])"

definition find_applet :: "autoconf \<Rightarrow> build \<Rightarrow> bytes \<Rightarrow> applet option" where
  "find_applet k b name = map_of (applets k b) name"

fun run_applet :: "monocypher \<Rightarrow> autoconf \<Rightarrow> build \<Rightarrow> applet_env \<Rightarrow> applet \<Rightarrow> bytes list \<Rightarrow> applet_result" where
  "run_applet B k b e A_server argv = ct_applet_server k e argv"
| "run_applet B k b e A_client argv = ct_applet_client k e argv"
| "run_applet B k b e A_keygen argv = ct_applet_keygen B e argv"
| "run_applet B k b e A_fingerprint argv = ct_applet_fingerprint B e argv"
| "run_applet B k b e A_configtest argv = ct_applet_configtest k e argv"
| "run_applet B k b e A_build_info argv = ct_applet_build_info k b (ae_fs e)"
| "run_applet B k b e A_build_config argv = ct_applet_build_config k b (ae_fs e)"

text \<open>\<open>argv\<close> has at least the name of the program.\<close>

definition ct_main :: "monocypher \<Rightarrow> autoconf \<Rightarrow> build \<Rightarrow> applet_env \<Rightarrow> bytes list \<Rightarrow> applet_result" where
  "ct_main B k b e argv =
     (if \<not> ae_init e then ([], ae_fs e, Exits 1)
      else
        let program = base_name (hd argv);
            alias = (if k_client k \<and> program = lit ''ctunnel-client'' then Some A_client
                     else if k_server k \<and> program = lit ''ctunnel-server'' then Some A_server else None);
            arg = (if length argv > 1 then argv ! 1 else [])
        in case alias of
             Some a \<Rightarrow> run_applet B k b e a argv
           | None \<Rightarrow>
               (case (if length argv > 1 then find_applet k b arg else None) of
                  Some a \<Rightarrow> run_applet B k b e a (tl argv)
                | None \<Rightarrow>
                    if length argv = 2 \<and> (arg = lit ''-v'' \<or> arg = lit ''--version'') then (map Out (ct_print_version b), ae_fs e, Exits 0)
                    else if length argv = 2 \<and> (arg = lit ''-h'' \<or> arg = lit ''--help'') then (map Out (ct_applet_usage k b), ae_fs e, Exits 0)
                    else if bf_build_info b \<and> length argv = 2 \<and> arg = lit ''--build-info'' then ct_applet_build_info k b (ae_fs e)
                    else if length argv > 1 \<and> arg \<noteq> [] \<and> hd arg = 45 then ct_applet_legacy k e argv
                    else ((if length argv > 1 then [Warns (lit ''unknown or unavailable applet: '' @ arg)] else []) @ map Warns (ct_applet_usage k b),
                      ae_fs e, Exits 2)))"

section \<open>What is started\<close>

lemma parse_level_range: "ct_log_parse_level k v = Some x \<Longrightarrow> x \<le> k_log_max k"
  by (auto simp: ct_log_parse_level_def find_Some_iff simp del: upt_Suc)

lemma level_override_ok:
  assumes "level_override k opts c = Inr c'"
  shows "\<exists>l. c' = c\<lparr>cf_log_level := l\<rparr> \<and> (config_usable k c \<longrightarrow> l \<in> {0..int (k_log_max k)})"
  using assms
proof (cases "k_cli_override k \<and> ro_log_level opts \<noteq> None")
  case True
  then obtain v x where "ct_log_parse_level k v = Some x" "c' = c\<lparr>cf_log_level := int x\<rparr>"
    using assms by (auto simp: level_override_def split: option.splits)
  then show ?thesis using parse_level_range by auto
next
  case False
  then have "c' = c\<lparr>cf_log_level := cf_log_level c\<rparr>" using assms by (auto simp: level_override_def split: option.splits if_splits)
  then show ?thesis by (intro exI [of _ "cf_log_level c"]) (auto simp: config_usable_def common_ok_def)
qed

lemma usable_upd: "config_usable k c \<Longrightarrow> l \<in> {0..int (k_log_max k)} \<Longrightarrow> config_usable k (c\<lparr>cf_log_level := l\<rparr>)"
  "config_usable k c \<Longrightarrow> config_usable k (c\<lparr>cf_clients := cs\<rparr>)"
  by (cases "cf_mode c"; simp add: config_usable_def common_ok_def)+

lemma security_level [simp]: "ct_config_validate_security_files fs (c\<lparr>cf_log_level := l\<rparr>) = ct_config_validate_security_files fs c"
proof -
  have "cf_mode (c\<lparr>cf_log_level := l\<rparr>) = cf_mode c" "cf_identity_private_key (c\<lparr>cf_log_level := l\<rparr>) = cf_identity_private_key c"
    "cf_authorized_clients_file (c\<lparr>cf_log_level := l\<rparr>) = cf_authorized_clients_file c" "cf_clients (c\<lparr>cf_log_level := l\<rparr>) = cf_clients c"
    "cf_server_public_key (c\<lparr>cf_log_level := l\<rparr>) = cf_server_public_key c" by simp_all
  then show ?thesis by (simp only: ct_config_validate_security_files_def)
qed

lemma find_level [simp]: "ct_authorized_find (c\<lparr>cf_log_level := l\<rparr>) x = ct_authorized_find c x"
  by (simp add: ct_authorized_find_def)

lemma authorized_load_frame: "ct_authorized_load k pton fs path c = Inr c' \<Longrightarrow> \<exists>cs. c' = c\<lparr>cf_clients := cs\<rparr>"
  by (auto simp: ct_authorized_load_def split: option.splits sum.splits)

definition clients_usable :: "autoconf \<Rightarrow> ct_config \<Rightarrow> bool" where
  "clients_usable k c \<longleftrightarrow> length (cf_clients c) \<le> k_max_clients k \<and> distinct (map au_id (cf_clients c)) \<and>
     (\<forall>a\<in>set (cf_clients c). client_ok k a \<and> au_public_key a \<noteq> [] \<and> au_ports a \<noteq> [] \<and> ct_authorized_find c (au_id a) = Some a)"

lemma applet_load_ok:
  assumes "kconfig_ranges k" "ct_applet_load_config k e opts expected = Inr c"
  shows "config_usable k c \<and> (expected \<noteq> CT_MODE_NONE \<longrightarrow> cf_mode c = expected) \<and> ct_config_validate_security_files (ae_fs e) c = None \<and>
    (cf_mode c = CT_MODE_SERVER \<longrightarrow> clients_usable k c)"
proof -
  from assms(2) obtain c0 where c0: "ct_config_load k (ae_pton e) (ae_fs e) (ae_level e) (ae_pool e) (ae_read_error e)
      (case ro_config_path opts of None \<Rightarrow> [] | Some p \<Rightarrow> p) = Inr c0" and mode: "expected \<noteq> CT_MODE_NONE \<longrightarrow> cf_mode c0 = expected"
    by (auto simp: ct_applet_load_config_def split: sum.splits if_splits)
  have u: "config_usable k c0" "cf_clients c0 = []" using config_load_ok [OF assms(1) c0] by auto
  show ?thesis
  proof (cases "cf_mode c0 = CT_MODE_SERVER")
    case True
    then obtain c1 where c1: "ct_authorized_load k (ae_pton e) (ae_fs e) (cf_authorized_clients_file c0) c0 = Inr c1"
      "ct_config_validate_security_files (ae_fs e) c1 = None" "level_override k opts c1 = Inr c"
      using assms(2) c0 by (auto simp: ct_applet_load_config_def split: sum.splits if_splits option.splits)
    obtain cs where cs: "c1 = c0\<lparr>cf_clients := cs\<rparr>" using authorized_load_frame [OF c1(1)] by blast
    have usable: "config_usable k c1" using u(1) by (simp add: cs usable_upd)
    obtain l where l: "c = c1\<lparr>cf_log_level := l\<rparr>" "l \<in> {0..int (k_log_max k)}" using level_override_ok [OF c1(3)] usable by blast
    have "clients_usable k c1"
      using authorized_load_ok [OF assms(1) _ u(2) c1(1)] u(1) by (simp add: clients_usable_def config_usable_def)
    then show ?thesis using usable_upd(1) [OF usable l(2)] c1(2) mode True by (simp add: l(1) cs clients_usable_def)
  next
    case False
    then have c1: "ct_config_validate_security_files (ae_fs e) c0 = None" "level_override k opts c0 = Inr c"
      using assms(2) c0 by (auto simp: ct_applet_load_config_def split: sum.splits if_splits option.splits)
    obtain l where l: "c = c0\<lparr>cf_log_level := l\<rparr>" "l \<in> {0..int (k_log_max k)}" using level_override_ok [OF c1(2)] u(1) by blast
    then show ?thesis using usable_upd(1) [OF u(1) l(2)] c1(1) mode False by simp
  qed
qed

lemma log_configure_ok:
  assumes "ct_log_configure k os path days kib s files = (True, s', files')"
  shows "g_log_max_bytes s' = nat kib * 1024 \<and> g_log_max_bytes s' < 2 ^ 64 - 1 \<and> g_level s' = g_level s"
  using assms by (auto simp: ct_log_configure_def Let_def split: if_splits option.splits prod.splits)

definition started_ok :: "autoconf \<Rightarrow> applet_env \<Rightarrow> ct_mode \<Rightarrow> ct_config \<Rightarrow> log_state \<Rightarrow> bool" where
  "started_ok k e mode c s \<longleftrightarrow> config_usable k c \<and> cf_mode c = mode \<and> ct_config_validate_security_files (ae_fs e) c = None \<and>
     (mode = CT_MODE_SERVER \<longrightarrow> clients_usable k c) \<and> g_level s = cf_log_level c \<and>
     g_log_max_bytes s = nat (cf_log_max_size_kib c) * 1024 \<and> g_log_max_bytes s < 2 ^ 64 - 1"

lemma configtest_exits: "ct_applet_configtest k e argv \<noteq> (out, fs', Starts mode c s)"
  by (auto simp: ct_applet_configtest_def split: option.splits sum.splits)

lemma run_role_ok:
  assumes "kconfig_ranges k" "ct_applet_run_role k e argv expected = (out, fs', Starts mode c s)" "expected \<noteq> CT_MODE_NONE"
  shows "started_ok k e mode c s \<and> fs' = ae_fs e"
proof -
  obtain opts where opts: "ct_applet_parse_run_options k argv = Some opts" using assms(2) by (auto simp: ct_applet_run_role_def split: option.splits)
  have live: "\<not> (k_config_test k \<and> ro_test_only opts)" using assms(2) configtest_exits by (auto simp: ct_applet_run_role_def opts)
  obtain c' where l': "ct_applet_load_config k e opts expected = Inr c'"
    using assms(2) live by (auto simp: ct_applet_run_role_def opts split: sum.splits)
  obtain ok s' files' where g': "ct_log_configure k (ae_log_os e) (Some (cf_log_file c')) (cf_log_rotate_days c') (cf_log_max_size_kib c')
      (ct_log_set_level k (cf_log_level c') (log_start k)) (ae_log_files e) = (ok, s', files')" by (metis prod_cases3)
  have eqs: "mode = expected" "fs' = ae_fs e" "c' = c" "s' = s" "ok"
    using assms(2) live by (auto simp: ct_applet_run_role_def opts l' g' split: if_splits)
  note l = l' [unfolded eqs(3)] eqs(1,2)
  have g: "ct_log_configure k (ae_log_os e) (Some (cf_log_file c)) (cf_log_rotate_days c) (cf_log_max_size_kib c)
      (ct_log_set_level k (cf_log_level c) (log_start k)) (ae_log_files e) = (True, s, files')" using g' eqs(3-5) by simp
  note a = applet_load_ok [OF assms(1) l(1)]
  then have "cf_log_level c \<le> int (k_log_max k)" by (simp add: config_usable_def common_ok_def)
  then show ?thesis using a log_configure_ok [OF g] l assms(3) by (simp add: started_ok_def ct_log_set_level_def)
qed

lemma run_applet_ok:
  assumes "kconfig_ranges k" "run_applet B k b e a argv = (out, fs', Starts mode c s)"
  shows "started_ok k e mode c s \<and> fs' = ae_fs e"
proof (cases a)
  case A_server
  then show ?thesis using assms run_role_ok [OF assms(1), of e argv CT_MODE_SERVER] by (simp add: ct_applet_server_def)
next
  case A_client
  then show ?thesis using assms run_role_ok [OF assms(1), of e argv CT_MODE_CLIENT] by (simp add: ct_applet_client_def)
qed (use assms(2) in \<open>auto simp: ct_applet_keygen_def ct_applet_fingerprint_def ct_applet_configtest_def ct_applet_build_info_def
    ct_applet_build_config_def split: option.splits if_splits res.splits prod.splits sum.splits\<close>)

lemma legacy_ok:
  assumes "kconfig_ranges k" "ct_applet_legacy k e argv = (out, fs', Starts mode c s)"
  shows "started_ok k e mode c s \<and> fs' = ae_fs e"
proof -
  have "ct_applet_server k e argv = (out, fs', Starts mode c s) \<or> ct_applet_client k e argv = (out, fs', Starts mode c s)"
    using assms(2) configtest_exits by (auto simp: ct_applet_legacy_def split: option.splits sum.splits if_splits)
  then show ?thesis using run_applet_ok [OF assms(1), of toy_backend _ e A_server] run_applet_ok [OF assms(1), of toy_backend _ e A_client]
    by (auto simp: ct_applet_server_def)
qed

lemma main_hands_over:
  assumes "kconfig_ranges k" "ct_main B k b e argv = (out, fs', Starts mode c s)"
  shows "started_ok k e mode c s \<and> fs' = ae_fs e \<and> (mode = CT_MODE_SERVER \<longrightarrow> k_server k) \<and> (mode = CT_MODE_CLIENT \<longrightarrow> k_client k) \<and> mode \<noteq> CT_MODE_NONE"
proof -
  have "(\<exists>a argv. run_applet B k b e a argv = (out, fs', Starts mode c s)) \<or> ct_applet_legacy k e argv = (out, fs', Starts mode c s)"
    using assms(2) unfolding ct_main_def Let_def
    by (auto simp: ct_applet_build_info_def simp del: run_applet.simps split: if_splits option.splits)
  then have ok: "started_ok k e mode c s \<and> fs' = ae_fs e" using run_applet_ok [OF assms(1)] legacy_ok [OF assms(1)] by blast
  then have "case mode of CT_MODE_NONE \<Rightarrow> False | CT_MODE_SERVER \<Rightarrow> k_server k | CT_MODE_CLIENT \<Rightarrow> k_client k"
    by (cases mode) (auto simp: started_ok_def config_usable_def)
  then show ?thesis using ok by (auto split: ct_mode.splits)
qed

text \<open>
  C14: the program only starts with a configuration that is safe to run. Whatever the command line, the
  environment and the files are, if \<open>main\<close> hands over to the server or the client, the configuration is
  usable, its mode is the role that starts and that role is in the build, the key files passed the
  security checks, a server has an unambiguous table of clients, the log has the configured level and
  size limit, and no file was changed on the way.
\<close>

theorem main_starts_usable:
  assumes "kconfig_ranges k" "ct_main B k b e argv = (out, fs', Starts mode c s)"
  shows "started_ok k e mode c s \<and> fs' = ae_fs e \<and> (mode = CT_MODE_SERVER \<longrightarrow> k_server k) \<and> (mode = CT_MODE_CLIENT \<longrightarrow> k_client k) \<and> mode \<noteq> CT_MODE_NONE"
  by (rule main_hands_over [OF assms])

definition edge_lines :: "bytes list" where
  "edge_lines = [lit ''[client.edge]'', lit ''public_key=pub'', lit ''allow_remote_port=7-9'']"

text \<open>The files of a server with one authorized client.\<close>

definition demo_files :: fs where
  "demo_files = server_conf(lit ''k'' \<mapsto> \<lparr>f_regular = True, f_mode = 384, f_content = key_text SEC_PREFIX (fst (eddsa_key_pair toy_backend [2]))\<rparr>,
     lit ''pub'' \<mapsto> \<lparr>f_regular = True, f_mode = 420, f_content = key_text PUB_PREFIX (snd (eddsa_key_pair toy_backend [1]))\<rparr>,
     lit ''a'' \<mapsto> \<lparr>f_regular = True, f_mode = 384, f_content = unlines edge_lines\<rparr>)"

definition demo_applet_env :: applet_env where
  "demo_applet_env = \<lparr>ae_fs = demo_files, ae_pton = (\<lambda>_ _. False), ae_level = None, ae_pool = None, ae_read_error = False, ae_log_os = demo_log_os,
     ae_log_files = Map.empty, ae_random = None, 
     ae_write_private = \<lparr>we_open = True, we_umask = 0, we_written = 512, we_close = True\<rparr>,
     ae_write_public = \<lparr>we_open = True, we_umask = 0, we_written = 512, we_close = True\<rparr>, ae_init = True\<rparr>"

definition applet_demo_build :: build where
  "applet_demo_build = \<lparr>bf_keygen = True, bf_fingerprint = True, bf_build_info = True, bf_tcp = True, bf_verbose_help = False, bf_version = lit ''1.0'',
     bf_git_commit = [], bf_target = [], bf_event_name = lit ''epoll'',
     bf_config_hash = [], bf_link_mode = [], bf_libc_name = []\<rparr>"

lemma demo_keys:
  "ct_load_private_key demo_files (lit ''k'') = Ok (fst (eddsa_key_pair toy_backend [2]))"
  "ct_load_public_key demo_files (lit ''pub'') = Ok (snd (eddsa_key_pair toy_backend [1]))"
proof -
  have len: "length (key_text SEC_PREFIX (fst (eddsa_key_pair toy_backend [2]))) < 509" "length (key_text PUB_PREFIX (snd (eddsa_key_pair toy_backend [1]))) < 509"
    by (simp_all add: key_text_def length_b64_encode_loop PUB_PREFIX_def SEC_PREFIX_def toy_backend_def)
  have files: "demo_files (lit ''k'') = Some \<lparr>f_regular = True, f_mode = 384, f_content = key_text SEC_PREFIX (fst (eddsa_key_pair toy_backend [2]))\<rparr>"
    "demo_files (lit ''pub'') = Some \<lparr>f_regular = True, f_mode = 420, f_content = key_text PUB_PREFIX (snd (eddsa_key_pair toy_backend [1]))\<rparr>"
    by (simp_all add: demo_files_def lit_def)
  show "ct_load_private_key demo_files (lit ''k'') = Ok (fst (eddsa_key_pair toy_backend [2]))"
    "ct_load_public_key demo_files (lit ''pub'') = Ok (snd (eddsa_key_pair toy_backend [1]))"
    using len files by (simp_all add: load_key_iff ct_load_private_key_def ct_load_public_key_def) (simp_all add: toy_backend_def)
qed

lemma edge_lines_load:
  "\<exists>st a. each_line (auth_line default_defconfig c) edge_lines \<lparr>as_clients = [], as_open = False, as_seen = []\<rparr> = Inr st \<and> as_clients st = [a] \<and>
     au_id a = lit ''edge'' \<and> au_public_key a = lit ''pub'' \<and> au_ports a \<noteq> []"
  by (simp add: edge_lines_def auth_line_def auth_section_def auth_setting_def auth_set_def line_defs client_range default_defconfig_def)

lemma applet_demo_loads:
  assumes "ro_config_path opts = Some (lit ''s.conf'')" "ro_log_level opts = None"
  shows "\<exists>c a. ct_applet_load_config default_defconfig demo_applet_env opts CT_MODE_SERVER = Inr c \<and> length (cf_log_file c) < 512 \<and>
    cf_log_max_size_kib c = 1024 \<and> bit (cf_cipher_mask c) 1 \<and> cf_identity_private_key c = lit ''k'' \<and> cf_clients c = [a] \<and> au_id a = lit ''edge'' \<and> au_public_key a = lit ''pub''"
proof -
  let ?k = default_defconfig
  have l: "[107] = lit ''k''" "[97] = lit ''a''" by (simp_all add: lit_def)
  have "demo_files (lit ''s.conf'') = server_conf (lit ''s.conf'')" by (simp add: demo_files_def lit_def)
  from conf_loads [of demo_files, OF this] obtain c where c: "ct_config_load ?k (\<lambda>_ _. False) demo_files None None False (lit ''s.conf'') = Inr c"
    "cf_mode c = CT_MODE_SERVER" "cf_identity_private_key c = lit ''k''" "cf_authorized_clients_file c = lit ''a''" "cf_clients c = []"
    "length (cf_log_file c) < 512" "cf_log_max_size_kib c = 1024" "bit (cf_cipher_mask c) 1" unfolding l by blast
  obtain st a where st: "each_line (auth_line ?k c) edge_lines \<lparr>as_clients = [], as_open = False, as_seen = []\<rparr> = Inr st" "as_clients st = [a]"
    "au_id a = lit ''edge''" "au_public_key a = lit ''pub''" "au_ports a \<noteq> []" using edge_lines_load [of c] by blast
  have files: "demo_files (lit ''k'') = Some \<lparr>f_regular = True, f_mode = 384, f_content = key_text SEC_PREFIX (fst (eddsa_key_pair toy_backend [2]))\<rparr>"
    "demo_files (lit ''a'') = Some \<lparr>f_regular = True, f_mode = 384, f_content = unlines edge_lines\<rparr>" by (simp_all add: demo_files_def lit_def)
  have sec: "ct_config_validate_security_files demo_files c = None" "ct_config_validate_security_files demo_files (c\<lparr>cf_clients := [a]\<rparr>) = None"
    using c(2-5) files demo_keys st(4) by (simp_all add: ct_config_validate_security_files_def)
  have fit: "\<forall>l\<in>set edge_lines. 10 \<notin> set l \<and> length l < k_max_path ?k * 2 - 1" "1 < k_max_path ?k * 2"
    by (simp_all add: edge_lines_def default_defconfig_def lit_def)
  have "auth_lines ?k c (unlines edge_lines) \<lparr>as_clients = [], as_open = False, as_seen = []\<rparr> = Inr st"
    using auth.run_lines [OF fit(1), of "[]" c] fit(2) st(1) by simp
  moreover have "client_problem ?k (\<lambda>_ _. False) a = None" using st(3-5) by (simp add: client_problem_def address_family_unavailable_def lit_def)
  ultimately have "ct_authorized_load ?k (\<lambda>_ _. False) demo_files (lit ''a'') c = Inr (c\<lparr>cf_clients := [a]\<rparr>)"
    using files st(2) c(5) by (simp add: ct_authorized_load_def open_policy_file_def)
  then have "ct_applet_load_config ?k demo_applet_env opts CT_MODE_SERVER = Inr (c\<lparr>cf_clients := [a]\<rparr>)"
    using c sec assms by (simp add: ct_applet_load_config_def demo_applet_env_def level_override_def)
  with c(3,6-8) st(3,4) show ?thesis by (intro exI [of _ "c\<lparr>cf_clients := [a]\<rparr>"] exI [of _ a]) simp
qed

definition demo_argv :: "bytes list" where
  "demo_argv = [lit ''/bin/ctunnel-server'', lit ''-c'', lit ''s.conf'']"

lemma demo_main_starts:
  "\<exists>c s a. ct_main toy_backend default_defconfig applet_demo_build demo_applet_env demo_argv = ([], demo_files, Starts CT_MODE_SERVER c s) \<and>
     bit (cf_cipher_mask c) 1 \<and> cf_identity_private_key c = lit ''k'' \<and> cf_clients c = [a] \<and> au_id a = lit ''edge'' \<and> au_public_key a = lit ''pub''"
proof -
  have "ct_applet_parse_run_options default_defconfig demo_argv = Some \<lparr>ro_config_path = Some (lit ''s.conf''), ro_log_level = None, ro_test_only = False\<rparr>"
    by (simp add: demo_argv_def ct_applet_parse_run_options_def parse_options.simps)
  moreover obtain c a where c: "ct_applet_load_config default_defconfig demo_applet_env
      \<lparr>ro_config_path = Some (lit ''s.conf''), ro_log_level = None, ro_test_only = False\<rparr> CT_MODE_SERVER = Inr c"
    "length (cf_log_file c) < 512" "cf_log_max_size_kib c = 1024"
    "bit (cf_cipher_mask c) 1 \<and> cf_identity_private_key c = lit ''k'' \<and> cf_clients c = [a] \<and> au_id a = lit ''edge'' \<and> au_public_key a = lit ''pub''" using applet_demo_loads [of "\<lparr>ro_config_path = Some (lit ''s.conf''), ro_log_level = None, ro_test_only = False\<rparr>"] by auto
  moreover obtain ok s files where g: "ct_log_configure default_defconfig demo_log_os (Some (cf_log_file c)) (cf_log_rotate_days c) 1024
      (ct_log_set_level default_defconfig (cf_log_level c) (log_start default_defconfig)) Map.empty = (ok, s, files)" by (metis prod_cases3)
  moreover have ok using g c(2) by (auto simp: ct_log_configure_def Let_def open_log_append_def demo_log_os_def default_defconfig_def split: if_splits)
  ultimately have "ct_applet_run_role default_defconfig demo_applet_env demo_argv CT_MODE_SERVER = ([], demo_files, Starts CT_MODE_SERVER c s)"
    by (simp add: ct_applet_run_role_def demo_applet_env_def)
  moreover have "base_name (lit ''/bin/ctunnel-server'') = lit ''ctunnel-server''" by (simp add: base_name_def lit_def)
  moreover have "lit ''ctunnel-server'' \<noteq> lit ''ctunnel-client''" by (simp add: lit_def)
  ultimately have "ct_main toy_backend default_defconfig applet_demo_build demo_applet_env demo_argv = ([], demo_files, Starts CT_MODE_SERVER c s)"
    by (auto simp: ct_main_def ct_applet_server_def demo_applet_env_def default_defconfig_def demo_argv_def)
  with c(4) show ?thesis by blast
qed

theorem main_starts_usable_witness:
  "\<exists>out fs' c s. ct_main toy_backend default_defconfig applet_demo_build demo_applet_env demo_argv =
     (out, fs', Starts CT_MODE_SERVER c s) \<and> config_usable default_defconfig c"
proof -
  obtain c s where run: "ct_main toy_backend default_defconfig applet_demo_build demo_applet_env demo_argv = ([], demo_files, Starts CT_MODE_SERVER c s)"
    using demo_main_starts by blast
  from main_starts_usable [OF default_ranges run] run show ?thesis by (auto simp: started_ok_def)
qed

section \<open>Build information\<close>

text \<open>The level that the build information shows is the highest one a configuration can ask for.\<close>

lemma max_log_name_parses:
  assumes "k_log_max k \<le> 4"
  shows "ct_log_parse_level k (max_log_name k) = Some (k_log_max k)"
proof -
  have "k_log_max k \<in> {0, 1, 2, 3, 4}" using assms by auto
  then show ?thesis by (elim insertE emptyE) (simp_all add: ct_log_parse_level_def max_log_name_def log_level_name_def lit_def upt_conv_Cons)
qed

end
