(* ===== verification/Relay.thy ===== *)
theory Relay
  imports Ring Socket Metrics Crypto Proxy_Protocol "HOL-Library.Sublist"
begin

text \<open>
  The relay of one stream, \<open>src/src/net/relay.c\<close>: bytes move between the direct socket (the public or
  the local side) and the work connection through ring buffers, sealed in records when the stream is
  encrypted. The two sockets, the counters and the calls that act on descriptors form \<open>relay_env\<close>.
\<close>

section \<open>State\<close>

datatype fd_effect = Closes int | Shuts int

record ct_relay =
  rl_direct :: int
  rl_work :: int
  rl_closed :: bool
  rl_direct_eof :: bool
  rl_work_eof :: bool
  rl_is_client :: bool
  rl_stream_accounted :: bool
  rl_proxy_header_pending :: bool
  rl_proxy_header_remaining :: nat
  rl_accounted_buffer_bytes :: nat
  rl_encrypted :: bool
  rl_cipher :: u8
  rl_send_key :: bytes
  rl_recv_key :: bytes
  rl_send_nonce :: bytes
  rl_recv_nonce :: bytes
  rl_send_seq :: u64
  rl_recv_seq :: u64
  rl_work_input :: ct_ring
  rl_to_direct :: ct_ring
  rl_to_work :: ct_ring

record relay_env =
  re_metrics :: metrics
  re_direct :: sock
  re_work :: sock
  re_effects :: "fd_effect list"

definition CHUNK :: "autoconf \<Rightarrow> nat" where
  "CHUNK k = (if k_stream_buffer k < 32768 then k_stream_buffer k div 2 else 16384)"

text \<open>Subtraction of \<open>size_t\<close> values.\<close>

definition size_sub :: "nat \<Rightarrow> nat \<Rightarrow> nat" where
  "size_sub a b = (if b \<le> a then a - b else 2 ^ 64 + a - b)"

definition meter :: "(metrics \<Rightarrow> metrics) \<Rightarrow> relay_env \<Rightarrow> relay_env" where
  "meter f e = e\<lparr>re_metrics := f (re_metrics e)\<rparr>"

lemma meter_sockets [simp]:
  "re_direct (meter f e) = re_direct e" "re_work (meter f e) = re_work e" "re_effects (meter f e) = re_effects e"
  "(meter f e)\<lparr>re_direct := s\<rparr> = meter f (e\<lparr>re_direct := s\<rparr>)" "(meter f e)\<lparr>re_work := s\<rparr> = meter f (e\<lparr>re_work := s\<rparr>)"
  "(meter f e)\<lparr>re_effects := x\<rparr> = meter f (e\<lparr>re_effects := x\<rparr>)"
  by (simp_all add: meter_def)

section \<open>One system call\<close>

text \<open>
  A single \<open>recv\<close> of at most \<open>cap\<close> bytes and a single \<open>send\<close>: the bytes moved, or \<open>Inl\<close> with whether
  the call would block. No bytes received is the end of the stream.
\<close>

definition recv_once :: "sock \<Rightarrow> nat \<Rightarrow> (bool + bytes) \<times> sock" where
  "recv_once s cap =
     (case sk_in s of
        [] \<Rightarrow> (Inr [], s)
      | Got bs # rest \<Rightarrow>
          (Inr (take cap bs), s\<lparr>sk_in := (if cap < length bs then Got (drop cap bs) # rest else rest)\<rparr>)
      | Recv_blocked w r # rest \<Rightarrow> (Inl True, s\<lparr>sk_in := rest\<rparr>)
      | Recv_failed # rest \<Rightarrow> (Inl False, s\<lparr>sk_in := rest\<rparr>))"

definition send_once :: "sock \<Rightarrow> bytes \<Rightarrow> (bool + nat) \<times> sock" where
  "send_once s p =
     (case sk_room s of
        [] \<Rightarrow> (Inl False, s)
      | Takes m # rest \<Rightarrow>
          (Inr (min m (length p)), s\<lparr>sk_room := rest, sk_out := sk_out s @ take m p\<rparr>)
      | Send_blocked w r # rest \<Rightarrow> (Inl True, s\<lparr>sk_room := rest\<rparr>)
      | Send_failed # rest \<Rightarrow> (Inl False, s\<lparr>sk_room := rest\<rparr>))"

section \<open>Accounting\<close>

definition append_ring :: "ct_ring \<Rightarrow> bytes \<Rightarrow> (bool \<times> ct_ring) res" where
  "append_ring r p = andthen (ct_ring_write r p (length p)) (\<lambda>(m, r'). Ok (m = length p, r'))"

definition buffered_bytes :: "autoconf \<Rightarrow> ct_relay \<Rightarrow> nat" where
  "buffered_bytes k r = ring_len (rl_to_direct r) + ring_len (rl_to_work r) +
     (if k_data_encryption k then ring_len (rl_work_input r) else 0)"

definition sync_buffer_metric :: "autoconf \<Rightarrow> ct_relay \<Rightarrow> relay_env \<Rightarrow> ct_relay \<times> relay_env" where
  "sync_buffer_metric k r e =
     (let now = buffered_bytes k r in
      (r\<lparr>rl_accounted_buffer_bytes := now\<rparr>,
       meter (if now \<ge> rl_accounted_buffer_bytes r
         then ct_metric_add CT_METRIC_BUFFER_BYTES_CURRENT (of_nat (now - rl_accounted_buffer_bytes r))
         else ct_metric_sub CT_METRIC_BUFFER_BYTES_CURRENT (of_nat (rl_accounted_buffer_bytes r - now))) e))"

definition metric_bytes :: "ct_relay \<Rightarrow> bool \<Rightarrow> nat \<Rightarrow> metrics \<Rightarrow> metrics" where
  "metric_bytes r direct_to_work n =
     (let c2s = (if rl_is_client r then direct_to_work else \<not> direct_to_work)
      in ct_metric_add (if c2s then CT_METRIC_BYTES_C2S_TOTAL else CT_METRIC_BYTES_S2C_TOTAL) (of_nat n))"

section \<open>Closing and opening\<close>

definition ct_relay_close :: "autoconf \<Rightarrow> ct_relay \<Rightarrow> relay_env \<Rightarrow> ct_relay \<times> relay_env" where
  "ct_relay_close k r e =
     (let (r1, e1) =
            (if \<not> rl_closed r \<and> rl_stream_accounted r then
               let (r', e') = sync_buffer_metric k r e;
                   accounted = rl_accounted_buffer_bytes r'
               in (r'\<lparr>rl_accounted_buffer_bytes := 0, rl_stream_accounted := False\<rparr>,
                   meter (ct_metric_dec CT_METRIC_WORK_ACTIVE \<circ> ct_metric_dec CT_METRIC_ACTIVE_STREAMS \<circ>
                     ct_metric_inc CT_METRIC_STREAMS_CLOSED_TOTAL \<circ>
                     ct_metric_sub CT_METRIC_BUFFER_BYTES_CURRENT (of_nat accounted)) e')
             else (r, e));
          e2 = (if \<not> rl_closed r1 then e1\<lparr>re_effects := re_effects e1 @ [Closes (rl_direct r1), Closes (rl_work r1)]\<rparr>
                else e1);
          r2 = (if k_data_encryption k then
                  r1\<lparr>rl_send_key := replicate 32 0, rl_recv_key := replicate 32 0,
                     rl_work_input := ct_ring_free (rl_work_input r1)\<rparr>
                else r1)
      in (r2\<lparr>rl_to_direct := ct_ring_free (rl_to_direct r2), rl_to_work := ct_ring_free (rl_to_work r2),
            rl_closed := True\<rparr>, e2))"

definition zero_ring :: ct_ring where
  "zero_ring = \<lparr>ring_data = [], ring_cap = 0, ring_head = 0, ring_len = 0\<rparr>"

definition zero_relay :: "int \<Rightarrow> int \<Rightarrow> bool \<Rightarrow> ct_relay" where
  "zero_relay direct work client =
     \<lparr>rl_direct = direct, rl_work = work, rl_closed = False, rl_direct_eof = False, rl_work_eof = False,
      rl_is_client = client, rl_stream_accounted = False, rl_proxy_header_pending = False,
      rl_proxy_header_remaining = 0, rl_accounted_buffer_bytes = 0, rl_encrypted = False, rl_cipher = 0,
      rl_send_key = replicate 32 0, rl_recv_key = replicate 32 0, rl_send_nonce = replicate 16 0,
      rl_recv_nonce = replicate 16 0, rl_send_seq = 0, rl_recv_seq = 0, rl_work_input = zero_ring,
      rl_to_direct = zero_ring, rl_to_work = zero_ring\<rparr>"

text \<open>
  The rings and keys of a new relay; \<open>m1\<close>, \<open>m2\<close>, \<open>m3\<close> are the blocks \<open>malloc\<close> returns. On failure
  the caller closes the relay built so far, so the rings already allocated are freed with it.
\<close>

definition relay_buffers ::
  "monocypher \<Rightarrow> autoconf \<Rightarrow> bytes option \<Rightarrow> bytes option \<Rightarrow> bytes option \<Rightarrow> bool \<Rightarrow> u8 \<Rightarrow> bytes \<Rightarrow> u64 \<Rightarrow>
     bytes \<Rightarrow> bytes \<Rightarrow> bytes \<Rightarrow> ct_relay \<Rightarrow> ct_relay res" where
  "relay_buffers B k m1 m2 m3 client mode master sid rnd work_id service_id r =
     (let cap = k_stream_buffer k in
      if k_data_encryption k then
        andthen (ct_ring_init m1 cap) (\<lambda>td. andthen (ct_ring_init m2 cap) (\<lambda>tw. andthen (ct_ring_init m3 cap) (\<lambda>wi.
        let r1 = r\<lparr>rl_to_direct := td, rl_to_work := tw, rl_work_input := wi\<rparr> in
        if rl_encrypted r1 then
          let senddir = (if client then 0 else 1); recvdir = (if client then 1 else 0) in
          andthen (ct_derive_data B k master sid rnd work_id service_id mode senddir) (\<lambda>(sk, sn).
          andthen (ct_derive_data B k master sid rnd work_id service_id mode recvdir) (\<lambda>(rk, rn).
          Ok (r1\<lparr>rl_send_key := sk, rl_send_nonce := sn, rl_recv_key := rk, rl_recv_nonce := rn\<rparr>)))
        else Ok r1)))
      else
        ensure (mode = CT_ENC_DISABLED) (
        andthen (ct_ring_init m1 cap) (\<lambda>td. andthen (ct_ring_init m2 cap) (\<lambda>tw.
        Ok (r\<lparr>rl_to_direct := td, rl_to_work := tw\<rparr>)))))"

definition relay_fail :: "autoconf \<Rightarrow> ct_relay \<Rightarrow> relay_env \<Rightarrow> bool \<times> ct_relay \<times> relay_env" where
  "relay_fail k r e = (False, ct_relay_close k r e)"

definition relay_start :: "ct_relay \<Rightarrow> relay_env \<Rightarrow> bool \<times> ct_relay \<times> relay_env" where
  "relay_start r e =
     (True, r\<lparr>rl_stream_accounted := True\<rparr>,
      meter (ct_metric_inc CT_METRIC_WORK_ACTIVE \<circ> ct_metric_inc CT_METRIC_ACTIVE_STREAMS \<circ>
        ct_metric_inc CT_METRIC_STREAMS_OPENED_TOTAL) e)"

text \<open>The PROXY header of a client relay, queued ahead of the stream.\<close>

definition relay_header ::
  "autoconf \<Rightarrow> (u8 \<Rightarrow> bytes \<Rightarrow> bytes option) \<Rightarrow> ct_stream_metadata \<Rightarrow> ct_relay \<Rightarrow> relay_env \<Rightarrow>
     (bool \<times> ct_relay \<times> relay_env) res" where
  "relay_header k ntop m r e =
     (let failure = meter (ct_metric_inc CT_METRIC_PROXY_PROTOCOL_HEADER_FAILURES_TOTAL) e in
      case ct_proxy_protocol_build k ntop CT_PROXY_PROTOCOL_MAX_HEADER (Some m) of
        Fault \<Rightarrow> Fault
      | Err \<Rightarrow> Ok (relay_fail k r failure)
      | Ok header \<Rightarrow> andthen (append_ring (rl_to_direct r) header) (\<lambda>(ok, td).
          if \<not> ok then Ok (relay_fail k (r\<lparr>rl_to_direct := td\<rparr>) failure)
          else Ok (relay_start
            (r\<lparr>rl_to_direct := td, rl_proxy_header_pending := True, rl_proxy_header_remaining := length header\<rparr>)
            (if md_proxy_protocol m = CT_PROXY_PROTOCOL_V1
             then meter (ct_metric_inc CT_METRIC_PROXY_PROTOCOL_V1_CONNECTIONS_TOTAL) e
             else if md_proxy_protocol m = CT_PROXY_PROTOCOL_V2
             then meter (ct_metric_inc CT_METRIC_PROXY_PROTOCOL_V2_CONNECTIONS_TOTAL) e else e))))"

text \<open>Result: whether the relay is running, its state, and the effects.\<close>

definition ct_relay_init ::
  "monocypher \<Rightarrow> autoconf \<Rightarrow> (u8 \<Rightarrow> bytes \<Rightarrow> bytes option) \<Rightarrow> bytes option \<Rightarrow> bytes option \<Rightarrow> bytes option \<Rightarrow>
     int \<Rightarrow> int \<Rightarrow> bool \<Rightarrow> u8 \<Rightarrow> u8 \<Rightarrow> bytes \<Rightarrow> u64 \<Rightarrow> bytes \<Rightarrow> bytes \<Rightarrow> bytes \<Rightarrow> ct_stream_metadata option \<Rightarrow>
     relay_env \<Rightarrow> (bool \<times> ct_relay \<times> relay_env) res" where
  "ct_relay_init B k ntop m1 m2 m3 direct work client mode cipher master sid rnd work_id service_id metadata e =
     (let r0 = (zero_relay direct work client)\<lparr>rl_encrypted := k_data_encryption k \<and> mode = CT_ENC_REQUIRED,
            rl_cipher := (if k_data_encryption k then cipher else 0)\<rparr>;
          no_header = (if client then meter (ct_metric_inc CT_METRIC_PROXY_PROTOCOL_DISABLED_CONNECTIONS_TOTAL) e else e)
      in case relay_buffers B k m1 m2 m3 client mode master sid rnd work_id service_id r0 of
           Err \<Rightarrow> Ok (relay_fail k r0 e)
         | Fault \<Rightarrow> Fault
         | Ok r1 \<Rightarrow>
             (case (if k_proxy k \<and> client then metadata else None) of
                Some m \<Rightarrow>
                  if md_proxy_protocol m \<noteq> CT_PROXY_PROTOCOL_OFF then relay_header k ntop m r1 e
                  else Ok (relay_start r1 no_header)
              | None \<Rightarrow> Ok (relay_start r1 no_header)))"

section \<open>Interest in events\<close>

text \<open>Bit 1 asks for readability, bit 2 for writability.\<close>

definition ct_relay_events :: "autoconf \<Rightarrow> ct_relay \<Rightarrow> int \<Rightarrow> bool \<times> bool" where
  "ct_relay_events k r fd =
     (if rl_closed r then (False, False)
      else if fd = rl_direct r then
        (\<not> rl_direct_eof r \<and>
           ring_len (rl_to_work r) < size_sub (size_sub (ring_cap (rl_to_work r)) (CHUNK k)) 32,
         ring_len (rl_to_direct r) \<noteq> 0)
      else if fd = rl_work r then
        ((if k_data_encryption k
          then \<not> rl_work_eof r \<and>
            ring_len (rl_work_input r) < size_sub (size_sub (ring_cap (rl_work_input r)) (CHUNK k)) 32
          else \<not> rl_work_eof r \<and>
            ring_len (rl_to_direct r) < size_sub (ring_cap (rl_to_direct r)) (CHUNK k)),
         ring_len (rl_to_work r) \<noteq> 0)
      else (False, False))"

section \<open>Writing\<close>

definition flush :: "sock \<Rightarrow> ct_ring \<Rightarrow> (bool \<times> sock \<times> ct_ring) res" where
  "flush s r =
     andthen (ct_ring_peek r) (\<lambda>p.
     if p = [] then Ok (True, s, r)
     else case send_once s p of
       (Inr z, s') \<Rightarrow>
         if z > 0 then andthen (ct_ring_consume r z) (\<lambda>r'. Ok (True, s', r')) else Ok (False, s', r)
     | (Inl would_block, s') \<Rightarrow> Ok (would_block, s', r))"

text \<open>\<open>flush_relay\<close> on the side \<open>direct_side\<close>, whose socket and ring \<open>ct_relay_process\<close> selects.\<close>

definition flush_relay :: "bool \<Rightarrow> ct_relay \<Rightarrow> relay_env \<Rightarrow> (bool \<times> ct_relay \<times> relay_env) res" where
  "flush_relay direct_side r e =
     (let ring = (if direct_side then rl_to_direct r else rl_to_work r);
          s = (if direct_side then re_direct e else re_work e);
          before = ring_len ring
      in andthen (flush s ring) (\<lambda>(ok, s', ring').
         let r1 = (if direct_side then r\<lparr>rl_to_direct := ring'\<rparr> else r\<lparr>rl_to_work := ring'\<rparr>);
             e1 = (if direct_side then e\<lparr>re_direct := s'\<rparr> else e\<lparr>re_work := s'\<rparr>);
             e2 = (if \<not> ok \<and> rl_proxy_header_pending r \<and> direct_side
                   then meter (ct_metric_inc CT_METRIC_PROXY_PROTOCOL_LOCAL_WRITE_FAILURES_TOTAL) e1 else e1);
             consumed = (if before \<ge> ring_len ring' then before - ring_len ring' else 0);
             r2 = (if ok \<and> rl_proxy_header_pending r \<and> direct_side then
                     if consumed \<ge> rl_proxy_header_remaining r
                     then r1\<lparr>rl_proxy_header_remaining := 0, rl_proxy_header_pending := False\<rparr>
                     else r1\<lparr>rl_proxy_header_remaining := rl_proxy_header_remaining r - consumed\<rparr>
                   else r1)
         in Ok (ok, r2, e2)))"

section \<open>Records\<close>

definition encrypt_chunk ::
  "monocypher \<Rightarrow> autoconf \<Rightarrow> ct_relay \<Rightarrow> relay_env \<Rightarrow> bytes \<Rightarrow> (bool \<times> ct_relay \<times> relay_env) res" where
  "encrypt_chunk B k r e p =
     (if rl_send_seq r = uint64_max then Ok (False, r, e)
      else
        let seq = rl_send_seq r + 1;
            r1 = r\<lparr>rl_send_seq := seq\<rparr>;
            room = 12 + CHUNK k + 16
        in andthen (emits room [] [ct_put_u32 (of_nat (length p + 16)), ct_put_u64 seq]) (\<lambda>head.
           case ct_aead_encrypt B (rl_cipher r) (rl_send_key r) (rl_send_nonce r) seq head p of
             Fault \<Rightarrow> Fault
           | Err \<Rightarrow> Ok (False, r1, meter (ct_metric_inc CT_METRIC_AEAD_FAILURES_TOTAL) e)
           | Ok box \<Rightarrow> andthen (emit room head box) (\<lambda>rec.
               andthen (append_ring (rl_to_work r1) rec) (\<lambda>(ok, tw).
               Ok (ok, r1\<lparr>rl_to_work := tw\<rparr>, e)))))"

text \<open>
  One turn of the loop of \<open>decrypt_ready\<close>: \<open>Some ok\<close> when the function returns, \<open>None\<close> when a record
  has been opened and the loop goes on.
\<close>

definition decrypt_turn ::
  "monocypher \<Rightarrow> autoconf \<Rightarrow> ct_relay \<Rightarrow> relay_env \<Rightarrow> (bool option \<times> ct_relay \<times> relay_env) res" where
  "decrypt_turn B k r e =
     (let wi = rl_work_input r; td = rl_to_direct r;
          aead_failure = meter (ct_metric_inc CT_METRIC_AEAD_FAILURES_TOTAL) e in
      if ring_len wi < 12 then Ok (Some True, r, e)
      else andthen (ct_ring_read wi 12) (\<lambda>(h, _).
        case ct_data_record_header_decode h (CHUNK k) (rl_recv_seq r) of
          Fault \<Rightarrow> Fault
        | Err \<Rightarrow> Ok (Some False, r, aead_failure)
        | Ok (n, seq) \<Rightarrow>
            if ring_len wi < 12 + unat n then Ok (Some True, r, e)
            else if ring_cap td - ring_len td < unat n - CT_RECORD_TAG_SIZE then Ok (Some True, r, e)
            else andthen (ct_ring_read wi 12) (\<lambda>(h, wi1). andthen (ct_ring_read wi1 (unat n)) (\<lambda>(box, wi2).
              if length box > CHUNK k + 16 then Fault
              else case ct_aead_decrypt B (rl_cipher r) (rl_recv_key r) (rl_recv_nonce r) seq h box of
                Fault \<Rightarrow> Fault
              | Err \<Rightarrow> Ok (Some False, r\<lparr>rl_work_input := wi2\<rparr>, aead_failure)
              | Ok plain \<Rightarrow>
                  if length plain > CHUNK k then Fault
                  else andthen (append_ring td plain) (\<lambda>(ok, td').
                    if ok then Ok (None, r\<lparr>rl_work_input := wi2, rl_to_direct := td', rl_recv_seq := seq\<rparr>, e)
                    else Ok (Some False, r\<lparr>rl_work_input := wi2, rl_to_direct := td'\<rparr>, e))))))"

lemma ring_read_len: "ct_ring_read r n = Ok (bs, r') \<Longrightarrow> ring_len r' = ring_len r - n"
  by (auto simp: ct_ring_read_def Let_def res_simps split: if_splits)

lemma case_Ok_iff:
  "(case x of Ok a \<Rightarrow> f a | Err \<Rightarrow> y | Fault \<Rightarrow> z) = Ok b \<longleftrightarrow>
     (\<exists>a. x = Ok a \<and> f a = Ok b) \<or> (x = Err \<and> y = Ok b) \<or> (x = Fault \<and> z = Ok b)"
  "(if c then u else v) = Ok b \<longleftrightarrow> (c \<and> u = Ok b) \<or> (\<not> c \<and> v = Ok b)"
  "(case q of (s, t) \<Rightarrow> h s t) = Ok b \<longleftrightarrow> (\<exists>s t. q = (s, t) \<and> h s t = Ok b)"
  "(case w of Inl l \<Rightarrow> f1 l | Inr m \<Rightarrow> f2 m) = Ok b \<longleftrightarrow> (\<exists>l. w = Inl l \<and> f1 l = Ok b) \<or> (\<exists>m. w = Inr m \<and> f2 m = Ok b)"
  by (auto split: res.splits prod.splits sum.splits)

lemma decrypt_turn_consumes:
  "decrypt_turn B k r e = Ok (None, r', e') \<Longrightarrow> ring_len (rl_work_input r') < ring_len (rl_work_input r)"
  by (auto simp: decrypt_turn_def Let_def res_simps case_Ok_iff dest!: ring_read_len)

function decrypt_ready ::
  "monocypher \<Rightarrow> autoconf \<Rightarrow> ct_relay \<Rightarrow> relay_env \<Rightarrow> (bool \<times> ct_relay \<times> relay_env) res" where
  "decrypt_ready B k r e =
     (case decrypt_turn B k r e of
        Fault \<Rightarrow> Fault
      | Err \<Rightarrow> Err
      | Ok (Some ok, r', e') \<Rightarrow> Ok (ok, r', e')
      | Ok (None, r', e') \<Rightarrow> decrypt_ready B k r' e')"
  by pat_completeness auto
termination
  by (relation "measure (\<lambda>(B, k, r, e). ring_len (rl_work_input r))") (auto dest: decrypt_turn_consumes)

declare decrypt_ready.simps [simp del]

section \<open>Reading\<close>

definition read_direct ::
  "monocypher \<Rightarrow> autoconf \<Rightarrow> ct_relay \<Rightarrow> relay_env \<Rightarrow> (bool \<times> ct_relay \<times> relay_env) res" where
  "read_direct B k r e =
     (let (result, s') = recv_once (re_direct e) (CHUNK k); e1 = e\<lparr>re_direct := s'\<rparr> in
      case result of
        Inl would_block \<Rightarrow> Ok (would_block, r, e1)
      | Inr b \<Rightarrow>
          if b = [] then Ok (True, r\<lparr>rl_direct_eof := True\<rparr>, e1)
          else
            let e2 = meter (metric_bytes r True (length b)) e1 in
            if k_data_encryption k \<and> rl_encrypted r then encrypt_chunk B k r e2 b
            else andthen (append_ring (rl_to_work r) b) (\<lambda>(ok, tw). Ok (ok, r\<lparr>rl_to_work := tw\<rparr>, e2)))"

definition read_work ::
  "monocypher \<Rightarrow> autoconf \<Rightarrow> ct_relay \<Rightarrow> relay_env \<Rightarrow> (bool \<times> ct_relay \<times> relay_env) res" where
  "read_work B k r e =
     (let (result, s') = recv_once (re_work e) (CHUNK k + 32); e1 = e\<lparr>re_work := s'\<rparr> in
      case result of
        Inl would_block \<Rightarrow> Ok (would_block, r, e1)
      | Inr b \<Rightarrow>
          if b = [] then Ok (True, r\<lparr>rl_work_eof := True\<rparr>, e1)
          else
            let e2 = meter (metric_bytes r False (length b)) e1 in
            if k_data_encryption k \<and> rl_encrypted r then
              andthen (append_ring (rl_work_input r) b) (\<lambda>(ok, wi).
                let r1 = r\<lparr>rl_work_input := wi\<rparr> in
                if \<not> ok then Ok (False, r1, e2) else decrypt_ready B k r1 e2)
            else andthen (append_ring (rl_to_direct r) b) (\<lambda>(ok, td). Ok (ok, r\<lparr>rl_to_direct := td\<rparr>, e2)))"

section \<open>One event\<close>

text \<open>A fallible stage of \<open>ct_relay_process\<close>: on failure the code jumps to \<open>bad\<close>.\<close>

definition stage ::
  "bool \<Rightarrow> (ct_relay \<Rightarrow> relay_env \<Rightarrow> (bool \<times> ct_relay \<times> relay_env) res) \<Rightarrow> autoconf \<Rightarrow>
     bool \<times> ct_relay \<times> relay_env \<Rightarrow> (bool \<times> ct_relay \<times> relay_env) res" where
  "stage wanted f k st =
     (case st of (going, r, e) \<Rightarrow>
        if \<not> going then Ok st
        else if \<not> wanted then let (r', e') = sync_buffer_metric k r e in Ok (True, r', e')
        else andthen (f r e) (\<lambda>(ok, r1, e1).
          if ok then let (r', e') = sync_buffer_metric k r1 e1 in Ok (True, r', e') else Ok (False, r1, e1)))"

text \<open>The flush, the second chance for buffered records, and the read.\<close>

definition relay_stages ::
  "monocypher \<Rightarrow> autoconf \<Rightarrow> ct_relay \<Rightarrow> relay_env \<Rightarrow> int \<Rightarrow> bool \<Rightarrow> bool \<Rightarrow> (bool \<times> ct_relay \<times> relay_env) res" where
  "relay_stages B k r e f readable writable =
     (let d = (f = rl_direct r) in
      andthen (stage writable (flush_relay d) k (True, r, e)) (\<lambda>st1.
      andthen (if k_data_encryption k
        then stage (d \<and> rl_encrypted (fst (snd st1)) \<and> ring_len (rl_work_input (fst (snd st1))) \<noteq> 0) (decrypt_ready B k) k st1
        else Ok st1) (\<lambda>st2.
      stage readable (if d then read_direct B k else read_work B k) k st2)))"

text \<open>Half-closes, the orderly end, and the label \<open>bad\<close>.\<close>

definition relay_end :: "autoconf \<Rightarrow> bool \<times> ct_relay \<times> relay_env \<Rightarrow> bool \<times> ct_relay \<times> relay_env" where
  "relay_end k st =
     (case st of (going, r, e) \<Rightarrow>
        if \<not> going then (False, ct_relay_close k r (meter (ct_metric_inc CT_METRIC_STREAMS_FAILED_TOTAL) e))
        else
          let e1 = (if rl_direct_eof r \<and> ring_len (rl_to_work r) = 0
                    then e\<lparr>re_effects := re_effects e @ [Shuts (rl_work r)]\<rparr> else e);
              e2 = (if rl_work_eof r \<and> ring_len (rl_to_direct r) = 0
                    then e1\<lparr>re_effects := re_effects e1 @ [Shuts (rl_direct r)]\<rparr> else e1)
          in if rl_direct_eof r \<and> rl_work_eof r \<and> ring_len (rl_to_direct r) = 0 \<and> ring_len (rl_to_work r) = 0
             then (False, ct_relay_close k r e2)
             else (True, r, e2))"

text \<open>\<open>True\<close> is the return value 0: the relay goes on. \<open>f\<close> is the ready descriptor, \<open>readable\<close> and
  \<open>writable\<close> the event bits.\<close>

definition ct_relay_process ::
  "monocypher \<Rightarrow> autoconf \<Rightarrow> ct_relay \<Rightarrow> relay_env \<Rightarrow> int \<Rightarrow> bool \<Rightarrow> bool \<Rightarrow> (bool \<times> ct_relay \<times> relay_env) res" where
  "ct_relay_process B k r e f readable writable =
     (if rl_closed r then Ok (False, r, e)
      else andthen (relay_stages B k r e f readable writable) (\<lambda>st. Ok (relay_end k st)))"

section \<open>Laws of the parts\<close>

lemma append_ring_law:
  assumes "ring_inv r"
  shows "\<exists>ok r'. append_ring r p = Ok (ok, r') \<and> ring_inv r' \<and> ring_cap r' = ring_cap r \<and>
    (ok \<longleftrightarrow> ring_len r + length p \<le> ring_cap r) \<and> (\<exists>m. ring_contents r' = ring_contents r @ take m p \<and> (ok \<longrightarrow> m = length p))"
proof -
  from rg.put_all [OF assms, of p] obtain m r' where
    "ct_ring_write r p (length p) = Ok (m, r')" "ring_inv r'" "ring_cap r' = ring_cap r"
    "m = length p \<longleftrightarrow> ring_len r + length p \<le> ring_cap r" "ring_contents r' = ring_contents r @ take m p"
    by (metis length_ring_contents)
  then show ?thesis by (auto simp: append_ring_def)
qed

lemma send_once_law:
  "send_once s p = (z, s') \<Longrightarrow> sk_in s' = sk_in s \<and>
     (case z of Inr n \<Rightarrow> n \<le> length p \<and> sk_out s' = sk_out s @ take n p | Inl b \<Rightarrow> sk_out s' = sk_out s)"
  by (auto simp: send_once_def min_def split: list.splits send_event.splits)

lemma recv_once_law:
  "recv_once s cap = (z, s') \<Longrightarrow> sk_out s' = sk_out s \<and> sk_room s' = sk_room s \<and>
     (case z of Inr b \<Rightarrow> length b \<le> cap \<and> arrives (sk_in s) = b @ arrives (sk_in s')
      | Inl b \<Rightarrow> arrives (sk_in s') = arrives (sk_in s))"
  by (auto simp: recv_once_def split: list.splits recv_event.splits)

lemma flush_law:
  assumes "ring_inv r"
  shows "\<exists>ok s' r'. flush s r = Ok (ok, s', r') \<and> ring_inv r' \<and> ring_cap r' = ring_cap r \<and> sk_in s' = sk_in s \<and>
    sk_out s' @ ring_contents r' = sk_out s @ ring_contents r"
proof -
  from rg.peek_law [OF assms] obtain m where m: "ct_ring_peek r = Ok (take m (ring_contents r))" by blast
  obtain z s' where z: "send_once s (take m (ring_contents r)) = (z, s')" by fastforce
  note sl = send_once_law [OF z]
  show ?thesis
  proof (cases "take m (ring_contents r) = []")
    case False
    show ?thesis
    proof (cases z)
      case (Inr n)
      from rg.peek_consume [OF assms m, of n] sl Inr obtain r' where
        "ct_ring_consume r n = Ok r'" "ring_inv r'" "ring_cap r' = ring_cap r"
        "ring_contents r = take n (take m (ring_contents r)) @ ring_contents r'" by auto
      then show ?thesis using m z sl Inr False assms by (cases "n = 0") (auto simp: flush_def)
    qed (use m z sl False assms in \<open>auto simp: flush_def\<close>)
  qed (use m assms in \<open>auto simp: flush_def\<close>)
qed

lemma close_effect:
  "\<exists>r' e'. ct_relay_close k r e = (r', e') \<and> rl_closed r' \<and> re_direct e' = re_direct e \<and> re_work e' = re_work e"
  by (auto simp: ct_relay_close_def sync_buffer_metric_def meter_def Let_def split: prod.splits)

lemma relay_end_cases:
  obtains (goes_on) x where "going" "relay_end k (going, r, e) = (True, r, e\<lparr>re_effects := x\<rparr>)"
  | (closes) r' e' where "relay_end k (going, r, e) = (False, r', e')" "rl_closed r'"
      "re_direct e' = re_direct e" "re_work e' = re_work e"
      "going \<Longrightarrow> rl_direct_eof r \<and> rl_work_eof r \<and> ring_len (rl_to_direct r) = 0 \<and> ring_len (rl_to_work r) = 0"
proof (cases "going \<and> \<not> (rl_direct_eof r \<and> rl_work_eof r \<and> ring_len (rl_to_direct r) = 0 \<and> ring_len (rl_to_work r) = 0)")
  case True
  then have "\<exists>x. relay_end k (going, r, e) = (True, r, e\<lparr>re_effects := x\<rparr>)"
    by (auto simp: relay_end_def Let_def) (metis relay_env.surjective relay_env.update_convs(4))+
  with True goes_on show thesis by blast
next
  case False
  have "\<exists>e2. relay_end k (going, r, e) = (False, ct_relay_close k r e2) \<and> re_direct e2 = re_direct e \<and> re_work e2 = re_work e"
    using False by (auto simp: relay_end_def Let_def meter_def)
  then obtain e2 where e2: "relay_end k (going, r, e) = (False, ct_relay_close k r e2)" "re_direct e2 = re_direct e"
    "re_work e2 = re_work e" by blast
  from close_effect [of k r e2] obtain r' e' where "ct_relay_close k r e2 = (r', e')" "rl_closed r'"
    "re_direct e' = re_direct e2" "re_work e' = re_work e2" by blast
  with e2 False closes show thesis by auto
qed

section \<open>The contract of a stage\<close>

text \<open>
  What is proved of a relay over a run of events has one shape: a predicate \<open>I\<close> on the open relay
  that every stage preserves, and a predicate \<open>J\<close> on the sockets that also holds where a stage fails.
\<close>

fun relay_run ::
  "monocypher \<Rightarrow> autoconf \<Rightarrow> (int \<times> bool \<times> bool) list \<Rightarrow> ct_relay \<Rightarrow> relay_env \<Rightarrow> (ct_relay \<times> relay_env) res" where
  "relay_run B k [] r e = Ok (r, e)"
| "relay_run B k ((f, readable, writable) # evs) r e =
     andthen (ct_relay_process B k r e f readable writable) (\<lambda>(ok, r', e'). relay_run B k evs r' e')"

definition keeps ::
  "(ct_relay \<Rightarrow> relay_env \<Rightarrow> bool) \<Rightarrow> (relay_env \<Rightarrow> bool) \<Rightarrow> (bool \<times> ct_relay \<times> relay_env) res \<Rightarrow> bool" where
  "keeps I J x \<longleftrightarrow> (\<exists>ok r e. x = Ok (ok, r, e) \<and> J e \<and> (ok \<longrightarrow> I r e))"

lemma keepsI: "x = Ok (ok, r, e) \<Longrightarrow> J e \<Longrightarrow> (ok \<Longrightarrow> I r e) \<Longrightarrow> keeps I J x"
  by (auto simp: keeps_def)

lemma keeps_andthen:
  assumes "keeps I J x" and "\<And>ok r e. J e \<Longrightarrow> (ok \<Longrightarrow> I r e) \<Longrightarrow> keeps I' J' (f (ok, r, e))"
  shows "keeps I' J' (andthen x f)"
proof -
  from assms(1) obtain ok r e where "x = Ok (ok, r, e)" "J e" "ok \<longrightarrow> I r e" by (auto simp: keeps_def)
  with assms(2) show ?thesis by simp
qed

locale relay_contract =
  fixes B :: monocypher and k :: autoconf and I :: "ct_relay \<Rightarrow> relay_env \<Rightarrow> bool" and J :: "relay_env \<Rightarrow> bool"
  assumes opened: "I r e \<Longrightarrow> \<not> rl_closed r"
    and accounting: "I r e \<Longrightarrow> I (r\<lparr>rl_accounted_buffer_bytes := n\<rparr>) (e\<lparr>re_metrics := g\<rparr>)"
    and effects: "I r e \<Longrightarrow> I r (e\<lparr>re_effects := x\<rparr>)"
    and weaken: "I r e \<Longrightarrow> J e"
    and sockets_only: "J e \<Longrightarrow> re_direct e' = re_direct e \<Longrightarrow> re_work e' = re_work e \<Longrightarrow> J e'"
    and flush_keeps: "I r e \<Longrightarrow> keeps I J (flush_relay d r e)"
    and decrypt_keeps: "I r e \<Longrightarrow> k_data_encryption k \<Longrightarrow> rl_encrypted r \<Longrightarrow> keeps I J (decrypt_ready B k r e)"
    and direct_keeps: "I r e \<Longrightarrow> keeps I J (read_direct B k r e)"
    and work_keeps: "I r e \<Longrightarrow> keeps I J (read_work B k r e)"
begin

lemma sync_keeps: "I r e \<Longrightarrow> sync_buffer_metric k r e = (r', e') \<Longrightarrow> I r' e'"
  using accounting by (auto simp: sync_buffer_metric_def meter_def Let_def split: if_splits)

lemma sync_stage: "I r e \<Longrightarrow> keeps I J (case sync_buffer_metric k r e of (r', e') \<Rightarrow> Ok (True, r', e'))"
  by (cases "sync_buffer_metric k r e") (auto intro!: keepsI dest: sync_keeps weaken)

lemma stage_keeps:
  assumes "J e" "going \<Longrightarrow> I r e" "going \<Longrightarrow> wanted \<Longrightarrow> keeps I J (f r e)"
  shows "keeps I J (stage wanted f k (going, r, e))"
proof -
  have "keeps I J (if ok then case sync_buffer_metric k r' e' of (r', e') \<Rightarrow> Ok (True, r', e') else Ok (False, r', e'))"
    if "J e'" "ok \<Longrightarrow> I r' e'" for ok r' e'
    using that sync_stage by (cases ok) (auto intro: keepsI)
  then show ?thesis using assms sync_stage
    by (cases going; cases wanted) (auto simp: stage_def Let_def intro!: keeps_andthen intro: keepsI)
qed

lemma stages_keep:
  assumes "I r e"
  shows "keeps I J (relay_stages B k r e f readable writable)"
proof -
  have read: "keeps I J (stage readable (if f = rl_direct r then read_direct B k else read_work B k) k (ok, r', e'))"
    if "J e'" "ok \<Longrightarrow> I r' e'" for ok r' e'
    using that by (intro stage_keeps) (auto intro: direct_keeps work_keeps)
  have drain: "keeps I J (if k_data_encryption k
      then stage (f = rl_direct r \<and> rl_encrypted r' \<and> ring_len (rl_work_input r') \<noteq> 0) (decrypt_ready B k) k (ok, r', e')
      else Ok (ok, r', e'))" if "J e'" "ok \<Longrightarrow> I r' e'" for ok r' e'
    using that by (cases "k_data_encryption k") (auto intro!: stage_keeps intro: decrypt_keeps keepsI)
  show ?thesis
    unfolding relay_stages_def Let_def
  proof (rule keeps_andthen [where I = I and J = J], goal_cases)
    case 1
    show ?case using assms by (intro stage_keeps) (auto intro: weaken flush_keeps)
  next
    case (2 ok r' e')
    note ok = this
    show ?case
    proof (rule keeps_andthen [where I = I and J = J], goal_cases)
      case 1
      then show ?case unfolding fst_conv snd_conv using ok by (rule drain)
    next
      case (2 ok2 r2 e2)
      then show ?case by (rule read)
    qed
  qed
qed

lemma process_keeps:
  assumes "I r e"
  shows "\<exists>ok r' e'. ct_relay_process B k r e f readable writable = Ok (ok, r', e') \<and> J e' \<and>
    (if ok then I r' e' else rl_closed r')"
proof -
  from stages_keep [OF assms, of f readable writable] obtain going s3 e3 where
    st: "relay_stages B k r e f readable writable = Ok (going, s3, e3)" "J e3" "going \<longrightarrow> I s3 e3"
    unfolding keeps_def by blast
  have run: "ct_relay_process B k r e f readable writable = Ok (relay_end k (going, s3, e3))"
    using st(1) opened [OF assms] by (simp add: ct_relay_process_def)
  show ?thesis
  proof (cases rule: relay_end_cases [of going k s3 e3])
    case (goes_on x)
    then have "I s3 (e3\<lparr>re_effects := x\<rparr>)" using st(3) effects by blast
    with goes_on run show ?thesis using weaken by auto
  next
    case (closes r' e')
    with run st(2) sockets_only [of e3 e'] show ?thesis by auto
  qed
qed

theorem run_keeps:
  "I r e \<Longrightarrow> \<exists>r' e'. relay_run B k evs r e = Ok (r', e') \<and> J e' \<and> (rl_closed r' \<or> I r' e')"
proof (induction evs arbitrary: r e)
  case Nil
  then show ?case by (auto intro: weaken)
next
  case (Cons ev evs)
  have idle: "rl_closed q \<Longrightarrow> relay_run B k es q e' = Ok (q, e')" for q e' es
    by (induction es) (auto simp: ct_relay_process_def)
  obtain f rb wb where ev: "ev = (f, rb, wb)" by (cases ev) auto
  from process_keeps [OF Cons.prems, of f rb wb] obtain ok r1 e1 where
    p: "ct_relay_process B k r e f rb wb = Ok (ok, r1, e1)" "J e1" "if ok then I r1 e1 else rl_closed r1" by blast
  show ?case
  proof (cases ok)
    case True
    with Cons.IH [of r1 e1] p show ?thesis by (simp add: ev)
  next
    case False
    with idle p show ?thesis by (auto simp: ev)
  qed
qed

end

section \<open>Streams that are not encrypted\<close>

definition rings_ok :: "autoconf \<Rightarrow> ct_relay \<Rightarrow> bool" where
  "rings_ok k r \<longleftrightarrow> \<not> rl_closed r \<and> ring_inv (rl_to_direct r) \<and> ring_inv (rl_to_work r) \<and>
     CHUNK k \<le> ring_cap (rl_to_direct r) \<and> (k_data_encryption k \<longrightarrow> ring_inv (rl_work_input r))"

text \<open>
  The bytes of each direction: sent, buffered, still to arrive. With \<open>steady\<close> inputs, which end only
  once, a side that saw the end has nothing left to read.
\<close>

definition steady :: "recv_event list \<Rightarrow> bool" where
  "steady evs \<longleftrightarrow> list_all (\<lambda>ev. ev \<noteq> Got []) evs"

definition upward :: "ct_relay \<Rightarrow> relay_env \<Rightarrow> bytes" where
  "upward r e = sk_out (re_work e) @ ring_contents (rl_to_work r) @ arrives (sk_in (re_direct e))"

definition downward :: "ct_relay \<Rightarrow> relay_env \<Rightarrow> bytes" where
  "downward r e = sk_out (re_direct e) @ ring_contents (rl_to_direct r) @ arrives (sk_in (re_work e))"

definition ends_known :: "bool \<Rightarrow> autoconf \<Rightarrow> ct_relay \<Rightarrow> relay_env \<Rightarrow> bool" where
  "ends_known q k r e \<longleftrightarrow> (q \<longrightarrow> 0 < CHUNK k \<and> steady (sk_in (re_direct e)) \<and> steady (sk_in (re_work e)) \<and>
     (rl_direct_eof r \<longrightarrow> sk_in (re_direct e) = []) \<and> (rl_work_eof r \<longrightarrow> sk_in (re_work e) = []))"

definition plain_link :: "autoconf \<Rightarrow> bool \<Rightarrow> bytes \<Rightarrow> bytes \<Rightarrow> ct_relay \<Rightarrow> relay_env \<Rightarrow> bool" where
  "plain_link k q up down r e \<longleftrightarrow> rings_ok k r \<and> \<not> (k_data_encryption k \<and> rl_encrypted r) \<and>
     upward r e = up \<and> downward r e = down \<and> ends_known q k r e"

definition sent_within :: "bytes \<Rightarrow> bytes \<Rightarrow> relay_env \<Rightarrow> bool" where
  "sent_within up down e \<longleftrightarrow> prefix (sk_out (re_work e)) up \<and> prefix (sk_out (re_direct e)) down"

lemmas link_defs = upward_def downward_def rings_ok_def

lemma steady_recv:
  assumes "recv_once s cap = (z, s')" "steady (sk_in s)" "0 < cap"
  shows "steady (sk_in s')" "z = Inr [] \<Longrightarrow> sk_in s' = []" "sk_in s = [] \<Longrightarrow> sk_in s' = []"
  using assms by (auto simp: recv_once_def steady_def split: list.splits recv_event.splits if_splits)

lemma plain_sent: "plain_link k q up down r e \<Longrightarrow> sent_within up down e"
  by (auto simp: plain_link_def sent_within_def upward_def downward_def prefix_def)

text \<open>What \<open>flush_relay\<close> does on each side, for any relay with its rings in order.\<close>

definition core :: "ct_relay \<Rightarrow> _" where
  "core r = (rl_closed r, rl_direct_eof r, rl_work_eof r, rl_encrypted r, rl_cipher r,
     (rl_send_key r, rl_recv_key r, rl_send_nonce r, rl_recv_nonce r), rl_send_seq r, rl_recv_seq r, rl_work_input r)"

lemma flush_relay_law:
  assumes "rings_ok k r"
  shows "\<exists>ok r' e'. flush_relay d r e = Ok (ok, r', e') \<and> rings_ok k r' \<and> core r' = core r \<and>
    sk_out (re_work e') @ ring_contents (rl_to_work r') = sk_out (re_work e) @ ring_contents (rl_to_work r) \<and>
    sk_out (re_direct e') @ ring_contents (rl_to_direct r') = sk_out (re_direct e) @ ring_contents (rl_to_direct r) \<and>
    sk_in (re_direct e') = sk_in (re_direct e) \<and> sk_in (re_work e') = sk_in (re_work e)"
proof -
  let ?ring = "if d then rl_to_direct r else rl_to_work r" and ?s = "if d then re_direct e else re_work e"
  have "ring_inv ?ring" using assms by (simp add: rings_ok_def)
  from flush_law [OF this, of ?s] obtain ok s' ring' where f: "flush ?s ?ring = Ok (ok, s', ring')" "ring_inv ring'"
    "ring_cap ring' = ring_cap ?ring" "sk_in s' = sk_in ?s" "sk_out s' @ ring_contents ring' = sk_out ?s @ ring_contents ?ring" by blast
  show ?thesis
    using f assms by (cases d) (simp_all add: flush_relay_def Let_def meter_def rings_ok_def core_def)
qed

lemma plain_flush: "plain_link k q up down r e \<Longrightarrow> keeps (plain_link k q up down) (sent_within up down) (flush_relay d r e)"
proof -
  assume I: "plain_link k q up down r e"
  then have "rings_ok k r" by (simp add: plain_link_def)
  from flush_relay_law [OF this, of d e] obtain ok r' e' where
    f: "flush_relay d r e = Ok (ok, r', e')" "rings_ok k r'" "core r' = core r"
      "sk_out (re_work e') @ ring_contents (rl_to_work r') = sk_out (re_work e) @ ring_contents (rl_to_work r)"
      "sk_out (re_direct e') @ ring_contents (rl_to_direct r') = sk_out (re_direct e) @ ring_contents (rl_to_direct r)"
      "sk_in (re_direct e') = sk_in (re_direct e)" "sk_in (re_work e') = sk_in (re_work e)" by blast
  have "upward r' e' = upward r e" "downward r' e' = downward r e"
    unfolding upward_def downward_def f(6,7) using f(4,5) by (metis append.assoc)+
  then have "plain_link k q up down r' e'"
    using I f by (simp add: plain_link_def ends_known_def core_def)
  with f(1) plain_sent show ?thesis by (auto intro: keepsI)
qed

text \<open>The reading stages differ in side, size and ring only.\<close>

lemma plain_read_direct:
  assumes I: "plain_link k q up down r e"
  shows "keeps (plain_link k q up down) (sent_within up down) (read_direct B k r e)"
proof -
  obtain z s' where z: "recv_once (re_direct e) (CHUNK k) = (z, s')" by fastforce
  note law = recv_once_law [OF z]
  have ek: "ends_known q k (r\<lparr>rl_direct_eof := b\<rparr>) (e\<lparr>re_direct := s'\<rparr>)" if "b \<Longrightarrow> z = Inr [] \<or> rl_direct_eof r" for b
    using I that steady_recv [OF z] by (auto simp: plain_link_def ends_known_def)
  have plain: "\<not> (k_data_encryption k \<and> rl_encrypted r)" using I by (simp add: plain_link_def)
  show ?thesis
  proof (cases z)
    case (Inl b)
    then have "plain_link k q up down r (e\<lparr>re_direct := s'\<rparr>)"
      using I law ek [of "rl_direct_eof r"] by (simp add: plain_link_def link_defs)
    with Inl z plain_sent show ?thesis by (auto simp: read_direct_def intro: keepsI)
  next
    case (Inr b)
    show ?thesis
    proof (cases "b = []")
      case True
      then have "plain_link k q up down (r\<lparr>rl_direct_eof := True\<rparr>) (e\<lparr>re_direct := s'\<rparr>)"
        using I law ek [of True] Inr by (simp add: plain_link_def link_defs)
      with Inr True z plain_sent show ?thesis by (auto simp: read_direct_def intro: keepsI)
    next
      case False
      let ?e = "meter (metric_bytes r True (length b)) (e\<lparr>re_direct := s'\<rparr>)"
      from append_ring_law [of "rl_to_work r" b] I obtain ok tw m where
        a: "append_ring (rl_to_work r) b = Ok (ok, tw)" "ring_inv tw" "ring_contents tw = ring_contents (rl_to_work r) @ take m b"
          "ok \<longrightarrow> m = length b" by (auto simp: plain_link_def rings_ok_def)
      have "read_direct B k r e = Ok (ok, r\<lparr>rl_to_work := tw\<rparr>, ?e)"
        using z Inr False plain a by (auto simp: read_direct_def Let_def)
      moreover have "sent_within up down ?e" using plain_sent [OF I] law by (simp add: sent_within_def meter_def)
      moreover have "ok \<Longrightarrow> plain_link k q up down (r\<lparr>rl_to_work := tw\<rparr>) ?e"
        using I law a Inr ek [of "rl_direct_eof r"] by (simp add: plain_link_def link_defs meter_def ends_known_def)
      ultimately show ?thesis by (rule keepsI)
    qed
  qed
qed

lemma plain_read_work:
  assumes I: "plain_link k q up down r e"
  shows "keeps (plain_link k q up down) (sent_within up down) (read_work B k r e)"
proof -
  obtain z s' where z: "recv_once (re_work e) (CHUNK k + 32) = (z, s')" by fastforce
  note law = recv_once_law [OF z]
  have ek: "ends_known q k (r\<lparr>rl_work_eof := b\<rparr>) (e\<lparr>re_work := s'\<rparr>)" if "b \<Longrightarrow> z = Inr [] \<or> rl_work_eof r" for b
    using I that steady_recv [OF z] by (auto simp: plain_link_def ends_known_def)
  have plain: "\<not> (k_data_encryption k \<and> rl_encrypted r)" using I by (simp add: plain_link_def)
  show ?thesis
  proof (cases z)
    case (Inl b)
    then have "plain_link k q up down r (e\<lparr>re_work := s'\<rparr>)"
      using I law ek [of "rl_work_eof r"] by (simp add: plain_link_def link_defs)
    with Inl z plain_sent show ?thesis by (auto simp: read_work_def intro: keepsI)
  next
    case (Inr b)
    show ?thesis
    proof (cases "b = []")
      case True
      then have "plain_link k q up down (r\<lparr>rl_work_eof := True\<rparr>) (e\<lparr>re_work := s'\<rparr>)"
        using I law ek [of True] Inr by (simp add: plain_link_def link_defs)
      with Inr True z plain_sent show ?thesis by (auto simp: read_work_def intro: keepsI)
    next
      case False
      let ?e = "meter (metric_bytes r False (length b)) (e\<lparr>re_work := s'\<rparr>)"
      from append_ring_law [of "rl_to_direct r" b] I obtain ok td m where
        a: "append_ring (rl_to_direct r) b = Ok (ok, td)" "ring_inv td \<and> ring_cap td = ring_cap (rl_to_direct r)" "ring_contents td = ring_contents (rl_to_direct r) @ take m b"
          "ok \<longrightarrow> m = length b" by (auto simp: plain_link_def rings_ok_def)
      have "read_work B k r e = Ok (ok, r\<lparr>rl_to_direct := td\<rparr>, ?e)"
        using z Inr False plain a by (auto simp: read_work_def Let_def)
      moreover have "sent_within up down ?e" using plain_sent [OF I] law by (simp add: sent_within_def meter_def)
      moreover have "ok \<Longrightarrow> plain_link k q up down (r\<lparr>rl_to_direct := td\<rparr>) ?e"
        using I law a Inr ek [of "rl_work_eof r"] by (simp add: plain_link_def link_defs meter_def ends_known_def)
      ultimately show ?thesis by (rule keepsI)
    qed
  qed
qed

lemma plain_no_decrypt: "plain_link k q up down r e \<Longrightarrow> k_data_encryption k \<Longrightarrow> rl_encrypted r \<Longrightarrow> P"
  by (simp add: plain_link_def)

interpretation plain: relay_contract B k "plain_link k q up down" "sent_within up down" for B k q up down
proof
  show "plain_link k q up down (r\<lparr>rl_accounted_buffer_bytes := n\<rparr>) (e\<lparr>re_metrics := g\<rparr>)"
    if "plain_link k q up down r e" for r e n g
    using that by (simp add: plain_link_def link_defs ends_known_def)
  show "plain_link k q up down r (e\<lparr>re_effects := x\<rparr>)" if "plain_link k q up down r e" for r e x
    using that by (simp add: plain_link_def link_defs ends_known_def)
  show "\<not> rl_closed r" if "plain_link k q up down r e" for r e
    using that by (simp add: plain_link_def rings_ok_def)
  show "sent_within up down e'" if "sent_within up down e" "re_direct e' = re_direct e" "re_work e' = re_work e" for e e'
    using that by (simp add: sent_within_def)
qed (fact plain_sent plain_flush plain_read_direct plain_read_work | erule (2) plain_no_decrypt)+

section \<open>When a relay fails\<close>

text \<open>
  The only reasons for an unencrypted relay to stop before the end of its streams: the socket to write to
  refuses the buffered bytes, or takes none of them; the socket to read from fails; or it delivers more
  than the ring of the other side has room for.
\<close>

definition write_fails :: "sock \<Rightarrow> ct_ring \<Rightarrow> bool" where
  "write_fails s ring \<longleftrightarrow> ring_len ring \<noteq> 0 \<and>
     (case sk_room s of Takes m # _ \<Rightarrow> m = 0 | Send_blocked _ _ # _ \<Rightarrow> False | _ \<Rightarrow> True)"

definition read_fails :: "sock \<Rightarrow> nat \<Rightarrow> ct_ring \<Rightarrow> bool" where
  "read_fails s cap ring \<longleftrightarrow>
     (case sk_in s of Got bs # _ \<Rightarrow> min cap (length bs) > ring_cap ring - ring_len ring | Recv_failed # _ \<Rightarrow> True | _ \<Rightarrow> False)"

definition event_trouble :: "autoconf \<Rightarrow> int \<Rightarrow> bool \<Rightarrow> bool \<Rightarrow> ct_relay \<Rightarrow> relay_env \<Rightarrow> bool" where
  "event_trouble k f readable writable r e \<longleftrightarrow>
     (if f = rl_direct r
      then writable \<and> write_fails (re_direct e) (rl_to_direct r) \<or> readable \<and> read_fails (re_direct e) (CHUNK k) (rl_to_work r)
      else writable \<and> write_fails (re_work e) (rl_to_work r) \<or> readable \<and> read_fails (re_work e) (CHUNK k + 32) (rl_to_direct r))"

lemma flush_exact:
  assumes "ring_inv ring" "flush s ring = Ok (ok, s', ring')"
  shows "ok \<longleftrightarrow> \<not> write_fails s ring"
proof -
  from rg.peek_law [OF assms(1)] obtain m where m: "ct_ring_peek ring = Ok (take m (ring_contents ring))"
    "ring_contents ring \<noteq> [] \<Longrightarrow> 0 < m" by blast
  then have "take m (ring_contents ring) = [] \<longleftrightarrow> ring_len ring = 0" by (metis gr0_implies_Suc length_0_conv length_ring_contents take_eq_Nil zero_less_iff_neq_zero)
  then show ?thesis using assms(2) m(1)
    by (auto simp: flush_def write_fails_def send_once_def res_simps case_Ok_iff split: list.splits send_event.splits)
qed

lemma ring_room: "ring_inv ring \<Longrightarrow> ring_len ring + n \<le> ring_cap ring \<longleftrightarrow> n \<le> ring_cap ring - ring_len ring"
  by (auto simp: ring_inv_def)

lemma append_exact:
  assumes "ring_inv ring" "append_ring ring p = Ok (ok, ring')"
  shows "ok \<longleftrightarrow> length p \<le> ring_cap ring - ring_len ring"
  using append_ring_law [OF assms(1), of p] assms(2) ring_room [OF assms(1)] by auto

lemma read_direct_exact:
  assumes "ring_inv (rl_to_work r)" "\<not> (k_data_encryption k \<and> rl_encrypted r)" "read_direct B k r e = Ok (ok, r', e')"
  shows "ok \<longleftrightarrow> \<not> read_fails (re_direct e) (CHUNK k) (rl_to_work r)"
  using assms(2,3)
  by (auto simp: read_direct_def Let_def recv_once_def read_fails_def res_simps case_Ok_iff min_def not_less
      split: list.splits recv_event.splits if_splits dest!: append_exact [OF assms(1)])

lemma read_work_exact:
  assumes "ring_inv (rl_to_direct r)" "\<not> (k_data_encryption k \<and> rl_encrypted r)" "read_work B k r e = Ok (ok, r', e')"
  shows "ok \<longleftrightarrow> \<not> read_fails (re_work e) (CHUNK k + 32) (rl_to_direct r)"
  using assms(2,3)
  by (auto simp: read_work_def Let_def recv_once_def read_fails_def res_simps case_Ok_iff min_def not_less
      split: list.splits recv_event.splits if_splits dest!: append_exact [OF assms(1)])

text \<open>A stage that is not wanted changes the accounting only.\<close>

definition recounted :: "ct_relay \<Rightarrow> relay_env \<Rightarrow> ct_relay \<Rightarrow> relay_env \<Rightarrow> bool" where
  "recounted r e r' e' \<longleftrightarrow> (\<exists>n g. r' = r\<lparr>rl_accounted_buffer_bytes := n\<rparr> \<and> e' = e\<lparr>re_metrics := g\<rparr>)"

lemma recounted_refl: "recounted r e r e"
  unfolding recounted_def by (intro exI [of _ "rl_accounted_buffer_bytes r"] exI [of _ "re_metrics e"]) simp

lemma sync_recounted: "sync_buffer_metric k r e = (r', e') \<Longrightarrow> recounted r e r' e'"
  by (auto simp: sync_buffer_metric_def Let_def meter_def recounted_def)

lemma stage_cases:
  assumes "stage wanted f k (going, r, e) = Ok (ok, r', e')"
  shows "if going \<and> wanted then \<exists>r1 e1. f r e = Ok (ok, r1, e1) \<and> recounted r1 e1 r' e' else ok = going \<and> recounted r e r' e'"
  using assms by (auto simp: stage_def Let_def res_simps case_Ok_iff recounted_refl dest: sync_recounted split: if_splits prod.splits)

text \<open>The flush of an event leaves alone what the read of the same event looks at.\<close>

lemma flush_relay_parts:
  assumes "flush_relay d r e = Ok (ok, r', e')"
  shows "\<exists>s' ring'. flush (if d then re_direct e else re_work e) (if d then rl_to_direct r else rl_to_work r) = Ok (ok, s', ring')"
    "if d then rl_to_work r' = rl_to_work r else rl_to_direct r' = rl_to_direct r"
proof -
  obtain ok1 s' ring' where f: "flush (if d then re_direct e else re_work e) (if d then rl_to_direct r else rl_to_work r) = Ok (ok1, s', ring')"
    using assms by (auto simp: flush_relay_def Let_def res_simps)
  show "\<exists>s' ring'. flush (if d then re_direct e else re_work e) (if d then rl_to_direct r else rl_to_work r) = Ok (ok, s', ring')"
    using assms f by (simp add: flush_relay_def Let_def)
  show "if d then rl_to_work r' = rl_to_work r else rl_to_direct r' = rl_to_direct r"
    using assms f by (cases d) (auto simp: flush_relay_def Let_def)
qed

lemma flush_stage:
  assumes "rings_ok k r" "stage writable (flush_relay d) k (True, r, e) = Ok (ok, r', e')"
  shows "ok \<longleftrightarrow> \<not> (writable \<and> write_fails (if d then re_direct e else re_work e) (if d then rl_to_direct r else rl_to_work r))"
    "rings_ok k r'" "rl_encrypted r' = rl_encrypted r" "sk_in (re_direct e') = sk_in (re_direct e)" "sk_in (re_work e') = sk_in (re_work e)"
    "if d then rl_to_work r' = rl_to_work r else rl_to_direct r' = rl_to_direct r"
proof -
  let ?ring = "if d then rl_to_direct r else rl_to_work r" and ?s = "if d then re_direct e else re_work e"
  have inv: "ring_inv ?ring" using assms(1) by (simp add: rings_ok_def)
  from flush_relay_law [OF assms(1), of d e] obtain ok1 r1 e1 where
    f: "flush_relay d r e = Ok (ok1, r1, e1)" "rings_ok k r1" "core r1 = core r" "sk_in (re_direct e1) = sk_in (re_direct e)"
      "sk_in (re_work e1) = sk_in (re_work e)" by blast
  obtain s' ring' where fl: "flush ?s ?ring = Ok (ok1, s', ring')" using flush_relay_parts(1) [OF f(1)] by blast
  note keep = flush_relay_parts(2) [OF f(1)]
  note st = stage_cases [OF assms(2)]
  have "ok \<longleftrightarrow> \<not> (writable \<and> write_fails ?s ?ring)" using st f(1) flush_exact [OF inv fl] by (auto split: if_splits)
  moreover have "rings_ok k r' \<and> rl_encrypted r' = rl_encrypted r \<and> sk_in (re_direct e') = sk_in (re_direct e) \<and> sk_in (re_work e') = sk_in (re_work e) \<and>
      (if d then rl_to_work r' = rl_to_work r else rl_to_direct r' = rl_to_direct r)"
    using st f keep assms(1) by (cases writable) (auto simp: recounted_def rings_ok_def core_def split: if_splits)
  ultimately show "ok \<longleftrightarrow> \<not> (writable \<and> write_fails ?s ?ring)" "rings_ok k r'" "rl_encrypted r' = rl_encrypted r"
    "sk_in (re_direct e') = sk_in (re_direct e)" "sk_in (re_work e') = sk_in (re_work e)"
    "if d then rl_to_work r' = rl_to_work r else rl_to_direct r' = rl_to_direct r" by blast+
qed

lemma read_fails_cong: "sk_in s' = sk_in s \<Longrightarrow> read_fails s' cap ring = read_fails s cap ring"
  by (simp add: read_fails_def)

lemma plain_stages_exact:
  assumes "rings_ok k r" "\<not> (k_data_encryption k \<and> rl_encrypted r)" "relay_stages B k r e f readable writable = Ok (going, s, t)"
  shows "going \<longleftrightarrow> \<not> event_trouble k f readable writable r e"
proof -
  let ?d = "f = rl_direct r"
  from assms(3) obtain st1 st2 where st: "stage writable (flush_relay ?d) k (True, r, e) = Ok st1"
    "(if k_data_encryption k then stage (?d \<and> rl_encrypted (fst (snd st1)) \<and> ring_len (rl_work_input (fst (snd st1))) \<noteq> 0) (decrypt_ready B k) k st1
      else Ok st1) = Ok st2" "stage readable (if ?d then read_direct B k else read_work B k) k st2 = Ok (going, s, t)"
    unfolding relay_stages_def Let_def by (auto simp only: res_simps)
  obtain ok1 r1 e1 ok2 r2 e2 where "st1 = (ok1, r1, e1)" "st2 = (ok2, r2, e2)" by (metis prod_cases3)
  note st = st [unfolded this fst_conv snd_conv]
  then have
    1: "stage writable (flush_relay ?d) k (True, r, e) = Ok (ok1, r1, e1)"
    and 2: "(if k_data_encryption k then stage (?d \<and> rl_encrypted r1 \<and> ring_len (rl_work_input r1) \<noteq> 0) (decrypt_ready B k) k (ok1, r1, e1)
      else Ok (ok1, r1, e1)) = Ok (ok2, r2, e2)"
    and 3: "stage readable (if ?d then read_direct B k else read_work B k) k (ok2, r2, e2) = Ok (going, s, t)" by blast+
  note F = flush_stage [OF assms(1) 1]
  have R: "ok2 = ok1 \<and> recounted r1 e1 r2 e2"
    using 2 F(3) assms(2) stage_cases [of "?d \<and> rl_encrypted r1 \<and> ring_len (rl_work_input r1) \<noteq> 0" "decrypt_ready B k" k ok1 r1 e1 ok2 r2 e2]
    by (auto simp: recounted_refl split: if_splits)
  then have E: "ring_inv (rl_to_work r2)" "ring_inv (rl_to_direct r2)" "\<not> (k_data_encryption k \<and> rl_encrypted r2)"
    "rl_to_work r2 = rl_to_work r1" "rl_to_direct r2 = rl_to_direct r1" "sk_in (re_direct e2) = sk_in (re_direct e)" "sk_in (re_work e2) = sk_in (re_work e)"
    using F(2-5) assms(2) by (auto simp: recounted_def rings_ok_def)
  have "going \<longleftrightarrow> ok1 \<and> \<not> (readable \<and> (if ?d then read_fails (re_direct e) (CHUNK k) (rl_to_work r) else read_fails (re_work e) (CHUNK k + 32) (rl_to_direct r)))"
  proof (cases "ok1 \<and> readable")
    case True
    then obtain u v where u: "(if ?d then read_direct B k else read_work B k) r2 e2 = Ok (going, u, v)" using stage_cases [OF 3] R by auto
    show ?thesis
    proof (cases ?d)
      case d: True
      then have "read_direct B k r2 e2 = Ok (going, u, v)" using u by simp
      from read_direct_exact [OF E(1,3) this] show ?thesis using True d F(6) E(4) read_fails_cong [OF E(6)] by simp
    next
      case d: False
      then have "read_work B k r2 e2 = Ok (going, u, v)" using u by simp
      from read_work_exact [OF E(2,3) this] show ?thesis using True d F(6) E(5) read_fails_cong [OF E(7)] by simp
    qed
  next
    case False
    then show ?thesis using stage_cases [OF 3] R by (auto split: if_splits)
  qed
  then show ?thesis using F(1) by (auto simp: event_trouble_def)
qed

section \<open>Failures are counted\<close>

definition failures :: "relay_env \<Rightarrow> u64" where
  "failures e = re_metrics e CT_METRIC_STREAMS_FAILED_TOTAL"

lemma failures_simps [simp]:
  "failures (meter (ct_metric_inc CT_METRIC_AEAD_FAILURES_TOTAL) e) = failures e"
  "failures (meter (ct_metric_inc CT_METRIC_PROXY_PROTOCOL_LOCAL_WRITE_FAILURES_TOTAL) e) = failures e"
  "failures (meter (metric_bytes r b n) e) = failures e"
  "failures (e\<lparr>re_direct := s\<rparr>) = failures e" "failures (e\<lparr>re_work := s\<rparr>) = failures e"
  "failures (e\<lparr>re_effects := x\<rparr>) = failures e"
  by (simp_all add: failures_def meter_def metric_bytes_def Let_def metric_frame ct_metric_inc_def)

lemma sync_failures: "sync_buffer_metric k r e = (r', e') \<Longrightarrow> failures e' = failures e"
  by (auto simp: sync_buffer_metric_def Let_def failures_def meter_def metric_frame)

lemma close_failures: "ct_relay_close k r e = (r', e') \<Longrightarrow> failures e' = failures e"
  by (auto simp: ct_relay_close_def Let_def failures_def meter_def metric_frame ct_metric_inc_def ct_metric_dec_def
      dest!: sync_failures split: if_splits prod.splits)

lemma flush_failures: "flush_relay d r e = Ok (ok, r', e') \<Longrightarrow> failures e' = failures e"
  by (auto simp: flush_relay_def Let_def res_simps case_Ok_iff)

lemma turn_failures: "decrypt_turn B k r e = Ok (c, r', e') \<Longrightarrow> failures e' = failures e"
  by (auto simp: decrypt_turn_def Let_def res_simps case_Ok_iff)

lemma decrypt_failures: "decrypt_ready B k r e = Ok (ok, r', e') \<Longrightarrow> failures e' = failures e"
proof (induction B k r e rule: decrypt_ready.induct)
  case (1 B k r e)
  then show ?case
    by (subst (asm) decrypt_ready.simps) (auto dest: turn_failures split: res.splits option.splits)
qed

lemma read_failures:
  "read_direct B k r e = Ok (ok, r', e') \<Longrightarrow> failures e' = failures e"
  "read_work B k r e = Ok (ok, r', e') \<Longrightarrow> failures e' = failures e"
  by (auto simp: read_direct_def read_work_def encrypt_chunk_def Let_def res_simps case_Ok_iff
      dest!: decrypt_failures)

lemma stage_failures:
  assumes "stage wanted f k (going, r, e) = Ok (ok, r', e')" "\<And>ok r' e'. f r e = Ok (ok, r', e') \<Longrightarrow> failures e' = failures e"
  shows "failures e' = failures e"
  using assms by (auto simp: stage_def Let_def res_simps case_Ok_iff dest!: sync_failures split: if_splits)

lemma stages_failures:
  assumes "relay_stages B k r e f readable writable = Ok (ok, r', e')"
  shows "failures e' = failures e"
  using assms
  by (auto simp: relay_stages_def Let_def res_simps split: if_splits
      dest!: stage_failures intro: flush_failures decrypt_failures read_failures)

lemma end_failures:
  assumes "relay_end k (going, r, e) = (ok, r', e')"
  shows "going \<Longrightarrow> failures e' = failures e" "\<not> going \<Longrightarrow> failures e \<noteq> uint64_max \<Longrightarrow> failures e' \<noteq> failures e"
proof -
  show "failures e' = failures e" if going
    using assms that by (auto simp: relay_end_def Let_def split: if_splits dest: close_failures)
  show "failures e' \<noteq> failures e" if "\<not> going" "failures e \<noteq> uint64_max"
  proof -
    have u: "unat (failures e') = min (unat (failures e) + 1) (2 ^ 64 - 1)"
      using assms that(1) add_saturates [of CT_METRIC_STREAMS_FAILED_TOTAL 1 "re_metrics e"]
      by (auto simp: relay_end_def failures_def meter_def ct_metric_inc_def dest!: close_failures)
    show ?thesis
    proof
      assume "failures e' = failures e"
      with u have "unat (failures e) = unat uint64_max" by simp
      with that(2) show False by (simp only: word_unat_eq_iff)
    qed
  qed
qed

lemma run_closed: "rl_closed r \<Longrightarrow> relay_run B k evs r e = Ok (r, e)"
  by (induction evs) (auto simp: ct_relay_process_def)

context relay_contract
begin

text \<open>A run that ends closed has an event at which the relay closed.\<close>

lemma run_closes:
  assumes "I r e" "relay_run B k evs r e = Ok (r', e')" "rl_closed r'"
  obtains evs1 f rb wb evs2 r1 e1 going s t where "evs = evs1 @ (f, rb, wb) # evs2" "relay_run B k evs1 r e = Ok (r1, e1)" "I r1 e1"
    "relay_stages B k r1 e1 f rb wb = Ok (going, s, t)" "re_direct e' = re_direct t" "re_work e' = re_work t"
    "going \<Longrightarrow> I s t \<and> rl_direct_eof s \<and> rl_work_eof s \<and> ring_len (rl_to_direct s) = 0 \<and> ring_len (rl_to_work s) = 0"
  using assms
proof (induction evs arbitrary: r e thesis)
  case Nil
  then show ?case using opened by auto
next
  case (Cons ev evs)
  obtain f rb wb where ev: "ev = (f, rb, wb)" by (cases ev) auto
  from stages_keep [OF Cons.prems(2), of f rb wb] obtain going s t where
    st: "relay_stages B k r e f rb wb = Ok (going, s, t)" "going \<longrightarrow> I s t" unfolding keeps_def by blast
  have p: "ct_relay_process B k r e f rb wb = Ok (relay_end k (going, s, t))"
    using st(1) opened [OF Cons.prems(2)] by (simp add: ct_relay_process_def)
  show ?case
  proof (cases rule: relay_end_cases [of going k s t])
    case (goes_on x)
    let ?t = "t\<lparr>re_effects := x\<rparr>"
    have I: "I s ?t" and run: "relay_run B k evs s ?t = Ok (r', e')" using goes_on st(2) effects p Cons.prems(3) by (auto simp: ev)
    show ?thesis
    proof (rule Cons.IH [OF _ I run Cons.prems(4)])
      fix evs1 f' rb' wb' evs2 r1 e1 going' s' t'
      assume "evs = evs1 @ (f', rb', wb') # evs2" "relay_run B k evs1 s ?t = Ok (r1, e1)" "I r1 e1" "relay_stages B k r1 e1 f' rb' wb' = Ok (going', s', t')"
        "re_direct e' = re_direct t'" "re_work e' = re_work t'"
        "going' \<Longrightarrow> I s' t' \<and> rl_direct_eof s' \<and> rl_work_eof s' \<and> ring_len (rl_to_direct s') = 0 \<and> ring_len (rl_to_work s') = 0"
      then show thesis using p goes_on by (intro Cons.prems(1) [of "ev # evs1" f' rb' wb' evs2 r1 e1 going' s' t']) (simp_all add: ev)
    qed
  next
    case (closes r1 e1)
    then have "r' = r1" "e' = e1" using p Cons.prems(3) run_closed [of r1] by (simp_all add: ev)
    then show ?thesis using closes st Cons.prems(2) by (intro Cons.prems(1) [of "[]" f rb wb evs r e going s t]) (simp_all add: ev)
  qed
qed

text \<open>A run that ends closed without counting a failure ended in order.\<close>

lemma run_orderly:
  assumes "I r e" "relay_run B k evs r e = Ok (r', e')" "rl_closed r'" "failures e' = failures e" "failures e \<noteq> uint64_max"
    and "D r" and D: "\<And>r e f rb wb s t. I r e \<Longrightarrow> D r \<Longrightarrow> relay_stages B k r e f rb wb = Ok (True, s, t) \<Longrightarrow> D s"
  shows "\<exists>s t. I s t \<and> D s \<and> rl_direct_eof s \<and> rl_work_eof s \<and> ring_len (rl_to_direct s) = 0 \<and> ring_len (rl_to_work s) = 0 \<and>
    re_direct e' = re_direct t \<and> re_work e' = re_work t"
  using assms(1-6)
proof (induction evs arbitrary: r e)
  case Nil
  then show ?case using opened by auto
next
  case (Cons ev evs)
  obtain f rb wb where ev: "ev = (f, rb, wb)" by (cases ev) auto
  from stages_keep [OF Cons.prems(1), of f rb wb] obtain going s t where
    st: "relay_stages B k r e f rb wb = Ok (going, s, t)" "going \<longrightarrow> I s t" unfolding keeps_def by blast
  have ft: "failures t = failures e" using stages_failures [OF st(1)] .
  have p: "ct_relay_process B k r e f rb wb = Ok (relay_end k (going, s, t))"
    using st(1) opened [OF Cons.prems(1)] by (simp add: ct_relay_process_def)
  show ?case
  proof (cases rule: relay_end_cases [of going k s t])
    case (goes_on x)
    then have "I s (t\<lparr>re_effects := x\<rparr>)" using st(2) effects by blast
    from Cons.IH [OF this] goes_on p Cons.prems(2-) ft D [OF Cons.prems(1,6)] st(1) show ?thesis by (simp add: ev)
  next
    case (closes r1 e1)
    then have e': "r' = r1" "e' = e1" using p Cons.prems(2) run_closed [of r1] by (simp_all add: ev)
    have "going" using end_failures(2) [OF closes(1)] ft Cons.prems(4,5) e' by auto
    moreover from this have "D s" using D [OF Cons.prems(1,6)] st(1) by simp
    ultimately show ?thesis using st(2) closes(3-) e' by blast
  qed
qed

end

section \<open>A small instance\<close>

definition small_build :: autoconf where
  "small_build = default_defconfig\<lparr>k_stream_buffer := 4, k_data_encryption := False\<rparr>"

definition small_relay :: ct_relay where
  "small_relay = (let ring = \<lparr>ring_data = [0, 0, 0, 0], ring_cap = 4, ring_head = 3, ring_len = 0\<rparr>
     in (zero_relay 3 4 True)\<lparr>rl_to_direct := ring, rl_to_work := ring\<rparr>)"

definition small_env :: relay_env where
  "small_env = \<lparr>re_metrics = no_metrics, re_direct = \<lparr>sk_in = [Got [1]], sk_room = [Takes 8], sk_out = []\<rparr>,
     re_work = \<lparr>sk_in = [Got [9]], sk_room = [Takes 8], sk_out = []\<rparr>, re_effects = []\<rparr>"

definition small_events :: "(int \<times> bool \<times> bool) list" where
  "small_events = [(3, True, False), (4, True, True), (3, True, True), (4, True, False)]"

lemmas run_defs = ct_relay_process_def relay_stages_def stage_def read_direct_def read_work_def recv_once_def
  append_ring_def ct_ring_write_def flush_relay_def flush_def send_once_def ct_ring_peek_def ct_ring_consume_def
  relay_end_def sync_buffer_metric_def Let_def buffered_bytes_def rd_def mem_put_def ct_relay_close_def

lemma small_build_simps [simp]: "\<not> k_data_encryption small_build" "CHUNK small_build = 2"
  by (simp_all add: small_build_def CHUNK_def)

lemma small_ok: "rings_ok small_build small_relay"
  by (simp add: rings_ok_def small_relay_def Let_def zero_relay_def ring_inv_def)

lemma small_streams: "upward small_relay small_env = [1]" "downward small_relay small_env = [9]"
  by (simp_all add: upward_def downward_def small_env_def small_relay_def Let_def zero_relay_def ring_contents_def)

lemma small_run:
  "\<exists>r' e'. relay_run B small_build small_events small_relay small_env = Ok (r', e') \<and> rl_closed r' \<and> failures e' = 0"
  by (simp add: run_defs small_relay_def small_env_def zero_relay_def small_events_def)
   (simp add: failures_def meter_def no_metrics_def ct_metric_inc_def ct_metric_dec_def metric_bytes_def)

section \<open>Properties of unencrypted streams\<close>

text \<open>The interest in reading the direct side leaves room for what is read there.\<close>

lemma direct_reads_fit:
  assumes "fst (ct_relay_events k r (rl_direct r))" "ring_inv (rl_to_work r)" "CHUNK k + 32 \<le> ring_cap (rl_to_work r)"
  shows "read_fails s (CHUNK k) (rl_to_work r) \<longleftrightarrow> (\<exists>rest. sk_in s = Recv_failed # rest)"
proof -
  have "ring_len (rl_to_work r) < ring_cap (rl_to_work r) - CHUNK k - 32"
    using assms(1,3) by (auto simp: ct_relay_events_def size_sub_def split: if_splits)
  then show ?thesis by (auto simp: read_fails_def split: list.splits recv_event.splits)
qed

lemma plain_closing:
  assumes "rings_ok k r" "\<not> (k_data_encryption k \<and> rl_encrypted r)" "relay_run B k evs r e = Ok (r', e')" "rl_closed r'"
  obtains evs1 f rb wb evs2 r1 e1 where "evs = evs1 @ (f, rb, wb) # evs2" "relay_run B k evs1 r e = Ok (r1, e1)" "\<not> rl_closed r1"
    "event_trouble k f rb wb r1 e1 \<or>
     sk_out (re_work e') @ arrives (sk_in (re_direct e')) = upward r e \<and> sk_out (re_direct e') @ arrives (sk_in (re_work e')) = downward r e \<and>
       (ends_known True k r e \<longrightarrow> sk_in (re_direct e') = [] \<and> sk_in (re_work e') = [])"
proof -
  let ?q = "ends_known True k r e"
  have "plain_link k ?q (upward r e) (downward r e) r e" using assms(1,2) by (auto simp: plain_link_def ends_known_def)
  from plain.run_closes [OF this assms(3,4)] obtain evs1 f rb wb evs2 r1 e1 going s t where
    c: "evs = evs1 @ (f, rb, wb) # evs2" "relay_run B k evs1 r e = Ok (r1, e1)" "plain_link k ?q (upward r e) (downward r e) r1 e1"
      "relay_stages B k r1 e1 f rb wb = Ok (going, s, t)" "re_direct e' = re_direct t" "re_work e' = re_work t"
      "going \<Longrightarrow> plain_link k ?q (upward r e) (downward r e) s t \<and> rl_direct_eof s \<and> rl_work_eof s \<and> ring_len (rl_to_direct s) = 0 \<and> ring_len (rl_to_work s) = 0"
    by blast
  have open1: "rings_ok k r1" "\<not> (k_data_encryption k \<and> rl_encrypted r1)" using c(3) by (simp_all add: plain_link_def)
  show thesis
  proof (rule that [OF c(1,2)])
    show "\<not> rl_closed r1" using open1 by (simp add: rings_ok_def)
    show "event_trouble k f rb wb r1 e1 \<or>
     sk_out (re_work e') @ arrives (sk_in (re_direct e')) = upward r e \<and> sk_out (re_direct e') @ arrives (sk_in (re_work e')) = downward r e \<and>
       (ends_known True k r e \<longrightarrow> sk_in (re_direct e') = [] \<and> sk_in (re_work e') = [])"
    proof (cases going)
      case True
      then have st: "plain_link k ?q (upward r e) (downward r e) s t" "rl_direct_eof s" "rl_work_eof s" "ring_len (rl_to_direct s) = 0" "ring_len (rl_to_work s) = 0"
        using c(7) by blast+
      have "ring_contents (rl_to_direct s) = []" "ring_contents (rl_to_work s) = []" using st(4,5) by (simp_all flip: length_0_conv)
      then have "sk_out (re_work e') @ arrives (sk_in (re_direct e')) = upward r e" "sk_out (re_direct e') @ arrives (sk_in (re_work e')) = downward r e"
        using st(1) c(5,6) by (auto simp: plain_link_def upward_def downward_def)
      moreover have "?q \<longrightarrow> sk_in (re_direct e') = [] \<and> sk_in (re_work e') = []" using st(1-3) c(5,6) by (auto simp: plain_link_def ends_known_def)
      ultimately show ?thesis by blast
    next
      case False
      then show ?thesis using plain_stages_exact [OF open1 c(4)] by blast
    qed
  qed
qed

text \<open>
  C17: an unencrypted relay does not reorder, duplicate or invent bytes, and loses none unless one of
  three things goes wrong. For every sequence of events and every behaviour of the two sockets it never
  accesses memory out of bounds; what it has sent on each side is at any time a prefix of what was
  buffered and arrived for that side; and as long as it is open, sent, buffered and yet to arrive bytes
  together are exactly that stream. When it closes, then at an event that meets an open relay, and
  either that event failed, because the socket to write to refuses the buffered bytes, the socket to read
  from fails, or a read brings more than the ring of the other side has room for; or both sides have
  ended and all that was read has been sent: with sockets whose input ends only once, everything.
\<close>

theorem relay_plain_stream:
  assumes "rings_ok k r" "\<not> (k_data_encryption k \<and> rl_encrypted r)"
  shows "\<exists>r' e'. relay_run B k evs r e = Ok (r', e') \<and>
    prefix (sk_out (re_work e')) (upward r e) \<and> prefix (sk_out (re_direct e')) (downward r e) \<and>
    (\<not> rl_closed r' \<longrightarrow> upward r' e' = upward r e \<and> downward r' e' = downward r e) \<and>
    (rl_closed r' \<longrightarrow> (\<exists>evs1 f rb wb evs2 r1 e1. evs = evs1 @ (f, rb, wb) # evs2 \<and> relay_run B k evs1 r e = Ok (r1, e1) \<and> \<not> rl_closed r1 \<and>
      (event_trouble k f rb wb r1 e1 \<or>
       sk_out (re_work e') @ arrives (sk_in (re_direct e')) = upward r e \<and> sk_out (re_direct e') @ arrives (sk_in (re_work e')) = downward r e \<and>
         (ends_known True k r e \<longrightarrow> sk_in (re_direct e') = [] \<and> sk_in (re_work e') = []))))"
proof -
  have "plain_link k False (upward r e) (downward r e) r e" using assms by (simp add: plain_link_def ends_known_def)
  from plain.run_keeps [OF this, of B evs] obtain r' e' where run: "relay_run B k evs r e = Ok (r', e')" "sent_within (upward r e) (downward r e) e'"
    "rl_closed r' \<or> plain_link k False (upward r e) (downward r e) r' e'" by blast
  show ?thesis
  proof (cases "rl_closed r'")
    case True
    from plain_closing [OF assms run(1) True] run(1,2) True show ?thesis unfolding sent_within_def by metis
  next
    case False
    then show ?thesis using run by (auto simp: sent_within_def plain_link_def)
  qed
qed

theorem relay_plain_stream_witness:
  "rings_ok small_build small_relay \<and> (\<exists>r' e'. relay_run toy_backend small_build small_events small_relay small_env = Ok (r', e') \<and> rl_closed r' \<and>
    prefix (sk_out (re_work e')) [1] \<and> prefix (sk_out (re_direct e')) [9] \<and>
    (\<exists>evs1 f rb wb evs2 r1 e1. small_events = evs1 @ (f, rb, wb) # evs2 \<and> relay_run toy_backend small_build evs1 small_relay small_env = Ok (r1, e1) \<and>
      (event_trouble small_build f rb wb r1 e1 \<or> sk_out (re_work e') = [1] \<and> sk_out (re_direct e') = [9])))"
proof -
  obtain r' e' where run: "relay_run toy_backend small_build small_events small_relay small_env = Ok (r', e')" "rl_closed r'"
    using small_run [of toy_backend] by blast
  have plain: "\<not> (k_data_encryption small_build \<and> rl_encrypted small_relay)" by simp
  have ends: "ends_known True small_build small_relay small_env"
    by (simp add: ends_known_def small_env_def steady_def small_relay_def Let_def zero_relay_def)
  note all = relay_plain_stream [OF small_ok plain, of toy_backend small_events small_env, unfolded small_streams]
  from all run(1) have pre: "prefix (sk_out (re_work e')) [1]" "prefix (sk_out (re_direct e')) [9]" by auto
  from all run ends obtain evs1 f rb wb evs2 r1 e1 where "small_events = evs1 @ (f, rb, wb) # evs2"
    "relay_run toy_backend small_build evs1 small_relay small_env = Ok (r1, e1)"
    "event_trouble small_build f rb wb r1 e1 \<or> sk_out (re_work e') @ arrives (sk_in (re_direct e')) = [1] \<and>
       sk_out (re_direct e') @ arrives (sk_in (re_work e')) = [9] \<and> sk_in (re_direct e') = [] \<and> sk_in (re_work e') = []" by auto
  then have "\<exists>evs1 f rb wb evs2 r1 e1. small_events = evs1 @ (f, rb, wb) # evs2 \<and> relay_run toy_backend small_build evs1 small_relay small_env = Ok (r1, e1) \<and>
      (event_trouble small_build f rb wb r1 e1 \<or> sk_out (re_work e') = [1] \<and> sk_out (re_direct e') = [9])" by fastforce
  with pre run small_ok show ?thesis by blast
qed

text \<open>
  An unencrypted relay that closes without counting a failed stream has delivered everything:
  with sockets whose input ends only once, the whole stream of each direction has been sent.
\<close>

theorem relay_plain_complete:
  assumes "rings_ok k r" "\<not> (k_data_encryption k \<and> rl_encrypted r)" "0 < CHUNK k"
    and "steady (sk_in (re_direct e))" "steady (sk_in (re_work e))" "\<not> rl_direct_eof r" "\<not> rl_work_eof r"
    and run: "relay_run B k evs r e = Ok (r', e')" "rl_closed r'" "failures e' = failures e" "failures e \<noteq> uint64_max"
  shows "sk_out (re_work e') = upward r e \<and> sk_out (re_direct e') = downward r e"
proof -
  have "plain_link k True (upward r e) (downward r e) r e" using assms by (simp add: plain_link_def ends_known_def)
  from plain.run_orderly [OF this run TrueI] obtain s t where st: "plain_link k True (upward r e) (downward r e) s t"
    "rl_direct_eof s" "rl_work_eof s" "ring_len (rl_to_direct s) = 0" "ring_len (rl_to_work s) = 0"
    "re_direct e' = re_direct t" "re_work e' = re_work t" by blast
  have "ring_contents (rl_to_direct s) = []" "ring_contents (rl_to_work s) = []"
    using st(4,5) by (simp_all flip: length_0_conv)
  then show ?thesis using st(1-3,6,7) unfolding plain_link_def ends_known_def upward_def downward_def
    by (metis append.right_neutral append_Nil arrives.simps(1))
qed

theorem relay_plain_complete_witness:
  "\<exists>r' e'. relay_run toy_backend small_build small_events small_relay small_env = Ok (r', e') \<and>
    sk_out (re_work e') = [1] \<and> sk_out (re_direct e') = [9]"
proof -
  from small_run [of toy_backend] obtain r' e' where run: "relay_run toy_backend small_build small_events small_relay small_env = Ok (r', e')"
    "rl_closed r'" "failures e' = 0" by blast
  have z: "failures small_env = 0" by (simp add: failures_def small_env_def no_metrics_def)
  have "sk_out (re_work e') = upward small_relay small_env \<and> sk_out (re_direct e') = downward small_relay small_env"
    using run z by (intro relay_plain_complete [OF small_ok _ _ _ _ _ _ run(1,2)])
      (simp_all add: small_env_def steady_def small_relay_def Let_def zero_relay_def)
  then show ?thesis using run(1) small_streams by simp
qed

end
