(* ===== verification/Tables.thy ===== *)
theory Tables
  imports Main "HOL-Library.Multiset"
begin

text \<open>
  Fixed arrays with a count, as the server, the client and the event back ends keep them: the lookup
  by a linear scan and the removal that moves the last element into the gap.
\<close>

text \<open>Positions in the arrays stand for the pointers the lookups return.\<close>

fun index_of :: "('a \<Rightarrow> bool) \<Rightarrow> 'a list \<Rightarrow> nat option" where
  "index_of P [] = None"
| "index_of P (x # xs) = (if P x then Some 0 else map_option Suc (index_of P xs))"

text \<open>\<open>array[index] = array[--count]\<close>: the last element takes the place of the removed one.\<close>

definition swap_remove :: "'a list \<Rightarrow> nat \<Rightarrow> 'a list" where
  "swap_remove xs i = butlast (xs[i := last xs])"

lemma index_of_Some: "index_of P xs = Some i \<Longrightarrow> i < length xs \<and> P (xs ! i) \<and> (\<forall>j < i. \<not> P (xs ! j))"
  by (induction xs arbitrary: i) (auto split: if_splits simp: less_Suc_eq_0_disj)

lemma index_of_None: "index_of P xs = None \<longleftrightarrow> (\<forall>x\<in>set xs. \<not> P x)"
  by (induction xs) auto

lemma mset_swap_remove:
  assumes "i < length xs"
  shows "mset xs = add_mset (xs ! i) (mset (swap_remove xs i))"
proof (cases "i = length xs - 1")
  case True
  then have n: "xs ! i = last xs" using assms by (metis last_conv_nth length_0_conv not_less_zero)
  then have "xs[i := last xs] = xs" by (metis list_update_id)
  moreover have "xs = butlast xs @ [last xs]" using assms by (metis append_butlast_last_id length_0_conv not_less_zero)
  ultimately show ?thesis using n by (metis swap_remove_def mset_append union_mset_add_mset_right mset.simps(1,2) add.right_neutral)
next
  case False
  define ys where "ys = butlast xs"
  have xs: "xs = ys @ [last xs]" and i: "i < length ys"
    using assms False by (auto simp: ys_def) (metis append_butlast_last_id length_0_conv not_less_zero)
  have "swap_remove xs i = ys[i := last xs]"
    unfolding swap_remove_def by (subst xs) (use i in \<open>simp add: list_update_append butlast_append\<close>)
  then have "mset (swap_remove xs i) = add_mset (last xs) (mset ys) - {#ys ! i#}" using i by (simp add: mset_update)
  moreover have "ys ! i \<in># mset ys" "xs ! i = ys ! i" using i by (simp_all, subst xs, simp add: nth_append)
  moreover have "mset xs = add_mset (last xs) (mset ys)" by (subst xs) simp
  ultimately show ?thesis by (metis insert_DiffM union_iff add_mset_add_single)
qed

lemma length_swap_remove: "length (swap_remove xs i) = length xs - 1"
  by (simp add: swap_remove_def)

lemma set_swap_remove: "set (swap_remove xs i) \<subseteq> set xs"
proof (cases "i < length xs")
  case True
  then show ?thesis using mset_swap_remove [of i xs] by (metis set_mset_add_mset_insert set_mset_mset subset_insertI)
qed (auto simp: swap_remove_def list_update_beyond dest: in_set_butlastD)

text \<open>An array of distinct keys as a map.\<close>

definition table :: "('a \<Rightarrow> 'k) \<Rightarrow> ('a \<Rightarrow> 'v) \<Rightarrow> 'a list \<Rightarrow> 'k \<rightharpoonup> 'v" where
  "table key val xs = map_of (map (\<lambda>x. (key x, val x)) xs)"

lemma table_None: "table key val xs y = None \<longleftrightarrow> index_of (\<lambda>x. key x = y) xs = None"
  unfolding table_def map_of_eq_None_iff index_of_None by force

lemma table_Some_iff: "distinct (map key xs) \<Longrightarrow> table key val xs y = Some v \<longleftrightarrow> (\<exists>x\<in>set xs. key x = y \<and> val x = v)"
  using map_of_eq_Some_iff [of "map (\<lambda>x. (key x, val x)) xs" y v] by (auto simp: table_def comp_def)

lemma table_simps [simp]:
  "table key val [] = Map.empty"
  "finite (dom (table key val xs))"
  "dom (table key val xs) = key ` set xs"
  by (simp_all add: table_def finite_dom_map_of dom_map_of_conv_image_fst image_image)

lemma table_card: "distinct (map key xs) \<Longrightarrow> card (dom (table key val xs)) = length xs"
  by (metis distinct_card length_map list.set_map table_simps(3))

lemma option_eq_if: "\<forall>v. a = Some v \<longleftrightarrow> b = Some v \<Longrightarrow> a = b"
  by (cases a; cases b) auto

text \<open>Two tables are equal when their entries are.\<close>

lemma table_eqI:
  assumes "distinct (map key xs)" "\<And>y v. m y = Some v \<longleftrightarrow> (\<exists>x\<in>set xs. key x = y \<and> val x = v)"
  shows "table key val xs = m"
  by (rule ext) (rule option_eq_if, simp add: table_Some_iff [OF assms(1)] assms(2))

lemma table_append:
  assumes "distinct (map key xs)" "table key val xs (key x) = None"
  shows "distinct (map key (xs @ [x]))" "table key val (xs @ [x]) = (table key val xs)(key x \<mapsto> val x)"
proof -
  show d: "distinct (map key (xs @ [x]))" using assms by (auto simp: table_None index_of_None)
  show "table key val (xs @ [x]) = (table key val xs)(key x \<mapsto> val x)"
    using d by (intro table_eqI) (auto simp: table_Some_iff [OF assms(1)] image_iff)
qed

lemma distinct_update: "i < length xs \<Longrightarrow> key y = key (xs ! i) \<Longrightarrow> map key (xs[i := y]) = map key xs"
  by (metis list_update_id map_update nth_map)

lemma table_update:
  assumes "distinct (map key xs)" "i < length xs" "key y = key (xs ! i)"
  shows "table key val (xs[i := y]) = (table key val xs)(key y \<mapsto> val y)"
proof -
  have "set (xs[i := y]) = insert y {x \<in> set xs. key x \<noteq> key y}"
  proof (intro set_eqI iffI)
    fix x assume "x \<in> set (xs[i := y])"
    then obtain j where "j < length xs" "x = (if j = i then y else xs ! j)" by (auto simp: in_set_conv_nth nth_list_update)
    moreover have "key (xs ! j) \<noteq> key (xs ! i)" if "j < length xs" "j \<noteq> i" for j
      using that assms(1,2) by (metis length_map nth_eq_iff_index_eq nth_map)
    ultimately show "x \<in> insert y {x \<in> set xs. key x \<noteq> key y}" using assms(3) by auto
  next
    fix x assume "x \<in> insert y {x \<in> set xs. key x \<noteq> key y}"
    then consider "x = y" | j where "j < length xs" "x = xs ! j" "j \<noteq> i" using assms(3) by (auto simp: in_set_conv_nth)
    then show "x \<in> set (xs[i := y])"
      by cases (use assms(2) in \<open>auto simp: set_update_memI in_set_conv_nth nth_list_update\<close>)
  qed
  then show ?thesis
    by (intro table_eqI) (auto simp: table_Some_iff [OF assms(1)] distinct_update [OF assms(2,3)] assms(1))
qed

lemma table_swap_remove:
  assumes "distinct (map key xs)" "i < length xs"
  shows "distinct (map key (swap_remove xs i))" "table key val (swap_remove xs i) = (table key val xs)(key (xs ! i) := None)"
proof -
  have "mset (map key xs) = add_mset (key (xs ! i)) (mset (map key (swap_remove xs i)))"
    using mset_swap_remove [OF assms(2)] by simp
  then have new: "distinct (key (xs ! i) # map key (swap_remove xs i))"
    using assms(1) by (metis mset.simps(2) mset_eq_imp_distinct_iff)
  then show "distinct (map key (swap_remove xs i))" by simp
  have s: "set xs = insert (xs ! i) (set (swap_remove xs i))"
    using mset_swap_remove [OF assms(2)] by (metis set_mset_add_mset_insert set_mset_mset)
  have "((table key val xs)(key (xs ! i) := None)) y = Some v \<longleftrightarrow> (\<exists>x\<in>set (swap_remove xs i). key x = y \<and> val x = v)" for y v
    using new by (cases "y = key (xs ! i)") (auto simp: table_Some_iff [OF assms(1)] s image_iff)
  then show "table key val (swap_remove xs i) = (table key val xs)(key (xs ! i) := None)"
    using new by (intro table_eqI) simp_all
qed

lemma index_of_key:
  assumes "distinct (map key xs)" "i < length xs"
  shows "index_of (\<lambda>x. key x = key (xs ! i)) xs = Some i"
proof (cases "index_of (\<lambda>x. key x = key (xs ! i)) xs")
  case None
  then show ?thesis using assms by (auto simp: index_of_None)
next
  case (Some j)
  then have "j < length xs" "key (xs ! j) = key (xs ! i)" using index_of_Some by blast+
  then show ?thesis using Some assms by (metis length_map nth_eq_iff_index_eq nth_map)
qed

lemma nth_swap_remove: "i < length xs \<Longrightarrow> j < length xs - 1 \<Longrightarrow> swap_remove xs i ! j = (if j = i then last xs else xs ! j)"
  by (simp add: swap_remove_def nth_butlast)

text \<open>Parallel arrays.\<close>

lemma swap_remove_zip:
  assumes "length xs = length ys" "i < length xs"
  shows "zip (swap_remove xs i) (swap_remove ys i) = swap_remove (zip xs ys) i"
proof -
  have "last (zip xs ys) = (last xs, last ys)" using assms by (intro last_zip) auto
  then have "swap_remove (zip xs ys) i = butlast (zip (xs[i := last xs]) (ys[i := last ys]))"
    by (simp only: swap_remove_def zip_update)
  also have "\<dots> = zip (butlast (xs[i := last xs])) (butlast (ys[i := last ys]))"
    using assms(1) by (simp only: butlast_conv_take take_zip length_zip length_list_update min.idem)
  finally show ?thesis by (simp only: swap_remove_def)
qed

lemma index_of_zip: "length xs = length ys \<Longrightarrow> index_of (\<lambda>x. P (fst x)) (zip xs ys) = index_of P xs"
  by (induction rule: list_induct2) auto

end
