(* ===== verification/Server_Peer.thy ===== *)
theory Server_Peer
  imports Relay Binding Handshake Tables
begin

text \<open>
  The state of \<open>src/src/server/server.c\<close>: the peers with their services, work connections, pending and
  starting streams, relays and datagram sessions, the connections that have not authenticated yet,
  and the table that slows down failing addresses; with the lookups and table operations on them.
\<close>

section \<open>State\<close>

text \<open>
  The two arrays of listeners with their counts are lists. A pointer to a service is its index in the
  array of its peer, which only grows while the peer is active.
\<close>

record server_service =
  sr_cfg :: ct_service_config
  sr_listen :: "int list"
  sr_udp :: "int list"

record pending_conn =
  pc_fd :: int
  pc_svc :: nat
  pc_metadata :: ct_stream_metadata
  pc_deadline :: u64

record server_udp_session =
  us_active :: bool
  us_id :: u64
  us_tx_seq :: u64
  us_rx :: window
  us_last_ms :: u64
  us_peer :: ct_endpoint
  us_svc :: nat
  us_listener :: int

record starting_conn =
  st_pending :: pending_conn
  st_work :: ct_work
  st_stream_id :: u64
  st_deadline :: u64
  st_random :: bytes
  st_read_retry :: u64

record incoming_conn =
  in_fd :: int
  in_waiting_for_auth :: bool
  in_deadline :: u64
  in_read_retry :: u64
  in_remote :: bytes
  in_handshake :: ct_server_handshake

record server_peer =
  pe_active :: bool
  pe_fd :: int
  pe_ctl :: ct_control
  pe_auth :: "ct_authorized_client option"
  pe_svc :: "server_service list"
  pe_work :: "ct_work list"
  pe_pending :: "pending_conn list"
  pe_udp :: "server_udp_session list"
  pe_starting :: "starting_conn list"
  pe_relays :: "ct_relay list"
  pe_next_stream :: u64

record auth_rate =
  ra_address :: bytes
  ra_blocked_until :: u64
  ra_failures :: nat

text \<open>
  What the operations act on: the counters, the sockets by descriptor, the descriptors closed so
  far, and the datagrams given to the network (listener, destination, content).
\<close>

record server_env =
  we_metrics :: metrics
  we_socks :: "int \<Rightarrow> sock"
  we_closed :: "int list"
  we_sent :: "(int \<times> ct_endpoint \<times> bytes) list"

text \<open>
  The answers of the operating system during one operation: the clock, \<open>malloc\<close>; for each stream that
  is started its random bytes, the clock and the blocks for its buffers; name lookups for listeners,
  the bound addresses, the results of datagram calls; the peeked bytes and the queue length of a
  connection; accepted connections with their remote addresses; the file system and the random values
  of a handshake.
\<close>

record os =
  os_now :: u64
  os_alloc :: bool
  os_random :: "u64 \<Rightarrow> bytes option"
  os_clock :: "u64 \<Rightarrow> u64"
  os_ring :: "u64 \<Rightarrow> nat \<Rightarrow> bytes option"
  os_listen :: "bytes \<Rightarrow> u16 \<Rightarrow> candidate list option"
  os_udp_bind :: "bytes \<Rightarrow> u16 \<Rightarrow> candidate list option"
  os_bound :: "int \<Rightarrow> sockaddr option"
  os_recvfrom :: "int \<Rightarrow> bool \<times> (sockaddr \<times> bytes) option"
  os_sendto :: "int \<Rightarrow> bool \<times> (sockaddr \<Rightarrow> nat option)"
  os_peek :: "int \<Rightarrow> bool + bytes"
  os_queued :: "int \<Rightarrow> nat option"
  os_accept :: "int \<Rightarrow> int option \<times> bool"
  os_remote :: bytes
  os_peername :: "int \<Rightarrow> sockaddr option"
  os_fs :: fs
  os_secret :: "bytes option"
  os_nonce :: "bytes option"

definition tally :: "(metrics \<Rightarrow> metrics) \<Rightarrow> server_env \<Rightarrow> server_env" where
  "tally f e = e\<lparr>we_metrics := f (we_metrics e)\<rparr>"

definition close_fd :: "int \<Rightarrow> server_env \<Rightarrow> server_env" where
  "close_fd fd e = e\<lparr>we_closed := we_closed e @ [fd]\<rparr>"

definition close_fds :: "int list \<Rightarrow> server_env \<Rightarrow> server_env" where
  "close_fds fds e = e\<lparr>we_closed := we_closed e @ fds\<rparr>"

definition put_sock :: "int \<Rightarrow> sock \<Rightarrow> server_env \<Rightarrow> server_env" where
  "put_sock fd s e = e\<lparr>we_socks := (we_socks e)(fd := s)\<rparr>"

lemma env_simps [simp]:
  "we_closed (tally f e) = we_closed e" "we_sent (tally f e) = we_sent e" "we_socks (tally f e) = we_socks e"
  "we_closed (close_fd fd e) = we_closed e @ [fd]" "we_sent (close_fd fd e) = we_sent e" "we_socks (close_fd fd e) = we_socks e"
  "we_closed (close_fds fds e) = we_closed e @ fds" "we_sent (close_fds fds e) = we_sent e" "we_socks (close_fds fds e) = we_socks e"
  "we_closed (put_sock fd s e) = we_closed e" "we_sent (put_sock fd s e) = we_sent e"
  "we_metrics (put_sock fd s e) = we_metrics e" "we_metrics (close_fd fd e) = we_metrics e" "we_metrics (close_fds fds e) = we_metrics e"
  by (simp_all add: tally_def close_fd_def close_fds_def put_sock_def)

text \<open>The conversion of an \<open>int\<close> to \<open>size_t\<close>.\<close>

definition size_of_int :: "int \<Rightarrow> nat" where
  "size_of_int i = nat (i mod 2 ^ 64)"

text \<open>Sending on the control connection of a peer.\<close>

definition peer_send :: "monocypher \<Rightarrow> autoconf \<Rightarrow> os \<Rightarrow> server_peer \<Rightarrow> server_env \<Rightarrow> u8 \<Rightarrow> u64 \<Rightarrow> bytes \<Rightarrow> nat \<Rightarrow>
    bool \<times> server_peer \<times> server_env" where
  "peer_send B k os p e type stream payload ms =
     (let (ok, c, s) = ct_control_send B k (os_alloc os) (os_now os) (pe_ctl p) (we_socks e (pe_fd p)) type stream payload ms
      in (ok, p\<lparr>pe_ctl := c\<rparr>, put_sock (pe_fd p) s e))"

text \<open>
  Opening the listeners of an address, each family that is compiled in: the descriptors opened (none
  is a failure) and those that failed attempts closed.
\<close>

fun open_any :: "(candidate list option \<Rightarrow> int option \<times> int list) \<Rightarrow> (candidate list option \<times> bool) list \<Rightarrow> int list \<times> int list" where
  "open_any opener [] = ([], [])"
| "open_any opener ((answer, enabled) # rest) =
     (let (fd, cl) = (if enabled then opener answer else (None, [])); (fds, closed) = open_any opener rest
      in (case fd of None \<Rightarrow> fds | Some f \<Rightarrow> f # fds, cl @ closed))"

definition open_address :: "(candidate list option \<Rightarrow> int option \<times> int list) \<Rightarrow> autoconf \<Rightarrow> (bytes \<Rightarrow> candidate list option) \<Rightarrow> bytes \<Rightarrow>
    int list \<times> int list" where
  "open_address opener k answers addr =
     (if addr = lit ''*'' then open_any opener [(answers (lit ''0.0.0.0''), k_ipv4 k), (answers (lit ''::''), k_ipv6 k)]
      else open_any opener [(answers addr, True)])"

section \<open>Failing addresses\<close>

text \<open>The index of the slot for an address and the table with that slot prepared.\<close>

fun rate_scan :: "auth_rate list \<Rightarrow> bytes \<Rightarrow> nat \<Rightarrow> nat option \<Rightarrow> nat \<times> u64 \<Rightarrow> nat + nat" where
  "rate_scan [] address i free oldest = Inr (case free of Some j \<Rightarrow> j | None \<Rightarrow> fst oldest)"
| "rate_scan (r # rs) address i free oldest =
     (if ra_address r = address then Inl i
      else rate_scan rs address (Suc i) (if ra_address r = [] \<and> free = None then Some i else free)
        (if ra_blocked_until r < snd oldest then (i, ra_blocked_until r) else oldest))"

text \<open>\<open>snprintf\<close> into the address array.\<close>

definition auth_rate_slot :: "autoconf \<Rightarrow> auth_rate list \<Rightarrow> bytes \<Rightarrow> (nat \<times> auth_rate list) res" where
  "auth_rate_slot k rates address =
     (case rates of
        [] \<Rightarrow> Fault
      | r0 # _ \<Rightarrow>
          (case rate_scan rates address 0 None (0, ra_blocked_until r0) of
             Inl i \<Rightarrow> Ok (i, rates)
           | Inr i \<Rightarrow> Ok (i, rates[i := \<lparr>ra_address = take (k_max_addr k) address, ra_blocked_until = 0, ra_failures = 0\<rparr>])))"

definition auth_rate_failed :: "auth_rate \<Rightarrow> u64 \<Rightarrow> auth_rate" where
  "auth_rate_failed r now =
     (let n = (if ra_failures r < 5 then ra_failures r + 1 else ra_failures r)
      in r\<lparr>ra_failures := n, ra_blocked_until := now + push_bit n 1 * 500\<rparr>)"

section \<open>Connections that have not authenticated\<close>

definition find_incoming :: "incoming_conn list \<Rightarrow> int \<Rightarrow> nat option" where
  "find_incoming incoming fd = index_of (\<lambda>c. in_fd c = fd) incoming"

definition incoming_for_remote :: "incoming_conn list \<Rightarrow> bytes \<Rightarrow> nat" where
  "incoming_for_remote incoming remote = length (filter (\<lambda>c. in_remote c = remote) incoming)"

definition remove_incoming :: "incoming_conn list \<Rightarrow> nat \<Rightarrow> bool \<Rightarrow> server_env \<Rightarrow> incoming_conn list \<times> server_env" where
  "remove_incoming incoming i close_socket e =
     (swap_remove incoming i, if close_socket then close_fd (in_fd (incoming ! i)) e else e)"

section \<open>Lookups\<close>

definition find_session :: "server_peer list \<Rightarrow> u64 \<Rightarrow> nat option" where
  "find_session peers sid = index_of (\<lambda>p. pe_active p \<and> session_id (cc_keys (pe_ctl p)) = sid) peers"

definition find_service :: "server_peer \<Rightarrow> bytes \<Rightarrow> nat option" where
  "find_service p service = index_of (\<lambda>s. sv_id (sr_cfg s) = service) (pe_svc p)"

definition active_streams :: "server_peer \<Rightarrow> nat" where
  "active_streams p = length (pe_pending p) + length (pe_starting p) + length (filter (\<lambda>r. \<not> rl_closed r) (pe_relays p))"

definition find_starting :: "server_peer \<Rightarrow> int \<Rightarrow> nat option" where
  "find_starting p work = index_of (\<lambda>s. wk_fd (st_work s) = work) (pe_starting p)"

definition remove_starting :: "server_peer \<Rightarrow> nat \<Rightarrow> bool \<Rightarrow> server_env \<Rightarrow> server_peer \<times> server_env" where
  "remove_starting p i close_sockets e =
     (p\<lparr>pe_starting := swap_remove (pe_starting p) i\<rparr>,
      if close_sockets
      then close_fd (wk_fd (st_work (pe_starting p ! i))) (close_fd (pc_fd (st_pending (pe_starting p ! i))) e)
      else e)"

text \<open>A service through its index; an index outside the array is a dangling pointer.\<close>

definition svc_at :: "server_peer \<Rightarrow> nat \<Rightarrow> server_service res" where
  "svc_at p i = (if i < length (pe_svc p) then Ok (pe_svc p ! i) else Fault)"

end
