(* ===== verification/Server_Udp.thy ===== *)
theory Server_Udp
  imports Server_Peer
begin

text \<open>
  The datagram sessions of \<open>src/src/server/server.c\<close>: a session per external sender and service,
  datagrams from the network to the client and back, expiry; and the invariants of the session table.
\<close>

section \<open>Sessions\<close>

text \<open>The listeners opened, none on failure, and the descriptors the attempts closed.\<close>

definition udp_set_open :: "autoconf \<Rightarrow> os \<Rightarrow> bytes \<Rightarrow> u16 \<Rightarrow> int list \<times> int list" where
  "udp_set_open k os addr p = open_address ct_udp_bind k (\<lambda>a. os_udp_bind os a p) addr"

fun first_udp :: "(server_udp_session \<Rightarrow> bool res) \<Rightarrow> server_udp_session list \<Rightarrow> nat option res" where
  "first_udp P [] = Ok None"
| "first_udp P (u # us) = andthen (P u) (\<lambda>b. if b then Ok (Some 0) else andthen (first_udp P us) (\<lambda>r. Ok (map_option Suc r)))"

definition server_udp_find :: "server_peer \<Rightarrow> nat \<Rightarrow> ct_endpoint \<Rightarrow> nat option res" where
  "server_udp_find p svc peer =
     first_udp (\<lambda>u. if us_active u \<and> us_svc u = svc then endpoint_equal (us_peer u) peer else Ok False) (pe_udp p)"

definition server_udp_find_id :: "server_peer \<Rightarrow> u64 \<Rightarrow> nat option" where
  "server_udp_find_id p sid = index_of (\<lambda>u. us_active u \<and> us_id u = sid) (pe_udp p)"

text \<open>\<open>++next_stream\<close>, once more when it wrapped to zero.\<close>

definition next_id :: "u64 \<Rightarrow> u64" where
  "next_id n = (if n + 1 = 0 then n + 2 else n + 1)"

definition server_udp_create ::
  "server_peer \<Rightarrow> nat \<Rightarrow> ct_endpoint \<Rightarrow> int \<Rightarrow> u64 \<Rightarrow> server_env \<Rightarrow> (nat option \<times> server_peer \<times> server_env) res" where
  "server_udp_create p svc peer listener now e =
     andthen (svc_at p svc) (\<lambda>s.
     let rejected = tally (ct_metric_inc CT_METRIC_UDP_SESSIONS_REJECTED_TOTAL) e in
     if length (filter us_active (pe_udp p)) \<ge> size_of_int (sv_udp_max_sessions (sr_cfg s)) then Ok (None, p, rejected)
     else case index_of (\<lambda>u. \<not> us_active u) (pe_udp p) of
       None \<Rightarrow> Ok (None, p, rejected)
     | Some i \<Rightarrow>
         let sid = next_id (pe_next_stream p) in
         Ok (Some i,
             p\<lparr>pe_next_stream := sid,
               pe_udp := (pe_udp p)[i := \<lparr>us_active = True, us_id = sid, us_tx_seq = 0, us_rx = (0, 0), us_last_ms = now,
                 us_peer = peer, us_svc = svc, us_listener = listener\<rparr>]\<rparr>,
             tally (ct_metric_inc CT_METRIC_UDP_SESSIONS_CREATED_TOTAL \<circ> ct_metric_inc CT_METRIC_UDP_SESSIONS_ACTIVE) e))"

section \<open>Datagrams\<close>

text \<open>From an external sender to the client; \<open>False\<close> is the return value -1.\<close>

definition server_udp_from_external ::
  "monocypher \<Rightarrow> autoconf \<Rightarrow> os \<Rightarrow> server_peer \<Rightarrow> nat \<Rightarrow> int \<Rightarrow> u64 \<Rightarrow> server_env \<Rightarrow> (bool \<times> server_peer \<times> server_env) res" where
  "server_udp_from_external B k os p svc listener now e =
     (let dropped = tally (ct_metric_inc CT_METRIC_UDP_DATAGRAMS_DROPPED_TOTAL) in
      case ct_udp_recv k (k_max_udp_datagram k) (fst (os_recvfrom os listener)) (snd (os_recvfrom os listener)) of
        Fault \<Rightarrow> Fault
      | Err \<Rightarrow> Ok (False, p, e)
      | Ok Would_block \<Rightarrow> Ok (True, p, e)
      | Ok (Datagram peer payload) \<Rightarrow>
          andthen (svc_at p svc) (\<lambda>s.
          if length payload > size_of_int (sv_udp_max_datagram_size (sr_cfg s))
          then Ok (True, p, dropped (tally (ct_metric_inc CT_METRIC_UDP_DATAGRAMS_OVERSIZED_TOTAL) e))
          else
            andthen (server_udp_find p svc peer) (\<lambda>found.
            andthen (case found of Some i \<Rightarrow> Ok (Some i, p, e) | None \<Rightarrow> server_udp_create p svc peer listener now e) (\<lambda>(slot, p1, e1).
            case slot of
              None \<Rightarrow> Ok (True, p1, dropped e1)
            | Some i \<Rightarrow>
                let u = pe_udp p1 ! i;
                    seq = us_tx_seq u + 1;
                    p2 = p1\<lparr>pe_udp := (pe_udp p1)[i := u\<lparr>us_last_ms := now, us_tx_seq := seq\<rparr>]\<rparr>
                in case udp_pack k (k_control_buffer k) [] 0 (us_id u) seq (sv_id (sr_cfg s)) peer payload of
                     Fault \<Rightarrow> Fault
                   | Err \<Rightarrow> Ok (False, p2, dropped e1)
                   | Ok frame \<Rightarrow>
                       let (ok, p3, e2) = peer_send B k os p2 e1 CT_MSG_UDP_DATAGRAM (us_id u) frame 5000 in
                       if ok then Ok (True, p3, tally (ct_metric_add CT_METRIC_UDP_BYTES_C2S_TOTAL (of_nat (length payload)) \<circ>
                         ct_metric_inc CT_METRIC_UDP_DATAGRAMS_C2S_TOTAL) e2)
                       else Ok (False, p3, dropped e2)))))"

definition server_udp_from_client ::
  "autoconf \<Rightarrow> os \<Rightarrow> server_peer \<Rightarrow> bytes \<Rightarrow> u64 \<Rightarrow> server_env \<Rightarrow> (bool \<times> server_peer \<times> server_env) res" where
  "server_udp_from_client k os p payload now e =
     (let dropped = tally (ct_metric_inc CT_METRIC_UDP_DATAGRAMS_DROPPED_TOTAL) in
      case udp_unpack payload (length payload) (k_max_service_id k + 1) of
        Fault \<Rightarrow> Fault
      | Err \<Rightarrow> Ok (False, p, dropped e)
      | Ok (direction, sid, seq, service, peer, datagram) \<Rightarrow>
          if direction \<noteq> 1 then Ok (False, p, dropped e)
          else case server_udp_find_id p sid of
            None \<Rightarrow> Ok (True, p, dropped e)
          | Some i \<Rightarrow>
              let u = pe_udp p ! i in
              andthen (svc_at p (us_svc u)) (\<lambda>s.
              andthen (if sv_id (sr_cfg s) \<noteq> cstr service then Ok False else endpoint_equal (us_peer u) peer) (\<lambda>same.
              if \<not> same then Ok (True, p, dropped e)
              else case udp_replay_accept (k_udp_replay_window k) (us_rx u) seq of
                Fault \<Rightarrow> Fault
              | Err \<Rightarrow> Ok (True, p, tally (ct_metric_inc CT_METRIC_UDP_REPLAY_DROPPED_TOTAL) e)
              | Ok w \<Rightarrow>
                  let p1 = p\<lparr>pe_udp := (pe_udp p)[i := u\<lparr>us_rx := w, us_last_ms := now\<rparr>]\<rparr>;
                      (wb, answer) = os_sendto os (us_listener u) in
                  (case ct_udp_send k (us_peer u) datagram wb answer of
                     Fault \<Rightarrow> Fault
                   | Err \<Rightarrow> Ok (False, p1, tally (ct_metric_inc CT_METRIC_UDP_LOCAL_SEND_FAILURES_TOTAL) e)
                   | Ok sent \<Rightarrow>
                       Ok (True, p1, tally (ct_metric_add CT_METRIC_UDP_BYTES_S2C_TOTAL (of_nat (length datagram)) \<circ>
                         ct_metric_inc CT_METRIC_UDP_DATAGRAMS_S2C_TOTAL)
                         (if sent then e\<lparr>we_sent := we_sent e @ [(us_listener u, us_peer u, datagram)]\<rparr> else e))))))"

definition zero_session :: server_udp_session where
  "zero_session = \<lparr>us_active = False, us_id = 0, us_tx_seq = 0, us_rx = (0, 0), us_last_ms = 0,
     us_peer = \<lparr>ep_family = 0, ep_addr = replicate 16 0, ep_port = 0\<rparr>, us_svc = 0, us_listener = 0\<rparr>"

fun expire_sessions :: "server_peer \<Rightarrow> u64 \<Rightarrow> server_udp_session list \<Rightarrow> server_env \<Rightarrow> (server_udp_session list \<times> server_env) res" where
  "expire_sessions p now [] e = Ok ([], e)"
| "expire_sessions p now (u # us) e =
     andthen (if us_active u
       then andthen (svc_at p (us_svc u)) (\<lambda>s.
         Ok (now - us_last_ms u > of_int (sv_udp_idle_timeout (sr_cfg s)) * 1000)) else Ok False) (\<lambda>expired.
     andthen (expire_sessions p now us
       (if expired then tally (ct_metric_inc CT_METRIC_UDP_SESSIONS_EXPIRED_TOTAL \<circ> ct_metric_dec CT_METRIC_UDP_SESSIONS_ACTIVE) e
        else e)) (\<lambda>(us', e').
     Ok ((if expired then zero_session else u) # us', e')))"

definition server_udp_expire :: "server_peer \<Rightarrow> u64 \<Rightarrow> server_env \<Rightarrow> (server_peer \<times> server_env) res" where
  "server_udp_expire p now e =
     andthen (expire_sessions p now (pe_udp p) e) (\<lambda>(us, e'). Ok (p\<lparr>pe_udp := us\<rparr>, e'))"

section \<open>No faults\<close>

lemma endpoint_equal_ok: "endpoint_ok a \<Longrightarrow> endpoint_ok b \<Longrightarrow> endpoint_equal a b = Ok (a = b)"
proof -
  assume ok: "endpoint_ok a" "endpoint_ok b"
  let ?n = "address_length (ep_family a)"
  have n: "?n \<noteq> 0" "?n \<le> 16" "length (ep_addr a) = 16" "length (ep_addr b) = 16"
    using ok address_length_le by (auto simp: endpoint_ok_def)
  have eq: "a = b" if "ep_family a = ep_family b" "ep_port a = ep_port b" "take ?n (ep_addr a) = take ?n (ep_addr b)"
    using that ok by (metis endpoint_ok_def ct_endpoint.equality old.unit.exhaust)
  show ?thesis
    using n eq by (auto simp: endpoint_equal_def Let_def rd_def address_length_def split: if_splits)
qed

lemma from_sockaddr_ok: "endpoint_from_sockaddr k sa = Ok ep \<Longrightarrow> endpoint_ok ep"
proof -
  have p: "pad16 (take n (pad16 (take n a))) = pad16 (take n a)" "length (pad16 (take n a)) = 16" if "n \<le> 16" for n and a :: bytes
    using that by (simp_all add: pad16_def min_def flip: replicate_add)
  assume "endpoint_from_sockaddr k sa = Ok ep"
  then show ?thesis using p [of 4] p [of 16] by (cases sa) (auto simp: endpoint_ok_def address_length_def split: if_splits)
qed

lemma first_udp_total:
  assumes "\<forall>u\<in>set us. \<exists>b. P u = Ok b"
  shows "first_udp P us = Ok (index_of (\<lambda>u. P u = Ok True) us)"
  using assms by (induction us) (auto split: if_splits)

lemma send_no_fault: "endpoint_ok ep \<Longrightarrow> ct_udp_send k ep d wb answer \<noteq> Fault"
  by (auto simp: ct_udp_send_def sockaddr_from_endpoint_def endpoint_ok_def rd_def andthen_def address_length_def
      split: if_splits option.splits)

lemma unpack_no_fault: "udp_unpack b (length b) (k_max_service_id (k :: autoconf) + 1) \<noteq> Fault"
  using datagram_unpack_no_fault [of "length b" b k] unfolding udp_unpack_eq
  by (cases "ct_udp_datagram_unpack k b (length b)") simp_all

lemma pack_no_fault: "endpoint_ok peer \<Longrightarrow> udp_pack k cap [] d sid seq service peer payload \<noteq> Fault"
  by (auto simp: udp_pack_def emits_eq ct_pack_string_def endpoint_encode_eq Let_def ensure_def andthen_def split: if_splits res.splits)

lemma replay_no_fault: "n \<le> 64 \<Longrightarrow> udp_replay_accept n w seq \<noteq> Fault"
  by (auto simp: udp_replay_accept_def Let_def split: prod.splits)

section \<open>The session table\<close>

definition udp_inv :: "autoconf \<Rightarrow> server_peer \<Rightarrow> bool" where
  "udp_inv k p \<longleftrightarrow> length (pe_udp p) = k_max_udp_sessions k \<and>
     (\<forall>u\<in>set (pe_udp p). us_active u \<longrightarrow> us_svc u < length (pe_svc p) \<and> endpoint_ok (us_peer u) \<and>
        us_id u \<noteq> 0 \<and> us_id u \<le> pe_next_stream p) \<and>
     distinct (map us_id (filter us_active (pe_udp p))) \<and>
     distinct (map (\<lambda>u. (us_svc u, us_peer u)) (filter us_active (pe_udp p)))"

text \<open>The pairs of listener and sender that active sessions stand for.\<close>

definition udp_routes :: "server_peer \<Rightarrow> (int \<times> ct_endpoint) set" where
  "udp_routes p = {(us_listener u, us_peer u) |u. u \<in> set (pe_udp p) \<and> us_active u}"

lemma filter_update_inactive:
  assumes "i < length xs" "\<not> P (xs ! i)" "P u"
  shows "mset (filter P (xs[i := u])) = add_mset u (mset (filter P xs))"
proof -
  have "mset (xs[i := u]) = add_mset u (mset xs - {#xs ! i#})" using assms(1) by (simp add: mset_update)
  moreover have "filter_mset P (mset xs - {#xs ! i#}) = filter_mset P (mset xs)"
    using assms(2) by (simp add: filter_diff_mset)
  ultimately show ?thesis using assms(3) by simp
qed

lemma map_filter_update:
  assumes "i < length xs" "P (xs ! i) = P u" "f u = f (xs ! i)"
  shows "map f (filter P (xs[i := u])) = map f (filter P xs)"
  using assms by (subst (2) id_take_nth_drop [OF assms(1)]) (simp add: upd_conv_take_nth_drop)

text \<open>An active session may change everything but its identity.\<close>

lemma udp_inv_touch:
  assumes "udp_inv k p" "i < length (pe_udp p)" "us_active (pe_udp p ! i)" "us_active u" "us_id u = us_id (pe_udp p ! i)"
    "us_svc u = us_svc (pe_udp p ! i)" "us_peer u = us_peer (pe_udp p ! i)" "us_listener u = us_listener (pe_udp p ! i)"
  shows "udp_inv k (p\<lparr>pe_udp := (pe_udp p)[i := u]\<rparr>)" "udp_routes (p\<lparr>pe_udp := (pe_udp p)[i := u]\<rparr>) \<subseteq> udp_routes p"
proof -
  let ?v = "pe_udp p ! i"
  have v: "?v \<in> set (pe_udp p)" using assms(2) by simp
  have sub: "x \<in> set (pe_udp p) \<or> x = u" if "x \<in> set ((pe_udp p)[i := u])" for x
    using that set_update_subset_insert [of "pe_udp p" i u] by blast
  have ok: "us_svc ?v < length (pe_svc p) \<and> endpoint_ok (us_peer ?v) \<and> us_id ?v \<noteq> 0 \<and> us_id ?v \<le> pe_next_stream p"
    using assms(1,3) v by (simp add: udp_inv_def)
  have "map us_id (filter us_active ((pe_udp p)[i := u])) = map us_id (filter us_active (pe_udp p))"
    "map (\<lambda>u. (us_svc u, us_peer u)) (filter us_active ((pe_udp p)[i := u])) = map (\<lambda>u. (us_svc u, us_peer u)) (filter us_active (pe_udp p))"
    using assms(2-) by (intro map_filter_update; simp)+
  moreover have "\<forall>x\<in>set ((pe_udp p)[i := u]). us_active x \<longrightarrow> us_svc x < length (pe_svc p) \<and> endpoint_ok (us_peer x) \<and>
      us_id x \<noteq> 0 \<and> us_id x \<le> pe_next_stream p"
    using sub ok assms(1,5-7) unfolding udp_inv_def by metis
  ultimately show "udp_inv k (p\<lparr>pe_udp := (pe_udp p)[i := u]\<rparr>)" using assms(1) by (simp add: udp_inv_def)
  show "udp_routes (p\<lparr>pe_udp := (pe_udp p)[i := u]\<rparr>) \<subseteq> udp_routes p"
  proof
    fix r
    assume "r \<in> udp_routes (p\<lparr>pe_udp := (pe_udp p)[i := u]\<rparr>)"
    then obtain x where x: "r = (us_listener x, us_peer x)" "x \<in> set ((pe_udp p)[i := u])" "us_active x" by (auto simp: udp_routes_def)
    show "r \<in> udp_routes p"
    proof (cases "x = u")
      case True
      then have "r = (us_listener ?v, us_peer ?v)" using x(1) assms(7,8) by simp
      then show ?thesis using v assms(3) by (auto simp: udp_routes_def)
    qed (use x sub in \<open>auto simp: udp_routes_def\<close>)
  qed
qed

lemma udp_inv_ctl [simp]: "udp_inv k (p\<lparr>pe_ctl := c\<rparr>) = udp_inv k p" "udp_routes (p\<lparr>pe_ctl := c\<rparr>) = udp_routes p"
  by (simp_all add: udp_inv_def udp_routes_def)

lemma next_id_mono:
  assumes "n \<noteq> uint64_max"
  shows "next_id n = n + 1" "n < next_id n" "next_id n \<noteq> 0" "unat (next_id n) = unat n + 1"
proof -
  have "n = - 1" if "n + 1 = 0" using that by (simp add: eq_neg_iff_add_eq_0)
  moreover have "(- 1 :: u64) = uint64_max" by simp
  ultimately have "n + 1 \<noteq> 0" using assms by metis
  then show "next_id n = n + 1" "next_id n \<noteq> 0" by (simp_all add: next_id_def)
  show u: "unat (next_id n) = unat n + 1" using \<open>n + 1 \<noteq> 0\<close> using unatSuc [of n] by (simp add: next_id_def add.commute)
  then show "n < next_id n" by (simp add: word_less_nat_alt)
qed

section \<open>The operations keep the table\<close>

definition same_table :: "server_peer \<Rightarrow> server_peer \<Rightarrow> bool" where
  "same_table p p' \<longleftrightarrow> pe_svc p' = pe_svc p \<and> unat (pe_next_stream p') \<le> unat (pe_next_stream p) + 1"

lemma find_law:
  assumes "udp_inv k p" "endpoint_ok peer"
  shows "\<exists>r. server_udp_find p svc peer = Ok r \<and>
    (case r of Some i \<Rightarrow> i < length (pe_udp p) \<and> us_active (pe_udp p ! i)
     | None \<Rightarrow> \<forall>u\<in>set (pe_udp p). us_active u \<longrightarrow> (us_svc u, us_peer u) \<noteq> (svc, peer))"
proof -
  let ?P = "\<lambda>u. if us_active u \<and> us_svc u = svc then endpoint_equal (us_peer u) peer else Ok False"
  have eq: "?P u = Ok (us_active u \<and> us_svc u = svc \<and> us_peer u = peer)" if "u \<in> set (pe_udp p)" for u
    using that assms unfolding udp_inv_def by (auto simp: endpoint_equal_ok)
  have r: "server_udp_find p svc peer = Ok (index_of (\<lambda>u. ?P u = Ok True) (pe_udp p))"
    unfolding server_udp_find_def by (rule first_udp_total) (use eq in blast)
  show ?thesis
  proof (cases "index_of (\<lambda>u. ?P u = Ok True) (pe_udp p)")
    case None
    then have "\<forall>u\<in>set (pe_udp p). \<not> (us_active u \<and> us_svc u = svc \<and> us_peer u = peer)"
      using eq unfolding index_of_None by simp
    then show ?thesis using r None by auto
  next
    case (Some i)
    from index_of_Some [OF this] have "i < length (pe_udp p)" "?P (pe_udp p ! i) = Ok True" by blast+
    then show ?thesis using r Some eq [of "pe_udp p ! i"] by auto
  qed
qed

lemma create_law:
  assumes inv: "udp_inv k p" and svc: "svc < length (pe_svc p)" and ep: "endpoint_ok peer" and n: "pe_next_stream p \<noteq> uint64_max"
    and new: "\<forall>u\<in>set (pe_udp p). us_active u \<longrightarrow> (us_svc u, us_peer u) \<noteq> (svc, peer)"
  shows "\<exists>slot p' e'. server_udp_create p svc peer listener now e = Ok (slot, p', e') \<and> udp_inv k p' \<and> same_table p p' \<and>
    we_sent e' = we_sent e \<and> udp_routes p' \<subseteq> insert (listener, peer) (udp_routes p) \<and>
    (\<forall>i. slot = Some i \<longrightarrow> i < length (pe_udp p') \<and> us_active (pe_udp p' ! i))"
proof -
  let ?s = "pe_svc p ! svc"
  consider (rejected) e' where "server_udp_create p svc peer listener now e = Ok (None, p, e')" "we_sent e' = we_sent e"
    | (created) i where "index_of (\<lambda>u. \<not> us_active u) (pe_udp p) = Some i"
      "\<not> length (filter us_active (pe_udp p)) \<ge> size_of_int (sv_udp_max_sessions (sr_cfg ?s))"
    using svc by (cases "index_of (\<lambda>u. \<not> us_active u) (pe_udp p)"; cases "length (filter us_active (pe_udp p)) \<ge> size_of_int (sv_udp_max_sessions (sr_cfg ?s))")
      (auto simp: server_udp_create_def svc_at_def Let_def)
  then show ?thesis
  proof cases
    case rejected
    then show ?thesis using inv by (auto simp: same_table_def)
  next
    case created
    define u where "u = \<lparr>us_active = True, us_id = next_id (pe_next_stream p), us_tx_seq = 0, us_rx = (0, 0), us_last_ms = now,
      us_peer = peer, us_svc = svc, us_listener = listener\<rparr>"
    let ?p = "p\<lparr>pe_next_stream := next_id (pe_next_stream p), pe_udp := (pe_udp p)[i := u]\<rparr>"
    from index_of_Some [OF created(1)] have i: "i < length (pe_udp p)" "\<not> us_active (pe_udp p ! i)" by auto
    note nx = next_id_mono [OF n]
    have ms: "mset (filter us_active ((pe_udp p)[i := u])) = add_mset u (mset (filter us_active (pe_udp p)))"
      using filter_update_inactive [of i "pe_udp p" us_active u, OF i] by (simp add: u_def)
    have d: "distinct (map f (filter us_active ((pe_udp p)[i := u])))"
      if "distinct (map f (filter us_active (pe_udp p)))" "\<forall>x\<in>set (pe_udp p). us_active x \<longrightarrow> f x \<noteq> f u" for f :: "server_udp_session \<Rightarrow> 'b"
    proof -
      have "mset (map f (filter us_active ((pe_udp p)[i := u]))) = mset (map f (u # filter us_active (pe_udp p)))"
        using ms by simp
      moreover have "distinct (map f (u # filter us_active (pe_udp p)))" using that by force
      ultimately show ?thesis by (metis mset_eq_imp_distinct_iff)
    qed
    have old: "us_id x < next_id (pe_next_stream p)" if "x \<in> set (pe_udp p)" "us_active x" for x
      using inv that nx(2) unfolding udp_inv_def by (meson le_less_trans)
    have "udp_inv k ?p" unfolding udp_inv_def
    proof (intro conjI)
      show "\<forall>x\<in>set (pe_udp ?p). us_active x \<longrightarrow> us_svc x < length (pe_svc ?p) \<and> endpoint_ok (us_peer x) \<and> us_id x \<noteq> 0 \<and>
          us_id x \<le> pe_next_stream ?p"
      proof (intro ballI impI)
        fix x assume "x \<in> set (pe_udp ?p)" "us_active x"
        then consider "x = u" | "x \<in> set (pe_udp p)" using set_update_subset_insert [of "pe_udp p" i u] by auto
        then show "us_svc x < length (pe_svc ?p) \<and> endpoint_ok (us_peer x) \<and> us_id x \<noteq> 0 \<and> us_id x \<le> pe_next_stream ?p"
          using inv \<open>us_active x\<close> svc ep nx old [of x] by cases (auto simp: u_def udp_inv_def)
      qed
      show "distinct (map us_id (filter us_active (pe_udp ?p)))"
        using inv old d [of us_id] by (fastforce simp: udp_inv_def u_def)
      show "distinct (map (\<lambda>u. (us_svc u, us_peer u)) (filter us_active (pe_udp ?p)))"
        using inv new d [of "\<lambda>u. (us_svc u, us_peer u)"] by (auto simp: udp_inv_def u_def)
    qed (use inv in \<open>simp add: udp_inv_def\<close>)
    moreover have "udp_routes ?p \<subseteq> insert (listener, peer) (udp_routes p)"
      using set_update_subset_insert [of "pe_udp p" i u] by (auto simp: udp_routes_def u_def)
    moreover have "server_udp_create p svc peer listener now e = Ok (Some i, ?p,
        tally (ct_metric_inc CT_METRIC_UDP_SESSIONS_CREATED_TOTAL \<circ> ct_metric_inc CT_METRIC_UDP_SESSIONS_ACTIVE) e)"
      using created svc by (simp add: server_udp_create_def svc_at_def Let_def u_def)
    moreover have "same_table p ?p" using nx(4) by (simp add: same_table_def)
    ultimately show ?thesis using i(1) by (auto simp: u_def)
  qed
qed

text \<open>The senders an operation hears on a listener.\<close>

definition heard :: "autoconf \<Rightarrow> os \<Rightarrow> int \<Rightarrow> (int \<times> ct_endpoint) set" where
  "heard k os fd = {(fd, ep) |sa d ep. snd (os_recvfrom os fd) = Some (sa, d) \<and> endpoint_from_sockaddr k sa = Ok ep}"

lemma peer_send_frame:
  "peer_send B k os p e type stream payload ms = (ok, p', e') \<Longrightarrow> \<exists>c s. p' = p\<lparr>pe_ctl := c\<rparr> \<and> e' = put_sock (pe_fd p) s e"
  by (auto simp: peer_send_def split: prod.splits)

lemma external_law:
  assumes inv: "udp_inv k p" and svc: "svc < length (pe_svc p)" and n: "pe_next_stream p \<noteq> uint64_max"
  shows "\<exists>ok p' e'. server_udp_from_external B k os p svc listener now e = Ok (ok, p', e') \<and> udp_inv k p' \<and> same_table p p' \<and>
    we_sent e' = we_sent e \<and> udp_routes p' \<subseteq> udp_routes p \<union> heard k os listener"
proof (cases "ct_udp_recv k (k_max_udp_datagram k) (fst (os_recvfrom os listener)) (snd (os_recvfrom os listener))")
  case (Ok io)
  note recv = this
  show ?thesis
  proof (cases io)
    case (Datagram peer payload)
    then have h: "(listener, peer) \<in> heard k os listener" and ep: "endpoint_ok peer"
      using Ok by (auto simp: ct_udp_recv_def heard_def res_simps dest: from_sockaddr_ok split: option.splits if_splits)
    let ?s = "pe_svc p ! svc"
    show ?thesis
    proof (cases "length payload > size_of_int (sv_udp_max_datagram_size (sr_cfg ?s))")
      case True
      then show ?thesis using Ok Datagram svc inv by (auto simp: server_udp_from_external_def svc_at_def same_table_def)
    next
      case False
      from find_law [OF inv ep, of svc] obtain found where
        f: "server_udp_find p svc peer = Ok found"
          "\<And>i. found = Some i \<Longrightarrow> i < length (pe_udp p) \<and> us_active (pe_udp p ! i)"
          "found = None \<Longrightarrow> \<forall>u\<in>set (pe_udp p). us_active u \<longrightarrow> (us_svc u, us_peer u) \<noteq> (svc, peer)"
        by (auto split: option.splits)
      obtain slot p1 e1 where
        c: "(case found of Some i \<Rightarrow> Ok (Some i, p, e) | None \<Rightarrow> server_udp_create p svc peer listener now e) = Ok (slot, p1, e1)"
          "udp_inv k p1" "same_table p p1" "we_sent e1 = we_sent e" "udp_routes p1 \<subseteq> insert (listener, peer) (udp_routes p)"
          "\<And>i. slot = Some i \<Longrightarrow> i < length (pe_udp p1) \<and> us_active (pe_udp p1 ! i)"
      proof (cases found)
        case None
        from create_law [OF inv svc ep n f(3) [OF None], of listener now e] obtain a b d where
          cr: "server_udp_create p svc peer listener now e = Ok (a, b, d)" "udp_inv k b" "same_table p b" "we_sent d = we_sent e"
            "udp_routes b \<subseteq> insert (listener, peer) (udp_routes p)" "\<forall>i. a = Some i \<longrightarrow> i < length (pe_udp b) \<and> us_active (pe_udp b ! i)" by blast
        show thesis by (rule that [of a b d]) (use cr None in auto)
      next
        case (Some i)
        show thesis by (rule that [of "Some i" p e]) (use Some f(2) inv in \<open>auto simp: same_table_def\<close>)
      qed
      have routes: "udp_routes p1 \<subseteq> udp_routes p \<union> heard k os listener" using c(5) h by blast
      show ?thesis
      proof (cases slot)
        case None
        then show ?thesis using Ok Datagram svc False f(1) c routes by (auto simp: server_udp_from_external_def svc_at_def)
      next
        case (Some i)
        let ?u = "pe_udp p1 ! i"
        define p2 where "p2 = p1\<lparr>pe_udp := (pe_udp p1)[i := ?u\<lparr>us_last_ms := now, us_tx_seq := us_tx_seq ?u + 1\<rparr>]\<rparr>"
        have p2: "udp_inv k p2" "udp_routes p2 \<subseteq> udp_routes p1" "same_table p p2"
          using udp_inv_touch [OF c(2), of i] c(3,6) Some by (simp_all add: p2_def same_table_def)
        note run = recv Datagram svc False f(1) c(1) Some
        show ?thesis
        proof (cases "udp_pack k (k_control_buffer k) [] 0 (us_id ?u) (us_tx_seq ?u + 1) (sv_id (sr_cfg ?s)) peer payload")
          case (Ok frame)
          obtain ok p3 e3 where send: "peer_send B k os p2 e1 CT_MSG_UDP_DATAGRAM (us_id ?u) frame 5000 = (ok, p3, e3)"
            by (metis prod_cases3)
          from peer_send_frame [OF this] obtain c' s' where ps: "p3 = p2\<lparr>pe_ctl := c'\<rparr>" "e3 = put_sock (pe_fd p2) s' e1" by blast
          have "udp_inv k p3" "same_table p p3" "udp_routes p3 \<subseteq> udp_routes p \<union> heard k os listener" "we_sent e3 = we_sent e"
            using p2 ps c(4) routes by (auto simp: same_table_def)
          then show ?thesis using run Ok send [unfolded p2_def]
            by (auto simp: server_udp_from_external_def svc_at_def Let_def)
        next
          case Err
          then show ?thesis using run p2 c(4) routes
            by (auto simp: server_udp_from_external_def svc_at_def Let_def p2_def)
        next
          case Fault
          with pack_no_fault [OF ep] show ?thesis by blast
        qed
      qed
    qed
  qed (use Ok inv in \<open>auto simp: server_udp_from_external_def same_table_def\<close>)
next
  case Fault
  then show ?thesis by (auto simp: ct_udp_recv_def andthen_def split: option.splits res.splits if_splits) (metis endpoint_from_sockaddr.elims res.distinct)
qed (use inv in \<open>auto simp: server_udp_from_external_def same_table_def\<close>)

lemma client_law:
  assumes inv: "udp_inv k p" and w: "k_udp_replay_window k \<le> 64"
  shows "\<exists>ok p' e' new. server_udp_from_client k os p payload now e = Ok (ok, p', e') \<and> udp_inv k p' \<and> same_table p p' \<and>
    we_sent e' = we_sent e @ new \<and> (\<forall>(fd, ep, d)\<in>set new. (fd, ep) \<in> udp_routes p) \<and> udp_routes p' \<subseteq> udp_routes p"
proof (cases "udp_unpack payload (length payload) (k_max_service_id k + 1)")
  case (Ok m)
  obtain direction sid seq service peer datagram where m: "m = (direction, sid, seq, service, peer, datagram)" by (metis prod_cases6)
  have ep: "endpoint_ok peer" using Ok by (auto simp: m udp_unpack_def res_simps dest: endpoint_decode_ok split: if_splits)
  show ?thesis
  proof (cases "direction \<noteq> 1 \<or> server_udp_find_id p sid = None")
    case True
    then show ?thesis using Ok inv by (auto simp: server_udp_from_client_def m same_table_def Let_def)
  next
    case False
    then obtain i where i: "server_udp_find_id p sid = Some i" by auto
    let ?u = "pe_udp p ! i"
    from index_of_Some [OF i [unfolded server_udp_find_id_def]] have u: "i < length (pe_udp p)" "us_active ?u" by auto
    then have ui: "?u \<in> set (pe_udp p)" by simp
    have ok: "us_svc ?u < length (pe_svc p)" "endpoint_ok (us_peer ?u)" using inv u ui by (auto simp: udp_inv_def)
    define same where "same \<longleftrightarrow> sv_id (sr_cfg (pe_svc p ! us_svc ?u)) = cstr service \<and> us_peer ?u = peer"
    have eq: "(if sv_id (sr_cfg (pe_svc p ! us_svc ?u)) \<noteq> cstr service then Ok False else endpoint_equal (us_peer ?u) peer) = Ok same"
      using endpoint_equal_ok [OF ok(2) ep] by (simp add: same_def)
    have at: "svc_at p (us_svc ?u) = Ok (pe_svc p ! us_svc ?u)" using ok(1) by (simp add: svc_at_def)
    have d: "direction = 1" using False by simp
    note run = server_udp_from_client_def Ok [folded Suc_eq_plus1] m d i at eq Let_def
    show ?thesis
    proof (cases "same \<and> (\<exists>w. udp_replay_accept (k_udp_replay_window k) (us_rx ?u) seq = Ok w)")
      case False
      then have "\<not> same \<or> udp_replay_accept (k_udp_replay_window k) (us_rx ?u) seq = Err"
        using replay_no_fault [OF w, of "us_rx ?u" seq] by (cases "udp_replay_accept (k_udp_replay_window k) (us_rx ?u) seq") auto
      then have "\<exists>f. server_udp_from_client k os p payload now e = Ok (True, p, tally f e)"
        by (elim disjE; cases same) (simp_all add: run exI split del: if_split)
      then show ?thesis using inv by (auto simp: same_table_def)
    next
      case True
      then obtain win where win: "udp_replay_accept (k_udp_replay_window k) (us_rx ?u) seq = Ok win" and same by blast
      define p1 where "p1 = p\<lparr>pe_udp := (pe_udp p)[i := ?u\<lparr>us_rx := win, us_last_ms := now\<rparr>]\<rparr>"
      have p1: "udp_inv k p1" "udp_routes p1 \<subseteq> udp_routes p" "same_table p p1"
        using udp_inv_touch [OF inv u, of "?u\<lparr>us_rx := win, us_last_ms := now\<rparr>"] u(2) by (simp_all add: p1_def same_table_def)
      have r: "(us_listener ?u, us_peer ?u) \<in> udp_routes p" using ui u(2) by (auto simp: udp_routes_def)
      obtain wb answer where os: "os_sendto os (us_listener ?u) = (wb, answer)" by fastforce
      show ?thesis
      proof (cases "ct_udp_send k (us_peer ?u) datagram wb answer")
        case (Ok sent)
        then have "server_udp_from_client k os p payload now e = Ok (True, p1,
            tally (ct_metric_add CT_METRIC_UDP_BYTES_S2C_TOTAL (of_nat (length datagram)) \<circ> ct_metric_inc CT_METRIC_UDP_DATAGRAMS_S2C_TOTAL)
              (if sent then e\<lparr>we_sent := we_sent e @ [(us_listener ?u, us_peer ?u, datagram)]\<rparr> else e))"
          using \<open>same\<close> by (simp add: run win os p1_def)
        then show ?thesis using p1 r by (cases sent) auto
      next
        case Err
        then show ?thesis using \<open>same\<close> p1 by (auto simp add: run win os p1_def)
      qed (use send_no_fault [OF ok(2)] in blast)
    qed
  qed
qed (use inv unpack_no_fault [of payload k] in \<open>auto simp: server_udp_from_client_def same_table_def\<close>)

lemma expire_sessions_law:
  assumes "\<forall>u\<in>set us. us_active u \<longrightarrow> us_svc u < length (pe_svc p)"
  shows "\<exists>us' e'. expire_sessions p now us e = Ok (us', e') \<and> we_sent e' = we_sent e \<and> length us' = length us \<and>
    subseq (filter us_active us') (filter us_active us)"
  using assms
proof (induction us arbitrary: e)
  case (Cons u us)
  define expired where "expired \<longleftrightarrow> us_active u \<and> now - us_last_ms u > of_int (sv_udp_idle_timeout (sr_cfg (pe_svc p ! us_svc u))) * 1000"
  have "(if us_active u then andthen (svc_at p (us_svc u)) (\<lambda>s.
      Ok (now - us_last_ms u > of_int (sv_udp_idle_timeout (sr_cfg s)) * 1000)) else Ok False) = Ok expired"
    using Cons.prems by (simp add: svc_at_def expired_def)
  moreover from Cons.IH [of "if expired then tally (ct_metric_inc CT_METRIC_UDP_SESSIONS_EXPIRED_TOTAL \<circ> ct_metric_dec CT_METRIC_UDP_SESSIONS_ACTIVE) e
      else e"] Cons.prems obtain us' e' where
    "expire_sessions p now us (if expired then tally (ct_metric_inc CT_METRIC_UDP_SESSIONS_EXPIRED_TOTAL \<circ> ct_metric_dec CT_METRIC_UDP_SESSIONS_ACTIVE) e
      else e) = Ok (us', e')" "we_sent e' = we_sent e" "length us' = length us" "subseq (filter us_active us') (filter us_active us)"
    by auto
  ultimately show ?case by (auto simp: zero_session_def)
qed simp

lemma expire_law:
  assumes "udp_inv k p"
  shows "\<exists>p' e'. server_udp_expire p now e = Ok (p', e') \<and> udp_inv k p' \<and> same_table p p' \<and> we_sent e' = we_sent e \<and>
    udp_routes p' \<subseteq> udp_routes p"
proof -
  from expire_sessions_law [of "pe_udp p" p now e] assms obtain us e' where
    us: "expire_sessions p now (pe_udp p) e = Ok (us, e')" "we_sent e' = we_sent e" "length us = length (pe_udp p)"
      "subseq (filter us_active us) (filter us_active (pe_udp p))" by (auto simp: udp_inv_def)
  have d: "distinct (map f (filter us_active us))" if "distinct (map f (filter us_active (pe_udp p)))" for f :: "server_udp_session \<Rightarrow> 'b"
    using us(4) that unfolding subseq_conv_nths by (auto simp: nths_map [symmetric])
  have sub: "u \<in> set (pe_udp p)" if "u \<in> set us" "us_active u" for u
  proof -
    from us(4) obtain N where "filter us_active us = nths (filter us_active (pe_udp p)) N" unfolding subseq_conv_nths ..
    moreover have "u \<in> set (filter us_active us)" using that by simp
    ultimately show ?thesis using set_nths_subset [of "filter us_active (pe_udp p)" N] by auto
  qed
  have "udp_inv k (p\<lparr>pe_udp := us\<rparr>)"
    using assms us(3) d [of us_id] d [of "\<lambda>u. (us_svc u, us_peer u)"] sub by (auto simp: udp_inv_def)
  moreover have "udp_routes (p\<lparr>pe_udp := us\<rparr>) \<subseteq> udp_routes p" using sub by (auto simp: udp_routes_def)
  ultimately show ?thesis using us by (auto simp: server_udp_expire_def same_table_def)
qed

section \<open>Runs\<close>

text \<open>A run of datagram operations, each with the answers of the system and the time; it ends when one fails.\<close>

datatype udp_op = External nat int | From_client bytes | Expire

definition udp_step :: "monocypher \<Rightarrow> autoconf \<Rightarrow> os \<Rightarrow> u64 \<Rightarrow> udp_op \<Rightarrow> server_peer \<Rightarrow> server_env \<Rightarrow> (bool \<times> server_peer \<times> server_env) res" where
  "udp_step B k os now op p e =
     (case op of
        External svc fd \<Rightarrow> server_udp_from_external B k os p svc fd now e
      | From_client payload \<Rightarrow> server_udp_from_client k os p payload now e
      | Expire \<Rightarrow> andthen (server_udp_expire p now e) (\<lambda>(p', e'). Ok (True, p', e')))"

fun udp_run :: "monocypher \<Rightarrow> autoconf \<Rightarrow> (os \<times> u64 \<times> udp_op) list \<Rightarrow> server_peer \<Rightarrow> server_env \<Rightarrow> (server_peer \<times> server_env) res" where
  "udp_run B k [] p e = Ok (p, e)"
| "udp_run B k ((os, now, op) # ops) p e =
     andthen (udp_step B k os now op p e) (\<lambda>(ok, p', e'). if ok then udp_run B k ops p' e' else Ok (p', e'))"

text \<open>The senders a run hears.\<close>

definition run_heard :: "autoconf \<Rightarrow> (os \<times> u64 \<times> udp_op) list \<Rightarrow> (int \<times> ct_endpoint) set" where
  "run_heard k ops = (\<Union>(os, now, op)\<in>set ops. case op of External svc fd \<Rightarrow> heard k os fd | _ \<Rightarrow> {})"

definition op_ok :: "nat \<Rightarrow> udp_op \<Rightarrow> bool" where
  "op_ok n op = (case op of External svc fd \<Rightarrow> svc < n | _ \<Rightarrow> True)"

lemma step_law:
  assumes "udp_inv k p" "k_udp_replay_window k \<le> 64" "op_ok (length (pe_svc p)) op" "pe_next_stream p \<noteq> uint64_max"
  shows "\<exists>ok p' e' new. udp_step B k os now op p e = Ok (ok, p', e') \<and> udp_inv k p' \<and> same_table p p' \<and>
    we_sent e' = we_sent e @ new \<and> (\<forall>(fd, ep, d)\<in>set new. (fd, ep) \<in> udp_routes p) \<and>
    udp_routes p' \<subseteq> udp_routes p \<union> run_heard k [(os, now, op)]"
proof (cases op)
  case (External svc fd)
  then show ?thesis using external_law [OF assms(1) _ assms(4), of svc B os fd now e] assms(3)
    by (auto simp: udp_step_def op_ok_def run_heard_def)
next
  case (From_client payload)
  then show ?thesis using client_law [OF assms(1,2), of os payload now e] by (auto simp: udp_step_def)
next
  case Expire
  then show ?thesis using expire_law [OF assms(1), of now e] by (auto simp: udp_step_def)
qed

lemma run_law:
  assumes "udp_inv k p" "k_udp_replay_window k \<le> 64" "\<forall>(os, now, op)\<in>set ops. op_ok (length (pe_svc p)) op"
    "unat (pe_next_stream p) + length ops < 2 ^ 64"
  shows "\<exists>p' e' new. udp_run B k ops p e = Ok (p', e') \<and> udp_inv k p' \<and> we_sent e' = we_sent e @ new \<and>
    (\<forall>(fd, ep, d)\<in>set new. (fd, ep) \<in> udp_routes p \<union> run_heard k ops)"
  using assms(1,3,4)
proof (induction ops arbitrary: p e)
  case Nil
  then show ?case by auto
next
  case (Cons o1 ops)
  obtain os now op where o1: "o1 = (os, now, op)" by (metis prod_cases3)
  have "pe_next_stream p \<noteq> uint64_max" using Cons.prems(3) by auto
  with step_law [OF Cons.prems(1) assms(2), of op B os now e] Cons.prems(2) o1 obtain ok p1 e1 new where
    s: "udp_step B k os now op p e = Ok (ok, p1, e1)" "udp_inv k p1" "same_table p p1" "we_sent e1 = we_sent e @ new"
      "\<forall>(fd, ep, d)\<in>set new. (fd, ep) \<in> udp_routes p" "udp_routes p1 \<subseteq> udp_routes p \<union> run_heard k [(os, now, op)]" by auto
  show ?case
  proof (cases ok)
    case True
    have "\<forall>(os, now, op)\<in>set ops. op_ok (length (pe_svc p1)) op" "unat (pe_next_stream p1) + length ops < 2 ^ 64"
      using Cons.prems(2,3) s(3) by (auto simp: same_table_def)
    from Cons.IH [OF s(2) this, of e1] obtain p' e' new' where
      r: "udp_run B k ops p1 e1 = Ok (p', e')" "udp_inv k p'" "we_sent e' = we_sent e1 @ new'"
        "\<forall>(fd, ep, d)\<in>set new'. (fd, ep) \<in> udp_routes p1 \<union> run_heard k ops" by blast
    have "run_heard k (o1 # ops) = run_heard k [(os, now, op)] \<union> run_heard k ops" by (simp add: run_heard_def o1)
    then have "\<forall>(fd, ep, d)\<in>set (new @ new'). (fd, ep) \<in> udp_routes p \<union> run_heard k (o1 # ops)"
      using s(5,6) r(4) by fastforce
    then show ?thesis using s(1,4) r(1-3) True by (auto simp: o1)
  next
    case False
    then show ?thesis using s by (auto simp: o1)
  qed
qed

section \<open>Properties\<close>

text \<open>
  C21: replies reach only those who asked. In every run of datagram operations of the server, from a
  table of valid sessions, whatever the network and the client deliver, no operation accesses memory
  out of bounds; sessions keep distinct identifiers and one session per sender and service; and each
  datagram sent to the network goes out on the listener, and to the address, from which an earlier
  datagram of a session came.
\<close>

theorem server_udp_replies_to_senders:
  assumes "udp_inv k p" "k_udp_replay_window k \<le> 64" "\<forall>(os, now, op)\<in>set ops. op_ok (length (pe_svc p)) op"
    "unat (pe_next_stream p) + length ops < 2 ^ 64"
  shows "\<exists>p' e' new. udp_run B k ops p e = Ok (p', e') \<and> udp_inv k p' \<and> we_sent e' = we_sent e @ new \<and>
    (\<forall>(fd, ep, d)\<in>set new. (fd, ep) \<in> udp_routes p \<union> run_heard k ops)"
  by (rule run_law [OF assms])

definition demo_service :: server_service where
  "demo_service = \<lparr>sr_cfg = \<lparr>sv_id = lit ''dns'', sv_remote_addr = lit ''*'', sv_local_addr = [], sv_remote_port = 53,
      sv_local_port = 0, sv_encryption = CT_ENC_DISABLED, sv_type = 2, sv_proxy_protocol = 0, sv_udp_idle_timeout = 60,
      sv_udp_reply_timeout = 5, sv_udp_max_sessions = 8, sv_udp_max_datagram_size = 1472, sv_udp_options_seen = 0\<rparr>,
    sr_listen = [], sr_udp = [9]\<rparr>"

definition demo_peer :: server_peer where
  "demo_peer = \<lparr>pe_active = True, pe_fd = 5, pe_ctl = client_control\<lparr>cc_is_client := False\<rparr>, pe_auth = None,
     pe_svc = [demo_service], pe_work = [], pe_pending = [], pe_udp = replicate 1024 zero_session, pe_starting = [], pe_relays = [],
     pe_next_stream = 100\<rparr>"

definition demo_os :: os where
  "demo_os = \<lparr>os_now = 7, os_alloc = True, os_random = (\<lambda>_. None), os_clock = (\<lambda>_. 0), os_ring = (\<lambda>_ _. None), os_listen = (\<lambda>_ _. None),
     os_udp_bind = (\<lambda>_ _. None), os_bound = (\<lambda>_. None),
     os_recvfrom = (\<lambda>fd. (False, Some (Sockaddr_in [192, 0, 2, 7] 5353, [1, 2, 3]))), os_sendto = (\<lambda>fd. (False, \<lambda>_. Some 3)),
     os_peek = (\<lambda>_. Inl True), os_queued = (\<lambda>_. None), os_accept = (\<lambda>_. (None, True)), os_remote = lit ''192.0.2.7'', os_peername = (\<lambda>_. None),
     os_fs = (\<lambda>_. None), os_secret = None, os_nonce = None\<rparr>"

definition demo_env :: server_env where
  "demo_env = \<lparr>we_metrics = no_metrics, we_socks = (\<lambda>_. empty_sock), we_closed = [], we_sent = []\<rparr>"

lemma demo_inv: "udp_inv default_defconfig demo_peer"
  by (simp add: udp_inv_def demo_peer_def default_defconfig_def zero_session_def)

theorem server_udp_replies_to_senders_witness:
  "\<exists>p' e' new. udp_run toy_backend default_defconfig [(demo_os, 10, External 0 9), (demo_os, 20, From_client [1]), (demo_os, 90000, Expire)]
      demo_peer demo_env = Ok (p', e') \<and> udp_inv default_defconfig p' \<and> we_sent e' = new"
proof -
  let ?ops = "[(demo_os, 10, External 0 9), (demo_os, 20, From_client [1]), (demo_os, 90000, Expire)]"
  have "k_udp_replay_window default_defconfig \<le> 64" "\<forall>(os, now, op)\<in>set ?ops. op_ok (length (pe_svc demo_peer)) op"
    "unat (pe_next_stream demo_peer) + length ?ops < 2 ^ 64"
    by (simp_all add: default_defconfig_def op_ok_def demo_peer_def)
  from server_udp_replies_to_senders [OF demo_inv this, of toy_backend demo_env] show ?thesis by (auto simp: demo_env_def)
qed

end
