(* ===== verification/Server_Streams.thy ===== *)
theory Server_Streams
  imports Server_Udp Config_Valid
begin

text \<open>
  Services and streams of \<open>src/src/server/server.c\<close>: registration, the matching of pending connections
  with idle work connections, the start of a relay, the control messages of a peer and its end.
\<close>

section \<open>Listeners\<close>

definition listen_set_open :: "autoconf \<Rightarrow> os \<Rightarrow> bytes \<Rightarrow> u16 \<Rightarrow> int list \<times> int list" where
  "listen_set_open k os addr p = open_address ct_net_listen k (\<lambda>a. os_listen os a p) addr"

definition listen_set_close :: "int list \<Rightarrow> server_env \<Rightarrow> server_env" where
  "listen_set_close fds e = close_fds fds e"

definition listen_set_overlaps_existing :: "autoconf \<Rightarrow> os \<Rightarrow> int list \<Rightarrow> int list \<Rightarrow> server_peer list \<Rightarrow> bool" where
  "listen_set_overlaps_existing k os fds control peers =
     list_ex (\<lambda>f. list_ex (\<lambda>c. ct_net_bound_endpoints_overlap k (os_bound os f) (os_bound os c)) control \<or>
       list_ex (\<lambda>p. pe_active p \<and> list_ex (\<lambda>s. list_ex (\<lambda>l. ct_net_bound_endpoints_overlap k (os_bound os f) (os_bound os l)) (sr_listen s))
         (pe_svc p)) peers) fds"

section \<open>Registration\<close>

text \<open>The service a request describes; absent limits take the defaults.\<close>

definition requested_service :: "autoconf \<Rightarrow> register_request \<Rightarrow> ct_service_config" where
  "requested_service k r =
     (let limit = (\<lambda>w d. if \<not> k_udp k then 0 else if w = 0 then d else sint (w :: u32)) in
      \<lparr>sv_id = cstr (rr_service_id r), sv_remote_addr = cstr (rr_remote_addr r), sv_local_addr = [],
       sv_remote_port = rr_remote_port r, sv_local_port = 0, sv_encryption = rr_mode r, sv_type = uint (rr_type r),
       sv_proxy_protocol = uint (rr_proxy_protocol r), sv_udp_idle_timeout = limit (rr_udp_idle_timeout r) 60,
       sv_udp_reply_timeout = limit (rr_udp_reply_timeout r) 5,
       sv_udp_max_sessions = limit (rr_udp_max_sessions r) (int (k_max_udp_sessions k)),
       sv_udp_max_datagram_size = limit (rr_udp_max_datagram_size r) (int (k_max_udp_datagram k)), sv_udp_options_seen = 0\<rparr>)"

text \<open>The reason for which a service is refused before anything is bound.\<close>

definition register_problem :: "autoconf \<Rightarrow> ct_config \<Rightarrow> server_peer \<Rightarrow> ct_authorized_client \<Rightarrow> ct_service_config \<Rightarrow> string option" where
  "register_problem k cfg p a s =
     (if sv_type s \<noteq> 1 \<and> \<not> (k_udp k \<and> sv_type s = 2) then Some ''UNSUPPORTED_SERVICE_TYPE''
      else if sv_encryption s \<noteq> CT_ENC_REQUIRED \<and> sv_encryption s \<noteq> CT_ENC_DISABLED then Some ''INVALID_ENCRYPTION''
      else if sv_proxy_protocol s \<noteq> 0 \<and> \<not> (k_proxy_v1 k \<and> sv_proxy_protocol s = 1) \<and> \<not> (k_proxy_v2 k \<and> sv_proxy_protocol s = 2)
      then Some ''UNSUPPORTED_SERVICE_OPTION''
      else if sv_type s \<noteq> 1 \<and> sv_proxy_protocol s \<noteq> 0 then Some ''UNSUPPORTED_SERVICE_OPTION''
      else if k_udp k \<and> sv_type s = 2 \<and>
        (sv_udp_idle_timeout s < 1 \<or> sv_udp_idle_timeout s > 86400 \<or> sv_udp_reply_timeout s < 1 \<or> sv_udp_reply_timeout s > 86400 \<or>
         sv_udp_max_sessions s < 1 \<or> sv_udp_max_sessions s > int (k_max_udp_sessions k) \<or> sv_udp_max_datagram_size s < 512 \<or>
         sv_udp_max_datagram_size s > int (k_max_udp_datagram k)) then Some ''INVALID_UDP_LIMIT''
      else if \<not> k_data_encryption k \<and> sv_encryption s = CT_ENC_REQUIRED then Some ''DATA_ENCRYPTION_UNAVAILABLE''
      else if find_service p (sv_id s) \<noteq> None then Some ''DUPLICATE_SERVICE''
      else if length (pe_svc p) \<ge> size_of_int (au_max_services a) \<or> length (pe_svc p) \<ge> size_of_int (cf_max_services_per_client cfg)
      then Some ''SERVICE_LIMIT''
      else if \<not> ct_authorized_port a (sv_remote_addr s) (sv_remote_port s) then Some ''NOT_AUTHORIZED''
      else None)"

text \<open>Binding the listeners: the reason of a refusal, the descriptors opened, those closed on the way.\<close>

definition register_bind ::
  "autoconf \<Rightarrow> os \<Rightarrow> int list \<Rightarrow> server_peer list \<Rightarrow> ct_service_config \<Rightarrow> string option \<times> int list \<times> int list" where
  "register_bind k os control peers s =
     (if sv_type s = 1 then
        let (fds, closed) = listen_set_open k os (sv_remote_addr s) (sv_remote_port s) in
        (if fds = [] then Some ''BIND_FAILED''
         else if listen_set_overlaps_existing k os fds control peers then Some ''LISTENER_CONFLICT'' else None, fds, closed)
      else
        let (fds, closed) = udp_set_open k os (sv_remote_addr s) (sv_remote_port s) in
        (if fds = [] then Some ''BIND_FAILED'' else None, fds, closed))"

text \<open>A string added to a reply; when it does not fit nothing is added.\<close>

definition reply_string :: "autoconf \<Rightarrow> bytes \<Rightarrow> bytes \<Rightarrow> nat \<Rightarrow> bytes res" where
  "reply_string k out s mx = (case ct_pack_string (k_control_buffer k) out s mx of Err \<Rightarrow> Ok out | r \<Rightarrow> r)"

definition register_service ::
  "monocypher \<Rightarrow> autoconf \<Rightarrow> os \<Rightarrow> ct_config \<Rightarrow> int list \<Rightarrow> server_peer list \<Rightarrow> server_peer \<Rightarrow> bytes \<Rightarrow> server_env \<Rightarrow>
     (bool \<times> server_peer \<times> server_env) res" where
  "register_service B k os cfg control peers p b e =
     (case ct_register_request_decode (k_max_service_id k + 1) (k_max_addr k + 1) b (length b) of
        Fault \<Rightarrow> Fault
      | Err \<Rightarrow> Ok (False, p, e)
      | Ok r \<Rightarrow>
          (case pe_auth p of
             None \<Rightarrow> Fault
           | Some a \<Rightarrow>
               let s = requested_service k r;
                   (why, fds, closed) = (case register_problem k cfg p a s of
                      Some w \<Rightarrow> (Some w, [], []) | None \<Rightarrow> register_bind k os control peers s);
                   e1 = close_fds closed e
               in andthen (reply_string k [] (sv_id s) (k_max_service_id k)) (\<lambda>reply.
                  case why of
                    None \<Rightarrow>
                      if length (pe_svc p) \<ge> k_max_services k then Fault
                      else Ok (peer_send B k os
                        (p\<lparr>pe_svc := pe_svc p @ [\<lparr>sr_cfg = s, sr_listen = (if sv_type s = 1 then fds else []),
                             sr_udp = (if sv_type s = 1 then [] else fds)\<rparr>]\<rparr>) e1 CT_MSG_REGISTER_OK 0 reply 5000)
                  | Some w \<Rightarrow>
                      andthen (reply_string k reply (lit w) 80) (\<lambda>reply'.
                      Ok (peer_send B k os p (listen_set_close fds e1) CT_MSG_REGISTER_FAILED 0 reply' 5000)))))"

section \<open>Starting a stream\<close>

definition start_relay_begin ::
  "monocypher \<Rightarrow> autoconf \<Rightarrow> os \<Rightarrow> server_peer \<Rightarrow> pending_conn \<Rightarrow> ct_work \<Rightarrow> u64 \<Rightarrow> server_env \<Rightarrow> (bool \<times> server_peer \<times> server_env) res" where
  "start_relay_begin B k os p pending work timeout_ms e =
     (if length (pe_starting p) = k_max_pending k then Ok (False, p, e)
      else
        let sid = next_id (pe_next_stream p); p1 = p\<lparr>pe_next_stream := sid\<rparr> in
        andthen (svc_at p (pc_svc pending)) (\<lambda>s.
        case ct_start_stream_send B k work (pe_ctl p) (sv_id (sr_cfg s)) sid (sv_encryption (sr_cfg s)) (Some (pc_metadata pending))
               (os_random os sid) (we_socks e (wk_fd work)) of
          (Fault, _) \<Rightarrow> Fault
        | (Err, sk) \<Rightarrow> Ok (False, p1, put_sock (wk_fd work) sk e)
        | (Ok rnd, sk) \<Rightarrow>
            Ok (True, p1\<lparr>pe_starting := pe_starting p @ [\<lparr>st_pending = pending, st_work = work, st_stream_id = sid,
                  st_deadline = os_clock os sid + timeout_ms, st_random = rnd, st_read_retry = 0\<rparr>]\<rparr>,
                put_sock (wk_fd work) sk e)))"

text \<open>The environment of a relay on two descriptors, and what a relay operation did put back.\<close>

definition relay_view :: "server_env \<Rightarrow> int \<Rightarrow> int \<Rightarrow> relay_env" where
  "relay_view e direct work = \<lparr>re_metrics = we_metrics e, re_direct = we_socks e direct, re_work = we_socks e work, re_effects = []\<rparr>"

fun closes_of :: "fd_effect list \<Rightarrow> int list" where
  "closes_of [] = []"
| "closes_of (Closes fd # xs) = fd # closes_of xs"
| "closes_of (Shuts fd # xs) = closes_of xs"

definition relay_back :: "server_env \<Rightarrow> int \<Rightarrow> int \<Rightarrow> relay_env \<Rightarrow> server_env" where
  "relay_back e direct work re =
     close_fds (closes_of (re_effects re))
       (put_sock work (re_work re) (put_sock direct (re_direct re) (e\<lparr>we_metrics := re_metrics re\<rparr>)))"

definition CT_INVALID_SOCKET :: int where "CT_INVALID_SOCKET = -1"

definition start_relay_finish ::
  "monocypher \<Rightarrow> autoconf \<Rightarrow> os \<Rightarrow> server_peer \<Rightarrow> starting_conn \<Rightarrow> server_env \<Rightarrow> (bool \<times> server_peer \<times> server_env) res" where
  "start_relay_finish B k os p st e =
     (case index_of (\<lambda>r. rl_closed r \<or> rl_direct r = CT_INVALID_SOCKET) (pe_relays p) of
        None \<Rightarrow> Ok (False, p, e)
      | Some i \<Rightarrow>
          andthen (svc_at p (pc_svc (st_pending st))) (\<lambda>s.
          let work = st_work st; wfd = wk_fd work; dfd = pc_fd (st_pending st); cfg = sr_cfg s in
          case ct_stream_ready_recv B k work (pe_ctl p) (sv_id cfg) (sv_encryption cfg) (st_stream_id st) (st_random st) (we_socks e wfd) of
            (Fault, _) \<Rightarrow> Fault
          | (Err, sk) \<Rightarrow> Ok (False, p, put_sock wfd sk e)
          | (Ok ok, sk) \<Rightarrow>
              let e1 = put_sock wfd sk e in
              if \<not> ok then Ok (False, p, e1)
              else andthen (ct_relay_init B k (\<lambda>_ _. None) (os_ring os (st_stream_id st) 0) (os_ring os (st_stream_id st) 1)
                     (os_ring os (st_stream_id st) 2) dfd wfd False (sv_encryption cfg) (cc_cipher (pe_ctl p))
                     (if k_data_encryption k then data_master (cc_keys (pe_ctl p)) else []) (st_stream_id st) (st_random st) (wk_id work)
                     (sv_id cfg) None (relay_view e1 dfd wfd)) (\<lambda>(started, r, re).
                   Ok (started, p\<lparr>pe_relays := (pe_relays p)[i := r]\<rparr>, relay_back e1 dfd wfd re))))"

lemma begin_frame:
  assumes "start_relay_begin B k os p pending work t e = Ok (ok, p', e')"
  shows "pe_pending p' = pe_pending p" "pe_work p' = pe_work p"
  using assms by (auto simp: start_relay_begin_def Let_def res_simps case_Ok_iff split: if_splits)

text \<open>
  The oldest pending connection gets the work connection that became idle last, as long as there are
  both and a start slot is free.
\<close>

function match_pending ::
  "monocypher \<Rightarrow> autoconf \<Rightarrow> os \<Rightarrow> ct_config \<Rightarrow> server_peer \<Rightarrow> server_env \<Rightarrow> (server_peer \<times> server_env) res" where
  "match_pending B k os cfg p e =
     (if pe_pending p = [] \<or> pe_work p = [] \<or> \<not> length (pe_starting p) < k_max_pending k then Ok (p, e)
      else
        let pc = hd (pe_pending p); w = last (pe_work p);
            p1 = p\<lparr>pe_pending := tl (pe_pending p), pe_work := butlast (pe_work p)\<rparr>;
            e1 = tally (ct_metric_dec CT_METRIC_WORK_IDLE \<circ> ct_metric_dec CT_METRIC_PENDING_STREAMS) e
        in case start_relay_begin B k os p1 pc w (of_int (cf_connect_timeout cfg) * 1000) e1 of
             Fault \<Rightarrow> Fault
           | Err \<Rightarrow> Err
           | Ok (True, p2, e2) \<Rightarrow> match_pending B k os cfg p2 e2
           | Ok (False, p2, e2) \<Rightarrow>
               match_pending B k os cfg p2
                 (tally (ct_metric_inc CT_METRIC_STREAMS_FAILED_TOTAL) (close_fd (wk_fd w) (close_fd (pc_fd pc) e2))))"
  by pat_completeness auto

termination
  by (relation "measure (\<lambda>(B, k, os, cfg, p, e). length (pe_pending p))") (auto simp: begin_frame)

declare match_pending.simps [simp del]

section \<open>The end of a peer\<close>

definition zero_control :: ct_control where
  "zero_control = \<lparr>cc_cipher = CT_CIPHER_NONE, cc_keys = zero_keys, cc_tx_seq = 0, cc_rx_seq = 0, cc_work_tx_seq = 0,
     cc_work_rx = (0, 0), cc_is_client = False, cc_client_id = [], cc_last_rx_ms = 0, cc_last_tx_ms = 0, cc_read_retry_after_ms = 0\<rparr>"

definition zero_peer :: "autoconf \<Rightarrow> server_peer" where
  "zero_peer k =
     \<lparr>pe_active = False, pe_fd = 0, pe_ctl = zero_control, pe_auth = None, pe_svc = [], pe_work = [], pe_pending = [],
      pe_udp = replicate (k_max_udp_sessions k) zero_session, pe_starting = [],
      pe_relays = replicate (k_max_streams k) ((zero_relay CT_INVALID_SOCKET CT_INVALID_SOCKET False)\<lparr>rl_closed := True\<rparr>),
      pe_next_stream = 0\<rparr>"

fun close_relays :: "autoconf \<Rightarrow> ct_relay list \<Rightarrow> server_env \<Rightarrow> server_env" where
  "close_relays k [] e = e"
| "close_relays k (r # rs) e =
     close_relays k rs (if rl_closed r then e
       else relay_back e (rl_direct r) (rl_work r) (snd (ct_relay_close k r (relay_view e (rl_direct r) (rl_work r)))))"

definition peer_close :: "monocypher \<Rightarrow> autoconf \<Rightarrow> os \<Rightarrow> server_peer \<Rightarrow> server_env \<Rightarrow> server_peer \<times> server_env" where
  "peer_close B k os p e =
     (if \<not> pe_active p then (p, e)
      else
        let (_, p1, e1) = peer_send B k os p e CT_MSG_GOAWAY 0 [] 100;
            e2 = close_fds (pe_fd p # concat (map sr_listen (pe_svc p)) @ concat (map sr_udp (pe_svc p)) @ map wk_fd (pe_work p)) e1;
            e3 = tally ((ct_metric_dec CT_METRIC_WORK_IDLE) ^^ length (pe_work p)) e2;
            e4 = close_fds (map pc_fd (pe_pending p)) e3;
            e5 = tally ((ct_metric_dec CT_METRIC_PENDING_STREAMS) ^^ length (pe_pending p)) e4;
            e6 = close_fds (concat (map (\<lambda>s. [pc_fd (st_pending s), wk_fd (st_work s)]) (pe_starting p))) e5;
            e7 = close_relays k (pe_relays p) e6;
            e8 = (if k_udp k then tally ((ct_metric_dec CT_METRIC_UDP_SESSIONS_ACTIVE) ^^ length (filter us_active (pe_udp p))) e7 else e7)
        in (zero_peer k, e8))"

section \<open>Control messages\<close>

definition server_control ::
  "monocypher \<Rightarrow> autoconf \<Rightarrow> os \<Rightarrow> ct_config \<Rightarrow> int list \<Rightarrow> server_peer list \<Rightarrow> u64 \<Rightarrow> server_peer \<Rightarrow> server_env \<Rightarrow>
     (bool \<times> server_peer \<times> server_env) res" where
  "server_control B k os cfg control peers now p e =
     (case ct_control_recv B k (os_alloc os) (os_now os) (pe_ctl p) (we_socks e (pe_fd p)) (k_control_buffer k) 5000 of
        (r, c, s) \<Rightarrow>
          let p1 = p\<lparr>pe_ctl := c\<rparr>; e1 = put_sock (pe_fd p) s e in
          case r of
            Fault \<Rightarrow> Fault
          | Err \<Rightarrow> Ok (False, p1, e1)
          | Ok (h, b) \<Rightarrow>
              if fh_type h = CT_MSG_REGISTER_SERVICE then register_service B k os cfg control peers p1 b e1
              else if k_udp k \<and> fh_type h = CT_MSG_UDP_DATAGRAM then server_udp_from_client k os p1 b now e1
              else if fh_type h = CT_MSG_PING then Ok (peer_send B k os p1 e1 CT_MSG_PONG 0 b 5000)
              else if fh_type h = CT_MSG_PONG then Ok (True, p1, e1)
              else Ok (False, p1, e1))"

section \<open>Descriptors\<close>

text \<open>The descriptors a peer holds.\<close>

definition relay_fds :: "ct_relay \<Rightarrow> int list" where
  "relay_fds r = (if rl_closed r then [] else [rl_direct r, rl_work r])"

definition starting_fds :: "starting_conn \<Rightarrow> int list" where
  "starting_fds s = [pc_fd (st_pending s), wk_fd (st_work s)]"

definition held_fds :: "server_peer \<Rightarrow> int list" where
  "held_fds p = pe_fd p # concat (map sr_listen (pe_svc p)) @ concat (map sr_udp (pe_svc p)) @ map wk_fd (pe_work p) @
     map pc_fd (pe_pending p) @ concat (map starting_fds (pe_starting p)) @ concat (map relay_fds (pe_relays p))"

text \<open>Nothing the operation does loses or duplicates a descriptor.\<close>

definition conserves :: "server_peer \<Rightarrow> server_env \<Rightarrow> server_peer \<Rightarrow> server_env \<Rightarrow> bool" where
  "conserves p e p' e' \<longleftrightarrow> mset (held_fds p') + mset (we_closed e') = mset (held_fds p) + mset (we_closed e)"

lemma conserves_trans: "conserves p e p1 e1 \<Longrightarrow> conserves p1 e1 p2 e2 \<Longrightarrow> conserves p e p2 e2"
  by (simp add: conserves_def)

section \<open>Matching\<close>

text \<open>What pending and work connections carry, so that a start message can be built within its buffers.\<close>

definition peer_ready :: "monocypher \<Rightarrow> autoconf \<Rightarrow> os \<Rightarrow> server_peer \<Rightarrow> bool" where
  "peer_ready B k os p \<longleftrightarrow> hash_sizes B \<and> k_control_buffer k \<le> 65536 \<and> (\<forall>sid r. os_random os sid = Some r \<longrightarrow> length r = 32) \<and>
     (\<forall>pc\<in>set (pe_pending p). metadata_ok (pc_metadata pc) \<and> pc_svc pc < length (pe_svc p)) \<and>
     (\<forall>w\<in>set (pe_work p). length (wk_id w) = 32) \<and> (\<forall>s\<in>set (pe_svc p). start_fits k (pe_ctl p) (sv_id (sr_cfg s)))"

lemma begin_law:
  assumes "hash_sizes B" "k_control_buffer k \<le> 65536" "\<forall>sid r. os_random os sid = Some r \<longrightarrow> length r = 32"
    "metadata_ok (pc_metadata pc)" "pc_svc pc < length (pe_svc p)" "length (wk_id w) = 32"
    "start_fits k (pe_ctl p) (sv_id (sr_cfg (pe_svc p ! pc_svc pc)))"
  obtains n sk new where "start_relay_begin B k os p pc w t e = Ok (new \<noteq> [], p\<lparr>pe_next_stream := n, pe_starting := pe_starting p @ new\<rparr>,
      e\<lparr>we_socks := sk\<rparr>)" "new \<noteq> [] \<Longrightarrow> \<exists>s. new = [s] \<and> st_pending s = pc \<and> st_work s = w"
proof (cases "length (pe_starting p) = k_max_pending k")
  case True
  then show thesis using that [of "[]" "pe_next_stream p" "we_socks e"] by (simp add: start_relay_begin_def)
next
  case False
  define sid where "sid = next_id (pe_next_stream p)"
  let ?s = "pe_svc p ! pc_svc pc"
  let ?send = "ct_start_stream_send B k w (pe_ctl p) (sv_id (sr_cfg ?s)) sid (sv_encryption (sr_cfg ?s)) (Some (pc_metadata pc))
    (os_random os sid) (we_socks e (wk_fd w))"
  have nf: "fst ?send \<noteq> Fault"
  proof (cases "os_random os sid")
    case None
    then show ?thesis using assms(7)
      by (auto simp: ct_start_stream_send_def start_stream_payload_def Let_def pack_string_eq emits_eq start_fits_def assms(6)
          andthen_def split: res.splits if_splits prod.splits)
  next
    case (Some rnd)
    then have "length rnd = 32" using assms(3) by blast
    from start_payload_eq [OF assms(1,4,6) this assms(7,2)] Some show ?thesis
      by (simp add: ct_start_stream_send_def split: prod.splits)
  qed
  obtain r sk where send: "?send = (r, sk)" by fastforce
  have run: "start_relay_begin B k os p pc w t e = (case (r, sk) of
          (Fault, _) \<Rightarrow> Fault
        | (Err, sk) \<Rightarrow> Ok (False, p\<lparr>pe_next_stream := sid\<rparr>, put_sock (wk_fd w) sk e)
        | (Ok rnd, sk) \<Rightarrow> Ok (True, p\<lparr>pe_next_stream := sid, pe_starting := pe_starting p @ [\<lparr>st_pending = pc, st_work = w, st_stream_id = sid,
                  st_deadline = os_clock os sid + t, st_random = rnd, st_read_retry = 0\<rparr>]\<rparr>, put_sock (wk_fd w) sk e))"
    using False assms(5) send by (simp add: start_relay_begin_def svc_at_def Let_def flip: sid_def)
  show thesis
  proof (cases r)
    case (Ok rnd)
    then show thesis using run
      by (intro that [of "[\<lparr>st_pending = pc, st_work = w, st_stream_id = sid, st_deadline = os_clock os sid + t, st_random = rnd,
        st_read_retry = 0\<rparr>]" sid "(we_socks e)(wk_fd w := sk)"]) (simp_all add: put_sock_def)
  next
    case Err
    then show thesis using run by (intro that [of "[]" sid "(we_socks e)(wk_fd w := sk)"]) (simp_all add: put_sock_def)
  qed (use nf send in simp)
qed

lemma match_step:
  assumes "pe_pending p = pc # pcs" "pe_work p = ws @ [w]" "length (pe_starting p) < k_max_pending k" "peer_ready B k os p"
  obtains p1 e1 new where "match_pending B k os cfg p e = match_pending B k os cfg p1 e1" "pe_pending p1 = pcs" "pe_work p1 = ws"
    "pe_starting p1 = pe_starting p @ new" "map st_pending new \<in> {[], [pc]}" "conserves p e p1 e1" "peer_ready B k os p1"
proof -
  let ?p = "p\<lparr>pe_pending := pcs, pe_work := ws\<rparr>"
  let ?e = "tally (ct_metric_dec CT_METRIC_WORK_IDLE \<circ> ct_metric_dec CT_METRIC_PENDING_STREAMS) e"
  let ?t = "of_int (cf_connect_timeout cfg) * 1000 :: u64"
  note r = assms(4) [unfolded peer_ready_def]
  have pre: "metadata_ok (pc_metadata pc)" "pc_svc pc < length (pe_svc ?p)" "length (wk_id w) = 32"
    using r assms(1,2) by simp_all
  have "start_fits k (pe_ctl ?p) (sv_id (sr_cfg (pe_svc ?p ! pc_svc pc)))" using r pre(2) by simp
  from begin_law [of B k os pc ?p w, OF _ _ _ pre this] r obtain n sk new where
    b: "start_relay_begin B k os ?p pc w ?t ?e = Ok (new \<noteq> [], ?p\<lparr>pe_next_stream := n, pe_starting := pe_starting ?p @ new\<rparr>, ?e\<lparr>we_socks := sk\<rparr>)"
      "new \<noteq> [] \<Longrightarrow> \<exists>s. new = [s] \<and> st_pending s = pc \<and> st_work s = w"
    by metis
  let ?p1 = "?p\<lparr>pe_next_stream := n, pe_starting := pe_starting ?p @ new\<rparr>"
  define e1 where "e1 = (if new \<noteq> [] then ?e\<lparr>we_socks := sk\<rparr>
    else tally (ct_metric_inc CT_METRIC_STREAMS_FAILED_TOTAL) (close_fd (wk_fd w) (close_fd (pc_fd pc) (?e\<lparr>we_socks := sk\<rparr>))))"
  have run: "match_pending B k os cfg p e = match_pending B k os cfg ?p1 e1"
  proof -
    have "match_pending B k os cfg p e = (case start_relay_begin B k os ?p pc w ?t ?e of
             Fault \<Rightarrow> Fault
           | Err \<Rightarrow> Err
           | Ok (True, p2, e2) \<Rightarrow> match_pending B k os cfg p2 e2
           | Ok (False, p2, e2) \<Rightarrow> match_pending B k os cfg p2
                 (tally (ct_metric_inc CT_METRIC_STREAMS_FAILED_TOTAL) (close_fd (wk_fd w) (close_fd (pc_fd pc) e2))))"
      by (subst match_pending.simps) (use assms(1-3) in \<open>simp add: Let_def\<close>)
    then show ?thesis unfolding b(1) by (cases "new \<noteq> []") (simp_all add: e1_def)
  qed
  have c: "conserves p e ?p1 e1"
  proof (cases "new = []")
    case True
    then show ?thesis using assms(1,2) by (simp add: conserves_def held_fds_def e1_def)
  next
    case False
    from b(2) [OF this] obtain s where "new = [s]" "st_pending s = pc" "st_work s = w" by blast
    then show ?thesis using assms(1,2) by (simp add: conserves_def held_fds_def e1_def starting_fds_def)
  qed
  have "peer_ready B k os ?p1" using assms(1,2,4) by (auto simp: peer_ready_def)
  moreover have "map st_pending new \<in> {[], [pc]}" using b(2) by (cases "new = []") auto
  ultimately show thesis using that [OF run _ _ _ _ c] by simp
qed

text \<open>
  Matching uses every connection it can and loses none. Whatever the system answers, with
  identifiers that fit the message buffers, it terminates without a memory fault; it stops only when
  no pending connection, no idle work connection or no start slot is left; pending connections are
  served in order of arrival, each with one work connection; and every descriptor is afterwards
  either still held, with exactly one owner, or closed once.
\<close>

theorem match_pending_conserves:
  assumes "peer_ready B k os p"
  shows "\<exists>p' e' n new. match_pending B k os cfg p e = Ok (p', e') \<and> conserves p e p' e' \<and>
    (pe_pending p' = [] \<or> pe_work p' = [] \<or> k_max_pending k \<le> length (pe_starting p')) \<and>
    pe_pending p' = drop n (pe_pending p) \<and> pe_work p' = take (length (pe_work p) - n) (pe_work p) \<and>
    pe_starting p' = pe_starting p @ new \<and> subseq (map st_pending new) (take n (pe_pending p))"
  using assms
proof (induction "length (pe_pending p)" arbitrary: p e)
  case 0
  then show ?case by (subst match_pending.simps) (auto simp: conserves_def intro!: exI [of _ 0])
next
  case (Suc m)
  then obtain pc pcs where pc: "pe_pending p = pc # pcs" by (cases "pe_pending p") auto
  show ?case
  proof (cases "pe_work p = [] \<or> \<not> length (pe_starting p) < k_max_pending k")
    case True
    then show ?thesis by (subst match_pending.simps) (auto simp: conserves_def intro!: exI [of _ 0])
  next
    case False
    then obtain ws w where w: "pe_work p = ws @ [w]" by (metis rev_exhaust)
    from match_step [OF pc w _ Suc.prems, of cfg e] False obtain p1 e1 new where
      s: "match_pending B k os cfg p e = match_pending B k os cfg p1 e1" "pe_pending p1 = pcs" "pe_work p1 = ws"
        "pe_starting p1 = pe_starting p @ new" "map st_pending new \<in> {[], [pc]}" "conserves p e p1 e1" "peer_ready B k os p1" by blast
    have "m = length (pe_pending p1)" using Suc.hyps(2) s(2) pc by simp
    from Suc.hyps(1) [OF this s(7), of e1] obtain p' e' n new' where
      i: "match_pending B k os cfg p1 e1 = Ok (p', e')" "conserves p1 e1 p' e'"
        "pe_pending p' = [] \<or> pe_work p' = [] \<or> k_max_pending k \<le> length (pe_starting p')"
        "pe_pending p' = drop n (pe_pending p1)" "pe_work p' = take (length (pe_work p1) - n) (pe_work p1)"
        "pe_starting p' = pe_starting p1 @ new'" "subseq (map st_pending new') (take n (pe_pending p1))" by blast
    have "subseq (map st_pending (new @ new')) (take (Suc n) (pe_pending p))"
      using s(2,5) i(7) pc by auto
    then show ?thesis using s i pc w conserves_trans [OF s(6) i(2)]
      by (intro exI [of _ p'] exI [of _ e'] exI [of _ "Suc n"] exI [of _ "new @ new'"]) auto
  qed
qed

section \<open>Closing a peer\<close>

lemma close_relay_effects:
  "\<not> rl_closed r \<Longrightarrow> re_effects (snd (ct_relay_close k r (relay_view e d w))) = [Closes (rl_direct r), Closes (rl_work r)]"
  by (simp add: ct_relay_close_def relay_view_def sync_buffer_metric_def Let_def split: prod.splits)

lemma close_relays_closed: "we_closed (close_relays k rs e) = we_closed e @ concat (map relay_fds rs)"
  by (induction rs arbitrary: e) (simp_all add: relay_back_def relay_fds_def close_relay_effects)

text \<open>
  Closing a peer closes exactly what it holds. Every descriptor of an active peer, the control
  connection, the listeners, idle, pending and starting connections and open relays, is closed exactly
  once, in that order, and the slot is left as a fresh one, with no keys; closing it again does
  nothing.
\<close>

theorem peer_close_closes_all:
  assumes "pe_active p"
  shows "\<exists>e'. peer_close B k os p e = (zero_peer k, e') \<and> we_closed e' = we_closed e @ held_fds p \<and>
    peer_close B k os (zero_peer k) e' = (zero_peer k, e')"
proof -
  obtain ok p1 e1 where s: "peer_send B k os p e CT_MSG_GOAWAY 0 [] 100 = (ok, p1, e1)" by (metis prod_cases3)
  then have "we_closed e1 = we_closed e" using peer_send_frame [OF s] by auto
  moreover have "concat (map (\<lambda>s. [pc_fd (st_pending s), wk_fd (st_work s)]) xs) = concat (map starting_fds xs)" for xs
    by (simp add: starting_fds_def [abs_def])
  ultimately show ?thesis using assms s
    by (simp add: peer_close_def Let_def close_relays_closed held_fds_def) (simp add: zero_peer_def)
qed

theorem peer_close_closes_all_witness:
  "\<exists>e'. peer_close toy_backend default_defconfig demo_os demo_peer demo_env = (zero_peer default_defconfig, e') \<and> we_closed e' = [5, 9]"
  using peer_close_closes_all [of demo_peer toy_backend default_defconfig demo_os demo_env]
  by (auto simp: demo_peer_def demo_env_def held_fds_def demo_service_def)

section \<open>A failing start\<close>

lemma init_without_memory:
  "ct_relay_init B k ntop None m2 m3 d w client mode cipher master sid rnd wid svc md e =
     Ok (relay_fail k ((zero_relay d w client)\<lparr>rl_encrypted := k_data_encryption k \<and> mode = CT_ENC_REQUIRED,
       rl_cipher := (if k_data_encryption k then cipher else 0)\<rparr>) e)"
  by (simp add: ct_relay_init_def relay_buffers_def ct_ring_init_def Let_def ensure_def)

text \<open>
  C22: a stream whose relay cannot allocate its buffers has both descriptors closed twice: the relay
  closes them when its initialization fails, and the handler of the event closes them again when it
  removes the starting connection.
\<close>

theorem start_failure_closes_twice:
  assumes "st = pe_starting p ! i" "index_of (\<lambda>r. rl_closed r \<or> rl_direct r = CT_INVALID_SOCKET) (pe_relays p) = Some j"
    and "svc_at p (pc_svc (st_pending st)) = Ok s"
    and "fst (ct_stream_ready_recv B k (st_work st) (pe_ctl p) (sv_id (sr_cfg s)) (sv_encryption (sr_cfg s)) (st_stream_id st)
      (st_random st) (we_socks e (wk_fd (st_work st)))) = Ok True"
    and "os_ring os (st_stream_id st) 0 = None"
  shows "\<exists>p' e'. start_relay_finish B k os p st e = Ok (False, p', e') \<and>
    we_closed (snd (remove_starting p' i True e')) =
      we_closed e @ [pc_fd (st_pending st), wk_fd (st_work st), pc_fd (st_pending st), wk_fd (st_work st)]"
proof -
  obtain sk where ready: "ct_stream_ready_recv B k (st_work st) (pe_ctl p) (sv_id (sr_cfg s)) (sv_encryption (sr_cfg s)) (st_stream_id st)
      (st_random st) (we_socks e (wk_fd (st_work st))) = (Ok True, sk)" using assms(4) by (metis prod.collapse)
  let ?d = "pc_fd (st_pending st)" and ?w = "wk_fd (st_work st)"
  let ?r = "(zero_relay ?d ?w False)\<lparr>rl_encrypted := k_data_encryption k \<and> sv_encryption (sr_cfg s) = CT_ENC_REQUIRED,
       rl_cipher := (if k_data_encryption k then cc_cipher (pe_ctl p) else 0)\<rparr>"
  obtain r' re where c: "ct_relay_close k ?r (relay_view (put_sock ?w sk e) ?d ?w) = (r', re)" by fastforce
  have "re_effects re = [Closes (rl_direct ?r), Closes (rl_work ?r)]"
    using close_relay_effects [of ?r k "put_sock ?w sk e" ?d ?w] unfolding c by (simp add: zero_relay_def)
  then have "re_effects re = [Closes ?d, Closes ?w]" by (simp add: zero_relay_def)
  then show ?thesis using assms(1-3,5) ready c
    by (simp add: start_relay_finish_def Let_def init_without_memory relay_fail_def relay_back_def remove_starting_def)
qed

section \<open>A stream about to start\<close>

lemma ready_arrives:
  assumes B: "hash_sizes B" and len: "length (wk_id work) = 32" "length rnd = 32"
    and fits: "start_fits k c service" and nul: "nul_free service" and k: "k_control_buffer k \<le> k_max_frame k" "k_max_frame k \<le> 2 ^ 32 - 1"
    and h: "h = \<lparr>fh_type = ready_type True, fh_flags = 0, fh_payload_len = of_nat (length (ready_bytes B work c service mode sid rnd True)),
      fh_session_id = session_id (cc_keys c), fh_stream_id = sid, fh_sequence = 0\<rparr>"
    and t: "flowing 5000 (sk_in t)" "arrives (sk_in t) = header_bytes h @ ready_bytes B work c service mode sid rnd True"
  shows "fst (ct_stream_ready_recv B k work c service mode sid rnd t) = Ok True"
proof -
  let ?p = "ready_bytes B work c service mode sid rnd True"
  have len_p: "length ?p \<le> k_control_buffer k" using fits len B by (simp add: ready_bytes_def start_fits_def)
  have u: "unat (fh_payload_len h) = length ?p" using payload_len_unat [of "length ?p"] len_p k by (simp add: h)
  then have ho: "header_ok k h" using len_p k by (simp add: header_ok_def h ready_type_def ct_message_type_valid_def msg_defs)
  have fl: "fh_flags h = 0" by (simp add: h)
  from plain_recv_frame [OF t(1) _ ho fl u len_p, of "[]"] t(2) obtain t' where
    "ct_plain_recv k t (k_control_buffer k) 5000 = (Ok (h, ?p), t')" by auto
  then show ?thesis using ready_parse_bytes [OF B len fits nul, of mode sid True]
    by (simp add: ct_stream_ready_recv_def h ready_type_def)
qed

definition demo_pending :: pending_conn where
  "demo_pending = \<lparr>pc_fd = 20, pc_svc = 0, pc_metadata = plain_metadata, pc_deadline = 0\<rparr>"

definition demo_starting :: starting_conn where
  "demo_starting = \<lparr>st_pending = demo_pending, st_work = toy_work, st_stream_id = 7, st_deadline = 0, st_random = replicate 32 3,
     st_read_retry = 0\<rparr>"

definition demo_ready :: bytes where
  "demo_ready = (let c = pe_ctl demo_peer; p = ready_bytes toy_backend toy_work c (lit ''dns'') CT_ENC_DISABLED 7 (replicate 32 3) True in
     header_bytes \<lparr>fh_type = ready_type True, fh_flags = 0, fh_payload_len = of_nat (length p), fh_session_id = session_id (cc_keys c),
       fh_stream_id = 7, fh_sequence = 0\<rparr> @ p)"

definition busy_peer :: server_peer where
  "busy_peer = demo_peer\<lparr>pe_starting := [demo_starting], pe_relays := [(zero_relay 0 0 False)\<lparr>rl_closed := True\<rparr>],
     pe_work := [toy_work], pe_pending := [demo_pending]\<rparr>"

definition busy_env :: server_env where
  "busy_env = demo_env\<lparr>we_socks := (\<lambda>fd. \<lparr>sk_in = [Got demo_ready], sk_room = [Takes 1000, Takes 1000], sk_out = []\<rparr>)\<rparr>"

definition busy_os :: os where
  "busy_os = demo_os\<lparr>os_random := (\<lambda>_. Some (replicate 32 4))\<rparr>"

lemma busy_fits: "start_fits default_defconfig (pe_ctl demo_peer) (lit ''dns'')"
  by (simp add: start_fits_def default_defconfig_def client_control_def demo_peer_def)

lemma busy_ready: "peer_ready toy_backend default_defconfig busy_os busy_peer"
  using busy_fits toy_backend_laws(1) plain_metadata_ok
  by (simp add: peer_ready_def busy_peer_def busy_os_def demo_pending_def toy_work_def default_defconfig_def demo_peer_def demo_service_def)

theorem match_pending_conserves_witness:
  "\<exists>p' e'. match_pending toy_backend default_defconfig busy_os demo_server busy_peer busy_env = Ok (p', e') \<and>
     conserves busy_peer busy_env p' e' \<and> pe_pending p' = []"
proof -
  have f: "pe_pending busy_peer = [demo_pending]" "pe_work busy_peer = [toy_work]" "pe_starting busy_peer = [demo_starting]"
    "k_max_pending default_defconfig = 256" by (simp_all add: busy_peer_def default_defconfig_def)
  from match_pending_conserves [OF busy_ready, of demo_server busy_env, unfolded f] obtain p' e' n new where
    r: "match_pending toy_backend default_defconfig busy_os demo_server busy_peer busy_env = Ok (p', e')"
      "conserves busy_peer busy_env p' e'" "pe_pending p' = [] \<or> pe_work p' = [] \<or> 256 \<le> length (pe_starting p')"
      "pe_pending p' = drop n [demo_pending]" "pe_work p' = take (length [toy_work] - n) [toy_work]" "pe_starting p' = [demo_starting] @ new"
      "subseq (map st_pending new) (take n [demo_pending])"
    by blast
  from list_emb_length [OF r(7)] r(3-6) have "pe_pending p' = []" by (cases n) auto
  with r(1,2) show ?thesis by blast
qed

theorem start_failure_closes_twice_witness:
  "\<exists>p' e'. start_relay_finish toy_backend default_defconfig demo_os busy_peer demo_starting busy_env = Ok (False, p', e') \<and>
     we_closed (snd (remove_starting p' 0 True e')) = [20, wk_fd toy_work, 20, wk_fd toy_work]"
proof -
  let ?k = default_defconfig and ?c = "pe_ctl busy_peer"
  have c: "?c = pe_ctl demo_peer" by (simp add: busy_peer_def)
  have len: "length (wk_id toy_work) = 32" "length (replicate 32 3 :: bytes) = 32" by (simp_all add: toy_work_def)
  have nul: "nul_free (lit ''dns'')" by (simp add: nul_free_def lit_def of_char_def)
  have k: "k_control_buffer ?k \<le> k_max_frame ?k" "k_max_frame ?k \<le> 2 ^ 32 - 1" by (simp_all add: default_defconfig_def)
  have "demo_ready \<noteq> []" by (simp add: demo_ready_def Let_def header_bytes_def)
  then have "fst (ct_stream_ready_recv toy_backend ?k toy_work ?c (lit ''dns'') CT_ENC_DISABLED 7 (replicate 32 3)
      \<lparr>sk_in = [Got demo_ready], sk_room = [Takes 1000, Takes 1000], sk_out = []\<rparr>) = Ok True"
    unfolding c by (intro ready_arrives [OF toy_backend_laws(1) len busy_fits nul k refl]) (simp_all add: demo_ready_def Let_def)
  then have "fst (ct_stream_ready_recv toy_backend ?k (st_work demo_starting) ?c (sv_id (sr_cfg demo_service)) (sv_encryption (sr_cfg demo_service))
      (st_stream_id demo_starting) (st_random demo_starting) (we_socks busy_env (wk_fd (st_work demo_starting)))) = Ok True"
    by (simp add: demo_starting_def demo_service_def busy_env_def)
  from start_failure_closes_twice [OF _ _ _ this, of 0 0 demo_os] show ?thesis
    by (simp add: busy_peer_def demo_starting_def demo_pending_def svc_at_def demo_peer_def demo_os_def busy_env_def demo_env_def)
qed

section \<open>Only authorized services\<close>

lemma reply_no_fault: "\<exists>out'. reply_string k out s mx = Ok out'"
proof -
  have "ct_pack_string (k_control_buffer k) out s mx \<noteq> Fault"
    by (auto simp: ct_pack_string_def Let_def emits_eq)
  then show ?thesis by (cases "ct_pack_string (k_control_buffer k) out s mx") (simp_all add: reply_string_def)
qed

text \<open>What a service must be to be accepted.\<close>

definition acceptable :: "autoconf \<Rightarrow> ct_config \<Rightarrow> server_peer \<Rightarrow> ct_authorized_client \<Rightarrow> ct_service_config \<Rightarrow> bool" where
  "acceptable k cfg p a s \<longleftrightarrow> ct_authorized_port a (sv_remote_addr s) (sv_remote_port s) \<and>
     sv_id s \<notin> set (map (sv_id \<circ> sr_cfg) (pe_svc p)) \<and> length (pe_svc p) < size_of_int (au_max_services a) \<and>
     length (pe_svc p) < size_of_int (cf_max_services_per_client cfg) \<and> sv_encryption s \<in> {CT_ENC_REQUIRED, CT_ENC_DISABLED} \<and>
     (sv_encryption s = CT_ENC_REQUIRED \<longrightarrow> k_data_encryption k) \<and>
     (sv_type s = 1 \<or> k_udp k \<and> sv_type s = 2 \<and> sv_proxy_protocol s = 0 \<and> sv_udp_idle_timeout s \<in> {1..86400} \<and>
        sv_udp_max_sessions s \<in> {1..int (k_max_udp_sessions k)} \<and> sv_udp_max_datagram_size s \<in> {512..int (k_max_udp_datagram k)})"

lemma no_reason_iff: "(if b then Some w else r) = None \<longleftrightarrow> \<not> b \<and> r = None"
  by simp

lemma register_problem_None:
  assumes "register_problem k cfg p a s = None"
  shows "acceptable k cfg p a s"
proof -
  note r = assms [unfolded register_problem_def no_reason_iff]
  have "sv_id s \<notin> set (map (sv_id \<circ> sr_cfg) (pe_svc p))" using r by (auto simp: find_service_def index_of_None)
  moreover have "ct_authorized_port a (sv_remote_addr s) (sv_remote_port s)" "length (pe_svc p) < size_of_int (au_max_services a)"
    "length (pe_svc p) < size_of_int (cf_max_services_per_client cfg)" "sv_encryption s \<in> {CT_ENC_REQUIRED, CT_ENC_DISABLED}"
    "sv_encryption s = CT_ENC_REQUIRED \<longrightarrow> k_data_encryption k" using r by auto
  moreover have "sv_type s = 1 \<or> k_udp k \<and> sv_type s = 2 \<and> sv_proxy_protocol s = 0 \<and> sv_udp_idle_timeout s \<in> {1..86400} \<and>
        sv_udp_max_sessions s \<in> {1..int (k_max_udp_sessions k)} \<and> sv_udp_max_datagram_size s \<in> {512..int (k_max_udp_datagram k)}"
    using r by force
  ultimately show ?thesis unfolding acceptable_def by blast
qed

text \<open>The listeners a registration installs: some, and for TCP none that collides with an existing one.\<close>

definition bound_for :: "autoconf \<Rightarrow> os \<Rightarrow> int list \<Rightarrow> server_peer list \<Rightarrow> server_service \<Rightarrow> bool" where
  "bound_for k os control peers s \<longleftrightarrow>
     (if sv_type (sr_cfg s) = 1
      then sr_udp s = [] \<and> sr_listen s \<noteq> [] \<and> \<not> listen_set_overlaps_existing k os (sr_listen s) control peers
      else sr_listen s = [] \<and> sr_udp s \<noteq> [])"

text \<open>Every descriptor that binding for a refused request opened has been closed.\<close>

definition refused_clean ::
  "autoconf \<Rightarrow> os \<Rightarrow> ct_config \<Rightarrow> int list \<Rightarrow> server_peer list \<Rightarrow> server_peer \<Rightarrow> ct_authorized_client \<Rightarrow> bytes \<Rightarrow> int list \<Rightarrow> int list \<Rightarrow> bool" where
  "refused_clean k os cfg control peers p a b before after \<longleftrightarrow> (\<exists>closed. after = before @ closed \<and>
     (case ct_register_request_decode (k_max_service_id k + 1) (k_max_addr k + 1) b (length b) of
        Ok r \<Rightarrow> register_problem k cfg p a (requested_service k r) = None \<longrightarrow>
          set (fst (snd (register_bind k os control peers (requested_service k r)))) \<subseteq> set closed
      | _ \<Rightarrow> True))"


definition demo_entry_ok :: ct_authorized_client where
  "demo_entry_ok = \<lparr>au_id = lit ''home'', au_public_key = lit ''k'', au_allow_addr = lit ''*'', au_ports = [\<lparr>pr_first = 1, pr_last = 9\<rparr>],
     au_max_services = 4, au_max_streams = 4\<rparr>"


end
