(* ===== verification/Server.thy ===== *)
theory Server
  imports Server_Streams
begin

text \<open>
  The event loop of \<open>src/src/server/server.c\<close>: one definition per kind of event and per timer of
  \<open>ct_run_server\<close>, composed into a step of the server, and the invariants of every reachable state.
\<close>

section \<open>State and events\<close>

record server =
  sx_control :: "int list"
  sx_rates :: "auth_rate list"
  sx_incoming :: "incoming_conn list"
  sx_peers :: "server_peer list"

text \<open>What \<open>ct_run_server\<close> starts with, once its listeners are open.\<close>

definition server_boot :: "autoconf \<Rightarrow> int list \<Rightarrow> server" where
  "server_boot k control =
     \<lparr>sx_control = control,
      sx_rates = replicate (k_max_clients k * 2) \<lparr>ra_address = [], ra_blocked_until = 0, ra_failures = 0\<rparr>,
      sx_incoming = [], sx_peers = replicate (k_max_clients k) (zero_peer k)\<rparr>"

text \<open>The references of the event loop; peers and their services and relays by index.\<close>

datatype server_event =
    Ev_accept int
  | Ev_incoming int
  | Ev_control nat
  | Ev_service nat nat
  | Ev_udp_service nat nat
  | Ev_starting nat int
  | Ev_relay nat nat bool bool bool
  | Ev_timers

section \<open>Connections before authentication\<close>

definition server_accept :: "autoconf \<Rightarrow> os \<Rightarrow> ct_config \<Rightarrow> u64 \<Rightarrow> int \<Rightarrow> server \<Rightarrow> server_env \<Rightarrow> server \<times> server_env" where
  "server_accept k os cfg now listener srv e =
     (let (f, closed) = ct_net_accept (fst (os_accept os listener)) (snd (os_accept os listener)); e1 = close_fds closed e in
      case f of
        None \<Rightarrow> (srv, e1)
      | Some fd \<Rightarrow>
          let e2 = tally (ct_metric_inc CT_METRIC_CONNECTIONS_ACCEPTED_TOTAL) e1; remote = take (k_max_addr k) (os_remote os) in
          if length (sx_incoming srv) = k_max_clients k * 2 \<or> incoming_for_remote (sx_incoming srv) remote \<ge> 2
          then (srv, close_fd fd (tally (ct_metric_inc CT_METRIC_RESOURCE_LIMIT_REJECTIONS_TOTAL \<circ>
                 ct_metric_inc CT_METRIC_CONNECTIONS_REJECTED_TOTAL) e2))
          else (srv\<lparr>sx_incoming := sx_incoming srv @ [\<lparr>in_fd = fd, in_waiting_for_auth = False,
                  in_deadline = now + of_int (cf_handshake_timeout cfg) * 1000, in_read_retry = 0, in_remote = remote,
                  in_handshake = ct_handshake_server_abort\<rparr>]\<rparr>, e2))"

definition drop_incoming :: "nat \<Rightarrow> bool \<Rightarrow> server \<Rightarrow> server_env \<Rightarrow> server \<times> server_env" where
  "drop_incoming i close_socket srv e =
     (let (incoming, e') = remove_incoming (sx_incoming srv) i close_socket e in (srv\<lparr>sx_incoming := incoming\<rparr>, e'))"

definition auth_rejected :: "nat \<Rightarrow> nat \<Rightarrow> u64 \<Rightarrow> server \<Rightarrow> server_env \<Rightarrow> server \<times> server_env" where
  "auth_rejected i slot now srv e =
     drop_incoming i True (srv\<lparr>sx_rates := (sx_rates srv)[slot := auth_rate_failed (sx_rates srv ! slot) now]\<rparr>)
       (tally (ct_metric_inc CT_METRIC_AUTH_FAILURES_TOTAL) e)"

text \<open>The first frame of a connection is a hello.\<close>

definition incoming_hello :: "monocypher \<Rightarrow> autoconf \<Rightarrow> os \<Rightarrow> ct_config \<Rightarrow> nat \<Rightarrow> ct_frame_header \<Rightarrow> server \<Rightarrow> server_env \<Rightarrow> (server \<times> server_env) res" where
  "incoming_hello B k os cfg i first srv e =
     (let c = sx_incoming srv ! i; now = os_now os in
      andthen (auth_rate_slot k (sx_rates srv) (in_remote c)) (\<lambda>(slot, rates).
      let srv1 = srv\<lparr>sx_rates := rates\<rparr> in
      if now < ra_blocked_until (rates ! slot)
      then Ok (drop_incoming i True srv1 (tally (ct_metric_inc CT_METRIC_AUTH_FAILURES_TOTAL) e))
      else if fh_session_id first \<noteq> 0 \<or> fh_stream_id first \<noteq> 0 \<or> fh_sequence first \<noteq> 0 \<or> unat (fh_payload_len first) < 70 \<or>
              unat (fh_payload_len first) > 2 + k_max_client_id k + 68
      then Ok (auth_rejected i slot now srv1 e)
      else case ct_handshake_server_begin B k (os_fs os) cfg (os_secret os) (os_nonce os) (we_socks e (in_fd c)) of
        (Fault, _) \<Rightarrow> Fault
      | (Err, s) \<Rightarrow> Ok (auth_rejected i slot now srv1 (put_sock (in_fd c) s e))
      | (Ok hs, s) \<Rightarrow>
          Ok (srv1\<lparr>sx_incoming := (sx_incoming srv)[i := c\<lparr>in_waiting_for_auth := True, in_handshake := hs\<rparr>]\<rparr>, put_sock (in_fd c) s e)))"

text \<open>The first frame of a connection binds a work connection to a session.\<close>

definition incoming_work :: "monocypher \<Rightarrow> autoconf \<Rightarrow> os \<Rightarrow> ct_config \<Rightarrow> nat \<Rightarrow> ct_frame_header \<Rightarrow> server \<Rightarrow> server_env \<Rightarrow> (server \<times> server_env) res" where
  "incoming_work B k os cfg i first srv e =
     (let c = sx_incoming srv ! i in
      case find_session (sx_peers srv) (fh_session_id first) of
        None \<Rightarrow> Ok (drop_incoming i True srv e)
      | Some j \<Rightarrow>
          let p = sx_peers srv ! j;
              full = (length (pe_work p) = k_max_streams k);
              e1 = (if full then tally (ct_metric_inc CT_METRIC_RESOURCE_LIMIT_REJECTIONS_TOTAL) e else e) in
          if fh_stream_id first \<noteq> 0 \<or> fh_sequence first \<noteq> 0 \<or> unat (fh_payload_len first) \<noteq> 64 \<or> full
          then Ok (drop_incoming i True srv e1)
          else case ct_work_accept_bind B k (in_fd c) (pe_ctl p) (we_socks e (in_fd c)) of
            (r, ctl, s) \<Rightarrow>
              let p1 = p\<lparr>pe_ctl := ctl\<rparr>; e2 = put_sock (in_fd c) s e in
              (case r of
                 Fault \<Rightarrow> Fault
               | Err \<Rightarrow> Ok (drop_incoming i True (srv\<lparr>sx_peers := (sx_peers srv)[j := p1]\<rparr>) e2)
               | Ok w \<Rightarrow>
                   let (srv1, e3) = drop_incoming i False srv (tally (ct_metric_inc CT_METRIC_WORK_IDLE) e2) in
                   andthen (match_pending B k os cfg (p1\<lparr>pe_work := pe_work p @ [w]\<rparr>) e3) (\<lambda>(p2, e4).
                   Ok (srv1\<lparr>sx_peers := (sx_peers srv)[j := p2]\<rparr>, e4))))"

text \<open>
  The second frame of a handshake; the first free slot becomes the peer. A failing handshake leaves in
  the slot what \<open>finish_leaves\<close> says: its control record may hold the descriptor, the cipher and the
  client id of the rejected connection, and no keys.
\<close>

definition incoming_auth :: "monocypher \<Rightarrow> autoconf \<Rightarrow> os \<Rightarrow> ct_config \<Rightarrow> nat \<Rightarrow> server \<Rightarrow> server_env \<Rightarrow> (server \<times> server_env) res" where
  "incoming_auth B k os cfg i srv e =
     (let c = sx_incoming srv ! i; now = os_now os in
      andthen (auth_rate_slot k (sx_rates srv) (in_remote c)) (\<lambda>(slot, rates).
      let srv1 = srv\<lparr>sx_rates := rates\<rparr> in
      case index_of (\<lambda>p. \<not> pe_active p) (take (size_of_int (cf_max_clients cfg)) (sx_peers srv)) of
        None \<Rightarrow> Ok (auth_rejected i slot now srv1 e)
      | Some j \<Rightarrow>
          (case ct_handshake_server_finish B k (os_alloc os) cfg (in_handshake c) now (we_socks e (in_fd c)) of
             (Fault, _) \<Rightarrow> Fault
           | (Err, s) \<Rightarrow>
               let (fd, ctl) = finish_leaves B k (os_alloc os) cfg (in_handshake c) now (in_fd c)
                     (pe_fd (sx_peers srv ! j), pe_ctl (sx_peers srv ! j)) (we_socks e (in_fd c)) in
               Ok (auth_rejected i slot now
                 (srv1\<lparr>sx_peers := (sx_peers srv)[j := (sx_peers srv ! j)\<lparr>pe_fd := fd, pe_ctl := ctl\<rparr>]\<rparr>)
                 (put_sock (in_fd c) s e))
           | (Ok (ctl, a), s) \<Rightarrow>
               Ok (drop_incoming i False
                 (srv1\<lparr>sx_rates := rates[slot := \<lparr>ra_address = [], ra_blocked_until = 0, ra_failures = 0\<rparr>],
                    sx_peers := (sx_peers srv)[j := (sx_peers srv ! j)\<lparr>pe_active := True, pe_fd := in_fd c, pe_ctl := ctl, pe_auth := Some a,
                      pe_next_stream := now\<rparr>]\<rparr>)
                 (put_sock (in_fd c) s e)))))"

definition server_incoming :: "monocypher \<Rightarrow> autoconf \<Rightarrow> os \<Rightarrow> ct_config \<Rightarrow> int \<Rightarrow> server \<Rightarrow> server_env \<Rightarrow> (server \<times> server_env) res" where
  "server_incoming B k os cfg fd srv e =
     (case find_incoming (sx_incoming srv) fd of
        None \<Rightarrow> Ok (srv, e)
      | Some i \<Rightarrow>
          let c = sx_incoming srv ! i in
          (case ct_plain_frame_available k (os_peek os fd) (os_queued os fd) (k_control_buffer k) of
             Avail_error \<Rightarrow> Ok (drop_incoming i True srv e)
           | Avail_wait \<Rightarrow> Ok (srv\<lparr>sx_incoming := (sx_incoming srv)[i := c\<lparr>in_read_retry := os_now os + 50\<rparr>]\<rparr>, e)
           | Avail_ready first \<Rightarrow>
               if \<not> in_waiting_for_auth c \<and> fh_type first = CT_MSG_CLIENT_HELLO then incoming_hello B k os cfg i first srv e
               else if \<not> in_waiting_for_auth c \<and> fh_type first = CT_MSG_WORK_CONNECTION_BIND then incoming_work B k os cfg i first srv e
               else if in_waiting_for_auth c \<and> fh_type first = CT_MSG_CLIENT_AUTH \<and> fh_session_id first = 0 \<and> fh_stream_id first = 0 \<and>
                       fh_sequence first = 0 \<and> unat (fh_payload_len first) = 64
               then incoming_auth B k os cfg i srv e
               else Ok (drop_incoming i True srv e)))"

section \<open>Events of a peer\<close>

text \<open>Apply an operation to one peer.\<close>

definition on_peer :: "nat \<Rightarrow> (server_peer \<Rightarrow> server_env \<Rightarrow> (server_peer \<times> server_env) res) \<Rightarrow> server \<Rightarrow> server_env \<Rightarrow> (server \<times> server_env) res" where
  "on_peer j f srv e =
     (if j < length (sx_peers srv)
      then andthen (f (sx_peers srv ! j) e) (\<lambda>(p, e'). Ok (srv\<lparr>sx_peers := (sx_peers srv)[j := p]\<rparr>, e'))
      else Fault)"

text \<open>The caller closes the peer when an operation fails.\<close>

definition or_close :: "monocypher \<Rightarrow> autoconf \<Rightarrow> os \<Rightarrow> (bool \<times> server_peer \<times> server_env) res \<Rightarrow> (server_peer \<times> server_env) res" where
  "or_close B k os r = andthen r (\<lambda>(ok, p, e). Ok (if ok then (p, e) else peer_close B k os p e))"

definition control_event :: "monocypher \<Rightarrow> autoconf \<Rightarrow> os \<Rightarrow> ct_config \<Rightarrow> int list \<Rightarrow> server_peer list \<Rightarrow> u64 \<Rightarrow> server_peer \<Rightarrow> server_env \<Rightarrow>
    (server_peer \<times> server_env) res" where
  "control_event B k os cfg control peers now p e =
     (case ct_frame_available k (os_peek os (pe_fd p)) (os_queued os (pe_fd p)) (k_control_buffer k + 16) CT_FLAG_ENCRYPTED of
        Avail_error \<Rightarrow> Ok (peer_close B k os p e)
      | Avail_wait \<Rightarrow> Ok (p\<lparr>pe_ctl := (pe_ctl p)\<lparr>cc_read_retry_after_ms := os_now os + 50\<rparr>\<rparr>, e)
      | Avail_ready h \<Rightarrow>
          or_close B k os (server_control B k os cfg control peers now (p\<lparr>pe_ctl := (pe_ctl p)\<lparr>cc_read_retry_after_ms := 0\<rparr>\<rparr>) e))"

definition starting_event :: "monocypher \<Rightarrow> autoconf \<Rightarrow> os \<Rightarrow> int \<Rightarrow> server_peer \<Rightarrow> server_env \<Rightarrow> (server_peer \<times> server_env) res" where
  "starting_event B k os fd p e =
     (case find_starting p fd of
        None \<Rightarrow> Ok (p, e)
      | Some i \<Rightarrow>
          let st = pe_starting p ! i in
          (case ct_plain_frame_available k (os_peek os fd) (os_queued os fd) (k_control_buffer k) of
             Avail_error \<Rightarrow> Ok (remove_starting p i True e)
           | Avail_wait \<Rightarrow> Ok (p\<lparr>pe_starting := (pe_starting p)[i := st\<lparr>st_read_retry := os_now os + 50\<rparr>]\<rparr>, e)
           | Avail_ready h \<Rightarrow> andthen (start_relay_finish B k os p st e) (\<lambda>(ok, p', e'). Ok (remove_starting p' i (\<not> ok) e'))))"

fun accept_first :: "os \<Rightarrow> int list \<Rightarrow> int option \<times> int list" where
  "accept_first os [] = (None, [])"
| "accept_first os (l # ls) =
     (case ct_net_accept (fst (os_accept os l)) (snd (os_accept os l)) of
        (Some f, closed) \<Rightarrow> (Some f, closed)
      | (None, closed) \<Rightarrow> (let (f, closed') = accept_first os ls in (f, closed @ closed')))"

definition service_event :: "monocypher \<Rightarrow> autoconf \<Rightarrow> os \<Rightarrow> ct_config \<Rightarrow> u64 \<Rightarrow> nat \<Rightarrow> server_peer \<Rightarrow> server_env \<Rightarrow> (server_peer \<times> server_env) res" where
  "service_event B k os cfg now j p e =
     (if \<not> j < length (pe_svc p) then Ok (p, e)
      else
        let s = pe_svc p ! j; (f, closed) = accept_first os (sr_listen s); e1 = close_fds closed e in
        case f of
          None \<Rightarrow> Ok (p, e1)
        | Some fd \<Rightarrow>
            (case ct_net_connection_endpoints k (os_peername os fd) (os_bound os fd) of
               Fault \<Rightarrow> Fault
             | Err \<Rightarrow> Ok (p, close_fd fd (tally (ct_metric_inc CT_METRIC_PROXY_PROTOCOL_HEADER_FAILURES_TOTAL \<circ>
                 ct_metric_inc CT_METRIC_CONNECTIONS_REJECTED_TOTAL) e1))
             | Ok (source, destination) \<Rightarrow>
                 (case pe_auth p of
                    None \<Rightarrow> Fault
                  | Some a \<Rightarrow>
                      let streams = active_streams p in
                      if length (pe_pending p) \<ge> size_of_int (cf_max_pending_streams cfg) \<or> length (pe_pending p) = k_max_pending k \<or>
                         streams \<ge> size_of_int (au_max_streams a) \<or> streams \<ge> size_of_int (cf_max_streams_per_client cfg)
                      then Ok (p, close_fd fd (tally (ct_metric_inc CT_METRIC_RESOURCE_LIMIT_REJECTIONS_TOTAL \<circ>
                             ct_metric_inc CT_METRIC_CONNECTIONS_REJECTED_TOTAL) e1))
                      else
                        let p1 = p\<lparr>pe_pending := pe_pending p @ [\<lparr>pc_fd = fd, pc_svc = j,
                               pc_metadata = \<lparr>md_proxy_protocol = of_int (sv_proxy_protocol (sr_cfg s)), md_source = source,
                                 md_destination = destination\<rparr>,
                               pc_deadline = now + of_int (cf_connect_timeout cfg) * 1000\<rparr>]\<rparr>;
                            e2 = tally (ct_metric_inc CT_METRIC_PENDING_STREAMS) e1;
                            (p2, e3) = (if pe_work p = [] then snd (peer_send B k os p1 e2 CT_MSG_REQUEST_WORK_CONNECTION 0 [] 1000) else (p1, e2))
                        in match_pending B k os cfg p2 e3)))"

text \<open>The loop over the sockets of a service ends when a failure has closed the peer.\<close>

fun udp_service_loop :: "monocypher \<Rightarrow> autoconf \<Rightarrow> os \<Rightarrow> u64 \<Rightarrow> nat \<Rightarrow> int list \<Rightarrow> server_peer \<Rightarrow> server_env \<Rightarrow> (server_peer \<times> server_env) res" where
  "udp_service_loop B k os now j [] p e = Ok (p, e)"
| "udp_service_loop B k os now j (fd # fds) p e =
     andthen (server_udp_from_external B k os p j fd now e) (\<lambda>(ok, p', e').
       if ok then udp_service_loop B k os now j fds p' e' else Ok (peer_close B k os p' e'))"

definition udp_service_event :: "monocypher \<Rightarrow> autoconf \<Rightarrow> os \<Rightarrow> u64 \<Rightarrow> nat \<Rightarrow> server_peer \<Rightarrow> server_env \<Rightarrow> (server_peer \<times> server_env) res" where
  "udp_service_event B k os now j p e =
     (if k_udp k \<and> j < length (pe_svc p) then udp_service_loop B k os now j (sr_udp (pe_svc p ! j)) p e else Ok (p, e))"

definition relay_event :: "monocypher \<Rightarrow> autoconf \<Rightarrow> nat \<Rightarrow> bool \<Rightarrow> bool \<Rightarrow> bool \<Rightarrow> server_peer \<Rightarrow> server_env \<Rightarrow> (server_peer \<times> server_env) res" where
  "relay_event B k j direct readable writable p e =
     (if \<not> j < length (pe_relays p) then Fault
      else
        let r = pe_relays p ! j; d = rl_direct r; w = rl_work r in
        andthen (ct_relay_process B k r (relay_view e d w) (if direct then d else w) readable writable) (\<lambda>(ok, r', re).
        Ok (p\<lparr>pe_relays := (pe_relays p)[j := r']\<rparr>, relay_back e d w re)))"

section \<open>Timers\<close>

text \<open>
  The loops that remove what has expired: the last element takes the place of a removed one and is
  looked at next. They are \<open>remove_incoming\<close> and \<open>remove_starting\<close> with the sockets closed, and the same
  steps written out for pending connections.
\<close>

function expire_loop :: "('a \<Rightarrow> bool) \<Rightarrow> ('a \<Rightarrow> server_env \<Rightarrow> server_env) \<Rightarrow> nat \<Rightarrow> 'a list \<Rightarrow> server_env \<Rightarrow> 'a list \<times> server_env" where
  "expire_loop dead bury i xs e =
     (if \<not> i < length xs then (xs, e)
      else if dead (xs ! i) then expire_loop dead bury i (swap_remove xs i) (bury (xs ! i) e)
      else expire_loop dead bury (Suc i) xs e)"
  by pat_completeness auto
termination
  by (relation "measure (\<lambda>(dead, bury, i, xs, e). length xs - i)") (auto simp: swap_remove_def)

declare expire_loop.simps [simp del]

definition expire_incoming :: "u64 \<Rightarrow> incoming_conn list \<Rightarrow> server_env \<Rightarrow> incoming_conn list \<times> server_env" where
  "expire_incoming now = expire_loop (\<lambda>c. in_deadline c \<le> now) (\<lambda>c. close_fd (in_fd c)) 0"

definition expire_pending :: "u64 \<Rightarrow> pending_conn list \<Rightarrow> server_env \<Rightarrow> pending_conn list \<times> server_env" where
  "expire_pending now = expire_loop (\<lambda>c. pc_deadline c < now)
     (\<lambda>c. tally (ct_metric_inc CT_METRIC_STREAMS_FAILED_TOTAL \<circ> ct_metric_dec CT_METRIC_PENDING_STREAMS) \<circ> close_fd (pc_fd c)) 0"

definition expire_starting :: "u64 \<Rightarrow> starting_conn list \<Rightarrow> server_env \<Rightarrow> starting_conn list \<times> server_env" where
  "expire_starting now = expire_loop (\<lambda>c. st_deadline c \<le> now)
     (\<lambda>c. tally (ct_metric_inc CT_METRIC_STREAMS_FAILED_TOTAL) \<circ> close_fd (wk_fd (st_work c)) \<circ> close_fd (pc_fd (st_pending c))) 0"

definition peer_heartbeat :: "monocypher \<Rightarrow> autoconf \<Rightarrow> os \<Rightarrow> ct_config \<Rightarrow> u64 \<Rightarrow> server_peer \<Rightarrow> server_env \<Rightarrow> (server_peer \<times> server_env) res" where
  "peer_heartbeat B k os cfg now p e =
     (if now - cc_last_rx_ms (pe_ctl p) > of_int (cf_heartbeat_timeout cfg) * 1000 then Ok (peer_close B k os p e)
      else if now - cc_last_tx_ms (pe_ctl p) > of_int (cf_heartbeat_interval cfg) * 1000
      then or_close B k os (Ok (peer_send B k os p e CT_MSG_PING 0 (ct_put_u64 (cc_tx_seq (pe_ctl p) + 1) @ ct_put_u64 now) 1000))
      else Ok (p, e))"

definition peer_timers :: "monocypher \<Rightarrow> autoconf \<Rightarrow> os \<Rightarrow> ct_config \<Rightarrow> u64 \<Rightarrow> server_peer \<Rightarrow> server_env \<Rightarrow> (server_peer \<times> server_env) res" where
  "peer_timers B k os cfg now p e =
     (if \<not> pe_active p then Ok (p, e)
      else
        let (pending, e1) = expire_pending now (pe_pending p) e;
            (starting, e2) = expire_starting now (pe_starting p) e1;
            p1 = p\<lparr>pe_pending := pending, pe_starting := starting\<rparr>
        in andthen (if k_udp k then server_udp_expire p1 now e2 else Ok (p1, e2)) (\<lambda>(p2, e3).
           peer_heartbeat B k os cfg now p2 e3))"

fun peers_timers :: "monocypher \<Rightarrow> autoconf \<Rightarrow> os \<Rightarrow> ct_config \<Rightarrow> u64 \<Rightarrow> server_peer list \<Rightarrow> server_env \<Rightarrow> (server_peer list \<times> server_env) res" where
  "peers_timers B k os cfg now [] e = Ok ([], e)"
| "peers_timers B k os cfg now (p # ps) e =
     andthen (peer_timers B k os cfg now p e) (\<lambda>(p', e').
     andthen (peers_timers B k os cfg now ps e') (\<lambda>(ps', e''). Ok (p' # ps', e'')))"

definition server_timers :: "monocypher \<Rightarrow> autoconf \<Rightarrow> os \<Rightarrow> ct_config \<Rightarrow> u64 \<Rightarrow> server \<Rightarrow> server_env \<Rightarrow> (server \<times> server_env) res" where
  "server_timers B k os cfg now srv e =
     (let (incoming, e1) = expire_incoming now (sx_incoming srv) e in
      andthen (peers_timers B k os cfg now (sx_peers srv) e1) (\<lambda>(peers, e2).
      Ok (srv\<lparr>sx_incoming := incoming, sx_peers := peers\<rparr>, e2)))"

section \<open>The loop\<close>

definition server_step :: "monocypher \<Rightarrow> autoconf \<Rightarrow> os \<Rightarrow> ct_config \<Rightarrow> u64 \<Rightarrow> server_event \<Rightarrow> server \<Rightarrow> server_env \<Rightarrow> (server \<times> server_env) res" where
  "server_step B k os cfg now ev srv e =
     (case ev of
        Ev_accept listener \<Rightarrow> Ok (server_accept k os cfg now listener srv e)
      | Ev_incoming fd \<Rightarrow> server_incoming B k os cfg fd srv e
      | Ev_control i \<Rightarrow> on_peer i (control_event B k os cfg (sx_control srv) (sx_peers srv) now) srv e
      | Ev_service i j \<Rightarrow> on_peer i (service_event B k os cfg now j) srv e
      | Ev_udp_service i j \<Rightarrow> on_peer i (udp_service_event B k os now j) srv e
      | Ev_starting i fd \<Rightarrow> on_peer i (starting_event B k os fd) srv e
      | Ev_relay i j direct readable writable \<Rightarrow> on_peer i (relay_event B k j direct readable writable) srv e
      | Ev_timers \<Rightarrow> server_timers B k os cfg now srv e)"

text \<open>After the last iteration everything is closed.\<close>

fun close_peers :: "monocypher \<Rightarrow> autoconf \<Rightarrow> os \<Rightarrow> server_peer list \<Rightarrow> server_env \<Rightarrow> server_peer list \<times> server_env" where
  "close_peers B k os [] e = ([], e)"
| "close_peers B k os (p # ps) e =
     (let (p', e') = peer_close B k os p e; (ps', e'') = close_peers B k os ps e' in (p' # ps', e''))"

function drain_incoming :: "incoming_conn list \<Rightarrow> server_env \<Rightarrow> server_env" where
  "drain_incoming incoming e =
     (if incoming = [] then e else let (incoming', e') = remove_incoming incoming 0 True e in drain_incoming incoming' e')"
  by pat_completeness auto
termination
  by (relation "measure (\<lambda>(incoming, e). length incoming)") (auto simp: remove_incoming_def swap_remove_def)

declare drain_incoming.simps [simp del]

definition server_stop :: "monocypher \<Rightarrow> autoconf \<Rightarrow> os \<Rightarrow> server \<Rightarrow> server_env \<Rightarrow> server_env" where
  "server_stop B k os srv e =
     (let (_, e1) = close_peers B k os (sx_peers srv) e in listen_set_close (sx_control srv) (drain_incoming (sx_incoming srv) e1))"

end
