(* ===== verification/Event_Loop.thy ===== *)
theory Event_Loop
  imports Channel Endpoint
begin

text \<open>
  What the two event loops share: the states that any sequence of events reaches, invariants of those
  states, and rules to prove what an operation guarantees of its result if it returns one.
\<close>

section \<open>Reachable states\<close>

inductive reach :: "'s \<Rightarrow> ('s \<Rightarrow> 's \<Rightarrow> bool) \<Rightarrow> 's \<Rightarrow> bool" for start moves where
  reach_start: "reach start moves start"
| reach_step: "reach start moves s \<Longrightarrow> moves s t \<Longrightarrow> reach start moves t"

inductive_cases reachE: "reach start moves s"

locale loop_invariant =
  fixes start :: 's and moves :: "'s \<Rightarrow> 's \<Rightarrow> bool" and inv :: "'s \<Rightarrow> bool"
  assumes inv_start: "inv start"
    and inv_moves: "inv s \<Longrightarrow> moves s t \<Longrightarrow> inv t"
begin

lemma inv_reach: "reach start moves s \<Longrightarrow> inv s"
  by (induction rule: reach.induct) (auto intro: inv_start inv_moves)

end

section \<open>Results\<close>

definition ifok :: "('a \<Rightarrow> bool) \<Rightarrow> 'a res \<Rightarrow> bool" where
  "ifok P r \<longleftrightarrow> (\<forall>x. r = Ok x \<longrightarrow> P x)"

lemma ifok_rules:
  "P x \<Longrightarrow> ifok P (Ok x)" "ifok P Err" "ifok P Fault"
  "(\<And>x. y = Ok x \<Longrightarrow> ifok P (f x)) \<Longrightarrow> ifok P (andthen y f)"
  "(b \<Longrightarrow> ifok P r) \<Longrightarrow> (\<not> b \<Longrightarrow> ifok P r') \<Longrightarrow> ifok P (if b then r else r')"
  "(\<And>s t. q = (s, t) \<Longrightarrow> ifok P (g s t)) \<Longrightarrow> ifok P (case q of (s, t) \<Rightarrow> g s t)"
  "(o1 = None \<Longrightarrow> ifok P r) \<Longrightarrow> (\<And>i. o1 = Some i \<Longrightarrow> ifok P (h i)) \<Longrightarrow> ifok P (case o1 of None \<Rightarrow> r | Some i \<Rightarrow> h i)"
  "(\<And>a. z = Ok a \<Longrightarrow> ifok P (f1 a)) \<Longrightarrow> (z = Err \<Longrightarrow> ifok P r) \<Longrightarrow> (z = Fault \<Longrightarrow> ifok P r') \<Longrightarrow>
     ifok P (case z of Ok a \<Rightarrow> f1 a | Err \<Rightarrow> r | Fault \<Rightarrow> r')"
  by (auto simp: ifok_def res_simps split: prod.splits option.splits res.splits)

lemma ifokD: "ifok P r \<Longrightarrow> r = Ok x \<Longrightarrow> P x"
  by (simp add: ifok_def)

lemma ifok_mono: "ifok P r \<Longrightarrow> (\<And>x. P x \<Longrightarrow> Q x) \<Longrightarrow> ifok Q r"
  by (simp add: ifok_def)

lemma ifok_andthen: "ifok P y \<Longrightarrow> (\<And>x. P x \<Longrightarrow> ifok Q (f x)) \<Longrightarrow> ifok Q (andthen y f)"
  by (auto simp: ifok_def res_simps)

lemma ifok_cases:
  "(v = Avail_error \<Longrightarrow> ifok P r) \<Longrightarrow> (v = Avail_wait \<Longrightarrow> ifok P r') \<Longrightarrow> (\<And>fh. v = Avail_ready fh \<Longrightarrow> ifok P (m fh)) \<Longrightarrow>
     ifok P (case v of Avail_error \<Rightarrow> r | Avail_wait \<Rightarrow> r' | Avail_ready fh \<Rightarrow> m fh)"
  "(w = Would_block \<Longrightarrow> ifok P r) \<Longrightarrow> (\<And>ep d. w = Datagram ep d \<Longrightarrow> ifok P (n ep d)) \<Longrightarrow>
     ifok P (case w of Would_block \<Rightarrow> r | Datagram ep d \<Rightarrow> n ep d)"
  by (auto split: availability.splits udp_io.splits)

lemmas ifok_intros = ifok_rules ifok_cases

end
