(* ===== verification/Server_Invariants.thy ===== *)
theory Server_Invariants
  imports Server Event_Loop
begin

text \<open>
  Invariants of the server: what holds of every state that any sequence of events of
  \<open>ct_run_server\<close> can reach, and that stopping the server closes everything it holds.
\<close>

section \<open>A peer\<close>

text \<open>The services that the connections and sessions of a peer point to.\<close>

definition svc_refs :: "server_peer \<Rightarrow> nat set" where
  "svc_refs p = pc_svc ` set (pe_pending p) \<union> (pc_svc \<circ> st_pending) ` set (pe_starting p) \<union>
     us_svc ` {u \<in> set (pe_udp p). us_active u}"

definition authorized_services :: "ct_authorized_client \<Rightarrow> server_service list \<Rightarrow> bool" where
  "authorized_services a svc \<longleftrightarrow> distinct (map (sv_id \<circ> sr_cfg) svc) \<and>
     (\<forall>s\<in>set svc. ct_authorized_port a (sv_remote_addr (sr_cfg s)) (sv_remote_port (sr_cfg s)))"

text \<open>The limits that an entry of the table of clients and the configuration set.\<close>

definition stream_limit :: "ct_config \<Rightarrow> ct_authorized_client \<Rightarrow> nat" where
  "stream_limit cfg a = min (size_of_int (au_max_streams a)) (size_of_int (cf_max_streams_per_client cfg))"

definition service_limit :: "ct_config \<Rightarrow> ct_authorized_client \<Rightarrow> nat" where
  "service_limit cfg a = min (size_of_int (au_max_services a)) (size_of_int (cf_max_services_per_client cfg))"

text \<open>The services of a peer fit their array, and their sockets the two slots of a service.\<close>

definition sockets_fit :: "autoconf \<Rightarrow> server_service list \<Rightarrow> bool" where
  "sockets_fit k svc \<longleftrightarrow> length svc \<le> k_max_services k \<and> (\<forall>s\<in>set svc. length (sr_listen s) + length (sr_udp s) \<le> 2)"

text \<open>The datagram sessions of one service, and that no service has more than its limit.\<close>

definition udp_used :: "server_peer \<Rightarrow> nat \<Rightarrow> nat" where
  "udp_used p j = length (filter (\<lambda>u. us_active u \<and> us_svc u = j) (pe_udp p))"

definition udp_within :: "server_peer \<Rightarrow> bool" where
  "udp_within p \<longleftrightarrow> (\<forall>j<length (pe_svc p). udp_used p j \<le> size_of_int (sv_udp_max_sessions (sr_cfg (pe_svc p ! j))))"

definition peer_inv :: "autoconf \<Rightarrow> ct_config \<Rightarrow> server_peer \<Rightarrow> bool" where
  "peer_inv k cfg p \<longleftrightarrow>
     length (pe_relays p) = k_max_streams k \<and> length (pe_work p) \<le> k_max_streams k \<and>
     length (pe_pending p) \<le> k_max_pending k \<and> length (pe_starting p) \<le> k_max_pending k \<and>
     length (pe_udp p) = k_max_udp_sessions k \<and> svc_refs p \<subseteq> {..<length (pe_svc p)} \<and> sockets_fit k (pe_svc p) \<and> udp_within p \<and>
     (case pe_auth p of
        None \<Rightarrow> \<not> pe_active p \<and> pe_svc p = [] \<and> pe_work p = [] \<and> active_streams p = 0
      | Some a \<Rightarrow> pe_active p \<and> a \<in> set (cf_clients cfg) \<and> active_streams p \<le> stream_limit cfg a \<and>
          length (pe_pending p) \<le> size_of_int (cf_max_pending_streams cfg) \<and>
          length (pe_svc p) \<le> service_limit cfg a \<and> authorized_services a (pe_svc p))"

text \<open>An operation that opens nothing new.\<close>

definition settled :: "autoconf \<Rightarrow> server_peer \<Rightarrow> server_peer \<Rightarrow> bool" where
  "settled k p p' \<longleftrightarrow> pe_active p' = pe_active p \<and> pe_auth p' = pe_auth p \<and> pe_svc p' = pe_svc p \<and>
     length (pe_relays p') = length (pe_relays p) \<and> length (pe_work p') \<le> length (pe_work p) \<and>
     length (pe_pending p') \<le> length (pe_pending p) \<and> length (pe_udp p') = length (pe_udp p) \<and>
     length (pe_starting p') \<le> max (length (pe_starting p)) (k_max_pending k) \<and>
     active_streams p' \<le> active_streams p \<and> svc_refs p' \<subseteq> svc_refs p \<union> {..<length (pe_svc p)} \<and> (udp_within p \<longrightarrow> udp_within p')"

lemma steady_refl [simp, intro]: "settled k p p"
  by (simp add: settled_def)

lemma steady_trans: "settled k p q \<Longrightarrow> settled k q r \<Longrightarrow> settled k p r"
  unfolding settled_def by (auto simp: max_def split: if_splits)

lemma peer_inv_steady: "peer_inv k cfg p \<Longrightarrow> settled k p p' \<Longrightarrow> peer_inv k cfg p'"
  unfolding peer_inv_def settled_def by (auto split: option.splits)

text \<open>Fields the invariant does not look at.\<close>

lemma udp_within_cong: "pe_svc p' = pe_svc p \<Longrightarrow> pe_udp p' = pe_udp p \<Longrightarrow> udp_within p' = udp_within p"
  by (simp add: udp_within_def udp_used_def)

lemma udp_within_fields [simp]:
  "udp_within (p\<lparr>pe_ctl := c\<rparr>) = udp_within p" "udp_within (p\<lparr>pe_next_stream := n\<rparr>) = udp_within p" "udp_within (p\<lparr>pe_fd := fd\<rparr>) = udp_within p"
  "udp_within (p\<lparr>pe_work := ws\<rparr>) = udp_within p" "udp_within (p\<lparr>pe_pending := pcs\<rparr>) = udp_within p"
  "udp_within (p\<lparr>pe_starting := sts\<rparr>) = udp_within p" "udp_within (p\<lparr>pe_relays := rs\<rparr>) = udp_within p"
  "udp_within (p\<lparr>pe_active := b\<rparr>) = udp_within p" "udp_within (p\<lparr>pe_auth := a\<rparr>) = udp_within p"
  by (rule udp_within_cong; simp)+

lemma steady_fields [simp]:
  "settled k p (p\<lparr>pe_ctl := c\<rparr>)" "settled k p (p\<lparr>pe_next_stream := n\<rparr>)" "settled k p (p\<lparr>pe_ctl := c, pe_next_stream := n\<rparr>)"
  by (simp_all add: settled_def active_streams_def svc_refs_def)

lemma peer_inv_fields [simp]:
  "peer_inv k cfg (p\<lparr>pe_ctl := c\<rparr>) = peer_inv k cfg p" "peer_inv k cfg (p\<lparr>pe_next_stream := n\<rparr>) = peer_inv k cfg p"
  "peer_inv k cfg (p\<lparr>pe_fd := fd\<rparr>) = peer_inv k cfg p"
  by (simp_all add: peer_inv_def active_streams_def svc_refs_def split: option.split)

lemma peer_inv_zero: "peer_inv k cfg (zero_peer k)"
  by (simp add: peer_inv_def zero_peer_def active_streams_def svc_refs_def zero_session_def sockets_fit_def udp_within_def)

lemma peer_inv_close: "peer_inv k cfg p \<Longrightarrow> peer_inv k cfg (fst (peer_close B k os p e))"
  by (simp add: peer_close_def Let_def peer_inv_zero split: prod.splits)

lemma peer_close_keeps: "peer_inv k cfg p \<Longrightarrow> case peer_close B k os p e of (p', e') \<Rightarrow> peer_inv k cfg p'"
  using peer_inv_close [of k cfg p B os e] by (simp add: split_beta)

lemma peer_send_steady: "peer_send B k' os p e type stream payload ms = (ok, p', e') \<Longrightarrow> settled k p p'"
  using peer_send_frame by fastforce

section \<open>The operations of a peer\<close>

text \<open>A session table that is rewritten.\<close>

lemma steady_udp:
  assumes "length us = length (pe_udp p)"
    and "\<And>u. u \<in> set us \<Longrightarrow> us_active u \<Longrightarrow> us_svc u \<in> svc_refs p \<union> {..<length (pe_svc p)}"
    and "\<And>j. j < length (pe_svc p) \<Longrightarrow> udp_used (p\<lparr>pe_udp := us\<rparr>) j \<le> max (udp_used p j) (size_of_int (sv_udp_max_sessions (sr_cfg (pe_svc p ! j))))"
  shows "settled k p (p\<lparr>pe_udp := us\<rparr>)"
proof -
  have "udp_within (p\<lparr>pe_udp := us\<rparr>)" if "udp_within p" using assms(3) that by (fastforce simp: udp_within_def max_def split: if_splits)
  then show ?thesis using assms(1,2) by (auto simp: settled_def active_streams_def svc_refs_def)
qed

lemma active_ref: "u \<in> set (pe_udp p) \<Longrightarrow> us_active u \<Longrightarrow> us_svc u \<in> svc_refs p"
  by (auto simp: svc_refs_def)

lemma length_filter_set:
  assumes "i < length xs"
  shows "length (filter P (xs[i := x])) + of_bool (P (xs ! i)) = length (filter P xs) + of_bool (P x)"
proof -
  have "length (filter P xs) = length (filter P (take i xs)) + length (filter P (xs ! i # drop (Suc i) xs))"
    by (subst id_take_nth_drop [OF assms]) simp
  then show ?thesis using assms by (simp add: upd_conv_take_nth_drop)
qed

lemma steady_session:
  assumes "us_svc u = us_svc (pe_udp p ! i)" "us_active u = us_active (pe_udp p ! i)"
  shows "settled k p (p\<lparr>pe_udp := (pe_udp p)[i := u]\<rparr>)"
proof (cases "i < length (pe_udp p)")
  case True
  show ?thesis
  proof (rule steady_udp)
    fix v
    assume v: "v \<in> set ((pe_udp p)[i := u])" "us_active v"
    then have "v \<in> set (pe_udp p) \<or> v = u" using set_update_subset_insert by fastforce
    then show "us_svc v \<in> svc_refs p \<union> {..<length (pe_svc p)}"
      using assms True v(2) active_ref [of "pe_udp p ! i" p] active_ref [of v p] by auto
  next
    fix j
    show "udp_used (p\<lparr>pe_udp := (pe_udp p)[i := u]\<rparr>) j \<le> max (udp_used p j) (size_of_int (sv_udp_max_sessions (sr_cfg (pe_svc p ! j))))"
      using length_filter_set [OF True, of "\<lambda>u. us_active u \<and> us_svc u = j" u] assms by (simp add: udp_used_def)
  qed simp
qed (simp add: list_update_beyond)

text \<open>A new session takes a free entry of the table, and only below the limit of its service.\<close>

lemma steady_new_session:
  assumes "us_svc u < length (pe_svc p)" "index_of (\<lambda>u. \<not> us_active u) (pe_udp p) = Some i"
    "length (filter us_active (pe_udp p)) < size_of_int (sv_udp_max_sessions (sr_cfg (pe_svc p ! us_svc u)))"
  shows "settled k p (p\<lparr>pe_udp := (pe_udp p)[i := u]\<rparr>)"
proof (rule steady_udp)
  have i: "i < length (pe_udp p)" "\<not> us_active (pe_udp p ! i)" using index_of_Some [OF assms(2)] by auto
  fix v
  assume v: "v \<in> set ((pe_udp p)[i := u])" "us_active v"
  then have "v \<in> set (pe_udp p) \<or> v = u" using set_update_subset_insert by fastforce
  then show "us_svc v \<in> svc_refs p \<union> {..<length (pe_svc p)}" using assms(1) v(2) active_ref [of v p] by auto
next
  have i: "i < length (pe_udp p)" "\<not> us_active (pe_udp p ! i)" using index_of_Some [OF assms(2)] by auto
  fix j
  have "length (filter (\<lambda>u. us_active u \<and> us_svc u = j) (pe_udp p)) \<le> length (filter us_active (pe_udp p))"
    by (metis (no_types) filter_filter length_filter_le)
  then show "udp_used (p\<lparr>pe_udp := (pe_udp p)[i := u]\<rparr>) j \<le> max (udp_used p j) (size_of_int (sv_udp_max_sessions (sr_cfg (pe_svc p ! j))))"
    using length_filter_set [OF i(1), of "\<lambda>u. us_active u \<and> us_svc u = j" u] i(2) assms(3)
    by (cases "us_svc u = j") (auto simp: udp_used_def)
qed simp

lemma create_steady:
  assumes "server_udp_create p svc peer listener now e = Ok (slot, p', e')"
  shows "settled k p p'"
proof -
  have "settled k p (p\<lparr>pe_next_stream := n, pe_udp := (pe_udp p)[i := u]\<rparr>)"
    if "us_svc u < length (pe_svc p)" "index_of (\<lambda>u. \<not> us_active u) (pe_udp p) = Some i"
      "length (filter us_active (pe_udp p)) < size_of_int (sv_udp_max_sessions (sr_cfg (pe_svc p ! us_svc u)))" for n i u
    using steady_trans [OF steady_fields(2) steady_new_session [of u "p\<lparr>pe_next_stream := n\<rparr>" i]] that by simp
  then show ?thesis using assms
    by (auto simp: server_udp_create_def svc_at_def Let_def res_simps not_le split: if_splits option.splits)
qed

lemma external_keeps: "ifok (\<lambda>(ok, p', e'). settled k p p') (server_udp_from_external B k' os p svc listener now e)"
proof -
  have touch: "settled k p (p1\<lparr>pe_udp := (pe_udp p1)[i := (pe_udp p1 ! i)\<lparr>us_last_ms := t, us_tx_seq := n\<rparr>]\<rparr>)"
    if "settled k p p1" for p1 i t n
    by (rule steady_trans [OF that], rule steady_session) simp_all
  show ?thesis unfolding server_udp_from_external_def Let_def
    by (intro ifok_intros) (auto split: option.splits dest!: create_steady [where k = k] peer_send_steady [where k = k]
        intro: touch steady_trans [OF touch])
qed

lemma from_client_steady:
  assumes "server_udp_from_client k' os p b now e = Ok (ok, p', e')"
  shows "settled k p p'"
  using assms unfolding server_udp_from_client_def Let_def
  by (auto simp: res_simps split: if_splits option.splits prod.splits res.splits intro!: steady_session)

lemma expire_sessions_steady:
  "expire_sessions p now us e = Ok (us', e') \<Longrightarrow> length us' = length us \<and> (\<forall>u\<in>set us'. us_active u \<longrightarrow> u \<in> set us) \<and>
     (\<forall>j. length (filter (\<lambda>u. us_active u \<and> us_svc u = j) us') \<le> length (filter (\<lambda>u. us_active u \<and> us_svc u = j) us))"
  by (induction us arbitrary: e us' e') (auto simp: res_simps zero_session_def le_SucI split: if_splits)

lemma expire_steady: "server_udp_expire p now e = Ok (p', e') \<Longrightarrow> settled k p p'"
  by (auto simp: server_udp_expire_def res_simps udp_used_def dest!: expire_sessions_steady intro!: steady_udp active_ref max.coboundedI1)

text \<open>Streams move from pending to starting to relays; their number does not grow.\<close>

lemma begin_steady:
  assumes "start_relay_begin B k os p pc w t e = Ok (ok, p', e')"
  shows "(\<exists>n. p' = p\<lparr>pe_next_stream := n\<rparr>) \<or>
    (\<exists>n s. p' = p\<lparr>pe_next_stream := n, pe_starting := pe_starting p @ [s]\<rparr> \<and> st_pending s = pc \<and>
      length (pe_starting p) \<noteq> k_max_pending k)"
proof -
  define Q where "Q = (\<lambda>q. (\<exists>n. q = p\<lparr>pe_next_stream := n\<rparr>) \<or>
    (\<exists>n s. q = p\<lparr>pe_next_stream := n, pe_starting := pe_starting p @ [s]\<rparr> \<and> st_pending s = pc \<and>
      length (pe_starting p) \<noteq> k_max_pending k))"
  have Q0: "Q (p\<lparr>pe_next_stream := n\<rparr>)" for n by (auto simp: Q_def)
  have Q1: "Q (p\<lparr>pe_next_stream := n, pe_starting := pe_starting p @ [s]\<rparr>)"
    if "st_pending s = pc" "length (pe_starting p) \<noteq> k_max_pending k" for n s using that by (auto simp: Q_def)
  have "ifok (\<lambda>(ok, q, e'). Q q) (start_relay_begin B k os p pc w t e)"
    unfolding start_relay_begin_def Let_def
    by (intro ifok_rules; simp) (use Q0 [of "pe_next_stream p"] in simp, simp add: Q1, simp add: Q0)
  from ifokD [OF this assms] show ?thesis by (simp add: Q_def)
qed

lemma match_round:
  assumes "pe_pending p = pc # pcs" "length (pe_starting p) < k_max_pending k"
    "start_relay_begin B k os (p\<lparr>pe_pending := pcs, pe_work := ws\<rparr>) pc w t e = Ok (ok, p', e')"
    "length ws \<le> length (pe_work p)"
  shows "settled k p p'"
  using begin_steady [OF assms(3)] assms(1,2,4) by (auto simp: settled_def active_streams_def svc_refs_def)

lemma match_pending_steady: "match_pending B k os cfg p e = Ok (p', e') \<Longrightarrow> settled k p p'"
proof (induction B k os cfg p e rule: match_pending.induct)
  case (1 B k os cfg p e)
  show ?case
  proof (cases "pe_pending p = [] \<or> pe_work p = [] \<or> \<not> length (pe_starting p) < k_max_pending k")
    case True
    then show ?thesis using "1.prems" by (subst (asm) match_pending.simps) simp
  next
    case False
    let ?p = "p\<lparr>pe_pending := tl (pe_pending p), pe_work := butlast (pe_work p)\<rparr>"
    let ?e = "tally (ct_metric_dec CT_METRIC_WORK_IDLE \<circ> ct_metric_dec CT_METRIC_PENDING_STREAMS) e"
    obtain ok p1 e1 where b: "start_relay_begin B k os ?p (hd (pe_pending p)) (last (pe_work p))
        (of_int (cf_connect_timeout cfg) * 1000) ?e = Ok (ok, p1, e1)"
      using False "1.prems" by (subst (asm) match_pending.simps) (auto simp: Let_def split: res.splits)
    from match_round [OF _ _ b] False have "settled k p p1" by simp
    moreover obtain e2 where "match_pending B k os cfg p1 e2 = Ok (p', e')" and "settled k p1 p'"
      using "1.prems" "1.IH" [OF False refl refl refl refl b] False b
      by (subst (asm) match_pending.simps) (cases ok; auto simp: Let_def)
    ultimately show ?thesis by (blast intro: steady_trans)
  qed
qed

lemma length_filter_update: "length (filter P (xs[i := x])) \<le> length (filter P xs) + 1"
proof (cases "i < length xs")
  case True
  have "length (filter P xs) = length (filter P (take i xs)) + length (filter P (xs ! i # drop (Suc i) xs))"
    by (subst id_take_nth_drop [OF True]) simp
  then show ?thesis using True by (simp add: upd_conv_take_nth_drop)
qed (simp add: list_update_beyond)

lemma finish_frame:
  assumes "start_relay_finish B k os p st e = Ok (ok, p', e')"
  shows "\<exists>rs. p' = p\<lparr>pe_relays := rs\<rparr> \<and> length rs = length (pe_relays p) \<and>
    length (filter (\<lambda>r. \<not> rl_closed r) rs) \<le> length (filter (\<lambda>r. \<not> rl_closed r) (pe_relays p)) + 1"
proof -
  have "p' = p \<or> (\<exists>i r. p' = p\<lparr>pe_relays := (pe_relays p)[i := r]\<rparr>)"
    using assms unfolding start_relay_finish_def Let_def by (auto simp: res_simps case_Ok_iff split: option.splits)
  then show ?thesis
  proof
    assume "p' = p"
    then show ?thesis by (intro exI [of _ "pe_relays p"]) simp
  qed (auto simp del: One_nat_def add_Suc_right simp: length_filter_update)
qed

lemma remove_starting_steady:
  assumes "i < length (pe_starting p)" "length rs = length (pe_relays p)"
    "length (filter (\<lambda>r. \<not> rl_closed r) rs) \<le> length (filter (\<lambda>r. \<not> rl_closed r) (pe_relays p)) + 1"
  shows "settled k p (fst (remove_starting (p\<lparr>pe_relays := rs\<rparr>) i c e))"
  using assms set_swap_remove [of "pe_starting p" i]
  by (auto simp: settled_def active_streams_def svc_refs_def remove_starting_def length_swap_remove)

lemma starting_event_steady:
  assumes "starting_event B k os fd p e = Ok (p', e')"
  shows "settled k p p'"
proof (cases "find_starting p fd")
  case None
  then show ?thesis using assms by (simp add: starting_event_def)
next
  case (Some i)
  then have i: "i < length (pe_starting p)" using index_of_Some by (auto simp: find_starting_def)
  note same = remove_starting_steady [OF i, of "pe_relays p" k True e, simplified]
  have touched: "settled k p (p\<lparr>pe_starting := (pe_starting p)[i := (pe_starting p ! i)\<lparr>st_read_retry := t\<rparr>]\<rparr>)" for t
  proof -
    have "(pc_svc \<circ> st_pending) ` set ((pe_starting p)[i := (pe_starting p ! i)\<lparr>st_read_retry := t\<rparr>]) \<subseteq> (pc_svc \<circ> st_pending) ` set (pe_starting p)"
      using set_update_subset_insert [of "pe_starting p" i] i by (force dest: subsetD)
    then show ?thesis by (auto simp: settled_def active_streams_def svc_refs_def)
  qed
  show ?thesis
  proof (cases "ct_plain_frame_available k (os_peek os fd) (os_queued os fd) (k_control_buffer k)")
    case Avail_error
    then show ?thesis using assms Some same by (auto simp: starting_event_def Let_def dest: sym)
  next
    case Avail_wait
    then show ?thesis using assms Some touched by (auto simp: starting_event_def Let_def)
  next
    case (Avail_ready h)
    then obtain ok p1 e1 where f: "start_relay_finish B k os p (pe_starting p ! i) e = Ok (ok, p1, e1)"
      "remove_starting p1 i (\<not> ok) e1 = (p', e')"
      using assms Some by (auto simp: starting_event_def Let_def res_simps)
    from finish_frame [OF f(1)] obtain rs where "p1 = p\<lparr>pe_relays := rs\<rparr>" "length rs = length (pe_relays p)"
      "length (filter (\<lambda>r. \<not> rl_closed r) rs) \<le> length (filter (\<lambda>r. \<not> rl_closed r) (pe_relays p)) + 1" by blast
    with remove_starting_steady [OF i this(2,3), of k "\<not> ok" e1] f(2) show ?thesis by simp
  qed
qed

lemma relay_event_steady:
  assumes "relay_event B k j direct readable writable p e = Ok (p', e')"
  shows "settled k p p'"
proof -
  from assms obtain ok r re where j: "j < length (pe_relays p)" and p': "p' = p\<lparr>pe_relays := (pe_relays p)[j := r]\<rparr>"
    and run: "ct_relay_process B k (pe_relays p ! j) (relay_view e (rl_direct (pe_relays p ! j)) (rl_work (pe_relays p ! j)))
      (if direct then rl_direct (pe_relays p ! j) else rl_work (pe_relays p ! j)) readable writable = Ok (ok, r, re)"
    by (auto simp: relay_event_def Let_def res_simps split: if_splits)
  have "rl_closed r" if "rl_closed (pe_relays p ! j)" using run that by (simp add: ct_relay_process_def)
  then have "length (filter (\<lambda>r. \<not> rl_closed r) ((pe_relays p)[j := r])) \<le> length (filter (\<lambda>r. \<not> rl_closed r) (pe_relays p))"
    using j by (subst (2) id_take_nth_drop [OF j]) (simp add: upd_conv_take_nth_drop)
  then show ?thesis by (auto simp: p' settled_def active_streams_def svc_refs_def)
qed

section \<open>The events of a peer\<close>

text \<open>A service that is added.\<close>

lemma peer_inv_service:
  assumes "peer_inv k cfg p" "pe_auth p = Some a" "acceptable k cfg p a (sr_cfg s)" "length (sr_listen s) + length (sr_udp s) \<le> 2"
    "length (pe_svc p) < k_max_services k"
  shows "peer_inv k cfg (p\<lparr>pe_svc := pe_svc p @ [s]\<rparr>)"
proof -
  have "udp_used p j = 0" if "j \<ge> length (pe_svc p)" for j
    using assms(1) that by (fastforce simp: udp_used_def filter_empty_conv peer_inv_def svc_refs_def)
  then have "udp_within (p\<lparr>pe_svc := pe_svc p @ [s]\<rparr>)"
    using assms(1) by (auto simp: peer_inv_def udp_within_def udp_used_def nth_append)
  then show ?thesis using assms
    by (auto simp: peer_inv_def svc_refs_def active_streams_def acceptable_def authorized_services_def service_limit_def sockets_fit_def)
qed

lemma open_any_length: "length (fst (open_any opener xs)) \<le> length xs"
  by (induction xs) (auto simp: Let_def split: prod.splits option.splits)

lemma open_address_two: "length (fst (open_address opener k answers addr)) \<le> 2"
  using open_any_length [of opener "[(answers (lit ''0.0.0.0''), k_ipv4 k), (answers (lit ''::''), k_ipv6 k)]"]
    open_any_length [of opener "[(answers addr, True)]"] unfolding open_address_def by (simp del: open_any.simps)

lemma register_bind_two: "register_bind k os control peers s = (why, fds, closed) \<Longrightarrow> length fds \<le> 2"
  using open_address_two [of ct_net_listen k "\<lambda>a. os_listen os a (sv_remote_port s)" "sv_remote_addr s"]
    open_address_two [of ct_udp_bind k "\<lambda>a. os_udp_bind os a (sv_remote_port s)" "sv_remote_addr s"]
  by (simp add: register_bind_def listen_set_open_def udp_set_open_def split_beta split: if_splits)

lemma register_keeps:
  assumes "peer_inv k cfg p"
  shows "ifok (\<lambda>(ok, p', e'). peer_inv k cfg p') (register_service B k os cfg control peers p b e)"
proof -
  have added: "peer_inv k cfg p'" if "pe_auth p = Some a" "register_problem k cfg p a s = None" "register_bind k os control peers s = (why, fds, closed)"
    "peer_send B k os (p\<lparr>pe_svc := pe_svc p @ [\<lparr>sr_cfg = s, sr_listen = (if sv_type s = 1 then fds else []), sr_udp = (if sv_type s = 1 then [] else fds)\<rparr>]\<rparr>)
       e1 type stream payload ms = (ok, p', e')"
    "\<not> length (pe_svc p) \<ge> k_max_services k" for a s why fds closed e1 type stream payload ms ok p' e'
    using peer_inv_service [OF assms that(1), of "\<lparr>sr_cfg = s, sr_listen = (if sv_type s = 1 then fds else []), sr_udp = (if sv_type s = 1 then [] else fds)\<rparr>"]
      register_problem_None [OF that(2)] register_bind_two [OF that(3)] that(5) peer_inv_steady [OF _ peer_send_steady [OF that(4)]] by simp
  have same: "peer_inv k cfg p'" if "peer_send B k os p e1 type stream payload ms = (ok, p', e')" for e1 type stream payload ms ok p' e'
    using assms peer_inv_steady peer_send_steady [OF that] by blast
  show ?thesis unfolding register_service_def Let_def
    by (intro ifok_intros) (auto simp: assms split: option.splits prod.splits intro: added same)
qed

lemma server_control_keeps:
  assumes "peer_inv k cfg p"
  shows "ifok (\<lambda>(ok, p', e'). peer_inv k cfg p') (server_control B k os cfg control peers now p e)"
proof -
  have client: "ifok (\<lambda>(ok, p', e'). peer_inv k cfg p') (server_udp_from_client k os (p\<lparr>pe_ctl := c\<rparr>) b now e1)" for c b e1
    using peer_inv_steady [of k cfg "p\<lparr>pe_ctl := c\<rparr>"] from_client_steady [of k os "p\<lparr>pe_ctl := c\<rparr>"] assms by (fastforce simp: ifok_def)
  have send: "peer_inv k cfg p'" if "peer_send B k os (p\<lparr>pe_ctl := c\<rparr>) e1 type stream payload ms = (ok, p', e')"
    for c e1 type stream payload ms ok p' e' using assms peer_inv_steady [OF _ peer_send_steady [OF that]] by simp
  show ?thesis unfolding server_control_def Let_def
    by (intro ifok_intros client register_keeps) (auto simp: assms split: prod.splits intro: send)
qed

lemma or_close_keeps:
  assumes "ifok (\<lambda>(ok, p', e'). peer_inv k cfg p') r"
  shows "ifok (\<lambda>(p', e'). peer_inv k cfg p') (or_close B k os r)"
proof -
  have "peer_inv k cfg q" if "(if ok then (p, e) else peer_close B k os p e) = (q, e')" "peer_inv k cfg p" for ok p e q e'
    using that peer_inv_close [OF that(2), of B os e] by (auto split: if_splits)
  then show ?thesis unfolding or_close_def by (intro ifok_andthen [OF assms]) (auto intro!: ifok_intros)
qed

lemma control_event_keeps:
  assumes "peer_inv k cfg p"
  shows "ifok (\<lambda>(p', e'). peer_inv k cfg p') (control_event B k os cfg control peers now p e)"
  unfolding control_event_def
  by (intro ifok_intros or_close_keeps server_control_keeps peer_close_keeps) (simp_all add: assms)

text \<open>A connection that starts to wait.\<close>

lemma peer_inv_pending:
  assumes "peer_inv k cfg p" "pe_auth p = Some a" "active_streams p < stream_limit cfg a" "length (pe_pending p) < k_max_pending k"
    "pc_svc c < length (pe_svc p)" "length (pe_pending p) < size_of_int (cf_max_pending_streams cfg)"
  shows "peer_inv k cfg (p\<lparr>pe_pending := pe_pending p @ [c]\<rparr>)"
  using assms by (auto simp: peer_inv_def svc_refs_def active_streams_def)

lemma service_event_keeps:
  assumes "peer_inv k cfg p"
  shows "ifok (\<lambda>(p', e'). peer_inv k cfg p') (service_event B k os cfg now j p e)"
proof -
  have matched: "ifok (\<lambda>(p', e'). peer_inv k cfg p') (match_pending B k os cfg q e1)" if "peer_inv k cfg q" for q e1
    using peer_inv_steady [OF that match_pending_steady] by (auto simp: ifok_def)
  have sent: "peer_inv k cfg q" if "(if b then snd (peer_send B k os p1 e1 type stream payload ms) else (p1, e1)) = (q, e2)" "peer_inv k cfg p1"
    for b p1 e1 type stream payload ms q e2
    using that peer_inv_steady [OF that(2) peer_send_steady [of B k os p1 e1 type stream payload ms]]
    by (cases "peer_send B k os p1 e1 type stream payload ms") (auto split: if_splits)
  have waiting: "peer_inv k cfg (p\<lparr>pe_pending := pe_pending p @ [c]\<rparr>)"
    if "pe_auth p = Some a" "j < length (pe_svc p)" "pc_svc c = j" "\<not> (length (pe_pending p) \<ge> size_of_int (cf_max_pending_streams cfg) \<or>
       length (pe_pending p) = k_max_pending k \<or> active_streams p \<ge> size_of_int (au_max_streams a) \<or>
       active_streams p \<ge> size_of_int (cf_max_streams_per_client cfg))" for a c
  proof (rule peer_inv_pending [OF assms that(1)])
    show "length (pe_pending p) < k_max_pending k" using assms that(4) by (simp add: peer_inv_def)
  qed (use that in \<open>auto simp: stream_limit_def\<close>)
  show ?thesis unfolding service_event_def Let_def
    by (intro ifok_intros matched; ((erule sent, erule waiting; simp; fail) | simp add: assms))
qed

lemma udp_service_keeps:
  assumes "peer_inv k cfg p"
  shows "ifok (\<lambda>(p', e'). peer_inv k cfg p') (udp_service_event B k os now j p e)"
proof -
  have "ifok (\<lambda>(p', e'). peer_inv k cfg p') (udp_service_loop B k os now j fds p e)" if "peer_inv k cfg p" for fds p e
    using that
  proof (induction fds arbitrary: p e)
    case (Cons fd fds)
    show ?case unfolding udp_service_loop.simps
    proof (rule ifok_andthen [OF external_keeps [where k = k]], clarify)
      fix ok p' e'
      assume "settled k p p'"
      then have "peer_inv k cfg p'" using Cons.prems peer_inv_steady by blast
      then show "ifok (\<lambda>(p', e'). peer_inv k cfg p') (if ok then udp_service_loop B k os now j fds p' e' else Ok (peer_close B k os p' e'))"
        by (intro ifok_intros Cons.IH peer_close_keeps)
    qed
  qed (simp add: ifok_def)
  with assms show ?thesis by (simp add: udp_service_event_def ifok_intros)
qed

section \<open>Timers\<close>

lemma swap_remove_prefix: "i < length xs \<Longrightarrow> j < i \<Longrightarrow> swap_remove xs i ! j = xs ! j"
  by (simp add: swap_remove_def nth_butlast)

text \<open>The loop removes exactly what has expired.\<close>

lemma expire_loop_exact:
  assumes "\<forall>j < i. j < length xs \<longrightarrow> \<not> dead (xs ! j)" "expire_loop dead bury i xs e = (ys, e')"
  shows "mset ys = {#x \<in># mset xs. \<not> dead x#}"
  using assms
proof (induction dead bury i xs e rule: expire_loop.induct)
  case (1 dead bury i xs e)
  show ?case
  proof (cases "i < length xs")
    case False
    then have "\<forall>x\<in>set xs. \<not> dead x" using "1.prems"(1) by (auto simp: in_set_conv_nth)
    then have "{#x \<in># mset xs. \<not> dead x#} = mset xs" by (simp add: filter_mset_eq_conv)
    then show ?thesis using False "1.prems"(2) by (subst (asm) expire_loop.simps) simp
  next
    case True
    show ?thesis
    proof (cases "dead (xs ! i)")
      case dead: True
      have "\<forall>j < i. j < length (swap_remove xs i) \<longrightarrow> \<not> dead (swap_remove xs i ! j)"
        using "1.prems"(1) True by (simp add: swap_remove_prefix)
      with "1.IH"(1) [OF _ dead] True "1.prems"(2) dead have "mset ys = {#x \<in># mset (swap_remove xs i). \<not> dead x#}"
        by (subst (asm) expire_loop.simps) simp
      then show ?thesis using dead mset_swap_remove [OF True] by simp
    next
      case alive: False
      have "\<forall>j < Suc i. j < length xs \<longrightarrow> \<not> dead (xs ! j)" using "1.prems"(1) alive by (auto simp: less_Suc_eq)
      with "1.IH"(2) [OF _ alive] True "1.prems"(2) alive show ?thesis by (subst (asm) expire_loop.simps) simp
    qed
  qed
qed

lemmas expired_exact = expire_loop_exact [of 0, simplified]

lemma expired_part: "expire_loop dead bury 0 xs e = (ys, e') \<Longrightarrow> length ys \<le> length xs \<and> set ys \<subseteq> set xs"
  using expired_exact [of dead bury xs e ys e']
  by (metis mset_subset_eqD mset_filter multiset_filter_subset set_mset_mset size_mset size_mset_mono subsetI)

lemma expire_settled:
  assumes "expire_pending now (pe_pending p) e = (pending, e1)" "expire_starting now (pe_starting p) e1 = (starting, e2)"
  shows "settled k p (p\<lparr>pe_pending := pending, pe_starting := starting\<rparr>)"
  using expired_part [OF assms(1) [unfolded expire_pending_def]] expired_part [OF assms(2) [unfolded expire_starting_def]]
  by (auto simp: settled_def active_streams_def svc_refs_def)

lemma heartbeat_keeps:
  assumes "peer_inv k cfg p"
  shows "ifok (\<lambda>(p', e'). peer_inv k cfg p') (peer_heartbeat B k os cfg now p e)"
proof -
  have "case peer_send B k os p e type stream payload ms of (ok, p', e') \<Rightarrow> peer_inv k cfg p'" for type stream payload ms
    using peer_inv_steady [OF assms peer_send_steady [of B k os p e type stream payload ms]]
    by (cases "peer_send B k os p e type stream payload ms") simp
  then show ?thesis unfolding peer_heartbeat_def
    by (intro ifok_intros or_close_keeps peer_close_keeps) (simp_all add: assms)
qed

lemma peer_timers_keep:
  assumes "peer_inv k cfg p"
  shows "ifok (\<lambda>(p', e'). peer_inv k cfg p') (peer_timers B k os cfg now p e)"
proof -
  have "peer_inv k cfg q" if "expire_pending now (pe_pending p) e = (pending, e1)" "expire_starting now (pe_starting p) e1 = (starting, e2)"
    "(if k_udp k then server_udp_expire (p\<lparr>pe_pending := pending, pe_starting := starting\<rparr>) now e2
      else Ok (p\<lparr>pe_pending := pending, pe_starting := starting\<rparr>, e2)) = Ok (q, e3)" for pending e1 starting e2 q e3
    using peer_inv_steady [OF assms expire_settled [OF that(1,2)]] that(3) peer_inv_steady [OF _ expire_steady] by (auto split: if_splits)
  then show ?thesis unfolding peer_timers_def Let_def
    by (intro ifok_intros heartbeat_keeps) (auto simp: assms)
qed

lemma peers_timers_keep:
  "\<forall>p\<in>set ps. peer_inv k cfg p \<Longrightarrow>
     ifok (\<lambda>(ps', e'). length ps' = length ps \<and> (\<forall>p\<in>set ps'. peer_inv k cfg p)) (peers_timers B k os cfg now ps e)"
proof (induction ps arbitrary: e)
  case (Cons p ps)
  then have p: "peer_inv k cfg p" by simp
  show ?case unfolding peers_timers.simps
    by (intro ifok_andthen [OF peer_timers_keep [OF p]], clarify, intro ifok_andthen [OF Cons.IH]) (use Cons.prems in \<open>auto intro!: ifok_intros\<close>)
qed (simp add: ifok_def)

section \<open>The server\<close>

definition incoming_inv :: "autoconf \<Rightarrow> ct_config \<Rightarrow> incoming_conn list \<Rightarrow> bool" where
  "incoming_inv k cfg xs \<longleftrightarrow> length xs \<le> k_max_clients k * 2 \<and> (\<forall>remote. incoming_for_remote xs remote \<le> 2) \<and>
     (\<forall>c\<in>set xs. \<forall>a. hs_authorized (in_handshake c) = Some a \<longrightarrow> a \<in> set (cf_clients cfg))"

definition server_inv :: "autoconf \<Rightarrow> ct_config \<Rightarrow> server \<Rightarrow> bool" where
  "server_inv k cfg srv \<longleftrightarrow> length (sx_rates srv) = k_max_clients k * 2 \<and> incoming_inv k cfg (sx_incoming srv) \<and>
     length (sx_peers srv) = k_max_clients k \<and> (\<forall>p\<in>set (sx_peers srv). peer_inv k cfg p)"

lemma for_remote_mset: "incoming_for_remote xs remote = size {#c \<in># mset xs. in_remote c = remote#}"
  by (simp add: incoming_for_remote_def flip: mset_filter)

lemma incoming_inv_subset:
  assumes "incoming_inv k cfg xs" "mset ys \<subseteq># mset xs"
  shows "incoming_inv k cfg ys"
proof -
  have "incoming_for_remote ys remote \<le> incoming_for_remote xs remote" for remote
    unfolding for_remote_mset by (intro size_mset_mono multiset_filter_mono assms(2))
  then have "\<forall>remote. incoming_for_remote ys remote \<le> 2" using assms(1) le_trans unfolding incoming_inv_def by blast
  moreover have "length ys \<le> length xs" "set ys \<subseteq> set xs"
    using size_mset_mono [OF assms(2)] set_mset_mono [OF assms(2)] by simp_all
  ultimately show ?thesis using assms(1) unfolding incoming_inv_def by fastforce
qed

lemma incoming_inv_remove: "incoming_inv k cfg xs \<Longrightarrow> i < length xs \<Longrightarrow> incoming_inv k cfg (swap_remove xs i)"
  by (erule incoming_inv_subset) (simp add: mset_swap_remove)

lemma incoming_inv_update:
  assumes "incoming_inv k cfg xs" "i < length xs" "in_remote c = in_remote (xs ! i)"
    "\<And>a. hs_authorized (in_handshake c) = Some a \<Longrightarrow> a \<in> set (cf_clients cfg)"
  shows "incoming_inv k cfg (xs[i := c])"
proof -
  have "incoming_for_remote ys remote = length (filter ((=) remote) (map in_remote ys))" for ys remote
    by (simp add: incoming_for_remote_def comp_def filter_map eq_commute)
  moreover have "map in_remote (xs[i := c]) = map in_remote xs" using assms(2,3) by (simp add: map_update list_update_same_conv)
  ultimately have "incoming_for_remote (xs[i := c]) remote = incoming_for_remote xs remote" for remote by metis
  moreover have "x \<in> set xs \<or> x = c" if "x \<in> set (xs[i := c])" for x using that set_update_subset_insert [of xs i c] by blast
  ultimately show ?thesis using assms(1,4) unfolding incoming_inv_def by (metis length_list_update)
qed

lemma server_inv_peer:
  assumes "server_inv k cfg srv" "peer_inv k cfg p"
  shows "server_inv k cfg (srv\<lparr>sx_peers := (sx_peers srv)[j := p]\<rparr>)"
  using assms set_update_subset_insert [of "sx_peers srv" j p] by (auto simp: server_inv_def)

lemma on_peer_keeps:
  assumes "server_inv k cfg srv" "\<And>p e. peer_inv k cfg p \<Longrightarrow> ifok (\<lambda>(p', e'). peer_inv k cfg p') (f p e)"
  shows "ifok (\<lambda>(srv', e'). server_inv k cfg srv') (on_peer j f srv e)"
proof (cases "j < length (sx_peers srv)")
  case True
  then have p: "peer_inv k cfg (sx_peers srv ! j)" using assms(1) by (simp add: server_inv_def)
  show ?thesis unfolding on_peer_def
    by (intro ifok_rules ifok_andthen [OF assms(2) [OF p]]) (auto intro!: ifok_rules server_inv_peer [OF assms(1)])
qed (simp add: on_peer_def ifok_intros)

lemma server_inv_incoming:
  "server_inv k cfg srv \<Longrightarrow> incoming_inv k cfg xs \<Longrightarrow> server_inv k cfg (srv\<lparr>sx_incoming := xs\<rparr>)"
  by (simp add: server_inv_def)

lemma server_inv_rates:
  "server_inv k cfg srv \<Longrightarrow> length rates = length (sx_rates srv) \<Longrightarrow> server_inv k cfg (srv\<lparr>sx_rates := rates\<rparr>)"
  by (simp add: server_inv_def)

lemma rate_slot_length: "auth_rate_slot k rates address = Ok (slot, rates') \<Longrightarrow> length rates' = length rates"
  by (auto simp: auth_rate_slot_def split: list.splits sum.splits nat.splits)

text \<open>What the handler of a connection knows: the invariant, and that the connection is in the table.\<close>

definition at_incoming :: "autoconf \<Rightarrow> ct_config \<Rightarrow> nat \<Rightarrow> server \<Rightarrow> bool" where
  "at_incoming k cfg i srv \<longleftrightarrow> server_inv k cfg srv \<and> i < length (sx_incoming srv)"

lemma at_incoming_peer:
  "at_incoming k cfg i srv \<Longrightarrow> peer_inv k cfg p \<Longrightarrow> at_incoming k cfg i (srv\<lparr>sx_peers := (sx_peers srv)[j := p]\<rparr>)"
  using server_inv_peer by (simp add: at_incoming_def)

lemma at_incoming_rates:
  "at_incoming k cfg i srv \<Longrightarrow> length rates = length (sx_rates srv) \<Longrightarrow> at_incoming k cfg i (srv\<lparr>sx_rates := rates\<rparr>)"
  by (simp add: at_incoming_def server_inv_rates)

lemma drop_incoming_keeps:
  "at_incoming k cfg i srv \<Longrightarrow> case drop_incoming i c srv e of (srv', e') \<Rightarrow> server_inv k cfg srv'"
  by (simp add: drop_incoming_def remove_incoming_def at_incoming_def server_inv_def incoming_inv_remove)

lemma auth_rejected_keeps:
  "at_incoming k cfg i srv \<Longrightarrow> case auth_rejected i slot now srv e of (srv', e') \<Rightarrow> server_inv k cfg srv'"
  unfolding auth_rejected_def by (intro drop_incoming_keeps at_incoming_rates) simp_all

lemma hello_keeps:
  assumes "at_incoming k cfg i srv"
  shows "ifok (\<lambda>(srv', e'). server_inv k cfg srv') (incoming_hello B k os cfg i first srv e)"
proof -
  have rated: "at_incoming k cfg i (srv\<lparr>sx_rates := rates\<rparr>)" if "auth_rate_slot k (sx_rates srv) address = Ok (slot, rates)" for address slot rates
    using assms that by (simp add: at_incoming_rates rate_slot_length)
  have begun: "server_inv k cfg (srv\<lparr>sx_rates := rates, sx_incoming := (sx_incoming srv)[i := (sx_incoming srv ! i)
      \<lparr>in_waiting_for_auth := True, in_handshake := hs\<rparr>]\<rparr>)"
    if slot: "auth_rate_slot k (sx_rates srv) address = Ok (slot, rates)"
      and hs: "ct_handshake_server_begin B k fs cfg kxr srr s = (Ok hs, s')"
    for address slot rates fs kxr srr s hs s'
  proof -
    obtain a where a: "hs_authorized hs = Some a" "ct_authorized_find cfg (hs_client_id hs) = Some a"
      using server_begin_ok [OF hs] by blast
    then have "a \<in> set (cf_clients cfg)" by (auto simp: ct_authorized_find_def find_Some_iff)
    then show ?thesis using rated [OF slot] a(1)
      by (auto simp: at_incoming_def server_inv_def intro!: incoming_inv_update)
  qed
  show ?thesis unfolding incoming_hello_def Let_def
    by (intro ifok_intros drop_incoming_keeps auth_rejected_keeps) (auto intro: rated begun)
qed

lemma find_peer:
  assumes "server_inv k cfg srv" "index_of P (take n (sx_peers srv)) = Some j"
  shows "j < length (sx_peers srv)" "peer_inv k cfg (sx_peers srv ! j)" "P (sx_peers srv ! j)"
  using index_of_Some [OF assms(2)] assms(1) by (auto simp: server_inv_def)

lemma work_keeps:
  assumes "at_incoming k cfg i srv"
  shows "ifok (\<lambda>(srv', e'). server_inv k cfg srv') (incoming_work B k os cfg i first srv e)"
proof -
  have p: "peer_inv k cfg (sx_peers srv ! j)" if "find_session (sx_peers srv) sid = Some j" for sid j
    using that find_peer(2) [of k cfg srv _ "length (sx_peers srv)"] assms by (auto simp: find_session_def at_incoming_def)
  have seen: "pe_active (sx_peers srv ! j)" if "find_session (sx_peers srv) sid = Some j" for sid j
    using index_of_Some [OF that [unfolded find_session_def]] by blast
  have bound: "peer_inv k cfg p'" if "find_session (sx_peers srv) sid = Some j"
    "length (pe_work (sx_peers srv ! j)) \<noteq> k_max_streams k"
    "match_pending B k os cfg ((sx_peers srv ! j)\<lparr>pe_ctl := ctl, pe_work := pe_work (sx_peers srv ! j) @ [w]\<rparr>) e1 = Ok (p', e')" for sid j ctl w e1 p' e'
  proof -
    have "peer_inv k cfg ((sx_peers srv ! j)\<lparr>pe_ctl := ctl, pe_work := pe_work (sx_peers srv ! j) @ [w]\<rparr>)"
      using p [OF that(1)] seen [OF that(1)] that(2) by (auto simp: peer_inv_def svc_refs_def active_streams_def split: option.splits)
    then show ?thesis using peer_inv_steady match_pending_steady [OF that(3)] by blast
  qed
  have left: "server_inv k cfg (srv1\<lparr>sx_peers := (sx_peers srv)[j := q]\<rparr>)"
    if "drop_incoming i c srv e1 = (srv1, e2)" "peer_inv k cfg q" for c e1 srv1 e2 j q
    using server_inv_peer [OF _ that(2), of srv1 j] drop_incoming_keeps [OF assms, of c e1] that(1)
    by (auto simp: drop_incoming_def remove_incoming_def)
  show ?thesis unfolding incoming_work_def Let_def
    by (intro ifok_intros drop_incoming_keeps) (use assms p in \<open>auto intro!: left at_incoming_peer intro: bound\<close>)
qed

lemma peer_inv_join:
  assumes "peer_inv k cfg p" "\<not> pe_active p" "a \<in> set (cf_clients cfg)"
  shows "peer_inv k cfg (p\<lparr>pe_active := True, pe_fd := fd, pe_ctl := ctl, pe_auth := Some a, pe_next_stream := n\<rparr>)"
proof -
  have "pe_auth p = None" using assms(1,2) by (auto simp: peer_inv_def split: option.splits)
  with assms(1,3) show ?thesis by (auto simp: peer_inv_def svc_refs_def active_streams_def authorized_services_def)
qed

lemma auth_keeps:
  assumes "at_incoming k cfg i srv"
  shows "ifok (\<lambda>(srv', e'). server_inv k cfg srv') (incoming_auth B k os cfg i srv e)"
proof -
  have rated: "at_incoming k cfg i (srv\<lparr>sx_rates := rates\<rparr>)" if "auth_rate_slot k (sx_rates srv) address = Ok (slot, rates)" for address slot rates
    using assms that by (simp add: at_incoming_rates rate_slot_length)
  have joined: "peer_inv k cfg ((sx_peers srv ! j)\<lparr>pe_active := True, pe_fd := fd, pe_ctl := ctl, pe_auth := Some a, pe_next_stream := n\<rparr>)"
    if "index_of (\<lambda>p. \<not> pe_active p) (take m (sx_peers srv)) = Some j"
      "ct_handshake_server_finish B k alloc cfg (in_handshake (sx_incoming srv ! i)) now s = (Ok (ctl, a), s')" for m j alloc now s ctl a s' fd n
  proof -
    have "hs_authorized (in_handshake (sx_incoming srv ! i)) = Some a" using server_finish_ok [OF that(2)] by blast
    then have "a \<in> set (cf_clients cfg)" using assms by (auto simp: at_incoming_def server_inv_def incoming_inv_def)
    with find_peer [OF _ that(1), of k cfg] assms show ?thesis by (intro peer_inv_join) (simp_all add: at_incoming_def)
  qed
  have freed: "at_incoming k cfg i (srv\<lparr>sx_rates := rates, sx_peers := (sx_peers srv)[j := (sx_peers srv ! j)\<lparr>pe_fd := fd, pe_ctl := ctl\<rparr>]\<rparr>)"
    if "auth_rate_slot k (sx_rates srv) address = Ok (slot, rates)" "index_of (\<lambda>p. \<not> pe_active p) (take m (sx_peers srv)) = Some j"
    for address slot rates m j fd ctl
    using at_incoming_peer [OF rated [OF that(1)], of "(sx_peers srv ! j)\<lparr>pe_fd := fd, pe_ctl := ctl\<rparr>" j] find_peer(2) [OF _ that(2), of k cfg] assms
    by (simp add: at_incoming_def)
  have seated: "at_incoming k cfg i (srv\<lparr>sx_rates := rates[slot := r], sx_peers := (sx_peers srv)[j := q]\<rparr>)"
    if "auth_rate_slot k (sx_rates srv) address = Ok (slot, rates)" "peer_inv k cfg q" for address slot rates r j q
    using at_incoming_peer [OF at_incoming_rates [OF assms] that(2), of "rates[slot := r]" j] rate_slot_length [OF that(1)] by simp
  show ?thesis unfolding incoming_auth_def Let_def
    by (intro ifok_intros drop_incoming_keeps auth_rejected_keeps) (auto intro: rated freed intro!: seated joined)
qed

lemma server_incoming_keeps:
  assumes "server_inv k cfg srv"
  shows "ifok (\<lambda>(srv', e'). server_inv k cfg srv') (server_incoming B k os cfg fd srv e)"
proof -
  have at: "at_incoming k cfg i srv" if "find_incoming (sx_incoming srv) fd = Some i" for i
    using that assms index_of_Some by (auto simp: find_incoming_def at_incoming_def)
  have waits: "server_inv k cfg (srv\<lparr>sx_incoming := (sx_incoming srv)[i := (sx_incoming srv ! i)\<lparr>in_read_retry := t\<rparr>]\<rparr>)"
    if i: "find_incoming (sx_incoming srv) fd = Some i" for i t
  proof -
    have "a \<in> set (cf_clients cfg)" if "hs_authorized (in_handshake (sx_incoming srv ! i)) = Some a" for a
      using at [OF i] that nth_mem unfolding at_incoming_def server_inv_def incoming_inv_def by blast
    then show ?thesis using at [OF i] by (auto simp: at_incoming_def server_inv_def intro!: incoming_inv_update)
  qed
  show ?thesis unfolding server_incoming_def Let_def
    by (intro ifok_intros hello_keeps work_keeps auth_keeps drop_incoming_keeps) (auto simp: assms intro: at waits)
qed

lemma server_accept_keeps:
  assumes "server_inv k cfg srv"
  shows "case server_accept k os cfg now listener srv e of (srv', e') \<Rightarrow> server_inv k cfg srv'"
proof -
  have "incoming_inv k cfg (sx_incoming srv @ [c])"
    if "length (sx_incoming srv) \<noteq> k_max_clients k * 2" "incoming_for_remote (sx_incoming srv) (in_remote c) < 2"
      "in_handshake c = ct_handshake_server_abort" for c
    using that assms by (auto simp: server_inv_def incoming_inv_def incoming_for_remote_def ct_handshake_server_abort_def)
  with assms show ?thesis unfolding server_accept_def Let_def
    by (auto split: prod.split option.split intro!: server_inv_incoming)
qed

lemma server_timers_keep:
  assumes "server_inv k cfg srv"
  shows "ifok (\<lambda>(srv', e'). server_inv k cfg srv') (server_timers B k os cfg now srv e)"
proof -
  have ps: "\<forall>p\<in>set (sx_peers srv). peer_inv k cfg p" using assms by (simp add: server_inv_def)
  have "incoming_inv k cfg xs" if "expire_incoming now (sx_incoming srv) e = (xs, e1)" for xs e1
    using expired_exact [OF that [unfolded expire_incoming_def]] assms by (auto simp: server_inv_def intro: incoming_inv_subset)
  then show ?thesis unfolding server_timers_def Let_def
    by (intro ifok_rules ifok_andthen [OF peers_timers_keep [OF ps]])
      (use assms in \<open>auto intro!: ifok_rules simp: server_inv_def\<close>)
qed

lemma server_step_keeps:
  assumes "server_inv k cfg srv"
  shows "ifok (\<lambda>(srv', e'). server_inv k cfg srv') (server_step B k os cfg now ev srv e)"
proof (cases ev)
  case (Ev_starting i fd)
  have "ifok (\<lambda>(p', e'). peer_inv k cfg p') (starting_event B k os fd p e)" if "peer_inv k cfg p" for p e
    using peer_inv_steady [OF that starting_event_steady] by (auto simp: ifok_def)
  with Ev_starting show ?thesis by (simp add: server_step_def on_peer_keeps [OF assms])
next
  case (Ev_relay i j direct readable writable)
  have "ifok (\<lambda>(p', e'). peer_inv k cfg p') (relay_event B k j direct readable writable p e)" if "peer_inv k cfg p" for p e
    using peer_inv_steady [OF that relay_event_steady] by (auto simp: ifok_def)
  with Ev_relay show ?thesis by (simp add: server_step_def on_peer_keeps [OF assms])
next
  case (Ev_accept l)
  then show ?thesis by (simp add: server_step_def) (intro ifok_rules server_accept_keeps assms)
qed (simp_all add: server_step_def server_incoming_keeps on_peer_keeps server_timers_keep control_event_keeps service_event_keeps
    udp_service_keeps assms)

section \<open>Reachable states\<close>

text \<open>One event or timer round, whatever the system and the network answer.\<close>

definition server_moves :: "monocypher \<Rightarrow> autoconf \<Rightarrow> ct_config \<Rightarrow> server \<Rightarrow> server \<Rightarrow> bool" where
  "server_moves B k cfg srv srv' \<longleftrightarrow> (\<exists>os now ev e e'. server_step B k os cfg now ev srv e = Ok (srv', e'))"

lemma server_inv_boot: "server_inv k cfg (server_boot k control)"
  by (auto simp: server_inv_def server_boot_def incoming_inv_def incoming_for_remote_def peer_inv_zero)

interpretation srv: loop_invariant "server_boot k control" "server_moves B k cfg" "server_inv k cfg" for B k cfg control
proof
  fix s t
  assume "server_inv k cfg s" "server_moves B k cfg s t"
  then show "server_inv k cfg t" using ifokD [OF server_step_keeps] by (fastforce simp: server_moves_def)
qed (rule server_inv_boot)

section \<open>The slots that are taken\<close>

text \<open>No operation on a peer takes a free slot.\<close>

abbreviation stays_free :: "server_peer \<Rightarrow> server_peer \<Rightarrow> bool" where
  "stays_free p p' \<equiv> pe_active p' \<longrightarrow> pe_active p"

lemma settled_active: "settled k p p' \<Longrightarrow> pe_active p' = pe_active p"
  by (simp add: settled_def)

lemma close_free: "peer_close B k os p e = (p', e') \<Longrightarrow> \<not> pe_active p'"
  by (auto simp: peer_close_def Let_def zero_peer_def split: if_splits prod.splits)

lemma close_frees: "case peer_close B k os q e of (p', e') \<Rightarrow> stays_free p p'"
  using close_free by (cases "peer_close B k os q e") blast

lemma send_active: "peer_send B k os p e type stream payload ms = (ok, p', e') \<Longrightarrow> pe_active p' = pe_active p"
  using peer_send_frame by fastforce

lemma register_active: "ifok (\<lambda>(ok, p', e'). pe_active p' = pe_active p) (register_service B k os cfg control peers p b e)"
  unfolding register_service_def Let_def by (intro ifok_intros) (auto split: option.splits prod.splits dest!: send_active)

lemma server_control_active: "ifok (\<lambda>(ok, p', e'). pe_active p' = pe_active p) (server_control B k os cfg control peers now p e)"
proof -
  have reg: "ifok (\<lambda>(ok, p', e'). pe_active p' = pe_active p) (register_service B k os cfg control peers (p\<lparr>pe_ctl := c\<rparr>) b e1)" for c b e1
    using register_active [of "p\<lparr>pe_ctl := c\<rparr>"] by simp
  have client: "ifok (\<lambda>(ok, p', e'). pe_active p' = pe_active p) (server_udp_from_client k os (p\<lparr>pe_ctl := c\<rparr>) b now e1)" for c b e1
    using settled_active [OF from_client_steady [of k os "p\<lparr>pe_ctl := c\<rparr>"]] by (fastforce simp: ifok_def)
  show ?thesis unfolding server_control_def Let_def
    by (intro ifok_intros client reg) (auto split: prod.splits dest!: send_active)
qed

lemma or_close_free:
  assumes "ifok (\<lambda>(ok, p', e'). pe_active p' = pe_active p) r"
  shows "ifok (\<lambda>(p', e'). stays_free p p') (or_close B k os r)"
  unfolding or_close_def by (intro ifok_andthen [OF assms]) (auto intro!: ifok_intros split: if_splits dest: close_free)

lemma control_event_free: "ifok (\<lambda>(p', e'). stays_free p p') (control_event B k os cfg control peers now p e)"
proof -
  have "ifok (\<lambda>(ok, p', e'). pe_active p' = pe_active p) (server_control B k os cfg control peers now (p\<lparr>pe_ctl := c\<rparr>) e)" for c
    using server_control_active [of "p\<lparr>pe_ctl := c\<rparr>"] by simp
  then show ?thesis unfolding control_event_def by (intro ifok_intros or_close_free close_frees) auto
qed

lemma service_event_free: "ifok (\<lambda>(p', e'). stays_free p p') (service_event B k os cfg now j p e)"
proof -
  have matched: "ifok (\<lambda>(p', e'). stays_free p p') (match_pending B k os cfg q e1)" if "pe_active q = pe_active p" for q e1
    using settled_active [OF match_pending_steady] that by (fastforce simp: ifok_def)
  have sent: "pe_active q = pe_active p" if "(if b then snd (peer_send B k os p1 e1 type stream payload ms) else (p1, e1)) = (q, e2)"
    "pe_active p1 = pe_active p" for b p1 e1 type stream payload ms q e2
  proof (cases "peer_send B k os p1 e1 type stream payload ms")
    case (fields ok q' e')
    from send_active [OF this] show ?thesis using that fields by (cases b) simp_all
  qed
  show ?thesis unfolding service_event_def Let_def
    by (intro ifok_intros matched; ((erule sent, simp (no_asm); fail) | simp (no_asm)))
qed

lemma udp_service_free: "ifok (\<lambda>(p', e'). stays_free p p') (udp_service_event B k os now j p e)"
proof -
  have "ifok (\<lambda>(p', e'). stays_free p p') (udp_service_loop B k os now j fds p e)" for fds p e
  proof (induction fds arbitrary: p e)
    case (Cons fd fds)
    show ?case unfolding udp_service_loop.simps
    proof (rule ifok_andthen [OF external_keeps [where k = k]], clarify)
      fix ok p' e'
      assume "settled k p p'"
      then have "ifok (\<lambda>(p', e'). stays_free p p') (udp_service_loop B k os now j fds p' e')" using Cons.IH [of p'] settled_active by fastforce
      then show "ifok (\<lambda>(p', e'). stays_free p p') (if ok then udp_service_loop B k os now j fds p' e' else Ok (peer_close B k os p' e'))"
        by (intro ifok_intros close_frees)
    qed
  qed (simp add: ifok_def)
  then show ?thesis by (simp add: udp_service_event_def ifok_intros)
qed

lemma peer_timers_free: "ifok (\<lambda>(p', e'). stays_free p p') (peer_timers B k os cfg now p e)"
  by (cases "pe_active p") (auto simp: ifok_def peer_timers_def)

lemma peers_timers_free:
  "ifok (\<lambda>(ps', e'). length ps' = length ps \<and> (\<forall>j<length ps. stays_free (ps ! j) (ps' ! j))) (peers_timers B k os cfg now ps e)"
proof (induction ps arbitrary: e)
  case (Cons p ps)
  show ?case unfolding peers_timers.simps
    by (intro ifok_andthen [OF peer_timers_free], clarify, intro ifok_andthen [OF Cons.IH]) (auto intro!: ifok_intros simp: nth_Cons')
qed (simp add: ifok_def)

text \<open>Only the slots that the configuration allows are taken.\<close>

definition seated :: "ct_config \<Rightarrow> server_peer list \<Rightarrow> bool" where
  "seated cfg ps \<longleftrightarrow> (\<forall>j<length ps. pe_active (ps ! j) \<longrightarrow> j < size_of_int (cf_max_clients cfg))"

lemma seated_update: "seated cfg ps \<Longrightarrow> (pe_active p \<longrightarrow> j < size_of_int (cf_max_clients cfg) \<or> pe_active (ps ! j)) \<Longrightarrow> seated cfg (ps[j := p])"
  by (cases "j < length ps") (auto simp: seated_def nth_list_update list_update_beyond split: if_splits)

lemma seated_all: "seated cfg ps \<Longrightarrow> length ps' = length ps \<Longrightarrow> \<forall>j<length ps. stays_free (ps ! j) (ps' ! j) \<Longrightarrow> seated cfg ps'"
  by (simp add: seated_def)

lemma drop_incoming_peers: "drop_incoming i b srv e = (srv', e') \<Longrightarrow> sx_peers srv' = sx_peers srv"
  by (auto simp: drop_incoming_def split: prod.splits)

lemma auth_rejected_peers: "auth_rejected i slot now srv e = (srv', e') \<Longrightarrow> sx_peers srv' = sx_peers srv"
  unfolding auth_rejected_def by (drule drop_incoming_peers) simp

lemma on_peer_seated:
  assumes "seated cfg (sx_peers srv)" "\<And>p e. ifok (\<lambda>(p', e'). stays_free p p') (f p e)"
  shows "ifok (\<lambda>(srv', e'). seated cfg (sx_peers srv')) (on_peer j f srv e)"
  unfolding on_peer_def by (intro ifok_rules ifok_andthen [OF assms(2)]) (auto intro!: ifok_rules seated_update [OF assms(1)])

lemma incoming_seated:
  assumes "seated cfg (sx_peers srv)"
  shows "ifok (\<lambda>(srv', e'). seated cfg (sx_peers srv')) (server_incoming B k os cfg fd srv e)"
proof -
  have hello: "ifok (\<lambda>(srv', e'). seated cfg (sx_peers srv')) (incoming_hello B k os cfg i first srv e)" for i first
    unfolding incoming_hello_def Let_def
    by (intro ifok_intros) (auto simp: assms split: prod.splits dest!: drop_incoming_peers auth_rejected_peers)
  have work: "ifok (\<lambda>(srv', e'). seated cfg (sx_peers srv')) (incoming_work B k os cfg i first srv e)" for i first
    unfolding incoming_work_def Let_def
    by (intro ifok_intros) (auto simp: assms split: prod.splits dest!: drop_incoming_peers settled_active [OF match_pending_steady]
        intro!: seated_update [OF assms])
  have auth: "ifok (\<lambda>(srv', e'). seated cfg (sx_peers srv')) (incoming_auth B k os cfg i srv e)" for i
    unfolding incoming_auth_def Let_def
    by (intro ifok_intros) (auto simp: assms split: prod.splits dest!: drop_incoming_peers auth_rejected_peers index_of_Some
        intro!: seated_update [OF assms])
  show ?thesis unfolding server_incoming_def Let_def
    by (intro ifok_intros hello work auth) (auto simp: assms split: prod.splits dest!: drop_incoming_peers)
qed

lemma server_step_seated:
  assumes "seated cfg (sx_peers srv)"
  shows "ifok (\<lambda>(srv', e'). seated cfg (sx_peers srv')) (server_step B k os cfg now ev srv e)"
proof -
  have starting: "ifok (\<lambda>(p', e'). stays_free p p') (starting_event B k os fd p e)" for fd p e
    using settled_active [OF starting_event_steady] by (fastforce simp: ifok_def)
  have relay: "ifok (\<lambda>(p', e'). stays_free p p') (relay_event B k j direct readable writable p e)" for j direct readable writable p e
    using settled_active [OF relay_event_steady] by (fastforce simp: ifok_def)
  have accept: "ifok (\<lambda>(srv', e'). seated cfg (sx_peers srv')) (Ok (server_accept k os cfg now l srv e))" for l
    using assms unfolding server_accept_def Let_def by (auto simp: ifok_def split: prod.splits option.splits if_splits)
  have timers: "ifok (\<lambda>(srv', e'). seated cfg (sx_peers srv')) (server_timers B k os cfg now srv e)"
    unfolding server_timers_def Let_def
    by (intro ifok_rules ifok_andthen [OF peers_timers_free]) (auto intro!: ifok_rules seated_all [OF assms])
  show ?thesis
    by (cases ev) (simp_all add: server_step_def accept timers incoming_seated [OF assms] on_peer_seated [OF assms] starting relay
        control_event_free service_event_free udp_service_free)
qed

interpretation seats: loop_invariant "server_boot k control" "server_moves B k cfg" "\<lambda>srv. seated cfg (sx_peers srv)" for B k cfg control
proof
  fix s t
  assume "seated cfg (sx_peers s)" "server_moves B k cfg s t"
  then show "seated cfg (sx_peers t)" using ifokD [OF server_step_seated] by (fastforce simp: server_moves_def)
qed (simp add: server_boot_def seated_def zero_peer_def)

lemma seated_count: "seated cfg ps \<Longrightarrow> length (filter pe_active ps) \<le> size_of_int (cf_max_clients cfg)"
proof -
  let ?m = "size_of_int (cf_max_clients cfg)"
  assume "seated cfg ps"
  then have "\<not> pe_active (drop ?m ps ! i)" if "i < length (drop ?m ps)" for i
    using that by (auto simp: seated_def dest!: spec [of _ "?m + i"])
  then have "filter pe_active (drop ?m ps) = []" by (auto simp: filter_empty_conv in_set_conv_nth)
  then have "filter pe_active ps = filter pe_active (take ?m ps)" by (metis append_Nil2 append_take_drop_id filter_append)
  then show ?thesis using length_filter_le [of pe_active "take ?m ps"] by simp
qed

section \<open>Properties\<close>

text \<open>
  C1: only authorized clients hold a session, and only for what they are authorized for. In every state
  the server can reach, whatever arrives on its sockets and in whatever order, an active peer carries
  an entry of the table of clients, and each of its services, all with different names, has an
  address and port which that entry allows. A free slot has no entry, no services, no idle work
  connections, no pending, starting or open streams and no active datagram sessions, so that the client
  which takes it next inherits nothing; only its control record may still hold what a rejected handshake
  wrote there.
\<close>

theorem server_only_authorized:
  assumes "reach (server_boot k control) (server_moves B k cfg) srv" "p \<in> set (sx_peers srv)"
  shows "if pe_active p
    then \<exists>a. pe_auth p = Some a \<and> a \<in> set (cf_clients cfg) \<and> distinct (map (sv_id \<circ> sr_cfg) (pe_svc p)) \<and>
      (\<forall>s\<in>set (pe_svc p). ct_authorized_port a (sv_remote_addr (sr_cfg s)) (sv_remote_port (sr_cfg s)))
    else pe_auth p = None \<and> pe_svc p = [] \<and> pe_work p = [] \<and> pe_pending p = [] \<and> pe_starting p = [] \<and>
      (\<forall>r\<in>set (pe_relays p). rl_closed r) \<and> (\<forall>u\<in>set (pe_udp p). \<not> us_active u)"
proof -
  have inv: "peer_inv k cfg p" using srv.inv_reach [OF assms(1)] assms(2) by (simp add: server_inv_def)
  show ?thesis
  proof (cases "pe_active p")
    case True
    then show ?thesis using inv by (auto simp: peer_inv_def authorized_services_def split: option.splits)
  next
    case False
    then have free: "pe_auth p = None" "pe_svc p = []" "pe_work p = []" "active_streams p = 0" "svc_refs p = {}"
      using inv by (auto simp: peer_inv_def split: option.splits)
    then show ?thesis using False by (auto simp: svc_refs_def active_streams_def filter_empty_conv)
  qed
qed

text \<open>The limits of one peer and of the server, those of the build and those of the configuration.\<close>

definition peer_within :: "autoconf \<Rightarrow> ct_config \<Rightarrow> server_peer \<Rightarrow> bool" where
  "peer_within k cfg p \<longleftrightarrow>
     length (pe_work p) \<le> k_max_streams k \<and> length (pe_pending p) \<le> k_max_pending k \<and> length (pe_starting p) \<le> k_max_pending k \<and>
     length (pe_relays p) = k_max_streams k \<and> length (pe_udp p) = k_max_udp_sessions k \<and> sockets_fit k (pe_svc p) \<and>
     svc_refs p \<subseteq> {..<length (pe_svc p)} \<and> length (pe_pending p) \<le> size_of_int (cf_max_pending_streams cfg) \<and>
     (\<forall>j<length (pe_svc p). udp_used p j \<le> size_of_int (sv_udp_max_sessions (sr_cfg (pe_svc p ! j)))) \<and>
     (\<forall>a. pe_auth p = Some a \<longrightarrow> active_streams p \<le> stream_limit cfg a \<and> length (pe_svc p) \<le> service_limit cfg a)"

definition within_limits :: "autoconf \<Rightarrow> ct_config \<Rightarrow> server \<Rightarrow> bool" where
  "within_limits k cfg srv \<longleftrightarrow>
     length (sx_incoming srv) \<le> k_max_clients k * 2 \<and> (\<forall>remote. incoming_for_remote (sx_incoming srv) remote \<le> 2) \<and>
     length (sx_rates srv) = k_max_clients k * 2 \<and> length (sx_peers srv) = k_max_clients k \<and>
     length (filter pe_active (sx_peers srv)) \<le> size_of_int (cf_max_clients cfg) \<and>
     (\<forall>p\<in>set (sx_peers srv). peer_within k cfg p)"

lemma peer_inv_within: "peer_inv k cfg p \<Longrightarrow> peer_within k cfg p"
  by (auto simp: peer_inv_def peer_within_def udp_within_def svc_refs_def split: option.splits)

lemma reach_within:
  assumes "reach (server_boot k control) (server_moves B k cfg) srv"
  shows "within_limits k cfg srv"
  using srv.inv_reach [OF assms] seated_count [OF seats.inv_reach [OF assms]] peer_inv_within
  by (auto simp: within_limits_def server_inv_def incoming_inv_def)

text \<open>
  C2: no table of the server ever exceeds its array or its configured limit. In every reachable state
  at most two connections per remote address, and twice the number of clients of the build in all, wait to
  authenticate, and the table of authentication rates keeps its size; at most \<open>max_clients\<close> peers are
  active. For each peer, the services and the streams (pending, starting and relayed together) stay
  within the limits of its entry and of the configuration, the pending connections within
  \<open>max_pending_streams\<close>, and the active datagram sessions of each service within that service's limit; the
  counts of services, of their sockets, of pending, starting and idle work connections fit their arrays,
  the tables of relays and sessions keep their size, and every reference of a connection or
  session to a service is to a service that exists.
\<close>

theorem server_within_limits:
  assumes "reach (server_boot k control) (server_moves B k cfg) srv"
  shows "within_limits k cfg srv"
  by (rule reach_within [OF assms])

end
