(* ===== verification/Server_Admission.thy ===== *)
theory Server_Admission
  imports Server_Invariants
begin

text \<open>
  The handshake inside the event loop of the server: two events take an honest client from an
  accepted connection to an active peer; and what stopping the server closes.
\<close>

section \<open>Admission\<close>

text \<open>The next frame on a connection is completely in the queue of the system.\<close>

definition frame_queued :: "os \<Rightarrow> int \<Rightarrow> u8 \<Rightarrow> bytes \<Rightarrow> bool" where
  "frame_queued os fd type payload \<longleftrightarrow> os_peek os fd = Inr (take 36 (plain_frame type payload)) \<and>
     (\<exists>n. os_queued os fd = Some n \<and> length (plain_frame type payload) \<le> n)"

lemma frame_queued_ready:
  assumes "frame_queued os fd type p" "ct_message_type_valid type" "length p \<le> k_control_buffer k" "length p \<le> k_max_frame k"
    "k_max_frame k < 2 ^ 31"
  shows "ct_plain_frame_available k (os_peek os fd) (os_queued os fd) (k_control_buffer k) = Avail_ready (plain_header type p)"
proof -
  have u: "unat (of_nat (length p) :: u32) = length p" using assms(4,5) by (intro payload_len_unat) simp
  then have ok: "header_ok k (plain_header type p)" using assms(2,4) by (simp add: header_ok_def plain_header_def)
  have "take 36 (plain_frame type p) = header_bytes (plain_header type p)" by (simp add: plain_frame_def)
  moreover have "length (header_bytes h) = 36" for h by simp
  then have "header_bytes h \<noteq> []" for h by (metis list.size(3) zero_neq_numeral)
  ultimately show ?thesis using assms(1,3) u decode_header_bytes [OF ok]
    by (auto simp: frame_queued_def ct_plain_frame_available_def ct_frame_available_def proto_defs plain_frame_def)
      (simp_all add: plain_header_def)
qed

lemma index_of_update: "index_of P xs = Some i \<Longrightarrow> P y \<Longrightarrow> index_of P (xs[i := y]) = Some i"
  by (induction xs arbitrary: i) (auto split: if_splits)

lemma mset_map_swap_remove:
  "i < length xs \<Longrightarrow> mset (map f xs) = add_mset (f (xs ! i)) (mset (map f (swap_remove xs i)))"
  by (simp add: mset_swap_remove [of i xs])

lemma rate_slot_total: "rates \<noteq> [] \<Longrightarrow> \<exists>slot rates'. auth_rate_slot k rates address = Ok (slot, rates')"
  by (cases rates) (auto simp: auth_rate_slot_def simp del: rate_scan.simps split: sum.split)

lemma honest_steps:
  assumes B: "crypto_laws B" and x: "exchange_ok B k cfs ccfg sfs scfg a x" and k: "handshake_build k"
    and c: "find_incoming (sx_incoming srv) fd = Some i" "\<not> in_waiting_for_auth (sx_incoming srv ! i)"
    and sock: "flowing (nat (cf_handshake_timeout scfg * 1000)) (sk_in (we_socks e fd))" "roomy 4 (we_socks e fd)"
      "arrives (sk_in (we_socks e fd)) = plain_frame CT_MSG_CLIENT_HELLO (ex_hello B ccfg x) @ plain_frame CT_MSG_CLIENT_AUTH (ex_auth B ccfg x)"
    and os1: "frame_queued os1 fd CT_MSG_CLIENT_HELLO (ex_hello B ccfg x)" "os_fs os1 = sfs" "os_secret os1 = Some (ex_server_secret x)"
      "os_nonce os1 = Some (ex_server_random x)"
    and os2: "frame_queued os2 fd CT_MSG_CLIENT_AUTH (ex_auth B ccfg x)" "os_alloc os2"
    and rate: "auth_rate_slot k (sx_rates srv) (in_remote (sx_incoming srv ! i)) = Ok (slot, rates)"
      "\<not> os_now os1 < ra_blocked_until (rates ! slot)"
    and free: "index_of (\<lambda>p. \<not> pe_active p) (take (size_of_int (cf_max_clients scfg)) (sx_peers srv)) = Some j"
  shows "\<exists>srv1 e1 srv2 e2 f. server_step B k os1 scfg now1 (Ev_incoming fd) srv e = Ok (srv1, e1) \<and>
    server_step B k os2 scfg now2 (Ev_incoming fd) srv1 e1 = Ok (srv2, e2) \<and>
    sx_peers srv2 = (sx_peers srv)[j := (sx_peers srv ! j)\<lparr>pe_active := True, pe_fd := fd, pe_ctl := (server_start B k ccfg x)
      \<lparr>cc_tx_seq := 1, cc_last_rx_ms := os_now os2, cc_last_tx_ms := os_now os2\<rparr>, pe_auth := Some a, pe_next_stream := os_now os2\<rparr>] \<and>
    control_frame B k (server_start B k ccfg x) CT_MSG_AUTH_OK 0 [] = Ok f \<and>
    sk_out (we_socks e2 fd) = sk_out (we_socks e fd) @ plain_frame CT_MSG_SERVER_HELLO (ex_server_hello B ccfg x) @ f \<and>
    mset (map in_fd (sx_incoming srv)) = add_mset fd (mset (map in_fd (sx_incoming srv2))) \<and> we_closed e2 = we_closed e"
proof -
  note sz = exchange_sizes [OF B x]
  let ?c = "sx_incoming srv ! i" and ?hello = "ex_hello B ccfg x" and ?auth = "ex_auth B ccfg x"
  define hs where "hs = \<lparr>hs_transcript = ex_transcript B ccfg x, hs_ephemeral_private = ex_server_secret x,
         hs_client_public = snd (eddsa_key_pair B (ex_client_seed x)), hs_cipher = CT_CIPHER_CHACHA,
         hs_client_id = cf_client_id ccfg, hs_authorized = Some a\<rparr>"
  have i: "i < length (sx_incoming srv)" "in_fd ?c = fd" "\<forall>j < i. in_fd (sx_incoming srv ! j) \<noteq> fd"
    using index_of_Some c(1) by (auto simp: find_incoming_def)
  have b: "k_max_frame k < 2 ^ 31" "length ?hello \<le> k_control_buffer k" "length ?hello \<le> k_max_frame k"
    "length ?auth \<le> k_control_buffer k" "length ?auth \<le> k_max_frame k"
    using sz(3,5) x k by (simp_all add: exchange_ok_def handshake_build_def)
  note ready1 = frame_queued_ready [OF os1(1) msg_types_valid(1) b(2,3,1)]
  note ready2 = frame_queued_ready [OF os2(1) msg_types_valid(3) b(4,5,1)]
  have u: "unat (of_nat (length ?hello) :: u32) = length ?hello" "unat (of_nat (length ?auth) :: u32) = length ?auth"
    using b by (simp_all add: payload_len_unat)
  have hello_len: "\<not> length ?hello < 70" "\<not> length ?hello > 2 + k_max_client_id k + 68" using sz(3) x by (simp_all add: exchange_ok_def)
  from sock(2) have r: "roomy (Suc (Suc (Suc (Suc 0)))) (we_socks e fd)" by (simp add: eval_nat_numeral)
  from server_begin_honest [OF B x k refl sock(1,3) r, folded hs_def] obtain t where
    t: "ct_handshake_server_begin B k sfs scfg (Some (ex_server_secret x)) (Some (ex_server_random x)) (we_socks e fd) = (Ok hs, t)"
      "flowing (nat (cf_handshake_timeout scfg * 1000)) (sk_in t)" "arrives (sk_in t) = plain_frame CT_MSG_CLIENT_AUTH ?auth @ []"
      "roomy (Suc (Suc 0)) t" "sk_out t = sk_out (we_socks e fd) @ plain_frame CT_MSG_SERVER_HELLO (ex_server_hello B ccfg x)"
    by auto
  let ?c1 = "?c\<lparr>in_waiting_for_auth := True, in_handshake := hs\<rparr>"
  let ?srv1 = "srv\<lparr>sx_rates := rates, sx_incoming := (sx_incoming srv)[i := ?c1]\<rparr>" and ?e1 = "put_sock fd t e"
  have step1: "server_step B k os1 scfg now1 (Ev_incoming fd) srv e = Ok (?srv1, ?e1)"
    using c ready1 os1(2-4) rate t(1) i(2) u(1) hello_len
    by (simp add: server_step_def server_incoming_def incoming_hello_def Let_def plain_header_def)
  from server_finish_honest [OF B x k refl hs_def t(2,3,4), of "os_now os2"] obtain t' f where
    f: "control_frame B k (server_start B k ccfg x) CT_MSG_AUTH_OK 0 [] = Ok f" "sk_out t' = sk_out t @ f"
      "ct_handshake_server_finish B k True scfg hs (os_now os2) t = (Ok ((server_start B k ccfg x)
        \<lparr>cc_tx_seq := 1, cc_last_rx_ms := os_now os2, cc_last_tx_ms := os_now os2\<rparr>, a), t')" by blast
  have "rates \<noteq> []" using rate(1) rate_slot_length [OF rate(1)] by (auto simp: auth_rate_slot_def)
  from rate_slot_total [OF this] obtain slot2 rates2 where r2: "auth_rate_slot k rates (in_remote ?c) = Ok (slot2, rates2)" by blast
  let ?p = "(sx_peers srv ! j)\<lparr>pe_active := True, pe_fd := fd, pe_ctl := (server_start B k ccfg x)
      \<lparr>cc_tx_seq := 1, cc_last_rx_ms := os_now os2, cc_last_tx_ms := os_now os2\<rparr>, pe_auth := Some a, pe_next_stream := os_now os2\<rparr>"
  let ?xs = "(sx_incoming srv)[i := ?c1]"
  let ?srv2 = "srv\<lparr>sx_rates := rates2[slot2 := \<lparr>ra_address = [], ra_blocked_until = 0, ra_failures = 0\<rparr>],
    sx_incoming := swap_remove ?xs i, sx_peers := (sx_peers srv)[j := ?p]\<rparr>"
  have found: "find_incoming ?xs fd = Some i" using index_of_update [of "\<lambda>c. in_fd c = fd" "sx_incoming srv" i ?c1] c(1) i(2) by (simp add: find_incoming_def)
  have step2: "server_step B k os2 scfg now2 (Ev_incoming fd) ?srv1 ?e1 = Ok (?srv2, put_sock fd t' ?e1)"
    using found ready2 r2 free f(3) i(1,2) u(2) sz(5) os2(2)
    by (simp add: server_step_def server_incoming_def incoming_auth_def drop_incoming_def remove_incoming_def Let_def plain_header_def
        put_sock_def msg_defs)
  have "mset (map in_fd ?xs) = add_mset fd (mset (map in_fd (swap_remove ?xs i)))"
    using mset_map_swap_remove [of i ?xs in_fd] i(1,2) by simp
  moreover have "map in_fd ?xs = map in_fd (sx_incoming srv)" using i by (simp add: map_update list_update_same_conv)
  ultimately show ?thesis using step1 step2 f(1,2) t(5)
    by (intro exI [of _ ?srv1] exI [of _ ?e1] exI [of _ ?srv2] exI [of _ "put_sock fd t' ?e1"] exI [of _ f]) (simp add: put_sock_def)
qed

text \<open>
  C3: an honest client is admitted. A connection on which the hello and the signed answer of an honest
  exchange arrive, in whatever segments, from an address that is not blocked, becomes an active peer
  after two events if one of the configured slots is free and memory for the answer is available: the first free slot then carries the
  client's entry, the keys of that exchange and the descriptor, the server has sent its hello and the
  sealed confirmation, the connection has left the waiting list, and nothing was closed.
\<close>

theorem server_admits_honest:
  assumes B: "crypto_laws B" and x: "exchange_ok B k cfs ccfg sfs scfg a x" and k: "handshake_build k"
    and c: "find_incoming (sx_incoming srv) fd = Some i" "\<not> in_waiting_for_auth (sx_incoming srv ! i)"
    and sock: "flowing (nat (cf_handshake_timeout scfg * 1000)) (sk_in (we_socks e fd))" "roomy 4 (we_socks e fd)"
      "arrives (sk_in (we_socks e fd)) = plain_frame CT_MSG_CLIENT_HELLO (ex_hello B ccfg x) @ plain_frame CT_MSG_CLIENT_AUTH (ex_auth B ccfg x)"
    and os1: "frame_queued os1 fd CT_MSG_CLIENT_HELLO (ex_hello B ccfg x)" "os_fs os1 = sfs" "os_secret os1 = Some (ex_server_secret x)"
      "os_nonce os1 = Some (ex_server_random x)"
    and os2: "frame_queued os2 fd CT_MSG_CLIENT_AUTH (ex_auth B ccfg x)" "os_alloc os2"
    and rate: "auth_rate_slot k (sx_rates srv) (in_remote (sx_incoming srv ! i)) = Ok (slot, rates)"
      "\<not> os_now os1 < ra_blocked_until (rates ! slot)"
    and free: "index_of (\<lambda>p. \<not> pe_active p) (take (size_of_int (cf_max_clients scfg)) (sx_peers srv)) = Some j"
  shows "\<exists>srv1 e1 srv2 e2 f. server_step B k os1 scfg now1 (Ev_incoming fd) srv e = Ok (srv1, e1) \<and>
    server_step B k os2 scfg now2 (Ev_incoming fd) srv1 e1 = Ok (srv2, e2) \<and>
    sx_peers srv2 = (sx_peers srv)[j := (sx_peers srv ! j)\<lparr>pe_active := True, pe_fd := fd, pe_ctl := (server_start B k ccfg x)
      \<lparr>cc_tx_seq := 1, cc_last_rx_ms := os_now os2, cc_last_tx_ms := os_now os2\<rparr>, pe_auth := Some a, pe_next_stream := os_now os2\<rparr>] \<and>
    control_frame B k (server_start B k ccfg x) CT_MSG_AUTH_OK 0 [] = Ok f \<and>
    sk_out (we_socks e2 fd) = sk_out (we_socks e fd) @ plain_frame CT_MSG_SERVER_HELLO (ex_server_hello B ccfg x) @ f \<and>
    mset (map in_fd (sx_incoming srv)) = add_mset fd (mset (map in_fd (sx_incoming srv2))) \<and> we_closed e2 = we_closed e"
  by (rule honest_steps [OF assms])

section \<open>A concrete admission\<close>

lemma server_movesI: "server_step B k os cfg now ev srv e = Ok (srv', e') \<Longrightarrow> server_moves B k cfg srv srv'"
  unfolding server_moves_def by blast

definition accept_os :: os where
  "accept_os = demo_os\<lparr>os_accept := (\<lambda>_. (Some 5, True))\<rparr>"

definition hello_os :: "fs \<Rightarrow> os" where
  "hello_os fs = demo_os\<lparr>os_peek := (\<lambda>_. Inr (take 36 (plain_frame CT_MSG_CLIENT_HELLO (ex_hello toy_backend demo_config demo_exchange)))),
     os_queued := (\<lambda>_. Some 4000), os_fs := fs, os_secret := Some [4], os_nonce := Some (replicate 32 6)\<rparr>"

definition auth_os :: os where
  "auth_os = demo_os\<lparr>os_peek := (\<lambda>_. Inr (take 36 (plain_frame CT_MSG_CLIENT_AUTH (ex_auth toy_backend demo_config demo_exchange)))),
     os_queued := (\<lambda>_. Some 4000)\<rparr>"

definition join_env :: server_env where
  "join_env = demo_env\<lparr>we_socks := (\<lambda>_. quiet_sock (plain_frame CT_MSG_CLIENT_HELLO (ex_hello toy_backend demo_config demo_exchange) @
     plain_frame CT_MSG_CLIENT_AUTH (ex_auth toy_backend demo_config demo_exchange)))\<rparr>"

text \<open>A connection waits; its deadline follows from the configuration.\<close>

definition waiting_server :: "ct_config \<Rightarrow> server" where
  "waiting_server cfg = (server_boot default_defconfig [3])\<lparr>sx_incoming := [\<lparr>in_fd = 5, in_waiting_for_auth = False,
     in_deadline = of_int (cf_handshake_timeout cfg) * 1000,
     in_read_retry = 0, in_remote = lit ''192.0.2.7'', in_handshake = ct_handshake_server_abort\<rparr>]\<rparr>"

lemma accept_step: "\<exists>e'. server_step toy_backend default_defconfig accept_os cfg 0 (Ev_accept 3) (server_boot default_defconfig [3]) e =
    Ok (waiting_server cfg, e')"
  by (simp add: server_step_def server_accept_def accept_os_def demo_os_def ct_net_accept_def server_boot_def waiting_server_def
      incoming_for_remote_def default_defconfig_def Let_def lit_def)

lemma frames_queued:
  "frame_queued (hello_os fs) fd CT_MSG_CLIENT_HELLO (ex_hello toy_backend demo_config demo_exchange)"
  "frame_queued auth_os fd CT_MSG_CLIENT_AUTH (ex_auth toy_backend demo_config demo_exchange)"
  using exchange_sizes(3,5) [OF toy_crypto_laws demo_exchange_ok]
  by (simp_all add: frame_queued_def hello_os_def auth_os_def plain_frame_def demo_config_def)

lemma rate_scan_free: "ra_address r \<noteq> a \<Longrightarrow> rate_scan (replicate n r) a i (Some j) oldest = Inr j"
  by (induction n arbitrary: i oldest) auto

lemma clients_four: "k_max_clients default_defconfig = 4"
  by (simp add: default_defconfig_def)

lemma eight_cells: "replicate 8 x = x # replicate 7 x" and four_cells: "replicate 4 x = x # replicate 3 x"
  by (simp_all add: numeral_eq_Suc)

lemma waiting_slot:
  "\<exists>rates. auth_rate_slot default_defconfig (sx_rates (waiting_server cfg)) (in_remote (sx_incoming (waiting_server cfg) ! 0)) = Ok (0, rates) \<and>
     ra_blocked_until (rates ! 0) = 0"
proof -
  have "sx_rates (waiting_server cfg) =
      \<lparr>ra_address = [], ra_blocked_until = 0, ra_failures = 0\<rparr> # replicate 7 \<lparr>ra_address = [], ra_blocked_until = 0, ra_failures = 0\<rparr>"
    by (simp add: waiting_server_def server_boot_def clients_four eight_cells)
  then show ?thesis by (simp add: waiting_server_def auth_rate_slot_def rate_scan_free lit_def)
qed

lemma waiting_free:
  assumes "0 < size_of_int (cf_max_clients cfg)"
  shows "index_of (\<lambda>p. \<not> pe_active p) (take (size_of_int (cf_max_clients cfg)) (sx_peers (waiting_server cfg))) = Some 0"
proof -
  have "sx_peers (waiting_server cfg) = zero_peer default_defconfig # replicate 3 (zero_peer default_defconfig)"
    by (simp add: waiting_server_def server_boot_def clients_four four_cells)
  moreover obtain n where "size_of_int (cf_max_clients cfg) = Suc n" using assms gr0_implies_Suc by blast
  ultimately show ?thesis by (simp add: zero_peer_def)
qed

lemma waiting_facts:
  "find_incoming (sx_incoming (waiting_server cfg)) 5 = Some 0" "\<not> in_waiting_for_auth (sx_incoming (waiting_server cfg) ! 0)"
  "flowing ms (sk_in (we_socks join_env 5))" "roomy 4 (we_socks join_env 5)"
  "arrives (sk_in (we_socks join_env 5)) = plain_frame CT_MSG_CLIENT_HELLO (ex_hello toy_backend demo_config demo_exchange) @
     plain_frame CT_MSG_CLIENT_AUTH (ex_auth toy_backend demo_config demo_exchange)"
  "os_fs (hello_os fs) = fs" "os_secret (hello_os fs) = Some (ex_server_secret demo_exchange)"
  "os_nonce (hello_os fs) = Some (ex_server_random demo_exchange)" "os_alloc auth_os"
  by (simp_all add: waiting_server_def find_incoming_def join_env_def hello_os_def auth_os_def demo_os_def demo_exchange_def)

lemma demo_seats: "0 < size_of_int (cf_max_clients demo_server)"
  by (simp add: demo_server_def demo_config_def size_of_int_def)

theorem server_admits_honest_witness:
  "\<exists>srv1 e1 srv2 e2. server_step toy_backend default_defconfig (hello_os (demo_fs [2] [1])) demo_server 7 (Ev_incoming 5) (waiting_server demo_server) join_env = Ok (srv1, e1) \<and>
     server_step toy_backend default_defconfig auth_os demo_server 7 (Ev_incoming 5) srv1 e1 = Ok (srv2, e2) \<and> we_closed e2 = []"
proof -
  from waiting_slot obtain rates where r: "auth_rate_slot default_defconfig (sx_rates (waiting_server demo_server))
      (in_remote (sx_incoming (waiting_server demo_server) ! 0)) = Ok (0, rates)" "ra_blocked_until (rates ! 0) = 0" by blast
  then have "\<not> os_now (hello_os (demo_fs [2] [1])) < ra_blocked_until (rates ! 0)" by simp
  from server_admits_honest [OF toy_crypto_laws demo_exchange_ok demo_build waiting_facts(1-5) frames_queued(1) waiting_facts(6-8)
      frames_queued(2) waiting_facts(9) r(1) this waiting_free [OF demo_seats], of 7 7] show ?thesis by (auto simp: join_env_def demo_env_def)
qed

text \<open>
  A reachable state with an active peer, for every configuration of the server whose list of clients and
  key files fit the demo client.
\<close>

lemma demo_joins:
  assumes x: "exchange_ok toy_backend default_defconfig (demo_fs [1] [2]) demo_config sfs scfg a demo_exchange"
    and seats: "0 < size_of_int (cf_max_clients scfg)"
  shows "\<exists>srv p. reach (server_boot default_defconfig [3]) (server_moves toy_backend default_defconfig scfg) srv \<and>
     p \<in> set (sx_peers srv) \<and> pe_active p \<and> pe_auth p = Some a"
proof -
  from waiting_slot obtain rates where r: "auth_rate_slot default_defconfig (sx_rates (waiting_server scfg))
      (in_remote (sx_incoming (waiting_server scfg) ! 0)) = Ok (0, rates)" "ra_blocked_until (rates ! 0) = 0" by blast
  then have "\<not> os_now (hello_os sfs) < ra_blocked_until (rates ! 0)" by simp
  from honest_steps [OF toy_crypto_laws x demo_build waiting_facts(1-5) frames_queued(1) waiting_facts(6-8)
      frames_queued(2) waiting_facts(9) r(1) this waiting_free [OF seats], of 7 7] obtain srv1 e1 srv2 e2 where
    s: "server_step toy_backend default_defconfig (hello_os sfs) scfg 7 (Ev_incoming 5) (waiting_server scfg) join_env = Ok (srv1, e1)"
      "server_step toy_backend default_defconfig auth_os scfg 7 (Ev_incoming 5) srv1 e1 = Ok (srv2, e2)"
      "\<exists>q. sx_peers srv2 = (sx_peers (waiting_server scfg))[0 := q] \<and> pe_active q \<and> pe_auth q = Some a"
    by (elim exE conjE) (rule that, assumption, assumption, rule exI, rule conjI, assumption, simp)
  obtain e0 where "server_step toy_backend default_defconfig accept_os scfg 0 (Ev_accept 3) (server_boot default_defconfig [3]) demo_env =
      Ok (waiting_server scfg, e0)" using accept_step by blast
  note moves = this [THEN server_movesI] s(1,2) [THEN server_movesI]
  have "reach (server_boot default_defconfig [3]) (server_moves toy_backend default_defconfig scfg) srv2"
    by (rule reach_step, rule reach_step, rule reach_step, rule reach_start) (rule moves)+
  moreover have "0 < length (sx_peers (waiting_server scfg))" by (simp add: waiting_server_def server_boot_def clients_four)
  ultimately show ?thesis using s(3) by (metis set_update_memI)
qed

theorem server_only_authorized_witness:
  "\<exists>srv p. reach (server_boot default_defconfig [3]) (server_moves toy_backend default_defconfig demo_server) srv \<and>
     p \<in> set (sx_peers srv) \<and> pe_active p \<and> pe_auth p = Some demo_entry \<and> (\<forall>s\<in>set (pe_svc p). ct_authorized_port demo_entry
       (sv_remote_addr (sr_cfg s)) (sv_remote_port (sr_cfg s)))"
proof -
  from demo_joins [OF demo_exchange_ok demo_seats] obtain srv p where
    p: "reach (server_boot default_defconfig [3]) (server_moves toy_backend default_defconfig demo_server) srv"
    "p \<in> set (sx_peers srv)" "pe_active p" "pe_auth p = Some demo_entry" by blast
  with server_only_authorized [OF p(1,2)] show ?thesis by auto
qed

theorem server_within_limits_witness:
  "\<exists>srv p. reach (server_boot default_defconfig [3]) (server_moves toy_backend default_defconfig demo_server) srv \<and>
     p \<in> set (sx_peers srv) \<and> pe_active p \<and> length (sx_peers srv) = 4 \<and> length (filter pe_active (sx_peers srv)) \<le> 8 \<and>
     length (pe_pending p) \<le> 8 \<and> active_streams p \<le> 1"
proof -
  from demo_joins [OF demo_exchange_ok demo_seats] obtain srv p where
    p: "reach (server_boot default_defconfig [3]) (server_moves toy_backend default_defconfig demo_server) srv"
    "p \<in> set (sx_peers srv)" "pe_active p" "pe_auth p = Some demo_entry" by blast
  have "size_of_int 8 = 8" "stream_limit demo_server demo_entry = 1"
    by (simp_all add: size_of_int_def stream_limit_def demo_server_def demo_config_def demo_entry_def)
  moreover have "cf_max_clients demo_server = 8" "cf_max_pending_streams demo_server = 8" by (simp_all add: demo_server_def demo_config_def)
  ultimately show ?thesis using server_within_limits [OF p(1)] p
    by (intro exI [of _ srv] exI [of _ p]) (auto simp: within_limits_def peer_within_def clients_four)
qed

section \<open>Shutdown\<close>

text \<open>Free slots hold nothing.\<close>

definition peer_fds :: "server_peer \<Rightarrow> int list" where
  "peer_fds p = (if pe_active p then held_fds p else [])"

lemma peer_close_fds: "peer_close B k os p e = (p', e') \<Longrightarrow> we_closed e' = we_closed e @ peer_fds p \<and> \<not> pe_active p'"
proof (cases "pe_active p")
  case True
  assume c: "peer_close B k os p e = (p', e')"
  obtain ok p1 e1 where s: "peer_send B k os p e CT_MSG_GOAWAY 0 [] 100 = (ok, p1, e1)" by (metis prod_cases3)
  then have "we_closed e1 = we_closed e" using peer_send_frame [OF s] by auto
  moreover have "concat (map (\<lambda>s. [pc_fd (st_pending s), wk_fd (st_work s)]) xs) = concat (map starting_fds xs)" for xs
    by (simp add: starting_fds_def [abs_def])
  ultimately show ?thesis using True c s
    by (auto simp: peer_close_def Let_def close_relays_closed held_fds_def peer_fds_def) (simp_all add: zero_peer_def)
qed (auto simp: peer_close_def peer_fds_def)

lemma close_peers_fds: "close_peers B k os ps e = (ps', e') \<Longrightarrow> we_closed e' = we_closed e @ concat (map peer_fds ps)"
  by (induction ps arbitrary: e ps' e') (auto simp: Let_def split: prod.splits dest!: peer_close_fds)

lemma drain_fds: "mset (we_closed (drain_incoming xs e)) = mset (we_closed e) + mset (map in_fd xs)"
proof (induction xs e rule: drain_incoming.induct)
  case (1 xs e)
  show ?case
  proof (cases "xs = []")
    case True
    then show ?thesis by (simp add: drain_incoming.simps)
  next
    case False
    then have "mset (map in_fd xs) = add_mset (in_fd (xs ! 0)) (mset (map in_fd (swap_remove xs 0)))"
      by (intro mset_map_swap_remove) simp
    moreover have "mset (we_closed (drain_incoming (swap_remove xs 0) (close_fd (in_fd (xs ! 0)) e))) =
        mset (we_closed (close_fd (in_fd (xs ! 0)) e)) + mset (map in_fd (swap_remove xs 0))"
      using "1.IH" [OF False, of "(swap_remove xs 0, close_fd (in_fd (xs ! 0)) e)"] by (simp add: remove_incoming_def)
    ultimately show ?thesis using False by (subst drain_incoming.simps) (simp add: remove_incoming_def)
  qed
qed

text \<open>
  Stopping the server closes everything it holds, each descriptor as often as it is held: the
  control listeners, every connection that waits to authenticate, and every descriptor of every active
  peer; it always terminates.
\<close>

theorem server_stop_closes_all:
  "mset (we_closed (server_stop B k os srv e)) = mset (we_closed e) + mset (concat (map peer_fds (sx_peers srv))) +
     mset (map in_fd (sx_incoming srv)) + mset (sx_control srv)"
  by (auto simp: server_stop_def listen_set_close_def drain_fds close_peers_fds split: prod.splits)

end
