(* ===== verification/Client_Udp.thy ===== *)
theory Client_Udp
  imports Server_Streams Event_Loop
begin

text \<open>
  The datagram sessions of \<open>src/src/client/client.c\<close>: the client opens a local socket for each session
  the server announces, passes datagrams both ways and closes idle sessions. Counters, sockets and
  closed descriptors are in the same environment record as for the server.
\<close>

section \<open>State\<close>

text \<open>A pointer to a service of the configuration is its index.\<close>

record client_udp_session =
  cu_active :: bool
  cu_id :: u64
  cu_tx_seq :: u64
  cu_rx :: window
  cu_last_ms :: u64
  cu_peer :: ct_endpoint
  cu_local :: ct_endpoint
  cu_svc :: nat
  cu_fd :: int

text \<open>
  The answers of the operating system during one event: the clock and \<open>malloc\<close>; for the work connection
  with a given number its connection attempts and random bytes; connection attempts and addresses of
  local services; a datagram socket for a family; received and sent datagrams; peeked bytes and queue
  lengths; blocks for the buffers of a relay, what the receive buffer held before, and \<open>inet_ntop\<close>.
\<close>

record client_os =
  co_now :: u64
  co_alloc :: bool
  co_work :: "u64 \<Rightarrow> candidate list option"
  co_work_random :: "u64 \<Rightarrow> bytes option"
  co_connect :: "bytes \<Rightarrow> u16 \<Rightarrow> candidate list option"
  co_host :: "bytes \<Rightarrow> u16 \<Rightarrow> sockaddr list option"
  co_udp_socket :: "u8 \<Rightarrow> int option \<times> bool"
  co_recvfrom :: "int \<Rightarrow> bool \<times> (sockaddr \<times> bytes) option"
  co_sendto :: "int \<Rightarrow> bool \<times> (sockaddr \<Rightarrow> nat option)"
  co_peek :: "int \<Rightarrow> bool + bytes"
  co_queued :: "int \<Rightarrow> nat option"
  co_ring :: "nat \<Rightarrow> bytes option"
  co_garbage :: bytes
  co_ntop :: "u8 \<Rightarrow> bytes \<Rightarrow> bytes option"

definition client_svc :: "ct_config \<Rightarrow> bytes \<Rightarrow> nat option" where
  "client_svc cfg service = index_of (\<lambda>s. sv_id s = service) (cf_services cfg)"

definition client_svc_at :: "ct_config \<Rightarrow> nat \<Rightarrow> ct_service_config res" where
  "client_svc_at cfg i = (if i < length (cf_services cfg) then Ok (cf_services cfg ! i) else Fault)"

section \<open>Sessions\<close>

definition client_udp_find :: "client_udp_session list \<Rightarrow> u64 \<Rightarrow> nat option" where
  "client_udp_find sessions sid = index_of (\<lambda>u. cu_active u \<and> cu_id u = sid) sessions"

definition client_udp_create :: "autoconf \<Rightarrow> client_os \<Rightarrow> ct_config \<Rightarrow> client_udp_session list \<Rightarrow> ct_udp_datagram \<Rightarrow> u64 \<Rightarrow> server_env \<Rightarrow>
    (nat option \<times> client_udp_session list \<times> server_env) res" where
  "client_udp_create k os cfg sessions d now e =
     (case client_svc cfg (cstr (dg_service d)) of
        None \<Rightarrow> Ok (None, sessions, e)
      | Some j \<Rightarrow>
          let svc = cf_services cfg ! j in
          if sv_type svc \<noteq> 2 then Ok (None, sessions, e)
          else if length (filter cu_active sessions) \<ge> size_of_int (sv_udp_max_sessions svc)
          then Ok (None, sessions, tally (ct_metric_inc CT_METRIC_UDP_SESSIONS_REJECTED_TOTAL) e)
          else case ct_udp_endpoint_from_host k (co_host os (sv_local_addr svc) (sv_local_port svc)) of
            Fault \<Rightarrow> Fault
          | Err \<Rightarrow> Ok (None, sessions, e)
          | Ok loc \<Rightarrow>
              let (f, closed) = ct_udp_open (fst (co_udp_socket os (ep_family loc))) (snd (co_udp_socket os (ep_family loc)));
                  e1 = close_fds closed e in
              (case f of
                 None \<Rightarrow> Ok (None, sessions, e1)
               | Some fd \<Rightarrow>
                   (case index_of (\<lambda>u. \<not> cu_active u) sessions of
                      None \<Rightarrow> Ok (None, sessions, close_fd fd e1)
                    | Some i \<Rightarrow>
                        Ok (Some i,
                            sessions[i := \<lparr>cu_active = True, cu_id = dg_session_id d, cu_tx_seq = 0, cu_rx = (0, 0), cu_last_ms = now,
                              cu_peer = dg_peer d, cu_local = loc, cu_svc = j, cu_fd = fd\<rparr>],
                            tally (ct_metric_inc CT_METRIC_UDP_SESSIONS_CREATED_TOTAL \<circ> ct_metric_inc CT_METRIC_UDP_SESSIONS_ACTIVE) e1))))"

definition zero_client_session :: client_udp_session where
  "zero_client_session = \<lparr>cu_active = False, cu_id = 0, cu_tx_seq = 0, cu_rx = (0, 0), cu_last_ms = 0,
     cu_peer = \<lparr>ep_family = 0, ep_addr = replicate 16 0, ep_port = 0\<rparr>,
     cu_local = \<lparr>ep_family = 0, ep_addr = replicate 16 0, ep_port = 0\<rparr>, cu_svc = 0, cu_fd = 0\<rparr>"

definition client_udp_close :: "bool \<Rightarrow> client_udp_session \<Rightarrow> server_env \<Rightarrow> client_udp_session \<times> server_env" where
  "client_udp_close expired u e =
     (if \<not> cu_active u then (u, e)
      else (zero_client_session,
        tally ((if expired then ct_metric_inc CT_METRIC_UDP_SESSIONS_EXPIRED_TOTAL else id) \<circ> ct_metric_dec CT_METRIC_UDP_SESSIONS_ACTIVE)
          (close_fd (cu_fd u) e)))"

section \<open>Datagrams\<close>

text \<open>From the server to a local service; \<open>False\<close> is the return value -1.\<close>

definition client_udp_from_server :: "autoconf \<Rightarrow> client_os \<Rightarrow> ct_config \<Rightarrow> client_udp_session list \<Rightarrow> bytes \<Rightarrow> u64 \<Rightarrow> server_env \<Rightarrow>
    (bool \<times> client_udp_session list \<times> server_env) res" where
  "client_udp_from_server k os cfg sessions payload now e =
     (let dropped = tally (ct_metric_inc CT_METRIC_UDP_DATAGRAMS_DROPPED_TOTAL) in
      case ct_udp_datagram_unpack k payload (length payload) of
        Fault \<Rightarrow> Fault
      | Err \<Rightarrow> Ok (False, sessions, dropped e)
      | Ok d \<Rightarrow>
          if dg_direction d \<noteq> 0 then Ok (False, sessions, dropped e)
          else
            andthen (case client_udp_find sessions (dg_session_id d) of
                Some i \<Rightarrow> Ok (Some i, sessions, e)
              | None \<Rightarrow> client_udp_create k os cfg sessions d now e) (\<lambda>(slot, us, e1).
            case slot of
              None \<Rightarrow> Ok (True, us, dropped e1)
            | Some i \<Rightarrow>
                let u = us ! i in
                andthen (client_svc_at cfg (cu_svc u)) (\<lambda>svc.
                andthen (if sv_id svc \<noteq> cstr (dg_service d) then Ok False else endpoint_equal (cu_peer u) (dg_peer d)) (\<lambda>same.
                if \<not> same then Ok (True, us, dropped e1)
                else if length (dg_payload d) > size_of_int (sv_udp_max_datagram_size svc)
                then Ok (True, us, dropped (tally (ct_metric_inc CT_METRIC_UDP_DATAGRAMS_OVERSIZED_TOTAL) e1))
                else case udp_replay_accept (k_udp_replay_window k) (cu_rx u) (dg_sequence d) of
                  Fault \<Rightarrow> Fault
                | Err \<Rightarrow> Ok (True, us, tally (ct_metric_inc CT_METRIC_UDP_REPLAY_DROPPED_TOTAL) e1)
                | Ok w \<Rightarrow>
                    let us' = us[i := u\<lparr>cu_rx := w, cu_last_ms := now\<rparr>]; (wb, answer) = co_sendto os (cu_fd u) in
                    (case ct_udp_send k (cu_local u) (dg_payload d) wb answer of
                       Fault \<Rightarrow> Fault
                     | Err \<Rightarrow> Ok (False, us', tally (ct_metric_inc CT_METRIC_UDP_LOCAL_SEND_FAILURES_TOTAL) e1)
                     | Ok sent \<Rightarrow>
                         Ok (True, us', tally (ct_metric_add CT_METRIC_UDP_BYTES_C2S_TOTAL (of_nat (length (dg_payload d))) \<circ>
                           ct_metric_inc CT_METRIC_UDP_DATAGRAMS_C2S_TOTAL)
                           (if sent then e1\<lparr>we_sent := we_sent e1 @ [(cu_fd u, cu_local u, dg_payload d)]\<rparr> else e1)))))))"

text \<open>From a local service to the server, on the control connection \<open>ctl\<close> with descriptor \<open>fd\<close>.\<close>

definition client_udp_from_local :: "monocypher \<Rightarrow> autoconf \<Rightarrow> client_os \<Rightarrow> ct_config \<Rightarrow> client_udp_session \<Rightarrow> ct_control \<Rightarrow> int \<Rightarrow> u64 \<Rightarrow>
    server_env \<Rightarrow> (bool \<times> client_udp_session \<times> ct_control \<times> server_env) res" where
  "client_udp_from_local B k os cfg u ctl fd now e =
     (let dropped = tally (ct_metric_inc CT_METRIC_UDP_DATAGRAMS_DROPPED_TOTAL) in
      case ct_udp_recv k (k_max_udp_datagram k) (fst (co_recvfrom os (cu_fd u))) (snd (co_recvfrom os (cu_fd u))) of
        Fault \<Rightarrow> Fault
      | Err \<Rightarrow> Ok (False, u, ctl, e)
      | Ok Would_block \<Rightarrow> Ok (True, u, ctl, e)
      | Ok (Datagram source payload) \<Rightarrow>
          andthen (client_svc_at cfg (cu_svc u)) (\<lambda>svc.
          if length payload > size_of_int (sv_udp_max_datagram_size svc)
          then Ok (True, u, ctl, dropped (tally (ct_metric_inc CT_METRIC_UDP_DATAGRAMS_OVERSIZED_TOTAL) e))
          else
            let seq = cu_tx_seq u + 1; u1 = u\<lparr>cu_last_ms := now, cu_tx_seq := seq\<rparr> in
            (case ct_udp_datagram_pack k (k_control_buffer k) [] \<lparr>dg_direction = 1, dg_session_id = cu_id u, dg_sequence = seq,
                dg_service = take (k_max_service_id k) (sv_id svc), dg_peer = cu_peer u, dg_payload = payload\<rparr> of
               Fault \<Rightarrow> Fault
             | Err \<Rightarrow> Ok (False, u1, ctl, dropped e)
             | Ok frame \<Rightarrow>
                 (case ct_control_send B k (co_alloc os) (co_now os) ctl (we_socks e fd) CT_MSG_UDP_DATAGRAM (cu_id u) frame 5000 of
                    (ok, ctl', s) \<Rightarrow>
                      let e1 = put_sock fd s e in
                      if ok then Ok (True, u1, ctl', tally (ct_metric_add CT_METRIC_UDP_BYTES_S2C_TOTAL (of_nat (length payload)) \<circ>
                        ct_metric_inc CT_METRIC_UDP_DATAGRAMS_S2C_TOTAL) e1)
                      else Ok (False, u1, ctl', dropped e1)))))"

fun client_udp_expire :: "ct_config \<Rightarrow> u64 \<Rightarrow> client_udp_session list \<Rightarrow> server_env \<Rightarrow> (client_udp_session list \<times> server_env) res" where
  "client_udp_expire cfg now [] e = Ok ([], e)"
| "client_udp_expire cfg now (u # us) e =
     andthen (if cu_active u
       then andthen (client_svc_at cfg (cu_svc u)) (\<lambda>svc. Ok (now - cu_last_ms u > of_int (sv_udp_idle_timeout svc) * 1000)) else Ok False) (\<lambda>expired.
     let (u', e') = (if expired then client_udp_close True u e else (u, e)) in
     andthen (client_udp_expire cfg now us e') (\<lambda>(us', e''). Ok (u' # us', e'')))"

end
