(* ===== verification/Client.thy ===== *)
theory Client
  imports Client_Udp
begin

text \<open>
  The client of \<open>src/src/client/client.c\<close>: registration of the services, the pool of idle work
  connections, the start of streams, the events and timers of a session, its end, and the delay
  before the next attempt.
\<close>

section \<open>State\<close>

record idle_work =
  iw_connection :: ct_work
  iw_read_retry :: u64

record client =
  cl_fd :: int
  cl_ctl :: ct_control
  cl_work :: "idle_work list"
  cl_relays :: "ct_relay list"
  cl_udp :: "client_udp_session list"

datatype client_event =
    Cl_control
  | Cl_work int
  | Cl_udp_local nat
  | Cl_relay nat bool bool bool
  | Cl_timers

text \<open>Sending on the control connection.\<close>

definition client_send :: "monocypher \<Rightarrow> autoconf \<Rightarrow> client_os \<Rightarrow> client \<Rightarrow> server_env \<Rightarrow> u8 \<Rightarrow> bytes \<Rightarrow> nat \<Rightarrow> bool \<times> client \<times> server_env" where
  "client_send B k os c e type payload ms =
     (case ct_control_send B k (co_alloc os) (co_now os) (cl_ctl c) (we_socks e (cl_fd c)) type 0 payload ms of
        (ok, ctl, s) \<Rightarrow> (ok, c\<lparr>cl_ctl := ctl\<rparr>, put_sock (cl_fd c) s e))"

section \<open>Work connections\<close>

text \<open>\<open>ct_work_connect\<close> on a fresh connection to the server; \<open>False\<close> is the return value -1.\<close>

definition add_work :: "monocypher \<Rightarrow> autoconf \<Rightarrow> client_os \<Rightarrow> ct_config \<Rightarrow> client \<Rightarrow> server_env \<Rightarrow> (bool \<times> client \<times> server_env) res" where
  "add_work B k os cfg c e =
     (if length (cl_work c) \<ge> k_max_streams k then Ok (False, c, e)
      else
        let n = cc_work_tx_seq (cl_ctl c);
            (f, closed) = ct_net_connect (co_work os n);
            fd = (case f of Some x \<Rightarrow> x | None \<Rightarrow> CT_INVALID_SOCKET)
        in case ct_work_connect B k (cl_ctl c) f (co_work_random os n) (we_socks e fd) (nat (cf_connect_timeout cfg * 1000)) of
             (r, ctl, s, cl) \<Rightarrow>
               let c1 = c\<lparr>cl_ctl := ctl\<rparr>; e1 = close_fds (closed @ cl) (if f = None then e else put_sock fd s e) in
               (case r of
                  Fault \<Rightarrow> Fault
                | Err \<Rightarrow> Ok (False, c1, tally (ct_metric_inc CT_METRIC_WORK_CONNECT_FAILURES_TOTAL) e1)
                | Ok w \<Rightarrow> Ok (True, c1\<lparr>cl_work := cl_work c @ [\<lparr>iw_connection = w, iw_read_retry = 0\<rparr>]\<rparr>,
                    tally (ct_metric_inc CT_METRIC_WORK_IDLE) e1)))"

lemma add_work_grows: "add_work B k os cfg c e = Ok (True, c', e') \<Longrightarrow> length (cl_work c') = Suc (length (cl_work c))"
  by (auto simp: add_work_def Let_def case_Ok_iff split: if_splits)

text \<open>\<open>while (wn < pool_count && wn < MAX_WORK) if (add_work(...)) break;\<close>\<close>

function refill_pool :: "monocypher \<Rightarrow> autoconf \<Rightarrow> client_os \<Rightarrow> ct_config \<Rightarrow> client \<Rightarrow> server_env \<Rightarrow> (client \<times> server_env) res" where
  "refill_pool B k os cfg c e =
     (if length (cl_work c) < size_of_int (cf_pool_count cfg) \<and> length (cl_work c) < k_max_streams k
      then case add_work B k os cfg c e of
        Ok (True, c', e') \<Rightarrow> refill_pool B k os cfg c' e'
      | Ok (False, c', e') \<Rightarrow> Ok (c', e')
      | Err \<Rightarrow> Err
      | Fault \<Rightarrow> Fault
      else Ok (c, e))"
  by pat_completeness auto
termination
  by (relation "measure (\<lambda>(B, k, os, cfg, c, e). k_max_streams k - length (cl_work c))") (auto simp: add_work_grows)

declare refill_pool.simps [simp del]

text \<open>The first filling: \<open>for (i = 0; i < pool_count; i++) if (add_work(...)) break;\<close>\<close>

fun fill_pool :: "nat \<Rightarrow> monocypher \<Rightarrow> autoconf \<Rightarrow> client_os \<Rightarrow> ct_config \<Rightarrow> client \<Rightarrow> server_env \<Rightarrow> (client \<times> server_env) res" where
  "fill_pool 0 B k os cfg c e = Ok (c, e)"
| "fill_pool (Suc n) B k os cfg c e =
     andthen (add_work B k os cfg c e) (\<lambda>(ok, c', e'). if ok then fill_pool n B k os cfg c' e' else Ok (c', e'))"

definition find_work :: "idle_work list \<Rightarrow> int \<Rightarrow> nat option" where
  "find_work work fd = index_of (\<lambda>w. wk_fd (iw_connection w) = fd) work"

section \<open>Registration\<close>

definition register_payload :: "autoconf \<Rightarrow> ct_service_config \<Rightarrow> bytes res" where
  "register_payload k s =
     (let cap = k_control_buffer k in
      andthen (ct_pack_string cap [] (sv_id s) (k_max_service_id k)) (\<lambda>o1.
      andthen (ct_pack_string cap o1 (sv_remote_addr s) (k_max_addr k)) (\<lambda>o2.
      andthen (emits cap o2 [ct_put_u16 (sv_remote_port s), [of_int (sv_type s)], [sv_encryption s], [of_int (sv_proxy_protocol s)]]) (\<lambda>o3.
      if k_udp k \<and> sv_type s = 2
      then emits cap o3 [ct_put_u32 (of_int (sv_udp_idle_timeout s)), ct_put_u32 (of_int (sv_udp_reply_timeout s)),
        ct_put_u32 (of_int (sv_udp_max_sessions s)), ct_put_u32 (of_int (sv_udp_max_datagram_size s))]
      else Ok o3))))"

lemma control_send_rx: "ct_control_send B k alloc now c s type stream p ms = (ok, c', s') \<Longrightarrow> cc_rx_seq c' = cc_rx_seq c"
  by (auto simp: ct_control_send_def Let_def split: prod.splits res.splits if_splits)

lemma control_recv_rx: "ct_control_recv B k alloc now c s cap ms = (Ok r, c', s') \<Longrightarrow> cc_rx_seq c' = cc_rx_seq c + 1 \<and> cc_rx_seq c \<noteq> uint64_max"
  using control_recv_state [of B k alloc now c s cap ms r c' s']
  by (auto simp: ct_control_recv_def Let_def split: prod.splits option.splits res.splits if_split_asm)

lemma rx_counts_down:
  assumes "(q :: u64) \<noteq> uint64_max"
  shows "2 ^ 64 - unat (q + 1) < 2 ^ 64 - unat q"
proof -
  have "q + 1 \<noteq> 0" using next_id_mono(1,3) [OF assms] by simp
  then have "unat (q + 1) = Suc (unat q)" using unatSuc [of q] by (simp add: add.commute)
  moreover have "unat q < 2 ^ 64" using unsigned_less [of q] by simp
  ultimately show ?thesis by (simp only: diff_less_mono2 lessI)
qed

definition frames_left :: "ct_control \<Rightarrow> nat" where
  "frames_left c = 2 ^ 64 - unat (cc_rx_seq c)"

lemma frames_left_recv:
  "ct_control_recv B k alloc now c s cap ms = (Ok r, c', s') \<Longrightarrow> frames_left c' < frames_left c"
  unfolding frames_left_def by (metis control_recv_rx rx_counts_down)

lemma frames_left_send:
  "ct_control_send B k alloc now c s type stream p ms = (ok, c', s') \<Longrightarrow> frames_left c' = frames_left c"
  using control_send_rx [of B k alloc now c s type stream p ms ok c' s'] by (simp only: frames_left_def)

text \<open>
  Waiting for the answer to one request. Pings are answered and requests for work connections are
  ignored meanwhile; every received frame raises the receive sequence number, which never wraps.
\<close>

function await_registered :: "monocypher \<Rightarrow> autoconf \<Rightarrow> client_os \<Rightarrow> bytes \<Rightarrow> ct_control \<Rightarrow> sock \<Rightarrow> unit res \<times> ct_control \<times> sock" where
  "await_registered B k os service c s =
     (case ct_control_recv B k (co_alloc os) (co_now os) c s (k_control_buffer k) 5000 of
        (Fault, c1, s1) \<Rightarrow> (Fault, c1, s1)
      | (Err, c1, s1) \<Rightarrow> (Err, c1, s1)
      | (Ok (h, reply), c1, s1) \<Rightarrow>
          if fh_type h = CT_MSG_PING then
            (case ct_control_send B k (co_alloc os) (co_now os) c1 s1 CT_MSG_PONG 0 reply 5000 of
               (ok, c2, s2) \<Rightarrow> if ok then await_registered B k os service c2 s2 else (Err, c2, s2))
          else if fh_type h = CT_MSG_REQUEST_WORK_CONNECTION then await_registered B k os service c1 s1
          else if fh_type h \<noteq> CT_MSG_REGISTER_OK then (Err, c1, s1)
          else (case ct_unpack_string (k_max_service_id k + 1) reply (length reply) 0 of
                  Fault \<Rightarrow> (Fault, c1, s1)
                | Err \<Rightarrow> (Err, c1, s1)
                | Ok (registered, off) \<Rightarrow>
                    (if off \<noteq> length reply \<or> cstr registered \<noteq> service then Err else Ok (), c1, s1)))"
  by pat_completeness auto
termination
  by (relation "measure (\<lambda>(B, k, os, service, c, s). frames_left c)")
    (auto dest!: frames_left_recv [OF sym] frames_left_send [OF sym])

declare await_registered.simps [simp del]

fun client_register :: "monocypher \<Rightarrow> autoconf \<Rightarrow> client_os \<Rightarrow> ct_service_config list \<Rightarrow> ct_control \<Rightarrow> sock \<Rightarrow> unit res \<times> ct_control \<times> sock" where
  "client_register B k os [] c s = (Ok (), c, s)"
| "client_register B k os (svc # svcs) c s =
     (case register_payload k svc of
        Fault \<Rightarrow> (Fault, c, s)
      | Err \<Rightarrow> (Err, c, s)
      | Ok b \<Rightarrow>
          (case ct_control_send B k (co_alloc os) (co_now os) c s CT_MSG_REGISTER_SERVICE 0 b 5000 of
             (ok, c1, s1) \<Rightarrow>
               if \<not> ok then (Err, c1, s1)
               else (case await_registered B k os (sv_id svc) c1 s1 of
                       (Ok u, c2, s2) \<Rightarrow> client_register B k os svcs c2 s2
                     | (r, c2, s2) \<Rightarrow> (r, c2, s2))))"

section \<open>Streams\<close>

text \<open>
  The service a stream names, if its encryption and PROXY mode are those of the configuration; and the
  counter of mismatched PROXY modes.
\<close>

definition stream_service :: "ct_config \<Rightarrow> start_stream \<Rightarrow> server_env \<Rightarrow> ct_service_config option \<times> server_env" where
  "stream_service cfg st e =
     (case client_svc cfg (cstr (ss_service st)) of
        None \<Rightarrow> (None, e)
      | Some j \<Rightarrow>
          let svc = cf_services cfg ! j in
          if sv_encryption svc \<noteq> ss_mode st then (None, e)
          else if sv_proxy_protocol svc \<noteq> uint (md_proxy_protocol (ss_metadata st))
          then (None, tally (ct_metric_inc CT_METRIC_PROXY_PROTOCOL_MODE_MISMATCH_TOTAL) e)
          else (Some svc, e))"

text \<open>Connecting to the local service, answering the server, and starting the relay in the first closed slot.\<close>

definition begin_stream :: "monocypher \<Rightarrow> autoconf \<Rightarrow> client_os \<Rightarrow> ct_config \<Rightarrow> ct_work \<Rightarrow> start_stream \<Rightarrow> client \<Rightarrow> server_env \<Rightarrow>
    (client \<times> server_env) res" where
  "begin_stream B k os cfg w st c e =
     (let (svc, e1) = stream_service cfg st e;
          (loc, closed) = (case svc of None \<Rightarrow> (None, []) | Some s \<Rightarrow> ct_net_connect (co_connect os (sv_local_addr s) (sv_local_port s)));
          e2 = close_fds closed e1;
          service = cstr (ss_service st);
          ready = (\<lambda>ok e. ct_stream_ready_send B k w (cl_ctl c) service (ss_mode st) (ss_sid st) (ss_random st) ok (we_socks e (wk_fd w)))
      in case loc of
           None \<Rightarrow>
             (case ready False e2 of
                (Fault, _) \<Rightarrow> Fault
              | (_, s) \<Rightarrow> Ok (c, close_fd (wk_fd w) (put_sock (wk_fd w) s e2)))
         | Some fd \<Rightarrow>
             (case index_of rl_closed (cl_relays c) of
                None \<Rightarrow> Ok (c, close_fd (wk_fd w) (close_fd fd e2))
              | Some i \<Rightarrow>
                  (case ready True e2 of
                     (Fault, _) \<Rightarrow> Fault
                   | (Err, s) \<Rightarrow> Ok (c, close_fd (wk_fd w) (close_fd fd (put_sock (wk_fd w) s e2)))
                   | (Ok u, s) \<Rightarrow>
                       let e3 = put_sock (wk_fd w) s e2 in
                       andthen (ct_relay_init B k (co_ntop os) (co_ring os 0) (co_ring os 1) (co_ring os 2) fd (wk_fd w) True (ss_mode st)
                         (cc_cipher (cl_ctl c)) (if k_data_encryption k then data_master (cc_keys (cl_ctl c)) else []) (ss_sid st) (ss_random st)
                         (wk_id w) service (Some (ss_metadata st)) (relay_view e3 fd (wk_fd w))) (\<lambda>(started, r, re).
                       let c1 = c\<lparr>cl_relays := (cl_relays c)[i := r]\<rparr>; e4 = relay_back e3 fd (wk_fd w) re in
                       Ok (c1, if started then e4 else close_fd (wk_fd w) (close_fd fd e4))))))"

section \<open>Events\<close>

text \<open>The result is \<open>False\<close> where the source leaves the loop.\<close>

definition client_control_event :: "monocypher \<Rightarrow> autoconf \<Rightarrow> client_os \<Rightarrow> ct_config \<Rightarrow> client \<Rightarrow> server_env \<Rightarrow> (bool \<times> client \<times> server_env) res" where
  "client_control_event B k os cfg c e =
     (case ct_frame_available k (co_peek os (cl_fd c)) (co_queued os (cl_fd c)) (k_control_buffer k + 16) CT_FLAG_ENCRYPTED of
        Avail_error \<Rightarrow> Ok (False, c, e)
      | Avail_wait \<Rightarrow> Ok (True, c\<lparr>cl_ctl := (cl_ctl c)\<lparr>cc_read_retry_after_ms := co_now os + 50\<rparr>\<rparr>, e)
      | Avail_ready _ \<Rightarrow>
          (case ct_control_recv B k (co_alloc os) (co_now os) ((cl_ctl c)\<lparr>cc_read_retry_after_ms := 0\<rparr>) (we_socks e (cl_fd c)) (k_control_buffer k) 5000 of
             (r, ctl, s) \<Rightarrow>
               let c1 = c\<lparr>cl_ctl := ctl\<rparr>; e1 = put_sock (cl_fd c) s e in
               (case r of
                  Fault \<Rightarrow> Fault
                | Err \<Rightarrow> Ok (False, c1, e1)
                | Ok (h, b) \<Rightarrow>
                    if fh_type h = CT_MSG_PING then Ok (client_send B k os c1 e1 CT_MSG_PONG b 5000)
                    else if fh_type h = CT_MSG_PONG then Ok (True, c1, e1)
                    else if fh_type h = CT_MSG_REQUEST_WORK_CONNECTION
                    then andthen (add_work B k os cfg c1 e1) (\<lambda>(_, c2, e2). Ok (True, c2, e2))
                    else if k_udp k \<and> fh_type h = CT_MSG_UDP_DATAGRAM
                    then andthen (client_udp_from_server k os cfg (cl_udp c1) b (co_now os) e1) (\<lambda>(ok, us, e2). Ok (ok, c1\<lparr>cl_udp := us\<rparr>, e2))
                    else Ok (False, c1, e1))))"

definition client_work_event :: "monocypher \<Rightarrow> autoconf \<Rightarrow> client_os \<Rightarrow> ct_config \<Rightarrow> int \<Rightarrow> client \<Rightarrow> server_env \<Rightarrow> (client \<times> server_env) res" where
  "client_work_event B k os cfg fd c e =
     (case find_work (cl_work c) fd of
        None \<Rightarrow> Ok (c, e)
      | Some i \<Rightarrow>
          let w = iw_connection (cl_work c ! i);
              c1 = c\<lparr>cl_work := swap_remove (cl_work c) i\<rparr>;
              e1 = tally (ct_metric_dec CT_METRIC_WORK_IDLE) e
          in (case ct_plain_frame_available k (co_peek os fd) (co_queued os fd) (k_control_buffer k) of
                Avail_error \<Rightarrow> Ok (c1, close_fd (wk_fd w) e1)
              | Avail_wait \<Rightarrow> Ok (c\<lparr>cl_work := (cl_work c)[i := (cl_work c ! i)\<lparr>iw_read_retry := co_now os + 50\<rparr>]\<rparr>, e)
              | Avail_ready _ \<Rightarrow>
                  (case ct_start_stream_recv B k w (cl_ctl c) (k_max_service_id k + 1) (co_garbage os) (we_socks e1 (wk_fd w)) of
                     (Fault, _) \<Rightarrow> Fault
                   | (Err, s) \<Rightarrow> Ok (c1, close_fd (wk_fd w) (put_sock (wk_fd w) s e1))
                   | (Ok st, s) \<Rightarrow>
                       andthen (begin_stream B k os cfg w st c1 (put_sock (wk_fd w) s e1)) (\<lambda>(c2, e2).
                       if k_work_pool k then refill_pool B k os cfg c2 e2 else Ok (c2, e2)))))"

text \<open>
  A session is registered with the event loop while it is active and is closed only by the timers,
  which run after the events of a batch, so the session of the event is an active one.
\<close>

definition client_udp_event :: "monocypher \<Rightarrow> autoconf \<Rightarrow> client_os \<Rightarrow> ct_config \<Rightarrow> nat \<Rightarrow> client \<Rightarrow> server_env \<Rightarrow> (bool \<times> client \<times> server_env) res" where
  "client_udp_event B k os cfg i c e =
     (if \<not> i < length (cl_udp c) then Fault
      else andthen (client_udp_from_local B k os cfg (cl_udp c ! i) (cl_ctl c) (cl_fd c) (co_now os) e) (\<lambda>(ok, u, ctl, e1).
        Ok (ok, c\<lparr>cl_ctl := ctl, cl_udp := (cl_udp c)[i := u]\<rparr>, e1)))"

definition client_relay_event :: "monocypher \<Rightarrow> autoconf \<Rightarrow> nat \<Rightarrow> bool \<Rightarrow> bool \<Rightarrow> bool \<Rightarrow> client \<Rightarrow> server_env \<Rightarrow> (client \<times> server_env) res" where
  "client_relay_event B k j direct readable writable c e =
     (if \<not> j < length (cl_relays c) then Fault
      else
        let r = cl_relays c ! j; d = rl_direct r; w = rl_work r in
        andthen (ct_relay_process B k r (relay_view e d w) (if direct then d else w) readable writable) (\<lambda>(ok, r', re).
        Ok (c\<lparr>cl_relays := (cl_relays c)[j := r']\<rparr>, relay_back e d w re)))"

definition client_timers :: "monocypher \<Rightarrow> autoconf \<Rightarrow> client_os \<Rightarrow> ct_config \<Rightarrow> client \<Rightarrow> server_env \<Rightarrow> (bool \<times> client \<times> server_env) res" where
  "client_timers B k os cfg c e =
     (let now = co_now os in
      andthen (if k_udp k then client_udp_expire cfg now (cl_udp c) e else Ok (cl_udp c, e)) (\<lambda>(us, e1).
      let c1 = c\<lparr>cl_udp := us\<rparr> in
      if now - cc_last_rx_ms (cl_ctl c1) > of_int (cf_heartbeat_timeout cfg) * 1000 then Ok (False, c1, e1)
      else if now - cc_last_tx_ms (cl_ctl c1) > of_int (cf_heartbeat_interval cfg) * 1000
      then Ok (client_send B k os c1 e1 CT_MSG_PING (ct_put_u64 (cc_tx_seq (cl_ctl c1) + 1) @ ct_put_u64 now) 1000)
      else Ok (True, c1, e1)))"

text \<open>An operation that never ends the session.\<close>

definition goes_on :: "(client \<times> server_env) res \<Rightarrow> (bool \<times> client \<times> server_env) res" where
  "goes_on r = andthen r (\<lambda>(c, e). Ok (True, c, e))"

definition client_step :: "monocypher \<Rightarrow> autoconf \<Rightarrow> client_os \<Rightarrow> ct_config \<Rightarrow> client_event \<Rightarrow> client \<Rightarrow> server_env \<Rightarrow>
    (bool \<times> client \<times> server_env) res" where
  "client_step B k os cfg ev c e =
     (case ev of
        Cl_control \<Rightarrow> client_control_event B k os cfg c e
      | Cl_work fd \<Rightarrow> goes_on (client_work_event B k os cfg fd c e)
      | Cl_udp_local i \<Rightarrow> client_udp_event B k os cfg i c e
      | Cl_relay j direct readable writable \<Rightarrow> goes_on (client_relay_event B k j direct readable writable c e)
      | Cl_timers \<Rightarrow> client_timers B k os cfg c e)"

section \<open>A session\<close>

definition client_boot :: "autoconf \<Rightarrow> int \<Rightarrow> ct_control \<Rightarrow> client" where
  "client_boot k fd ctl =
     \<lparr>cl_fd = fd, cl_ctl = ctl, cl_work = [],
      cl_relays = replicate (k_max_streams k) ((zero_relay CT_INVALID_SOCKET 0 False)\<lparr>rl_closed := True\<rparr>),
      cl_udp = replicate (k_max_udp_sessions k) zero_client_session\<rparr>"

text \<open>
  Connecting, authenticating and registering: the client, or the value the session returns when it does
  not start, -1, or -2 with \<open>memory\<close> false. The descriptor is closed on each of these paths.
\<close>

definition client_start :: "monocypher \<Rightarrow> autoconf \<Rightarrow> client_os \<Rightarrow> ct_config \<Rightarrow> fs \<Rightarrow> bytes option \<Rightarrow> bytes option \<Rightarrow> bool \<Rightarrow> server_env \<Rightarrow>
    ((int + client) \<times> server_env) res" where
  "client_start B k os cfg fs secret nonce memory e =
     (let (f, closed) = ct_net_connect (co_connect os (cf_server_addr cfg) (cf_server_port cfg)); e1 = close_fds closed e in
      case f of
        None \<Rightarrow> Ok (Inl (-1), e1)
      | Some fd \<Rightarrow>
          (case ct_handshake_client B k (co_alloc os) fs cfg secret nonce (co_now os) (we_socks e1 fd) of
             (Fault, _) \<Rightarrow> Fault
           | (Err, s) \<Rightarrow> Ok (Inl (-1), close_fd fd (put_sock fd s e1))
           | (Ok ctl, s) \<Rightarrow>
               (case client_register B k os (cf_services cfg) ctl s of
                  (Fault, _) \<Rightarrow> Fault
                | (Err, _, s') \<Rightarrow> Ok (Inl (-1), close_fd fd (put_sock fd s' e1))
                | (Ok u, ctl', s') \<Rightarrow>
                    let e2 = put_sock fd s' e1 in
                    if \<not> memory then Ok (Inl (-2), close_fd fd e2)
                    else
                      let c = client_boot k fd ctl'
                      in andthen (if k_work_pool k then fill_pool (nat (cf_pool_count cfg)) B k os cfg c e2 else Ok (c, e2)) (\<lambda>(c', e3).
                         Ok (Inr c', e3)))))"

fun close_sessions :: "client_udp_session list \<Rightarrow> server_env \<Rightarrow> server_env" where
  "close_sessions [] e = e"
| "close_sessions (u # us) e = close_sessions us (snd (client_udp_close False u e))"

definition client_end :: "monocypher \<Rightarrow> autoconf \<Rightarrow> client_os \<Rightarrow> bool \<Rightarrow> client \<Rightarrow> server_env \<Rightarrow> server_env" where
  "client_end B k os stopping c e =
     (let e1 = (if stopping then snd (snd (client_send B k os c e CT_MSG_GOAWAY [] 100)) else e);
          e2 = close_fds (map (wk_fd \<circ> iw_connection) (cl_work c)) e1;
          e3 = tally ((ct_metric_dec CT_METRIC_WORK_IDLE) ^^ length (cl_work c)) e2;
          e4 = close_relays k (cl_relays c) e3;
          e5 = (if k_udp k then close_sessions (cl_udp c) e4 else e4)
      in close_fd (cl_fd c) e5)"

section \<open>Reconnection\<close>

text \<open>
  The delay in milliseconds, in C \<open>int\<close> arithmetic, \<open>None\<close> where it overflows: \<open>pct\<close> is the jitter in percent
  and \<open>r\<close> the random word. The jitter is at most 90, so the dividend is not negative.
\<close>

definition reconnect_delta :: "int \<Rightarrow> u32 \<Rightarrow> int" where
  "reconnect_delta pct r = uint r mod (2 * pct + 1) - pct"

definition int_fits :: "int \<Rightarrow> bool" where
  "int_fits i \<longleftrightarrow> - (2 ^ 31) \<le> i \<and> i < 2 ^ 31"

definition reconnect_ms :: "int \<Rightarrow> int \<Rightarrow> u32 \<Rightarrow> int option" where
  "reconnect_ms delay pct r =
     (let a = delay * 1000; b = a * (100 + reconnect_delta pct r) in
      if int_fits a \<and> int_fits b then Some (b div 100) else None)"

definition next_delay :: "ct_config \<Rightarrow> int \<Rightarrow> int" where
  "next_delay cfg delay =
     (if delay < cf_reconnect_max_delay cfg
      then if delay * 2 > cf_reconnect_max_delay cfg then cf_reconnect_max_delay cfg else delay * 2
      else delay)"

text \<open>The delay before the next attempt, given whether the session before had started.\<close>

definition delay_after :: "ct_config \<Rightarrow> bool \<Rightarrow> int \<Rightarrow> int" where
  "delay_after cfg had_started delay = (if had_started then cf_reconnect_initial_delay cfg else delay)"

fun reconnect_delays :: "ct_config \<Rightarrow> (bool \<times> u32) list \<Rightarrow> int \<Rightarrow> int option list" where
  "reconnect_delays cfg [] delay = []"
| "reconnect_delays cfg ((had_started, r) # rest) delay =
     (let d = delay_after cfg had_started delay
      in reconnect_ms d (cf_reconnect_jitter_percent cfg) r # reconnect_delays cfg rest (next_delay cfg d))"

end
