(* ===== verification/Client_Properties.thy ===== *)
theory Client_Properties
  imports Client
begin

text \<open>
  What holds of the client: the invariant of every reachable state of a session, the agreement of its
  registration with the server, what the end of a session closes, and the delays between sessions.
\<close>

section \<open>Sessions of datagrams\<close>

text \<open>Every active session belongs to a UDP service of the configuration, under a number of its own.\<close>

definition session_ok :: "ct_config \<Rightarrow> client_udp_session \<Rightarrow> bool" where
  "session_ok cfg u \<longleftrightarrow> cu_svc u < length (cf_services cfg) \<and> sv_type (cf_services cfg ! cu_svc u) = 2 \<and>
     endpoint_ok (cu_peer u) \<and> endpoint_ok (cu_local u)"

definition sessions_inv :: "ct_config \<Rightarrow> client_udp_session list \<Rightarrow> bool" where
  "sessions_inv cfg us \<longleftrightarrow> (\<forall>u\<in>set us. cu_active u \<longrightarrow> session_ok cfg u) \<and> distinct (map cu_id (filter cu_active us))"

lemma sessions_touch:
  assumes "sessions_inv cfg us" "i < length us" "cu_active (us ! i) = cu_active u" "cu_id u = cu_id (us ! i)"
    "cu_active u \<Longrightarrow> session_ok cfg u"
  shows "sessions_inv cfg (us[i := u])"
proof -
  have "map cu_id (filter cu_active (us[i := u])) = map cu_id (filter cu_active us)"
    using assms by (intro map_filter_update) simp_all
  then show ?thesis using assms set_update_subset_insert [of us i u] by (auto simp: sessions_inv_def)
qed

lemma sessions_add:
  assumes "sessions_inv cfg us" "i < length us" "\<not> cu_active (us ! i)" "cu_active u" "session_ok cfg u"
    "\<forall>v\<in>set us. cu_active v \<longrightarrow> cu_id v \<noteq> cu_id u"
  shows "sessions_inv cfg (us[i := u])"
proof -
  have m: "mset (filter cu_active (us[i := u])) = add_mset u (mset (filter cu_active us))"
    using assms by (intro filter_update_inactive) simp_all
  have "mset (map cu_id (filter cu_active (us[i := u]))) = mset (cu_id u # map cu_id (filter cu_active us))"
    by (simp only: mset_map m image_mset_add_mset mset.simps)
  moreover have "distinct (cu_id u # map cu_id (filter cu_active us))" using assms by (auto simp: sessions_inv_def)
  ultimately have "distinct (map cu_id (filter cu_active (us[i := u])))" by (metis mset_eq_imp_distinct_iff)
  then show ?thesis using assms set_update_subset_insert [of us i u] by (auto simp: sessions_inv_def)
qed

text \<open>What a handler of datagrams keeps: the table has the same size, and its invariant.\<close>

definition sessions_kept :: "ct_config \<Rightarrow> client_udp_session list \<Rightarrow> client_udp_session list \<Rightarrow> bool" where
  "sessions_kept cfg us us' \<longleftrightarrow> length us' = length us \<and> sessions_inv cfg us'"

lemma create_kept:
  assumes "sessions_inv cfg us" "endpoint_ok (dg_peer d)" "client_udp_find us (dg_session_id d) = None"
  shows "ifok (\<lambda>(slot, us', e'). sessions_kept cfg us us' \<and> (\<forall>i. slot = Some i \<longrightarrow> i < length us' \<and> cu_active (us' ! i)))
    (client_udp_create k os cfg us d now e)"
proof -
  have fresh: "\<forall>v\<in>set us. cu_active v \<longrightarrow> cu_id v \<noteq> dg_session_id d"
    using assms(3) by (auto simp: client_udp_find_def index_of_None)
  have added: "sessions_kept cfg us (us[i := \<lparr>cu_active = True, cu_id = dg_session_id d, cu_tx_seq = 0, cu_rx = (0, 0), cu_last_ms = now,
      cu_peer = dg_peer d, cu_local = loc, cu_svc = j, cu_fd = fd\<rparr>])"
    if "client_svc cfg (cstr (dg_service d)) = Some j" "\<not> sv_type (cf_services cfg ! j) \<noteq> 2"
      "ct_udp_endpoint_from_host k answers = Ok loc" "index_of (\<lambda>u. \<not> cu_active u) us = Some i" for j answers loc i fd
  proof -
    have "endpoint_ok loc" using that(3) by (auto simp: ct_udp_endpoint_from_host_def dest: from_sockaddr_ok split: option.splits list.splits)
    moreover have "j < length (cf_services cfg)" using index_of_Some that(1) unfolding client_svc_def by blast
    ultimately have "session_ok cfg \<lparr>cu_active = True, cu_id = dg_session_id d, cu_tx_seq = 0, cu_rx = (0, 0), cu_last_ms = now,
        cu_peer = dg_peer d, cu_local = loc, cu_svc = j, cu_fd = fd\<rparr>" using that(2) assms(2) by (simp add: session_ok_def)
    then show ?thesis using index_of_Some [OF that(4)] assms(1) fresh
      by (auto simp: sessions_kept_def intro!: sessions_add)
  qed
  have "sessions_kept cfg us us" using assms(1) by (simp add: sessions_kept_def)
  then show ?thesis unfolding client_udp_create_def Let_def
    by (intro ifok_intros) (auto intro: added dest: index_of_Some)
qed

lemma from_server_kept:
  assumes "sessions_inv cfg us"
  shows "ifok (\<lambda>(ok, us', e'). sessions_kept cfg us us') (client_udp_from_server k os cfg us b now e)"
proof -
  have same: "sessions_kept cfg us us" using assms by (simp add: sessions_kept_def)
  have ep: "endpoint_ok (dg_peer d)" if "ct_udp_datagram_unpack k b n = Ok d" for d n
    using that by (auto simp: ct_udp_datagram_unpack_def res_simps dest: endpoint_decode_ok split: if_splits)
  have slot: "ifok (\<lambda>(slot, us', e'). sessions_kept cfg us us' \<and> (\<forall>i. slot = Some i \<longrightarrow> i < length us' \<and> cu_active (us' ! i)))
      (case client_udp_find us (dg_session_id d) of Some i \<Rightarrow> Ok (Some i, us, e) | None \<Rightarrow> client_udp_create k os cfg us d now e)"
    if "endpoint_ok (dg_peer d)" for d
    by (intro ifok_rules create_kept [OF assms that]) (auto simp: same client_udp_find_def dest: index_of_Some)
  have touch: "sessions_kept cfg us (vs[i := (vs ! i)\<lparr>cu_rx := w, cu_last_ms := t\<rparr>])"
    if "sessions_kept cfg us vs" "i < length vs" "cu_active (vs ! i)" for vs i w t
    using that sessions_touch [of cfg vs i "(vs ! i)\<lparr>cu_rx := w, cu_last_ms := t\<rparr>"]
    by (auto simp: sessions_kept_def sessions_inv_def session_ok_def)
  have found: "sessions_kept cfg us vs \<and> (\<forall>i. slot = Some i \<longrightarrow> i < length vs \<and> cu_active (vs ! i))"
    if "(case client_udp_find us (dg_session_id d) of Some i \<Rightarrow> Ok (Some i, us, e) | None \<Rightarrow> client_udp_create k os cfg us d now e) = Ok (slot, vs, e1)"
      "ct_udp_datagram_unpack k b (length b) = Ok d" for d slot vs e1
    using ifokD [OF slot [OF ep [OF that(2)]] that(1)] by simp
  show ?thesis unfolding client_udp_from_server_def Let_def
    by (intro ifok_rules) (auto simp: same dest!: found intro!: touch)
qed

lemma client_close_kept:
  assumes "sessions_inv cfg us" "\<And>u. u \<in> set us' \<Longrightarrow> cu_active u \<Longrightarrow> u \<in> set us" "subseq (map cu_id (filter cu_active us')) (map cu_id (filter cu_active us))"
  shows "sessions_inv cfg us'"
  using assms unfolding sessions_inv_def by (metis subseq_conv_nths distinct_nthsI)

lemma client_expire_part:
  "client_udp_expire cfg now us e = Ok (us', e') \<Longrightarrow> length us' = length us \<and> (\<forall>u\<in>set us'. cu_active u \<longrightarrow> u \<in> set us) \<and>
     subseq (map cu_id (filter cu_active us')) (map cu_id (filter cu_active us))"
proof (induction us arbitrary: e us' e')
  case (Cons u us)
  from Cons.prems obtain x e1 vs e2 where
    "client_udp_expire cfg now us e1 = Ok (vs, e2)" "us' = x # vs" "x = u \<or> \<not> cu_active x"
    by (auto simp: res_simps client_udp_close_def zero_client_session_def Let_def split: if_splits)
  with Cons.IH show ?case by fastforce
qed simp

lemma from_local_kept:
  assumes "client_udp_from_local B k os cfg u ctl fd now e = Ok (ok, u', ctl', e')"
  shows "u' = u \<or> (\<exists>t n. u' = u\<lparr>cu_last_ms := t, cu_tx_seq := n\<rparr>)"
proof -
  have "ifok (\<lambda>(ok, u', ctl', e'). u' = u \<or> (\<exists>t n. u' = u\<lparr>cu_last_ms := t, cu_tx_seq := n\<rparr>))
      (client_udp_from_local B k os cfg u ctl fd now e)"
    unfolding client_udp_from_local_def Let_def by (intro ifok_intros) auto
  from ifokD [OF this assms] show ?thesis by simp
qed

section \<open>The session\<close>

definition client_inv :: "autoconf \<Rightarrow> ct_config \<Rightarrow> int \<Rightarrow> client \<Rightarrow> bool" where
  "client_inv k cfg fd c \<longleftrightarrow> cl_fd c = fd \<and> length (cl_work c) \<le> k_max_streams k \<and> length (cl_relays c) = k_max_streams k \<and>
     length (cl_udp c) = k_max_udp_sessions k \<and> sessions_inv cfg (cl_udp c)"

lemma client_inv_ctl [simp]: "client_inv k cfg fd (c\<lparr>cl_ctl := ctl\<rparr>) = client_inv k cfg fd c"
  by (simp add: client_inv_def)

lemma client_inv_boot: "client_inv k cfg fd (client_boot k fd ctl)"
  by (simp add: client_inv_def client_boot_def sessions_inv_def zero_client_session_def)

lemma client_inv_udp: "client_inv k cfg fd c \<Longrightarrow> sessions_kept cfg (cl_udp c) us \<Longrightarrow> client_inv k cfg fd (c\<lparr>cl_udp := us\<rparr>)"
  by (simp add: client_inv_def sessions_kept_def)

lemma client_send_keeps:
  "client_inv k cfg fd c \<Longrightarrow> case client_send B k' os c e type p ms of (ok, c', e') \<Rightarrow> client_inv k cfg fd c'"
  by (auto simp: client_send_def split: prod.splits)

lemma add_work_keeps:
  assumes "client_inv k cfg fd c"
  shows "ifok (\<lambda>(ok, c', e'). client_inv k cfg fd c') (add_work B k os cfg c e)"
  unfolding add_work_def Let_def using assms by (intro ifok_rules) (auto simp: client_inv_def)

lemma fill_pool_keeps: "client_inv k cfg fd c \<Longrightarrow> ifok (\<lambda>(c', e'). client_inv k cfg fd c') (fill_pool n B k os cfg c e)"
proof (induction n arbitrary: c e)
  case (Suc n)
  show ?case unfolding fill_pool.simps by (rule ifok_andthen [OF add_work_keeps [OF Suc.prems]]) (auto intro!: ifok_rules Suc.IH)
qed (simp add: ifok_def)

lemma refill_pool_keeps: "client_inv k cfg fd c \<Longrightarrow> ifok (\<lambda>(c', e'). client_inv k cfg fd c') (refill_pool B k os cfg c e)"
proof (induction B k os cfg c e rule: refill_pool.induct)
  case (1 B k os cfg c e)
  show ?case
  proof (cases "length (cl_work c) < size_of_int (cf_pool_count cfg) \<and> length (cl_work c) < k_max_streams k")
    case True
    note keeps = ifokD [OF add_work_keeps [OF "1.prems", of B os e]]
    show ?thesis
    proof (cases "add_work B k os cfg c e")
      case (Ok r)
      obtain ok c' e' where r: "r = (ok, c', e')" by (metis prod_cases3)
      then have "client_inv k cfg fd c'" using keeps [OF Ok] by simp
      then show ?thesis using "1.IH" [OF True] Ok r True by (subst refill_pool.simps) (cases ok; simp add: ifok_rules)
    qed (use True in \<open>simp_all add: refill_pool.simps ifok_rules\<close>)
  qed (use "1.prems" in \<open>subst refill_pool.simps; auto intro: ifok_rules\<close>)
qed

lemma begin_stream_keeps:
  assumes "client_inv k cfg fd c"
  shows "ifok (\<lambda>(c', e'). client_inv k cfg fd c') (begin_stream B k os cfg w st c e)"
  unfolding begin_stream_def Let_def using assms by (intro ifok_rules) (auto simp: client_inv_def)

lemma client_work_keeps:
  assumes "client_inv k cfg fd c"
  shows "ifok (\<lambda>(c', e'). client_inv k cfg fd c') (client_work_event B k os cfg wfd c e)"
proof -
  have "client_inv k cfg fd (c\<lparr>cl_work := swap_remove (cl_work c) i\<rparr>)" "client_inv k cfg fd (c\<lparr>cl_work := (cl_work c)[i := w]\<rparr>)" for i w
    using assms by (auto simp: client_inv_def swap_remove_def)
  then show ?thesis unfolding client_work_event_def Let_def using assms
    by (intro ifok_rules ifok_cases ifok_andthen [OF begin_stream_keeps]) (auto intro!: ifok_rules refill_pool_keeps)
qed

lemma client_control_keeps:
  assumes "client_inv k cfg fd c"
  shows "ifok (\<lambda>(ok, c', e'). client_inv k cfg fd c') (client_control_event B k os cfg c e)"
proof -
  have u: "sessions_inv cfg (cl_udp c)" using assms by (simp add: client_inv_def)
  have udp: "client_inv k cfg fd (c\<lparr>cl_ctl := ctl, cl_udp := us\<rparr>)"
    if "client_udp_from_server k os cfg (cl_udp c) b now e1 = Ok (ok, us, e2)" for b now e1 ok us e2 ctl
    using ifokD [OF from_server_kept [OF u] that] assms by (simp add: client_inv_def sessions_kept_def)
  have work: "client_inv k cfg fd c2" if "add_work B k os cfg (c\<lparr>cl_ctl := ctl\<rparr>) e1 = Ok (ok, c2, e2)" for ctl e1 ok c2 e2
    using ifokD [OF add_work_keeps that] assms by simp
  show ?thesis unfolding client_control_event_def Let_def using assms
    by (intro ifok_rules ifok_cases client_send_keeps) (auto intro: udp work)
qed

lemma client_step_keeps:
  assumes "client_inv k cfg fd c"
  shows "ifok (\<lambda>(ok, c', e'). client_inv k cfg fd c') (client_step B k os cfg ev c e)"
proof -
  have on: "ifok (\<lambda>(ok, c', e'). client_inv k cfg fd c') (goes_on r)" if "ifok (\<lambda>(c', e'). client_inv k cfg fd c') r" for r
    unfolding goes_on_def by (rule ifok_andthen [OF that]) (auto intro!: ifok_rules)
  show ?thesis
  proof (cases ev)
    case (Cl_udp_local i)
    have "client_inv k cfg fd (c\<lparr>cl_ctl := ctl, cl_udp := (cl_udp c)[i := u]\<rparr>)"
      if "i < length (cl_udp c)" "client_udp_from_local B k os cfg (cl_udp c ! i) (cl_ctl c) (cl_fd c) (co_now os) e = Ok (ok, u, ctl, e1)"
      for ok u ctl e1
    proof -
      have "cu_active (cl_udp c ! i) \<longrightarrow> session_ok cfg (cl_udp c ! i)" using that(1) assms by (auto simp: client_inv_def sessions_inv_def)
      then have "sessions_inv cfg ((cl_udp c)[i := u])"
        using from_local_kept [OF that(2)] that(1) assms by (intro sessions_touch) (auto simp: client_inv_def session_ok_def)
      then show ?thesis using assms by (simp add: client_inv_def)
    qed
    then show ?thesis using Cl_udp_local unfolding client_step_def client_udp_event_def by (auto intro!: ifok_rules)
  next
    case (Cl_relay j direct readable writable)
    have "ifok (\<lambda>(c', e'). client_inv k cfg fd c') (client_relay_event B k j direct readable writable c e)"
      unfolding client_relay_event_def Let_def using assms by (intro ifok_rules) (auto simp: client_inv_def)
    then show ?thesis using Cl_relay on by (simp add: client_step_def)
  next
    case Cl_timers
    have "client_inv k cfg fd (c\<lparr>cl_udp := us\<rparr>)" if "client_udp_expire cfg now (cl_udp c) e = Ok (us, e1)" for now us e1
      using client_expire_part [OF that] assms client_close_kept [of cfg "cl_udp c" us] by (auto simp: client_inv_def)
    then show ?thesis using Cl_timers assms unfolding client_step_def client_timers_def Let_def
      by (auto intro!: ifok_rules client_send_keeps split: if_splits)
  qed (simp_all add: client_step_def on client_work_keeps client_control_keeps assms)
qed

section \<open>Reachable states\<close>

text \<open>Filling the pool, or one event or timer round, whatever the system and the server answer.\<close>

definition client_moves :: "monocypher \<Rightarrow> autoconf \<Rightarrow> ct_config \<Rightarrow> client \<Rightarrow> client \<Rightarrow> bool" where
  "client_moves B k cfg c c' \<longleftrightarrow> (\<exists>n os e e'. fill_pool n B k os cfg c e = Ok (c', e')) \<or>
     (\<exists>os ev e ok e'. client_step B k os cfg ev c e = Ok (ok, c', e'))"

interpretation clt: loop_invariant "client_boot k fd ctl" "client_moves B k cfg" "client_inv k cfg fd" for B k cfg fd ctl
proof
  fix c c'
  assume inv: "client_inv k cfg fd c" and "client_moves B k cfg c c'"
  then show "client_inv k cfg fd c'"
    unfolding client_moves_def using ifokD [OF fill_pool_keeps [OF inv]] ifokD [OF client_step_keeps [OF inv]] by fastforce
qed (rule client_inv_boot)

text \<open>
  C11: in every reachable state of a session the idle work connections, relays and datagram sessions fit
  their arrays, every active datagram session belongs to a UDP service of the client's own
  configuration, with well-formed addresses on both sides, and no two active sessions have the same
  number, whatever the server sends.
\<close>

theorem client_session_invariant:
  assumes "reach (client_boot k fd ctl) (client_moves B k cfg) c"
  shows "cl_fd c = fd \<and> length (cl_work c) \<le> k_max_streams k \<and> length (cl_relays c) = k_max_streams k \<and>
    length (cl_udp c) = k_max_udp_sessions k \<and> distinct (map cu_id (filter cu_active (cl_udp c))) \<and>
    (\<forall>u\<in>set (cl_udp c). cu_active u \<longrightarrow> cu_svc u < length (cf_services cfg) \<and> sv_type (cf_services cfg ! cu_svc u) = 2 \<and>
       endpoint_ok (cu_peer u) \<and> endpoint_ok (cu_local u))"
  using clt.inv_reach [OF assms] by (auto simp: client_inv_def sessions_inv_def session_ok_def)

theorem client_session_invariant_witness:
  "reach (client_boot default_defconfig 5 zero_control) (client_moves toy_backend default_defconfig demo_config) (client_boot default_defconfig 5 zero_control) \<and>
     length (cl_relays (client_boot default_defconfig 5 zero_control)) = 256"
  using client_session_invariant [OF reach_start [of "client_boot default_defconfig 5 zero_control"
      "client_moves toy_backend default_defconfig demo_config"]] reach_start
  by (auto simp: default_defconfig_def)

section \<open>Registration\<close>

text \<open>The request a service turns into, and what a control buffer must hold for it.\<close>

definition request_of :: "ct_service_config \<Rightarrow> register_request" where
  "request_of s = (let lim = (\<lambda>i. if sv_type s = 2 then of_int i else 0) in
     \<lparr>rr_service_id = sv_id s, rr_remote_addr = sv_remote_addr s, rr_remote_port = sv_remote_port s, rr_type = of_int (sv_type s),
      rr_mode = sv_encryption s, rr_proxy_protocol = of_int (sv_proxy_protocol s), rr_udp_idle_timeout = lim (sv_udp_idle_timeout s),
      rr_udp_reply_timeout = lim (sv_udp_reply_timeout s), rr_udp_max_sessions = lim (sv_udp_max_sessions s),
      rr_udp_max_datagram_size = lim (sv_udp_max_datagram_size s)\<rparr>)"

definition request_fits :: "autoconf \<Rightarrow> ct_service_config \<Rightarrow> bool" where
  "request_fits k s \<longleftrightarrow> length (sv_id s) + length (sv_remote_addr s) + 25 \<le> k_control_buffer k \<and>
     length (sv_id s) \<le> 65535 \<and> length (sv_remote_addr s) \<le> 65535"

lemma register_payload_bytes:
  assumes "service_ok k s" "request_fits k s" "sv_type s = 2 \<longrightarrow> k_udp k"
  shows "register_payload k s = Ok (register_bytes True (sv_type s = 2) (request_of s))"
  using assms
  by (auto simp: register_payload_def Let_def pack_string_eq emits_eq register_bytes_def request_of_def service_ok_def request_fits_def)

lemma limit_back:
  assumes "1 \<le> i" "i < 2 ^ 31"
  shows "(of_int i :: u32) \<noteq> 0 \<and> sint (of_int i :: u32) = i"
proof -
  have u: "uint (of_int i :: u32) = i" using assms by (simp add: uint_word_of_int_eq take_bit_int_eq_self)
  then have "(of_int i :: u32) \<noteq> 0" using assms(1) by (metis unsigned_0 not_one_le_zero)
  moreover have "sint (of_int i :: u32) = i" using assms by (simp add: signed_of_int signed_take_bit_int_eq_self)
  ultimately show ?thesis by simp
qed

text \<open>
  C12: client and server agree on what is registered. For every service of a loaded configuration the
  request is built within its buffer, the server decodes it, and the service the server then checks
  against its table of clients has the name, address, port, type, encryption and PROXY mode of the
  client's configuration, and for a UDP service its limits.
\<close>

theorem registration_agrees:
  assumes ok: "service_ok k s" and fits: "request_fits k s" and type: "sv_type s \<in> {1, 2}" and udp: "sv_type s = 2 \<longrightarrow> k_udp k"
    and nul: "nul_free (sv_id s)" "nul_free (sv_remote_addr s)" and k: "k_max_udp_sessions k < 2 ^ 31" "k_max_udp_datagram k < 2 ^ 31"
  shows "\<exists>b r. register_payload k s = Ok b \<and> ct_register_request_decode (k_max_service_id k + 1) (k_max_addr k + 1) b (length b) = Ok r \<and>
    (let t = requested_service k r in sv_id t = sv_id s \<and> sv_remote_addr t = sv_remote_addr s \<and> sv_remote_port t = sv_remote_port s \<and>
       sv_type t = sv_type s \<and> sv_encryption t = sv_encryption s \<and> sv_proxy_protocol t = sv_proxy_protocol s \<and>
       (sv_type s = 2 \<longrightarrow> sv_udp_idle_timeout t = sv_udp_idle_timeout s \<and> sv_udp_reply_timeout t = sv_udp_reply_timeout s \<and>
          sv_udp_max_sessions t = sv_udp_max_sessions s \<and> sv_udp_max_datagram_size t = sv_udp_max_datagram_size s))"
proof -
  let ?r = "request_of s" and ?b = "register_bytes True (sv_type s = 2) (request_of s)"
  have "register_fields_ok (k_max_service_id k + 1) (k_max_addr k + 1) True (sv_type s = 2) ?r"
    using ok fits by (auto simp: register_fields_ok_def string_ok_def request_of_def service_ok_def request_fits_def Let_def)
  from register_decode_bytes [OF this, of "[]"] have d: "ct_register_request_decode (k_max_service_id k + 1) (k_max_addr k + 1) ?b (length ?b) = Ok ?r"
    by simp
  have small: "uint (of_int (sv_type s) :: u8) = sv_type s" "uint (of_int (sv_proxy_protocol s) :: u8) = sv_proxy_protocol s"
    using ok by (auto simp: service_ok_def uint_word_of_int_eq take_bit_int_eq_self)
  have lim: "(of_int i :: u32) \<noteq> 0 \<and> sint (of_int i :: u32) = i"
    if "sv_type s = 2" "i \<in> {sv_udp_idle_timeout s, sv_udp_reply_timeout s, sv_udp_max_sessions s, sv_udp_max_datagram_size s}" for i
    using that k ok udp by (intro limit_back) (auto simp: service_ok_def)
  have "let t = requested_service k ?r in sv_id t = sv_id s \<and> sv_remote_addr t = sv_remote_addr s \<and> sv_remote_port t = sv_remote_port s \<and>
       sv_type t = sv_type s \<and> sv_encryption t = sv_encryption s \<and> sv_proxy_protocol t = sv_proxy_protocol s \<and>
       (sv_type s = 2 \<longrightarrow> sv_udp_idle_timeout t = sv_udp_idle_timeout s \<and> sv_udp_reply_timeout t = sv_udp_reply_timeout s \<and>
          sv_udp_max_sessions t = sv_udp_max_sessions s \<and> sv_udp_max_datagram_size t = sv_udp_max_datagram_size s)"
    using small nul udp lim by (cases "sv_type s = 2") (simp_all add: requested_service_def request_of_def Let_def)
  then show ?thesis using register_payload_bytes [OF ok fits udp] d by blast
qed

definition web_service :: ct_service_config where
  "web_service = \<lparr>sv_id = lit ''web'', sv_remote_addr = lit ''*'', sv_local_addr = lit ''127.0.0.1'', sv_remote_port = 8080, sv_local_port = 80,
     sv_encryption = CT_ENC_REQUIRED, sv_type = 1, sv_proxy_protocol = 0, sv_udp_idle_timeout = 60, sv_udp_reply_timeout = 5,
     sv_udp_max_sessions = 8, sv_udp_max_datagram_size = 1472, sv_udp_options_seen = 0\<rparr>"

theorem registration_agrees_witness:
  "\<exists>b r. register_payload default_defconfig web_service = Ok b \<and> ct_register_request_decode 65 129 b (length b) = Ok r \<and>
     sv_remote_port (requested_service default_defconfig r) = 8080"
proof -
  have "service_ok default_defconfig web_service" "request_fits default_defconfig web_service"
    by (simp_all add: service_ok_def request_fits_def web_service_def default_defconfig_def)
  from registration_agrees [OF this] show ?thesis
    by (force simp: web_service_def default_defconfig_def nul_free_def lit_def Let_def)
qed

section \<open>The end of a session\<close>

definition client_fds :: "autoconf \<Rightarrow> client \<Rightarrow> int list" where
  "client_fds k c = map (wk_fd \<circ> iw_connection) (cl_work c) @ concat (map relay_fds (cl_relays c)) @
     (if k_udp k then map cu_fd (filter cu_active (cl_udp c)) else []) @ [cl_fd c]"

lemma close_sessions_fds: "we_closed (close_sessions us e) = we_closed e @ map cu_fd (filter cu_active us)"
  by (induction us arbitrary: e) (auto simp: client_udp_close_def)

text \<open>
  The end of a session closes exactly what the session holds, each descriptor once: the idle work
  connections, both sides of every open relay, the sockets of the active datagram sessions and the
  control connection.
\<close>

theorem client_end_closes_all: "we_closed (client_end B k os stopping c e) = we_closed e @ client_fds k c"
proof -
  have "we_closed (snd (snd (client_send B k os c e t p ms))) = we_closed e" for t p ms
    by (auto simp: client_send_def split: prod.splits)
  then show ?thesis by (simp add: client_end_def client_fds_def Let_def close_relays_closed close_sessions_fds)
qed

section \<open>Reconnection\<close>

lemma delta_range: "0 \<le> pct \<Longrightarrow> - pct \<le> reconnect_delta pct r \<and> reconnect_delta pct r \<le> pct"
proof -
  assume "0 \<le> pct"
  then have "0 \<le> uint r mod (2 * pct + 1)" "uint r mod (2 * pct + 1) < 2 * pct + 1"
    using pos_mod_sign [of "2 * pct + 1" "uint r"] pos_mod_bound [of "2 * pct + 1" "uint r"] by simp_all
  then show ?thesis unfolding reconnect_delta_def by linarith
qed

lemma reconnect_ms_range:
  assumes "1 \<le> d" "d \<le> m" "m \<le> 11302" "0 \<le> pct" "pct \<le> 90"
  shows "\<exists>ms. reconnect_ms d pct r = Some ms \<and> 10 * d * (100 - pct) \<le> ms \<and> ms \<le> 10 * d * (100 + pct)"
proof -
  let ?x = "100 + reconnect_delta pct r"
  have x: "100 - pct \<le> ?x" "?x \<le> 100 + pct" using delta_range [OF assms(4), of r] by auto
  have "d * 1000 * ?x \<le> 11302 * 1000 * 190" using assms x by (intro mult_mono) auto
  moreover have "0 \<le> d * 1000 * ?x" using assms x by simp
  ultimately have "reconnect_ms d pct r = Some (d * 1000 * ?x div 100)"
    using assms by (simp add: reconnect_ms_def Let_def int_fits_def)
  moreover have "d * 1000 * ?x div 100 = 10 * d * ?x" by simp
  moreover have "10 * d * (100 - pct) \<le> 10 * d * ?x" "10 * d * ?x \<le> 10 * d * (100 + pct)" using assms x by (simp_all add: mult_left_mono)
  ultimately show ?thesis by simp
qed

lemma next_delay_range: "1 \<le> d \<Longrightarrow> d \<le> m \<Longrightarrow> cf_reconnect_max_delay cfg \<le> m \<Longrightarrow> d \<le> next_delay cfg d \<and> next_delay cfg d \<le> m"
  by (auto simp: next_delay_def)

text \<open>
  The pause before every attempt to reconnect is within the configured bounds. If both configured
  delays are at most 11302 seconds and the jitter at most 90 percent, then for every history of
  failures, of sessions that had started and of random words, the computation stays within \<open>int\<close> and the
  pause, in milliseconds, lies between the initial delay less the jitter and the larger delay plus
  the jitter; in particular it is never zero.
\<close>

theorem reconnect_delays_bounded:
  assumes "1 \<le> cf_reconnect_initial_delay cfg" "cf_reconnect_initial_delay cfg \<le> m" "cf_reconnect_max_delay cfg \<le> m" "m \<le> 11302"
    "0 \<le> cf_reconnect_jitter_percent cfg" "cf_reconnect_jitter_percent cfg \<le> 90" "x \<in> set (reconnect_delays cfg history (cf_reconnect_initial_delay cfg))"
  shows "\<exists>ms. x = Some ms \<and> 10 * cf_reconnect_initial_delay cfg * (100 - cf_reconnect_jitter_percent cfg) \<le> ms \<and>
    ms \<le> 10 * m * (100 + cf_reconnect_jitter_percent cfg) \<and> 0 < ms"
proof -
  let ?i = "cf_reconnect_initial_delay cfg" and ?pct = "cf_reconnect_jitter_percent cfg"
  have "\<exists>ms. x = Some ms \<and> 10 * ?i * (100 - ?pct) \<le> ms \<and> ms \<le> 10 * m * (100 + ?pct)"
    if "x \<in> set (reconnect_delays cfg history d)" "?i \<le> d" "d \<le> m" for d
    using that
  proof (induction history arbitrary: d)
    case (Cons h history)
    obtain started r where h: "h = (started, r)" by fastforce
    define d' where "d' = delay_after cfg started d"
    have d': "?i \<le> d'" "d' \<le> m" "1 \<le> d'" using Cons.prems(2,3) assms(1,2) by (auto simp: d'_def delay_after_def)
    from Cons.prems(1) h have "x = reconnect_ms d' ?pct r \<or> x \<in> set (reconnect_delays cfg history (next_delay cfg d'))"
      by (auto simp: Let_def d'_def)
    then show ?case
    proof
      assume "x = reconnect_ms d' ?pct r"
      then obtain ms where "x = Some ms" "10 * d' * (100 - ?pct) \<le> ms" "ms \<le> 10 * d' * (100 + ?pct)"
        using reconnect_ms_range [OF d'(3,2) assms(4-6)] by blast
      moreover have "10 * ?i * (100 - ?pct) \<le> 10 * d' * (100 - ?pct)" using d' assms(6) by (intro mult_right_mono) auto
      moreover have "10 * d' * (100 + ?pct) \<le> 10 * m * (100 + ?pct)" using d' assms(5) by (intro mult_right_mono) auto
      ultimately show ?thesis by force
    next
      assume "x \<in> set (reconnect_delays cfg history (next_delay cfg d'))"
      then show ?thesis using Cons.IH next_delay_range [OF d'(3,2) assms(3)] d'(1) by force
    qed
  qed simp
  from this [OF assms(7) _ assms(2)] obtain ms where ms: "x = Some ms" "10 * ?i * (100 - ?pct) \<le> ms" "ms \<le> 10 * m * (100 + ?pct)" by blast
  have "0 < 10 * ?i * (100 - ?pct)" using assms(1,6) by (intro mult_pos_pos) auto
  then show ?thesis using ms by force
qed

theorem reconnect_delays_bounded_witness:
  "reconnect_delays (demo_config\<lparr>cf_reconnect_jitter_percent := 0\<rparr>) [(False, 5), (False, 6), (True, 7)] 1 = [Some 1000, Some 2000, Some 1000] \<and>
   (\<exists>ms. reconnect_ms 2 0 6 = Some ms \<and> ms \<le> 60000)"
proof -
  let ?cfg = "demo_config\<lparr>cf_reconnect_jitter_percent := 0\<rparr>"
  have run: "reconnect_delays ?cfg [(False, 5), (False, 6), (True, 7)] 1 = [Some 1000, Some 2000, Some 1000]"
    by (simp add: demo_config_def reconnect_ms_def reconnect_delta_def int_fits_def next_delay_def delay_after_def Let_def)
  moreover have "reconnect_ms 2 0 6 = Some 2000" by (simp add: reconnect_ms_def reconnect_delta_def int_fits_def Let_def)
  moreover have "\<exists>ms. Some (2000 :: int) = Some ms \<and> 10 * cf_reconnect_initial_delay ?cfg * (100 - cf_reconnect_jitter_percent ?cfg) \<le> ms \<and>
    ms \<le> 10 * 60 * (100 + cf_reconnect_jitter_percent ?cfg) \<and> 0 < ms"
    by (rule reconnect_delays_bounded [of _ 60 _ "[(False, 5), (False, 6), (True, 7)]"]) (use run in \<open>simp_all add: demo_config_def\<close>)
  ultimately show ?thesis by (auto simp: demo_config_def)
qed

text \<open>Within the documented ranges (delays up to 86400 seconds) the computation does overflow.\<close>

lemma reconnect_overflow:
  "reconnect_ms 86400 pct r = None" if "0 \<le> pct" "pct \<le> 70"
proof -
  have "100 + reconnect_delta pct r \<ge> 30" using delta_range [OF that(1), of r] that(2) by linarith
  then have "86400000 * (100 + reconnect_delta pct r) \<ge> 86400000 * 30" by (intro mult_left_mono) simp_all
  then show ?thesis by (simp add: reconnect_ms_def Let_def int_fits_def)
qed

section \<open>Two defects\<close>

text \<open>
  The sender of a datagram on the socket of a session is not looked at: whoever reaches that socket can
  answer in the name of the local service.
\<close>

lemma client_udp_source_ignored:
  assumes "endpoint_from_sockaddr k sa = Ok ep" "endpoint_from_sockaddr k sa' = Ok ep'" "co_alloc os' = co_alloc os" "co_now os' = co_now os"
    "co_recvfrom os (cu_fd u) = (wb, Some (sa, d))" "co_recvfrom os' (cu_fd u) = (wb, Some (sa', d))"
  shows "client_udp_from_local B k os' cfg u ctl fd now e = client_udp_from_local B k os cfg u ctl fd now e"
  unfolding client_udp_from_local_def ct_udp_recv_def assms fst_conv snd_conv by (simp add: assms(1,2))

text \<open>A datagram of a service that is already registered ends the registration of the others.\<close>

lemma await_datagram_fails:
  assumes "ct_control_recv B k (co_alloc os) (co_now os) c s (k_control_buffer k) 5000 = (Ok (h, b), c1, s1)" "fh_type h = CT_MSG_UDP_DATAGRAM"
  shows "fst (await_registered B k os service c s) = Err"
  using assms by (subst await_registered.simps) (simp add: msg_defs)

end
