(* ===== verification/Event_Backends.thy ===== *)
theory Event_Backends
  imports Ctunnel_Prelude Tables
begin

text \<open>
  The three event back ends of \<open>src/src/platform\<close>: \<open>event_poll.c\<close>, \<open>event_epoll.c\<close> and \<open>event_kqueue.c\<close>,
  one contract for all of them, and what follows for a loop that registers its descriptors and waits.
  The kernel's interest lists are part of the state; whether a system call or an allocation succeeds
  and what is ready are inputs. Bit masks have their Linux values. A \<open>user\<close> pointer is a value of type
  \<open>'u\<close>.
\<close>

unbundle bit_operations_syntax

section \<open>Events\<close>

definition CT_EV_READ :: u32 where "CT_EV_READ = 1"
definition CT_EV_WRITE :: u32 where "CT_EV_WRITE = 2"
definition CT_EV_ERROR :: u32 where "CT_EV_ERROR = 4"
definition CT_EV_HANGUP :: u32 where "CT_EV_HANGUP = 8"

lemmas ev_defs = CT_EV_READ_def CT_EV_WRITE_def CT_EV_ERROR_def CT_EV_HANGUP_def

record 'u ct_event =
  ce_fd :: int
  ce_events :: u32
  ce_user :: 'u

text \<open>What a mask asks for: readability and writability.\<close>

definition wants :: "u32 \<Rightarrow> bool \<times> bool" where
  "wants ev = (ev AND CT_EV_READ \<noteq> 0, ev AND CT_EV_WRITE \<noteq> 0)"

text \<open>One bit of a mask translated to one bit of another.\<close>

definition bit_if :: "bool \<Rightarrow> 'a::len word \<Rightarrow> 'a word" where
  "bit_if b w = (if b then w else 0)"

section \<open>poll\<close>

text \<open>The arrays of descriptors and of user pointers; \<open>revents\<close> is only meaningful within a wait.\<close>

record pollfd =
  pf_fd :: int
  pf_events :: u16

record 'u poll_loop =
  pl_fds :: "pollfd list"
  pl_users :: "'u list"
  pl_cap :: nat

definition POLLIN :: u16 where "POLLIN = 1"
definition POLLOUT :: u16 where "POLLOUT = 4"
definition POLLERR :: u16 where "POLLERR = 8"
definition POLLHUP :: u16 where "POLLHUP = 16"

lemmas poll_bits = POLLIN_def POLLOUT_def POLLERR_def POLLHUP_def

definition poll_mask :: "u32 \<Rightarrow> u16" where
  "poll_mask ev = bit_if (ev AND CT_EV_READ \<noteq> 0) POLLIN OR bit_if (ev AND CT_EV_WRITE \<noteq> 0) POLLOUT"

definition poll_empty :: "nat \<Rightarrow> 'u poll_loop" where
  "poll_empty c = \<lparr>pl_fds = [], pl_users = [], pl_cap = c\<rparr>"

definition poll_create :: "bool \<Rightarrow> bool \<Rightarrow> bool \<Rightarrow> nat \<Rightarrow> 'u poll_loop option" where
  "poll_create loop_ok fds_ok users_ok c =
     (if loop_ok \<and> fds_ok \<and> users_ok then Some (poll_empty c) else None)"

definition poll_idx :: "'u poll_loop \<Rightarrow> int \<Rightarrow> nat option" where
  "poll_idx l fd = index_of (\<lambda>p. pf_fd p = fd) (pl_fds l)"

definition poll_add :: "'u poll_loop \<Rightarrow> int \<Rightarrow> u32 \<Rightarrow> 'u \<Rightarrow> bool \<times> 'u poll_loop" where
  "poll_add l fd ev u =
     (if length (pl_fds l) = pl_cap l \<or> poll_idx l fd \<noteq> None then (False, l)
      else (True, l\<lparr>pl_fds := pl_fds l @ [\<lparr>pf_fd = fd, pf_events = poll_mask ev\<rparr>], pl_users := pl_users l @ [u]\<rparr>))"

definition poll_modify :: "'u poll_loop \<Rightarrow> int \<Rightarrow> u32 \<Rightarrow> 'u \<Rightarrow> bool \<times> 'u poll_loop" where
  "poll_modify l fd ev u =
     (case poll_idx l fd of
        None \<Rightarrow> (False, l)
      | Some i \<Rightarrow> (True, l\<lparr>pl_fds := (pl_fds l)[i := (pl_fds l ! i)\<lparr>pf_events := poll_mask ev\<rparr>], pl_users := (pl_users l)[i := u]\<rparr>))"

definition poll_delete :: "'u poll_loop \<Rightarrow> int \<Rightarrow> bool \<times> 'u poll_loop" where
  "poll_delete l fd =
     (case poll_idx l fd of
        None \<Rightarrow> (False, l)
      | Some i \<Rightarrow> (True, l\<lparr>pl_fds := swap_remove (pl_fds l) i, pl_users := swap_remove (pl_users l) i\<rparr>))"

definition poll_events :: "u16 \<Rightarrow> u32" where
  "poll_events r =
     bit_if (r AND (POLLIN OR POLLHUP OR POLLERR) \<noteq> 0) 1 OR bit_if (r AND POLLOUT \<noteq> 0) CT_EV_WRITE OR
     bit_if (r AND POLLERR \<noteq> 0) CT_EV_ERROR OR bit_if (r AND POLLHUP \<noteq> 0) CT_EV_HANGUP"

fun poll_scan :: "nat \<Rightarrow> pollfd list \<Rightarrow> 'u list \<Rightarrow> u16 list \<Rightarrow> 'u ct_event list" where
  "poll_scan (Suc cap) (p # ps) (u # us) (r # rs) =
     (if r \<noteq> 0 then \<lparr>ce_fd = pf_fd p, ce_events = poll_events r, ce_user = u\<rparr> # poll_scan cap ps us rs
      else poll_scan (Suc cap) ps us rs)"
| "poll_scan cap ps us rs = []"

text \<open>\<open>n\<close> is the result of \<open>poll\<close> and \<open>revents\<close> what it stored.\<close>

definition poll_wait :: "nat \<Rightarrow> 'u poll_loop \<Rightarrow> int \<times> u16 list \<Rightarrow> 'u ct_event list res" where
  "poll_wait cap l answer =
     (case answer of (n, revents) \<Rightarrow>
        if n < 0 then Err
        else if n = 0 then Ok []
        else if length revents \<noteq> length (pl_fds l) \<or> length (pl_users l) \<noteq> length (pl_fds l) then Fault
        else Ok (poll_scan cap (pl_fds l) (pl_users l) revents))"

section \<open>epoll\<close>

text \<open>
  The kernel's interest list maps a descriptor to the flags and the pointer it was given; the pointer
  is an index into \<open>items\<close>.
\<close>

record 'u epoll_item =
  it_fd :: int
  it_user :: 'u
  it_flags :: u32

record 'u epoll_loop =
  ep_fd :: int
  ep_items :: "'u epoll_item list"
  ep_cap :: nat
  ep_interest :: "int \<rightharpoonup> u32 \<times> nat"

definition EPOLLIN :: u32 where "EPOLLIN = 1"
definition EPOLLOUT :: u32 where "EPOLLOUT = 4"
definition EPOLLERR :: u32 where "EPOLLERR = 8"
definition EPOLLHUP :: u32 where "EPOLLHUP = 16"
definition EPOLLRDHUP :: u32 where "EPOLLRDHUP = 0x2000"

lemmas epoll_bits = EPOLLIN_def EPOLLOUT_def EPOLLERR_def EPOLLHUP_def EPOLLRDHUP_def

definition epoll_empty :: "int \<Rightarrow> nat \<Rightarrow> 'u epoll_loop" where
  "epoll_empty ep c = \<lparr>ep_fd = ep, ep_items = [], ep_cap = c, ep_interest = Map.empty\<rparr>"

text \<open>The new loop, if any, and the descriptors closed on the way.\<close>

definition epoll_create :: "bool \<Rightarrow> int \<Rightarrow> bool \<Rightarrow> nat \<Rightarrow> 'u epoll_loop option \<times> int list" where
  "epoll_create loop_ok ep items_ok c =
     (if \<not> loop_ok then (None, [])
      else if ep < 0 \<or> \<not> items_ok then (None, if ep \<ge> 0 then [ep] else [])
      else (Some (epoll_empty ep c), []))"

definition epoll_find :: "'u epoll_loop \<Rightarrow> int \<Rightarrow> nat option" where
  "epoll_find l f = index_of (\<lambda>i. it_fd i = f) (ep_items l)"

definition epoll_flags :: "u32 \<Rightarrow> u32" where
  "epoll_flags e = bit_if (e AND CT_EV_READ \<noteq> 0) EPOLLIN OR bit_if (e AND CT_EV_WRITE \<noteq> 0) EPOLLOUT OR EPOLLRDHUP"

text \<open>
  \<open>EPOLL_CTL_ADD\<close> and \<open>EPOLL_CTL_MOD\<close> on the interest list: a modification needs an entry; \<open>ok\<close> is false
  when the kernel refuses.
\<close>

definition ctl_mod :: "bool \<Rightarrow> int \<Rightarrow> u32 \<times> nat \<Rightarrow> (int \<rightharpoonup> u32 \<times> nat) \<Rightarrow> bool \<times> (int \<rightharpoonup> u32 \<times> nat)" where
  "ctl_mod ok f ee m = (if ok \<and> m f \<noteq> None then (True, m(f \<mapsto> ee)) else (False, m))"

definition epoll_add :: "bool \<Rightarrow> 'u epoll_loop \<Rightarrow> int \<Rightarrow> u32 \<Rightarrow> 'u \<Rightarrow> bool \<times> 'u epoll_loop" where
  "epoll_add ok l f ev u =
     (if length (ep_items l) = ep_cap l \<or> epoll_find l f \<noteq> None \<or> \<not> ok then (False, l)
      else (True, l\<lparr>ep_items := ep_items l @ [\<lparr>it_fd = f, it_user = u, it_flags = epoll_flags ev\<rparr>],
        ep_interest := (ep_interest l)(f \<mapsto> (epoll_flags ev, length (ep_items l)))\<rparr>))"

definition epoll_modify :: "bool \<Rightarrow> 'u epoll_loop \<Rightarrow> int \<Rightarrow> u32 \<Rightarrow> 'u \<Rightarrow> bool \<times> 'u epoll_loop" where
  "epoll_modify ok l f ev u =
     (case epoll_find l f of
        None \<Rightarrow> (False, l)
      | Some n \<Rightarrow>
          let (done, m) = ctl_mod ok f (epoll_flags ev, n) (ep_interest l) in
          (done, l\<lparr>ep_items := (ep_items l)[n := (ep_items l ! n)\<lparr>it_user := u, it_flags := epoll_flags ev\<rparr>], ep_interest := m\<rparr>))"

definition epoll_delete :: "bool \<Rightarrow> 'u epoll_loop \<Rightarrow> int \<Rightarrow> bool \<times> 'u epoll_loop" where
  "epoll_delete ok l f =
     (case epoll_find l f of
        None \<Rightarrow> (False, l)
      | Some n \<Rightarrow>
          let items = swap_remove (ep_items l) n; m = (ep_interest l)(f := None);
              m' = (if n < length items then snd (ctl_mod ok (it_fd (items ! n)) (it_flags (items ! n), n) m) else m)
          in (True, l\<lparr>ep_items := items, ep_interest := m'\<rparr>))"

definition epoll_events :: "u32 \<Rightarrow> u32" where
  "epoll_events e =
     bit_if (e AND (EPOLLIN OR EPOLLRDHUP OR EPOLLHUP OR EPOLLERR) \<noteq> 0) CT_EV_READ OR
     bit_if (e AND EPOLLOUT \<noteq> 0) CT_EV_WRITE OR bit_if (e AND EPOLLERR \<noteq> 0) CT_EV_ERROR OR
     bit_if (e AND (EPOLLRDHUP OR EPOLLHUP) \<noteq> 0) CT_EV_HANGUP"

text \<open>
  The ready descriptors with their flags; each carries the pointer of the interest list, and a pointer
  outside the array faults. The call is repeated while it is interrupted, so \<open>ready\<close> is its last answer.
\<close>

fun epoll_scan :: "'u epoll_loop \<Rightarrow> (int \<times> u32) list \<Rightarrow> 'u ct_event list res" where
  "epoll_scan l [] = Ok []"
| "epoll_scan l ((f, e) # rest) =
     (case ep_interest l f of
        None \<Rightarrow> Fault
      | Some (_, i) \<Rightarrow>
          if i < length (ep_items l)
          then andthen (epoll_scan l rest) (\<lambda>evs.
            Ok (\<lparr>ce_fd = it_fd (ep_items l ! i), ce_events = epoll_events e, ce_user = it_user (ep_items l ! i)\<rparr> # evs))
          else Fault)"

definition epoll_wait :: "bool \<Rightarrow> 'u epoll_loop \<Rightarrow> (int \<times> u32) list option \<Rightarrow> 'u ct_event list res" where
  "epoll_wait alloc l answer =
     (if \<not> alloc then Err else case answer of None \<Rightarrow> Err | Some ready \<Rightarrow> epoll_scan l ready)"

section \<open>kqueue\<close>

text \<open>
  The filters installed in the kernel map a descriptor and a direction (\<open>True\<close> for writing) to the user
  pointer they were added with.
\<close>

record 'u registration =
  rg_fd :: int
  rg_events :: u32
  rg_user :: 'u

record 'u kqueue_loop =
  kq_queue :: int
  kq_registrations :: "'u registration list"
  kq_capacity :: nat
  kq_filters :: "int \<times> bool \<rightharpoonup> 'u"

definition kqueue_empty :: "int \<Rightarrow> nat \<Rightarrow> 'u kqueue_loop" where
  "kqueue_empty queue c = \<lparr>kq_queue = queue, kq_registrations = [], kq_capacity = c, kq_filters = Map.empty\<rparr>"

definition kqueue_create :: "bool \<Rightarrow> int \<Rightarrow> bool \<Rightarrow> nat \<Rightarrow> 'u kqueue_loop option \<times> int list" where
  "kqueue_create loop_ok queue regs_ok c =
     (if \<not> loop_ok then (None, [])
      else if queue < 0 \<or> \<not> regs_ok then (None, if queue \<ge> 0 then [queue] else [])
      else (Some (kqueue_empty queue c), []))"

definition find_registration :: "'u kqueue_loop \<Rightarrow> int \<Rightarrow> nat option" where
  "find_registration l fd = index_of (\<lambda>r. rg_fd r = fd) (kq_registrations l)"

text \<open>
  \<open>install\<close> is \<open>EV_ADD | EV_ENABLE\<close>, otherwise \<open>EV_DELETE\<close>, for which a missing filter is no error; \<open>ok\<close> is
  false when the kernel refuses.
\<close>

definition change_filter :: "bool \<Rightarrow> 'u kqueue_loop \<Rightarrow> int \<Rightarrow> bool \<Rightarrow> bool \<Rightarrow> 'u option \<Rightarrow> bool \<times> 'u kqueue_loop" where
  "change_filter ok l fd writing install user =
     (if install then (if ok then (True, l\<lparr>kq_filters := (kq_filters l)((fd, writing) := user)\<rparr>) else (False, l))
      else if kq_filters l (fd, writing) = None then (True, l)
      else if ok then (True, l\<lparr>kq_filters := (kq_filters l)((fd, writing) := None)\<rparr>) else (False, l))"

definition apply_events :: "(bool \<Rightarrow> bool) \<Rightarrow> 'u kqueue_loop \<Rightarrow> int \<Rightarrow> u32 \<Rightarrow> u32 \<Rightarrow> 'u option \<Rightarrow> bool \<times> 'u kqueue_loop" where
  "apply_events ok l fd old_events new_events user =
     (let (r, l1) = (if old_events AND CT_EV_READ \<noteq> new_events AND CT_EV_READ
            then change_filter (ok False) l fd False (new_events AND CT_EV_READ \<noteq> 0) user else (True, l))
      in if \<not> r then (False, l1)
         else if old_events AND CT_EV_WRITE \<noteq> new_events AND CT_EV_WRITE
         then change_filter (ok True) l1 fd True (new_events AND CT_EV_WRITE \<noteq> 0) user else (True, l1))"

definition kqueue_add :: "(bool \<Rightarrow> bool) \<Rightarrow> 'u kqueue_loop \<Rightarrow> int \<Rightarrow> u32 \<Rightarrow> 'u \<Rightarrow> bool \<times> 'u kqueue_loop" where
  "kqueue_add ok l fd ev u =
     (if length (kq_registrations l) = kq_capacity l \<or> find_registration l fd \<noteq> None then (False, l)
      else
        let (done, l1) = apply_events ok l fd 0 ev (Some u) in
        if done then (True, l1\<lparr>kq_registrations := kq_registrations l1 @ [\<lparr>rg_fd = fd, rg_events = ev, rg_user = u\<rparr>]\<rparr>)
        else (False, l1))"

definition kqueue_modify :: "(bool \<Rightarrow> bool) \<Rightarrow> 'u kqueue_loop \<Rightarrow> int \<Rightarrow> u32 \<Rightarrow> 'u \<Rightarrow> bool \<times> 'u kqueue_loop" where
  "kqueue_modify ok l fd ev u =
     (case find_registration l fd of
        None \<Rightarrow> (False, l)
      | Some i \<Rightarrow>
          let (done, l1) = apply_events ok l fd (rg_events (kq_registrations l ! i)) ev (Some u) in
          if done then (True, l1\<lparr>kq_registrations := (kq_registrations l1)[i := \<lparr>rg_fd = fd, rg_events = ev, rg_user = u\<rparr>]\<rparr>)
          else (False, l1))"

definition kqueue_delete :: "(bool \<Rightarrow> bool) \<Rightarrow> 'u kqueue_loop \<Rightarrow> int \<Rightarrow> bool \<times> 'u kqueue_loop" where
  "kqueue_delete ok l fd =
     (case find_registration l fd of
        None \<Rightarrow> (False, l)
      | Some i \<Rightarrow>
          let l1 = snd (apply_events ok l fd (rg_events (kq_registrations l ! i)) 0 None) in
          (True, l1\<lparr>kq_registrations := swap_remove (kq_registrations l1) i\<rparr>))"

text \<open>A ready filter, whether its end of file and error flags are set.\<close>

fun kqueue_scan :: "'u kqueue_loop \<Rightarrow> ((int \<times> bool) \<times> bool \<times> bool) list \<Rightarrow> 'u ct_event list res" where
  "kqueue_scan l [] = Ok []"
| "kqueue_scan l (((fd, writing), eof, err) # rest) =
     (case kq_filters l (fd, writing) of
        None \<Rightarrow> Fault
      | Some u \<Rightarrow>
          andthen (kqueue_scan l rest) (\<lambda>evs.
            Ok (\<lparr>ce_fd = fd,
                 ce_events = (if writing then CT_EV_WRITE else CT_EV_READ) OR bit_if eof (CT_EV_READ OR CT_EV_HANGUP) OR
                   bit_if err (CT_EV_READ OR CT_EV_ERROR),
                 ce_user = u\<rparr> # evs)))"

definition kqueue_wait :: "bool \<Rightarrow> 'u kqueue_loop \<Rightarrow> ((int \<times> bool) \<times> bool \<times> bool) list option \<Rightarrow> 'u ct_event list res" where
  "kqueue_wait alloc l answer =
     (if \<not> alloc then Err else case answer of None \<Rightarrow> Err | Some ready \<Rightarrow> kqueue_scan l ready)"

section \<open>The contract\<close>

text \<open>
  A back end is a table of interests: each registered descriptor has its mask and its user pointer.
  Adding fails exactly for a descriptor that is registered or when the table is full, and then changes
  nothing; what a wait reports belongs to registered descriptors and carries their user pointers.
  \<open>may_answer\<close> is what the kernel may answer in a state.
\<close>

type_synonym 'u interests = "int \<rightharpoonup> (bool \<times> bool) \<times> 'u"

locale event_backend =
  fixes valid :: "'s \<Rightarrow> bool" and interests :: "'s \<Rightarrow> 'u interests" and capacity :: "'s \<Rightarrow> nat"
    and fresh :: "nat \<Rightarrow> 's"
    and add :: "'s \<Rightarrow> int \<Rightarrow> u32 \<Rightarrow> 'u \<Rightarrow> bool \<times> 's"
    and delete :: "'s \<Rightarrow> int \<Rightarrow> bool \<times> 's"
    and may_answer :: "'s \<Rightarrow> 'a \<Rightarrow> bool"
    and wait :: "'s \<Rightarrow> 'a \<Rightarrow> 'u ct_event list res"
  assumes fresh_state: "valid (fresh c)" "interests (fresh c) = Map.empty" "capacity (fresh c) = c"
    and size: "valid s \<Longrightarrow> finite (dom (interests s))"
    and add_new: "valid s \<Longrightarrow> interests s fd = None \<Longrightarrow> card (dom (interests s)) < capacity s \<Longrightarrow>
      \<exists>s'. add s fd ev u = (True, s') \<and> valid s' \<and> interests s' = (interests s)(fd \<mapsto> (wants ev, u)) \<and> capacity s' = capacity s"
    and add_refused: "valid s \<Longrightarrow> interests s fd \<noteq> None \<or> card (dom (interests s)) \<ge> capacity s \<Longrightarrow> add s fd ev u = (False, s)"
    and delete_known: "valid s \<Longrightarrow> interests s fd \<noteq> None \<Longrightarrow>
      \<exists>s'. delete s fd = (True, s') \<and> valid s' \<and> interests s' = (interests s)(fd := None) \<and> capacity s' = capacity s"
    and delete_unknown: "valid s \<Longrightarrow> interests s fd = None \<Longrightarrow> delete s fd = (False, s)"
    and wait_reports: "valid s \<Longrightarrow> may_answer s a \<Longrightarrow>
      \<exists>evs. wait s a = Ok evs \<and> (\<forall>e\<in>set evs. \<exists>w. interests s (ce_fd e) = Some (w, ce_user e))"

text \<open>
  The event loops add their descriptors one after the other and ignore the results.
\<close>

fun register_all :: "('s \<Rightarrow> int \<Rightarrow> u32 \<Rightarrow> 'u \<Rightarrow> bool \<times> 's) \<Rightarrow> 's \<Rightarrow> (int \<times> u32 \<times> 'u) list \<Rightarrow> 's" where
  "register_all add s [] = s"
| "register_all add s ((fd, ev, u) # rest) = register_all add (snd (add s fd ev u)) rest"

definition requested :: "(int \<times> u32 \<times> 'u) list \<Rightarrow> 'u interests" where
  "requested regs = map_of (map (\<lambda>(fd, ev, u). (fd, (wants ev, u))) regs)"

context event_backend
begin

lemma register_interests:
  assumes "valid s" "card (dom (interests s)) + length regs \<le> capacity s"
  shows "valid (register_all add s regs) \<and> capacity (register_all add s regs) = capacity s \<and>
    interests (register_all add s regs) = requested regs ++ interests s"
  using assms
proof (induction regs arbitrary: s)
  case Nil
  then show ?case by (simp add: requested_def)
next
  case (Cons r regs)
  obtain fd ev u where r: "r = (fd, ev, u)" by (cases r)
  show ?case
  proof (cases "interests s fd")
    case None
    then obtain s' where s': "add s fd ev u = (True, s')" "valid s'" "interests s' = (interests s)(fd \<mapsto> (wants ev, u))"
      "capacity s' = capacity s" using add_new [OF Cons.prems(1) None, of ev u] Cons.prems(2) by auto
    have "card (dom (interests s')) = Suc (card (dom (interests s)))"
      using s'(3) None size [OF Cons.prems(1)] by (simp add: card_insert_if domIff)
    then have "card (dom (interests s')) + length regs \<le> capacity s'" using s'(4) Cons.prems(2) by simp
    note IH = Cons.IH [OF s'(2) this]
    moreover have "requested regs ++ interests s' = requested ((fd, ev, u) # regs) ++ interests s"
      unfolding s'(3) by (rule ext) (simp add: requested_def map_add_def None split: option.split)
    ultimately show ?thesis by (simp only: r register_all.simps s'(1,4) snd_conv)
  next
    case (Some x)
    then have same: "add s fd ev u = (False, s)" by (intro add_refused Cons.prems(1)) simp
    have "requested (r # regs) ++ interests s = requested regs ++ interests s"
      using Some by (intro ext) (auto simp: r requested_def map_add_def split: option.split)
    then show ?thesis using Cons.IH [of s] Cons.prems by (simp add: r same)
  qed
qed

lemma register_fresh:
  "length regs \<le> c \<Longrightarrow> valid (register_all add (fresh c) regs) \<and> interests (register_all add (fresh c) regs) = requested regs"
  using register_interests [of "fresh c" regs] by (simp add: fresh_state)

lemma reports_registered:
  assumes "length regs \<le> c" "may_answer (register_all add (fresh c) regs) a"
  shows "\<exists>evs. wait (register_all add (fresh c) regs) a = Ok evs \<and> (\<forall>e\<in>set evs. \<exists>ev. (ce_fd e, ev, ce_user e) \<in> set regs)"
proof -
  have v: "valid (register_all add (fresh c) regs)" "interests (register_all add (fresh c) regs) = requested regs"
    using register_fresh [OF assms(1)] by auto
  then obtain evs where "wait (register_all add (fresh c) regs) a = Ok evs"
    "\<forall>e\<in>set evs. \<exists>w. requested regs (ce_fd e) = Some (w, ce_user e)" using wait_reports assms(2) by metis
  moreover have "\<exists>ev. (fd, ev, u) \<in> set regs" if "requested regs fd = Some (w, u)" for fd w u
    using map_of_SomeD [OF that [unfolded requested_def]] by auto
  ultimately show ?thesis by metis
qed

end

text \<open>A back end whose entries can also be changed in place.\<close>

locale event_backend_modify = event_backend +
  fixes modify :: "'s \<Rightarrow> int \<Rightarrow> u32 \<Rightarrow> 'u \<Rightarrow> bool \<times> 's"
  assumes modify_known: "valid s \<Longrightarrow> interests s fd \<noteq> None \<Longrightarrow>
      \<exists>s'. modify s fd ev u = (True, s') \<and> valid s' \<and> interests s' = (interests s)(fd \<mapsto> (wants ev, u)) \<and> capacity s' = capacity s"
    and modify_unknown: "valid s \<Longrightarrow> interests s fd = None \<Longrightarrow> modify s fd ev u = (False, s)"
begin

text \<open>Changing an entry is the same as deleting and adding it.\<close>

lemma modify_is_replace:
  assumes "valid s" "interests s fd \<noteq> None" "card (dom (interests s)) \<le> capacity s"
  shows "interests (snd (modify s fd ev u)) = interests (snd (add (snd (delete s fd)) fd ev u))"
proof -
  obtain s1 where s1: "delete s fd = (True, s1)" "valid s1" "interests s1 = (interests s)(fd := None)" "capacity s1 = capacity s"
    using delete_known assms(1,2) by blast
  have "card (dom (interests s1)) < capacity s1"
    using s1(3,4) assms(3) card_Diff1_less [OF size [OF assms(1)], of fd] assms(2) by (simp add: domIff)
  then obtain s2 where "add s1 fd ev u = (True, s2)" "interests s2 = (interests s1)(fd \<mapsto> (wants ev, u))"
    using add_new [OF s1(2), of fd ev u] s1(3) by auto
  moreover obtain s3 where "modify s fd ev u = (True, s3)" "interests s3 = (interests s)(fd \<mapsto> (wants ev, u))"
    using modify_known assms(1,2) by blast
  ultimately show ?thesis using s1 by simp
qed

end

section \<open>poll keeps the contract\<close>

definition poll_rows :: "'u poll_loop \<Rightarrow> (pollfd \<times> 'u) list" where
  "poll_rows l = zip (pl_fds l) (pl_users l)"

definition poll_valid :: "'u poll_loop \<Rightarrow> bool" where
  "poll_valid l \<longleftrightarrow> length (pl_users l) = length (pl_fds l) \<and> distinct (map pf_fd (pl_fds l)) \<and> length (pl_fds l) \<le> pl_cap l"

definition poll_interest :: "pollfd \<times> 'u \<Rightarrow> (bool \<times> bool) \<times> 'u" where
  "poll_interest x = ((pf_events (fst x) AND POLLIN \<noteq> 0, pf_events (fst x) AND POLLOUT \<noteq> 0), snd x)"

definition poll_interests :: "'u poll_loop \<Rightarrow> 'u interests" where
  "poll_interests l = table (\<lambda>x. pf_fd (fst x)) poll_interest (poll_rows l)"

definition poll_may_answer :: "'u poll_loop \<Rightarrow> int \<times> u16 list \<Rightarrow> bool" where
  "poll_may_answer l a \<longleftrightarrow> fst a \<ge> 0 \<and> length (snd a) = length (pl_fds l)"

lemma poll_mask_wants: "pf_events p = poll_mask ev \<Longrightarrow> poll_interest (p, u) = (wants ev, u)"
  by (simp add: poll_interest_def poll_mask_def wants_def bit_if_def poll_bits)

lemma poll_rows_facts:
  assumes "poll_valid l"
  shows "distinct (map (\<lambda>x. pf_fd (fst x)) (poll_rows l))" "length (poll_rows l) = length (pl_fds l)"
    "poll_idx l fd = index_of (\<lambda>x. pf_fd (fst x) = fd) (poll_rows l)"
    "poll_idx l fd = None \<longleftrightarrow> poll_interests l fd = None"
    "card (dom (poll_interests l)) = length (pl_fds l)"
proof -
  have v: "length (pl_fds l) = length (pl_users l)" "distinct (map pf_fd (pl_fds l))" using assms by (auto simp: poll_valid_def)
  have "map (\<lambda>x. pf_fd (fst x)) (poll_rows l) = map pf_fd (pl_fds l)" using v(1) by (simp add: poll_rows_def flip: map_map [unfolded comp_def])
  then show d: "distinct (map (\<lambda>x. pf_fd (fst x)) (poll_rows l))" using v(2) by simp
  show n: "length (poll_rows l) = length (pl_fds l)" using v(1) by (simp add: poll_rows_def)
  show i: "poll_idx l fd = index_of (\<lambda>x. pf_fd (fst x) = fd) (poll_rows l)"
    using index_of_zip [OF v(1), of "\<lambda>p. pf_fd p = fd"] by (simp add: poll_idx_def poll_rows_def)
  then show "poll_idx l fd = None \<longleftrightarrow> poll_interests l fd = None" by (simp add: poll_interests_def table_None)
  show "card (dom (poll_interests l)) = length (pl_fds l)" unfolding poll_interests_def using table_card [OF d] n by metis
qed

lemma poll_interests_at:
  "poll_valid l \<Longrightarrow> i < length (pl_fds l) \<Longrightarrow>
     poll_interests l (pf_fd (pl_fds l ! i)) = Some (poll_interest (pl_fds l ! i, pl_users l ! i))"
  unfolding poll_interests_def table_Some_iff [OF poll_rows_facts(1)]
  by (auto simp: poll_rows_def poll_valid_def set_zip intro!: exI [of _ "pl_users l ! i"] exI [of _ i])

lemma poll_scan_reports:
  assumes "e \<in> set (poll_scan cap ps us rs)"
  shows "\<exists>i < length ps. i < length us \<and> ce_fd e = pf_fd (ps ! i) \<and> ce_user e = us ! i"
  using assms
proof (induction cap ps us rs rule: poll_scan.induct)
  case (1 cap p ps u us r rs)
  then consider "e = \<lparr>ce_fd = pf_fd p, ce_events = poll_events r, ce_user = u\<rparr>"
    | i where "i < length ps" "i < length us" "ce_fd e = pf_fd (ps ! i)" "ce_user e = us ! i" by (auto split: if_splits)
  then show ?case
  proof cases
    case 2
    then show ?thesis by (intro exI [of _ "Suc i"]) simp
  qed (auto intro!: exI [of _ 0])
qed auto

lemma poll_add_new:
  assumes "poll_valid l" "poll_interests l fd = None" "card (dom (poll_interests l)) < pl_cap l"
  shows "\<exists>l'. poll_add l fd ev u = (True, l') \<and> poll_valid l' \<and> poll_interests l' = (poll_interests l)(fd \<mapsto> (wants ev, u)) \<and> pl_cap l' = pl_cap l"
proof -
  let ?p = "\<lparr>pf_fd = fd, pf_events = poll_mask ev\<rparr>"
  let ?l = "l\<lparr>pl_fds := pl_fds l @ [?p], pl_users := pl_users l @ [u]\<rparr>"
  note f = poll_rows_facts [OF assms(1)]
  have rows: "poll_rows ?l = poll_rows l @ [(?p, u)]" using assms(1) by (simp add: poll_rows_def poll_valid_def)
  have "poll_interests ?l = (poll_interests l)(fd \<mapsto> (wants ev, u))"
    using table_append(2) [OF f(1), of poll_interest "(?p, u)"] assms(2) by (simp add: poll_interests_def rows poll_mask_wants)
  moreover have "poll_valid ?l"
    using assms f(4) [of fd] f(5) by (auto simp: poll_valid_def poll_idx_def index_of_None)
  ultimately show ?thesis using assms f(4) [of fd] f(5) by (intro exI [of _ ?l]) (simp add: poll_add_def)
qed

lemma poll_delete_known:
  assumes "poll_valid l" "poll_interests l fd \<noteq> None"
  shows "\<exists>l'. poll_delete l fd = (True, l') \<and> poll_valid l' \<and> poll_interests l' = (poll_interests l)(fd := None) \<and> pl_cap l' = pl_cap l"
proof -
  note f = poll_rows_facts [OF assms(1)]
  obtain i where i: "poll_idx l fd = Some i" using f(4) [of fd] assms(2) by auto
  then have at: "i < length (pl_fds l)" "pf_fd (pl_fds l ! i) = fd" by (auto simp: poll_idx_def dest: index_of_Some)
  let ?l = "l\<lparr>pl_fds := swap_remove (pl_fds l) i, pl_users := swap_remove (pl_users l) i\<rparr>"
  have rows: "poll_rows ?l = swap_remove (poll_rows l) i"
    using swap_remove_zip [of "pl_fds l" "pl_users l" i] at(1) assms(1) by (simp add: poll_rows_def poll_valid_def)
  have "fst (poll_rows l ! i) = pl_fds l ! i" using at(1) assms(1) by (simp add: poll_rows_def poll_valid_def)
  then have "poll_interests ?l = (poll_interests l)(fd := None)"
    using table_swap_remove(2) [OF f(1), of i] at f(2) by (simp add: poll_interests_def rows)
  moreover have "poll_valid ?l"
    using assms(1) table_swap_remove(1) [of pf_fd "pl_fds l" i] at(1) by (auto simp: poll_valid_def length_swap_remove)
  ultimately show ?thesis by (intro exI [of _ ?l]) (simp add: poll_delete_def i)
qed

lemma poll_modify_known:
  assumes "poll_valid l" "poll_interests l fd \<noteq> None"
  shows "\<exists>l'. poll_modify l fd ev u = (True, l') \<and> poll_valid l' \<and> poll_interests l' = (poll_interests l)(fd \<mapsto> (wants ev, u)) \<and> pl_cap l' = pl_cap l"
proof -
  note f = poll_rows_facts [OF assms(1)]
  obtain i where i: "poll_idx l fd = Some i" using f(4) [of fd] assms(2) by auto
  then have at: "i < length (pl_fds l)" "pf_fd (pl_fds l ! i) = fd" by (auto simp: poll_idx_def dest: index_of_Some)
  let ?p = "(pl_fds l ! i)\<lparr>pf_events := poll_mask ev\<rparr>"
  let ?l = "l\<lparr>pl_fds := (pl_fds l)[i := ?p], pl_users := (pl_users l)[i := u]\<rparr>"
  have "poll_rows ?l = (poll_rows l)[i := (?p, u)]" by (simp add: poll_rows_def zip_update)
  moreover have "fst (poll_rows l ! i) = pl_fds l ! i" using at(1) assms(1) by (simp add: poll_rows_def poll_valid_def)
  ultimately have "poll_interests ?l = (poll_interests l)(fd \<mapsto> (wants ev, u))"
    using table_update [OF f(1), of i "(?p, u)" poll_interest] at f(2) by (simp add: poll_interests_def poll_mask_wants)
  moreover have "poll_valid ?l"
    using assms(1) distinct_update [of i "pl_fds l" pf_fd ?p] at(1) by (simp add: poll_valid_def)
  ultimately show ?thesis by (intro exI [of _ ?l]) (simp add: poll_modify_def i)
qed

interpretation pl: event_backend_modify poll_valid poll_interests pl_cap poll_empty poll_add poll_delete poll_may_answer "poll_wait cap" poll_modify
  for cap
proof unfold_locales
  fix l :: "'a poll_loop" and fd ev u a c
  show "poll_valid (poll_empty c :: 'a poll_loop)" "poll_interests (poll_empty c :: 'a poll_loop) = Map.empty" "pl_cap (poll_empty c :: 'a poll_loop) = c"
    by (simp_all add: poll_empty_def poll_valid_def poll_interests_def poll_rows_def)
  assume v: "poll_valid l"
  note f = poll_rows_facts [OF v]
  show "finite (dom (poll_interests l))" by (simp add: poll_interests_def)
  show "poll_add l fd ev u = (False, l)" if "poll_interests l fd \<noteq> None \<or> card (dom (poll_interests l)) \<ge> pl_cap l"
    using that f(4,5) v by (auto simp: poll_add_def poll_valid_def)
  show "poll_delete l fd = (False, l)" "poll_modify l fd ev u = (False, l)" if "poll_interests l fd = None"
    using that f(4) [of fd] by (simp_all add: poll_delete_def poll_modify_def)
  show "\<exists>evs. poll_wait cap l a = Ok evs \<and> (\<forall>e\<in>set evs. \<exists>w. poll_interests l (ce_fd e) = Some (w, ce_user e))" if "poll_may_answer l a"
  proof -
    obtain n revents where a: "a = (n, revents)" by (cases a)
    have reg: "\<exists>w. poll_interests l (ce_fd e) = Some (w, ce_user e)" if "e \<in> set (poll_scan cap (pl_fds l) (pl_users l) revents)" for e
      using poll_scan_reports [OF that] poll_interests_at [OF v] by (auto simp: poll_interest_def)
    show ?thesis using that v reg by (cases "n = 0") (auto simp: a poll_wait_def poll_may_answer_def poll_valid_def)
  qed
qed (blast intro: poll_add_new poll_delete_known poll_modify_known)+

section \<open>epoll keeps the contract\<close>

text \<open>The pointer the kernel holds for a descriptor is the slot of that descriptor.\<close>

definition epoll_valid :: "'u epoll_loop \<Rightarrow> bool" where
  "epoll_valid l \<longleftrightarrow> distinct (map it_fd (ep_items l)) \<and> length (ep_items l) \<le> ep_cap l \<and> dom (ep_interest l) = it_fd ` set (ep_items l) \<and>
     (\<forall>i < length (ep_items l). ep_interest l (it_fd (ep_items l ! i)) = Some (it_flags (ep_items l ! i), i))"

definition epoll_wish :: "'u epoll_item \<Rightarrow> (bool \<times> bool) \<times> 'u" where
  "epoll_wish x = ((it_flags x AND EPOLLIN \<noteq> 0, it_flags x AND EPOLLOUT \<noteq> 0), it_user x)"

definition epoll_table :: "'u epoll_loop \<Rightarrow> 'u interests" where
  "epoll_table l = table it_fd epoll_wish (ep_items l)"

definition epoll_may_answer :: "'u epoll_loop \<Rightarrow> (int \<times> u32) list option \<Rightarrow> bool" where
  "epoll_may_answer l a \<longleftrightarrow> (case a of None \<Rightarrow> False | Some ready \<Rightarrow> fst ` set ready \<subseteq> dom (ep_interest l))"

lemma epoll_flags_wants: "it_flags x = epoll_flags ev \<Longrightarrow> epoll_wish x = (wants ev, it_user x)"
  by (simp add: epoll_wish_def epoll_flags_def wants_def bit_if_def epoll_bits)

lemma epoll_facts:
  assumes "epoll_valid l"
  shows "distinct (map it_fd (ep_items l))" "epoll_find l fd = None \<longleftrightarrow> epoll_table l fd = None"
    "card (dom (epoll_table l)) = length (ep_items l)"
    "epoll_find l fd = Some i \<Longrightarrow> i < length (ep_items l) \<and> it_fd (ep_items l ! i) = fd"
proof -
  show d: "distinct (map it_fd (ep_items l))" using assms by (simp add: epoll_valid_def)
  show "epoll_find l fd = None \<longleftrightarrow> epoll_table l fd = None" by (simp add: epoll_find_def epoll_table_def table_None)
  show "card (dom (epoll_table l)) = length (ep_items l)" unfolding epoll_table_def by (rule table_card [OF d])
  show "epoll_find l fd = Some i \<Longrightarrow> i < length (ep_items l) \<and> it_fd (ep_items l ! i) = fd"
    by (auto simp: epoll_find_def dest: index_of_Some)
qed

lemma epoll_add_new:
  assumes "epoll_valid l" "epoll_table l fd = None" "card (dom (epoll_table l)) < ep_cap l"
  shows "\<exists>l'. epoll_add True l fd ev u = (True, l') \<and> epoll_valid l' \<and> epoll_table l' = (epoll_table l)(fd \<mapsto> (wants ev, u)) \<and> ep_cap l' = ep_cap l"
proof -
  let ?x = "\<lparr>it_fd = fd, it_user = u, it_flags = epoll_flags ev\<rparr>"
  let ?l = "l\<lparr>ep_items := ep_items l @ [?x], ep_interest := (ep_interest l)(fd \<mapsto> (epoll_flags ev, length (ep_items l)))\<rparr>"
  note f = epoll_facts [OF assms(1)]
  have new: "fd \<notin> it_fd ` set (ep_items l)" using assms(2) f(2) [of fd] by (auto simp: epoll_find_def index_of_None)
  have "epoll_table ?l = (epoll_table l)(fd \<mapsto> (wants ev, u))"
    using table_append(2) [OF f(1), of epoll_wish ?x] assms(2) by (simp add: epoll_table_def epoll_flags_wants)
  moreover have "epoll_valid ?l"
    using assms f(3) new by (auto simp: epoll_valid_def nth_append less_Suc_eq)
  ultimately show ?thesis using assms f(2) [of fd] f(3) by (intro exI [of _ ?l]) (simp add: epoll_add_def)
qed

lemma epoll_modify_known:
  assumes "epoll_valid l" "epoll_table l fd \<noteq> None"
  shows "\<exists>l'. epoll_modify True l fd ev u = (True, l') \<and> epoll_valid l' \<and> epoll_table l' = (epoll_table l)(fd \<mapsto> (wants ev, u)) \<and> ep_cap l' = ep_cap l"
proof -
  note f = epoll_facts [OF assms(1)]
  obtain n where n: "epoll_find l fd = Some n" using f(2) [of fd] assms(2) by auto
  note at = f(4) [OF n]
  let ?x = "(ep_items l ! n)\<lparr>it_user := u, it_flags := epoll_flags ev\<rparr>"
  let ?l = "l\<lparr>ep_items := (ep_items l)[n := ?x], ep_interest := (ep_interest l)(fd \<mapsto> (epoll_flags ev, n))\<rparr>"
  have known: "ep_interest l fd \<noteq> None" using assms(1) at by (auto simp: epoll_valid_def)
  have fds: "map it_fd ((ep_items l)[n := ?x]) = map it_fd (ep_items l)" using at by (intro distinct_update) simp_all
  have "it_fd ` set ((ep_items l)[n := ?x]) = it_fd ` set (ep_items l)" using fds by (metis list.set_map)
  moreover have "it_fd (ep_items l ! i) \<noteq> fd" if "i < length (ep_items l)" "i \<noteq> n" for i
    using that at f(1) by (metis length_map nth_eq_iff_index_eq nth_map)
  ultimately have "epoll_valid ?l"
    using assms(1) at fds f(1) known by (auto simp: epoll_valid_def nth_list_update domIff)
  moreover have "epoll_table ?l = (epoll_table l)(fd \<mapsto> (wants ev, u))"
    using table_update [OF f(1), of n ?x epoll_wish] at by (simp add: epoll_table_def epoll_flags_wants)
  ultimately show ?thesis using n known by (intro exI [of _ ?l]) (simp add: epoll_modify_def ctl_mod_def)
qed

text \<open>
  Deletion moves the last item into the gap and tells the kernel about its new place, so no pointer
  of the kernel dangles.
\<close>

lemma epoll_delete_known:
  assumes "epoll_valid l" "epoll_table l fd \<noteq> None"
  shows "\<exists>l'. epoll_delete True l fd = (True, l') \<and> epoll_valid l' \<and> epoll_table l' = (epoll_table l)(fd := None) \<and> ep_cap l' = ep_cap l"
proof -
  note f = epoll_facts [OF assms(1)]
  obtain n where n: "epoll_find l fd = Some n" using f(2) [of fd] assms(2) by auto
  note at = f(4) [OF n]
  let ?xs = "ep_items l" and ?ys = "swap_remove (ep_items l) n"
  let ?m = "(ep_interest l)(fd := None)"
  let ?m' = "if n < length ?ys then snd (ctl_mod True (it_fd (?ys ! n)) (it_flags (?ys ! n), n) ?m) else ?m"
  let ?l = "l\<lparr>ep_items := ?ys, ep_interest := ?m'\<rparr>"
  have same: "j = i" if "i < length ?xs" "j < length ?xs" "it_fd (?xs ! i) = it_fd (?xs ! j)" for i j
    using that f(1) by (metis length_map nth_eq_iff_index_eq nth_map)
  have ys: "?ys ! j = (if j = n then ?xs ! (length ?xs - 1) else ?xs ! j)" if "j < length ?ys" for j
  proof -
    have "last ?xs = ?xs ! (length ?xs - 1)" using at by (intro last_conv_nth) auto
    then show ?thesis using nth_swap_remove [of n ?xs j] that at by (simp add: length_swap_remove)
  qed
  have m: "?m (it_fd (?xs ! i)) = Some (it_flags (?xs ! i), i)" if "i < length ?xs" "i \<noteq> n" for i
    using assms(1) that at same [of i n] by (auto simp: epoll_valid_def)
  have m': "?m' (it_fd (?ys ! j)) = Some (it_flags (?ys ! j), j)" if j: "j < length ?ys" for j
  proof (cases "j = n")
    case True
    have "length ?xs - 1 \<noteq> n" "length ?xs - 1 < length ?xs" using j True by (auto simp: length_swap_remove)
    then show ?thesis using j True m [of "length ?xs - 1"] ys [OF j] by (simp add: ctl_mod_def)
  next
    case False
    have jx: "j < length ?xs" "j \<noteq> length ?xs - 1" "length ?xs - 1 < length ?xs" using j by (auto simp: length_swap_remove)
    then have "it_fd (?ys ! n) \<noteq> it_fd (?xs ! j)" if "n < length ?ys" using ys [OF that] same [of "length ?xs - 1" j] by auto
    then show ?thesis using m [OF jx(1) False] ys [OF j] False by (auto simp: ctl_mod_def)
  qed
  have table: "epoll_table ?l = (epoll_table l)(fd := None)" and d: "distinct (map it_fd ?ys)"
    using table_swap_remove(1) [OF f(1), of n] table_swap_remove(2) [OF f(1), of n epoll_wish] at by (auto simp: epoll_table_def)
  have "it_fd ` set ?ys = it_fd ` set ?xs - {fd}"
    using table_swap_remove(2) [OF f(1), of n epoll_wish] at by (metis dom_fun_upd table_simps(3))
  moreover have "dom ?m' = dom ?m" by (auto simp: ctl_mod_def)
  ultimately have "epoll_valid ?l"
    using assms(1) d m' by (auto simp: epoll_valid_def length_swap_remove)
  with table show ?thesis by (intro exI [of _ ?l]) (simp add: epoll_delete_def n Let_def)
qed

lemma epoll_scan_reports:
  assumes "epoll_valid l" "fst ` set ready \<subseteq> dom (ep_interest l)"
  shows "\<exists>evs. epoll_scan l ready = Ok evs \<and> (\<forall>e\<in>set evs. \<exists>w. epoll_table l (ce_fd e) = Some (w, ce_user e))"
  using assms(2)
proof (induction ready)
  case (Cons r ready)
  obtain fd flags where r: "r = (fd, flags)" by (cases r)
  then obtain x where x: "x \<in> set (ep_items l)" "it_fd x = fd" using Cons.prems assms(1) by (auto simp: epoll_valid_def)
  then obtain i where i: "i < length (ep_items l)" "ep_items l ! i = x" by (meson in_set_conv_nth)
  then have "ep_interest l fd = Some (it_flags x, i)" using assms(1) x by (auto simp: epoll_valid_def)
  moreover have "epoll_table l fd = Some (epoll_wish x)"
    using x by (auto simp: epoll_table_def table_Some_iff [OF epoll_facts(1) [OF assms(1)]])
  ultimately show ?case using Cons i x by (auto simp: r epoll_wish_def)
qed simp

text \<open>
  The interests as the kernel holds them: the flags of the interest list say what is waited for, and the
  pointer kept with them, followed into \<open>items\<close>, gives the user pointer that a report will carry. In a valid
  loop they are those of the table.
\<close>

definition epoll_interests :: "'u epoll_loop \<Rightarrow> 'u interests" where
  "epoll_interests l fd =
     (case ep_interest l fd of
        None \<Rightarrow> None
      | Some (flags, i) \<Rightarrow>
          if i < length (ep_items l) then Some ((flags AND EPOLLIN \<noteq> 0, flags AND EPOLLOUT \<noteq> 0), it_user (ep_items l ! i)) else None)"

lemma epoll_kernel_table:
  assumes "epoll_valid l"
  shows "epoll_interests l = epoll_table l"
proof
  fix fd
  note f = epoll_facts [OF assms]
  show "epoll_interests l fd = epoll_table l fd"
  proof (cases "epoll_table l fd")
    case None
    then have "fd \<notin> it_fd ` set (ep_items l)" by (metis domIff epoll_table_def table_simps(3))
    then have "ep_interest l fd = None" using assms by (auto simp: epoll_valid_def)
    then show ?thesis using None by (simp add: epoll_interests_def)
  next
    case (Some v)
    then obtain x where x: "x \<in> set (ep_items l)" "it_fd x = fd" "v = epoll_wish x"
      by (auto simp: epoll_table_def table_Some_iff [OF f(1)])
    then obtain i where "i < length (ep_items l)" "ep_items l ! i = x" by (meson in_set_conv_nth)
    moreover from this have "ep_interest l fd = Some (it_flags x, i)" using assms x by (auto simp: epoll_valid_def)
    ultimately show ?thesis using Some x by (simp add: epoll_interests_def epoll_wish_def)
  qed
qed

interpretation ep: event_backend_modify epoll_valid epoll_interests ep_cap "epoll_empty q" "epoll_add True" "epoll_delete True" epoll_may_answer
  "epoll_wait True" "epoll_modify True" for q
proof unfold_locales
  fix l :: "'a epoll_loop" and fd ev u a c
  show "epoll_valid (epoll_empty q c :: 'a epoll_loop)" "epoll_interests (epoll_empty q c :: 'a epoll_loop) = Map.empty" "ep_cap (epoll_empty q c :: 'a epoll_loop) = c"
    by (simp_all add: epoll_empty_def epoll_valid_def epoll_interests_def fun_eq_iff)
  assume v: "epoll_valid l"
  note f = epoll_facts [OF v] and k [simp] = epoll_kernel_table [OF v]
  show "finite (dom (epoll_interests l))" by (simp add: epoll_table_def)
  show "epoll_add True l fd ev u = (False, l)" if "epoll_interests l fd \<noteq> None \<or> card (dom (epoll_interests l)) \<ge> ep_cap l"
    using that f(2) [of fd] f(3) v by (auto simp: epoll_add_def epoll_valid_def)
  show "epoll_delete True l fd = (False, l)" "epoll_modify True l fd ev u = (False, l)" if "epoll_interests l fd = None"
    using that f(2) [of fd] by (simp_all add: epoll_delete_def epoll_modify_def)
  show "\<exists>evs. epoll_wait True l a = Ok evs \<and> (\<forall>e\<in>set evs. \<exists>w. epoll_interests l (ce_fd e) = Some (w, ce_user e))" if "epoll_may_answer l a"
    using that epoll_scan_reports [OF v] by (auto simp: epoll_may_answer_def epoll_wait_def split: option.splits)
qed (metis epoll_kernel_table epoll_add_new epoll_delete_known epoll_modify_known)+

section \<open>kqueue keeps the contract\<close>

definition kqueue_wish :: "'u registration \<Rightarrow> (bool \<times> bool) \<times> 'u" where
  "kqueue_wish r = (wants (rg_events r), rg_user r)"

definition kqueue_table :: "'u kqueue_loop \<Rightarrow> 'u interests" where
  "kqueue_table l = table rg_fd kqueue_wish (kq_registrations l)"

text \<open>The filters that a table of interests calls for.\<close>

definition filters_for :: "'u interests \<Rightarrow> int \<times> bool \<rightharpoonup> 'u" where
  "filters_for m x = (case m (fst x) of None \<Rightarrow> None | Some (w, u) \<Rightarrow> if (if snd x then snd w else fst w) then Some u else None)"

definition kqueue_valid :: "'u kqueue_loop \<Rightarrow> bool" where
  "kqueue_valid l \<longleftrightarrow> distinct (map rg_fd (kq_registrations l)) \<and> length (kq_registrations l) \<le> kq_capacity l \<and>
     kq_filters l = filters_for (kqueue_table l)"

definition kqueue_may_answer :: "'u kqueue_loop \<Rightarrow> ((int \<times> bool) \<times> bool \<times> bool) list option \<Rightarrow> bool" where
  "kqueue_may_answer l a \<longleftrightarrow> (case a of None \<Rightarrow> False | Some ready \<Rightarrow> fst ` set ready \<subseteq> dom (kq_filters l))"

abbreviation healthy :: "bool \<Rightarrow> bool" where
  "healthy \<equiv> \<lambda>_. True"

lemma filters_for_Some: "filters_for m (fd, writing) = Some u \<Longrightarrow> \<exists>w. m fd = Some (w, u)"
  by (cases "m fd") (auto simp: filters_for_def split: if_splits)

lemma kqueue_facts:
  assumes "kqueue_valid l"
  shows "distinct (map rg_fd (kq_registrations l))" "find_registration l fd = None \<longleftrightarrow> kqueue_table l fd = None"
    "card (dom (kqueue_table l)) = length (kq_registrations l)"
    "find_registration l fd = Some i \<Longrightarrow> i < length (kq_registrations l) \<and> rg_fd (kq_registrations l ! i) = fd \<and>
       kqueue_table l fd = Some (kqueue_wish (kq_registrations l ! i))"
proof -
  show d: "distinct (map rg_fd (kq_registrations l))" using assms by (simp add: kqueue_valid_def)
  show "find_registration l fd = None \<longleftrightarrow> kqueue_table l fd = None" by (simp add: find_registration_def kqueue_table_def table_None)
  show "card (dom (kqueue_table l)) = length (kq_registrations l)" unfolding kqueue_table_def by (rule table_card [OF d])
  assume "find_registration l fd = Some i"
  then have "i < length (kq_registrations l)" "rg_fd (kq_registrations l ! i) = fd" by (auto simp: find_registration_def dest: index_of_Some)
  then show "i < length (kq_registrations l) \<and> rg_fd (kq_registrations l ! i) = fd \<and>
       kqueue_table l fd = Some (kqueue_wish (kq_registrations l ! i))"
    by (auto simp: kqueue_table_def table_Some_iff [OF d])
qed

lemma kqueue_add_new:
  assumes "kqueue_valid l" "kqueue_table l fd = None" "card (dom (kqueue_table l)) < kq_capacity l"
  shows "\<exists>l'. kqueue_add healthy l fd ev u = (True, l') \<and> kqueue_valid l' \<and> kqueue_table l' = (kqueue_table l)(fd \<mapsto> (wants ev, u)) \<and>
    kq_capacity l' = kq_capacity l"
proof -
  note f = kqueue_facts [OF assms(1)]
  let ?r = "\<lparr>rg_fd = fd, rg_events = ev, rg_user = u\<rparr>"
  let ?m = "(kqueue_table l)(fd \<mapsto> (wants ev, u))"
  let ?l = "l\<lparr>kq_registrations := kq_registrations l @ [?r], kq_filters := filters_for ?m\<rparr>"
  have fl: "kq_filters l = filters_for (kqueue_table l)" using assms(1) by (simp add: kqueue_valid_def)
  have a: "apply_events healthy l fd 0 ev (Some u) = (True, l\<lparr>kq_filters := filters_for ?m\<rparr>)"
    using assms(2) by (auto simp: apply_events_def change_filter_def fl filters_for_def wants_def fun_eq_iff intro!: kqueue_loop.equality)
  have t: "table rg_fd kqueue_wish (kq_registrations l @ [?r]) = ?m" "distinct (map rg_fd (kq_registrations l @ [?r]))"
    using table_append [OF f(1), of kqueue_wish ?r] assms(2) by (simp_all add: kqueue_table_def kqueue_wish_def)
  have "kqueue_valid ?l" using t assms(3) f(3) by (simp add: kqueue_valid_def kqueue_table_def)
  then show ?thesis using assms f(2) [of fd] f(3) t(1)
    by (intro exI [of _ ?l]) (simp add: kqueue_add_def a kqueue_table_def)
qed

lemma kqueue_delete_known:
  assumes "kqueue_valid l" "kqueue_table l fd \<noteq> None"
  shows "\<exists>l'. kqueue_delete healthy l fd = (True, l') \<and> kqueue_valid l' \<and> kqueue_table l' = (kqueue_table l)(fd := None) \<and>
    kq_capacity l' = kq_capacity l"
proof -
  note f = kqueue_facts [OF assms(1)]
  obtain n where n: "find_registration l fd = Some n" using f(2) [of fd] assms(2) by auto
  note at = f(4) [OF n]
  let ?m = "(kqueue_table l)(fd := None)"
  let ?l = "l\<lparr>kq_registrations := swap_remove (kq_registrations l) n, kq_filters := filters_for ?m\<rparr>"
  have fl: "kq_filters l = filters_for (kqueue_table l)" using assms(1) by (simp add: kqueue_valid_def)
  have a: "snd (apply_events healthy l fd (rg_events (kq_registrations l ! n)) 0 None) = l\<lparr>kq_filters := filters_for ?m\<rparr>"
    using at by (auto simp: apply_events_def change_filter_def fl filters_for_def kqueue_wish_def wants_def fun_eq_iff split: option.splits
      intro!: kqueue_loop.equality)
  have t: "table rg_fd kqueue_wish (swap_remove (kq_registrations l) n) = ?m" "distinct (map rg_fd (swap_remove (kq_registrations l) n))"
    using table_swap_remove [OF f(1), of n] at by (simp_all add: kqueue_table_def)
  have "kqueue_valid ?l" using t assms(1) by (auto simp: kqueue_valid_def kqueue_table_def length_swap_remove)
  then show ?thesis using t(1) by (intro exI [of _ ?l]) (simp add: kqueue_delete_def n a kqueue_table_def)
qed

lemma kqueue_scan_reports:
  assumes "kqueue_valid l" "fst ` set ready \<subseteq> dom (kq_filters l)"
  shows "\<exists>evs. kqueue_scan l ready = Ok evs \<and> (\<forall>e\<in>set evs. \<exists>w. kqueue_table l (ce_fd e) = Some (w, ce_user e))"
  using assms(2)
proof (induction ready)
  case (Cons r ready)
  obtain fd writing eof err where r: "r = ((fd, writing), eof, err)" using prod.exhaust by metis
  then obtain u where u: "kq_filters l (fd, writing) = Some u" using Cons.prems by auto
  then obtain w where "kqueue_table l fd = Some (w, u)"
    using assms(1) filters_for_Some [of "kqueue_table l" fd writing u] unfolding kqueue_valid_def by metis
  moreover obtain evs where "kqueue_scan l ready = Ok evs" "\<forall>e\<in>set evs. \<exists>w. kqueue_table l (ce_fd e) = Some (w, ce_user e)"
    using Cons by auto
  ultimately show ?case by (simp add: r u)
qed simp

text \<open>
  The interests as the kernel holds them: a registered descriptor is waited for in the directions whose
  filter is installed. In a valid loop they are those of the table, and each filter carries the user pointer
  of the table.
\<close>

definition kqueue_interests :: "'u kqueue_loop \<Rightarrow> 'u interests" where
  "kqueue_interests l fd =
     (case find_registration l fd of
        None \<Rightarrow> None
      | Some i \<Rightarrow> Some ((kq_filters l (fd, False) \<noteq> None, kq_filters l (fd, True) \<noteq> None), rg_user (kq_registrations l ! i)))"

lemma kqueue_kernel_table:
  assumes "kqueue_valid l"
  shows "kqueue_interests l = kqueue_table l"
proof
  fix fd
  note f = kqueue_facts [OF assms]
  have fl: "kq_filters l = filters_for (kqueue_table l)" using assms by (simp add: kqueue_valid_def)
  show "kqueue_interests l fd = kqueue_table l fd"
  proof (cases "find_registration l fd")
    case None then show ?thesis using f(2) [of fd] by (simp add: kqueue_interests_def)
  next
    case (Some i)
    then show ?thesis using f(4) [OF Some] by (auto simp: kqueue_interests_def fl filters_for_def kqueue_wish_def wants_def)
  qed
qed

interpretation kq: event_backend kqueue_valid kqueue_interests kq_capacity "kqueue_empty q" "kqueue_add healthy" "kqueue_delete healthy"
  kqueue_may_answer "kqueue_wait True" for q
proof unfold_locales
  fix l :: "'a kqueue_loop" and fd ev u a c
  show "kqueue_valid (kqueue_empty q c :: 'a kqueue_loop)" "kqueue_interests (kqueue_empty q c :: 'a kqueue_loop) = Map.empty"
    "kq_capacity (kqueue_empty q c :: 'a kqueue_loop) = c"
    by (simp_all add: kqueue_empty_def kqueue_valid_def kqueue_interests_def kqueue_table_def find_registration_def filters_for_def fun_eq_iff)
  assume v: "kqueue_valid l"
  note f = kqueue_facts [OF v] and k [simp] = kqueue_kernel_table [OF v]
  show "finite (dom (kqueue_interests l))" by (simp add: kqueue_table_def)
  show "kqueue_add healthy l fd ev u = (False, l)" if "kqueue_interests l fd \<noteq> None \<or> card (dom (kqueue_interests l)) \<ge> kq_capacity l"
    using that f(2) [of fd] f(3) v by (auto simp: kqueue_add_def kqueue_valid_def)
  show "kqueue_delete healthy l fd = (False, l)" if "kqueue_interests l fd = None"
    using that f(2) [of fd] by (simp add: kqueue_delete_def)
  show "\<exists>evs. kqueue_wait True l a = Ok evs \<and> (\<forall>e\<in>set evs. \<exists>w. kqueue_interests l (ce_fd e) = Some (w, ce_user e))" if "kqueue_may_answer l a"
    using that kqueue_scan_reports [OF v] by (auto simp: kqueue_may_answer_def kqueue_wait_def split: option.splits)
qed (metis kqueue_kernel_table kqueue_add_new kqueue_delete_known)+

text \<open>
  Changing only the user pointer of a descriptor does not reach the kernel: \<open>apply_events\<close> touches a
  filter only when its direction is switched on or off. The next report still carries the old pointer.
\<close>

lemma and_exp_eq_if: "x AND 2 ^ n = (if bit x n then 2 ^ n else 0)" for x :: "'a::len word"
  by (rule bit_eqI) (auto simp: bit_simps)

lemma mask_one: "x AND CT_EV_READ = (if bit x 0 then CT_EV_READ else 0)" "x AND CT_EV_WRITE = (if bit x 1 then CT_EV_WRITE else 0)" for x :: u32
  using and_exp_eq_if [of x 0] and_exp_eq_if [of x 1] by (simp_all add: ev_defs)

lemma kqueue_modify_stale_user:
  assumes "kqueue_valid l" "kqueue_table l fd = Some ((True, w), u)" "u' \<noteq> u"
  shows "\<exists>l' e. kqueue_modify healthy l fd (if w then CT_EV_READ OR CT_EV_WRITE else CT_EV_READ) u' = (True, l') \<and>
    kqueue_table l' fd = Some ((True, w), u') \<and> kqueue_wait True l' (Some [((fd, False), False, False)]) = Ok [e] \<and> ce_user e = u"
proof -
  note f = kqueue_facts [OF assms(1)]
  let ?ev = "if w then CT_EV_READ OR CT_EV_WRITE else CT_EV_READ"
  obtain n where n: "find_registration l fd = Some n" using f(2) [of fd] assms(2) by auto
  note at = f(4) [OF n]
  let ?old = "rg_events (kq_registrations l ! n)" and ?r = "\<lparr>rg_fd = fd, rg_events = ?ev, rg_user = u'\<rparr>"
  have old: "?old AND CT_EV_READ \<noteq> 0" "?old AND CT_EV_WRITE \<noteq> 0 \<longleftrightarrow> w" using at assms(2) by (auto simp: kqueue_wish_def wants_def)
  have one: "x AND CT_EV_READ = (if x AND CT_EV_READ \<noteq> 0 then CT_EV_READ else 0)" "x AND CT_EV_WRITE = (if x AND CT_EV_WRITE \<noteq> 0 then CT_EV_WRITE else 0)" for x
    using mask_one [of x] by (auto split: if_splits)
  have "?old AND CT_EV_READ = ?ev AND CT_EV_READ" "?old AND CT_EV_WRITE = ?ev AND CT_EV_WRITE"
    using old one [of ?old] by (simp_all add: ev_defs)
  then have "apply_events healthy l fd ?old ?ev (Some u') = (True, l)" by (simp only: apply_events_def) simp
  then have m: "kqueue_modify healthy l fd ?ev u' = (True, l\<lparr>kq_registrations := (kq_registrations l)[n := ?r]\<rparr>)"
    by (simp add: kqueue_modify_def n)
  have "kqueue_wish ?r = ((True, w), u')" by (simp add: kqueue_wish_def wants_def ev_defs)
  then have "kqueue_table (l\<lparr>kq_registrations := (kq_registrations l)[n := ?r]\<rparr>) fd = Some ((True, w), u')"
    using table_update [OF f(1), of n ?r kqueue_wish] at by (simp add: kqueue_table_def)
  moreover have "kq_filters l (fd, False) = Some u" using assms(1,2) by (simp add: kqueue_valid_def filters_for_def)
  ultimately show ?thesis using m by (simp add: kqueue_wait_def)
qed

section \<open>The back ends agree\<close>

lemma kqueue_filters_requested:
  assumes "length regs \<le> c"
  shows "kq_filters (register_all (kqueue_add healthy) (kqueue_empty q c) regs) = filters_for (requested regs)"
  using kq.register_fresh [OF assms, of q] kqueue_kernel_table by (metis kqueue_valid_def)

text \<open>
  C23: the three back ends are interchangeable for the event loops. After the same registrations, as many
  as fit, what \<open>poll\<close> passes to the kernel and what \<open>epoll\<close> and \<open>kqueue\<close> have installed in it are the same
  interests: for each descriptor the mask and the user pointer it was first registered with; later
  registrations of the same descriptor change nothing. For \<open>epoll\<close> they are read from the kernel's interest
  list, following its pointer into the table of items; for \<open>kqueue\<close> from the installed filters, and these are
  exactly one for each direction asked for, each carrying the user pointer.
\<close>

theorem event_backends_agree:
  assumes "length regs \<le> c"
  shows "poll_interests (register_all poll_add (poll_empty c) regs) = requested regs \<and>
    epoll_interests (register_all (epoll_add True) (epoll_empty q c) regs) = requested regs \<and>
    kqueue_interests (register_all (kqueue_add healthy) (kqueue_empty q c) regs) = requested regs \<and>
    kq_filters (register_all (kqueue_add healthy) (kqueue_empty q c) regs) = filters_for (requested regs)"
  using pl.register_fresh [OF assms] ep.register_fresh [OF assms] kq.register_fresh [OF assms] kqueue_filters_requested [OF assms] by blast

theorem event_backends_agree_witness:
  "let regs = [(5, CT_EV_READ, True), (6, CT_EV_READ OR CT_EV_WRITE, False), (5, CT_EV_WRITE, False)] in
   poll_interests (register_all poll_add (poll_empty 3) regs) 5 = Some ((True, False), True) \<and>
   epoll_interests (register_all (epoll_add True) (epoll_empty 9 3) regs) 6 = Some ((True, True), False) \<and>
   kq_filters (register_all (kqueue_add healthy) (kqueue_empty 9 3) regs) (5, False) = Some True \<and>
   kq_filters (register_all (kqueue_add healthy) (kqueue_empty 9 3) regs) (5, True) = None"
  using event_backends_agree [of "[(5, CT_EV_READ, True), (6, CT_EV_READ OR CT_EV_WRITE, False), (5, CT_EV_WRITE, False)]" 3]
  by (simp add: requested_def wants_def ev_defs filters_for_def Let_def)

end
