(* ===== verification/Registrations.thy ===== *)
theory Registrations
  imports Server_Admission Client_Properties Event_Backends
begin

text \<open>
  How the two event loops and the event back ends fit together: the references that
  \<open>ct_run_server\<close> and \<open>client_session\<close> write into \<open>refs\<close> and register before each wait, the capacity of that
  array, and what a reported event leads to.
\<close>

unbundle bit_operations_syntax

definition ev_mask :: "bool \<times> bool \<Rightarrow> u32" where
  "ev_mask w = bit_if (fst w) CT_EV_READ OR bit_if (snd w) CT_EV_WRITE"

lemma wants_ev_mask [simp]: "wants (ev_mask w) = w"
  by (cases w) (simp add: wants_def ev_mask_def bit_if_def ev_defs)

section \<open>The server\<close>

datatype server_ref =
    REF_ACCEPT int
  | REF_INCOMING int
  | REF_CONTROL nat
  | REF_SERVICE nat nat
  | REF_UDP_SERVICE nat nat
  | REF_STARTING nat int
  | REF_RELAY_DIRECT nat nat
  | REF_RELAY_WORK nat nat

definition server_capacity :: "autoconf \<Rightarrow> nat" where
  "server_capacity k = 2 + k_max_clients k * 2 + k_max_clients k * (1 + 2 * k_max_services k + k_max_pending k + 2 * k_max_streams k)"

definition service_refs :: "autoconf \<Rightarrow> nat \<Rightarrow> nat \<Rightarrow> server_service \<Rightarrow> (int \<times> u32 \<times> server_ref) list" where
  "service_refs k i j s = map (\<lambda>fd. (fd, CT_EV_READ, REF_SERVICE i j)) (sr_listen s) @
     (if k_udp k then map (\<lambda>fd. (fd, CT_EV_READ, REF_UDP_SERVICE i j)) (sr_udp s) else [])"

definition relay_refs :: "autoconf \<Rightarrow> 'r \<Rightarrow> 'r \<Rightarrow> ct_relay \<Rightarrow> (int \<times> u32 \<times> 'r) list" where
  "relay_refs k direct work r =
     (if rl_closed r then []
      else [(rl_direct r, ev_mask (ct_relay_events k r (rl_direct r)), direct), (rl_work r, ev_mask (ct_relay_events k r (rl_work r)), work)])"

definition peer_refs :: "autoconf \<Rightarrow> u64 \<Rightarrow> nat \<Rightarrow> server_peer \<Rightarrow> (int \<times> u32 \<times> server_ref) list" where
  "peer_refs k now i p =
     (if \<not> pe_active p then []
      else (if now \<ge> cc_read_retry_after_ms (pe_ctl p) then [(pe_fd p, CT_EV_READ, REF_CONTROL i)] else []) @
        concat (map (\<lambda>j. service_refs k i j (pe_svc p ! j)) [0..<length (pe_svc p)]) @
        map (\<lambda>s. (wk_fd (st_work s), CT_EV_READ, REF_STARTING i (wk_fd (st_work s)))) (filter (\<lambda>s. \<not> now < st_read_retry s) (pe_starting p)) @
        concat (map (\<lambda>j. relay_refs k (REF_RELAY_DIRECT i j) (REF_RELAY_WORK i j) (pe_relays p ! j)) [0..<length (pe_relays p)]))"

text \<open>All references of one turn, in the order of the source; \<open>now\<close> is the clock during the turn.\<close>

definition server_refs :: "autoconf \<Rightarrow> u64 \<Rightarrow> server \<Rightarrow> (int \<times> u32 \<times> server_ref) list" where
  "server_refs k now srv =
     map (\<lambda>fd. (fd, CT_EV_READ, REF_ACCEPT fd)) (sx_control srv) @
     map (\<lambda>c. (in_fd c, CT_EV_READ, REF_INCOMING (in_fd c))) (filter (\<lambda>c. \<not> now < in_read_retry c) (sx_incoming srv)) @
     concat (map (\<lambda>i. peer_refs k now i (sx_peers srv ! i)) [0..<length (sx_peers srv)])"

text \<open>The event that a reported reference stands for.\<close>

fun server_event_of :: "server_ref \<Rightarrow> u32 \<Rightarrow> server_event" where
  "server_event_of (REF_ACCEPT fd) ev = Ev_accept fd"
| "server_event_of (REF_INCOMING fd) ev = Ev_incoming fd"
| "server_event_of (REF_CONTROL i) ev = Ev_control i"
| "server_event_of (REF_SERVICE i j) ev = Ev_service i j"
| "server_event_of (REF_UDP_SERVICE i j) ev = Ev_udp_service i j"
| "server_event_of (REF_STARTING i fd) ev = Ev_starting i fd"
| "server_event_of (REF_RELAY_DIRECT i j) ev = Ev_relay i j True (fst (wants ev)) (snd (wants ev))"
| "server_event_of (REF_RELAY_WORK i j) ev = Ev_relay i j False (fst (wants ev)) (snd (wants ev))"

lemma concat_map_le: "(\<And>x. x \<in> set xs \<Longrightarrow> length (f x) \<le> c) \<Longrightarrow> length (concat (map f xs)) \<le> length xs * c"
  by (induction xs) (auto simp: add_mono)

lemma relay_refs_two: "length (relay_refs k d w r) \<le> 2"
  by (simp add: relay_refs_def)

lemma peer_refs_fit:
  assumes "peer_inv k cfg p"
  shows "length (peer_refs k now i p) \<le> 1 + 2 * k_max_services k + k_max_pending k + 2 * k_max_streams k"
proof -
  have inv: "length (pe_svc p) \<le> k_max_services k" "length (pe_starting p) \<le> k_max_pending k" "length (pe_relays p) = k_max_streams k"
    and two: "\<forall>s\<in>set (pe_svc p). length (sr_listen s) + length (sr_udp s) \<le> 2" using assms by (auto simp: peer_inv_def sockets_fit_def)
  have "length (service_refs k i j (pe_svc p ! j)) \<le> 2" if "j < length (pe_svc p)" for j
    using two nth_mem [OF that] by (auto simp: service_refs_def)
  then have "length (concat (map (\<lambda>j. service_refs k i j (pe_svc p ! j)) [0..<length (pe_svc p)])) \<le> length [0..<length (pe_svc p)] * 2"
    by (intro concat_map_le) simp
  then have a: "length (concat (map (\<lambda>j. service_refs k i j (pe_svc p ! j)) [0..<length (pe_svc p)])) \<le> 2 * k_max_services k"
    using inv(1) by simp
  have "length (concat (map (\<lambda>j. relay_refs k (REF_RELAY_DIRECT i j) (REF_RELAY_WORK i j) (pe_relays p ! j)) [0..<length (pe_relays p)])) \<le>
    length [0..<length (pe_relays p)] * 2" by (intro concat_map_le relay_refs_two)
  moreover have "length (filter (\<lambda>s. \<not> now < st_read_retry s) (pe_starting p)) \<le> k_max_pending k"
    using inv(2) length_filter_le le_trans by blast
  ultimately show ?thesis using a inv(3) unfolding peer_refs_def by (simp del: length_concat)
qed

lemma server_refs_length:
  assumes "server_inv k cfg srv" "length (sx_control srv) \<le> 2"
  shows "length (server_refs k now srv) \<le> server_capacity k"
proof -
  have inv: "length (sx_incoming srv) \<le> k_max_clients k * 2" "length (sx_peers srv) = k_max_clients k" "\<forall>p\<in>set (sx_peers srv). peer_inv k cfg p"
    using assms(1) by (auto simp: server_inv_def incoming_inv_def)
  have "length (concat (map (\<lambda>i. peer_refs k now i (sx_peers srv ! i)) [0..<length (sx_peers srv)])) \<le>
    length [0..<length (sx_peers srv)] * (1 + 2 * k_max_services k + k_max_pending k + 2 * k_max_streams k)"
    using inv(3) by (intro concat_map_le peer_refs_fit [of _ cfg]) simp
  moreover have "length (filter (\<lambda>c. \<not> now < in_read_retry c) (sx_incoming srv)) \<le> k_max_clients k * 2"
    using inv(1) length_filter_le le_trans by blast
  ultimately show ?thesis using inv(2) assms(2) unfolding server_refs_def server_capacity_def by (simp del: length_concat)
qed

section \<open>The listeners stay\<close>

lemma drop_incoming_control: "drop_incoming i b srv e = (srv', e') \<Longrightarrow> sx_control srv' = sx_control srv"
  by (auto simp: drop_incoming_def split: prod.splits)

lemma auth_rejected_control: "auth_rejected i slot now srv e = (srv', e') \<Longrightarrow> sx_control srv' = sx_control srv"
  unfolding auth_rejected_def by (drule drop_incoming_control) simp

lemma server_step_control:
  "ifok (\<lambda>(srv', e'). sx_control srv' = sx_control srv) (server_step B k os cfg now ev srv e)"
proof -
  have on: "ifok (\<lambda>(srv', e'). sx_control srv' = sx_control srv) (on_peer i f srv e)" for i f
    unfolding on_peer_def Let_def by (intro ifok_intros) auto
  have incoming: "ifok (\<lambda>(srv', e'). sx_control srv' = sx_control srv) (server_incoming B k os cfg fd srv e)" for fd
    unfolding server_incoming_def incoming_hello_def incoming_work_def incoming_auth_def Let_def
    by (intro ifok_intros) (auto split: prod.splits dest!: drop_incoming_control auth_rejected_control)
  have accept: "ifok (\<lambda>(srv', e'). sx_control srv' = sx_control srv) (Ok (server_accept k os cfg now l srv e))" for l
    unfolding server_accept_def Let_def by (auto simp: ifok_def split: prod.splits option.splits if_splits)
  have timers: "ifok (\<lambda>(srv', e'). sx_control srv' = sx_control srv) (server_timers B k os cfg now srv e)"
    unfolding server_timers_def Let_def by (intro ifok_intros) auto
  show ?thesis by (cases ev) (simp_all add: server_step_def on incoming accept timers)
qed

interpretation lst: loop_invariant "server_boot k control" "server_moves B k cfg" "\<lambda>srv. sx_control srv = control" for B k cfg control
proof
  fix s t
  assume "sx_control s = control" "server_moves B k cfg s t"
  then show "sx_control t = control" using ifokD [OF server_step_control] by (fastforce simp: server_moves_def)
qed (simp add: server_boot_def)

section \<open>A turn of the server\<close>

fun server_batch :: "monocypher \<Rightarrow> autoconf \<Rightarrow> ct_config \<Rightarrow> u64 \<Rightarrow> (os \<times> server_event) list \<Rightarrow> server \<Rightarrow> server_env \<Rightarrow> (server \<times> server_env) res" where
  "server_batch B k cfg now [] srv e = Ok (srv, e)"
| "server_batch B k cfg now ((os, ev) # rest) srv e =
     andthen (server_step B k os cfg now ev srv e) (\<lambda>(srv', e'). server_batch B k cfg now rest srv' e')"

text \<open>
  One turn of \<open>while (!ct_runtime_should_stop())\<close> on Linux: \<open>before\<close>, \<open>now\<close> and \<open>later\<close> are the clock before and
  after the wait and after the events, \<open>answer\<close> what the kernel reports, \<open>oss\<close> the answers of the system during the timers and each
  event.
\<close>

definition server_turn :: "monocypher \<Rightarrow> autoconf \<Rightarrow> ct_config \<Rightarrow> int \<Rightarrow> u64 \<Rightarrow> u64 \<Rightarrow> u64 \<Rightarrow> (int \<times> u32) list option \<Rightarrow> (nat \<Rightarrow> os) \<Rightarrow>
    server \<Rightarrow> server_env \<Rightarrow> (server \<times> server_env) res" where
  "server_turn B k cfg q before now later answer oss srv e =
     (case epoll_wait True (register_all (epoll_add True) (epoll_empty q (server_capacity k)) (server_refs k before srv)) answer of
        Fault \<Rightarrow> Fault
      | Err \<Rightarrow> server_step B k (oss 0) cfg later Ev_timers srv e
      | Ok evs \<Rightarrow>
          andthen (server_batch B k cfg now
            (map (\<lambda>i. (oss (Suc i), server_event_of (ce_user (evs ! i)) (ce_events (evs ! i)))) [0..<length evs]) srv e) (\<lambda>(srv1, e1).
          server_step B k (oss 0) cfg later Ev_timers srv1 e1))"

lemma server_step_reach:
  "reach start (server_moves B k cfg) srv \<Longrightarrow> server_step B k os cfg now ev srv e = Ok (srv', e') \<Longrightarrow> reach start (server_moves B k cfg) srv'"
  by (erule reach_step) (simp add: server_moves_def, blast)

lemma server_batch_reach:
  "reach start (server_moves B k cfg) srv \<Longrightarrow> server_batch B k cfg now evs srv e = Ok (srv', e') \<Longrightarrow> reach start (server_moves B k cfg) srv'"
proof (induction evs arbitrary: srv e)
  case (Cons x evs)
  obtain os ev where x: "x = (os, ev)" by (cases x)
  with Cons.prems(2) obtain s1 e1 where step: "server_step B k os cfg now ev srv e = Ok (s1, e1)" "server_batch B k cfg now evs s1 e1 = Ok (srv', e')"
    by (auto simp: res_simps)
  show ?case using Cons.IH [OF server_step_reach [OF Cons.prems(1) step(1)] step(2)] .
qed simp

lemma server_turn_reach:
  assumes "reach start (server_moves B k cfg) srv" "server_turn B k cfg q before now later answer oss srv e = Ok (srv', e')"
  shows "reach start (server_moves B k cfg) srv'"
  using assms(2) unfolding server_turn_def
  by (auto simp: res_simps split: res.splits dest: server_step_reach [OF assms(1)] server_step_reach [OF server_batch_reach [OF assms(1)]])

text \<open>What a reference names exists.\<close>

fun ref_exists :: "server \<Rightarrow> server_ref \<Rightarrow> bool" where
  "ref_exists srv (REF_ACCEPT fd) \<longleftrightarrow> fd \<in> set (sx_control srv)"
| "ref_exists srv (REF_INCOMING fd) \<longleftrightarrow> find_incoming (sx_incoming srv) fd \<noteq> None"
| "ref_exists srv (REF_CONTROL i) \<longleftrightarrow> i < length (sx_peers srv) \<and> pe_active (sx_peers srv ! i)"
| "ref_exists srv (REF_SERVICE i j) \<longleftrightarrow> i < length (sx_peers srv) \<and> j < length (pe_svc (sx_peers srv ! i))"
| "ref_exists srv (REF_UDP_SERVICE i j) \<longleftrightarrow> i < length (sx_peers srv) \<and> j < length (pe_svc (sx_peers srv ! i))"
| "ref_exists srv (REF_STARTING i fd) \<longleftrightarrow> i < length (sx_peers srv) \<and> find_starting (sx_peers srv ! i) fd \<noteq> None"
| "ref_exists srv (REF_RELAY_DIRECT i j) \<longleftrightarrow> i < length (sx_peers srv) \<and> j < length (pe_relays (sx_peers srv ! i))"
| "ref_exists srv (REF_RELAY_WORK i j) \<longleftrightarrow> i < length (sx_peers srv) \<and> j < length (pe_relays (sx_peers srv ! i))"

lemma server_refs_exist: "(fd, ev, r) \<in> set (server_refs k now srv) \<Longrightarrow> ref_exists srv r"
  by (auto simp: server_refs_def peer_refs_def service_refs_def relay_refs_def find_incoming_def find_starting_def index_of_None
      split: if_splits)

text \<open>
  C10: a turn of the server's event loop never overruns its arrays and only handles what it registered.
  In every reachable state the references of a turn fit the array \<open>refs\<close> and the event loop, which have
  the same capacity, so no descriptor is left out for lack of room; every event the kernel reports
  comes with a reference registered for its descriptor in this turn, and that names an existing
  listener, connection, peer, service or relay; and the state after the turn is a reachable one again.
\<close>

theorem server_turn_registered:
  assumes "reach (server_boot k control) (server_moves B k cfg) srv" "fst (listen_set_open k os (cf_bind_addr cfg) (cf_bind_port cfg)) = control"
    "epoll_may_answer (register_all (epoll_add True) (epoll_empty q (server_capacity k)) (server_refs k before srv)) answer"
  shows "length (server_refs k before srv) \<le> server_capacity k \<and>
    (\<exists>evs. epoll_wait True (register_all (epoll_add True) (epoll_empty q (server_capacity k)) (server_refs k before srv)) answer = Ok evs \<and>
       (\<forall>e\<in>set evs. ref_exists srv (ce_user e) \<and> (\<exists>ev. (ce_fd e, ev, ce_user e) \<in> set (server_refs k before srv)))) \<and>
    (\<forall>srv' e'. server_turn B k cfg q before now later answer oss srv e = Ok (srv', e') \<longrightarrow> reach (server_boot k control) (server_moves B k cfg) srv')"
proof -
  have two: "length control \<le> 2" using open_address_two assms(2) by (auto simp: listen_set_open_def)
  have inv: "server_inv k cfg srv" "sx_control srv = control" using srv.inv_reach lst.inv_reach assms(1) by blast+
  have fits: "length (server_refs k before srv) \<le> server_capacity k" using server_refs_length [OF inv(1)] inv(2) two by simp
  from ep.reports_registered [OF fits assms(3)] obtain evs where
    "epoll_wait True (register_all (epoll_add True) (epoll_empty q (server_capacity k)) (server_refs k before srv)) answer = Ok evs"
    "\<forall>e\<in>set evs. \<exists>ev. (ce_fd e, ev, ce_user e) \<in> set (server_refs k before srv)" by blast
  moreover from this(2) have "\<forall>e\<in>set evs. ref_exists srv (ce_user e)" using server_refs_exist by blast
  ultimately show ?thesis using fits server_turn_reach [OF assms(1)] by auto
qed

definition listen_os :: os where
  "listen_os = demo_os\<lparr>os_listen := (\<lambda>a p. if a = lit ''::'' then None
     else Some [\<lparr>ca_fd = Some 3, ca_nonblock = True, ca_bind = True, ca_listen = True, ca_connect = False, ca_would_block = False, ca_wait = False,
       ca_getsockopt = False, ca_no_error = False\<rparr>])\<rparr>"

lemma boot_refs: "server_refs default_defconfig 0 (server_boot default_defconfig [3]) = [(3, CT_EV_READ, REF_ACCEPT 3)]"
  by (simp add: server_refs_def server_boot_def peer_refs_def zero_peer_def)

theorem server_turn_registered_witness:
  "\<exists>evs. epoll_wait True (register_all (epoll_add True) (epoll_empty 9 (server_capacity default_defconfig)) [(3, CT_EV_READ, REF_ACCEPT 3)])
     (Some [(3, EPOLLIN)]) = Ok evs \<and> (\<forall>e\<in>set evs. ref_exists (server_boot default_defconfig [3]) (ce_user e))"
proof -
  let ?srv = "server_boot default_defconfig [3]"
  have "fst (listen_set_open default_defconfig listen_os (cf_bind_addr demo_server) (cf_bind_port demo_server)) = [3]"
    by (simp add: listen_set_open_def open_address_def listen_os_def ct_net_listen_def gai_sock_def lit_def default_defconfig_def demo_server_def demo_config_def)
  moreover have "epoll_may_answer (register_all (epoll_add True) (epoll_empty 9 (server_capacity default_defconfig)) (server_refs default_defconfig 0 ?srv))
    (Some [(3, EPOLLIN)])"
    unfolding boot_refs by (simp add: epoll_may_answer_def epoll_add_def epoll_empty_def epoll_find_def server_capacity_def default_defconfig_def)
  ultimately show ?thesis
    using server_turn_registered [OF reach_start, of default_defconfig listen_os demo_server "[3]" 9 0 "Some [(3, EPOLLIN)]"]
    unfolding boot_refs by blast
qed

section \<open>The client\<close>

datatype client_ref =
    CREF_CONTROL
  | CREF_WORK int
  | CREF_UDP_LOCAL nat
  | CREF_RELAY_DIRECT nat
  | CREF_RELAY_WORK nat

definition client_capacity :: "autoconf \<Rightarrow> nat" where
  "client_capacity k = 1 + k_max_streams k + 2 * k_max_streams k + (if k_udp k then k_max_udp_sessions k else 0)"

definition client_refs :: "autoconf \<Rightarrow> u64 \<Rightarrow> client \<Rightarrow> (int \<times> u32 \<times> client_ref) list" where
  "client_refs k now c =
     (if now \<ge> cc_read_retry_after_ms (cl_ctl c) then [(cl_fd c, CT_EV_READ, CREF_CONTROL)] else []) @
     map (\<lambda>w. (wk_fd (iw_connection w), CT_EV_READ, CREF_WORK (wk_fd (iw_connection w)))) (filter (\<lambda>w. \<not> now < iw_read_retry w) (cl_work c)) @
     concat (map (\<lambda>j. relay_refs k (CREF_RELAY_DIRECT j) (CREF_RELAY_WORK j) (cl_relays c ! j)) [0..<length (cl_relays c)]) @
     (if k_udp k
      then map (\<lambda>i. (cu_fd (cl_udp c ! i), CT_EV_READ, CREF_UDP_LOCAL i)) (filter (\<lambda>i. cu_active (cl_udp c ! i)) [0..<length (cl_udp c)])
      else [])"

fun client_event_of :: "client_ref \<Rightarrow> u32 \<Rightarrow> client_event" where
  "client_event_of CREF_CONTROL ev = Cl_control"
| "client_event_of (CREF_WORK fd) ev = Cl_work fd"
| "client_event_of (CREF_UDP_LOCAL i) ev = Cl_udp_local i"
| "client_event_of (CREF_RELAY_DIRECT j) ev = Cl_relay j True (fst (wants ev)) (snd (wants ev))"
| "client_event_of (CREF_RELAY_WORK j) ev = Cl_relay j False (fst (wants ev)) (snd (wants ev))"

text \<open>The events of a batch up to the first that leaves the loop.\<close>

fun client_batch :: "monocypher \<Rightarrow> autoconf \<Rightarrow> ct_config \<Rightarrow> (client_os \<times> client_event) list \<Rightarrow> client \<Rightarrow> server_env \<Rightarrow> (bool \<times> client \<times> server_env) res" where
  "client_batch B k cfg [] c e = Ok (True, c, e)"
| "client_batch B k cfg ((os, ev) # rest) c e =
     andthen (client_step B k os cfg ev c e) (\<lambda>(ok, c', e'). if ok then client_batch B k cfg rest c' e' else Ok (False, c', e'))"

definition client_turn :: "monocypher \<Rightarrow> autoconf \<Rightarrow> ct_config \<Rightarrow> int \<Rightarrow> u64 \<Rightarrow> (int \<times> u32) list option \<Rightarrow> (nat \<Rightarrow> client_os) \<Rightarrow>
    client \<Rightarrow> server_env \<Rightarrow> (bool \<times> client \<times> server_env) res" where
  "client_turn B k cfg q before answer oss c e =
     (case epoll_wait True (register_all (epoll_add True) (epoll_empty q (client_capacity k)) (client_refs k before c)) answer of
        Fault \<Rightarrow> Fault
      | Err \<Rightarrow> Ok (False, c, e)
      | Ok evs \<Rightarrow>
          andthen (client_batch B k cfg
            (map (\<lambda>i. (oss (Suc i), client_event_of (ce_user (evs ! i)) (ce_events (evs ! i)))) [0..<length evs]) c e) (\<lambda>(ok, c1, e1).
          if ok then client_step B k (oss 0) cfg Cl_timers c1 e1 else Ok (False, c1, e1)))"

lemma client_step_reach:
  "reach start (client_moves B k cfg) c \<Longrightarrow> client_step B k os cfg ev c e = Ok (ok, c', e') \<Longrightarrow> reach start (client_moves B k cfg) c'"
  by (erule reach_step) (simp add: client_moves_def, blast)

lemma client_batch_reach:
  "reach start (client_moves B k cfg) c \<Longrightarrow> client_batch B k cfg evs c e = Ok (ok, c', e') \<Longrightarrow> reach start (client_moves B k cfg) c'"
proof (induction evs arbitrary: c e)
  case (Cons x evs)
  obtain os ev where x: "x = (os, ev)" by (cases x)
  with Cons.prems(2) obtain go c1 e1 where step: "client_step B k os cfg ev c e = Ok (go, c1, e1)"
    "(if go then client_batch B k cfg evs c1 e1 else Ok (False, c1, e1)) = Ok (ok, c', e')" by (auto simp: res_simps)
  note r = client_step_reach [OF Cons.prems(1) step(1)]
  show ?case using step(2) Cons.IH [OF r] r by (cases go) auto
qed simp

lemma client_turn_reach:
  assumes "reach start (client_moves B k cfg) c" "client_turn B k cfg q before answer oss c e = Ok (ok, c', e')"
  shows "reach start (client_moves B k cfg) c'"
  using assms unfolding client_turn_def
  by (auto simp: res_simps split: res.splits if_splits dest: client_step_reach [OF client_batch_reach [OF assms(1)]] client_batch_reach [OF assms(1)])

lemma client_refs_length:
  assumes "client_inv k cfg fd c"
  shows "length (client_refs k now c) \<le> client_capacity k"
proof -
  have inv: "length (cl_work c) \<le> k_max_streams k" "length (cl_relays c) = k_max_streams k" "length (cl_udp c) = k_max_udp_sessions k"
    using assms by (auto simp: client_inv_def sessions_inv_def)
  have "length (concat (map (\<lambda>j. relay_refs k (CREF_RELAY_DIRECT j) (CREF_RELAY_WORK j) (cl_relays c ! j)) [0..<length (cl_relays c)])) \<le>
    length [0..<length (cl_relays c)] * 2" by (intro concat_map_le relay_refs_two)
  moreover have "length (filter (\<lambda>w. \<not> now < iw_read_retry w) (cl_work c)) \<le> k_max_streams k"
    using inv(1) length_filter_le le_trans by blast
  moreover have "length (filter (\<lambda>i. cu_active (cl_udp c ! i)) [0..<length (cl_udp c)]) \<le> k_max_udp_sessions k"
    using length_filter_le [of "\<lambda>i. cu_active (cl_udp c ! i)" "[0..<length (cl_udp c)]"] inv(3) by simp
  ultimately show ?thesis using inv(2) unfolding client_refs_def client_capacity_def by (simp del: length_concat)
qed

text \<open>A reference of the client names an idle work connection, an open relay or an active session.\<close>

fun client_ref_exists :: "client \<Rightarrow> client_ref \<Rightarrow> bool" where
  "client_ref_exists c CREF_CONTROL \<longleftrightarrow> True"
| "client_ref_exists c (CREF_WORK fd) \<longleftrightarrow> find_work (cl_work c) fd \<noteq> None"
| "client_ref_exists c (CREF_UDP_LOCAL i) \<longleftrightarrow> i < length (cl_udp c) \<and> cu_active (cl_udp c ! i)"
| "client_ref_exists c (CREF_RELAY_DIRECT j) \<longleftrightarrow> j < length (cl_relays c) \<and> \<not> rl_closed (cl_relays c ! j)"
| "client_ref_exists c (CREF_RELAY_WORK j) \<longleftrightarrow> j < length (cl_relays c) \<and> \<not> rl_closed (cl_relays c ! j)"

lemma client_refs_exist: "(fd, ev, r) \<in> set (client_refs k now c) \<Longrightarrow> client_ref_exists c r"
  by (auto simp: client_refs_def relay_refs_def find_work_def index_of_None split: if_splits)

text \<open>
  C13: a turn of the client's event loop never overruns its arrays and only handles what it registered.
  In every reachable state of a session the references of a turn fit the array \<open>refs\<close> and the event
  loop; every event the kernel reports comes with a reference registered for its descriptor in this
  turn, and that names an idle work connection, an open relay or an active datagram session; and the
  state after the turn is a reachable one again.
\<close>

theorem client_turn_registered:
  assumes "reach (client_boot k fd ctl) (client_moves B k cfg) c"
    "epoll_may_answer (register_all (epoll_add True) (epoll_empty q (client_capacity k)) (client_refs k before c)) answer"
  shows "length (client_refs k before c) \<le> client_capacity k \<and>
    (\<exists>evs. epoll_wait True (register_all (epoll_add True) (epoll_empty q (client_capacity k)) (client_refs k before c)) answer = Ok evs \<and>
       (\<forall>e\<in>set evs. client_ref_exists c (ce_user e) \<and> (\<exists>ev. (ce_fd e, ev, ce_user e) \<in> set (client_refs k before c)))) \<and>
    (\<forall>ok c' e'. client_turn B k cfg q before answer oss c e = Ok (ok, c', e') \<longrightarrow> reach (client_boot k fd ctl) (client_moves B k cfg) c')"
proof -
  have fits: "length (client_refs k before c) \<le> client_capacity k" using client_refs_length [OF clt.inv_reach [OF assms(1)]] .
  from ep.reports_registered [OF fits assms(2)] obtain evs where
    "epoll_wait True (register_all (epoll_add True) (epoll_empty q (client_capacity k)) (client_refs k before c)) answer = Ok evs"
    "\<forall>e\<in>set evs. \<exists>ev. (ce_fd e, ev, ce_user e) \<in> set (client_refs k before c)" by blast
  moreover from this(2) have "\<forall>e\<in>set evs. client_ref_exists c (ce_user e)" using client_refs_exist by blast
  ultimately show ?thesis using fits client_turn_reach [OF assms(1)] by auto
qed

lemma client_boot_refs: "client_refs default_defconfig 0 (client_boot default_defconfig 5 zero_control) = [(5, CT_EV_READ, CREF_CONTROL)]"
proof -
  have "concat (map (\<lambda>j. relay_refs default_defconfig (CREF_RELAY_DIRECT j) (CREF_RELAY_WORK j) (replicate n r ! j)) [0..<n]) = []"
    if "rl_closed r" for n r using that by (simp add: relay_refs_def)
  moreover have "filter (\<lambda>i. cu_active (replicate n zero_client_session ! i)) [0..<n] = []" for n
    by (simp add: filter_empty_conv zero_client_session_def)
  ultimately show ?thesis by (simp add: client_refs_def client_boot_def zero_control_def)
qed

theorem client_turn_registered_witness:
  "\<exists>evs. epoll_wait True (register_all (epoll_add True) (epoll_empty 9 (client_capacity default_defconfig)) [(5, CT_EV_READ, CREF_CONTROL)])
     (Some [(5, EPOLLIN)]) = Ok evs \<and> (\<forall>e\<in>set evs. client_ref_exists (client_boot default_defconfig 5 zero_control) (ce_user e))"
proof -
  let ?c = "client_boot default_defconfig 5 zero_control"
  have "epoll_may_answer (register_all (epoll_add True) (epoll_empty 9 (client_capacity default_defconfig)) (client_refs default_defconfig 0 ?c))
    (Some [(5, EPOLLIN)])"
    unfolding client_boot_refs by (simp add: epoll_may_answer_def epoll_add_def epoll_empty_def epoll_find_def client_capacity_def default_defconfig_def)
  from client_turn_registered [OF reach_start this, of toy_backend demo_config] show ?thesis unfolding client_boot_refs by blast
qed

end
