(* ===== verification/Runs.thy ===== *)
theory Runs
  imports Registrations Config_Valid
begin

text \<open>
  The two programs from start to end: \<open>ct_run_server\<close> of \<open>src/src/server/server.c\<close>, and \<open>client_session\<close> and
  \<open>ct_run_client\<close> of \<open>src/src/client/client.c\<close>, over a list of the turns of their loops. A list that ends
  before the program returns stands for a program that is still running; its result is then \<open>None\<close>.
\<close>

section \<open>The server\<close>

text \<open>
  What one turn gets from outside: whether a stop was requested, the descriptor of the new event loop
  (\<open>None\<close> when it cannot be created), the clock before and after the wait and after the events, the answer of the kernel, and
  the answers of the system to each event.
\<close>

record 'o turn =
  tn_stop :: bool
  tn_queue :: "int option"
  tn_before :: u64
  tn_now :: u64
  tn_later :: u64
  tn_answer :: "(int \<times> u32) list option"
  tn_os :: "nat \<Rightarrow> 'o"

text \<open>The result tells whether the loop was left.\<close>

fun server_loop :: "monocypher \<Rightarrow> autoconf \<Rightarrow> ct_config \<Rightarrow> os turn list \<Rightarrow> server \<Rightarrow> server_env \<Rightarrow> (bool \<times> server \<times> server_env) res" where
  "server_loop B k cfg [] srv e = Ok (False, srv, e)"
| "server_loop B k cfg (t # ts) srv e =
     (if tn_stop t then Ok (True, srv, e)
      else case tn_queue t of
        None \<Rightarrow> Ok (True, srv, e)
      | Some q \<Rightarrow>
          andthen (server_turn B k cfg q (tn_before t) (tn_now t) (tn_later t) (tn_answer t) (tn_os t) srv e) (\<lambda>(srv', e'). server_loop B k cfg ts srv' e'))"

definition ct_run_server :: "monocypher \<Rightarrow> autoconf \<Rightarrow> ct_config \<Rightarrow> bool \<Rightarrow> os \<Rightarrow> os turn list \<Rightarrow> os \<Rightarrow> server_env \<Rightarrow> (int option \<times> server_env) res" where
  "ct_run_server B k cfg memory os turns os_end e =
     (if \<not> memory then Ok (Some 1, e)
      else
        let (control, closed) = listen_set_open k os (cf_bind_addr cfg) (cf_bind_port cfg); e1 = close_fds closed e in
        if control = [] then Ok (Some 1, e1)
        else andthen (server_loop B k cfg turns (server_boot k control) e1) (\<lambda>(left, srv, e2).
          Ok (if left then (Some 0, server_stop B k os_end srv e2) else (None, e2))))"

section \<open>The client\<close>

text \<open>As for the server, but an event or timer may end the loop too.\<close>

fun client_loop :: "monocypher \<Rightarrow> autoconf \<Rightarrow> ct_config \<Rightarrow> client_os turn list \<Rightarrow> client \<Rightarrow> server_env \<Rightarrow> (bool \<times> client \<times> server_env) res" where
  "client_loop B k cfg [] c e = Ok (False, c, e)"
| "client_loop B k cfg (t # ts) c e =
     (if tn_stop t then Ok (True, c, e)
      else case tn_queue t of
        None \<Rightarrow> Ok (True, c, e)
      | Some q \<Rightarrow>
          andthen (client_turn B k cfg q (tn_before t) (tn_answer t) (tn_os t) c e) (\<lambda>(ok, c', e').
          if ok then client_loop B k cfg ts c' e' else Ok (True, c', e')))"

text \<open>
  One session: the inputs of its start, its turns, and whether a stop was requested when it closes and
  when it returns. After it \<open>se_stop_after\<close> is what the caller sees, and \<open>se_random\<close> the random word for the pause, 0 when there
  is none.
\<close>

record session =
  se_stop_before :: bool
  se_start_os :: client_os
  se_fs :: fs
  se_secret :: "bytes option"
  se_nonce :: "bytes option"
  se_memory :: bool
  se_turns :: "client_os turn list"
  se_end_os :: client_os
  se_stopping :: bool
  se_stop_return :: bool
  se_stop_after :: bool
  se_random :: "u32 option"

definition client_session :: "monocypher \<Rightarrow> autoconf \<Rightarrow> ct_config \<Rightarrow> session \<Rightarrow> server_env \<Rightarrow> (int option \<times> server_env) res" where
  "client_session B k cfg x e =
     andthen (client_start B k (se_start_os x) cfg (se_fs x) (se_secret x) (se_nonce x) (se_memory x) e) (\<lambda>(r, e1).
     case r of
       Inl code \<Rightarrow> Ok (Some code, e1)
     | Inr c \<Rightarrow>
         andthen (client_loop B k cfg (se_turns x) c e1) (\<lambda>(left, c', e2).
         Ok (if left then (Some (if se_stop_return x then 0 else -2), client_end B k (se_end_os x) (se_stopping x) c' e2) else (None, e2))))"

text \<open>The loop of \<open>ct_run_client\<close>; the result has the pauses it made, \<open>None\<close> for one that overflows.\<close>

fun reconnect_loop :: "monocypher \<Rightarrow> autoconf \<Rightarrow> ct_config \<Rightarrow> session list \<Rightarrow> int \<Rightarrow> server_env \<Rightarrow> (int option \<times> int option list \<times> server_env) res" where
  "reconnect_loop B k cfg [] delay e = Ok (None, [], e)"
| "reconnect_loop B k cfg (x # xs) delay e =
     (if se_stop_before x then Ok (Some 0, [], e)
      else andthen (client_session B k cfg x e) (\<lambda>(result, e1).
        case result of
          None \<Rightarrow> Ok (None, [], e1)
        | Some code \<Rightarrow>
            if code = 0 \<and> se_stop_after x then Ok (Some 0, [], e1)
            else
              let d = delay_after cfg (code = -2) delay;
                  r = (case se_random x of None \<Rightarrow> 0 | Some w \<Rightarrow> w);
                  ms = reconnect_ms d (cf_reconnect_jitter_percent cfg) r
              in andthen (reconnect_loop B k cfg xs (next_delay cfg d) (tally (ct_metric_inc CT_METRIC_CONTROL_RECONNECTS_TOTAL) e1)) (\<lambda>(ret, pauses, e2).
                 Ok (ret, ms # pauses, e2))))"

text \<open>\<open>reconnect\<close> is the symbol \<open>CONFIG_FEATURE_CLIENT_RECONNECT\<close>; without it there is one session.\<close>

definition ct_run_client :: "monocypher \<Rightarrow> autoconf \<Rightarrow> bool \<Rightarrow> ct_config \<Rightarrow> session list \<Rightarrow> server_env \<Rightarrow> (int option \<times> int option list \<times> server_env) res" where
  "ct_run_client B k reconnect cfg sessions e =
     (if reconnect then reconnect_loop B k cfg sessions (cf_reconnect_initial_delay cfg) e
      else case sessions of
        [] \<Rightarrow> Ok (None, [], e)
      | x # _ \<Rightarrow> andthen (client_session B k cfg x e) (\<lambda>(result, e1).
          Ok (map_option (\<lambda>code. if code = -2 then 1 else 0) result, [], e1)))"

section \<open>Properties of the server's run\<close>

definition leaves :: "'o turn \<Rightarrow> bool" where
  "leaves t \<longleftrightarrow> tn_stop t \<or> tn_queue t = None"

lemma server_loop_reach:
  assumes "reach start (server_moves B k cfg) srv" "server_loop B k cfg turns srv e = Ok (left, srv', e')"
  shows "reach start (server_moves B k cfg) srv' \<and> (left \<longleftrightarrow> (\<exists>t\<in>set turns. leaves t))"
  using assms
proof (induction turns arbitrary: srv e)
  case (Cons t ts)
  show ?case
  proof (cases "leaves t")
    case False
    then obtain q s1 e1 where q: "tn_queue t = Some q" "\<not> tn_stop t"
      and turn: "server_turn B k cfg q (tn_before t) (tn_now t) (tn_later t) (tn_answer t) (tn_os t) srv e = Ok (s1, e1)"
      and rest: "server_loop B k cfg ts s1 e1 = Ok (left, srv', e')" using Cons.prems(2) by (auto simp: leaves_def res_simps)
    show ?thesis using Cons.IH [OF server_turn_reach [OF Cons.prems(1) turn] rest] False by simp
  qed (use Cons.prems in \<open>auto simp: leaves_def split: option.splits\<close>)
qed simp

lemma run_server_cases:
  assumes "ct_run_server B k cfg memory os turns os_end e = Ok (code, e')"
  obtains (refused) "code = Some 1"
  | (loop) control closed left srv e2 where "listen_set_open k os (cf_bind_addr cfg) (cf_bind_port cfg) = (control, closed)" "control \<noteq> []"
      "server_loop B k cfg turns (server_boot k control) (close_fds closed e) = Ok (left, srv, e2)"
      "code = (if left then Some 0 else None)" "e' = (if left then server_stop B k os_end srv e2 else e2)"
  using assms by (auto simp: ct_run_server_def Let_def res_simps split: if_splits prod.splits)

text \<open>
  C4: the server runs until it is asked to stop, and leaves nothing open. Whatever the turns bring, a run
  that returns normally went through a turn in which a stop was requested or no event loop could be
  created; its last state is a reachable one; and all that this state holds, the control
  listeners included, has been closed.
\<close>

theorem server_run_ends_clean:
  assumes "listen_set_open k os (cf_bind_addr cfg) (cf_bind_port cfg) = (control, closed)"
    "ct_run_server B k cfg memory os turns os_end e = Ok (Some 0, e')"
  shows "(\<exists>t\<in>set turns. leaves t) \<and>
    (\<exists>srv e2. server_loop B k cfg turns (server_boot k control) (close_fds closed e) = Ok (True, srv, e2) \<and>
       reach (server_boot k control) (server_moves B k cfg) srv \<and>
       mset (we_closed e') = mset (we_closed e2) + mset (concat (map peer_fds (sx_peers srv))) + mset (map in_fd (sx_incoming srv)) + mset control)"
  using assms(2)
proof (cases rule: run_server_cases)
  case (loop control' closed' left srv e2)
  have c: "control' = control" "closed' = closed" using loop(1) assms(1) by simp_all
  note r = server_loop_reach [OF reach_start loop(3)]
  then have "sx_control srv = control'" using lst.inv_reach by blast
  then show ?thesis using loop r c by (auto simp: server_stop_closes_all split: if_splits)
qed simp

section \<open>Properties of the client's run\<close>

lemma client_loop_reach:
  assumes "reach start (client_moves B k cfg) c" "client_loop B k cfg turns c e = Ok (left, c', e')"
  shows "reach start (client_moves B k cfg) c'"
  using assms
proof (induction turns arbitrary: c e)
  case (Cons t ts)
  show ?case
  proof (cases "leaves t")
    case False
    then obtain q ok c1 e1 where q: "tn_queue t = Some q" "\<not> tn_stop t"
      and turn: "client_turn B k cfg q (tn_before t) (tn_answer t) (tn_os t) c e = Ok (ok, c1, e1)"
      and rest: "(if ok then client_loop B k cfg ts c1 e1 else Ok (True, c1, e1)) = Ok (left, c', e')"
      using Cons.prems(2) by (auto simp: leaves_def res_simps)
    note r = client_turn_reach [OF Cons.prems(1) turn]
    show ?thesis using Cons.IH [OF r] rest r by (cases ok) auto
  qed (use Cons.prems in \<open>auto simp: leaves_def split: option.splits\<close>)
qed simp

lemma fill_moves: "fill_pool n B k os cfg c e = Ok (c', e') \<Longrightarrow> client_moves B k cfg c c'"
  unfolding client_moves_def by blast

lemma client_start_reach:
  assumes "client_start B k os cfg fs secret nonce memory e = Ok (Inr c, e')"
  shows "\<exists>fd ctl. reach (client_boot k fd ctl) (client_moves B k cfg) c"
proof -
  have "ifok (\<lambda>(r, e'). \<forall>c. r = Inr c \<longrightarrow> (\<exists>fd ctl. reach (client_boot k fd ctl) (client_moves B k cfg) c))
      (client_start B k os cfg fs secret nonce memory e)"
    unfolding client_start_def Let_def
    by (intro ifok_intros) (auto split: if_splits intro: reach_start reach_step [OF reach_start] fill_moves)
  from ifokD [OF this assms] show ?thesis by simp
qed

text \<open>
  What the run of the client should do, told without its variable \<open>delay\<close>. \<open>session_codes\<close> are the results of the
  sessions after which the client pauses, and \<open>failed_in_row\<close> is how many sessions up to the one with number
  \<open>i\<close>, this included, have failed to start since the last one that did (\<open>client_session\<close> returns -2 for that). The
  delay after \<open>n\<close> doublings is \<open>backoff cfg n\<close>.
\<close>

fun session_codes :: "monocypher \<Rightarrow> autoconf \<Rightarrow> ct_config \<Rightarrow> session list \<Rightarrow> server_env \<Rightarrow> int list" where
  "session_codes B k cfg [] e = []"
| "session_codes B k cfg (x # xs) e =
     (if se_stop_before x then []
      else case client_session B k cfg x e of
        Ok (Some code, e1) \<Rightarrow>
          if code = 0 \<and> se_stop_after x then []
          else code # session_codes B k cfg xs (tally (ct_metric_inc CT_METRIC_CONTROL_RECONNECTS_TOTAL) e1)
      | _ \<Rightarrow> [])"

definition failed_in_row :: "int list \<Rightarrow> nat \<Rightarrow> nat" where
  "failed_in_row codes i = length (takeWhile (\<lambda>c. c \<noteq> -2) (rev (take (Suc i) codes)))"

definition backoff :: "ct_config \<Rightarrow> nat \<Rightarrow> int" where
  "backoff cfg n =
     (if cf_reconnect_max_delay cfg \<le> cf_reconnect_initial_delay cfg then cf_reconnect_initial_delay cfg
      else min (cf_reconnect_initial_delay cfg * 2 ^ n) (cf_reconnect_max_delay cfg))"

definition random_word :: "session \<Rightarrow> u32" where
  "random_word x = (case se_random x of None \<Rightarrow> 0 | Some w \<Rightarrow> w)"

text \<open>The exponents of the doublings, first as a recursion over the sessions.\<close>

fun doublings :: "nat \<Rightarrow> int list \<Rightarrow> nat list" where
  "doublings n [] = []"
| "doublings n (c # cs) = (if c = -2 then 0 else n) # doublings (Suc (if c = -2 then 0 else n)) cs"

lemma length_doublings: "length (doublings n cs) = length cs"
  by (induction cs arbitrary: n) auto

lemma doublings_nth:
  "i < length cs \<Longrightarrow> doublings n cs ! i = (if -2 \<in> set (take (Suc i) cs) then failed_in_row cs i else n + i)"
proof (induction cs arbitrary: n i)
  case (Cons c cs)
  show ?case
  proof (cases i)
    case 0
    then show ?thesis by (auto simp: failed_in_row_def)
  next
    case (Suc j)
    let ?m = "if c = -2 then 0 else n" and ?t = "take (Suc j) cs"
    have IH: "doublings (Suc ?m) cs ! j = (if -2 \<in> set ?t then failed_in_row cs j else Suc ?m + j)"
      using Cons.IH [of j "Suc ?m"] Cons.prems Suc by simp
    have f: "failed_in_row (c # cs) (Suc j) = length (takeWhile (\<lambda>c. c \<noteq> -2) (rev ?t @ [c]))" by (simp add: failed_in_row_def)
    show ?thesis
    proof (cases "-2 \<in> set ?t")
      case True
      then have "takeWhile (\<lambda>c. c \<noteq> -2) (rev ?t @ [c]) = takeWhile (\<lambda>c. c \<noteq> -2) (rev ?t)" by (intro takeWhile_append1 [of "-2"]) simp_all
      then show ?thesis using IH True f Suc by (simp add: failed_in_row_def)
    next
      case False
      then have "takeWhile (\<lambda>c. c \<noteq> -2) (rev ?t @ [c]) = rev ?t @ takeWhile (\<lambda>c. c \<noteq> -2) [c]" by (intro takeWhile_append2) auto
      moreover have "length ?t = Suc j" using Cons.prems Suc by simp
      ultimately show ?thesis using IH False f Suc by (cases "c = -2") simp_all
    qed
  qed
qed simp

lemma doublings_closed:
  assumes "i < length cs"
  shows "doublings 0 cs ! i = min i (failed_in_row cs i)"
proof (cases "-2 \<in> set (take (Suc i) cs)")
  case True
  then have "takeWhile (\<lambda>c. c \<noteq> -2) (rev (take (Suc i) cs)) \<noteq> rev (take (Suc i) cs)" by (simp add: takeWhile_eq_all_conv)
  then have "failed_in_row cs i < length (rev (take (Suc i) cs))"
    unfolding failed_in_row_def by (metis length_takeWhile_le linorder_not_less nle_le not_less takeWhile_eq_take take_all)
  then show ?thesis using True assms doublings_nth [of i cs 0] by simp
next
  case False
  then have "takeWhile (\<lambda>c. c \<noteq> -2) (rev (take (Suc i) cs)) = rev (take (Suc i) cs)" by (auto simp: takeWhile_eq_all_conv)
  then have "failed_in_row cs i = length (rev (take (Suc i) cs))" unfolding failed_in_row_def by (rule arg_cong)
  then have "failed_in_row cs i = Suc i" using assms by simp
  then show ?thesis using False assms doublings_nth [of i cs 0] by simp
qed

lemma next_backoff:
  assumes "1 \<le> cf_reconnect_initial_delay cfg"
  shows "next_delay cfg (backoff cfg n) = backoff cfg (Suc n)"
proof -
  let ?i = "cf_reconnect_initial_delay cfg" and ?m = "cf_reconnect_max_delay cfg"
  have "?i * 2 ^ n \<le> ?i * 2 ^ Suc n" using assms by simp
  then show ?thesis by (auto simp: next_delay_def backoff_def min_def)
qed

lemma delay_after_backoff:
  "1 \<le> cf_reconnect_initial_delay cfg \<Longrightarrow> delay_after cfg started (backoff cfg n) = backoff cfg (if started then 0 else n)"
  by (auto simp: delay_after_def backoff_def)

lemma reconnect_loop_pauses:
  assumes "1 \<le> cf_reconnect_initial_delay cfg" "reconnect_loop B k cfg sessions (backoff cfg n) e = Ok (ret, pauses, e')"
  shows "length (session_codes B k cfg sessions e) \<le> length sessions \<and>
    pauses = map2 (\<lambda>m x. reconnect_ms (backoff cfg m) (cf_reconnect_jitter_percent cfg) (random_word x)) (doublings n (session_codes B k cfg sessions e)) sessions \<and>
    (ret \<noteq> None \<longrightarrow> ret = Some 0 \<and> (\<exists>x\<in>set sessions. se_stop_before x \<or> se_stop_after x))"
  using assms(2)
proof (induction sessions arbitrary: n e ret pauses)
  case (Cons x xs)
  show ?case
  proof (cases "se_stop_before x")
    case False
    with Cons.prems obtain result e1 where s: "client_session B k cfg x e = Ok (result, e1)" by (auto simp: res_simps)
    show ?thesis
    proof (cases "result = None \<or> result = Some 0 \<and> se_stop_after x")
      case True
      then show ?thesis using Cons.prems False s by auto
    next
      case on: False
      then obtain code where code: "result = Some code" "\<not> (code = 0 \<and> se_stop_after x)" by auto
      let ?m = "if code = -2 then 0 else n" and ?e = "tally (ct_metric_inc CT_METRIC_CONTROL_RECONNECTS_TOTAL) e1"
      from Cons.prems False s code obtain ps where
        "reconnect_loop B k cfg xs (backoff cfg (Suc ?m)) ?e = Ok (ret, ps, e')"
        "pauses = reconnect_ms (backoff cfg ?m) (cf_reconnect_jitter_percent cfg) (random_word x) # ps"
        by (auto simp: Let_def res_simps random_word_def delay_after_backoff [OF assms(1)] next_backoff [OF assms(1)] split: if_splits)
      moreover have "session_codes B k cfg (x # xs) e = code # session_codes B k cfg xs ?e" using False s code by simp
      ultimately show ?thesis using Cons.IH [of "Suc ?m" ?e ret ps] by auto
    qed
  qed (use Cons.prems in auto)
qed simp

lemma backoff_range:
  assumes "1 \<le> cf_reconnect_initial_delay cfg"
  shows "cf_reconnect_initial_delay cfg \<le> backoff cfg n"
    "backoff cfg n \<le> max (cf_reconnect_initial_delay cfg) (cf_reconnect_max_delay cfg)"
proof -
  have "cf_reconnect_initial_delay cfg * 1 \<le> cf_reconnect_initial_delay cfg * 2 ^ n" using assms by (intro mult_left_mono) simp_all
  then show "cf_reconnect_initial_delay cfg \<le> backoff cfg n"
    "backoff cfg n \<le> max (cf_reconnect_initial_delay cfg) (cf_reconnect_max_delay cfg)" by (auto simp: backoff_def)
qed

text \<open>The pause itself: \<open>int\<close> holds the product exactly when it is below \<open>2 ^ 31\<close>.\<close>

lemma reconnect_ms_exact:
  assumes "1 \<le> d" "d \<le> 86400" "0 \<le> pct" "pct \<le> 90"
  shows "reconnect_ms d pct r =
    (if d * 1000 * (100 + reconnect_delta pct r) < 2 ^ 31 then Some (10 * d * (100 + reconnect_delta pct r)) else None)"
    "d \<le> 11302 \<longrightarrow> d * 1000 * (100 + reconnect_delta pct r) < 2 ^ 31" "0 < 10 * d * (100 + reconnect_delta pct r)"
proof -
  let ?x = "100 + reconnect_delta pct r"
  have x: "10 \<le> ?x" "?x \<le> 190" using delta_range [OF assms(3), of r] assms(4) by auto
  have "0 \<le> d * 1000 * ?x" using assms x by simp
  then show "reconnect_ms d pct r = (if d * 1000 * ?x < 2 ^ 31 then Some (10 * d * ?x) else None)"
    using assms(1,2) by (simp add: reconnect_ms_def Let_def int_fits_def)
  show "d \<le> 11302 \<longrightarrow> d * 1000 * ?x < 2 ^ 31"
  proof
    assume "d \<le> 11302"
    then have "d * 1000 * ?x \<le> 11302 * 1000 * 190" using assms x by (intro mult_mono) auto
    then show "d * 1000 * ?x < 2 ^ 31" by simp
  qed
  show "0 < 10 * d * ?x" using assms(1) x by simp
qed

text \<open>
  C8: the client keeps trying, with exactly these pauses, for every configuration within the ranges that
  the loader enforces. With reconnection in the build, a run returns only after a stop was requested, with the
  value 0, whatever its sessions return. The delay doubles with each further session in a row that does not start,
  from the initial to the maximal delay, and is reset by a session that had started; the pause after
  session \<open>i\<close> is this delay in milliseconds changed by at most the configured percentage of jitter, and it is
  positive. The computation overflows \<open>int\<close> (the pause is then \<open>None\<close>) exactly when delay, 1000 and
  percentage multiply to \<open>2 ^ 31\<close> or more, and never for a delay of at most 11302 seconds. Without reconnection
  there is one session, no pause, and the value tells whether it had started.
\<close>

theorem client_run_persists:
  assumes "common_ok k cfg" "ct_run_client B k reconnect cfg sessions e = Ok (ret, pauses, e')"
  shows "if reconnect then
      (ret \<noteq> None \<longrightarrow> ret = Some 0 \<and> (\<exists>x\<in>set sessions. se_stop_before x \<or> se_stop_after x)) \<and>
      length pauses = length (session_codes B k cfg sessions e) \<and>
      (\<forall>i<length pauses. \<exists>delta d. \<bar>delta\<bar> \<le> cf_reconnect_jitter_percent cfg \<and>
         d = backoff cfg (min i (failed_in_row (session_codes B k cfg sessions e) i)) \<and>
         cf_reconnect_initial_delay cfg \<le> d \<and> d \<le> max (cf_reconnect_initial_delay cfg) (cf_reconnect_max_delay cfg) \<and>
         pauses ! i = (if d * 1000 * (100 + delta) < 2 ^ 31 then Some (10 * d * (100 + delta)) else None) \<and>
         (d \<le> 11302 \<longrightarrow> d * 1000 * (100 + delta) < 2 ^ 31) \<and> 0 < 10 * d * (100 + delta))
    else pauses = [] \<and> (\<forall>code. ret = Some code \<longrightarrow>
      (\<exists>x xs result e1. sessions = x # xs \<and> client_session B k cfg x e = Ok (Some result, e1) \<and> code = (if result = -2 then 1 else 0)))"
proof (cases reconnect)
  case False
  then show ?thesis using assms(2) by (auto simp: ct_run_client_def res_simps split: list.splits)
next
  case True
  let ?codes = "session_codes B k cfg sessions e" and ?pct = "cf_reconnect_jitter_percent cfg"
  have c: "cf_reconnect_initial_delay cfg \<in> {1..3600}" "cf_reconnect_max_delay cfg \<in> {1..86400}" "?pct \<in> {0..90}"
    using assms(1) unfolding common_ok_def by blast+
  have start: "backoff cfg 0 = cf_reconnect_initial_delay cfg" by (auto simp: backoff_def)
  have init: "1 \<le> cf_reconnect_initial_delay cfg" using c(1) by simp
  have "reconnect_loop B k cfg sessions (backoff cfg 0) e = Ok (ret, pauses, e')" using assms(2) True start by (simp add: ct_run_client_def)
  note run = reconnect_loop_pauses [OF init this]
  have len: "length pauses = length ?codes" using run by (simp add: length_doublings)
  have "\<exists>delta d. \<bar>delta\<bar> \<le> ?pct \<and> d = backoff cfg (min i (failed_in_row ?codes i)) \<and>
         cf_reconnect_initial_delay cfg \<le> d \<and> d \<le> max (cf_reconnect_initial_delay cfg) (cf_reconnect_max_delay cfg) \<and>
         pauses ! i = (if d * 1000 * (100 + delta) < 2 ^ 31 then Some (10 * d * (100 + delta)) else None) \<and>
         (d \<le> 11302 \<longrightarrow> d * 1000 * (100 + delta) < 2 ^ 31) \<and> 0 < 10 * d * (100 + delta)" if "i < length pauses" for i
  proof (intro exI conjI)
    let ?d = "backoff cfg (min i (failed_in_row ?codes i))" and ?delta = "reconnect_delta ?pct (random_word (sessions ! i))"
    have i: "i < length ?codes" "i < length sessions" using that len run by auto
    then have "pauses ! i = reconnect_ms ?d ?pct (random_word (sessions ! i))" using run doublings_closed [OF i(1)] by (simp add: length_doublings)
    moreover note r = backoff_range [OF init, of "min i (failed_in_row ?codes i)"]
    moreover from this have d: "1 \<le> ?d" "?d \<le> 86400" using c(1,2) by auto
    note ex = reconnect_ms_exact [OF d, of ?pct "random_word (sessions ! i)"]
    ultimately show "pauses ! i = (if ?d * 1000 * (100 + ?delta) < 2 ^ 31 then Some (10 * ?d * (100 + ?delta)) else None)"
      "?d \<le> 11302 \<longrightarrow> ?d * 1000 * (100 + ?delta) < 2 ^ 31" "0 < 10 * ?d * (100 + ?delta)"
      "cf_reconnect_initial_delay cfg \<le> ?d" "?d \<le> max (cf_reconnect_initial_delay cfg) (cf_reconnect_max_delay cfg)" using c(3) by auto
    show "\<bar>?delta\<bar> \<le> ?pct" using delta_range [of ?pct "random_word (sessions ! i)"] c(3) by auto
  qed simp
  then show ?thesis using True run len by simp
qed

section \<open>Small runs\<close>

definition stop_turn :: "os turn" where
  "stop_turn = \<lparr>tn_stop = True, tn_queue = None, tn_before = 0, tn_now = 0, tn_later = 0, tn_answer = None, tn_os = (\<lambda>_. demo_os)\<rparr>"

theorem server_run_ends_clean_witness:
  "\<exists>e'. ct_run_server toy_backend default_defconfig demo_server True listen_os [stop_turn] demo_os demo_env = Ok (Some 0, e') \<and> 3 \<in> set (we_closed e')"
proof -
  have l: "listen_set_open default_defconfig listen_os (cf_bind_addr demo_server) (cf_bind_port demo_server) = ([3], [])"
    by (simp add: listen_set_open_def open_address_def listen_os_def ct_net_listen_def gai_sock_def lit_def default_defconfig_def demo_server_def demo_config_def)
  have r: "ct_run_server toy_backend default_defconfig demo_server True listen_os [stop_turn] demo_os demo_env =
      Ok (Some 0, server_stop toy_backend default_defconfig demo_os (server_boot default_defconfig [3]) (close_fds [] demo_env))"
    by (simp add: ct_run_server_def l stop_turn_def)
  let ?e = "server_stop toy_backend default_defconfig demo_os (server_boot default_defconfig [3]) (close_fds [] demo_env)"
  from server_run_ends_clean [OF l r] obtain x where "mset (we_closed ?e) = x + mset [3]" by blast
  then have "3 \<in># mset (we_closed ?e)" by simp
  then show ?thesis using r by simp
qed

definition budget_config :: "ct_mode \<Rightarrow> ct_config" where
  "budget_config mode = demo_config\<lparr>cf_mode := mode, cf_bind_port := 7000, cf_server_port := 7000, cf_server_addr := lit ''h'', cf_max_clients := 4,
     cf_authorized_clients_file := lit ''a'', cf_default_data_encryption := CT_ENC_REQUIRED, cf_log_max_size_kib := 1024\<rparr>"

lemma budget_usable: "config_usable default_defconfig (budget_config CT_MODE_SERVER)" "config_usable default_defconfig (budget_config CT_MODE_CLIENT)"
  by (simp_all add: config_usable_def common_ok_def budget_config_def demo_config_def default_defconfig_def lit_def bit_iff_odd)

definition offline_os :: client_os where
  "offline_os = \<lparr>co_now = 7, co_alloc = True, co_work = (\<lambda>_. None), co_work_random = (\<lambda>_. None), co_connect = (\<lambda>_ _. None),
     co_host = (\<lambda>_ _. None), co_udp_socket = (\<lambda>_. (None, False)), co_recvfrom = (\<lambda>_. (False, None)), co_sendto = (\<lambda>_. (False, \<lambda>_. None)),
     co_peek = (\<lambda>_. Inl True), co_queued = (\<lambda>_. None), co_ring = (\<lambda>_. None), co_garbage = [], co_ntop = (\<lambda>_ _. None)\<rparr>"

definition offline_session :: session where
  "offline_session = \<lparr>se_stop_before = False, se_start_os = offline_os, se_fs = (\<lambda>_. None), se_secret = None, se_nonce = None, se_memory = True, se_turns = [],
     se_end_os = offline_os, se_stopping = False, se_stop_return = False, se_stop_after = False, se_random = Some 5\<rparr>"

lemma offline_fails: "client_session toy_backend default_defconfig cfg offline_session e = Ok (Some (-1), close_fds [] e)"
  by (simp add: client_session_def client_start_def offline_session_def offline_os_def ct_net_connect_def gai_sock_def)

text \<open>Two sessions that do not start, then a stop: the second pause has twice the delay of the first.\<close>

theorem client_run_persists_witness:
  "\<exists>e' delta ms. ct_run_client toy_backend default_defconfig True (budget_config CT_MODE_CLIENT)
       [offline_session, offline_session, offline_session\<lparr>se_stop_before := True\<rparr>] demo_env = Ok (Some 0, [reconnect_ms 1 20 5, Some ms], e') \<and>
     \<bar>delta\<bar> \<le> 20 \<and> ms = 20 * (100 + delta)"
proof -
  let ?xs = "[offline_session, offline_session, offline_session\<lparr>se_stop_before := True\<rparr>]" and ?cfg = "budget_config CT_MODE_CLIENT"
  have offline: "\<not> se_stop_before offline_session" "\<not> se_stop_after offline_session" "se_random offline_session = Some 5" "cf_reconnect_initial_delay ?cfg = 1"
    "cf_reconnect_max_delay ?cfg = 60" "cf_reconnect_jitter_percent ?cfg = 20" by (simp_all add: offline_session_def budget_config_def demo_config_def)
  obtain e' where r: "ct_run_client toy_backend default_defconfig True ?cfg ?xs demo_env = Ok (Some 0, [reconnect_ms 1 20 5, reconnect_ms 2 20 5], e')"
    by (simp add: ct_run_client_def offline_fails offline delay_after_def next_delay_def Let_def)
  have codes: "session_codes toy_backend default_defconfig ?cfg ?xs demo_env = [-1, -1]" by (simp add: offline_fails offline)
  have "common_ok default_defconfig ?cfg" using budget_usable(2) by (simp add: config_usable_def)
  note all = client_run_persists [OF this r, unfolded codes, simplified]
  have "backoff ?cfg 1 = 2" by (simp add: backoff_def offline)
  moreover have "min 1 (failed_in_row [-1, -1] 1) = 1" by (simp add: failed_in_row_def)
  ultimately obtain delta where d: "\<bar>delta\<bar> \<le> 20" "reconnect_ms 2 20 5 = Some (20 * (100 + delta))"
    using all [THEN spec, of 1] offline by auto
  show ?thesis using r d by auto
qed

end
