(* ===== verification/Relay_Encrypted.thy ===== *)
theory Relay_Encrypted
  imports Relay
begin

text \<open>
  Encrypted streams of \<open>src/src/net/relay.c\<close>: \<open>encrypt_chunk\<close> on the sending side and \<open>decrypt_ready\<close> on
  the receiving side, as a second instance of the relay contract, and what two relays joined by a work
  connection deliver.
\<close>

section \<open>Encrypted streams\<close>

text \<open>The \<open>i\<close>th record on the wire and the wire form of a list of chunks.\<close>

definition seal :: "monocypher \<Rightarrow> bytes \<Rightarrow> bytes \<Rightarrow> nat \<Rightarrow> bytes \<Rightarrow> bytes" where
  "seal B key base i p =
     (let h = record_header (of_nat (length p + 16)) (of_nat i);
          (c, tag) = aead_lock B key (make_nonce base (of_nat i)) h p
      in h @ c @ tag)"

fun wire :: "monocypher \<Rightarrow> bytes \<Rightarrow> bytes \<Rightarrow> nat \<Rightarrow> bytes list \<Rightarrow> bytes" where
  "wire B key base n [] = []"
| "wire B key base n (p # ps) = seal B key base (Suc n) p @ wire B key base (Suc n) ps"

lemma wire_snoc: "wire B key base n (ps @ [p]) = wire B key base n ps @ seal B key base (Suc (n + length ps)) p"
  by (induction ps arbitrary: n) simp_all

lemma seal_encrypt:
  assumes "ct_aead_encrypt B CT_CIPHER_CHACHA key base (of_nat i) (record_header (of_nat (length p + 16)) (of_nat i)) p = Ok box"
  shows "seal B key base i p = record_header (of_nat (length p + 16)) (of_nat i) @ box"
  using assms by (auto simp: seal_def ct_aead_encrypt_def Let_def ct_cipher_available_def split: prod.splits if_splits)

lemma seq_succ:
  fixes s :: u64
  assumes "unat s = n" "s \<noteq> uint64_max"
  shows "s + 1 = of_nat (Suc n)" "unat (of_nat (Suc n) :: u64) = Suc n"
proof -
  have "unat s \<noteq> unat uint64_max" using assms(2) by (metis word_unat_eq_iff)
  moreover have "unat s < 2 ^ LENGTH(64)" by (rule unsigned_less)
  ultimately have "Suc n < 2 ^ 64" using assms(1) by simp
  then show "unat (of_nat (Suc n) :: u64) = Suc n" by (simp add: unat_of_nat take_bit_nat_eq_self del: of_nat_Suc)
  show "s + 1 = of_nat (Suc n)" using assms(1) by (simp add: assms(1) [symmetric])
qed

definition sends :: "monocypher \<Rightarrow> autoconf \<Rightarrow> bytes \<Rightarrow> ct_relay \<Rightarrow> relay_env \<Rightarrow> bytes list \<Rightarrow> bool" where
  "sends B k up r e cs \<longleftrightarrow>
     sk_out (re_work e) @ ring_contents (rl_to_work r) = wire B (rl_send_key r) (rl_send_nonce r) 0 cs \<and>
     concat cs @ arrives (sk_in (re_direct e)) = up \<and> unat (rl_send_seq r) = length cs \<and> (\<forall>c\<in>set cs. length c \<le> CHUNK k)"

definition receives :: "monocypher \<Rightarrow> autoconf \<Rightarrow> bytes \<Rightarrow> bytes \<Rightarrow> ct_relay \<Rightarrow> relay_env \<Rightarrow> bytes list \<Rightarrow> bool" where
  "receives B k hdr inp r e ps \<longleftrightarrow>
     sk_out (re_direct e) @ ring_contents (rl_to_direct r) = hdr @ concat ps \<and>
     wire B (rl_recv_key r) (rl_recv_nonce r) 0 ps @ ring_contents (rl_work_input r) @ arrives (sk_in (re_work e)) = inp \<and>
     unat (rl_recv_seq r) = length ps \<and> (\<forall>p\<in>set ps. length p \<le> CHUNK k)"

text \<open>The parts of the state that no stage changes, with the hypotheses on the primitives.\<close>

definition sealed_base :: "monocypher \<Rightarrow> autoconf \<Rightarrow> bytes \<times> bytes \<times> bytes \<times> bytes \<Rightarrow> ct_relay \<Rightarrow> bool" where
  "sealed_base B k keys r \<longleftrightarrow> rings_ok k r \<and> k_data_encryption k \<and> rl_encrypted r \<and> rl_cipher r = CT_CIPHER_CHACHA \<and>
     (rl_send_key r, rl_send_nonce r, rl_recv_key r, rl_recv_nonce r) = keys \<and> aead_sizes B \<and> aead_exact B \<and>
     CHUNK k \<le> 2 ^ 31"

definition sealed_link ::
  "monocypher \<Rightarrow> autoconf \<Rightarrow> bool \<Rightarrow> bytes \<times> bytes \<times> bytes \<times> bytes \<Rightarrow> bytes \<Rightarrow> bytes \<Rightarrow> bytes \<Rightarrow> ct_relay \<Rightarrow>
     relay_env \<Rightarrow> bool" where
  "sealed_link B k q keys up hdr inp r e \<longleftrightarrow>
     sealed_base B k keys r \<and> ends_known q k r e \<and> (\<exists>cs. sends B k up r e cs) \<and> (\<exists>ps. receives B k hdr inp r e ps)"

definition sealed_sent ::
  "monocypher \<Rightarrow> autoconf \<Rightarrow> bytes \<times> bytes \<times> bytes \<times> bytes \<Rightarrow> bytes \<Rightarrow> bytes \<Rightarrow> bytes \<Rightarrow> relay_env \<Rightarrow> bool" where
  "sealed_sent B k keys up hdr inp e \<longleftrightarrow> (case keys of (sk, sn, rk, rn) \<Rightarrow>
     (\<exists>cs. prefix (sk_out (re_work e)) (wire B sk sn 0 cs) \<and> prefix (concat cs) up \<and> (\<forall>c\<in>set cs. length c \<le> CHUNK k)) \<and>
     (\<exists>ps. prefix (sk_out (re_direct e)) (hdr @ concat ps) \<and> prefix (wire B rk rn 0 ps) inp \<and> (\<forall>p\<in>set ps. length p \<le> CHUNK k)))"

lemma sealed_link_sent: "sealed_link B k q keys up hdr inp r e \<Longrightarrow> sealed_sent B k keys up hdr inp e"
  by (auto simp: sealed_link_def sealed_base_def sealed_sent_def sends_def receives_def)
    (metis prefixI append.assoc)+

lemma sealed_ok:
  "sealed_link B k q keys up hdr inp r e \<Longrightarrow>
     keeps (sealed_link B k q keys up hdr inp) (sealed_sent B k keys up hdr inp) (Ok (ok, r, e))"
  by (rule keepsI [OF refl sealed_link_sent])

lemma encrypt_chunk_law:
  assumes b: "sealed_base B k keys r" and s: "sends B k up r e0 cs" and p: "p \<noteq> []" "length p \<le> CHUNK k"
  shows "\<exists>ok r' e'. encrypt_chunk B k r e p = Ok (ok, r', e') \<and> re_direct e' = re_direct e \<and> re_work e' = re_work e \<and>
    (ok \<longrightarrow> (\<exists>tw. r' = r\<lparr>rl_send_seq := of_nat (Suc (length cs)), rl_to_work := tw\<rparr> \<and> ring_inv tw \<and>
      unat (rl_send_seq r') = Suc (length cs) \<and>
      ring_contents tw = ring_contents (rl_to_work r) @ seal B (rl_send_key r) (rl_send_nonce r) (Suc (length cs)) p))"
proof (cases "rl_send_seq r = uint64_max")
  case True
  then show ?thesis by (auto simp: encrypt_chunk_def)
next
  case False
  have len: "unat (rl_send_seq r) = length cs" using s by (simp add: sends_def)
  note seq = seq_succ(1) [OF len False] and useq = seq_succ(2) [OF len False]
  let ?h = "record_header (of_nat (length p + 16)) (of_nat (Suc (length cs)))"
  have "CHUNK k \<le> 2 ^ 31" "aead_sizes B" and c: "rl_cipher r = CT_CIPHER_CHACHA" using b by (simp_all add: sealed_base_def)
  with encrypt_ok [of B CT_CIPHER_CHACHA p "rl_send_key r" "rl_send_nonce r" "of_nat (Suc (length cs))" ?h] p obtain box where
    box: "ct_aead_encrypt B CT_CIPHER_CHACHA (rl_send_key r) (rl_send_nonce r) (of_nat (Suc (length cs))) ?h p = Ok box"
      "length box = length p + 16" by (auto simp: ct_cipher_available_def)
  have sl: "seal B (rl_send_key r) (rl_send_nonce r) (Suc (length cs)) p = ?h @ box" using seal_encrypt [OF box(1)] .
  from append_ring_law [of "rl_to_work r" "?h @ box"] b obtain ok tw m where
    a: "append_ring (rl_to_work r) (?h @ box) = Ok (ok, tw)" "ring_inv tw"
      "ring_contents tw = ring_contents (rl_to_work r) @ take m (?h @ box)" "ok \<longrightarrow> m = length (?h @ box)"
    by (auto simp: sealed_base_def rings_ok_def)
  have "emits (12 + CHUNK k + 16) [] [ct_put_u32 (of_nat (length p + 16)), ct_put_u64 (of_nat (Suc (length cs)))] = Ok ?h"
    by (simp add: emits_eq record_header_def)
  moreover have "emit (12 + CHUNK k + 16) ?h box = Ok (?h @ box)" using box(2) p by (simp add: emit_fits)
  ultimately have run: "encrypt_chunk B k r e p = Ok (ok, r\<lparr>rl_send_seq := of_nat (Suc (length cs)), rl_to_work := tw\<rparr>, e)"
    using False box(1) a(1) c by (simp add: encrypt_chunk_def seq del: of_nat_Suc)
  have tw: "ok \<Longrightarrow> ring_contents tw = ring_contents (rl_to_work r) @ ?h @ box" using a(3,4) by simp
  show ?thesis
    by (rule exI, rule exI, rule exI, rule conjI, rule run, intro conjI refl impI exI [of _ tw])
      (simp_all add: a(2) useq sl tw del: of_nat_Suc)
qed

text \<open>One record at the front of the input, opened and checked against what was sealed.\<close>

lemma opened_record:
  assumes B: "aead_exact B" "aead_sizes B" and n: "unat n \<le> CHUNK k + 16" "CHUNK k \<le> 2 ^ 31"
    and box: "length box = unat n" and d: "ct_aead_decrypt B CT_CIPHER_CHACHA key base (of_nat i) (record_header n (of_nat i)) box = Ok plain"
  shows "length plain + 16 = unat n" "seal B key base i plain = record_header n (of_nat i) @ box"
proof -
  let ?h = "record_header n (of_nat i)"
  have "16 \<le> length box" using d by (auto simp: ct_aead_decrypt_def split: if_splits)
  obtain p where unlock: "aead_unlock B key (make_nonce base (of_nat i)) ?h (take (length box - 16) box) (drop (length box - 16) box) = Some plain"
    using d by (auto simp: ct_aead_decrypt_def Let_def split: if_splits option.splits)
  have lock: "aead_lock B key (make_nonce base (of_nat i)) ?h plain = (take (length box - 16) box, drop (length box - 16) box)"
    using B(1) unlock \<open>16 \<le> length box\<close> unfolding aead_exact_def by force
  have "length plain = length box - 16" using B(2) lock unfolding aead_sizes_def by force
  then show *: "length plain + 16 = unat n" using \<open>16 \<le> length box\<close> box by simp
  then have "of_nat (length plain + 16) = n" by simp
  then show "seal B key base i plain = ?h @ box" using lock by (simp add: seal_def Let_def)
qed

definition eofs :: "ct_relay \<Rightarrow> bool \<times> bool" where
  "eofs r = (rl_direct_eof r, rl_work_eof r)"

lemma ends_known_cong:
  "ends_known q k r e \<Longrightarrow> eofs r' = eofs r \<Longrightarrow> re_direct e' = re_direct e \<Longrightarrow> re_work e' = re_work e \<Longrightarrow> ends_known q k r' e'"
  by (simp add: ends_known_def eofs_def)

lemma decrypt_turn_law:
  assumes b: "sealed_base B k keys r" and rc: "receives B k hdr inp r e ps"
  shows "\<exists>c r' e'. decrypt_turn B k r e = Ok (c, r', e') \<and> re_direct e' = re_direct e \<and> re_work e' = re_work e \<and>
    (c \<noteq> Some False \<longrightarrow> sealed_base B k keys r' \<and> (\<exists>ps'. receives B k hdr inp r' e' ps') \<and>
       rl_send_seq r' = rl_send_seq r \<and> rl_to_work r' = rl_to_work r \<and> eofs r' = eofs r)"
proof (cases "ring_len (rl_work_input r) < 12")
  case True
  then show ?thesis using b rc by (auto simp: decrypt_turn_def Let_def)
next
  case False
  let ?wi = "rl_work_input r" and ?td = "rl_to_direct r"
  have inv: "ring_inv ?wi" "ring_inv ?td" and c: "rl_cipher r = CT_CIPHER_CHACHA" and B: "aead_sizes B" "aead_exact B"
    and ck: "CHUNK k \<le> 2 ^ 31" using b by (simp_all add: sealed_base_def rings_ok_def)
  have len: "unat (rl_recv_seq r) = length ps" using rc by (simp add: receives_def)
  obtain wi1 where w1: "ct_ring_read ?wi 12 = Ok (take 12 (ring_contents ?wi), wi1)" "ring_inv wi1"
    "ring_contents wi1 = drop 12 (ring_contents ?wi)" using rg.get_law [OF inv(1), of 12] by blast
  have "length (take 12 (ring_contents ?wi)) = 12" using False by simp
  from record_header_of_bytes [OF this] obtain n seq where h: "take 12 (ring_contents ?wi) = record_header n seq" by blast
  show ?thesis
  proof (cases "16 \<le> unat n \<and> unat n \<le> CHUNK k + 16 \<and> rl_recv_seq r \<noteq> uint64_max \<and> seq = rl_recv_seq r + 1")
    case bad: False
    have "ct_data_record_header_decode (record_header n seq) (CHUNK k) (rl_recv_seq r) = Err"
      using bad unfolding record_header_decode_eq by auto
    then show ?thesis using False w1(1) by (simp add: decrypt_turn_def Let_def h meter_def)
  next
    case good: True
    have dec: "ct_data_record_header_decode (record_header n seq) (CHUNK k) (rl_recv_seq r) = Ok (n, seq)"
      using good ck unfolding record_header_decode_eq by auto
    have seq: "seq = of_nat (Suc (length ps))" and useq: "unat seq = Suc (length ps)"
      using good seq_succ [OF len] by (simp_all del: of_nat_Suc)
    show ?thesis
    proof (cases "ring_len ?wi < 12 + unat n \<or> ring_cap ?td - ring_len ?td < unat n - CT_RECORD_TAG_SIZE")
      case True
      then show ?thesis using False w1(1) dec b rc by (auto simp: decrypt_turn_def Let_def h)
    next
      case room: False
      obtain wi2 where w2: "ct_ring_read wi1 (unat n) = Ok (take (unat n) (ring_contents wi1), wi2)" "ring_inv wi2"
        "ring_contents wi2 = drop (unat n) (ring_contents wi1)" using rg.get_law [OF w1(2), of "unat n"] by blast
      define box where "box = take (unat n) (ring_contents wi1)"
      have box: "length box = unat n" using room w1(3) by (auto simp: box_def)
      have split: "ring_contents ?wi = record_header n seq @ box @ ring_contents wi2"
        using h w1(3) w2(3) by (metis append_take_drop_id box_def)
      show ?thesis
      proof (cases "ct_aead_decrypt B CT_CIPHER_CHACHA (rl_recv_key r) (rl_recv_nonce r) seq (record_header n seq) box")
        case (Ok plain)
        note op = opened_record [OF B(2,1) _ ck box Ok [unfolded seq]]
        have pl: "length plain + 16 = unat n" "seal B (rl_recv_key r) (rl_recv_nonce r) (Suc (length ps)) plain = record_header n seq @ box"
          using op good by (simp_all add: seq)
        from append_ring_law [OF inv(2), of plain] obtain ok td m where
          a: "append_ring ?td plain = Ok (ok, td)" "ring_inv td \<and> ring_cap td = ring_cap ?td" "ok \<longleftrightarrow> ring_len ?td + length plain \<le> ring_cap ?td"
            "ring_contents td = ring_contents ?td @ take m plain" "ok \<longrightarrow> m = length plain" by blast
        have ok: "ok" using a(3) room pl(1) inv(2) by (auto simp: ring_inv_def proto_defs)
        let ?r = "r\<lparr>rl_work_input := wi2, rl_to_direct := td, rl_recv_seq := seq\<rparr>"
        have "decrypt_turn B k r e = Ok (None, ?r, e)"
          using False w1(1) w2(1) dec room Ok box pl(1) good a(1) ok c by (simp add: decrypt_turn_def Let_def h box_def [symmetric])
        moreover have "sealed_base B k keys ?r" using b a(2) w2(2) by (simp add: sealed_base_def rings_ok_def)
        moreover have "receives B k hdr inp ?r e (ps @ [plain])"
          unfolding receives_def
        proof (intro conjI)
          have td: "ring_contents td = ring_contents ?td @ plain" using a(4,5) ok by simp
          have "sk_out (re_direct e) @ ring_contents ?td = hdr @ concat ps" using rc by (simp add: receives_def)
          then have "(sk_out (re_direct e) @ ring_contents ?td) @ plain = (hdr @ concat ps) @ plain" by simp
          then show "sk_out (re_direct e) @ ring_contents (rl_to_direct ?r) = hdr @ concat (ps @ [plain])" using td by simp
          show "wire B (rl_recv_key ?r) (rl_recv_nonce ?r) 0 (ps @ [plain]) @ ring_contents (rl_work_input ?r) @
              arrives (sk_in (re_work e)) = inp"
            using rc split pl(2) by (simp add: receives_def wire_snoc)
        qed (use rc pl(1) good useq in \<open>auto simp: receives_def\<close>)
        ultimately show ?thesis by (auto simp: eofs_def)
      next
        case Err
        then show ?thesis using False w1(1) w2(1) dec room box good c
          by (simp add: decrypt_turn_def Let_def h box_def [symmetric] meter_def)
      qed simp
    qed
  qed
qed

lemma decrypt_ready_law:
  assumes "sealed_base B k keys r" "receives B k hdr inp r e ps"
  shows "\<exists>ok r' e'. decrypt_ready B k r e = Ok (ok, r', e') \<and> re_direct e' = re_direct e \<and> re_work e' = re_work e \<and>
    (ok \<longrightarrow> sealed_base B k keys r' \<and> (\<exists>ps'. receives B k hdr inp r' e' ps') \<and>
       rl_send_seq r' = rl_send_seq r \<and> rl_to_work r' = rl_to_work r \<and> eofs r' = eofs r)"
  using assms
proof (induction B k r e arbitrary: ps rule: decrypt_ready.induct)
  case (1 B k r e)
  from decrypt_turn_law [OF "1.prems"] obtain c r1 e1 where
    t: "decrypt_turn B k r e = Ok (c, r1, e1)" "re_direct e1 = re_direct e" "re_work e1 = re_work e"
      "c \<noteq> Some False \<longrightarrow> sealed_base B k keys r1 \<and> (\<exists>ps'. receives B k hdr inp r1 e1 ps') \<and>
         rl_send_seq r1 = rl_send_seq r \<and> rl_to_work r1 = rl_to_work r \<and> eofs r1 = eofs r" by blast
  show ?case
  proof (cases c)
    case None
    with t(4) obtain ps1 where "sealed_base B k keys r1" "receives B k hdr inp r1 e1 ps1" by blast
    from "1.IH" [OF t(1) _ None _ this] obtain ok r' e' where
      "decrypt_ready B k r1 e1 = Ok (ok, r', e')" "re_direct e' = re_direct e1" "re_work e' = re_work e1"
      "ok \<longrightarrow> sealed_base B k keys r' \<and> (\<exists>ps'. receives B k hdr inp r' e' ps') \<and>
         rl_send_seq r' = rl_send_seq r1 \<and> rl_to_work r' = rl_to_work r1 \<and> eofs r' = eofs r1" by auto
    then show ?thesis using t None by (subst decrypt_ready.simps) auto
  next
    case (Some ok)
    then show ?thesis using t by (subst decrypt_ready.simps) auto
  qed
qed

lemma sends_cong:
  assumes "sends B k up r e cs" "re_direct e' = re_direct e" "re_work e' = re_work e" "rl_to_work r' = rl_to_work r"
    "rl_send_seq r' = rl_send_seq r" "rl_send_key r' = rl_send_key r" "rl_send_nonce r' = rl_send_nonce r"
  shows "sends B k up r' e' cs"
  using assms by (simp add: sends_def)

lemma receives_cong:
  assumes "receives B k hdr inp r e ps" "re_direct e' = re_direct e" "re_work e' = re_work e"
    "rl_to_direct r' = rl_to_direct r" "rl_work_input r' = rl_work_input r" "rl_recv_seq r' = rl_recv_seq r"
    "rl_recv_key r' = rl_recv_key r" "rl_recv_nonce r' = rl_recv_nonce r"
  shows "receives B k hdr inp r' e' ps"
  using assms by (simp add: receives_def)

lemma sealed_keys: "sealed_base B k keys r \<Longrightarrow> sealed_base B k keys r' \<Longrightarrow>
    rl_send_key r' = rl_send_key r \<and> rl_send_nonce r' = rl_send_nonce r \<and>
    rl_recv_key r' = rl_recv_key r \<and> rl_recv_nonce r' = rl_recv_nonce r"
  by (auto simp: sealed_base_def)

lemma sealed_sent_cong:
  "sealed_sent B k keys up hdr inp e \<Longrightarrow> re_direct e' = re_direct e \<Longrightarrow> re_work e' = re_work e \<Longrightarrow>
     sealed_sent B k keys up hdr inp e'"
  by (simp add: sealed_sent_def)

lemma sealed_flush:
  assumes I: "sealed_link B k q keys up hdr inp r e"
  shows "keeps (sealed_link B k q keys up hdr inp) (sealed_sent B k keys up hdr inp) (flush_relay d r e)"
proof -
  from I obtain cs ps where b: "sealed_base B k keys r" and s: "sends B k up r e cs" and rc: "receives B k hdr inp r e ps"
    and ek: "ends_known q k r e" by (auto simp: sealed_link_def)
  then have "rings_ok k r" by (simp add: sealed_base_def)
  from flush_relay_law [OF this, of d e] obtain ok r' e' where
    f: "flush_relay d r e = Ok (ok, r', e')" "rings_ok k r'" "core r' = core r"
      "sk_out (re_work e') @ ring_contents (rl_to_work r') = sk_out (re_work e) @ ring_contents (rl_to_work r)"
      "sk_out (re_direct e') @ ring_contents (rl_to_direct r') = sk_out (re_direct e) @ ring_contents (rl_to_direct r)"
      "sk_in (re_direct e') = sk_in (re_direct e)" "sk_in (re_work e') = sk_in (re_work e)" by blast
  have c: "rl_encrypted r' = rl_encrypted r" "rl_cipher r' = rl_cipher r" "rl_send_key r' = rl_send_key r"
    "rl_recv_key r' = rl_recv_key r" "rl_send_nonce r' = rl_send_nonce r" "rl_recv_nonce r' = rl_recv_nonce r"
    "rl_send_seq r' = rl_send_seq r" "rl_recv_seq r' = rl_recv_seq r" "rl_work_input r' = rl_work_input r"
    using f(3) by (simp_all add: core_def)
  have "sealed_base B k keys r'" using b f(2) by (simp only: sealed_base_def c)
  moreover have "sends B k up r' e' cs" using s unfolding sends_def c f(4,6) by assumption
  moreover have "receives B k hdr inp r' e' ps" using rc unfolding receives_def c f(5,7) by assumption
  moreover have "ends_known q k r' e'" using ek f(3,6,7) by (simp add: ends_known_def core_def)
  ultimately have "sealed_link B k q keys up hdr inp r' e'" by (auto simp: sealed_link_def)
  from sealed_ok [OF this] show ?thesis unfolding f(1) .
qed

lemma sealed_decrypt:
  assumes I: "sealed_link B k q keys up hdr inp r e"
  shows "keeps (sealed_link B k q keys up hdr inp) (sealed_sent B k keys up hdr inp) (decrypt_ready B k r e)"
proof -
  from I obtain cs ps where b: "sealed_base B k keys r" and s: "sends B k up r e cs" and rc: "receives B k hdr inp r e ps"
    and ek: "ends_known q k r e" by (auto simp: sealed_link_def)
  from decrypt_ready_law [OF b rc] obtain ok r' e' where d: "decrypt_ready B k r e = Ok (ok, r', e')"
    "re_direct e' = re_direct e" "re_work e' = re_work e"
    "ok \<longrightarrow> sealed_base B k keys r' \<and> (\<exists>ps'. receives B k hdr inp r' e' ps') \<and>
       rl_send_seq r' = rl_send_seq r \<and> rl_to_work r' = rl_to_work r \<and> eofs r' = eofs r" by blast
  have "ok \<Longrightarrow> sealed_link B k q keys up hdr inp r' e'"
    using d sends_cong [OF s d(2,3), of r'] sealed_keys [OF b, of r'] ends_known_cong [OF ek _ d(2,3), of r']
    by (auto simp: sealed_link_def)
  moreover have "sealed_sent B k keys up hdr inp e'" using sealed_sent_cong [OF sealed_link_sent [OF I] d(2,3)] .
  ultimately show ?thesis using d(1) by (intro keepsI)
qed

lemma sealed_read_direct:
  assumes I: "sealed_link B k q keys up hdr inp r e"
  shows "keeps (sealed_link B k q keys up hdr inp) (sealed_sent B k keys up hdr inp) (read_direct B k r e)"
proof -
  from I obtain cs ps where b: "sealed_base B k keys r" and s: "sends B k up r e cs" and rc: "receives B k hdr inp r e ps"
    and ek: "ends_known q k r e" by (auto simp: sealed_link_def)
  obtain z s' where z: "recv_once (re_direct e) (CHUNK k) = (z, s')" by fastforce
  note law = recv_once_law [OF z]
  have enc: "k_data_encryption k \<and> rl_encrypted r" using b by (simp add: sealed_base_def)
  have ek': "ends_known q k (r\<lparr>rl_direct_eof := x\<rparr>) (e\<lparr>re_direct := s'\<rparr>)" if "x \<Longrightarrow> z = Inr [] \<or> rl_direct_eof r" for x
    using ek that steady_recv [OF z] by (auto simp: ends_known_def)
  have idle: "sealed_link B k q keys up hdr inp (r\<lparr>rl_direct_eof := x\<rparr>) (e\<lparr>re_direct := s'\<rparr>)"
    if "arrives (sk_in s') = arrives (sk_in (re_direct e))" "x \<Longrightarrow> z = Inr [] \<or> rl_direct_eof r" for x
  proof -
    have "sealed_base B k keys (r\<lparr>rl_direct_eof := x\<rparr>)" "sends B k up (r\<lparr>rl_direct_eof := x\<rparr>) (e\<lparr>re_direct := s'\<rparr>) cs"
      "receives B k hdr inp (r\<lparr>rl_direct_eof := x\<rparr>) (e\<lparr>re_direct := s'\<rparr>) ps"
      "ends_known q k (r\<lparr>rl_direct_eof := x\<rparr>) (e\<lparr>re_direct := s'\<rparr>)"
      using b s rc law that(1) ek' [of x] that(2) by (simp_all add: sealed_base_def rings_ok_def sends_def receives_def)
    then show ?thesis by (auto simp: sealed_link_def)
  qed
  show ?thesis
  proof (cases z)
    case (Inl w)
    have "sealed_link B k q keys up hdr inp r (e\<lparr>re_direct := s'\<rparr>)" using idle [of "rl_direct_eof r"] law Inl by simp
    from sealed_ok [OF this] show ?thesis using z Inl by (simp add: read_direct_def)
  next
    case (Inr w)
    show ?thesis
    proof (cases "w = []")
      case True
      have "sealed_link B k q keys up hdr inp (r\<lparr>rl_direct_eof := True\<rparr>) (e\<lparr>re_direct := s'\<rparr>)" using idle [of True] law Inr True by simp
      from sealed_ok [OF this] show ?thesis using z Inr True by (simp add: read_direct_def)
    next
      case False
      let ?e = "meter (metric_bytes r True (length w)) (e\<lparr>re_direct := s'\<rparr>)"
      have w: "length w \<le> CHUNK k" "arrives (sk_in (re_direct e)) = w @ arrives (sk_in s')" using law Inr by simp_all
      from encrypt_chunk_law [OF b s False w(1), of ?e] obtain ok r' e' where
        c: "encrypt_chunk B k r ?e w = Ok (ok, r', e')" "re_direct e' = s'" "re_work e' = re_work e"
          "ok \<longrightarrow> (\<exists>tw. r' = r\<lparr>rl_send_seq := of_nat (Suc (length cs)), rl_to_work := tw\<rparr> \<and> ring_inv tw \<and>
            unat (rl_send_seq r') = Suc (length cs) \<and> ring_contents tw = ring_contents (rl_to_work r) @
              seal B (rl_send_key r) (rl_send_nonce r) (Suc (length cs)) w)" by (auto simp: meter_def)
      have run: "read_direct B k r e = Ok (ok, r', e')" using z Inr False enc c(1) by (simp add: read_direct_def Let_def)
      have sent: "sealed_sent B k keys up hdr inp e'"
        using sealed_link_sent [OF I] law c(2,3) by (simp add: sealed_sent_def)
      have "sealed_link B k q keys up hdr inp r' e'" if ok
      proof -
        from c(4) that obtain tw where tw: "r' = r\<lparr>rl_send_seq := of_nat (Suc (length cs)), rl_to_work := tw\<rparr>" "ring_inv tw"
          "unat (rl_send_seq r') = Suc (length cs)"
          "ring_contents tw = ring_contents (rl_to_work r) @ seal B (rl_send_key r) (rl_send_nonce r) (Suc (length cs)) w" by blast
        have "sk_out (re_work e) @ ring_contents (rl_to_work r) = wire B (rl_send_key r) (rl_send_nonce r) 0 cs"
          using s by (simp add: sends_def)
        then have "sk_out (re_work e) @ ring_contents tw = wire B (rl_send_key r) (rl_send_nonce r) 0 (cs @ [w])"
          by (simp add: tw(4) wire_snoc flip: append.assoc)
        then have "sends B k up r' e' (cs @ [w])"
          using s tw(1,3) w c(2,3) by (auto simp: sends_def simp del: of_nat_Suc)
        moreover have "receives B k hdr inp r' e' ps" using rc tw(1) c(2,3) law by (simp add: receives_def)
        moreover have "ends_known q k r' e'" using ek' [of "rl_direct_eof r"] tw(1) c(2,3) by (simp add: ends_known_def)
        moreover have "sealed_base B k keys r'" using b tw(1,2) by (simp add: sealed_base_def rings_ok_def)
        ultimately show ?thesis by (auto simp: sealed_link_def)
      qed
      with run sent show ?thesis by (intro keepsI)
    qed
  qed
qed

lemma sealed_read_work:
  assumes I: "sealed_link B k q keys up hdr inp r e"
  shows "keeps (sealed_link B k q keys up hdr inp) (sealed_sent B k keys up hdr inp) (read_work B k r e)"
proof -
  from I obtain cs ps where b: "sealed_base B k keys r" and s: "sends B k up r e cs" and rc: "receives B k hdr inp r e ps"
    and ek: "ends_known q k r e" by (auto simp: sealed_link_def)
  obtain z s' where z: "recv_once (re_work e) (CHUNK k + 32) = (z, s')" by fastforce
  note law = recv_once_law [OF z]
  have enc: "k_data_encryption k \<and> rl_encrypted r" using b by (simp add: sealed_base_def)
  have ek': "ends_known q k (r\<lparr>rl_work_eof := x\<rparr>) (e\<lparr>re_work := s'\<rparr>)" if "x \<Longrightarrow> z = Inr [] \<or> rl_work_eof r" for x
    using ek that steady_recv [OF z] by (auto simp: ends_known_def)
  have idle: "sealed_link B k q keys up hdr inp (r\<lparr>rl_work_eof := x\<rparr>) (e\<lparr>re_work := s'\<rparr>)"
    if "arrives (sk_in s') = arrives (sk_in (re_work e))" "x \<Longrightarrow> z = Inr [] \<or> rl_work_eof r" for x
  proof -
    have "sealed_base B k keys (r\<lparr>rl_work_eof := x\<rparr>)" "sends B k up (r\<lparr>rl_work_eof := x\<rparr>) (e\<lparr>re_work := s'\<rparr>) cs"
      "receives B k hdr inp (r\<lparr>rl_work_eof := x\<rparr>) (e\<lparr>re_work := s'\<rparr>) ps"
      "ends_known q k (r\<lparr>rl_work_eof := x\<rparr>) (e\<lparr>re_work := s'\<rparr>)"
      using b s rc law that(1) ek' [of x] that(2) by (simp_all add: sealed_base_def rings_ok_def sends_def receives_def)
    then show ?thesis by (auto simp: sealed_link_def)
  qed
  show ?thesis
  proof (cases z)
    case (Inl w)
    have "sealed_link B k q keys up hdr inp r (e\<lparr>re_work := s'\<rparr>)" using idle [of "rl_work_eof r"] law Inl by simp
    from sealed_ok [OF this] show ?thesis using z Inl by (simp add: read_work_def)
  next
    case (Inr w)
    show ?thesis
    proof (cases "w = []")
      case True
      have "sealed_link B k q keys up hdr inp (r\<lparr>rl_work_eof := True\<rparr>) (e\<lparr>re_work := s'\<rparr>)" using idle [of True] law Inr True by simp
      from sealed_ok [OF this] show ?thesis using z Inr True by (simp add: read_work_def)
    next
      case False
      let ?e = "meter (metric_bytes r False (length w)) (e\<lparr>re_work := s'\<rparr>)"
      have w: "arrives (sk_in (re_work e)) = w @ arrives (sk_in s')" using law Inr by simp
      from append_ring_law [of "rl_work_input r" w] b obtain ok wi m where
        a: "append_ring (rl_work_input r) w = Ok (ok, wi)" "ring_inv wi" "ring_contents wi = ring_contents (rl_work_input r) @ take m w"
          "ok \<longrightarrow> m = length w" by (auto simp: sealed_base_def rings_ok_def)
      have sent: "sealed_sent B k keys up hdr inp ?e"
        using sealed_link_sent [OF I] law by (simp add: sealed_sent_def meter_def)
      show ?thesis
      proof (cases ok)
        case True
        let ?r = "r\<lparr>rl_work_input := wi\<rparr>"
        have "sealed_base B k keys ?r" "sends B k up ?r ?e cs" "receives B k hdr inp ?r ?e ps" "ends_known q k ?r ?e"
          using b s rc a True w law ek' [of "rl_work_eof r"] by (simp_all add: ends_known_def sealed_base_def rings_ok_def sends_def receives_def meter_def)
        then have "sealed_link B k q keys up hdr inp ?r ?e" by (auto simp: sealed_link_def)
        from sealed_decrypt [OF this] show ?thesis using z Inr False enc a(1) True by (simp add: read_work_def Let_def)
      next
        case nok: False
        have "read_work B k r e = Ok (False, r\<lparr>rl_work_input := wi\<rparr>, ?e)"
          using z Inr False enc a(1) nok by (simp add: read_work_def Let_def)
        with sent show ?thesis by (auto simp: keeps_def)
      qed
    qed
  qed
qed

interpretation sealed: relay_contract B k "sealed_link B k q keys up hdr inp" "sealed_sent B k keys up hdr inp"
  for B k q keys up hdr inp
proof
  show "sealed_link B k q keys up hdr inp (r\<lparr>rl_accounted_buffer_bytes := n\<rparr>) (e\<lparr>re_metrics := g\<rparr>)"
    if "sealed_link B k q keys up hdr inp r e" for r e n g
    using that by (simp add: sealed_link_def sealed_base_def rings_ok_def sends_def receives_def ends_known_def)
  show "sealed_link B k q keys up hdr inp r (e\<lparr>re_effects := x\<rparr>)" if "sealed_link B k q keys up hdr inp r e" for r e x
    using that by (simp add: sealed_link_def sends_def receives_def ends_known_def)
  show "\<not> rl_closed r" if "sealed_link B k q keys up hdr inp r e" for r e
    using that by (simp add: sealed_link_def sealed_base_def rings_ok_def)
qed (fact sealed_link_sent sealed_sent_cong sealed_flush sealed_read_direct sealed_read_work | erule sealed_decrypt)+

section \<open>End to end\<close>

lemma record_header_inj: "record_header a i = record_header b j \<longleftrightarrow> a = b \<and> i = j"
  by (simp add: record_header_def append_eq_same_length)

lemma of_nat_u32_inj: "a \<le> 2 ^ 31 \<Longrightarrow> b \<le> 2 ^ 31 \<Longrightarrow> (of_nat a :: u32) + 16 = of_nat b + 16 \<Longrightarrow> a = b"
proof -
  assume "a \<le> 2 ^ 31" "b \<le> 2 ^ 31" "(of_nat a :: u32) + 16 = of_nat b + 16"
  then have "unat (of_nat a :: u32) = unat (of_nat b :: u32)" "a < 2 ^ 32" "b < 2 ^ 32" by simp_all
  then show ?thesis by (simp add: unat_of_nat take_bit_nat_eq_self)
qed

lemma length_seal: "aead_sizes B \<Longrightarrow> length (seal B key base i p) = 28 + length p"
  by (cases "aead_lock B key (make_nonce base (of_nat i)) (record_header (of_nat (length p + 16)) (of_nat i)) p")
    (auto simp: seal_def Let_def aead_sizes_def)

lemma seal_inj:
  assumes B: "aead_sizes B" "aead_opens B" and len: "length p \<le> 2 ^ 31" "length c \<le> 2 ^ 31"
    and pre: "prefix (seal B key base i p @ x) (seal B key base i c @ y)"
  shows "p = c \<and> prefix x y"
proof -
  have h: "take 12 (seal B key base i q) = record_header (of_nat (length q + 16)) (of_nat i)" for q
    by (simp add: seal_def Let_def split: prod.splits)
  from pre obtain z where z: "seal B key base i c @ y = seal B key base i p @ x @ z" by (auto simp: prefix_def)
  have "take 12 (seal B key base i c @ y) = take 12 (seal B key base i c)"
    "take 12 (seal B key base i p @ x @ z) = take 12 (seal B key base i p)" by (simp_all add: length_seal [OF B(1)])
  then have "take 12 (seal B key base i c) = take 12 (seal B key base i p)" unfolding z by simp
  then have "length p = length c" using len of_nat_u32_inj [of "length p" "length c"] by (simp add: h record_header_inj)
  moreover from this have "seal B key base i c = seal B key base i p" "y = x @ z"
    using z by (simp_all add: append_eq_append_conv length_seal [OF B(1)])
  moreover have "p = c"
  proof -
    let ?h = "record_header (of_nat (length p + 16)) (of_nat i)" and ?n = "make_nonce base (of_nat i)"
    obtain u v u' v' where l: "aead_lock B key ?n ?h p = (u, v)" "aead_lock B key ?n ?h c = (u', v')" by fastforce
    then have "u @ v = u' @ v'" "length u = length u'"
      using calculation B(1) by (auto simp: seal_def aead_sizes_def)
    then have "aead_lock B key ?n ?h p = aead_lock B key ?n ?h c" using l by simp
    then show ?thesis using B(2) l unfolding aead_opens_def by (metis option.inject)
  qed
  ultimately show ?thesis by simp
qed

lemma wire_inj:
  assumes B: "aead_sizes B" "aead_opens B"
  shows "prefix (wire B key base n ps) (wire B key base n cs) \<Longrightarrow> \<forall>p\<in>set ps. length p \<le> 2 ^ 31 \<Longrightarrow>
    \<forall>c\<in>set cs. length c \<le> 2 ^ 31 \<Longrightarrow> prefix ps cs"
proof (induction ps arbitrary: n cs)
  case (Cons p ps)
  have "cs \<noteq> []" using Cons.prems(1) length_seal [OF B(1), of key base "Suc n" p] by (auto simp: prefix_def)
  then obtain c cs' where cs: "cs = c # cs'" by (cases cs) auto
  have "p = c \<and> prefix (wire B key base (Suc n) ps) (wire B key base (Suc n) cs')"
    using Cons.prems by (intro seal_inj [OF B]) (simp_all add: cs)
  then show ?case using Cons.IH [of "Suc n" cs'] Cons.prems by (simp add: cs)
qed simp

lemma concat_prefix: "prefix ps cs \<Longrightarrow> prefix (concat ps) (concat cs)"
  by (auto simp: prefix_def)

definition fresh_sender :: "ct_relay \<Rightarrow> relay_env \<Rightarrow> bool" where
  "fresh_sender r e \<longleftrightarrow> rl_send_seq r = 0 \<and> ring_len (rl_to_work r) = 0 \<and> sk_out (re_work e) = []"

definition fresh_receiver :: "ct_relay \<Rightarrow> bool" where
  "fresh_receiver r \<longleftrightarrow> rl_recv_seq r = 0 \<and> ring_len (rl_work_input r) = 0"

lemma sealed_start:
  assumes "sealed_base B k keys r" "fresh_sender r e" "fresh_receiver r" "ends_known q k r e"
  shows "sealed_link B k q keys (arrives (sk_in (re_direct e))) (sk_out (re_direct e) @ ring_contents (rl_to_direct r))
    (arrives (sk_in (re_work e))) r e"
proof -
  have "ring_contents (rl_to_work r) = []" "ring_contents (rl_work_input r) = []"
    using assms(2,3) by (simp_all add: fresh_sender_def fresh_receiver_def flip: length_0_conv)
  then have "sends B k (arrives (sk_in (re_direct e))) r e []"
    "receives B k (sk_out (re_direct e) @ ring_contents (rl_to_direct r)) (arrives (sk_in (re_work e))) r e []"
    using assms(2,3) by (simp_all add: sends_def receives_def fresh_sender_def fresh_receiver_def)
  then show ?thesis using assms(1,4) by (auto simp: sealed_link_def)
qed

lemma ends_unknown: "ends_known False k r e"
  by (simp add: ends_known_def)

lemma sealed_end_to_end:
  assumes A: "sealed_base B k keys r" "fresh_sender r e" "fresh_receiver r"
    and S: "sealed_base B k' keys' s" "fresh_sender s t" "fresh_receiver s"
    and keys: "rl_recv_key s = rl_send_key r" "rl_recv_nonce s = rl_send_nonce r"
    and B: "aead_opens B"
    and runA: "relay_run B k evs r e = Ok (r', e')"
    and carried: "prefix (arrives (sk_in (re_work t))) (sk_out (re_work e'))"
  shows "\<exists>s' t'. relay_run B k' evs' s t = Ok (s', t') \<and>
    prefix (sk_out (re_direct t')) (sk_out (re_direct t) @ ring_contents (rl_to_direct s) @ arrives (sk_in (re_direct e)))"
proof -
  have kA: "keys = (rl_send_key r, rl_send_nonce r, rl_recv_key r, rl_recv_nonce r)" "CHUNK k \<le> 2 ^ 31" "aead_sizes B"
    and kS: "keys' = (rl_send_key s, rl_send_nonce s, rl_recv_key s, rl_recv_nonce s)" "CHUNK k' \<le> 2 ^ 31"
    using A(1) S(1) by (auto simp: sealed_base_def)
  let ?up = "arrives (sk_in (re_direct e))" and ?hdr = "sk_out (re_direct t) @ ring_contents (rl_to_direct s)"
  obtain r2 e2 where "relay_run B k evs r e = Ok (r2, e2)"
    "sealed_sent B k keys ?up (sk_out (re_direct e) @ ring_contents (rl_to_direct r)) (arrives (sk_in (re_work e))) e2"
    using sealed.run_keeps [OF sealed_start [OF A ends_unknown], of evs] by blast
  with runA have "sealed_sent B k keys ?up (sk_out (re_direct e) @ ring_contents (rl_to_direct r)) (arrives (sk_in (re_work e))) e'"
    by simp
  then obtain cs where
    cs: "prefix (sk_out (re_work e')) (wire B (rl_send_key r) (rl_send_nonce r) 0 cs)"
      "prefix (concat cs) (arrives (sk_in (re_direct e)))" "\<forall>c\<in>set cs. length c \<le> CHUNK k"
    unfolding sealed_sent_def kA(1) prod.case by blast
  obtain s' t' where run: "relay_run B k' evs' s t = Ok (s', t')"
    "sealed_sent B k' keys' (arrives (sk_in (re_direct t))) ?hdr (arrives (sk_in (re_work t))) t'"
    using sealed.run_keeps [OF sealed_start [OF S ends_unknown], of evs'] by blast
  from run(2) obtain ps where
    ps: "prefix (sk_out (re_direct t')) ((sk_out (re_direct t) @ ring_contents (rl_to_direct s)) @ concat ps)"
      "prefix (wire B (rl_send_key r) (rl_send_nonce r) 0 ps) (arrives (sk_in (re_work t)))" "\<forall>p\<in>set ps. length p \<le> CHUNK k'"
    unfolding sealed_sent_def kS(1) prod.case keys by blast
  have "prefix (wire B (rl_send_key r) (rl_send_nonce r) 0 ps) (wire B (rl_send_key r) (rl_send_nonce r) 0 cs)"
    using ps(2) carried cs(1) by (meson prefix_order.trans)
  then have "prefix ps cs" by (rule wire_inj [OF kA(3) B]) (use ps(3) cs(3) kA(2) kS(2) in \<open>auto intro: order_trans\<close>)
  from prefix_order.trans [OF concat_prefix [OF this] cs(2)]
  have "prefix ((sk_out (re_direct t) @ ring_contents (rl_to_direct s)) @ concat ps)
      ((sk_out (re_direct t) @ ring_contents (rl_to_direct s)) @ arrives (sk_in (re_direct e)))" by simp
  from prefix_order.trans [OF ps(1) this] run(1) show ?thesis by (simp only: append.assoc) blast
qed

section \<open>Nothing is left behind\<close>

text \<open>
  After every event the input ring holds no record that could be opened: either the next record is
  incomplete, or malformed, or the output ring has no room for it.
\<close>

definition no_record :: "autoconf \<Rightarrow> ct_ring \<Rightarrow> ct_ring \<Rightarrow> u64 \<Rightarrow> bool" where
  "no_record k wi td previous \<longleftrightarrow> ring_len wi < 12 \<or>
     (\<forall>n seq. ct_data_record_header_decode (take 12 (ring_contents wi)) (CHUNK k) previous = Ok (n, seq) \<longrightarrow>
        ring_len wi < 12 + unat n \<or> ring_cap td - ring_len td < unat n - CT_RECORD_TAG_SIZE)"

definition drained :: "autoconf \<Rightarrow> ct_relay \<Rightarrow> bool" where
  "drained k r \<longleftrightarrow> no_record k (rl_work_input r) (rl_to_direct r) (rl_recv_seq r)"

lemma drained_cong:
  "drained k r \<Longrightarrow> rl_work_input r' = rl_work_input r \<Longrightarrow> rl_to_direct r' = rl_to_direct r \<Longrightarrow>
     rl_recv_seq r' = rl_recv_seq r \<Longrightarrow> drained k r'"
  by (simp add: drained_def)

lemma turn_drained:
  assumes "ring_inv (rl_work_input r)" "decrypt_turn B k r e = Ok (Some True, r', e')"
  shows "drained k r'"
proof -
  obtain wi where w: "ct_ring_read (rl_work_input r) 12 = Ok (take 12 (ring_contents (rl_work_input r)), wi)"
    using rg.get_law [OF assms(1), of 12] by blast
  show ?thesis using assms(2) w
    by (auto simp: decrypt_turn_def Let_def drained_def no_record_def res_simps case_Ok_iff)
qed

lemma ready_drained:
  assumes "sealed_base B k keys r" "receives B k hdr inp r e ps" "decrypt_ready B k r e = Ok (True, r', e')"
  shows "drained k r'"
  using assms
proof (induction B k r e arbitrary: ps rule: decrypt_ready.induct)
  case (1 B k r e)
  from decrypt_turn_law [OF "1.prems"(1,2)] obtain c r1 e1 where
    t: "decrypt_turn B k r e = Ok (c, r1, e1)"
      "c \<noteq> Some False \<longrightarrow> sealed_base B k keys r1 \<and> (\<exists>ps'. receives B k hdr inp r1 e1 ps')" by blast
  have inv: "ring_inv (rl_work_input r)" using "1.prems"(1) by (simp add: sealed_base_def rings_ok_def)
  show ?case
  proof (cases c)
    case None
    with t(2) obtain ps1 where "sealed_base B k keys r1" "receives B k hdr inp r1 e1 ps1" by blast
    from "1.IH" [OF t(1) _ None _ this] show ?thesis using "1.prems"(3) t(1) None
      by (subst (asm) decrypt_ready.simps) simp
  next
    case (Some ok)
    with "1.prems"(3) t(1) turn_drained [OF inv, of B k e r1 e1] show ?thesis by (subst (asm) decrypt_ready.simps) simp
  qed
qed

lemma sync_drained: "sync_buffer_metric k r e = (r', e') \<Longrightarrow> drained k r' = drained k r"
  by (auto simp: sync_buffer_metric_def Let_def drained_def)

lemma flush_work_frame:
  "flush_relay False r e = Ok (ok, r', e') \<Longrightarrow> rl_work_input r' = rl_work_input r \<and> rl_to_direct r' = rl_to_direct r \<and>
     rl_recv_seq r' = rl_recv_seq r"
  by (auto simp: flush_relay_def Let_def res_simps)

lemma read_direct_frame:
  "read_direct B k r e = Ok (ok, r', e') \<Longrightarrow> rl_work_input r' = rl_work_input r \<and> rl_to_direct r' = rl_to_direct r \<and>
     rl_recv_seq r' = rl_recv_seq r"
  by (auto simp: read_direct_def encrypt_chunk_def Let_def res_simps case_Ok_iff)

lemma read_work_drained:
  assumes I: "sealed_link B k q keys up hdr inp r e" and d: "drained k r" and run: "read_work B k r e = Ok (True, r', e')"
  shows "drained k r'"
proof -
  from I obtain ps where b: "sealed_base B k keys r" and rc: "receives B k hdr inp r e ps" by (auto simp: sealed_link_def)
  obtain z s' where z: "recv_once (re_work e) (CHUNK k + 32) = (z, s')" by fastforce
  note law = recv_once_law [OF z]
  show ?thesis
  proof (cases "\<exists>w. z = Inr w \<and> w \<noteq> []")
    case False
    then show ?thesis using run z d by (cases z) (auto simp: read_work_def intro: drained_cong)
  next
    case True
    then obtain w where w: "z = Inr w" "w \<noteq> []" by blast
    let ?e = "meter (metric_bytes r False (length w)) (e\<lparr>re_work := s'\<rparr>)"
    from append_ring_law [of "rl_work_input r" w] b obtain ok wi m where
      a: "append_ring (rl_work_input r) w = Ok (ok, wi)" "ring_inv wi" "ring_contents wi = ring_contents (rl_work_input r) @ take m w"
        "ok \<longrightarrow> m = length w" by (auto simp: sealed_base_def rings_ok_def)
    have ok: "ok" "decrypt_ready B k (r\<lparr>rl_work_input := wi\<rparr>) ?e = Ok (True, r', e')"
      using run z w a(1) b by (auto simp: read_work_def Let_def sealed_base_def split: if_splits)
    have "sealed_base B k keys (r\<lparr>rl_work_input := wi\<rparr>)" "receives B k hdr inp (r\<lparr>rl_work_input := wi\<rparr>) ?e ps"
      using b rc a ok(1) w law by (simp_all add: sealed_base_def rings_ok_def receives_def meter_def)
    from ready_drained [OF this ok(2)] show ?thesis .
  qed
qed

lemma stages_drained:
  assumes I: "sealed_link B k q keys up hdr inp r e" and d: "drained k r"
    and run: "relay_stages B k r e f readable writable = Ok (True, s, t)"
  shows "drained k s"
proof -
  let ?d = "f = rl_direct r" and ?J = "sealed_sent B k keys up hdr inp" and ?I = "sealed_link B k q keys up hdr inp"
  have enc: "k_data_encryption k" using I by (simp add: sealed_link_def sealed_base_def)
  from run obtain g1 r1 e1 g2 r2 e2 where
    1: "stage writable (flush_relay ?d) k (True, r, e) = Ok (g1, r1, e1)"
    and 2: "stage (?d \<and> rl_encrypted r1 \<and> ring_len (rl_work_input r1) \<noteq> 0) (decrypt_ready B k) k (g1, r1, e1) = Ok (g2, r2, e2)"
    and 3: "stage readable (if ?d then read_direct B k else read_work B k) k (g2, r2, e2) = Ok (True, s, t)"
    using enc by (auto simp: relay_stages_def Let_def res_simps)
  have g: "g2" "g1" using 2 3 by (auto simp: stage_def split: if_splits)
  have "keeps ?I ?J (stage writable (flush_relay ?d) k (True, r, e))"
    using I by (intro sealed.stage_keeps) (auto intro: sealed_link_sent sealed_flush)
  then have I1: "?I r1 e1" using 1 g by (auto simp: keeps_def)
  have "keeps ?I ?J (stage (?d \<and> rl_encrypted r1 \<and> ring_len (rl_work_input r1) \<noteq> 0) (decrypt_ready B k) k (g1, r1, e1))"
    using I1 by (intro sealed.stage_keeps) (auto intro: sealed_link_sent sealed_decrypt)
  then have I2: "?I r2 e2" using 2 g by (auto simp: keeps_def)
  have "drained k r2"
  proof (cases ?d)
    case True
    from I1 obtain ps where b: "sealed_base B k keys r1" "receives B k hdr inp r1 e1 ps" by (auto simp: sealed_link_def)
    then have "rl_encrypted r1" by (simp add: sealed_base_def)
    then show ?thesis using 2 g True ready_drained [OF b]
      by (auto simp: stage_def Let_def res_simps case_Ok_iff sync_drained drained_def no_record_def [of _ "rl_work_input r1"]
          split: if_splits dest: sync_drained)
  next
    case False
    have "drained k r1" using 1 g False d
      by (auto simp: stage_def Let_def res_simps case_Ok_iff sync_drained split: if_splits
          dest!: flush_work_frame intro: drained_cong)
    then show ?thesis using 2 g False by (auto simp: stage_def Let_def res_simps case_Ok_iff sync_drained split: if_splits)
  qed
  then show ?thesis using 3 g(1) read_work_drained [OF I2]
    by (auto simp: stage_def Let_def res_simps case_Ok_iff sync_drained split: if_splits
        dest!: read_direct_frame intro: drained_cong)
qed

lemma wire_append: "wire B key base n (ps @ cs) = wire B key base n ps @ wire B key base (n + length ps) cs"
  by (induction ps arbitrary: n) simp_all

lemma empty_contents: "ring_len r = 0 \<Longrightarrow> ring_contents r = []"
  by (simp flip: length_0_conv)

text \<open>A run that ends in order: the relay closed and no failure was counted.\<close>

definition ends_in_order :: "autoconf \<Rightarrow> ct_relay \<Rightarrow> relay_env \<Rightarrow> ct_relay \<Rightarrow> relay_env \<Rightarrow> bool" where
  "ends_in_order k r e r' e' \<longleftrightarrow> rl_closed r' \<and> failures e' = failures e \<and> failures e \<noteq> uint64_max \<and>
     ends_known True k r e"

lemma sealed_orderly:
  assumes "sealed_base B k keys r" "fresh_sender r e" "fresh_receiver r" "relay_run B k evs r e = Ok (r', e')"
    "ends_in_order k r e r' e'"
  obtains s t cs ps where "sealed_base B k keys s" "sends B k (arrives (sk_in (re_direct e))) s t cs"
    "receives B k (sk_out (re_direct e) @ ring_contents (rl_to_direct r)) (arrives (sk_in (re_work e))) s t ps"
    "drained k s" "ring_contents (rl_to_direct s) = []" "ring_contents (rl_to_work s) = []"
    "arrives (sk_in (re_direct t)) = []" "arrives (sk_in (re_work t)) = []" "re_direct e' = re_direct t" "re_work e' = re_work t"
proof -
  have o: "rl_closed r'" "failures e' = failures e" "failures e \<noteq> uint64_max" "ends_known True k r e"
    using assms(5) by (simp_all add: ends_in_order_def)
  have "drained k r" using assms(3) by (simp add: drained_def no_record_def fresh_receiver_def)
  then have "\<exists>s t. sealed_link B k True keys (arrives (sk_in (re_direct e))) (sk_out (re_direct e) @ ring_contents (rl_to_direct r))
      (arrives (sk_in (re_work e))) s t \<and> drained k s \<and> rl_direct_eof s \<and> rl_work_eof s \<and> ring_len (rl_to_direct s) = 0 \<and>
      ring_len (rl_to_work s) = 0 \<and> re_direct e' = re_direct t \<and> re_work e' = re_work t"
    by (rule sealed.run_orderly [OF sealed_start [OF assms(1-3) o(4)] assms(4) o(1-3)]) (rule stages_drained)
  then obtain s t where
    st: "sealed_link B k True keys (arrives (sk_in (re_direct e))) (sk_out (re_direct e) @ ring_contents (rl_to_direct r))
      (arrives (sk_in (re_work e))) s t" "drained k s" "rl_direct_eof s" "rl_work_eof s" "ring_len (rl_to_direct s) = 0"
      "ring_len (rl_to_work s) = 0" "re_direct e' = re_direct t" "re_work e' = re_work t" by blast
  then have "arrives (sk_in (re_direct t)) = []" "arrives (sk_in (re_work t)) = []"
    by (simp_all add: sealed_link_def ends_known_def)
  with st that empty_contents [OF st(5)] empty_contents [OF st(6)] show thesis
    unfolding sealed_link_def by blast
qed

lemma sender_complete:
  assumes "sealed_base B k keys r" "fresh_sender r e" "fresh_receiver r" "relay_run B k evs r e = Ok (r', e')"
    "ends_in_order k r e r' e'"
  shows "\<exists>cs. sk_out (re_work e') = wire B (rl_send_key r) (rl_send_nonce r) 0 cs \<and> concat cs = arrives (sk_in (re_direct e)) \<and>
    (\<forall>c\<in>set cs. length c \<le> CHUNK k) \<and> length cs < 2 ^ 64"
  using assms
proof (rule sealed_orderly)
  fix s t cs
  assume s: "sealed_base B k keys s" "sends B k (arrives (sk_in (re_direct e))) s t cs" "ring_contents (rl_to_work s) = []"
    "arrives (sk_in (re_direct t)) = []" "re_work e' = re_work t"
  have "unat (rl_send_seq s) < 2 ^ LENGTH(64)" by (rule unsigned_less)
  then show ?thesis using s sealed_keys [OF assms(1) s(1)] by (intro exI [of _ cs]) (auto simp: sends_def)
qed

lemma receiver_complete:
  assumes S: "sealed_base B k keys r" "fresh_sender r e" "fresh_receiver r" "relay_run B k evs r e = Ok (r', e')"
    "ends_in_order k r e r' e'"
    and B: "aead_opens B" and cs: "arrives (sk_in (re_work e)) = wire B (rl_recv_key r) (rl_recv_nonce r) 0 cs"
      "\<forall>c\<in>set cs. length c \<le> CHUNK k" "length cs < 2 ^ 64"
  shows "sk_out (re_direct e') = sk_out (re_direct e) @ ring_contents (rl_to_direct r) @ concat cs"
  using S
proof (rule sealed_orderly)
  fix s t cs' ps
  assume b: "sealed_base B k keys s" and rc: "receives B k (sk_out (re_direct e) @ ring_contents (rl_to_direct r))
      (arrives (sk_in (re_work e))) s t ps" and d: "drained k s" and td: "ring_contents (rl_to_direct s) = []"
    and e: "arrives (sk_in (re_work t)) = []" "re_direct e' = re_direct t"
  let ?wire = "wire B (rl_recv_key r) (rl_recv_nonce r)"
  have sz: "aead_sizes B" "CHUNK k \<le> 2 ^ 31" "ring_inv (rl_work_input s)" "CHUNK k \<le> ring_cap (rl_to_direct s)"
    using b by (simp_all add: sealed_base_def rings_ok_def)
  note keys = sealed_keys [OF S(1) b]
  have W: "?wire 0 ps @ ring_contents (rl_work_input s) = ?wire 0 cs"
    and ps: "\<forall>p\<in>set ps. length p \<le> CHUNK k" "unat (rl_recv_seq s) = length ps"
    using rc keys e(1) cs(1) by (simp_all add: receives_def)
  have "prefix (?wire 0 ps) (?wire 0 cs)" unfolding W [symmetric] by simp
  from wire_inj [OF sz(1) B this] ps(1) cs(2) sz(2) obtain rest where rest: "cs = ps @ rest"
    by (auto simp: prefix_def intro: order_trans)
  then have wi: "ring_contents (rl_work_input s) = ?wire (length ps) rest" using W by (simp add: wire_append)
  have "rest = []"
  proof (cases rest)
    case (Cons c rest')
    let ?n = "of_nat (length c + 16) :: u32" and ?i = "of_nat (Suc (length ps)) :: u64"
    have c: "length c \<le> CHUNK k" using cs(2) by (simp add: rest Cons)
    have un: "unat ?n = length c + 16" using c sz(2) by (simp add: unat_of_nat take_bit_nat_eq_self del: of_nat_add)
    have front: "ring_contents (rl_work_input s) = seal B (rl_recv_key r) (rl_recv_nonce r) (Suc (length ps)) c @ ?wire (Suc (length ps)) rest'"
      by (simp add: wi Cons)
    have "ring_len (rl_work_input s) = length (seal B (rl_recv_key r) (rl_recv_nonce r) (Suc (length ps)) c) +
        length (?wire (Suc (length ps)) rest')" unfolding length_ring_contents [symmetric] front by simp
    then have len: "28 + length c \<le> ring_len (rl_work_input s)" by (simp add: length_seal [OF sz(1)])
    have hd: "take 12 (ring_contents (rl_work_input s)) = record_header ?n ?i"
      unfolding front by (simp add: seal_def Let_def split: prod.splits)
    have "rl_recv_seq s \<noteq> uint64_max" using ps(2) cs(3) by (auto simp: rest Cons)
    with seq_succ(1) [OF ps(2)] have "ct_data_record_header_decode (record_header ?n ?i) (CHUNK k) (rl_recv_seq s) = Ok (?n, ?i)"
      using un c sz(2) unfolding record_header_decode_eq by (simp del: of_nat_Suc)
    moreover have "ring_len (rl_to_direct s) = 0" using arg_cong [OF td, of length] by simp
    ultimately have False using d len un c sz(4) hd by (auto simp: drained_def no_record_def proto_defs)
    then show ?thesis ..
  qed
  then have "ps = cs" using rest by simp
  then show ?thesis using rc td e(2) by (simp add: receives_def)
qed

lemma sealed_complete:
  assumes A: "sealed_base B k keys r" "fresh_sender r e" "fresh_receiver r" "relay_run B k evs r e = Ok (r', e')"
      "ends_in_order k r e r' e'"
    and S: "sealed_base B k' keys' s" "fresh_sender s t" "fresh_receiver s" "relay_run B k' evs' s t = Ok (s', t')"
      "ends_in_order k' s t s' t'"
    and keys: "rl_recv_key s = rl_send_key r" "rl_recv_nonce s = rl_send_nonce r" and B: "aead_opens B"
    and carried: "arrives (sk_in (re_work t)) = sk_out (re_work e')" and sizes: "CHUNK k \<le> CHUNK k'"
  shows "sk_out (re_direct t') = sk_out (re_direct t) @ ring_contents (rl_to_direct s) @ arrives (sk_in (re_direct e))"
proof -
  from sender_complete [OF A] obtain cs where
    cs: "sk_out (re_work e') = wire B (rl_send_key r) (rl_send_nonce r) 0 cs" "concat cs = arrives (sk_in (re_direct e))"
      "\<forall>c\<in>set cs. length c \<le> CHUNK k" "length cs < 2 ^ 64" by blast
  have "\<forall>c\<in>set cs. length c \<le> CHUNK k'" using cs(3) sizes by (auto intro: order_trans)
  from receiver_complete [OF S B _ this cs(4)] carried cs(1,2) keys show ?thesis by simp
qed

section \<open>Streams opened by both sides\<close>

text \<open>What the two sides agreed on in \<open>START_STREAM\<close>, and a relay opened on it with fresh buffers.\<close>

record stream_params =
  sp_master :: bytes
  sp_stream :: u64
  sp_random :: bytes
  sp_work :: bytes
  sp_service :: bytes

definition opens ::
  "monocypher \<Rightarrow> autoconf \<Rightarrow> (u8 \<Rightarrow> bytes \<Rightarrow> bytes option) \<Rightarrow> bool \<Rightarrow> stream_params \<Rightarrow> ct_relay \<Rightarrow> relay_env \<Rightarrow> bool" where
  "opens B k ntop client sp r e \<longleftrightarrow> (\<exists>a b c d w md e0.
     ct_relay_init B k ntop (Some a) (Some b) (Some c) d w client CT_ENC_REQUIRED CT_CIPHER_CHACHA (sp_master sp)
       (sp_stream sp) (sp_random sp) (sp_work sp) (sp_service sp) md e0 = Ok (True, r, e) \<and>
     length a = k_stream_buffer k \<and> length b = k_stream_buffer k \<and> length c = k_stream_buffer k \<and>
     0 < k_stream_buffer k \<and> k_data_encryption k \<and> sk_out (re_work e0) = [])"

definition data_keys :: "monocypher \<Rightarrow> autoconf \<Rightarrow> stream_params \<Rightarrow> u8 \<Rightarrow> (bytes \<times> bytes) res" where
  "data_keys B k sp dir = ct_derive_data B k (sp_master sp) (sp_stream sp) (sp_random sp) (sp_work sp) (sp_service sp)
     CT_ENC_REQUIRED dir"

lemma chunk_bounds: "CHUNK k \<le> k_stream_buffer k" "CHUNK k \<le> 2 ^ 31" "2 \<le> k_stream_buffer k \<Longrightarrow> 0 < CHUNK k"
  by (auto simp: CHUNK_def)

definition new_ring :: "autoconf \<Rightarrow> bytes \<Rightarrow> ct_ring" where
  "new_ring k d = \<lparr>ring_data = d, ring_cap = k_stream_buffer k, ring_head = 0, ring_len = 0\<rparr>"

lemma new_ring_ok: "length d = k_stream_buffer k \<Longrightarrow> 0 < k_stream_buffer k \<Longrightarrow> ring_inv (new_ring k d)"
  by (simp add: new_ring_def ring_inv_def)

lemma new_ring_simps [simp]: "ring_cap (new_ring k d) = k_stream_buffer k" "ring_len (new_ring k d) = 0"
  by (simp_all add: new_ring_def)

lemma buffers_ok:
  assumes "relay_buffers B k (Some a) (Some b) (Some c) client CT_ENC_REQUIRED (sp_master sp) (sp_stream sp) (sp_random sp)
      (sp_work sp) (sp_service sp) r0 = Ok r" "k_data_encryption k" "rl_encrypted r0"
  shows "\<exists>sk sn rk rn. data_keys B k sp (if client then 0 else 1) = Ok (sk, sn) \<and>
    data_keys B k sp (if client then 1 else 0) = Ok (rk, rn) \<and>
    r = r0\<lparr>rl_to_direct := new_ring k a, rl_to_work := new_ring k b, rl_work_input := new_ring k c,
      rl_send_key := sk, rl_send_nonce := sn, rl_recv_key := rk, rl_recv_nonce := rn\<rparr>"
  using assms
  by (auto simp: relay_buffers_def Let_def res_simps data_keys_def ct_ring_init_def new_ring_def split: if_splits)

text \<open>A relay that started is the one from \<open>relay_buffers\<close>, perhaps with a header queued.\<close>

definition started_from :: "ct_relay \<Rightarrow> relay_env \<Rightarrow> ct_relay \<Rightarrow> relay_env \<Rightarrow> bool" where
  "started_from r1 e0 r e \<longleftrightarrow> re_direct e = re_direct e0 \<and> re_work e = re_work e0 \<and> failures e = failures e0 \<and>
    (r = r1\<lparr>rl_stream_accounted := True\<rparr> \<or>
     (\<exists>header td n. append_ring (rl_to_direct r1) header = Ok (True, td) \<and>
       r = r1\<lparr>rl_to_direct := td, rl_proxy_header_pending := True, rl_proxy_header_remaining := n, rl_stream_accounted := True\<rparr>))"

lemma start_from: "relay_start r1 e0 = (True, r, e) \<Longrightarrow> started_from r1 e0 r e"
  by (auto simp: relay_start_def started_from_def meter_def failures_def)

lemma header_started: "relay_header k ntop m r1 e0 = Ok (True, r, e) \<Longrightarrow> started_from r1 e0 r e"
  by (auto simp: relay_header_def relay_fail_def relay_start_def Let_def res_simps case_Ok_iff started_from_def meter_def
      failures_def split: if_splits) blast+

lemma init_started:
  assumes "ct_relay_init B k ntop m1 m2 m3 d w client mode cipher master sid rnd wid svc md e0 = Ok (True, r, e)"
  shows "\<exists>r1. relay_buffers B k m1 m2 m3 client mode master sid rnd wid svc ((zero_relay d w client)
      \<lparr>rl_encrypted := k_data_encryption k \<and> mode = CT_ENC_REQUIRED, rl_cipher := (if k_data_encryption k then cipher else 0)\<rparr>) = Ok r1 \<and>
    started_from r1 e0 r e"
proof -
  have m: "failures (meter (ct_metric_inc CT_METRIC_PROXY_PROTOCOL_DISABLED_CONNECTIONS_TOTAL) e0) = failures e0"
    by (simp add: failures_def meter_def)
  have "started_from r1 (if client then meter (ct_metric_inc CT_METRIC_PROXY_PROTOCOL_DISABLED_CONNECTIONS_TOTAL) e0 else e0) r e \<Longrightarrow>
      started_from r1 e0 r e" for r1
    using m by (auto simp: started_from_def meter_def split: if_splits)
  then show ?thesis
    using assms
    by (auto simp: ct_relay_init_def Let_def relay_fail_def case_Ok_iff dest: start_from header_started
        split: option.splits if_splits)
qed

lemma opened_sealed:
  assumes "opens B k ntop client sp r e" "aead_sizes B" "aead_exact B"
  shows "\<exists>sk sn rk rn. data_keys B k sp (if client then 0 else 1) = Ok (sk, sn) \<and>
    data_keys B k sp (if client then 1 else 0) = Ok (rk, rn) \<and> sealed_base B k (sk, sn, rk, rn) r \<and>
    fresh_sender r e \<and> fresh_receiver r"
proof -
  from assms(1) obtain a b c d w md e0 where
    i: "ct_relay_init B k ntop (Some a) (Some b) (Some c) d w client CT_ENC_REQUIRED CT_CIPHER_CHACHA (sp_master sp)
       (sp_stream sp) (sp_random sp) (sp_work sp) (sp_service sp) md e0 = Ok (True, r, e)"
    and len: "length a = k_stream_buffer k" "length b = k_stream_buffer k" "length c = k_stream_buffer k" "0 < k_stream_buffer k"
    and enc: "k_data_encryption k" and out: "sk_out (re_work e0) = []" by (auto simp: opens_def)
  let ?r0 = "(zero_relay d w client)\<lparr>rl_encrypted := True, rl_cipher := CT_CIPHER_CHACHA\<rparr>"
  from init_started [OF i] enc obtain r1 where
    r1: "relay_buffers B k (Some a) (Some b) (Some c) client CT_ENC_REQUIRED (sp_master sp) (sp_stream sp) (sp_random sp)
      (sp_work sp) (sp_service sp) ?r0 = Ok r1" "started_from r1 e0 r e" by auto
  from buffers_ok [OF r1(1) enc] obtain sk sn rk rn where
    kk: "data_keys B k sp (if client then 0 else 1) = Ok (sk, sn)" "data_keys B k sp (if client then 1 else 0) = Ok (rk, rn)"
    and r1': "r1 = ?r0\<lparr>rl_to_direct := new_ring k a, rl_to_work := new_ring k b, rl_work_input := new_ring k c,
      rl_send_key := sk, rl_send_nonce := sn, rl_recv_key := rk, rl_recv_nonce := rn\<rparr>" by auto
  have "ring_inv td \<and> ring_cap td = k_stream_buffer k" if "append_ring (new_ring k a) header = Ok (True, td)" for header td
    using append_ring_law [OF new_ring_ok [OF len(1,4)], of header] that by auto
  then have "sealed_base B k (sk, sn, rk, rn) r \<and> fresh_sender r e \<and> fresh_receiver r"
    using r1(2) len enc out assms(2,3) chunk_bounds new_ring_ok
    by (auto simp: started_from_def r1' sealed_base_def rings_ok_def zero_relay_def fresh_sender_def fresh_receiver_def)
  with kk show ?thesis by blast
qed

lemma data_keys_agree: "data_keys B k sp d = Ok x \<Longrightarrow> data_keys B k' sp d = Ok y \<Longrightarrow> x = y"
  by (auto simp: data_keys_def ct_derive_data_def data_context_def Let_def res_simps split: if_splits)

lemma opened_pair:
  assumes "opens B k ntop c sp r e" "opens B k' ntop' (\<not> c) sp s t" "aead_sizes B" "aead_exact B"
  obtains kr ks where "sealed_base B k kr r" "sealed_base B k' ks s" "fresh_sender r e" "fresh_receiver r"
    "fresh_sender s t" "fresh_receiver s" "rl_recv_key s = rl_send_key r" "rl_recv_nonce s = rl_send_nonce r"
proof -
  from opened_sealed [OF assms(1,3,4)] obtain sk sn rk rn where
    a: "data_keys B k sp (if c then 0 else 1) = Ok (sk, sn)" "sealed_base B k (sk, sn, rk, rn) r" "fresh_sender r e" "fresh_receiver r"
    by blast
  from opened_sealed [OF assms(2,3,4)] obtain sk' sn' rk' rn' where
    b: "data_keys B k' sp (if \<not> c then 1 else 0) = Ok (rk', rn')" "sealed_base B k' (sk', sn', rk', rn') s"
      "fresh_sender s t" "fresh_receiver s" by blast
  have "(sk, sn) = (rk', rn')" using data_keys_agree [OF a(1)] b(1) by (cases c) auto
  then have "rl_recv_key s = rl_send_key r" "rl_recv_nonce s = rl_send_nonce r"
    using a(2) b(2) by (simp_all add: sealed_base_def)
  with that [OF a(2) b(2) a(3,4) b(3,4)] show thesis by blast
qed

text \<open>
  C15: an encrypted stream arrives as it was sent. Whatever the events, the sizes of reads and writes
  and the point up to which the work connection has carried the sender's bytes, both relays run
  without touching memory out of bounds, and what the receiving relay has written to its direct
  socket is its initial content (the PROXY header) followed by a prefix of what the sending relay's
  direct socket delivered.
\<close>

theorem relay_encrypted_end_to_end:
  assumes B: "aead_sizes B" "aead_exact B" "aead_opens B"
    and opened: "opens B k ntop c sp r e" "opens B k' ntop' (\<not> c) sp s t"
    and run: "relay_run B k evs r e = Ok (r', e')"
    and carried: "prefix (arrives (sk_in (re_work t))) (sk_out (re_work e'))"
  shows "\<exists>s' t'. relay_run B k' evs' s t = Ok (s', t') \<and>
    prefix (sk_out (re_direct t')) (sk_out (re_direct t) @ ring_contents (rl_to_direct s) @ arrives (sk_in (re_direct e)))"
  by (rule opened_pair [OF opened B(1,2)]) (rule sealed_end_to_end [OF _ _ _ _ _ _ _ _ B(3) run carried])

text \<open>
  C16: an encrypted stream is delivered completely. When the sending relay ends in order, all of its
  sealed output reaches the receiving relay, and that relay ends in order too, then the receiving
  side's direct socket got every byte of the sender's direct socket, provided the receiver's record
  size is not smaller than the sender's.
\<close>

theorem relay_encrypted_complete:
  assumes B: "aead_sizes B" "aead_exact B" "aead_opens B"
    and opened: "opens B k ntop c sp r e" "opens B k' ntop' (\<not> c) sp s t"
    and sender: "relay_run B k evs r e = Ok (r', e')" "ends_in_order k r e r' e'"
    and receiver: "relay_run B k' evs' s t = Ok (s', t')" "ends_in_order k' s t s' t'"
    and carried: "arrives (sk_in (re_work t)) = sk_out (re_work e')" and sizes: "CHUNK k \<le> CHUNK k'"
  shows "sk_out (re_direct t') = sk_out (re_direct t) @ ring_contents (rl_to_direct s) @ arrives (sk_in (re_direct e))"
  by (rule opened_pair [OF opened B(1,2)])
    (rule sealed_complete [OF _ _ _ sender _ _ _ receiver _ _ B(3) carried sizes])

section \<open>A small instance\<close>

definition tiny_build :: autoconf where
  "tiny_build = default_defconfig\<lparr>k_stream_buffer := 32\<rparr>"

lemma tiny_build_simps [simp]:
  "k_data_encryption tiny_build" "k_stream_buffer tiny_build = 32" "CHUNK tiny_build = 16" "k_max_service_id tiny_build = 64"
  by (simp_all add: tiny_build_def default_defconfig_def CHUNK_def)

definition tiny_params :: stream_params where
  "tiny_params = \<lparr>sp_master = replicate 32 1, sp_stream = 7, sp_random = replicate 32 2, sp_work = replicate 32 3,
     sp_service = [115]\<rparr>"

definition tiny_env :: "recv_event list \<Rightarrow> recv_event list \<Rightarrow> relay_env" where
  "tiny_env direct work = \<lparr>re_metrics = no_metrics, re_direct = \<lparr>sk_in = direct, sk_room = [Takes 100], sk_out = []\<rparr>,
     re_work = \<lparr>sk_in = work, sk_room = [Takes 100], sk_out = []\<rparr>, re_effects = []\<rparr>"

definition tiny_ring :: ct_ring where
  "tiny_ring = \<lparr>ring_data = replicate 32 0, ring_cap = 32, ring_head = 0, ring_len = 0\<rparr>"

definition tiny_relay :: "bool \<Rightarrow> bytes \<times> bytes \<Rightarrow> bytes \<times> bytes \<Rightarrow> ct_relay" where
  "tiny_relay client snd_keys rcv_keys =
     (zero_relay 3 4 client)\<lparr>rl_encrypted := True, rl_cipher := CT_CIPHER_CHACHA, rl_to_direct := tiny_ring,
       rl_to_work := tiny_ring, rl_work_input := tiny_ring, rl_send_key := fst snd_keys, rl_send_nonce := snd snd_keys,
       rl_recv_key := fst rcv_keys, rl_recv_nonce := snd rcv_keys, rl_stream_accounted := True\<rparr>"

lemma tiny_opens:
  "\<exists>sk rk g. length (snd sk) = 16 \<and> length (snd rk) = 16 \<and> g CT_METRIC_STREAMS_FAILED_TOTAL = 0 \<and>
     opens toy_backend tiny_build (\<lambda>_ _. None) c tiny_params (tiny_relay c sk rk) ((tiny_env direct work)\<lparr>re_metrics := g\<rparr>)"
proof -
  define keys where "keys d = (derived toy_backend (sp_master tiny_params)
      (data_context_bytes (sp_stream tiny_params) (sp_random tiny_params) (sp_work tiny_params) (sp_service tiny_params) CT_ENC_REQUIRED d)
        (if d \<noteq> 0 then ''ctunnel-v3/data-stream-s2c-key'' else ''ctunnel-v3/data-stream-c2s-key'') 32,
      derived toy_backend (sp_master tiny_params)
      (data_context_bytes (sp_stream tiny_params) (sp_random tiny_params) (sp_work tiny_params) (sp_service tiny_params) CT_ENC_REQUIRED d)
        (if d \<noteq> 0 then ''ctunnel-v3/data-stream-s2c-nonce'' else ''ctunnel-v3/data-stream-c2s-nonce'') 16)" for d :: u8
  have k: "ct_derive_data toy_backend tiny_build (sp_master tiny_params) (sp_stream tiny_params) (sp_random tiny_params)
      (sp_work tiny_params) (sp_service tiny_params) CT_ENC_REQUIRED d = Ok (keys d)" for d
    using derive_data_eq [OF toy_backend_laws(1), of "sp_random tiny_params" "sp_work tiny_params" "sp_service tiny_params" tiny_build]
    by (simp add: tiny_params_def keys_def)
  have len: "length (snd (keys d)) = 16" for d by (simp add: keys_def derive_eq [OF toy_backend_laws(1)])
  let ?sk = "keys (if c then 0 else 1)" and ?rk = "keys (if c then 1 else 0)"
  let ?m = "Some (replicate 32 (0 :: u8))"
  let ?e = "snd (snd (relay_start (tiny_relay c ?sk ?rk) (if c then meter (ct_metric_inc CT_METRIC_PROXY_PROTOCOL_DISABLED_CONNECTIONS_TOTAL)
      (tiny_env direct work) else tiny_env direct work)))"
  have "relay_buffers toy_backend tiny_build ?m ?m ?m c CT_ENC_REQUIRED (sp_master tiny_params) (sp_stream tiny_params)
      (sp_random tiny_params) (sp_work tiny_params) (sp_service tiny_params)
      ((zero_relay 3 4 c)\<lparr>rl_encrypted := True, rl_cipher := CT_CIPHER_CHACHA\<rparr>) =
      Ok ((tiny_relay c ?sk ?rk)\<lparr>rl_stream_accounted := False\<rparr>)"
    by (simp add: relay_buffers_def Let_def ct_ring_init_def k tiny_relay_def tiny_ring_def zero_relay_def case_prod_beta)
  then have i: "ct_relay_init toy_backend tiny_build (\<lambda>_ _. None) ?m ?m ?m 3 4 c CT_ENC_REQUIRED CT_CIPHER_CHACHA
     (sp_master tiny_params) (sp_stream tiny_params) (sp_random tiny_params) (sp_work tiny_params) (sp_service tiny_params)
     None (tiny_env direct work) = Ok (True, tiny_relay c ?sk ?rk, ?e)"
    by (simp add: ct_relay_init_def relay_start_def tiny_relay_def Let_def)
  have e: "?e = (tiny_env direct work)\<lparr>re_metrics := re_metrics ?e\<rparr>" "re_metrics ?e CT_METRIC_STREAMS_FAILED_TOTAL = 0"
    by (simp_all add: relay_start_def meter_def tiny_env_def no_metrics_def ct_metric_inc_def)
  have "opens toy_backend tiny_build (\<lambda>_ _. None) c tiny_params (tiny_relay c ?sk ?rk) ?e"
    unfolding opens_def using i by (intro exI conjI, assumption) (simp_all add: tiny_env_def)
  with e len show ?thesis by metis
qed

text \<open>The one record of the stream \<open>[104]\<close>.\<close>

definition tiny_box :: bytes where
  "tiny_box = [104, 0, 0, 0, 0, 0, 0, 0, 1, 0, 0, 0, 0, 0, 0, 0, 0]"

definition tiny_record :: bytes where
  "tiny_record = [0, 0, 0, 17, 0, 0, 0, 0, 0, 0, 0, 1] @ tiny_box"

lemma tiny_puts: "ct_put_u32 17 = [0, 0, 0, 17]" "ct_put_u64 1 = [0, 0, 0, 0, 0, 0, 0, 1]"
  by code_simp+

lemma tiny_zeros: "replicate 8 x = [x, x, x, x, x, x, x, x]" "replicate 32 x = concat (replicate 4 [x, x, x, x, x, x, x, x])"
  by (simp_all add: numeral_eq_Suc)

lemma tiny_seals:
  "length nonce = 16 \<Longrightarrow> length ad = 12 \<Longrightarrow> ct_aead_encrypt toy_backend CT_CIPHER_CHACHA key nonce 1 ad [104] = Ok tiny_box"
  "length nonce = 16 \<Longrightarrow> length ad = 12 \<Longrightarrow> ct_aead_decrypt toy_backend CT_CIPHER_CHACHA key nonce 1 ad tiny_box = Ok [104]"
  by (simp_all add: ct_aead_encrypt_def ct_aead_decrypt_def ct_cipher_available_def make_nonce_def toy_backend_def toy_tag_def
      toy_hash_def tiny_puts tiny_box_def tiny_zeros)

lemma tiny_header: "ct_data_record_header_decode [0, 0, 0, 17, 0, 0, 0, 0, 0, 0, 0, 1] 16 0 = Ok (17, 1)"
  using record_header_decode_eq [of 17 1 16 0] by (simp add: record_header_def tiny_puts)

text \<open>The states of the rings on the way.\<close>

definition tiny_full :: ct_ring where
  "tiny_full = \<lparr>ring_data = tiny_record @ [0, 0, 0], ring_cap = 32, ring_head = 0, ring_len = 29\<rparr>"

definition tiny_body :: ct_ring where
  "tiny_body = tiny_full\<lparr>ring_head := 12, ring_len := 17\<rparr>"

definition tiny_done :: ct_ring where
  "tiny_done = tiny_full\<lparr>ring_head := 29, ring_len := 0\<rparr>"

definition tiny_plain :: ct_ring where
  "tiny_plain = \<lparr>ring_data = 104 # replicate 31 0, ring_cap = 32, ring_head = 0, ring_len = 1\<rparr>"

definition tiny_sent :: ct_ring where
  "tiny_sent = tiny_plain\<lparr>ring_head := 1, ring_len := 0\<rparr>"

lemmas tiny_rings = tiny_full_def tiny_body_def tiny_done_def tiny_plain_def tiny_sent_def tiny_ring_def

lemma tiny_lens [simp]:
  "ring_len tiny_full = 29" "ring_len tiny_body = 17" "ring_len tiny_done = 0" "ring_len tiny_plain = 1" "ring_len tiny_sent = 0"
  "ring_len tiny_ring = 0" "ring_cap tiny_ring = 32" "length tiny_record = 29" "length tiny_box = 17"
  "tiny_record \<noteq> []"
  by (simp_all add: tiny_rings tiny_record_def tiny_box_def)

lemma tiny_moves [simp]:
  "append_ring tiny_ring tiny_record = Ok (True, tiny_full)" "ct_ring_peek tiny_full = Ok tiny_record"
  "ct_ring_consume tiny_full 29 = Ok tiny_done" "append_ring tiny_ring [104] = Ok (True, tiny_plain)"
  "ct_ring_peek tiny_plain = Ok [104]" "ct_ring_consume tiny_plain (Suc 0) = Ok tiny_sent"
  "ct_ring_read tiny_full 12 = Ok ([0, 0, 0, 17, 0, 0, 0, 0, 0, 0, 0, 1], tiny_body)"
  "ct_ring_read tiny_body 17 = Ok (tiny_box, tiny_done)" "ct_ring_peek tiny_ring = Ok []"
  by code_simp+

lemmas turn_defs = ct_relay_process_def relay_stages_def stage_def read_direct_def read_work_def recv_once_def
  flush_relay_def flush_def send_once_def relay_end_def sync_buffer_metric_def Let_def buffered_bytes_def ct_relay_close_def

lemma tiny_emit: "emit 44 [0, 0, 0, 17, 0, 0, 0, 0, 0, 0, 0, 1] tiny_box = Ok tiny_record"
  by (simp add: emit_def tiny_record_def)

lemma tiny_encrypt:
  assumes "length (rl_send_nonce r) = 16" "rl_cipher r = CT_CIPHER_CHACHA" "rl_send_seq r = 0" "rl_to_work r = tiny_ring"
  shows "encrypt_chunk toy_backend tiny_build r e [104] = Ok (True, r\<lparr>rl_send_seq := 1, rl_to_work := tiny_full\<rparr>, e)"
  using assms by (simp add: encrypt_chunk_def Let_def tiny_puts tiny_seals emit_def [of _ "[]"] emit_def [of _ "[0, 0, 0, 17]"] tiny_emit)

lemma tiny_decrypt:
  assumes "length (rl_recv_nonce r) = 16" "rl_cipher r = CT_CIPHER_CHACHA" "rl_recv_seq r = 0" "rl_to_direct r = tiny_ring"
    "rl_work_input r = tiny_full"
  shows "decrypt_ready toy_backend tiny_build r e =
    Ok (True, r\<lparr>rl_work_input := tiny_done, rl_to_direct := tiny_plain, rl_recv_seq := 1\<rparr>, e)"
  using assms
  by (simp add: decrypt_ready.simps [of _ _ r] decrypt_ready.simps [of _ _ "r\<lparr>rl_work_input := x, rl_to_direct := y, rl_recv_seq := z\<rparr>" for x y z] decrypt_turn_def Let_def tiny_header tiny_seals CT_RECORD_TAG_SIZE_def)

lemma tiny_sender:
  assumes "length (snd sk) = 16" "g CT_METRIC_STREAMS_FAILED_TOTAL = 0"
  shows "\<exists>r' e'. relay_run toy_backend tiny_build [(3, True, False), (4, True, True), (3, True, False)] (tiny_relay True sk rk)
      ((tiny_env [Got [104]] [])\<lparr>re_metrics := g\<rparr>) = Ok (r', e') \<and> rl_closed r' \<and> failures e' = 0 \<and>
    sk_out (re_work e') = tiny_record"
  using assms
  by (simp add: turn_defs tiny_relay_def tiny_env_def zero_relay_def tiny_encrypt)
    (simp add: failures_def meter_def ct_metric_inc_def ct_metric_dec_def metric_bytes_def)

lemma tiny_receiver:
  assumes "length (snd rk) = 16" "g CT_METRIC_STREAMS_FAILED_TOTAL = 0"
  shows "\<exists>r' e'. relay_run toy_backend tiny_build [(4, True, False), (3, True, True), (4, True, False)] (tiny_relay False sk rk)
      ((tiny_env [] [Got tiny_record])\<lparr>re_metrics := g\<rparr>) = Ok (r', e') \<and> rl_closed r' \<and> failures e' = 0"
  using assms
  by (simp add: turn_defs tiny_relay_def tiny_env_def zero_relay_def tiny_decrypt)
    (simp add: failures_def meter_def ct_metric_inc_def ct_metric_dec_def metric_bytes_def)

text \<open>Both relays of the instance, opened on the same parameters.\<close>

lemma tiny_pair:
  obtains r e s t r' e' where "opens toy_backend tiny_build (\<lambda>_ _. None) True tiny_params r e"
    "opens toy_backend tiny_build (\<lambda>_ _. None) (\<not> True) tiny_params s t"
    "relay_run toy_backend tiny_build [(3, True, False), (4, True, True), (3, True, False)] r e = Ok (r', e')"
    "ends_in_order tiny_build r e r' e'" "arrives (sk_in (re_work t)) = sk_out (re_work e')"
    "\<exists>s' t'. relay_run toy_backend tiny_build [(4, True, False), (3, True, True), (4, True, False)] s t = Ok (s', t') \<and>
      ends_in_order tiny_build s t s' t'"
    "sk_out (re_direct t) @ ring_contents (rl_to_direct s) @ arrives (sk_in (re_direct e)) = [104]"
proof -
  from tiny_opens [of True "[Got [104]]" "[]"] obtain sk rk g where
    a: "length (snd sk) = 16" "g CT_METRIC_STREAMS_FAILED_TOTAL = 0"
      "opens toy_backend tiny_build (\<lambda>_ _. None) True tiny_params (tiny_relay True sk rk) ((tiny_env [Got [104]] [])\<lparr>re_metrics := g\<rparr>)"
    by blast
  from tiny_opens [of False "[]" "[Got tiny_record]"] obtain sk' rk' g' where
    b: "length (snd rk') = 16" "g' CT_METRIC_STREAMS_FAILED_TOTAL = 0"
      "opens toy_backend tiny_build (\<lambda>_ _. None) (\<not> True) tiny_params (tiny_relay False sk' rk') ((tiny_env [] [Got tiny_record])\<lparr>re_metrics := g'\<rparr>)"
    unfolding not_True_eq_False by blast
  note order_simps = ends_in_order_def ends_known_def failures_def tiny_env_def steady_def tiny_relay_def zero_relay_def
  from tiny_sender [of sk g rk, OF a(1,2)] obtain r' e' where
    r: "relay_run toy_backend tiny_build [(3, True, False), (4, True, True), (3, True, False)] (tiny_relay True sk rk)
        ((tiny_env [Got [104]] [])\<lparr>re_metrics := g\<rparr>) = Ok (r', e')" "rl_closed r'" "failures e' = 0"
      "sk_out (re_work e') = tiny_record" by blast
  have o: "ends_in_order tiny_build (tiny_relay True sk rk) ((tiny_env [Got [104]] [])\<lparr>re_metrics := g\<rparr>) r' e'"
    using r(2,3) a(2) by (simp add: order_simps)
  from tiny_receiver [of rk' g' sk', OF b(1,2)] obtain s' t' where
    s: "relay_run toy_backend tiny_build [(4, True, False), (3, True, True), (4, True, False)] (tiny_relay False sk' rk')
        ((tiny_env [] [Got tiny_record])\<lparr>re_metrics := g'\<rparr>) = Ok (s', t')" "rl_closed s'" "failures t' = 0" by blast
  have "ends_in_order tiny_build (tiny_relay False sk' rk') ((tiny_env [] [Got tiny_record])\<lparr>re_metrics := g'\<rparr>) s' t'"
    using s(2,3) b(2) by (simp add: order_simps)
  with s(1) show thesis
    by (intro that [OF a(3) b(3) r(1) o]) (auto simp: r(4) tiny_env_def tiny_relay_def zero_relay_def tiny_ring_def ring_contents_def)
qed

theorem relay_encrypted_end_to_end_witness:
  "\<exists>s t s' t'. opens toy_backend tiny_build (\<lambda>_ _. None) False tiny_params s t \<and>
     relay_run toy_backend tiny_build [(4, True, False)] s t = Ok (s', t') \<and> prefix (sk_out (re_direct t')) [104]"
proof -
  obtain r e s t r' e' where p: "opens toy_backend tiny_build (\<lambda>_ _. None) True tiny_params r e"
    "opens toy_backend tiny_build (\<lambda>_ _. None) (\<not> True) tiny_params s t"
    "relay_run toy_backend tiny_build [(3, True, False), (4, True, True), (3, True, False)] r e = Ok (r', e')"
    "arrives (sk_in (re_work t)) = sk_out (re_work e')"
    "sk_out (re_direct t) @ ring_contents (rl_to_direct s) @ arrives (sk_in (re_direct e)) = [104]"
    by (rule tiny_pair) blast
  from relay_encrypted_end_to_end [OF toy_backend_laws(2,4,3) p(1-3), of "[(4, True, False)]"] p(2,4,5) show ?thesis by auto
qed

theorem relay_encrypted_complete_witness:
  "\<exists>s t s' t'. opens toy_backend tiny_build (\<lambda>_ _. None) False tiny_params s t \<and>
     relay_run toy_backend tiny_build [(4, True, False), (3, True, True), (4, True, False)] s t = Ok (s', t') \<and>
     sk_out (re_direct t') = [104]"
proof -
  obtain r e s t r' e' s' t' where p: "opens toy_backend tiny_build (\<lambda>_ _. None) True tiny_params r e"
    "opens toy_backend tiny_build (\<lambda>_ _. None) (\<not> True) tiny_params s t"
    "relay_run toy_backend tiny_build [(3, True, False), (4, True, True), (3, True, False)] r e = Ok (r', e')"
    "ends_in_order tiny_build r e r' e'"
    "relay_run toy_backend tiny_build [(4, True, False), (3, True, True), (4, True, False)] s t = Ok (s', t')"
    "ends_in_order tiny_build s t s' t'" "arrives (sk_in (re_work t)) = sk_out (re_work e')"
    "sk_out (re_direct t) @ ring_contents (rl_to_direct s) @ arrives (sk_in (re_direct e)) = [104]"
    by (rule tiny_pair) blast
  from relay_encrypted_complete [OF toy_backend_laws(2,4,3) p(1-7)] p(2,5,8) show ?thesis by auto
qed

end
