(* ===== verification/Stream_Setup.thy ===== *)
theory Stream_Setup
  imports Server Client Relay_Encrypted
begin

text \<open>
  The start of a stream across both processes: the server offers it on a work connection
  (\<open>start_relay_begin\<close>), the client answers and starts its relay (\<open>begin_stream\<close>), the server reads the
  answer and starts its own (\<open>start_relay_finish\<close>). The contracts of the stream messages, of the key
  derivation and of the relays are put together here.
\<close>

section \<open>What was sent before does not matter\<close>

text \<open>
  A work connection has carried messages before a relay takes it over. The relay only appends to what
  was written, so it behaves as on a connection with nothing written yet.
\<close>

definition sent_before :: "bytes \<Rightarrow> sock \<Rightarrow> sock" where
  "sent_before p s = s\<lparr>sk_out := p @ sk_out s\<rparr>"

definition taken_over :: "bytes \<Rightarrow> relay_env \<Rightarrow> relay_env" where
  "taken_over p e = e\<lparr>re_work := sent_before p (re_work e)\<rparr>"

abbreviation taken :: "bytes \<Rightarrow> 'a \<times> ct_relay \<times> relay_env \<Rightarrow> 'a \<times> ct_relay \<times> relay_env" where
  "taken p \<equiv> (\<lambda>(a, r, e). (a, r, taken_over p e))"

lemma sent_before_simps [simp]:
  "sk_in (sent_before p s) = sk_in s" "sk_room (sent_before p s) = sk_room s" "sk_out (sent_before p s) = p @ sk_out s"
  "(sent_before p s)\<lparr>sk_in := x\<rparr> = sent_before p (s\<lparr>sk_in := x\<rparr>)" "(sent_before p s)\<lparr>sk_room := y\<rparr> = sent_before p (s\<lparr>sk_room := y\<rparr>)"
  by (simp_all add: sent_before_def)

lemma taken_over_simps [simp]:
  "re_direct (taken_over p e) = re_direct e" "re_metrics (taken_over p e) = re_metrics e" "re_effects (taken_over p e) = re_effects e"
  "re_work (taken_over p e) = sent_before p (re_work e)" "meter f (taken_over p e) = taken_over p (meter f e)"
  "(taken_over p e)\<lparr>re_direct := s\<rparr> = taken_over p (e\<lparr>re_direct := s\<rparr>)" "(taken_over p e)\<lparr>re_effects := x\<rparr> = taken_over p (e\<lparr>re_effects := x\<rparr>)"
  "(taken_over p e)\<lparr>re_work := sent_before p s\<rparr> = taken_over p (e\<lparr>re_work := s\<rparr>)"
  by (simp_all add: taken_over_def meter_def)

lemma map_res_andthen: "map_res f (andthen r g) = andthen r (\<lambda>x. map_res f (g x))"
  by (cases r) simp_all

lemma andthen_map_res: "andthen (map_res f r) g = andthen r (\<lambda>x. g (f x))"
  by (cases r) simp_all

lemmas taken_push = map_res_andthen andthen_map_res if_distrib [of "map_res _"] res.case_distrib [of "map_res _"] prod.case_distrib [of "map_res _"]
  sum.case_distrib [of "map_res _"]

lemma once_taken:
  "recv_once (sent_before p s) n = map_prod id (sent_before p) (recv_once s n)"
  "send_once (sent_before p s) b = map_prod id (sent_before p) (send_once s b)"
  by (auto simp: recv_once_def send_once_def sent_before_def split: list.splits recv_event.splits send_event.splits)

lemma flush_taken: "flush (sent_before p s) r = map_res (\<lambda>(ok, s, r). (ok, sent_before p s, r)) (flush s r)"
  by (auto simp: flush_def once_taken taken_push intro!: arg_cong [of _ _ "andthen _"] split: prod.splits sum.splits)

lemma sync_taken: "sync_buffer_metric k r (taken_over p e) = map_prod id (taken_over p) (sync_buffer_metric k r e)"
  by (simp add: sync_buffer_metric_def Let_def)

lemma close_taken: "ct_relay_close k r (taken_over p e) = map_prod id (taken_over p) (ct_relay_close k r e)"
  by (simp add: ct_relay_close_def sync_buffer_metric_def Let_def)

lemma flush_relay_taken: "flush_relay d r (taken_over p e) = map_res (taken p) (flush_relay d r e)"
  by (cases d) (auto simp: flush_relay_def flush_taken taken_push Let_def intro!: arg_cong [of _ _ "andthen _"] split: prod.splits)

lemma encrypt_taken: "encrypt_chunk B k r (taken_over p e) b = map_res (taken p) (encrypt_chunk B k r e b)"
  by (auto simp: encrypt_chunk_def taken_push Let_def intro!: arg_cong [of _ _ "andthen _"] split: prod.splits res.splits)

lemma decrypt_turn_taken: "decrypt_turn B k r (taken_over p e) = map_res (taken p) (decrypt_turn B k r e)"
  by (simp add: decrypt_turn_def Let_def andthen_def split: res.split prod.split)

lemma decrypt_taken: "decrypt_ready B k r (taken_over p e) = map_res (taken p) (decrypt_ready B k r e)"
proof (induction B k r e rule: decrypt_ready.induct)
  case (1 B k r e)
  show ?case
  proof (cases "decrypt_turn B k r e")
    case (Ok x)
    obtain c r' e' where x: "x = (c, r', e')" by (metis prod_cases3)
    with Ok 1 show ?thesis
      by (cases c) (auto simp: decrypt_ready.simps [of B k r] decrypt_turn_taken)
  qed (simp_all add: decrypt_ready.simps [of B k r] decrypt_turn_taken)
qed

lemma read_taken:
  "read_direct B k r (taken_over p e) = map_res (taken p) (read_direct B k r e)"
  "read_work B k r (taken_over p e) = map_res (taken p) (read_work B k r e)"
  by (auto simp: read_direct_def read_work_def once_taken encrypt_taken decrypt_taken taken_push Let_def
      intro!: arg_cong [of _ _ "andthen _"] split: prod.splits sum.splits)

lemma stage_taken:
  assumes "\<And>r e. f r (taken_over p e) = map_res (taken p) (f r e)"
  shows "stage wanted f k (taken p st) = map_res (taken p) (stage wanted f k st)"
  by (auto simp: stage_def assms sync_taken taken_push Let_def intro!: arg_cong [of _ _ "andthen _"] split: prod.splits)

lemma stages_taken: "relay_stages B k r (taken_over p e) f readable writable = map_res (taken p) (relay_stages B k r e f readable writable)"
proof -
  note st = stage_taken [of _ p]
  have "stage w (flush_relay d) k (True, r, taken_over p e) = map_res (taken p) (stage w (flush_relay d) k (True, r, e))" for w d
    using st [of "flush_relay d" w k "(True, r, e)"] by (simp add: flush_relay_taken)
  moreover have "stage w (decrypt_ready B k) k (taken p x) = map_res (taken p) (stage w (decrypt_ready B k) k x)" for w x
    by (rule st) (rule decrypt_taken)
  moreover have "stage w (read_direct B k) k (taken p x) = map_res (taken p) (stage w (read_direct B k) k x)"
    "stage w (read_work B k) k (taken p x) = map_res (taken p) (stage w (read_work B k) k x)" for w x
    by (rule st, simp add: read_taken)+
  moreover have "fst (snd (taken p x)) = fst (snd x)" for x :: "bool \<times> ct_relay \<times> relay_env" by (cases x) simp
  ultimately show ?thesis
    by (auto simp: relay_stages_def taken_push Let_def simp del: split_paired_All intro!: arg_cong [of _ _ "andthen _"] ext)
qed

lemma end_taken: "relay_end k (taken p st) = taken p (relay_end k st)"
  by (auto simp: relay_end_def close_taken Let_def split: prod.splits)

lemma process_taken: "ct_relay_process B k r (taken_over p e) f readable writable = map_res (taken p) (ct_relay_process B k r e f readable writable)"
  by (auto simp: ct_relay_process_def stages_taken end_taken taken_push)

lemma run_taken: "relay_run B k evs r (taken_over p e) = map_res (\<lambda>(r, e). (r, taken_over p e)) (relay_run B k evs r e)"
proof (induction evs arbitrary: r e)
  case (Cons ev evs)
  obtain f readable writable where ev: "ev = (f, readable, writable)" by (metis prod_cases3)
  show ?case by (simp add: ev process_taken taken_push Cons.IH case_prod_unfold)
qed simp

lemma init_taken:
  "ct_relay_init B k ntop m1 m2 m3 d w client mode cipher master sid rnd wid svc md (taken_over p e) =
     map_res (taken p) (ct_relay_init B k ntop m1 m2 m3 d w client mode cipher master sid rnd wid svc md e)"
proof -
  have f: "relay_fail k r (taken_over p e) = taken p (relay_fail k r e)" for r e by (simp add: relay_fail_def close_taken split: prod.splits)
  have s: "relay_start r (taken_over p e) = taken p (relay_start r e)" for r e by (simp add: relay_start_def)
  have m: "relay_header k ntop m r (taken_over p e) = map_res (taken p) (relay_header k ntop m r e)" for m r
    by (simp add: relay_header_def f s andthen_def Let_def split: res.split prod.split)
  show ?thesis by (auto simp: ct_relay_init_def f s m Let_def split: res.splits option.splits)
qed

section \<open>Streams on used connections\<close>

text \<open>A relay opened with the parameters of a stream, whatever its work connection carried before.\<close>

definition opened ::
  "monocypher \<Rightarrow> autoconf \<Rightarrow> (u8 \<Rightarrow> bytes \<Rightarrow> bytes option) \<Rightarrow> bool \<Rightarrow> stream_params \<Rightarrow> ct_relay \<Rightarrow> relay_env \<Rightarrow> bool" where
  "opened B k ntop client sp r e \<longleftrightarrow> (\<exists>a b c d w md e0.
     ct_relay_init B k ntop (Some a) (Some b) (Some c) d w client CT_ENC_REQUIRED CT_CIPHER_CHACHA (sp_master sp)
       (sp_stream sp) (sp_random sp) (sp_work sp) (sp_service sp) md e0 = Ok (True, r, e) \<and>
     length a = k_stream_buffer k \<and> length b = k_stream_buffer k \<and> length c = k_stream_buffer k \<and>
     0 < k_stream_buffer k \<and> k_data_encryption k)"

lemma opened_fresh:
  assumes "opened B k ntop client sp r e"
  obtains e' where "opens B k ntop client sp r e'" "e = taken_over (sk_out (re_work e)) e'"
proof -
  from assms obtain a b c d w md e0 where
    i: "ct_relay_init B k ntop (Some a) (Some b) (Some c) d w client CT_ENC_REQUIRED CT_CIPHER_CHACHA (sp_master sp)
       (sp_stream sp) (sp_random sp) (sp_work sp) (sp_service sp) md e0 = Ok (True, r, e)"
    and len: "length a = k_stream_buffer k" "length b = k_stream_buffer k" "length c = k_stream_buffer k" "0 < k_stream_buffer k" "k_data_encryption k"
    by (auto simp: opened_def)
  let ?p = "sk_out (re_work e0)" and ?e0 = "e0\<lparr>re_work := (re_work e0)\<lparr>sk_out := []\<rparr>\<rparr>"
  have e0: "e0 = taken_over ?p ?e0" by (simp add: taken_over_def sent_before_def)
  from init_taken [of B k ntop "Some a" "Some b" "Some c" d w client CT_ENC_REQUIRED CT_CIPHER_CHACHA "sp_master sp" "sp_stream sp" "sp_random sp"
      "sp_work sp" "sp_service sp" md ?p ?e0] i e0
  obtain e' where e': "ct_relay_init B k ntop (Some a) (Some b) (Some c) d w client CT_ENC_REQUIRED CT_CIPHER_CHACHA (sp_master sp)
       (sp_stream sp) (sp_random sp) (sp_work sp) (sp_service sp) md ?e0 = Ok (True, r, e')" "e = taken_over ?p e'"
    by (cases "ct_relay_init B k ntop (Some a) (Some b) (Some c) d w client CT_ENC_REQUIRED CT_CIPHER_CHACHA (sp_master sp)
       (sp_stream sp) (sp_random sp) (sp_work sp) (sp_service sp) md ?e0") auto
  have o: "opens B k ntop client sp r e'" using e'(1) len unfolding opens_def by (intro exI conjI) (assumption | simp)+
  have "re_work e = re_work e0" using init_started [OF i] by (auto simp: started_from_def)
  then show thesis using that [OF o] e'(2) by simp
qed

lemma sealed_pair:
  assumes B: "aead_sizes B" "aead_exact B" "aead_opens B"
    and o: "opens B k ntop c sp r e" "opens B k' ntop' (\<not> c) sp s t" and run: "relay_run B k evs r e = Ok (r', e')"
    and carried: "prefix (arrives (sk_in (re_work t))) (sk_out (re_work e'))"
  shows "\<exists>s' t'. relay_run B k' evs' s t = Ok (s', t') \<and>
    prefix (sk_out (re_direct t')) (sk_out (re_direct t) @ ring_contents (rl_to_direct s) @ arrives (sk_in (re_direct e)))"
  by (rule opened_pair [OF o B(1,2)]) (rule sealed_end_to_end [OF _ _ _ _ _ _ _ _ B(3) run carried])

text \<open>
  One direction of a stream: whatever the events on both sides, as long as the work connection of the
  receiving relay delivers a prefix of what the sending relay wrote to its own, the receiving relay
  runs safely and has passed on a prefix of what the sending relay's direct socket delivered, behind its own
  initial content.
\<close>

definition carries ::
  "monocypher \<Rightarrow> autoconf \<Rightarrow> autoconf \<Rightarrow> ct_relay \<Rightarrow> relay_env \<Rightarrow> ct_relay \<Rightarrow> relay_env \<Rightarrow> bool" where
  "carries B k k' r e s t \<longleftrightarrow> (\<forall>evs evs' r' e'.
     relay_run B k evs r e = Ok (r', e') \<and> prefix (sk_out (re_work e) @ arrives (sk_in (re_work t))) (sk_out (re_work e')) \<longrightarrow>
     (\<exists>s' t'. relay_run B k' evs' s t = Ok (s', t') \<and>
        prefix (sk_out (re_direct t')) (sk_out (re_direct t) @ ring_contents (rl_to_direct s) @ arrives (sk_in (re_direct e)))))"

lemma opened_carries:
  assumes B: "aead_sizes B" "aead_exact B" "aead_opens B" and o: "opened B k ntop c sp r e" "opened B k' ntop' (\<not> c) sp s t"
  shows "carries B k k' r e s t"
  unfolding carries_def
proof (intro allI impI, elim conjE)
  fix evs evs' r' e'
  assume run: "relay_run B k evs r e = Ok (r', e')" and carried: "prefix (sk_out (re_work e) @ arrives (sk_in (re_work t))) (sk_out (re_work e'))"
  obtain e0 where e0: "opens B k ntop c sp r e0" "e = taken_over (sk_out (re_work e)) e0" using opened_fresh [OF o(1)] .
  obtain t0 where t0: "opens B k' ntop' (\<not> c) sp s t0" "t = taken_over (sk_out (re_work t)) t0" using opened_fresh [OF o(2)] .
  from run run_taken [of B k evs r "sk_out (re_work e)" e0] e0(2) obtain e1 where
    e1: "relay_run B k evs r e0 = Ok (r', e1)" "e' = taken_over (sk_out (re_work e)) e1"
    by (cases "relay_run B k evs r e0") auto
  have "arrives (sk_in (re_work t0)) = arrives (sk_in (re_work t))" using arg_cong [OF t0(2), of "sk_in \<circ> re_work"] by simp
  with carried e1(2) have "prefix (arrives (sk_in (re_work t0))) (sk_out (re_work e1))" by simp
  from sealed_pair [OF B e0(1) t0(1) e1(1) this, of evs'] obtain s' t1 where
    s: "relay_run B k' evs' s t0 = Ok (s', t1)"
      "prefix (sk_out (re_direct t1)) (sk_out (re_direct t0) @ ring_contents (rl_to_direct s) @ arrives (sk_in (re_direct e0)))" by blast
  have d: "re_direct e0 = re_direct e" "re_direct t0 = re_direct t"
    using arg_cong [OF e0(2), of re_direct] arg_cong [OF t0(2), of re_direct] by simp_all
  have "relay_run B k' evs' s t = Ok (s', taken_over (sk_out (re_work t)) t1)"
    using s(1) run_taken [of B k' evs' s "sk_out (re_work t)" t0] t0(2) by simp
  with s(2) d show "\<exists>s' t'. relay_run B k' evs' s t = Ok (s', t') \<and>
      prefix (sk_out (re_direct t')) (sk_out (re_direct t) @ ring_contents (rl_to_direct s) @ arrives (sk_in (re_direct e)))" by auto
qed

section \<open>Relays started by the two programs\<close>

lemma buffers_frame:
  "ifok (\<lambda>r. rl_direct r = rl_direct r0 \<and> rl_work r = rl_work r0 \<and> rl_closed r = rl_closed r0)
     (relay_buffers B k m1 m2 m3 client mode master sid rnd wid svc r0)"
  unfolding relay_buffers_def Let_def ensure_def by (intro ifok_intros) simp_all

lemma init_frame:
  assumes "ct_relay_init B k ntop m1 m2 m3 d w client mode cipher master sid rnd wid svc md e0 = Ok (True, r, e)"
  shows "re_effects e = re_effects e0" "re_work e = re_work e0" "re_direct e = re_direct e0" "rl_direct r = d" "rl_work r = w" "\<not> rl_closed r"
proof -
  have h: "relay_header k ntop m r1 x = Ok (True, r, e) \<Longrightarrow> re_effects e = re_effects x \<and> rl_direct r = rl_direct r1 \<and> rl_work r = rl_work r1 \<and> rl_closed r = rl_closed r1" for m r1 x
    by (auto simp: relay_header_def relay_fail_def relay_start_def Let_def res_simps case_Ok_iff split: if_splits)
  have s: "relay_start r1 x = (True, r, e) \<Longrightarrow> re_effects e = re_effects x \<and> rl_direct r = rl_direct r1 \<and> rl_work r = rl_work r1 \<and> rl_closed r = rl_closed r1" for r1 x
    by (auto simp: relay_start_def)
  obtain r1 where r1: "relay_buffers B k m1 m2 m3 client mode master sid rnd wid svc ((zero_relay d w client)
      \<lparr>rl_encrypted := k_data_encryption k \<and> mode = CT_ENC_REQUIRED, rl_cipher := (if k_data_encryption k then cipher else 0)\<rparr>) = Ok r1"
    using init_started [OF assms] by blast
  let ?e = "if client then meter (ct_metric_inc CT_METRIC_PROXY_PROTOCOL_DISABLED_CONNECTIONS_TOTAL) e0 else e0"
  have "relay_start r1 ?e = (True, r, e) \<or> (\<exists>m. relay_header k ntop m r1 e0 = Ok (True, r, e))"
    using assms r1 by (simp add: ct_relay_init_def Let_def split: option.splits if_splits) blast+
  moreover have "rl_direct r1 = d" "rl_work r1 = w" "\<not> rl_closed r1" using ifokD [OF buffers_frame r1] by (simp_all add: zero_relay_def)
  moreover have "re_effects ?e = re_effects e0" by simp
  ultimately have "re_effects e = re_effects e0 \<and> rl_direct r = d \<and> rl_work r = w \<and> \<not> rl_closed r" using s [of r1 ?e] h by metis
  then show "re_effects e = re_effects e0" "rl_direct r = d" "rl_work r = w" "\<not> rl_closed r" by simp_all
  show "re_work e = re_work e0" "re_direct e = re_direct e0" using init_started [OF assms] by (auto simp: started_from_def)
qed

lemma init_unstarted:
  assumes "ct_relay_init B k ntop m1 m2 m3 d w client mode cipher master sid rnd wid svc md e0 = Ok (started, r, e)" "\<not> rl_closed r"
  shows "started"
proof -
  have f: "rl_closed (fst (snd (relay_fail k x y)))" for x y
    using close_effect [of k x y] by (auto simp: relay_fail_def)
  have "ifok (\<lambda>(started, r, e). started \<or> rl_closed r)
      (ct_relay_init B k ntop m1 m2 m3 d w client mode cipher master sid rnd wid svc md e0)"
    unfolding ct_relay_init_def relay_header_def Let_def using f
    by (intro ifok_intros) (auto simp: relay_start_def case_prod_unfold)
  from ifokD [OF this assms(1)] assms(2) show ?thesis by simp
qed

lemma view_back: "d \<noteq> w \<Longrightarrow> re_effects re = [] \<Longrightarrow> relay_view (relay_back e d w re) d w = re"
  by (simp add: relay_view_def relay_back_def put_sock_def close_fds_def)

text \<open>\<open>malloc\<close> returns blocks of the size it was asked for.\<close>

definition blocks :: "autoconf \<Rightarrow> (nat \<Rightarrow> bytes option) \<Rightarrow> bool" where
  "blocks k ring \<longleftrightarrow> (\<forall>i b. ring i = Some b \<longrightarrow> length b = k_stream_buffer k)"

lemma init_opened:
  assumes i: "ct_relay_init B k ntop (ring 0) (ring 1) (ring 2) d w client CT_ENC_REQUIRED CT_CIPHER_CHACHA master sid rnd wid svc md e0 = Ok (True, r, e)"
    and k: "blocks k ring" "0 < k_stream_buffer k" "k_data_encryption k"
  shows "opened B k ntop client \<lparr>sp_master = master, sp_stream = sid, sp_random = rnd, sp_work = wid, sp_service = svc\<rparr> r e"
proof -
  from init_started [OF i] k(3) obtain a b c where m: "ring 0 = Some a" "ring 1 = Some b" "ring 2 = Some c"
    by (auto simp: relay_buffers_def ct_ring_init_def Let_def res_simps split: option.splits)
  then have "length a = k_stream_buffer k" "length b = k_stream_buffer k" "length c = k_stream_buffer k" using k(1) by (auto simp: blocks_def)
  with i [unfolded m] k(2,3) show ?thesis unfolding opened_def
    by (intro exI [of _ a] exI [of _ b] exI [of _ c] exI [of _ d] exI [of _ w] exI [of _ md] exI [of _ e0]) simp
qed

text \<open>The parameters of a stream, as the server has them.\<close>

definition params_of :: "ct_control \<Rightarrow> ct_work \<Rightarrow> bytes \<Rightarrow> u64 \<Rightarrow> bytes \<Rightarrow> stream_params" where
  "params_of ctl work service sid rnd = \<lparr>sp_master = data_master (cc_keys ctl), sp_stream = sid, sp_random = rnd,
     sp_work = wk_id work, sp_service = service\<rparr>"

lemma server_opens:
  assumes run: "start_relay_finish B k os p st e = Ok (True, p', e')" and slot: "index_of (\<lambda>r. rl_closed r \<or> rl_direct r = CT_INVALID_SOCKET) (pe_relays p) = Some j"
    and s: "svc_at p (pc_svc (st_pending st)) = Ok s" "sv_encryption (sr_cfg s) = CT_ENC_REQUIRED" "cc_cipher (pe_ctl p) = CT_CIPHER_CHACHA"
    and k: "blocks k (os_ring os (st_stream_id st))" "0 < k_stream_buffer k" "k_data_encryption k" and fds: "pc_fd (st_pending st) \<noteq> wk_fd (st_work st)"
  shows "opened B k (\<lambda>_ _. None) False (params_of (pe_ctl p) (st_work st) (sv_id (sr_cfg s)) (st_stream_id st) (st_random st)) (pe_relays p' ! j)
    (relay_view e' (pc_fd (st_pending st)) (wk_fd (st_work st)))"
proof -
  let ?d = "pc_fd (st_pending st)" and ?w = "wk_fd (st_work st)"
  have j: "j < length (pe_relays p)" using index_of_Some [OF slot] by simp
  from run slot s(1) obtain e1 r re where
    i: "ct_relay_init B k (\<lambda>_ _. None) (os_ring os (st_stream_id st) 0) (os_ring os (st_stream_id st) 1) (os_ring os (st_stream_id st) 2) ?d ?w False
      (sv_encryption (sr_cfg s)) (cc_cipher (pe_ctl p)) (data_master (cc_keys (pe_ctl p))) (st_stream_id st) (st_random st) (wk_id (st_work st))
      (sv_id (sr_cfg s)) None (relay_view e1 ?d ?w) = Ok (True, r, re)"
    and out: "p' = p\<lparr>pe_relays := (pe_relays p)[j := r]\<rparr>" "e' = relay_back e1 ?d ?w re"
    using k(3) by (auto simp: start_relay_finish_def Let_def res_simps case_Ok_iff split: if_splits)
  have "re_effects re = []" using init_frame(1) [OF i] by (simp add: relay_view_def)
  with view_back [OF fds] out j init_opened [OF i [unfolded s(2,3)] k] show ?thesis by (simp add: params_of_def)
qed

text \<open>A slot of the client that becomes busy: the answer was sent and the relay started.\<close>

lemma client_starts:
  assumes run: "begin_stream B k os cfg w st c e = Ok (c', e')" and nul: "nul_free (ss_service st)"
    and slot: "i < length (cl_relays c)" "rl_closed (cl_relays c ! i)" "\<not> rl_closed (cl_relays c' ! i)"
  obtains sk e2 re fd where
    "ct_stream_ready_send B k w (cl_ctl c) (ss_service st) (ss_mode st) (ss_sid st) (ss_random st) True (we_socks e (wk_fd w)) = (Ok (), sk)"
    "ct_relay_init B k (co_ntop os) (co_ring os 0) (co_ring os 1) (co_ring os 2) fd (wk_fd w) True (ss_mode st) (cc_cipher (cl_ctl c))
      (if k_data_encryption k then data_master (cc_keys (cl_ctl c)) else []) (ss_sid st) (ss_random st) (wk_id w) (ss_service st) (Some (ss_metadata st))
      (relay_view e2 fd (wk_fd w)) = Ok (True, cl_relays c' ! i, re)"
    "e' = relay_back e2 fd (wk_fd w) re" "we_socks e2 (wk_fd w) = sk" "rl_direct (cl_relays c' ! i) = fd"
proof -
  obtain svc e1 where ss: "stream_service cfg st e = (svc, e1)" by fastforce
  then have sock: "we_socks e1 = we_socks e" by (auto simp: stream_service_def Let_def split: option.splits if_splits)
  obtain l closed where loc: "(case svc of None \<Rightarrow> (None, []) | Some s \<Rightarrow> ct_net_connect (co_connect os (sv_local_addr s) (sv_local_port s))) = (l, closed)"
    by (rule prod.exhaust)
  obtain x sk where ready: "ct_stream_ready_send B k w (cl_ctl c) (ss_service st) (ss_mode st) (ss_sid st) (ss_random st) True
      (we_socks e (wk_fd w)) = (x, sk)" by fastforce
  let ?e2 = "put_sock (wk_fd w) sk (close_fds closed e1)"
  have "c' \<noteq> c" using slot by auto
  then obtain fd j started r re where j: "index_of rl_closed (cl_relays c) = Some j" and x: "x = Ok ()"
    and i: "ct_relay_init B k (co_ntop os) (co_ring os 0) (co_ring os 1) (co_ring os 2) fd (wk_fd w) True (ss_mode st) (cc_cipher (cl_ctl c))
      (if k_data_encryption k then data_master (cc_keys (cl_ctl c)) else []) (ss_sid st) (ss_random st) (wk_id w) (ss_service st) (Some (ss_metadata st))
      (relay_view ?e2 fd (wk_fd w)) = Ok (started, r, re)"
    and c': "c' = c\<lparr>cl_relays := (cl_relays c)[j := r]\<rparr>" and e': "started \<longrightarrow> e' = relay_back ?e2 fd (wk_fd w) re"
    using run nul ready sock
    by (cases l; cases "index_of rl_closed (cl_relays c)"; cases x)
      (auto simp: begin_stream_def ss loc Let_def res_simps case_Ok_iff split: prod.splits)
  have r: "cl_relays c' ! i = r" using slot c' index_of_Some [OF j] by (cases "i = j"; simp)
  then have t: "started = True" using init_unstarted [OF i] slot(3) by simp
  show thesis
    by (rule that [of sk fd ?e2 re]) (use ready x i e' r t init_frame(4) in \<open>simp_all add: put_sock_def\<close>)
qed

lemma client_opens:
  assumes run: "begin_stream B k os cfg w st c e = Ok (c', e')" and slot: "i < length (cl_relays c)" "rl_closed (cl_relays c ! i)" "\<not> rl_closed (cl_relays c' ! i)"
    and s: "ss_mode st = CT_ENC_REQUIRED" "cc_cipher (cl_ctl c) = CT_CIPHER_CHACHA" "nul_free (ss_service st)"
    and k: "blocks k (co_ring os)" "0 < k_stream_buffer k" "k_data_encryption k" and fds: "rl_direct (cl_relays c' ! i) \<noteq> wk_fd w"
  shows "opened B k (co_ntop os) True (params_of (cl_ctl c) w (ss_service st) (ss_sid st) (ss_random st)) (cl_relays c' ! i)
      (relay_view e' (rl_direct (cl_relays c' ! i)) (wk_fd w))"
proof -
  obtain e2 re fd where i: "ct_relay_init B k (co_ntop os) (co_ring os 0) (co_ring os 1) (co_ring os 2) fd (wk_fd w) True CT_ENC_REQUIRED CT_CIPHER_CHACHA
      (data_master (cc_keys (cl_ctl c))) (ss_sid st) (ss_random st) (wk_id w) (ss_service st) (Some (ss_metadata st))
      (relay_view e2 fd (wk_fd w)) = Ok (True, cl_relays c' ! i, re)"
    and e': "e' = relay_back e2 fd (wk_fd w) re" and fd: "rl_direct (cl_relays c' ! i) = fd"
    by (rule client_starts [OF run s(3) slot]) (simp add: k(3) s(1,2))
  have "re_effects re = []" using init_frame(1) [OF i] by (simp add: relay_view_def)
  with view_back [of fd "wk_fd w"] fds init_opened [OF i k] show ?thesis by (simp add: e' fd params_of_def)
qed

section \<open>The start of a stream\<close>

text \<open>Both ends of a session: the same keys and name, and the cipher the handshake chose.\<close>

definition shared_session :: "ct_control \<Rightarrow> ct_control \<Rightarrow> bool" where
  "shared_session c d \<longleftrightarrow> cc_keys d = cc_keys c \<and> cc_client_id d = cc_client_id c \<and> cc_cipher c = CT_CIPHER_CHACHA \<and> cc_cipher d = CT_CIPHER_CHACHA"

text \<open>What the client learns from an offer of the server.\<close>

definition offer_of :: "server_service \<Rightarrow> starting_conn \<Rightarrow> start_stream" where
  "offer_of s st = \<lparr>ss_service = sv_id (sr_cfg s), ss_sid = st_stream_id st, ss_mode = sv_encryption (sr_cfg s),
     ss_metadata = pc_metadata (st_pending st), ss_random = st_random st\<rparr>"

text \<open>
  The offer is one the formats are made for: the names fit the fixed buffers, addresses are proper
  and the random number generator fills its buffer.
\<close>

definition offerable :: "autoconf \<Rightarrow> os \<Rightarrow> server_peer \<Rightarrow> server_service \<Rightarrow> pending_conn \<Rightarrow> bool" where
  "offerable k os p s pending \<longleftrightarrow> start_fits k (pe_ctl p) (sv_id (sr_cfg s)) \<and> nul_free (sv_id (sr_cfg s)) \<and> metadata_ok (pc_metadata pending) \<and>
     sv_encryption (sr_cfg s) \<in> {CT_ENC_REQUIRED, CT_ENC_DISABLED} \<and>
     (\<forall>rnd. os_random os (next_id (pe_next_stream p)) = Some rnd \<longrightarrow> length rnd = 32)"

lemma begin_offers:
  assumes "start_relay_begin B k os p pending work ms e = Ok (True, p', e')" "svc_at p (pc_svc pending) = Ok s"
  obtains rnd sk where "os_random os (next_id (pe_next_stream p)) = Some rnd"
    "ct_start_stream_send B k work (pe_ctl p) (sv_id (sr_cfg s)) (next_id (pe_next_stream p)) (sv_encryption (sr_cfg s)) (Some (pc_metadata pending))
       (Some rnd) (we_socks e (wk_fd work)) = (Ok rnd, sk)"
    "e' = put_sock (wk_fd work) sk e" "last (pe_starting p') = \<lparr>st_pending = pending, st_work = work, st_stream_id = next_id (pe_next_stream p),
       st_deadline = os_clock os (next_id (pe_next_stream p)) + ms, st_random = rnd, st_read_retry = 0\<rparr>"
    "pe_ctl p' = pe_ctl p" "pe_svc p' = pe_svc p" "pe_relays p' = pe_relays p"
proof -
  let ?sid = "next_id (pe_next_stream p)"
  let ?send = "ct_start_stream_send B k work (pe_ctl p) (sv_id (sr_cfg s)) ?sid (sv_encryption (sr_cfg s)) (Some (pc_metadata pending))
       (os_random os ?sid) (we_socks e (wk_fd work))"
  obtain x sk where x: "?send = (x, sk)" by fastforce
  with assms obtain rnd where rnd: "x = Ok rnd" "e' = put_sock (wk_fd work) sk e"
    "p' = p\<lparr>pe_next_stream := ?sid, pe_starting := pe_starting p @ [\<lparr>st_pending = pending, st_work = work, st_stream_id = ?sid,
       st_deadline = os_clock os ?sid + ms, st_random = rnd, st_read_retry = 0\<rparr>]\<rparr>"
    by (cases x) (auto simp: start_relay_begin_def Let_def split: if_splits)
  moreover have "os_random os ?sid = Some rnd"
    using x rnd(1) by (cases "os_random os ?sid")
      (auto simp: ct_start_stream_send_def start_stream_payload_def Let_def res_simps split: res.splits prod.splits if_splits option.splits)
  ultimately show thesis using that [of rnd sk] x by simp
qed

definition small_frames :: "autoconf \<Rightarrow> bool" where
  "small_frames k \<longleftrightarrow> k_control_buffer k \<le> 65536 \<and> k_max_frame k \<le> 2 ^ 32 - 1"

lemma offer_arrives:
  assumes B: "hash_sizes B" and k: "small_frames k"
    and session: "shared_session (pe_ctl p) (cl_ctl c)" "wk_id w = wk_id work" "length (wk_id work) = 32"
    and offer: "start_relay_begin B k os p pending work ms e0 = Ok (True, p1, e1)" "svc_at p (pc_svc pending) = Ok s" "offerable k os p s pending"
    and wire: "flowing 60000 (sk_in t)" "sk_out (we_socks e1 (wk_fd work)) = sk_out (we_socks e0 (wk_fd work)) @ arrives (sk_in t)"
  shows "fst (ct_start_stream_recv B k w (cl_ctl c) (k_max_service_id k + 1) garbage t) = Ok (offer_of s (last (pe_starting p1)))"
proof (rule begin_offers [OF offer(1,2)])
  let ?svc = "sv_id (sr_cfg s)"
  fix rnd sk
  assume rnd: "os_random os (next_id (pe_next_stream p)) = Some rnd"
    and send: "ct_start_stream_send B k work (pe_ctl p) ?svc (next_id (pe_next_stream p)) (sv_encryption (sr_cfg s)) (Some (pc_metadata pending))
       (Some rnd) (we_socks e0 (wk_fd work)) = (Ok rnd, sk)" and e1: "e1 = put_sock (wk_fd work) sk e0"
    and st: "last (pe_starting p1) = \<lparr>st_pending = pending, st_work = work, st_stream_id = next_id (pe_next_stream p),
       st_deadline = os_clock os (next_id (pe_next_stream p)) + ms, st_random = rnd, st_read_retry = 0\<rparr>"
  note fit = offer(3) [unfolded offerable_def]
  have len: "length rnd = 32" and idcap: "length ?svc < k_max_service_id k + 1" using fit rnd by (auto simp: start_fits_def)
  have peer: "cc_keys (cl_ctl c) = cc_keys (pe_ctl p)" "cc_client_id (cl_ctl c) = cc_client_id (pe_ctl p)" using session(1) by (simp_all add: shared_session_def)
  have out: "sk_out sk = sk_out (we_socks e0 (wk_fd work)) @ arrives (sk_in t)" using wire(2) by (simp add: e1 put_sock_def)
  show ?thesis
    using start_stream_roundtrip [OF B _ session(3) len _ _ _ idcap _ _ peer session(2) send wire(1) out, of garbage] fit k
    by (simp add: offer_of_def st small_frames_def)
qed

lemma answer_arrives:
  assumes B: "hash_sizes B" and k: "small_frames k"
    and session: "shared_session (pe_ctl p) (cl_ctl c)" "wk_id w = wk_id work" "length (wk_id work) = 32"
    and offer: "start_relay_begin B k os p pending work ms e0 = Ok (True, p1, e1)" "svc_at p (pc_svc pending) = Ok s" "offerable k os p s pending"
    and client: "begin_stream B k cos cfg w (offer_of s (last (pe_starting p1))) c ec = Ok (c', ec')" "i < length (cl_relays c)" "rl_closed (cl_relays c ! i)"
      "\<not> rl_closed (cl_relays c' ! i)" "rl_direct (cl_relays c' ! i) \<noteq> wk_fd w"
    and wire: "flowing 5000 (sk_in u)" "sk_out (we_socks ec' (wk_fd w)) = sk_out (we_socks ec (wk_fd w)) @ arrives (sk_in u)"
  shows "fst (ct_stream_ready_recv B k work (pe_ctl p1) (sv_id (sr_cfg s)) (sv_encryption (sr_cfg s)) (st_stream_id (last (pe_starting p1)))
    (st_random (last (pe_starting p1))) u) = Ok True"
proof -
  let ?st = "last (pe_starting p1)" and ?svc = "sv_id (sr_cfg s)"
  note fit = offer(3) [unfolded offerable_def]
  have st: "length (st_random ?st) = 32" and ctl: "pe_ctl p1 = pe_ctl p" by (rule begin_offers [OF offer(1,2)], use fit in simp)+
  have k: "k_control_buffer k \<le> 65536" "k_max_frame k \<le> 2 ^ 32 - 1" using k by (simp_all add: small_frames_def)
  have peer: "cc_keys (pe_ctl p) = cc_keys (cl_ctl c)" "cc_client_id (pe_ctl p) = cc_client_id (cl_ctl c)" using session(1) by (simp_all add: shared_session_def)
  have nul: "nul_free (ss_service (offer_of s ?st))" using fit by (simp add: offer_of_def)
  obtain sk e2 re fd where
    ready: "ct_stream_ready_send B k w (cl_ctl c) ?svc (sv_encryption (sr_cfg s)) (st_stream_id ?st) (st_random ?st) True (we_socks ec (wk_fd w)) = (Ok (), sk)"
    and re: "re_work re = we_socks e2 (wk_fd w)" "ec' = relay_back e2 fd (wk_fd w) re" "we_socks e2 (wk_fd w) = sk" "rl_direct (cl_relays c' ! i) = fd"
    by (rule client_starts [OF client(1) nul client(2-4)]) (auto simp: offer_of_def relay_view_def dest: init_frame(2))
  have "we_socks ec' (wk_fd w) = sk" using re client(5) by (simp add: relay_back_def put_sock_def)
  then have out: "sk_out sk = sk_out (we_socks ec (wk_fd w)) @ arrives (sk_in u)" using wire(2) by simp
  have fits: "start_fits k (cl_ctl c) ?svc" "nul_free ?svc" using fit peer(2) by (simp_all add: start_fits_def)
  have "length (wk_id w) = 32" using session by simp
  from stream_ready_roundtrip [OF B this st fits k peer session(2) [symmetric] ready wire(1) out] show ?thesis by (simp add: ctl)
qed

text \<open>
  C7: the two programs agree on a stream before either relays a byte. When the server has offered a
  stream on a work connection, the client that reads the offer from the other end obtains exactly the
  service, stream number, encryption mode, addresses and random value the server remembers for it; and
  when the client then starts a relay, the server that reads the client's answer learns that it did.
\<close>

theorem stream_start_agrees:
  assumes "hash_sizes B" "small_frames k" "shared_session (pe_ctl p) (cl_ctl c)" "wk_id w = wk_id work" "length (wk_id work) = 32"
    and "start_relay_begin B k os p pending work ms e0 = Ok (True, p1, e1)" "svc_at p (pc_svc pending) = Ok s" "offerable k os p s pending"
    and "flowing 60000 (sk_in t)" "sk_out (we_socks e1 (wk_fd work)) = sk_out (we_socks e0 (wk_fd work)) @ arrives (sk_in t)"
  shows "fst (ct_start_stream_recv B k w (cl_ctl c) (k_max_service_id k + 1) garbage t) = Ok (offer_of s (last (pe_starting p1))) \<and>
    (\<forall>cos cfg ec c' ec' i u.
       begin_stream B k cos cfg w (offer_of s (last (pe_starting p1))) c ec = Ok (c', ec') \<and>
       i < length (cl_relays c) \<and> rl_closed (cl_relays c ! i) \<and> \<not> rl_closed (cl_relays c' ! i) \<and> rl_direct (cl_relays c' ! i) \<noteq> wk_fd w \<and>
       flowing 5000 (sk_in u) \<and> sk_out (we_socks ec' (wk_fd w)) = sk_out (we_socks ec (wk_fd w)) @ arrives (sk_in u) \<longrightarrow>
       fst (ct_stream_ready_recv B k work (pe_ctl p1) (sv_id (sr_cfg s)) (sv_encryption (sr_cfg s)) (st_stream_id (last (pe_starting p1)))
         (st_random (last (pe_starting p1))) u) = Ok True)"
  using offer_arrives [OF assms] answer_arrives [OF assms(1-8)] by blast

text \<open>
  C6: an encrypted stream between the two programs carries the bytes of each side to the other. The
  server offers a stream, the client starts its relay on the offer and the server starts its own: from
  then on, whatever happens on the four sockets, neither relay touches memory out of bounds, and what
  each has passed on is a prefix of what the other's direct socket delivered (behind the PROXY header).
\<close>

theorem stream_end_to_end:
  assumes B: "aead_sizes B" "aead_exact B" "aead_opens B"
    and k: "0 < k_stream_buffer k" "k_data_encryption k" "blocks k (os_ring os' (st_stream_id st))" "blocks k (co_ring cos)"
    and session: "shared_session (pe_ctl p) (cl_ctl c)" "wk_id w = wk_id work"
    and offer: "start_relay_begin B k os p pending work ms e0 = Ok (True, p1, e1)" "st = last (pe_starting p1)"
      "svc_at p (pc_svc pending) = Ok s" "offerable k os p s pending" "sv_encryption (sr_cfg s) = CT_ENC_REQUIRED"
    and client: "begin_stream B k cos cfg w (offer_of s st) c ec = Ok (c', ec')" "i < length (cl_relays c)" "rl_closed (cl_relays c ! i)"
      "\<not> rl_closed (cl_relays c' ! i)" "rl_direct (cl_relays c' ! i) \<noteq> wk_fd w"
    and server: "start_relay_finish B k os' p1 st es = Ok (True, p2, es')" "pc_fd pending \<noteq> wk_fd work"
      "index_of (\<lambda>r. rl_closed r \<or> rl_direct r = CT_INVALID_SOCKET) (pe_relays p1) = Some j"
  shows "carries B k k (cl_relays c' ! i) (relay_view ec' (rl_direct (cl_relays c' ! i)) (wk_fd w)) (pe_relays p2 ! j) (relay_view es' (pc_fd pending) (wk_fd work)) \<and>
    carries B k k (pe_relays p2 ! j) (relay_view es' (pc_fd pending) (wk_fd work)) (cl_relays c' ! i) (relay_view ec' (rl_direct (cl_relays c' ! i)) (wk_fd w))"
proof -
  obtain rnd sk where st: "st = \<lparr>st_pending = pending, st_work = work, st_stream_id = next_id (pe_next_stream p),
       st_deadline = os_clock os (next_id (pe_next_stream p)) + ms, st_random = rnd, st_read_retry = 0\<rparr>"
    and p1: "pe_ctl p1 = pe_ctl p" "pe_svc p1 = pe_svc p" by (rule begin_offers [OF offer(1,3)]) (simp add: offer(2))
  have svc: "svc_at p1 (pc_svc (st_pending st)) = Ok s" using offer(3) p1(2) by (auto simp: st svc_at_def split: if_splits)
  let ?sp = "params_of (pe_ctl p) work (sv_id (sr_cfg s)) (st_stream_id st) rnd"
  have "opened B k (\<lambda>_ _. None) False ?sp (pe_relays p2 ! j) (relay_view es' (pc_fd pending) (wk_fd work))"
    using server_opens [OF server(1,3) svc offer(5) _ k(3,1,2)] server(2) session(1) p1(1) by (simp add: st shared_session_def)
  moreover have "opened B k (co_ntop cos) True ?sp (cl_relays c' ! i) (relay_view ec' (rl_direct (cl_relays c' ! i)) (wk_fd w))"
    using client_opens [OF client(1-4) _ _ _ k(4,1,2) client(5)] session offer(4,5)
    by (simp add: offer_of_def st shared_session_def params_of_def offerable_def)
  ultimately show ?thesis using opened_carries [OF B] by (metis (full_types))
qed

section \<open>A small stream\<close>

text \<open>With memory, proper lengths and no PROXY header to build, a relay starts.\<close>

lemma init_succeeds:
  assumes "hash_sizes B" "length rnd = 32" "length wid = 32" "length svc \<le> k_max_service_id k" "length svc \<le> 94" "k_data_encryption k"
    "client \<longrightarrow> (\<exists>m. md = Some m \<and> md_proxy_protocol m = CT_PROXY_PROTOCOL_OFF)"
  shows "\<exists>r re. ct_relay_init B k ntop (Some a) (Some b) (Some c) d w client CT_ENC_REQUIRED cipher master sid rnd wid svc md e = Ok (True, r, re)"
proof -
  note keys = derive_data_eq [OF assms(1-4)]
  have "\<exists>r1. relay_buffers B k (Some a) (Some b) (Some c) client CT_ENC_REQUIRED master sid rnd wid svc r0 = Ok r1" if "rl_encrypted r0" for r0
    using that assms(5,6) by (simp add: relay_buffers_def ct_ring_init_def keys Let_def)
  then obtain r1 where "relay_buffers B k (Some a) (Some b) (Some c) client CT_ENC_REQUIRED master sid rnd wid svc
      ((zero_relay d w client)\<lparr>rl_encrypted := True, rl_cipher := cipher\<rparr>) = Ok r1" by fastforce
  then show ?thesis using assms(6,7) by (auto simp: ct_relay_init_def relay_start_def Let_def)
qed

definition ssh_service :: ct_service_config where
  "ssh_service = \<lparr>sv_id = lit ''ssh'', sv_remote_addr = lit ''*'', sv_local_addr = lit ''127.0.0.1'', sv_remote_port = 2222, sv_local_port = 22,
     sv_encryption = CT_ENC_REQUIRED, sv_type = 1, sv_proxy_protocol = 0, sv_udp_idle_timeout = 60, sv_udp_reply_timeout = 5,
     sv_udp_max_sessions = 8, sv_udp_max_datagram_size = 1472, sv_udp_options_seen = 0\<rparr>"

definition ssh_peer :: server_peer where
  "ssh_peer = (zero_peer tiny_build)\<lparr>pe_active := True, pe_ctl := client_control,
     pe_svc := [\<lparr>sr_cfg = ssh_service, sr_listen = [], sr_udp = []\<rparr>]\<rparr>"

definition ssh_pending :: pending_conn where
  "ssh_pending = \<lparr>pc_fd = 5, pc_svc = 0, pc_metadata = plain_metadata\<lparr>md_proxy_protocol := 0\<rparr>, pc_deadline = 0\<rparr>"

definition ssh_os :: os where
  "ssh_os = demo_os\<lparr>os_random := (\<lambda>_. Some (replicate 32 3)), os_ring := (\<lambda>_ _. Some (replicate 32 0))\<rparr>"

definition ssh_client_os :: client_os where
  "ssh_client_os = \<lparr>co_now = 7, co_alloc = True, co_work = (\<lambda>_. None), co_work_random = (\<lambda>_. None),
     co_connect = (\<lambda>_ _. Some [\<lparr>ca_fd = Some 6, ca_nonblock = True, ca_bind = True, ca_listen = True, ca_connect = True, ca_would_block = False,
       ca_wait = False, ca_getsockopt = True, ca_no_error = True\<rparr>]),
     co_host = (\<lambda>_ _. None), co_udp_socket = (\<lambda>_. (None, False)), co_recvfrom = (\<lambda>_. (False, None)), co_sendto = (\<lambda>_. (False, \<lambda>_. None)),
     co_peek = (\<lambda>_. Inl True), co_queued = (\<lambda>_. None), co_ring = (\<lambda>_. Some (replicate 32 0)), co_garbage = [], co_ntop = (\<lambda>_ _. None)\<rparr>"

definition ssh_client :: client where
  "ssh_client = client_boot tiny_build 4 client_control"

definition ssh_config :: ct_config where
  "ssh_config = demo_config\<lparr>cf_services := [ssh_service]\<rparr>"

text \<open>A process whose socket 9 is to receive the bytes \<open>bs\<close>.\<close>

definition ssh_env :: "bytes \<Rightarrow> server_env" where
  "ssh_env bs = \<lparr>we_metrics = no_metrics, we_socks = (\<lambda>fd. if fd = 9 then empty_sock\<lparr>sk_in := [Got bs]\<rparr> else empty_sock), we_closed = [], we_sent = []\<rparr>"

lemma index_of_replicate: "0 < n \<Longrightarrow> P x \<Longrightarrow> index_of P (replicate n x) = Some 0"
  by (cases n) simp_all

lemma ssh_accessors: "wk_fd toy_work = 9" "co_ring ssh_client_os i = Some (replicate 32 0)"
  by (simp_all add: toy_work_def ssh_client_os_def)

lemma ssh_facts:
  "small_frames tiny_build" "shared_session (pe_ctl ssh_peer) (cl_ctl ssh_client)" "length (wk_id toy_work) = 32"
  "svc_at ssh_peer (pc_svc ssh_pending) = Ok (hd (pe_svc ssh_peer))" "offerable tiny_build ssh_os ssh_peer (hd (pe_svc ssh_peer)) ssh_pending"
proof -
  have "start_fits tiny_build client_control (lit ''ssh'')" by (simp add: start_fits_def tiny_build_def default_defconfig_def client_control_def)
  moreover have "nul_free (lit ''ssh'')" by (simp add: nul_free_def lit_def of_char_def)
  moreover have "metadata_ok (plain_metadata\<lparr>md_proxy_protocol := 0\<rparr>)" using plain_metadata_ok by (simp add: metadata_ok_def)
  ultimately show "offerable tiny_build ssh_os ssh_peer (hd (pe_svc ssh_peer)) ssh_pending"
    by (simp add: offerable_def ssh_peer_def ssh_os_def ssh_pending_def ssh_service_def)
qed (simp_all add: small_frames_def tiny_build_def default_defconfig_def shared_session_def ssh_peer_def ssh_client_def client_boot_def
    client_control_def CT_CIPHER_CHACHA_def toy_work_def svc_at_def ssh_pending_def)

text \<open>Messages are sent when the socket takes them.\<close>

lemma plain_frame_written:
  assumes "sk_room s = Takes 1000 # Takes 1000 # room" "ct_message_type_valid type" "p \<noteq> []" "length p \<le> 1000" "1000 \<le> k_max_frame k" "k_max_frame k < 2 ^ 31"
  shows "\<exists>s' x. ct_plain_send k s type session stream p ms = (True, s') \<and> sk_out s' = sk_out s @ x \<and> x \<noteq> [] \<and> sk_in s' = sk_in s"
proof -
  obtain s' where s': "ct_plain_send k s type session stream p ms = (True, s')"
    using plain_send_takes [OF assms(1-3), of k session stream ms] assms(4-6) by auto
  have "k_max_frame k \<le> 2 ^ 32 - 1" using assms(6) by simp
  from plain_send_ok [OF s' this] s' assms(3) show ?thesis by auto
qed

lemma ssh_offered:
  obtains p1 e1 where "start_relay_begin toy_backend tiny_build ssh_os ssh_peer ssh_pending toy_work 1000 (ssh_env []) = Ok (True, p1, e1)"
    "sk_out (we_socks e1 9) \<noteq> []" "pe_relays p1 = pe_relays ssh_peer"
proof -
  let ?m = "plain_metadata\<lparr>md_proxy_protocol := 0\<rparr>" and ?rnd = "replicate 32 3 :: bytes"
  let ?p = "start_bytes toy_backend toy_work client_control (lit ''ssh'') 1 CT_ENC_REQUIRED ?m ?rnd"
  have m: "metadata_ok ?m" using plain_metadata_ok by (simp add: metadata_ok_def)
  have len: "length ?rnd = 32" by simp
  have fits: "start_fits tiny_build client_control (lit ''ssh'')" by (simp add: start_fits_def tiny_build_def default_defconfig_def client_control_def)
  have k: "k_control_buffer tiny_build \<le> 65536" "1000 \<le> k_max_frame tiny_build" "k_max_frame tiny_build < 2 ^ 31"
    by (simp_all add: tiny_build_def default_defconfig_def)
  note eq = start_payload_eq [OF toy_backend_laws(1) m ssh_facts(3) len fits k(1), of 1 CT_ENC_REQUIRED]
  note sz = length_start_bytes [OF toy_backend_laws(1) m ssh_facts(3) len, where c = client_control and service = "lit ''ssh''" and sid = 1 and
      encm = CT_ENC_REQUIRED]
  have "?p \<noteq> []" using sz(2) by auto
  then obtain s' x where s': "ct_plain_send tiny_build (we_socks (ssh_env []) 9) CT_MSG_START_STREAM (session_id (cc_keys client_control)) 1 ?p 5000 = (True, s')"
    "sk_out s' = x" "x \<noteq> []"
    using plain_frame_written [of "we_socks (ssh_env []) 9" "[Takes 1000, Takes 1000]" CT_MSG_START_STREAM ?p tiny_build "session_id (cc_keys client_control)" 1 5000] sz(1) k
    by (auto simp: ssh_env_def empty_sock_def ct_message_type_valid_def msg_defs)
  have nid: "next_id 0 = 1" by (simp add: next_id_def)
  have "\<exists>p1. start_relay_begin toy_backend tiny_build ssh_os ssh_peer ssh_pending toy_work 1000 (ssh_env []) = Ok (True, p1, put_sock 9 s' (ssh_env [])) \<and>
      pe_relays p1 = pe_relays ssh_peer"
    using s'(1) eq by (simp add: start_relay_begin_def ssh_peer_def zero_peer_def nid svc_at_def ssh_pending_def ssh_os_def ssh_service_def
        ct_start_stream_send_def toy_work_def tiny_build_def default_defconfig_def Let_def)
  then show thesis using that s'(2,3) by (auto simp: put_sock_def)
qed

lemma ssh_begins:
  assumes "ss_service st = lit ''ssh''" "ss_mode st = CT_ENC_REQUIRED" "length (ss_random st) = 32" "md_proxy_protocol (ss_metadata st) = 0"
  obtains c' e' where "begin_stream toy_backend tiny_build ssh_client_os ssh_config toy_work st ssh_client (ssh_env bs) = Ok (c', e')"
    "0 < length (cl_relays ssh_client)" "rl_closed (cl_relays ssh_client ! 0)" "\<not> rl_closed (cl_relays c' ! 0)" "rl_direct (cl_relays c' ! 0) \<noteq> 9"
    "sk_out (we_socks e' 9) \<noteq> []"
proof -
  let ?p = "ready_bytes toy_backend toy_work client_control (lit ''ssh'') CT_ENC_REQUIRED (ss_sid st) (ss_random st) True"
  have fits: "start_fits tiny_build client_control (lit ''ssh'')" by (simp add: start_fits_def tiny_build_def default_defconfig_def client_control_def)
  have k: "k_control_buffer tiny_build \<le> 65536" "1000 \<le> k_max_frame tiny_build" "k_max_frame tiny_build < 2 ^ 31"
    by (simp_all add: tiny_build_def default_defconfig_def)
  have cstr: "cstr (lit ''ssh'') = lit ''ssh''" by (simp add: cstr_def lit_def)
  note eq = ready_payload_eq [OF toy_backend_laws(1) ssh_facts(3) assms(3) fits k(1), of CT_ENC_REQUIRED "ss_sid st" True]
  have "length ?p = 111" using toy_backend_laws(1) ssh_facts(3) assms(3) by (simp add: ready_bytes_def)
  then have "?p \<noteq> []" "length ?p \<le> 1000" by auto
  then obtain s' x where s': "ct_plain_send tiny_build (we_socks (ssh_env bs) 9) CT_MSG_STREAM_READY (session_id (cc_keys client_control)) (ss_sid st) ?p 5000 = (True, s')"
    "sk_out s' = x" "x \<noteq> []"
    using plain_frame_written [of "we_socks (ssh_env bs) 9" "[Takes 1000, Takes 1000]" CT_MSG_STREAM_READY ?p tiny_build "session_id (cc_keys client_control)" "ss_sid st" 5000] k
    by (auto simp: ssh_env_def empty_sock_def ct_message_type_valid_def msg_defs)
  have ready: "ct_stream_ready_send toy_backend tiny_build toy_work client_control (lit ''ssh'') CT_ENC_REQUIRED (ss_sid st) (ss_random st) True
      (we_socks (ssh_env bs) 9) = (Ok (), s')" using s'(1) eq by (simp add: ct_stream_ready_send_def)
  let ?e2 = "put_sock 9 s' (close_fds [] (ssh_env bs))"
  obtain r re where i: "ct_relay_init toy_backend tiny_build (co_ntop ssh_client_os) (Some (replicate 32 0)) (Some (replicate 32 0)) (Some (replicate 32 0)) 6 9 True
      CT_ENC_REQUIRED (cc_cipher client_control) (data_master (cc_keys client_control)) (ss_sid st) (ss_random st) (wk_id toy_work) (lit ''ssh'') (Some (ss_metadata st))
      (relay_view ?e2 6 9) = Ok (True, r, re)"
    using init_succeeds [OF toy_backend_laws(1) assms(3) ssh_facts(3), of "lit ''ssh''" tiny_build True "Some (ss_metadata st)"] assms(4)
    by (force simp: CT_PROXY_PROTOCOL_OFF_def)
  have svc: "stream_service ssh_config st (ssh_env bs) = (Some ssh_service, ssh_env bs)"
    using assms by (simp add: stream_service_def client_svc_def ssh_config_def cstr ssh_service_def Let_def)
  have conn: "ct_net_connect (co_connect ssh_client_os (sv_local_addr ssh_service) (sv_local_port ssh_service)) = (Some 6, [])"
    by (simp add: ct_net_connect_def gai_sock_def ssh_client_os_def)
  have streams: "k_max_streams tiny_build = 256" by (simp add: tiny_build_def default_defconfig_def)
  have slot: "index_of rl_closed (cl_relays ssh_client) = Some 0" "0 < length (cl_relays ssh_client)" "rl_closed (cl_relays ssh_client ! 0)"
    by (simp_all add: ssh_client_def client_boot_def streams index_of_replicate)
  have ctl: "cl_ctl ssh_client = client_control" by (simp add: ssh_client_def client_boot_def)
  have run: "begin_stream toy_backend tiny_build ssh_client_os ssh_config toy_work st ssh_client (ssh_env bs) =
      Ok (ssh_client\<lparr>cl_relays := (cl_relays ssh_client)[0 := r]\<rparr>, relay_back ?e2 6 9 re)"
    using ready i assms(1,2) by (simp add: begin_stream_def svc conn cstr slot(1) ctl ssh_accessors Let_def)
  note f = init_frame [OF i]
  have "we_socks (relay_back ?e2 6 9 re) 9 = s'" using f(2) by (simp add: relay_back_def put_sock_def relay_view_def)
  then show thesis using that [OF run slot(2,3)] f(4,6) slot(2) s'(2,3) by simp
qed

lemma ssh_finishes:
  assumes "pe_relays p = pe_relays ssh_peer" "pe_svc p = pe_svc ssh_peer" "st_work st = toy_work" "st_pending st = ssh_pending" "length (st_random st) = 32"
    "fst (ct_stream_ready_recv toy_backend tiny_build toy_work (pe_ctl p) (lit ''ssh'') CT_ENC_REQUIRED (st_stream_id st) (st_random st) (we_socks e 9)) = Ok True"
  obtains p' e' where "start_relay_finish toy_backend tiny_build ssh_os p st e = Ok (True, p', e')"
    "index_of (\<lambda>r. rl_closed r \<or> rl_direct r = CT_INVALID_SOCKET) (pe_relays p) = Some 0"
proof -
  obtain sk where sk: "ct_stream_ready_recv toy_backend tiny_build toy_work (pe_ctl p) (lit ''ssh'') CT_ENC_REQUIRED (st_stream_id st) (st_random st) (we_socks e 9) =
      (Ok True, sk)" using assms(6) by (metis prod.collapse)
  obtain r re where i: "ct_relay_init toy_backend tiny_build (\<lambda>_ _. None) (Some (replicate 32 0)) (Some (replicate 32 0)) (Some (replicate 32 0)) 5 9 False
      CT_ENC_REQUIRED (cc_cipher (pe_ctl p)) (data_master (cc_keys (pe_ctl p))) (st_stream_id st) (st_random st) (wk_id toy_work) (lit ''ssh'') None
      (relay_view (put_sock 9 sk e) 5 9) = Ok (True, r, re)"
    using init_succeeds [OF toy_backend_laws(1) assms(5) ssh_facts(3), of "lit ''ssh''" tiny_build False None] by force
  have streams: "k_max_streams tiny_build = 256" by (simp add: tiny_build_def default_defconfig_def)
  have slot: "index_of (\<lambda>r. rl_closed r \<or> rl_direct r = CT_INVALID_SOCKET) (pe_relays p) = Some 0"
    by (simp add: assms(1) ssh_peer_def zero_peer_def streams index_of_replicate)
  have "start_relay_finish toy_backend tiny_build ssh_os p st e = Ok (True, p\<lparr>pe_relays := (pe_relays p)[0 := r]\<rparr>, relay_back (put_sock 9 sk e) 5 9 re)"
    using sk i assms(2-4) by (simp add: start_relay_finish_def slot svc_at_def ssh_peer_def zero_peer_def ssh_service_def ssh_pending_def toy_work_def ssh_os_def Let_def)
  with slot show thesis using that by blast
qed

lemma ssh_env_simps [simp]: "we_socks (ssh_env bs) 9 = empty_sock\<lparr>sk_in := [Got bs]\<rparr>" "sk_out (empty_sock\<lparr>sk_in := x\<rparr>) = []"
  by (simp_all add: ssh_env_def empty_sock_def)

lemma ssh_offer_of:
  assumes "start_relay_begin toy_backend tiny_build ssh_os ssh_peer ssh_pending toy_work 1000 (ssh_env []) = Ok (True, p1, e1)"
  shows "ss_service (offer_of (hd (pe_svc ssh_peer)) (last (pe_starting p1))) = lit ''ssh''" "ss_mode (offer_of (hd (pe_svc ssh_peer)) (last (pe_starting p1))) = CT_ENC_REQUIRED"
    "length (ss_random (offer_of (hd (pe_svc ssh_peer)) (last (pe_starting p1)))) = 32" "md_proxy_protocol (ss_metadata (offer_of (hd (pe_svc ssh_peer)) (last (pe_starting p1)))) = 0"
    "st_work (last (pe_starting p1)) = toy_work" "st_pending (last (pe_starting p1)) = ssh_pending" "length (st_random (last (pe_starting p1))) = 32"
    "pe_svc p1 = pe_svc ssh_peer"
proof -
  obtain rnd where "os_random ssh_os (next_id (pe_next_stream ssh_peer)) = Some rnd" and svc: "pe_svc p1 = pe_svc ssh_peer"
    and st: "st_pending (last (pe_starting p1)) = ssh_pending" "st_work (last (pe_starting p1)) = toy_work" "st_random (last (pe_starting p1)) = rnd"
    by (rule begin_offers [OF assms ssh_facts(4)]) simp
  then have "length rnd = 32" by (auto simp: ssh_os_def)
  moreover have "sr_cfg (hd (pe_svc ssh_peer)) = ssh_service" by (simp add: ssh_peer_def)
  ultimately show "ss_service (offer_of (hd (pe_svc ssh_peer)) (last (pe_starting p1))) = lit ''ssh''" "ss_mode (offer_of (hd (pe_svc ssh_peer)) (last (pe_starting p1))) = CT_ENC_REQUIRED"
    "length (ss_random (offer_of (hd (pe_svc ssh_peer)) (last (pe_starting p1)))) = 32" "md_proxy_protocol (ss_metadata (offer_of (hd (pe_svc ssh_peer)) (last (pe_starting p1)))) = 0"
    "st_work (last (pe_starting p1)) = toy_work" "st_pending (last (pe_starting p1)) = ssh_pending" "length (st_random (last (pe_starting p1))) = 32"
    "pe_svc p1 = pe_svc ssh_peer"
    using st svc by (simp_all add: offer_of_def ssh_service_def ssh_pending_def)
qed

theorem stream_start_agrees_witness:
  "\<exists>p1 e1 c' e'. start_relay_begin toy_backend tiny_build ssh_os ssh_peer ssh_pending toy_work 1000 (ssh_env []) = Ok (True, p1, e1) \<and>
     fst (ct_start_stream_recv toy_backend tiny_build toy_work client_control 65 [] (we_socks (ssh_env (sk_out (we_socks e1 9))) 9)) =
       Ok (offer_of (hd (pe_svc ssh_peer)) (last (pe_starting p1))) \<and>
     begin_stream toy_backend tiny_build ssh_client_os ssh_config toy_work (offer_of (hd (pe_svc ssh_peer)) (last (pe_starting p1))) ssh_client (ssh_env []) = Ok (c', e') \<and>
     fst (ct_stream_ready_recv toy_backend tiny_build toy_work (pe_ctl p1) (lit ''ssh'') CT_ENC_REQUIRED (st_stream_id (last (pe_starting p1)))
       (st_random (last (pe_starting p1))) (we_socks (ssh_env (sk_out (we_socks e' 9))) 9)) = Ok True"
proof -
  obtain p1 e1 where p1: "start_relay_begin toy_backend tiny_build ssh_os ssh_peer ssh_pending toy_work 1000 (ssh_env []) = Ok (True, p1, e1)"
    "sk_out (we_socks e1 9) \<noteq> []" by (rule ssh_offered)
  let ?s = "hd (pe_svc ssh_peer)" and ?st = "last (pe_starting p1)"
  obtain c' e' where c': "begin_stream toy_backend tiny_build ssh_client_os ssh_config toy_work (offer_of ?s ?st) ssh_client (ssh_env []) = Ok (c', e')"
    "0 < length (cl_relays ssh_client)" "rl_closed (cl_relays ssh_client ! 0)" "\<not> rl_closed (cl_relays c' ! 0)" "rl_direct (cl_relays c' ! 0) \<noteq> 9" "sk_out (we_socks e' 9) \<noteq> []"
    using ssh_begins [OF ssh_offer_of(1-4) [OF p1(1)]] by blast
  have svc: "sv_id (sr_cfg ?s) = lit ''ssh''" "sv_encryption (sr_cfg ?s) = CT_ENC_REQUIRED" using ssh_offer_of(1,2) [OF p1(1)] by (simp_all add: offer_of_def)
  have ctl: "cl_ctl ssh_client = client_control" by (simp add: ssh_client_def client_boot_def)
  note agrees = stream_start_agrees [OF toy_backend_laws(1) ssh_facts(1,2) refl ssh_facts(3) p1(1) ssh_facts(4,5), of "we_socks (ssh_env (sk_out (we_socks e1 9))) 9" "[]"]
  have one: "fst (ct_start_stream_recv toy_backend tiny_build toy_work client_control 65 [] (we_socks (ssh_env (sk_out (we_socks e1 9))) 9)) = Ok (offer_of ?s ?st)"
    using conjunct1 [OF agrees] p1(2) by (simp add: ssh_accessors ctl)
  moreover have "fst (ct_stream_ready_recv toy_backend tiny_build toy_work (pe_ctl p1) (lit ''ssh'') CT_ENC_REQUIRED (st_stream_id ?st)
       (st_random ?st) (we_socks (ssh_env (sk_out (we_socks e' 9))) 9)) = Ok True"
    using conjunct2 [OF agrees, rule_format, of ssh_client_os ssh_config "ssh_env []" c' e' 0 "we_socks (ssh_env (sk_out (we_socks e' 9))) 9"] c' p1(2)
    by (simp add: ssh_accessors svc)
  ultimately show ?thesis using p1(1) c'(1) by blast
qed

theorem stream_end_to_end_witness:
  "\<exists>(c' :: client) ec' (p2 :: server_peer) es'. \<not> rl_closed (cl_relays c' ! 0) \<and>
     carries toy_backend tiny_build tiny_build (cl_relays c' ! 0) (relay_view ec' (rl_direct (cl_relays c' ! 0)) 9) (pe_relays p2 ! 0) (relay_view es' 5 9)"
proof -
  obtain p1 e1 where p1: "start_relay_begin toy_backend tiny_build ssh_os ssh_peer ssh_pending toy_work 1000 (ssh_env []) = Ok (True, p1, e1)"
    "sk_out (we_socks e1 9) \<noteq> []" "pe_relays p1 = pe_relays ssh_peer" by (rule ssh_offered)
  let ?s = "hd (pe_svc ssh_peer)" and ?st = "last (pe_starting p1)"
  note o = ssh_offer_of [OF p1(1)]
  obtain c' e' where c': "begin_stream toy_backend tiny_build ssh_client_os ssh_config toy_work (offer_of ?s ?st) ssh_client (ssh_env []) = Ok (c', e')"
    "0 < length (cl_relays ssh_client)" "rl_closed (cl_relays ssh_client ! 0)" "\<not> rl_closed (cl_relays c' ! 0)" "rl_direct (cl_relays c' ! 0) \<noteq> wk_fd toy_work" "sk_out (we_socks e' 9) \<noteq> []"
    using ssh_begins [OF o(1-4)] by (metis ssh_accessors(1))
  have svc: "sv_id (sr_cfg ?s) = lit ''ssh''" "sv_encryption (sr_cfg ?s) = CT_ENC_REQUIRED" using o(1,2) by (simp_all add: offer_of_def)
  let ?es = "ssh_env (sk_out (we_socks e' 9))"
  have "fst (ct_stream_ready_recv toy_backend tiny_build toy_work (pe_ctl p1) (lit ''ssh'') CT_ENC_REQUIRED (st_stream_id ?st) (st_random ?st) (we_socks ?es 9)) = Ok True"
    using answer_arrives [OF toy_backend_laws(1) ssh_facts(1,2) refl ssh_facts(3) p1(1) ssh_facts(4,5) c'(1-5), of "we_socks ?es 9"] c'(6) svc
    by (simp add: ssh_accessors)
  from ssh_finishes [OF p1(3) o(8,5,6,7) this] obtain p2 es' where
    p2: "start_relay_finish toy_backend tiny_build ssh_os p1 ?st ?es = Ok (True, p2, es')"
      "index_of (\<lambda>r. rl_closed r \<or> rl_direct r = CT_INVALID_SOCKET) (pe_relays p1) = Some 0" by blast
  have k: "0 < k_stream_buffer tiny_build" "blocks tiny_build (os_ring ssh_os sid)" "blocks tiny_build (co_ring ssh_client_os)" for sid
    by (simp_all add: blocks_def ssh_os_def ssh_client_os_def)
  have fd: "pc_fd ssh_pending \<noteq> wk_fd toy_work" "pc_fd ssh_pending = 5" by (simp_all add: ssh_pending_def ssh_accessors)
  from stream_end_to_end [OF toy_backend_laws(2,4,3) k(1) tiny_build_simps(1) k(2,3) ssh_facts(2) refl p1(1) refl ssh_facts(4,5) svc(2) c'(1-5) p2(1) fd(1) p2(2)]
  have "carries toy_backend tiny_build tiny_build (cl_relays c' ! 0) (relay_view e' (rl_direct (cl_relays c' ! 0)) 9) (pe_relays p2 ! 0) (relay_view es' 5 9)"
    by (simp add: ssh_accessors fd(2))
  with c'(4) show ?thesis by blast
qed

end
