(* ===== verification/Descriptors.thy ===== *)
theory Descriptors
  imports Runs
begin

text \<open>
  The budget of descriptors. Both roles report at their start how many descriptors they recommend
  (\<open>recommended_fd\<close> in \<open>server.c\<close> and \<open>client.c\<close>); this theory counts what a reachable state can hold.
\<close>

section \<open>The recommendations\<close>

definition server_recommended_fd :: "autoconf \<Rightarrow> ct_config \<Rightarrow> nat \<Rightarrow> u32" where
  "server_recommended_fd k cfg listeners =
     of_nat (listeners + k_max_clients k * 2 +
       size_of_int (cf_max_clients cfg) * (1 + 2 * size_of_int (cf_max_services_per_client cfg) + 2 * size_of_int (cf_max_streams_per_client cfg)) + 32)"

definition client_recommended_fd :: "autoconf \<Rightarrow> ct_config \<Rightarrow> u32" where
  "client_recommended_fd k cfg = of_nat (1 + size_of_int (cf_pool_count cfg) + 2 * k_max_streams k + 32)"

section \<open>The descriptors of the server\<close>

definition server_fds :: "server \<Rightarrow> int list" where
  "server_fds srv = sx_control srv @ map in_fd (sx_incoming srv) @ concat (map peer_fds (sx_peers srv))"

definition idle_work_fds :: "server_peer list \<Rightarrow> nat" where
  "idle_work_fds ps = sum_list (map (length \<circ> pe_work) ps)"

lemma idle_work_Cons: "idle_work_fds (p # ps) = length (pe_work p) + idle_work_fds ps"
  by (simp add: idle_work_fds_def)

lemma relays_two: "length (concat (map relay_fds rs)) = 2 * length (filter (\<lambda>r. \<not> rl_closed r) rs)"
  by (induction rs) (auto simp: relay_fds_def)

lemma starting_two: "length (concat (map starting_fds ss)) = 2 * length ss"
  by (induction ss) (auto simp: starting_fds_def)

lemma services_two:
  "\<forall>s\<in>set svc. length (sr_listen s) + length (sr_udp s) \<le> 2 \<Longrightarrow> length (concat (map sr_listen svc)) + length (concat (map sr_udp svc)) \<le> 2 * length svc"
  by (induction svc) (auto simp: algebra_simps)

text \<open>One peer: its control connection, two sockets for each service, two for each stream, and the idle work connections.\<close>

definition seat_fds :: "ct_config \<Rightarrow> nat" where
  "seat_fds cfg = 1 + 2 * size_of_int (cf_max_services_per_client cfg) + 2 * size_of_int (cf_max_streams_per_client cfg)"

lemma peer_fds_count:
  assumes "peer_inv k cfg p"
  shows "length (peer_fds p) \<le> (if pe_active p then seat_fds cfg else 0) + length (pe_work p)"
proof (cases "pe_auth p")
  case None
  then show ?thesis using assms by (simp add: peer_inv_def peer_fds_def)
next
  case (Some a)
  then have p: "pe_active p" "active_streams p \<le> size_of_int (cf_max_streams_per_client cfg)" "length (pe_svc p) \<le> size_of_int (cf_max_services_per_client cfg)"
    "\<forall>s\<in>set (pe_svc p). length (sr_listen s) + length (sr_udp s) \<le> 2"
    using assms by (auto simp: peer_inv_def stream_limit_def service_limit_def sockets_fit_def)
  have "length (held_fds p) = 1 + (length (concat (map sr_listen (pe_svc p))) + length (concat (map sr_udp (pe_svc p)))) + length (pe_work p) +
      (length (pe_pending p) + 2 * length (pe_starting p) + 2 * length (filter (\<lambda>r. \<not> rl_closed r) (pe_relays p)))"
    unfolding held_fds_def using relays_two [of "pe_relays p"] starting_two [of "pe_starting p"] by (simp del: length_concat)
  moreover have "length (pe_pending p) + 2 * length (pe_starting p) + 2 * length (filter (\<lambda>r. \<not> rl_closed r) (pe_relays p)) \<le> 2 * active_streams p"
    by (simp add: active_streams_def)
  ultimately show ?thesis using services_two [OF p(4)] p(1-3) by (simp add: peer_fds_def seat_fds_def del: length_concat)
qed

lemma peers_fds_count:
  assumes "\<forall>p\<in>set ps. peer_inv k cfg p"
  shows "length (concat (map peer_fds ps)) \<le> length (filter pe_active ps) * seat_fds cfg + idle_work_fds ps"
  using assms
proof (induction ps)
  case (Cons p ps)
  then have "length (peer_fds p) \<le> (if pe_active p then seat_fds cfg else 0) + length (pe_work p)" by (intro peer_fds_count [of k]) simp
  moreover have "length (concat (map peer_fds ps)) \<le> length (filter pe_active ps) * seat_fds cfg + idle_work_fds ps" using Cons by simp
  ultimately show ?case by (cases "pe_active p") (simp_all add: idle_work_Cons del: length_concat)
qed (simp add: idle_work_fds_def)

lemma size_of_pos: "0 \<le> i \<Longrightarrow> i < 2 ^ 31 \<Longrightarrow> size_of_int i = nat i"
  by (simp add: size_of_int_def)

text \<open>With the ranges of the build and of a configuration that loads the recommendation does not wrap around.\<close>

lemma server_recommended_exact:
  assumes "kconfig_ranges k" "common_ok k cfg" "listeners \<le> 2"
  shows "unat (server_recommended_fd k cfg listeners) = listeners + k_max_clients k * 2 + size_of_int (cf_max_clients cfg) * seat_fds cfg + 32"
proof -
  have r: "k_max_clients k \<le> 64" "k_max_services k \<le> 256" "k_max_streams k \<le> 4096" using assms(1) by (simp_all add: kconfig_ranges_def)
  with assms(2) have "size_of_int (cf_max_clients cfg) \<le> 64" "size_of_int (cf_max_services_per_client cfg) \<le> 256"
    "size_of_int (cf_max_streams_per_client cfg) \<le> 4096" by (auto simp: common_ok_def size_of_pos)
  then have "size_of_int (cf_max_clients cfg) * seat_fds cfg \<le> 64 * 8705" by (intro mult_le_mono) (simp_all add: seat_fds_def)
  with r(1) assms(3) have "listeners + k_max_clients k * 2 + size_of_int (cf_max_clients cfg) * seat_fds cfg + 32 < 2 ^ 32" by simp
  then show ?thesis unfolding server_recommended_fd_def seat_fds_def [symmetric] by (intro payload_len_unat) simp
qed

text \<open>
  C9: the server never holds more descriptors than it recommends, apart from idle work connections.
  In every reachable state, whatever the clients and the network do, the listeners, the connections
  that wait to authenticate, and the control connections, service sockets and streams of all clients
  are at least 32 fewer than \<open>recommended_fd\<close>; only the idle work connections, of which each client may
  hold as many as the build has streams, come on top. The sum does not wrap around.
\<close>

theorem server_fds_recommended:
  assumes "kconfig_ranges k" "config_usable k cfg" "length control \<le> 2" "reach (server_boot k control) (server_moves B k cfg) srv"
  shows "length (server_fds srv) + 32 \<le> unat (server_recommended_fd k cfg (length control)) + idle_work_fds (sx_peers srv) \<and>
    idle_work_fds (sx_peers srv) \<le> k_max_clients k * k_max_streams k"
proof -
  have common: "common_ok k cfg" using assms(2) by (simp add: config_usable_def)
  have inv: "server_inv k cfg srv" by (rule srv.inv_reach [OF assms(4)])
  then have ps: "length (sx_incoming srv) \<le> k_max_clients k * 2" "\<forall>p\<in>set (sx_peers srv). peer_inv k cfg p" "length (sx_peers srv) = k_max_clients k"
    by (auto simp: server_inv_def incoming_inv_def)
  have "length (filter pe_active (sx_peers srv)) * seat_fds cfg \<le> size_of_int (cf_max_clients cfg) * seat_fds cfg"
    by (intro mult_le_mono1 seated_count seats.inv_reach [OF assms(4)])
  with peers_fds_count [OF ps(2)]
  have "length (concat (map peer_fds (sx_peers srv))) \<le> size_of_int (cf_max_clients cfg) * seat_fds cfg + idle_work_fds (sx_peers srv)" by linarith
  moreover have "sx_control srv = control" by (rule lst.inv_reach [OF assms(4)])
  ultimately have "length (server_fds srv) + 32 \<le> unat (server_recommended_fd k cfg (length control)) + idle_work_fds (sx_peers srv)"
    using ps(1) server_recommended_exact [OF assms(1) common assms(3)]
    by (simp add: server_fds_def del: length_concat)
  moreover have "sum_list (map (length \<circ> pe_work) xs) \<le> length xs * k_max_streams k" if "\<forall>p\<in>set xs. peer_inv k cfg p" for xs
    using that by (induction xs) (auto simp: peer_inv_def)
  ultimately show ?thesis using ps(2,3) unfolding idle_work_fds_def by metis
qed

section \<open>The descriptors of the client\<close>

text \<open>
  In every state of a session the client holds at most what it recommends, less the room for 32
  others and for the configured pool, and in addition the work connections that are idle and a
  socket for each active datagram session, both within their arrays.
\<close>

theorem client_fds_recommended:
  assumes "kconfig_ranges k" "config_usable k cfg" "reach (client_boot k fd ctl) (client_moves B k cfg) c"
  shows "length (client_fds k c) + 32 + nat (cf_pool_count cfg) \<le>
      unat (client_recommended_fd k cfg) + length (cl_work c) + (if k_udp k then length (filter cu_active (cl_udp c)) else 0) \<and>
    length (cl_work c) \<le> k_max_streams k \<and> length (filter cu_active (cl_udp c)) \<le> k_max_udp_sessions k"
proof -
  have relays: "length (cl_relays c) = k_max_streams k" "length (cl_udp c) = k_max_udp_sessions k" "length (cl_work c) \<le> k_max_streams k"
    using clt.inv_reach [OF assms(3)] by (simp_all add: client_inv_def)
  have "cf_pool_count cfg \<in> {0..max 64 (int (k_max_streams k))}" using assms(2) unfolding config_usable_def common_ok_def by blast
  moreover have "k_max_streams k \<le> 4096" using assms(1) by (simp add: kconfig_ranges_def)
  ultimately have pool: "0 \<le> cf_pool_count cfg" "cf_pool_count cfg \<le> 4096" "k_max_streams k \<le> 4096" by (auto simp: max_def split: if_splits)
  then have pc: "size_of_int (cf_pool_count cfg) = nat (cf_pool_count cfg)" "nat (cf_pool_count cfg) \<le> 4096" by (simp_all add: size_of_pos)
  have "unat (client_recommended_fd k cfg) = 1 + nat (cf_pool_count cfg) + 2 * k_max_streams k + 32"
    unfolding client_recommended_fd_def pc(1) using pc(2) pool(3) by (intro payload_len_unat) simp
  moreover have "length (concat (map relay_fds (cl_relays c))) \<le> 2 * k_max_streams k"
    unfolding relays_two using relays length_filter_le [of "\<lambda>r. \<not> rl_closed r" "cl_relays c"] by linarith
  moreover have "length (filter cu_active (cl_udp c)) \<le> k_max_udp_sessions k" using relays length_filter_le [of cu_active "cl_udp c"] by linarith
  moreover have "length (cl_work c) \<le> k_max_streams k" by (rule relays(3))
  ultimately show ?thesis by (simp add: client_fds_def del: length_concat)
qed

section \<open>Small states\<close>

text \<open>A reachable state in which a client is connected.\<close>

definition budget_server :: ct_config where
  "budget_server = (budget_config CT_MODE_SERVER)\<lparr>cf_clients := [demo_entry]\<rparr>"

lemma budget_server_ok:
  "config_usable default_defconfig budget_server" "0 < size_of_int (cf_max_clients budget_server)"
  "exchange_ok toy_backend default_defconfig (demo_fs [1] [2]) demo_config (demo_fs [2] [1]) budget_server demo_entry demo_exchange"
proof -
  show "config_usable default_defconfig budget_server" "0 < size_of_int (cf_max_clients budget_server)"
    using budget_usable(1) by (simp_all add: budget_server_def config_usable_def common_ok_def budget_config_def size_of_int_def)
  have "cf_identity_private_key budget_server = cf_identity_private_key demo_server" "cf_cipher_mask budget_server = cf_cipher_mask demo_server"
    "cf_clients budget_server = cf_clients demo_server" by (simp_all add: budget_server_def budget_config_def demo_server_def)
  then show "exchange_ok toy_backend default_defconfig (demo_fs [1] [2]) demo_config (demo_fs [2] [1]) budget_server demo_entry demo_exchange"
    using demo_exchange_ok by (simp add: exchange_ok_def ct_authorized_find_def)
qed

theorem server_fds_recommended_witness:
  "\<exists>srv p. reach (server_boot default_defconfig [3]) (server_moves toy_backend default_defconfig budget_server) srv \<and>
     p \<in> set (sx_peers srv) \<and> pe_active p \<and> pe_fd p \<in> set (server_fds srv) \<and>
     length (server_fds srv) + 32 \<le> unat (server_recommended_fd default_defconfig budget_server 1) + idle_work_fds (sx_peers srv)"
proof -
  from demo_joins [OF budget_server_ok(3,2)] obtain srv p where
    p: "reach (server_boot default_defconfig [3]) (server_moves toy_backend default_defconfig budget_server) srv" "p \<in> set (sx_peers srv)" "pe_active p" by blast
  then have "pe_fd p \<in> set (server_fds srv)" by (force simp: server_fds_def peer_fds_def held_fds_def)
  with server_fds_recommended [OF shipped_configs_in_range(1) budget_server_ok(1) _ p(1)] p show ?thesis by auto
qed

theorem client_fds_recommended_witness:
  "client_fds default_defconfig (client_boot default_defconfig 5 client_control) = [5] \<and>
   35 \<le> unat (client_recommended_fd default_defconfig (budget_config CT_MODE_CLIENT))"
proof -
  let ?c = "client_boot default_defconfig 5 client_control"
  have "client_fds default_defconfig ?c = [5]" "cl_work ?c = []" "filter cu_active (cl_udp ?c) = []"
    by (simp_all add: client_fds_def client_boot_def zero_client_session_def relay_fds_def zero_relay_def)
  moreover have "nat (cf_pool_count (budget_config CT_MODE_CLIENT)) = 2" by (simp add: budget_config_def demo_config_def)
  ultimately show ?thesis using client_fds_recommended [OF shipped_configs_in_range(1) budget_usable(2) reach_start, of 5 client_control] by (simp split: if_splits)
qed

end
