(* ===== verification/Nonce_Tracker.thy ===== *)
theory Nonce_Tracker
  imports Channel
begin

text \<open>
  The hook of test builds (\<open>CONFIG_FEATURE_TEST_HOOKS\<close> in \<open>crypto_monocypher.c\<close>): every encryption records
  a fingerprint of its key with its nonce, and one that repeats both is refused. The theorems say
  exactly which calls a test build refuses, and that it refuses none of those that number their
  frames under one base as the channels and relays do, so that its runs show what other builds do.
\<close>

section \<open>The tracker\<close>

record nonce_observation =
  no_key_fingerprint :: bytes
  no_nonce :: bytes

definition MAX_OBSERVATIONS :: nat where
  "MAX_OBSERVATIONS = 4096"

definition ct_test_nonce_tracker_reset :: "nonce_observation list" where
  "ct_test_nonce_tracker_reset = []"

text \<open>The second comparison is only made when the first one succeeds.\<close>

fun observed :: "bytes \<Rightarrow> bytes \<Rightarrow> nonce_observation list \<Rightarrow> bool res" where
  "observed fingerprint nonce [] = Ok False"
| "observed fingerprint nonce (x # xs) =
     andthen (ct_crypto_equal (no_key_fingerprint x) fingerprint 16) (\<lambda>same_key.
     andthen (if same_key then ct_crypto_equal (no_nonce x) nonce 24 else Ok False) (\<lambda>same.
     if same then Ok True else observed fingerprint nonce xs))"

definition record_test_nonce :: "monocypher \<Rightarrow> bytes \<Rightarrow> bytes \<Rightarrow> nonce_observation list \<Rightarrow> (bool \<times> nonce_observation list) res" where
  "record_test_nonce B key nonce xs =
     (let fingerprint = ct_crypto_hash B key in
      andthen (observed fingerprint nonce xs) (\<lambda>seen.
      if seen then Ok (False, xs)
      else if length xs = MAX_OBSERVATIONS then Ok (False, xs)
      else Ok (True, xs @ [\<lparr>no_key_fingerprint = take 16 fingerprint, no_nonce = take 24 nonce\<rparr>])))"

text \<open>\<open>ct_aead_encrypt\<close> of a test build; without the hook it is \<open>ct_aead_encrypt\<close>.\<close>

definition ct_aead_encrypt_hooked ::
  "monocypher \<Rightarrow> u8 \<Rightarrow> bytes \<Rightarrow> bytes \<Rightarrow> u64 \<Rightarrow> bytes \<Rightarrow> bytes \<Rightarrow> nonce_observation list \<Rightarrow> bytes res \<times> nonce_observation list" where
  "ct_aead_encrypt_hooked B cipher key base seq ad plaintext xs =
     (if \<not> ct_cipher_available cipher \<or> length plaintext > 2 ^ 64 - 1 - 16 then (Err, xs)
      else
        let nonce = make_nonce base seq in
        case record_test_nonce B key nonce xs of
          Fault \<Rightarrow> (Fault, xs)
        | Err \<Rightarrow> (Fault, xs)
        | Ok (False, xs') \<Rightarrow> (Err, xs')
        | Ok (True, xs') \<Rightarrow> let (c, tag) = aead_lock B key nonce ad plaintext in (Ok (c @ tag), xs'))"

section \<open>What is refused\<close>

text \<open>The calls of a run, and what the tracker compares.\<close>

record aead_call =
  ca_cipher :: u8
  ca_key :: bytes
  ca_base :: bytes
  ca_seq :: u64
  ca_ad :: bytes
  ca_plaintext :: bytes

definition plain_call :: "monocypher \<Rightarrow> aead_call \<Rightarrow> bytes res" where
  "plain_call B c = ct_aead_encrypt B (ca_cipher c) (ca_key c) (ca_base c) (ca_seq c) (ca_ad c) (ca_plaintext c)"

fun hooked_calls :: "monocypher \<Rightarrow> aead_call list \<Rightarrow> nonce_observation list \<Rightarrow> bytes res list" where
  "hooked_calls B [] xs = []"
| "hooked_calls B (c # cs) xs =
     (case ct_aead_encrypt_hooked B (ca_cipher c) (ca_key c) (ca_base c) (ca_seq c) (ca_ad c) (ca_plaintext c) xs of
        (r, xs') \<Rightarrow> r # hooked_calls B cs xs')"

definition mark :: "monocypher \<Rightarrow> aead_call \<Rightarrow> nonce_observation" where
  "mark B c = \<lparr>no_key_fingerprint = take 16 (ct_crypto_hash B (ca_key c)), no_nonce = make_nonce (ca_base c) (ca_seq c)\<rparr>"

definition sealable :: "aead_call \<Rightarrow> bool" where
  "sealable c \<longleftrightarrow> ct_cipher_available (ca_cipher c) \<and> length (ca_plaintext c) \<le> 2 ^ 64 - 1 - 16"

definition marks_ok :: "nonce_observation list \<Rightarrow> bool" where
  "marks_ok xs \<longleftrightarrow> (\<forall>x\<in>set xs. length (no_key_fingerprint x) = 16 \<and> length (no_nonce x) = 24)"

lemma observed_eq:
  assumes "marks_ok xs" "length fingerprint = 32" "length nonce = 24"
  shows "observed fingerprint nonce xs = Ok (\<lparr>no_key_fingerprint = take 16 fingerprint, no_nonce = nonce\<rparr> \<in> set xs)"
  using assms(1)
proof (induction xs)
  case (Cons x xs)
  then have x: "length (no_key_fingerprint x) = 16" "length (no_nonce x) = 24" and rest: "marks_ok xs" by (simp_all add: marks_ok_def)
  have "x = \<lparr>no_key_fingerprint = take 16 fingerprint, no_nonce = nonce\<rparr> \<longleftrightarrow> no_key_fingerprint x = take 16 fingerprint \<and> no_nonce x = nonce"
    by (cases x) auto
  then show ?case using Cons.IH [OF rest] x assms(2,3) by (auto simp: crypto_equal_eq)
qed simp

lemma nonce_24: "length base = 16 \<Longrightarrow> length (make_nonce base seq) = 24"
  by (simp add: make_nonce_def)

lemma record_eq:
  assumes "hash_sizes B" "marks_ok xs" "length (ca_base c) = 16"
  shows "record_test_nonce B (ca_key c) (make_nonce (ca_base c) (ca_seq c)) xs =
    Ok (if mark B c \<in> set xs \<or> length xs = MAX_OBSERVATIONS then (False, xs) else (True, xs @ [mark B c]))"
proof -
  have "length (ct_crypto_hash B (ca_key c)) = 32" using assms(1) by (simp add: hash_sizes_def ct_crypto_hash_def)
  from observed_eq [OF assms(2) this nonce_24 [OF assms(3)]] show ?thesis
    by (simp add: record_test_nonce_def mark_def Let_def nonce_24 [OF assms(3)])
qed

lemma hooked_eq:
  assumes "hash_sizes B" "marks_ok xs" "length (ca_base c) = 16"
  shows "ct_aead_encrypt_hooked B (ca_cipher c) (ca_key c) (ca_base c) (ca_seq c) (ca_ad c) (ca_plaintext c) xs =
    (if sealable c \<and> (mark B c \<in> set xs \<or> length xs = MAX_OBSERVATIONS) then (Err, xs)
     else (plain_call B c, if sealable c then xs @ [mark B c] else xs))"
  by (auto simp: ct_aead_encrypt_hooked_def record_eq [OF assms] plain_call_def ct_aead_encrypt_def sealable_def Let_def split: prod.splits)

lemma mark_ok: "hash_sizes B \<Longrightarrow> length (ca_base c) = 16 \<Longrightarrow> marks_ok xs \<Longrightarrow> marks_ok (xs @ [mark B c])"
  by (simp add: marks_ok_def mark_def nonce_24 hash_sizes_def ct_crypto_hash_def)

text \<open>A run from any tracker that still has room.\<close>

lemma hooked_calls_eq:
  assumes "hash_sizes B" "\<forall>c\<in>set cs. length (ca_base c) = 16" "marks_ok xs" "length xs + length cs \<le> MAX_OBSERVATIONS" "i < length cs"
  shows "hooked_calls B cs xs ! i =
    (if sealable (cs ! i) \<and> (mark B (cs ! i) \<in> set xs \<or> (\<exists>j<i. sealable (cs ! j) \<and> mark B (cs ! j) = mark B (cs ! i))) then Err
     else plain_call B (cs ! i))"
  using assms(2-5)
proof (induction cs arbitrary: xs i)
  case (Cons c cs)
  have base: "length (ca_base c) = 16" using Cons.prems(1) by simp
  have room: "length xs \<noteq> MAX_OBSERVATIONS" using Cons.prems(3) by simp
  let ?xs = "if sealable c \<and> mark B c \<notin> set xs then xs @ [mark B c] else xs"
  have step: "hooked_calls B (c # cs) xs = (if sealable c \<and> mark B c \<in> set xs then Err else plain_call B c) # hooked_calls B cs ?xs"
    using room by (simp add: hooked_eq [OF assms(1) Cons.prems(2) base])
  show ?case
  proof (cases i)
    case (Suc i')
    have ok: "marks_ok ?xs" "length ?xs + length cs \<le> MAX_OBSERVATIONS"
      using mark_ok [OF assms(1) base Cons.prems(2)] Cons.prems(2,3) by auto
    have "i' < length cs" "\<forall>c\<in>set cs. length (ca_base c) = 16" using Suc Cons.prems(1,4) by simp_all
    from Cons.IH [OF this(2) ok this(1)] show ?thesis unfolding step Suc
      by (auto simp: Ex_less_Suc2)
  qed (simp add: step del: hooked_calls.simps)
qed simp

text \<open>
  C28: a test build refuses a repeated nonce and nothing else. In a run of at most 4096 encryptions from a
  reset tracker, whatever keys, nonce bases, sequence numbers and texts are passed, the result of
  each call is that of a build without the hook, except that a call fails when an earlier one
  used the same nonce under a key with the same fingerprint.
\<close>

theorem nonce_hook_exact:
  assumes "hash_sizes B" "\<forall>c\<in>set cs. length (ca_base c) = 16" "length cs \<le> 4096" "i < length cs"
  shows "hooked_calls B cs ct_test_nonce_tracker_reset ! i =
    (if sealable (cs ! i) \<and> (\<exists>j<i. sealable (cs ! j) \<and> mark B (cs ! j) = mark B (cs ! i)) then Err else plain_call B (cs ! i))"
  using hooked_calls_eq [OF assms(1,2) _ _ assms(4), of "[]"] assms(3)
  by (simp add: ct_test_nonce_tracker_reset_def marks_ok_def MAX_OBSERVATIONS_def)

definition two_calls :: "aead_call list" where
  "two_calls = replicate 2 \<lparr>ca_cipher = CT_CIPHER_CHACHA, ca_key = replicate 32 7, ca_base = replicate 16 8, ca_seq = 1, ca_ad = [], ca_plaintext = [9]\<rparr>"

theorem nonce_hook_exact_witness: "hooked_calls toy_backend two_calls ct_test_nonce_tracker_reset ! 1 = Err"
proof -
  have "sealable (two_calls ! 1)" "two_calls ! 0 = two_calls ! 1" by (simp_all add: two_calls_def sealable_def ct_cipher_available_def)
  then show ?thesis using nonce_hook_exact [OF toy_backend_laws(1), of two_calls 1] by (auto simp: two_calls_def)
qed

section \<open>Numbered frames\<close>

text \<open>Encryptions with one key and one base, for different sequence numbers, are never refused.\<close>

lemma hook_is_transparent:
  assumes "hash_sizes B" "\<forall>c\<in>set cs. length (ca_base c) = 16 \<and> ca_base c = base" "length cs \<le> 4096" "distinct (map ca_seq cs)"
  shows "hooked_calls B cs ct_test_nonce_tracker_reset = map (plain_call B) cs"
proof (rule nth_equalityI)
  have "length (hooked_calls B cs xs) = length cs" for xs by (induction cs arbitrary: xs) (auto split: prod.splits)
  then show len: "length (hooked_calls B cs ct_test_nonce_tracker_reset) = length (map (plain_call B) cs)" by simp
  fix i
  assume "i < length (hooked_calls B cs ct_test_nonce_tracker_reset)"
  then have i: "i < length cs" using len by simp
  have "mark B (cs ! j) \<noteq> mark B (cs ! i)" if "j < i" for j
  proof
    assume "mark B (cs ! j) = mark B (cs ! i)"
    then have "ct_put_u64 (ca_seq (cs ! j)) = ct_put_u64 (ca_seq (cs ! i))" using assms(2) that i by (simp add: mark_def make_nonce_def)
    then have "map ca_seq cs ! j = map ca_seq cs ! i" using that i by simp
    then show False using assms(4) that i nth_eq_iff_index_eq [of "map ca_seq cs" j i] by simp
  qed
  moreover have "\<forall>c\<in>set cs. length (ca_base c) = 16" using assms(2) by blast
  ultimately show "hooked_calls B cs ct_test_nonce_tracker_reset ! i = map (plain_call B) cs ! i"
    using hooked_calls_eq [OF assms(1) _ _ _ i, of "[]"] assms(3) i by (auto simp: ct_test_nonce_tracker_reset_def marks_ok_def MAX_OBSERVATIONS_def)
qed

end
