(* ===== verification/Diagnostics.thy ===== *)
theory Diagnostics
  imports Log
begin

text \<open>
  The macros of \<open>src/src/util/log.h\<close>, which leave out the calls above the compiled level, and the
  diagnostics of \<open>src/src/protocol/diagnostics.c\<close>, with the two codecs of frame headers that report what they reject. The
  codecs themselves are in \<open>Wire\<close>; here they are shown to be the same functions with the report added.
\<close>

section \<open>Macros\<close>

datatype log_level = CT_LOG_LEVEL_ERROR | CT_LOG_LEVEL_WARN | CT_LOG_LEVEL_INFO | CT_LOG_LEVEL_DEBUG | CT_LOG_LEVEL_TRACE

fun level_value :: "log_level \<Rightarrow> int" where
  "level_value CT_LOG_LEVEL_ERROR = 0"
| "level_value CT_LOG_LEVEL_WARN = 1"
| "level_value CT_LOG_LEVEL_INFO = 2"
| "level_value CT_LOG_LEVEL_DEBUG = 3"
| "level_value CT_LOG_LEVEL_TRACE = 4"

text \<open>\<open>CONFIG_LOG_ERROR\<close> to \<open>CONFIG_LOG_TRACE\<close> are set up to the highest level of the build.\<close>

definition compiled_in :: "autoconf \<Rightarrow> log_level \<Rightarrow> bool" where
  "compiled_in k l \<longleftrightarrow> level_value l \<le> int (k_log_max k)"

definition ct_log_macro :: "autoconf \<Rightarrow> log_os \<Rightarrow> log_level \<Rightarrow> bytes \<Rightarrow> bytes \<Rightarrow> log_world \<Rightarrow> log_world" where
  "ct_log_macro k os l modl body w = (if compiled_in k l then ct_log_write k os (level_value l) modl body w else w)"

section \<open>Rejected frames\<close>

definition ct_protocol_diagnostic :: "autoconf \<Rightarrow> bool \<Rightarrow> log_os \<Rightarrow> bytes \<Rightarrow> log_world \<Rightarrow> log_world" where
  "ct_protocol_diagnostic k diagnostics os reason w =
     (if diagnostics then ct_log_macro k os CT_LOG_LEVEL_DEBUG (lit ''protocol'') (lit ''rejected input: '' @ reason) w else w)"

definition frame_header_encode_reporting :: "autoconf \<Rightarrow> bool \<Rightarrow> log_os \<Rightarrow> ct_frame_header \<Rightarrow> log_world \<Rightarrow> bytes res \<times> log_world" where
  "frame_header_encode_reporting k diagnostics os h w =
     (if \<not> ct_message_type_valid (fh_type h) \<or> unat (fh_payload_len h) > k_max_frame k
      then (Err, ct_protocol_diagnostic k diagnostics os (lit ''invalid outgoing frame header'') w)
      else (emits CT_FRAME_HEADER_SIZE []
        [ct_put_u32 CT_MAGIC, [CT_PROTOCOL_VERSION], [fh_type h], [fh_flags h],
         [of_nat CT_FRAME_HEADER_SIZE], ct_put_u32 (fh_payload_len h),
         ct_put_u64 (fh_session_id h), ct_put_u64 (fh_stream_id h), ct_put_u64 (fh_sequence h)], w))"

text \<open>The fields of a header with the right identity and type.\<close>

definition header_fields :: "bytes \<Rightarrow> ct_frame_header option res" where
  "header_fields p =
     andthen (rd_u32 p 0) (\<lambda>magic. andthen (rd_u8 p 4) (\<lambda>version. andthen (rd_u8 p 7) (\<lambda>hsize. andthen (rd_u8 p 5) (\<lambda>type.
     if magic \<noteq> CT_MAGIC \<or> version \<noteq> CT_PROTOCOL_VERSION \<or> hsize \<noteq> of_nat CT_FRAME_HEADER_SIZE \<or> \<not> ct_message_type_valid type then Ok None
     else andthen (rd_u8 p 6) (\<lambda>flags. andthen (rd_u32 p 8) (\<lambda>plen. andthen (rd_u64 p 12) (\<lambda>session.
          andthen (rd_u64 p 20) (\<lambda>stream. andthen (rd_u64 p 28) (\<lambda>sequence.
          Ok (Some \<lparr>fh_type = type, fh_flags = flags, fh_payload_len = plen, fh_session_id = session,
             fh_stream_id = stream, fh_sequence = sequence\<rparr>))))))))))"

definition frame_header_decode_reporting :: "autoconf \<Rightarrow> bool \<Rightarrow> log_os \<Rightarrow> bytes \<Rightarrow> log_world \<Rightarrow> ct_frame_header res \<times> log_world" where
  "frame_header_decode_reporting k diagnostics os p w =
     (case header_fields p of
        Fault \<Rightarrow> (Fault, w)
      | Err \<Rightarrow> (Err, w)
      | Ok None \<Rightarrow> (Err, ct_protocol_diagnostic k diagnostics os (lit ''invalid incoming frame identity or type'') w)
      | Ok (Some h) \<Rightarrow>
          if unat (fh_payload_len h) > k_max_frame k
          then (Err, ct_protocol_diagnostic k diagnostics os (lit ''incoming frame exceeds compiled payload limit'') w)
          else (Ok h, w))"

section \<open>What is reported\<close>

text \<open>A call that is compiled out would not have printed anything.\<close>

lemma macro_is_write:
  assumes "g_level s \<le> int (k_log_max k)"
  shows "ct_log_macro k os l modl body (s, w) = ct_log_write k os (level_value l) modl body (s, w)"
  using assms by (auto simp: ct_log_macro_def compiled_in_def ct_log_write_def)

lemma level_within: "g_level (log_start k) \<le> int (k_log_max k)" "g_level (ct_log_set_level k l s) \<le> int (k_log_max k)"
  by (simp_all add: log_start_def ct_log_set_level_def)

lemma logv_stderr: "snd (snd (logv os name modl body (s, files, err))) = err @ [log_line (lo_stamp os) name modl body]"
  by (auto simp: logv_def Let_def split: prod.splits if_splits option.splits)

definition report :: "autoconf \<Rightarrow> bool \<Rightarrow> log_os \<Rightarrow> log_state \<Rightarrow> bytes \<Rightarrow> bytes list" where
  "report k diagnostics os s reason =
     (if diagnostics \<and> 3 \<le> g_level s then [log_line (lo_stamp os) (lit ''debug'') (lit ''protocol'') (lit ''rejected input: '' @ reason)] else [])"

lemma diagnostic_stderr:
  assumes "g_level s \<le> int (k_log_max k)"
  shows "snd (snd (ct_protocol_diagnostic k diagnostics os reason (s, files, err))) = err @ report k diagnostics os s reason"
  using assms
  by (auto simp: ct_protocol_diagnostic_def macro_is_write ct_log_write_def logv_stderr report_def log_level_name_def)

lemma andthen_if: "andthen (if b then x else y) g = (if b then andthen x g else andthen y g)"
  by simp

lemma decode_fields:
  "ct_frame_header_decode k p = andthen (header_fields p) (\<lambda>h. case h of None \<Rightarrow> Err | Some h \<Rightarrow> if unat (fh_payload_len h) > k_max_frame k then Err else Ok h)"
  unfolding ct_frame_header_decode_def header_fields_def andthen_assoc andthen_if by (simp cong: if_cong)

lemma header_fields_not_Err: "header_fields p \<noteq> Err"
proof -
  have bind: "andthen x f \<noteq> Err" if "x \<noteq> Err" "\<And>a. f a \<noteq> Err" for x :: "'x res" and f :: "'x \<Rightarrow> 'y res"
    using that by (cases x) auto
  have "rd_u8 p i \<noteq> Err" "rd_u32 p i \<noteq> Err" "rd_u64 p i \<noteq> Err" for i by (simp_all add: rd_u8_def rd_u32_def rd_u64_def rd_def)
  note rds = this
  show ?thesis unfolding header_fields_def by (intro bind rds) (simp add: bind rds)
qed

definition rejection :: "bytes \<Rightarrow> bytes" where
  "rejection p = (if header_fields p = Ok None then lit ''invalid incoming frame identity or type'' else lit ''incoming frame exceeds compiled payload limit'')"

lemma decode_reporting:
  "frame_header_decode_reporting k diagnostics os p w = (ct_frame_header_decode k p,
     if ct_frame_header_decode k p = Err then ct_protocol_diagnostic k diagnostics os (rejection p) w else w)"
  using header_fields_not_Err [of p]
  by (auto simp: frame_header_decode_reporting_def decode_fields rejection_def split: res.splits option.splits)

lemma encode_reporting:
  "frame_header_encode_reporting k diagnostics os h w = (ct_frame_header_encode k h,
     if ct_frame_header_encode k h = Err then ct_protocol_diagnostic k diagnostics os (lit ''invalid outgoing frame header'') w else w)"
  unfolding frame_header_encode_reporting_def ct_frame_header_encode_def by (auto simp: emits_eq proto_defs)

text \<open>
  C27: diagnostics change nothing but the log, and report exactly the frames that are rejected. In every
  build and at every level, decoding a header with diagnostics gives the result of \<open>ct_frame_header_decode\<close>, encoding one
  that of \<open>ct_frame_header_encode\<close>; the standard error gets one line with the reason when the header is rejected, diagnostics are
  in the build and the level is debug or higher, and nothing otherwise.
\<close>

theorem diagnostics_exact:
  assumes "g_level s \<le> int (k_log_max k)"
  shows "(\<exists>w. frame_header_decode_reporting k diagnostics os p (s, files, err) = (ct_frame_header_decode k p, w) \<and>
      snd (snd w) = err @ (if ct_frame_header_decode k p = Err then report k diagnostics os s (rejection p) else [])) \<and>
    (\<exists>w. frame_header_encode_reporting k diagnostics os h (s, files, err) = (ct_frame_header_encode k h, w) \<and>
      snd (snd w) = err @ (if ct_frame_header_encode k h = Err then report k diagnostics os s (lit ''invalid outgoing frame header'') else []))"
  by (simp add: decode_reporting encode_reporting diagnostic_stderr [OF assms])

definition debug_build :: autoconf where
  "debug_build = default_defconfig\<lparr>k_log_max := 3\<rparr>"

theorem diagnostics_exact_witness:
  "\<exists>w. frame_header_decode_reporting debug_build True demo_log_os (replicate 36 0) (log_start debug_build, Map.empty, []) = (Err, w) \<and> length (snd (snd w)) = 1"
proof -
  have "ct_frame_header_decode debug_build (replicate 36 0) = Err"
    by (simp add: ct_frame_header_decode_def rd_u32_def rd_u8_def rd_def ct_message_type_valid_def)
  moreover have "g_level (log_start debug_build) = 3" "k_log_max debug_build = 3" by (simp_all add: log_start_def debug_build_def)
  ultimately show ?thesis using diagnostics_exact [of "log_start debug_build" debug_build True demo_log_os "replicate 36 0" Map.empty "[]"
      "\<lparr>fh_type = 0, fh_flags = 0, fh_payload_len = 0, fh_session_id = 0, fh_stream_id = 0, fh_sequence = 0\<rparr>"]
    by (auto simp: report_def)
qed

end
