(* ===== verification/Spec2Isabelle.thy ===== *)
theory Spec2Isabelle
  imports Wire Ring Metrics Replay Endpoint Proxy_Protocol Crypto Keyfile Socket Channel Binding Handshake
    Platform Applets Runs Stream_Setup Descriptors Nonce_Tracker Diagnostics
begin

text \<open>
  Ctunnel is a reverse tunnel written in C. A client behind a firewall connects to a public server,
  both authenticate each other, and the client registers services. For every connection the server
  accepts on the public port of a service it takes an idle work connection from the client's pool,
  tells the client which service it is for, and both sides relay the bytes between their local socket
  and the work connection, encrypted when the service asks for it. UDP datagrams travel inside the
  control connection. This development models that program function by function, from its sources
  under \<open>src/src\<close>, and proves what makes its parts correct.

  \<^bold>\<open>The parts and their theories\<close>

  \<^item> \<open>Ctunnel_Prelude\<close> and \<open>Autoconf\<close>: the result type \<open>res\<close> (\<open>Ok\<close>, \<open>Err\<close> for an error return, \<open>Fault\<close>
    for a memory access out of bounds), bounded copies and reads, C strings, and the symbols of the
    generated header \<open>autoconf.h\<close> as a record, with the ranges of \<open>Kconfig\<close>.
  \<^item> \<open>Wire\<close> (\<open>protocol.c\<close>): integers, strings, frame headers, record headers, the registration request.
  \<^item> \<open>Ring\<close>, \<open>Metrics\<close>, \<open>Replay\<close> (\<open>ring.c\<close>, \<open>metrics.c\<close>, the sliding windows of \<open>net.c\<close> and \<open>server.c\<close>): a byte
    queue in a circular buffer, the saturating counters, and the replay windows of work connections
    and datagrams.
  \<^item> \<open>Endpoint\<close>, \<open>Proxy_Protocol\<close> (\<open>net.c\<close>, \<open>server.c\<close>, \<open>proxy_protocol.c\<close>): socket addresses, the datagram
    format, the overlap test of listeners, the PROXY headers.
  \<^item> \<open>Crypto\<close>, \<open>Keyfile\<close> (\<open>crypto_monocypher.c\<close>): key derivation, sealing and opening, constant-time
    comparison, key files and their Base64. The primitives of Monocypher are the parameter record
    \<open>monocypher\<close>; what they promise are the named predicates \<open>hash_sizes\<close>, \<open>aead_sizes\<close>, \<open>aead_opens\<close>,
    \<open>aead_exact\<close>, \<open>x25519_agrees\<close>, \<open>eddsa_signs\<close> and the like, which \<open>toy_backend\<close> satisfies.
  \<^item> \<open>Socket\<close>, \<open>Channel\<close>, \<open>Binding\<close>, \<open>Handshake\<close> (\<open>net.c\<close>): the sending and receiving loops over a script of
    what the socket will do, plain and sealed frames, the binding of work connections and the
    messages that start a stream, the three-message handshake.
  \<^item> \<open>Relay\<close>, \<open>Relay_Encrypted\<close> (\<open>relay.c\<close>): the relay of one stream. Its state is \<open>ct_relay\<close>, its two
    sockets, the counters and the descriptors it closes or shuts form \<open>relay_env\<close>, one event is
    \<open>ct_relay_process\<close>, a run is a list of events.
  \<^item> \<open>Config_Types\<close>, \<open>Config\<close>, \<open>Config_Valid\<close> (\<open>ctunnel.h\<close>, \<open>config.c\<close>, the level names of \<open>log.c\<close>): the
    configuration records, the parser of the configuration file and of the list of authorized
    clients, and the final checks. A file is its content; errors are values of \<open>config_error\<close>.
  \<^item> \<open>Event_Loop\<close>: reachable states and their invariants (locale \<open>loop_invariant\<close>), and rules for what an
    operation guarantees of its result.
  \<^item> \<open>Server_Peer\<close>, \<open>Server_Udp\<close>, \<open>Server_Streams\<close>, \<open>Server\<close> (\<open>server.c\<close>): the peers with their services, work,
    pending and starting connections, relays and datagram sessions; registration, the matching of
    pending with work connections, datagrams in both directions; and the event loop, one definition
    per kind of event and per timer, composed into \<open>server_step\<close>. Pointers into the arrays of a peer
    are indices. The environment \<open>server_env\<close> holds the counters, all sockets by descriptor and the
    descriptors closed so far; the answers of the system during one event are the record \<open>os\<close>.
  \<^item> \<open>Client_Udp\<close>, \<open>Client\<close>, \<open>Client_Properties\<close> (\<open>client.c\<close>): the datagram sessions of the client, the
    registration of its services, the pool of work connections, the start of streams, the events and
    timers of a session composed into \<open>client_step\<close>, its end, and the pauses between sessions. The
    environment is that of the server, the answers of the system are the record \<open>client_os\<close>.
  \<^item> \<open>Event_Backends\<close>, \<open>Registrations\<close> (\<open>event_poll.c\<close>, \<open>event_epoll.c\<close>, \<open>event_kqueue.c\<close>, the registration loops of
    \<open>server.c\<close> and \<open>client.c\<close>): the tables of the three back ends with the interest lists of the kernel, the
    references the two event loops register before each wait, and a whole turn of each loop,
    \<open>server_turn\<close> and \<open>client_turn\<close>. \<open>Tables\<close> holds the lookup and removal all these arrays share.

  \<^item> \<open>Log\<close>, \<open>Platform\<close>, \<open>Applets\<close> (\<open>log.c\<close>; \<open>platform.c\<close> and \<open>runtime.c\<close> for Linux; \<open>src/src/applets\<close>): the log file with its
    size limit and daily rotation, over a map from paths to contents; the clock, sleeping, random bytes
    and the flag that stops the loops; and the command line, from \<open>main\<close> to the configuration, log state
    and role it starts. \<open>ct_main\<close> ends in \<open>Exits\<close> or in \<open>Starts\<close>, where \<open>ct_run_server\<close> and \<open>ct_run_client\<close> begin.
  \<^item> \<open>Runs\<close> (\<open>server.c\<close>, \<open>client.c\<close>): both programs from their start to their return, over a list of the turns
    of their loops and, for the client, of its sessions with the pauses between them.
  \<^item> \<open>Stream_Setup\<close>: the two programs together, from the offer of a stream by the server over the answer of
    the client to the relays on both sides. It has no definitions of its own that model code.
  \<^item> \<open>Descriptors\<close> (\<open>server.c\<close>, \<open>client.c\<close>): how many descriptors the roles recommend and hold.
  \<^item> \<open>Nonce_Tracker\<close>, \<open>Diagnostics\<close> (\<open>crypto_monocypher.c\<close>; \<open>log.h\<close>, \<open>diagnostics.c\<close>): the hook of test builds that refuses repeated
    nonces, and the macros and reports that only exist at some log levels.

  \<^bold>\<open>State and effects\<close>

  Structures of the source are records with its field names behind a prefix; a fixed array with a
  count is a list, and the definitions write out what happens at its capacity. A descriptor is an
  \<open>int\<close>, a socket the record \<open>sock\<close>: the results its receives and sends will have, and what was written
  to it. Blocking, partial and failing system calls are values of that script, so a theorem that
  quantifies over sockets covers every order of partial reads, would-block answers and failures.
  Integers keep their width (\<open>u8\<close> to \<open>u64\<close>); \<open>size_t\<close> values are naturals with the wrap-around written
  out where the code subtracts.

  \<^bold>\<open>What is shown\<close>

  \<^item> Handshake: honest parties complete it with equal keys; the server accepts only an authorized
    client that signed this exchange, the client only the configured server; transcripts are
    injective.
  \<^item> Channel and binding: messages arrive in order and unchanged, an accepted frame is the next one
    of the peer, no nonce the cipher is called with is used twice, a work connection is bound once, the stream messages round
    trip, and the exact conditions under which three fixed buffers of the message authentication
    codes overflow.
  \<^item> Relay: for every sequence of events the bytes sent are a prefix of the bytes received, nothing is
    accessed out of bounds, and a relay that ends in order has delivered the whole stream; an
    unencrypted relay ends in any other way only when a socket fails or a read does not fit its ring;
    the same for two encrypted relays joined by a work connection, from \<open>ct_relay_init\<close> on both sides. The
    contract between a relay's stages and its run is the locale \<open>relay_contract\<close>, interpreted for
    unencrypted and for encrypted streams.
  \<^item> Ring, replay windows, metrics, endpoints, headers, key files: refinement of a queue by every sequence
    of writes, reads, peeks and consumes with their results (locale \<open>byte_fifo\<close>, interpreted by the ring), exactly-once acceptance, high-water marks, codecs.
  \<^item> Configuration: what loads is usable, the table of clients is unambiguous, lines are handled in
    order up to the first error (locale \<open>line_reader\<close>, interpreted by both loaders).
  \<^item> Server (\<open>Server_Invariants\<close>, \<open>Server_Admission\<close> for the event loop): for every sequence of events and
    answers of the system only authorized clients hold sessions, for authorized services, a free slot
    holds no connection, service or session, all tables and configured limits hold (\<open>within_limits\<close>) and no
    service reference dangles; an honest client is admitted in two events;
    stopping closes everything. A peer can only open services its entry allows; matching is in order and gives every
    descriptor one owner; closing a peer closes what it holds; datagrams of a client only reach
    endpoints that sent to the same listener before; one failing path closes descriptors twice.
  \<^item> Client: for every sequence of events, whatever the server sends, its tables fit their arrays and
    datagram sessions belong to UDP services of its own configuration; what the server decodes of a
    registration is what the client configured; the end of a session closes exactly what it holds;
    the pauses before reconnecting stay within the configured bounds as long as they fit an \<open>int\<close>, and
    exactly when they do not fit is stated.
  \<^item> Event loops: the three back ends install the same interests in the kernel (locale \<open>event_backend\<close>,
    interpreted three times; \<open>event_backend_modify\<close>, interpreted for \<open>poll\<close> and \<open>epoll\<close>); in every reachable
    state the references of a turn fit their array, and what is reported was registered in that turn.

  \<^item> Command line, log and platform: whatever the arguments and files are, \<open>main\<close> starts a role only with
    a usable configuration of that role whose key files passed the security checks; no sequence of log
    calls lets a log file exceed its limit or touches a file of another name, and rotation keeps the
    files of the configured days; random bytes are complete or refused, and the loops that fetch them
    return however they are interrupted.

  \<^item> Whole runs: from the command line to the last event the server only serves whom its operator
    authorized; a run of the server ends only when asked to and closes all it holds; a run of the
    client ends only when asked to, and each of its pauses is the doubled, clamped and jittered delay. When the server starts a
    stream over a work connection, both sides agree on its service, encryption and random value, and
    what each side of an encrypted stream passes on is a prefix of what the other side's local socket
    delivered. In every reachable state
    the server holds at most the descriptors it recommends and the idle work connections.
  \<^item> Optional code: a test build refuses a repeated nonce and nothing else; diagnostics change nothing
    but the log and report exactly the rejected frames.

  \<^bold>\<open>Termination and bounds\<close>

  No definition uses fuel: loops are structural recursions or \<open>function\<close>s with a measure (the script of
  the socket for \<open>recvall\<close>, the receive sequence numbers left for \<open>await_registered\<close>, the buffered bytes for \<open>decrypt_ready\<close>, the rest of the file for the
  loaders). The small builds of the witnesses shrink buffer sizes only to keep evaluation short.

  \<^bold>\<open>Not modelled\<close>

  Which log lines the server and the client write, and the texts of error messages (they are values of
  \<open>config_error\<close> and \<open>applet_error\<close>, or only the exit code); the Windows and BSD branches of the platform layer; the
  allocation and release of memory, except where a failing allocation changes what is closed; the
  vendored Monocypher primitives, which are parameters; builds without
  \<open>CONFIG_FEATURE_TCP_KEEPALIVE_TUNING\<close> beyond the definition \<open>gai_sock_untuned\<close>, because there \<open>gai_sock\<close>
  returns no value when no socket can be had; the
  build scripts, whose result is the record of symbols.
\<close>

section \<open>The whole program\<close>

lemma serves_reachable:
  assumes "clients_usable k cfg" "reach (server_boot k control) (server_moves B k cfg) srv"
  shows "within_limits k cfg srv \<and>
    (\<forall>p\<in>set (sx_peers srv). pe_active p \<longrightarrow>
       (\<exists>a. pe_auth p = Some a \<and> ct_authorized_find cfg (au_id a) = Some a \<and> client_ok k a \<and> au_public_key a \<noteq> [] \<and>
          length (pe_svc p) \<le> service_limit cfg a \<and> active_streams p \<le> stream_limit cfg a \<and>
          (\<forall>s\<in>set (pe_svc p). ct_authorized_port a (sv_remote_addr (sr_cfg s)) (sv_remote_port (sr_cfg s)))))"
proof (intro conjI ballI impI)
  show "within_limits k cfg srv" by (rule reach_within [OF assms(2)])
  fix p
  assume p: "p \<in> set (sx_peers srv)" "pe_active p"
  with srv.inv_reach [OF assms(2)] obtain a where a: "pe_auth p = Some a" "a \<in> set (cf_clients cfg)" "length (pe_svc p) \<le> service_limit cfg a"
    "active_streams p \<le> stream_limit cfg a"
    "\<forall>s\<in>set (pe_svc p). ct_authorized_port a (sv_remote_addr (sr_cfg s)) (sv_remote_port (sr_cfg s))"
    by (fastforce simp: server_inv_def peer_inv_def authorized_services_def split: option.splits)
  with assms(1) show "\<exists>a. pe_auth p = Some a \<and> ct_authorized_find cfg (au_id a) = Some a \<and> client_ok k a \<and> au_public_key a \<noteq> [] \<and>
        length (pe_svc p) \<le> service_limit cfg a \<and> active_streams p \<le> stream_limit cfg a \<and>
        (\<forall>s\<in>set (pe_svc p). ct_authorized_port a (sv_remote_addr (sr_cfg s)) (sv_remote_port (sr_cfg s)))"
    by (auto simp: clients_usable_def)
qed

text \<open>
  C5: from the command line to the last event, the server only serves whom its operator authorized. If
  \<open>main\<close> starts the server, whatever the arguments, the files and the environment were, then in every
  state its events and timers can lead to, whatever arrives, every active peer carries the one entry
  of the list of clients with its name, a complete entry, and has no more services and streams than
  that entry and the configuration allow, each service at an address and port the entry allows. The
  state is within all the limits of \<open>within_limits\<close>: \<open>max_clients\<close>, \<open>max_pending_streams\<close>, the services,
  streams and datagram sessions of each peer, the connections that wait to authenticate, and every array of
  the build.
\<close>

theorem program_serves_authorized:
  assumes "kconfig_ranges k" "ct_main B k b env argv = (out, fs', Starts CT_MODE_SERVER cfg s)"
    "reach (server_boot k control) (server_moves B k cfg) srv"
  shows "within_limits k cfg srv \<and>
    (\<forall>p\<in>set (sx_peers srv). pe_active p \<longrightarrow>
       (\<exists>a. pe_auth p = Some a \<and> ct_authorized_find cfg (au_id a) = Some a \<and> client_ok k a \<and> au_public_key a \<noteq> [] \<and>
          length (pe_svc p) \<le> service_limit cfg a \<and> active_streams p \<le> stream_limit cfg a \<and>
          (\<forall>s\<in>set (pe_svc p). ct_authorized_port a (sv_remote_addr (sr_cfg s)) (sv_remote_port (sr_cfg s)))))"
proof -
  have "clients_usable k cfg" using main_hands_over [OF assms(1,2)] by (simp add: started_ok_def)
  from serves_reachable [OF this assms(3)] show ?thesis .
qed

text \<open>
  The server started by \<open>ctunnel-server -c s.conf\<close> with one authorized client, after that client has
  connected and authenticated.
\<close>

theorem program_serves_authorized_witness:
  "\<exists>out fs' cfg s srv p a. ct_main toy_backend default_defconfig applet_demo_build demo_applet_env demo_argv = (out, fs', Starts CT_MODE_SERVER cfg s) \<and>
     reach (server_boot default_defconfig [3]) (server_moves toy_backend default_defconfig cfg) srv \<and>
     p \<in> set (sx_peers srv) \<and> pe_active p \<and> pe_auth p = Some a \<and> au_id a = lit ''edge'' \<and> client_ok default_defconfig a \<and>
     length (filter pe_active (sx_peers srv)) \<le> size_of_int (cf_max_clients cfg)"
proof -
  let ?k = default_defconfig
  obtain cfg s a where run: "ct_main toy_backend ?k applet_demo_build demo_applet_env demo_argv = ([], demo_files, Starts CT_MODE_SERVER cfg s)"
    and c: "bit (cf_cipher_mask cfg) 1" "cf_identity_private_key cfg = lit ''k''" "cf_clients cfg = [a]" "au_id a = lit ''edge''" "au_public_key a = lit ''pub''"
    using demo_main_starts by blast
  have "exchange_ok toy_backend ?k (demo_fs [1] [2]) demo_config demo_files cfg a demo_exchange"
    using demo_exchange_ok c demo_keys unfolding exchange_ok_def by (simp add: ct_authorized_find_def demo_config_def demo_exchange_def)
  moreover have "cf_max_clients cfg \<in> {1..int (k_max_clients ?k)}"
    using main_hands_over [OF default_ranges run] unfolding started_ok_def config_usable_def common_ok_def by blast
  then have "0 < size_of_int (cf_max_clients cfg)" by (simp add: size_of_pos clients_four)
  ultimately obtain srv p where p: "reach (server_boot ?k [3]) (server_moves toy_backend ?k cfg) srv" "p \<in> set (sx_peers srv)" "pe_active p" "pe_auth p = Some a"
    using demo_joins by blast
  from program_serves_authorized [OF default_ranges run p(1)] p(2-4) have "client_ok ?k a" "length (filter pe_active (sx_peers srv)) \<le> size_of_int (cf_max_clients cfg)"
    by (auto simp: within_limits_def)
  with run p c(4) show ?thesis by blast
qed

text \<open>The same for the loop itself, after every number of its turns.\<close>

lemma program_loop_within:
  assumes "kconfig_ranges k" "ct_main B k b env argv = (out, fs', Starts CT_MODE_SERVER cfg s)"
    "server_loop B k cfg turns (server_boot k control) e = Ok (left, srv, e')"
  shows "within_limits k cfg srv \<and> (\<forall>p\<in>set (sx_peers srv). pe_active p \<longrightarrow> (\<exists>a. pe_auth p = Some a \<and> ct_authorized_find cfg (au_id a) = Some a))"
proof -
  have "clients_usable k cfg" using main_hands_over [OF assms(1,2)] by (simp add: started_ok_def)
  from serves_reachable [OF this] server_loop_reach [OF reach_start assms(3)] show ?thesis by blast
qed

text \<open>
  From the command line to the last event, the client only forwards datagrams to services its operator
  configured. If \<open>main\<close> starts the client, then in every session that starts and after every number of
  turns, whatever the server sends, all tables fit their arrays and each active datagram session
  belongs to a service of the configuration, a usable one of type UDP.
\<close>

lemma program_forwards_configured:
  assumes "kconfig_ranges k" "ct_main B k b env argv = (out, fs', Starts CT_MODE_CLIENT cfg s)"
    "client_start B k os cfg fs secret nonce memory e = Ok (Inr c0, e1)" "client_loop B k cfg turns c0 e1 = Ok (left, c, e2)"
  shows "length (cl_work c) \<le> k_max_streams k \<and> length (cl_relays c) = k_max_streams k \<and> length (cl_udp c) = k_max_udp_sessions k \<and>
    (\<forall>u\<in>set (cl_udp c). cu_active u \<longrightarrow> (\<exists>svc\<in>set (cf_services cfg). cf_services cfg ! cu_svc u = svc \<and> service_usable k svc \<and> sv_type svc = 2))"
proof -
  have usable: "\<forall>s\<in>set (cf_services cfg). service_usable k s" using main_hands_over [OF assms(1,2)] by (simp add: started_ok_def config_usable_def)
  obtain fd ctl where "reach (client_boot k fd ctl) (client_moves B k cfg) c0" using client_start_reach [OF assms(3)] by blast
  from clt.inv_reach [OF client_loop_reach [OF this assms(4)]] have inv: "client_inv k cfg fd c" .
  then show ?thesis using usable by (auto simp: client_inv_def sessions_inv_def session_ok_def)
qed

end
